(* ===== verification/Prelude.thy ===== *)
theory Prelude
  imports Complex_Main "HOL-Library.Sublist"
begin

text \<open>Shared vocabulary of the development: the types every component uses
  (identifiers, instants in microseconds), Python's list and dict idioms
  (truthiness of optional strings, \<open>dict.fromkeys\<close> for an ordered
  duplicate removal, slices, replacement of a keyed element), and the generic lemmas
  about them that carry the component proofs.\<close>

named_theorems run_defs "definitions of the run lifecycle that proofs unfold together"
named_theorems step_inv "one preservation lemma per operation of the run lifecycle"
named_theorems limit_inv "one preservation lemma per operation of the bounded caller"

section \<open>Identifiers and instants\<close>

type_synonym ident = string
type_synonym instant = int

definition microseconds :: "int \<Rightarrow> int" where
  "microseconds s = s * 1000000"

lemma microseconds_pos [simp]: "0 < microseconds s \<longleftrightarrow> 0 < s"
  by (simp add: microseconds_def zero_less_mult_iff)

lemma microseconds_max_pos [simp]: "0 < microseconds (max 1 s)"
  by simp

section \<open>Optional values\<close>

text \<open>Truthiness of an optional string: \<open>isinstance(v, str) and v\<close>.\<close>

fun nonempty_str :: "string option \<Rightarrow> string option" where
  "nonempty_str None = None"
| "nonempty_str (Some s) = (if s = [] then None else Some s)"

lemma nonempty_str_Some [simp]:
  "nonempty_str v = Some s \<longleftrightarrow> v = Some s \<and> s \<noteq> []"
  by (cases v) auto

lemma nonempty_str_Some' [simp]:
  "Some s = nonempty_str v \<longleftrightarrow> v = Some s \<and> s \<noteq> []"
  by (cases v) auto

section \<open>Lists\<close>

lemma length_filter_imp: "(\<And>x. x \<in> set xs \<Longrightarrow> P x \<Longrightarrow> Q x) \<Longrightarrow> length (filter P xs) \<le> length (filter Q xs)"
  by (induction xs) (auto intro: le_SucI)

text \<open>\<open>str.split\<close> and \<open>str.join\<close> with one separating character.\<close>

fun split_on :: "'a \<Rightarrow> 'a list \<Rightarrow> 'a list list" where
  "split_on a [] = [[]]"
| "split_on a (c # cs) =
     (case split_on a cs of
        [] \<Rightarrow> [[c]]
      | x # xs \<Rightarrow> if c = a then [] # x # xs else (c # x) # xs)"

fun join_with :: "'a \<Rightarrow> 'a list list \<Rightarrow> 'a list" where
  "join_with a [] = []"
| "join_with a [x] = x"
| "join_with a (x # y # xs) = x @ a # join_with a (y # xs)"

lemma split_on_nonempty [simp]: "split_on a s \<noteq> []"
  by (induction s) (auto split: list.splits)

lemma split_on_item: "a \<notin> set x \<Longrightarrow> split_on a x = [x]"
  by (induction x) auto

lemma split_on_append: "a \<notin> set x \<Longrightarrow> split_on a (x @ a # s) = x # split_on a s"
proof (induction x)
  case Nil
  then show ?case using split_on_nonempty[of a s] by (auto simp del: split_on_nonempty split: list.splits)
qed auto

lemma split_join: "xs \<noteq> [] \<Longrightarrow> \<forall>x\<in>set xs. a \<notin> set x \<Longrightarrow> split_on a (join_with a xs) = xs"
  by (induction a xs rule: join_with.induct) (simp_all add: split_on_item split_on_append)

section \<open>Ordered duplicate removal\<close>

text \<open>\<open>list(dict.fromkeys(xs))\<close>: the first occurrence of each element, in order.\<close>

fun dedup :: "'a list \<Rightarrow> 'a list" where
  "dedup [] = []"
| "dedup (x # xs) = x # filter (\<lambda>y. y \<noteq> x) (dedup xs)"

lemma set_dedup [simp]: "set (dedup xs) = set xs"
  by (induction xs) auto

lemma distinct_dedup [simp]: "distinct (dedup xs)"
  by (induction xs) auto

lemma length_dedup_le: "length (dedup xs) \<le> length xs"
  by (induction xs) (simp_all add: le_trans[OF length_filter_le])

lemma dedup_distinct: "distinct xs \<Longrightarrow> dedup xs = xs"
proof (induction xs)
  case (Cons x xs)
  then have "filter (\<lambda>y. y \<noteq> x) xs = xs"
    by (auto intro!: filter_True)
  with Cons show ?case by simp
qed simp

lemma dedup_idem [simp]: "dedup (dedup xs) = dedup xs"
  by (simp add: dedup_distinct)

section \<open>Assignment through the object a search found\<close>

text \<open>\<open>next((x for x in xs if P x), None)\<close> is \<open>find\<close>; a mutation of the object it returned is
  \<open>update_first\<close>.\<close>

fun update_first :: "('a \<Rightarrow> bool) \<Rightarrow> ('a \<Rightarrow> 'a) \<Rightarrow> 'a list \<Rightarrow> 'a list" where
  "update_first P f [] = []"
| "update_first P f (x # xs) = (if P x then f x # xs else x # update_first P f xs)"

lemma length_update_first [simp]: "length (update_first P f xs) = length xs"
  by (induction xs) auto

lemma map_update_first [simp]: "(\<And>x. g (f x) = g x) \<Longrightarrow> map g (update_first P f xs) = map g xs"
  by (induction xs) auto

lemma update_first_id: "find P xs = None \<Longrightarrow> update_first P f xs = xs"
  by (induction xs) (auto split: if_splits)

lemma set_update_first_subset: "set (update_first P f xs) \<subseteq> set xs \<union> f ` {x \<in> set xs. P x}"
  by (induction xs) auto

lemma update_first_all:
  assumes "\<And>x. x \<in> set xs \<Longrightarrow> Q x" and "\<And>x. x \<in> set xs \<Longrightarrow> P x \<Longrightarrow> Q (f x)"
  shows "x \<in> set (update_first P f xs) \<Longrightarrow> Q x"
  using set_update_first_subset[of P f xs] assms by blast

lemma find_Some_mem: "find P xs = Some x \<Longrightarrow> x \<in> set xs \<and> P x"
  by (induction xs) (auto split: if_splits)

lemma find_update_first:
  "find P xs = Some x \<Longrightarrow> (\<And>y. P (f y) = P y) \<Longrightarrow> find P (update_first P f xs) = Some (f x)"
  by (induction xs) (auto split: if_splits)

lemma find_update_first_other:
  "(\<And>y. Q (f y) = Q y) \<Longrightarrow> (\<And>y. Q y \<Longrightarrow> \<not> P y) \<Longrightarrow> find Q (update_first P f xs) = find Q xs"
  by (induction xs) auto

lemma split_update_first:
  "find P xs = Some x \<Longrightarrow> \<exists>ys zs. xs = ys @ x # zs \<and> update_first P f xs = ys @ f x # zs"
proof (induction xs)
  case (Cons y xs)
  show ?case
  proof (cases "P y")
    case True
    with Cons.prems show ?thesis by auto
  next
    case False
    with Cons obtain ys zs where "xs = ys @ x # zs" "update_first P f xs = ys @ f x # zs"
      by auto
    with False have "y # xs = (y # ys) @ x # zs \<and> update_first P f (y # xs) = (y # ys) @ f x # zs"
      by simp
    then show ?thesis by blast
  qed
qed simp

text \<open>SQL's \<open>UPDATE\<close> with a condition.\<close>

definition update_where :: "('a \<Rightarrow> bool) \<Rightarrow> ('a \<Rightarrow> 'a) \<Rightarrow> 'a list \<Rightarrow> 'a list" where
  "update_where P f xs = map (\<lambda>x. if P x then f x else x) xs"

lemma update_where_simps [simp]:
  "update_where P f [] = []"
  "update_where P f (x # xs) = (if P x then f x else x) # update_where P f xs"
  by (simp_all add: update_where_def)

lemma length_update_where [simp]: "length (update_where P f xs) = length xs"
  by (simp add: update_where_def)

lemma set_update_where: "y \<in> set (update_where P f xs) \<Longrightarrow> \<exists>x\<in>set xs. y = (if P x then f x else x)"
  by (auto simp: update_where_def)

lemma map_update_where [simp]: "(\<And>x. g (f x) = g x) \<Longrightarrow> map g (update_where P f xs) = map g xs"
  by (induction xs) auto

lemma update_where_none: "(\<And>x. x \<in> set xs \<Longrightarrow> \<not> P x) \<Longrightarrow> update_where P f xs = xs"
  by (induction xs) auto

lemma distinct_map_eq:
  "distinct (map f xs) \<Longrightarrow> x \<in> set xs \<Longrightarrow> y \<in> set xs \<Longrightarrow> f x = f y \<Longrightarrow> x = y"
  unfolding distinct_map inj_on_def by blast

lemma filter_last_split:
  assumes "filter Q xs \<noteq> []"
  shows "\<exists>ys zs. xs = ys @ last (filter Q xs) # zs \<and> Q (last (filter Q xs)) \<and> (\<forall>z\<in>set zs. \<not> Q z)"
proof -
  have "\<exists>x\<in>set xs. Q x" using assms by (auto simp: filter_empty_conv)
  then obtain ys x zs where xs: "xs = ys @ x # zs" "Q x" "\<forall>z\<in>set zs. \<not> Q z"
    using split_list_last_prop by metis
  then have l: "last (filter Q xs) = x" by (simp add: filter_False)
  show ?thesis unfolding l using xs by blast
qed

section \<open>Decimal rounding\<close>

text \<open>\<open>round(x, 1)\<close> on an exact value: to one decimal, a half to the even digit.\<close>

definition round_half_even :: "rat \<Rightarrow> int" where
  "round_half_even y =
     (let f = \<lfloor>y\<rfloor>; d = y - of_int f
      in if d < 1 / 2 then f else if 1 / 2 < d then f + 1 else if even f then f else f + 1)"

definition round1 :: "rat \<Rightarrow> rat" where
  "round1 x = of_int (round_half_even (10 * x)) / 10"

lemma round_half_even_of_int [simp]: "round_half_even (of_int n) = n"
  by (simp add: round_half_even_def Let_def)

lemma round1_idem [simp]: "round1 (round1 x) = round1 x"
  by (simp add: round1_def)

lemma round_half_even_nonneg: "0 \<le> y \<Longrightarrow> 0 \<le> round_half_even y"
  by (auto simp: round_half_even_def Let_def)

lemma round1_nonneg: "0 \<le> x \<Longrightarrow> 0 \<le> round1 x"
  by (simp add: round1_def round_half_even_nonneg)


section \<open>ASCII strings\<close>

definition lower_char :: "char \<Rightarrow> char" where
  "lower_char c =
     (let n = (of_char c :: nat) in if 65 \<le> n \<and> n \<le> 90 then char_of (n + 32) else c)"

definition lower :: "string \<Rightarrow> string" where
  "lower s = map lower_char s"

definition upper_char :: "char \<Rightarrow> char" where
  "upper_char c =
     (let n = (of_char c :: nat) in if 97 \<le> n \<and> n \<le> 122 then char_of (n - 32) else c)"

definition upper :: "string \<Rightarrow> string" where
  "upper s = map upper_char s"

definition is_space :: "char \<Rightarrow> bool" where
  "is_space c = (let n = (of_char c :: nat) in n = 32 \<or> (9 \<le> n \<and> n \<le> 13) \<or> (28 \<le> n \<and> n \<le> 31) \<or> n = 133 \<or> n = 160)"

definition strip :: "string \<Rightarrow> string" where
  "strip s = rev (dropWhile is_space (rev (dropWhile is_space s)))"

definition is_digit :: "char \<Rightarrow> bool" where
  "is_digit c = (let n = (of_char c :: nat) in 48 \<le> n \<and> n \<le> 57)"

definition is_numeral :: "string \<Rightarrow> bool" where
  "is_numeral s = (s \<noteq> [] \<and> list_all is_digit s)"

definition numeral_value :: "string \<Rightarrow> int" where
  "numeral_value s = foldl (\<lambda>n c. 10 * n + (int (of_char c) - 48)) 0 s"

definition replace_char :: "char \<Rightarrow> char \<Rightarrow> string \<Rightarrow> string" where
  "replace_char a b s = map (\<lambda>c. if c = a then b else c) s"

end
