(* ===== verification/RunClaim.thy ===== *)
theory RunClaim
  imports Prelude
begin

text \<open>The lease of the runtime dispatcher and the fencing token of an execution
  (\<open>agent/backend/app/features/agent/run_claim.py\<close>). The two reserved keys of the run's
  metadata are record fields. A field that is absent, or whose value has another type than
  the code accepts, is \<open>None\<close> (generation 0), which is how the code reads it. Fresh
  \<open>uuid4().hex\<close> tokens and the clock are arguments.\<close>

section \<open>Data\<close>

record claim =
  claim_run :: ident
  claim_worker :: ident
  claim_token :: string
  claim_generation :: int

record lease =
  lease_worker :: "ident option"
  lease_token :: "string option"
  lease_generation :: int
  lease_claimed_at :: instant
  lease_expires_at :: "instant option"

record execution =
  exec_token :: "string option"
  exec_generation :: int
  exec_worker :: "ident option"
  exec_started_at :: instant

record claim_metadata =
  md_lease :: "lease option"
  md_execution :: "execution option"

datatype rejection =
  NotQueued | LeaseMissing | LeaseMismatch | LeaseExpired | LeaseHeld

section \<open>Operations\<close>

definition generation_of :: "('a claim_metadata_scheme) \<Rightarrow> int" where
  "generation_of md =
     max (case md_lease md of None \<Rightarrow> 0 | Some l \<Rightarrow> lease_generation l)
         (case md_execution md of None \<Rightarrow> 0 | Some e \<Rightarrow> exec_generation e)"

definition lease_active :: "('a claim_metadata_scheme) \<Rightarrow> instant \<Rightarrow> bool" where
  "lease_active md now =
     (case md_lease md of
        None \<Rightarrow> False
      | Some l \<Rightarrow> (case lease_expires_at l of None \<Rightarrow> False | Some t \<Rightarrow> now < t))"

definition new_lease ::
    "('a claim_metadata_scheme) \<Rightarrow> ident \<Rightarrow> string \<Rightarrow> instant \<Rightarrow> int \<Rightarrow> lease" where
  "new_lease md worker fresh now lease_seconds =
     \<lparr>lease_worker = Some worker, lease_token = Some fresh,
      lease_generation = generation_of md + 1, lease_claimed_at = now,
      lease_expires_at = Some (now + microseconds (max 1 lease_seconds))\<rparr>"

definition claim_of :: "ident \<Rightarrow> ('a claim_metadata_scheme) \<Rightarrow> claim option" where
  "claim_of run md =
     (case md_lease md of
        None \<Rightarrow> None
      | Some l \<Rightarrow>
          (case (lease_worker l, nonempty_str (lease_token l)) of
             (Some w, Some t) \<Rightarrow>
               Some \<lparr>claim_run = run, claim_worker = w, claim_token = t,
                     claim_generation = lease_generation l\<rparr>
           | _ \<Rightarrow> None))"

definition begin_rejection ::
    "('a claim_metadata_scheme) \<Rightarrow> claim option \<Rightarrow> instant \<Rightarrow> rejection option" where
  "begin_rejection md c now =
     (case c of
        None \<Rightarrow> if lease_active md now then Some LeaseHeld else None
      | Some c \<Rightarrow>
          (case md_lease md of
             None \<Rightarrow> Some LeaseMissing
           | Some l \<Rightarrow>
               if lease_token l \<noteq> Some (claim_token c)
                  \<or> lease_worker l \<noteq> Some (claim_worker c)
                  \<or> lease_generation l \<noteq> claim_generation c
               then Some LeaseMismatch
               else if \<not> lease_active md now then Some LeaseExpired
               else None))"

definition start_execution ::
    "('a claim_metadata_scheme) \<Rightarrow> claim option \<Rightarrow> string \<Rightarrow> instant
     \<Rightarrow> ('a claim_metadata_scheme)" where
  "start_execution md c fresh now =
     md\<lparr>md_lease := None,
        md_execution := Some
          (case c of
             Some c \<Rightarrow> \<lparr>exec_token = Some (claim_token c), exec_generation = claim_generation c,
                        exec_worker = Some (claim_worker c), exec_started_at = now\<rparr>
           | None \<Rightarrow> \<lparr>exec_token = Some fresh, exec_generation = generation_of md + 1,
                      exec_worker = None, exec_started_at = now\<rparr>)\<rparr>"

definition execution_token :: "('a claim_metadata_scheme) \<Rightarrow> string option" where
  "execution_token md =
     (case md_execution md of None \<Rightarrow> None | Some e \<Rightarrow> nonempty_str (exec_token e))"

text \<open>The context variable that carries the execution's identity to its write-backs.\<close>

type_synonym exec_context = "(ident \<times> string) option"

definition bind_execution ::
    "exec_context \<Rightarrow> ident \<Rightarrow> ('a claim_metadata_scheme) \<Rightarrow> exec_context \<times> exec_context" where
  "bind_execution ctx run md =
     ((case execution_token md of None \<Rightarrow> None | Some t \<Rightarrow> Some (run, t)), ctx)"

definition release_execution :: "exec_context \<Rightarrow> exec_context" where
  "release_execution saved = saved"

definition execution_fence ::
    "exec_context \<Rightarrow> ident \<Rightarrow> ('a claim_metadata_scheme) \<Rightarrow> (exec_context \<Rightarrow> 'r) \<Rightarrow> 'r \<times> exec_context"
  where
  "execution_fence ctx run md body =
     (case bind_execution ctx run md of
        (inner, saved) \<Rightarrow> (body inner, release_execution saved))"

definition current_execution_token :: "exec_context \<Rightarrow> ident \<Rightarrow> string option" where
  "current_execution_token ctx run =
     (case ctx of
        None \<Rightarrow> None
      | Some (r, t) \<Rightarrow> if r \<noteq> run then None else Some t)"

lemmas claim_defs = generation_of_def lease_active_def new_lease_def claim_of_def
  begin_rejection_def start_execution_def execution_token_def

section \<open>The fencing invariant\<close>

text \<open>A lease is one generation ahead of the execution it will replace. The dispatcher's
  claim and both kinds of start keep it.\<close>

definition execution_generation :: "('a claim_metadata_scheme) \<Rightarrow> int" where
  "execution_generation md =
     (case md_execution md of None \<Rightarrow> 0 | Some e \<Rightarrow> exec_generation e)"

definition lease_fresh :: "('a claim_metadata_scheme) \<Rightarrow> bool" where
  "lease_fresh md \<longleftrightarrow>
     0 \<le> execution_generation md \<and>
     (\<forall>l. md_lease md = Some l \<longrightarrow> execution_generation md < lease_generation l)"

definition claim_run_metadata ::
    "('a claim_metadata_scheme) \<Rightarrow> ident \<Rightarrow> string \<Rightarrow> instant \<Rightarrow> int \<Rightarrow> ('a claim_metadata_scheme)" where
  "claim_run_metadata md worker fresh now lease_seconds =
     md\<lparr>md_lease := Some (new_lease md worker fresh now lease_seconds)\<rparr>"

lemma lease_fresh_generation:
  "lease_fresh md \<Longrightarrow>
   generation_of md =
     (case md_lease md of None \<Rightarrow> execution_generation md | Some l \<Rightarrow> lease_generation l)"
  by (auto simp: lease_fresh_def execution_generation_def generation_of_def split: option.splits)

lemma lease_fresh_nonneg: "lease_fresh md \<Longrightarrow> 0 \<le> generation_of md"
  by (auto simp: lease_fresh_def execution_generation_def generation_of_def split: option.splits)

lemma execution_generation_le: "execution_generation md \<le> generation_of md"
  by (auto simp: execution_generation_def generation_of_def split: option.splits)

lemma execution_generation_start:
  "execution_generation (start_execution md c f now) =
     (case c of Some c \<Rightarrow> claim_generation c | None \<Rightarrow> generation_of md + 1)"
  by (simp add: execution_generation_def start_execution_def split: option.splits)

lemma lease_fresh_claim [simp]:
  "lease_fresh md \<Longrightarrow> lease_fresh (claim_run_metadata md w f now s)"
  using execution_generation_le[of md]
  by (simp add: lease_fresh_def claim_run_metadata_def new_lease_def execution_generation_def)

lemma generation_claim [simp]:
  "lease_fresh md \<Longrightarrow>
   generation_of (claim_run_metadata md w f now s) = generation_of md + 1"
  using lease_fresh_generation[OF lease_fresh_claim[of md w f now s]]
  by (simp add: claim_run_metadata_def new_lease_def del: lease_fresh_claim)

text \<open>A start that is accepted takes the generation of the lease, or the next one.\<close>

lemma accepted_claim_generation:
  assumes "begin_rejection md (Some c) now = None" and "lease_fresh md"
  shows "claim_generation c = generation_of md"
    and "execution_generation md < claim_generation c"
  using assms
  by (auto simp: begin_rejection_def lease_fresh_generation lease_fresh_def
      split: option.splits if_splits)

lemma accepted_start_generation:
  assumes "begin_rejection md c now = None" and "lease_fresh md"
  shows "execution_generation md < execution_generation (start_execution md c f now')"
    and "generation_of md \<le> execution_generation (start_execution md c f now')"
    and "lease_fresh (start_execution md c f now')"
proof -
  let ?md = "start_execution md c f now'"
  have *: "execution_generation md < execution_generation ?md \<and>
      generation_of md \<le> execution_generation ?md"
    using assms accepted_claim_generation[OF _ assms(2)] execution_generation_le[of md]
    by (cases c) (auto simp: execution_generation_start)
  then show "execution_generation md < execution_generation ?md"
    and "generation_of md \<le> execution_generation ?md" by simp_all
  from * lease_fresh_nonneg[OF assms(2)] show "lease_fresh ?md"
    by (simp add: lease_fresh_def) (simp add: start_execution_def)
qed

lemma claim_of_generation:
  assumes "claim_of run md = Some c"
  shows "claim_generation c \<le> generation_of md"
  using assms by (auto simp: claim_defs split: option.splits)

lemma begin_rejection_after_start [simp]:
  "begin_rejection (start_execution md c f now) (Some c') now' = Some LeaseMissing"
  by (simp add: claim_defs)

lemma execution_token_start_claimed [simp]:
  "claim_token c \<noteq> [] \<Longrightarrow>
   execution_token (start_execution md (Some c) f now) = Some (claim_token c)"
  by (simp add: claim_defs)

end
