(* ===== verification/RunBudget.thy ===== *)
theory RunBudget
  imports Prelude
begin

text \<open>The execution budget of a whole run
  (\<open>agent/backend/app/features/agent/run_budget.py\<close>): reservation before a model call,
  settlement after it, refusal of tool calls once the budget is spent, and the snapshot that
  the next execution continues from. Times are exact rationals; the monotonic clock is read
  once per operation and is the argument \<open>now\<close>. The saved metadata holds numbers or
  nothing.\<close>

section \<open>Data\<close>

record limits =
  lim_calls :: int
  lim_tokens :: int
  lim_seconds :: rat

datatype overrun =
  OverCalls int int
| OverTokens int int int
| OverSeconds rat rat

datatype stop_point = AtModelCall | AtToolCall

type_synonym exceeded = "overrun \<times> stop_point"

record budget =
  b_limits :: limits
  b_calls :: int
  b_measured :: int
  b_unmeasured :: int
  b_estimated :: int
  b_seconds_before :: rat
  b_executions :: int
  b_refused :: int
  b_exceeded :: "exceeded option"
  b_started :: rat
  b_reserved :: int

record consumed =
  c_calls :: "rat option"
  c_total :: "rat option"
  c_measured :: "rat option"
  c_estimated :: "rat option"
  c_unmeasured :: "rat option"
  c_seconds :: "rat option"
  c_executions :: "rat option"
  c_refused :: "rat option"

record limits_record =
  r_calls :: "int option"
  r_tokens :: "int option"
  r_seconds :: "rat option"

record snapshot =
  s_limits :: limits_record
  s_consumed :: "consumed option"
  s_remaining :: limits_record
  s_exceeded :: "exceeded option"
  s_not_executed :: int
  s_unknown :: int
  s_exact :: bool

record usage =
  u_total :: "int option"
  u_input :: "rat option"
  u_output :: "rat option"

section \<open>Operations\<close>

definition as_record :: "limits \<Rightarrow> limits_record" where
  "as_record l =
     \<lparr>r_calls = (if 0 < lim_calls l then Some (lim_calls l) else None),
      r_tokens = (if 0 < lim_tokens l then Some (lim_tokens l) else None),
      r_seconds = (if 0 < lim_seconds l then Some (lim_seconds l) else None)\<rparr>"

fun pos_int :: "rat option \<Rightarrow> int" where
  "pos_int None = 0"
| "pos_int (Some v) = (if 0 < v then \<lfloor>v\<rfloor> else 0)"

fun pos_float :: "rat option \<Rightarrow> rat" where
  "pos_float None = 0"
| "pos_float (Some v) = (if 0 < v then v else 0)"

definition no_consumed :: consumed where
  "no_consumed =
     \<lparr>c_calls = None, c_total = None, c_measured = None, c_estimated = None,
      c_unmeasured = None, c_seconds = None, c_executions = None, c_refused = None\<rparr>"

definition for_run :: "snapshot option \<Rightarrow> limits \<Rightarrow> rat \<Rightarrow> budget" where
  "for_run saved l now =
     (let c = (case saved of
                 None \<Rightarrow> no_consumed
               | Some s \<Rightarrow> (case s_consumed s of None \<Rightarrow> no_consumed | Some c \<Rightarrow> c))
      in \<lparr>b_limits = l, b_calls = pos_int (c_calls c), b_measured = pos_int (c_measured c),
          b_unmeasured = pos_int (c_unmeasured c), b_estimated = pos_int (c_estimated c),
          b_seconds_before = pos_float (c_seconds c),
          b_executions = pos_int (c_executions c) + 1, b_refused = pos_int (c_refused c),
          b_exceeded = (case saved of None \<Rightarrow> None | Some s \<Rightarrow> s_exceeded s),
          b_started = now, b_reserved = 0\<rparr>)"

definition total_tokens :: "budget \<Rightarrow> int" where
  "total_tokens b = b_measured b + b_estimated b"

definition active_seconds :: "budget \<Rightarrow> rat \<Rightarrow> rat" where
  "active_seconds b now = b_seconds_before b + max (now - b_started b) 0"

definition over :: "budget \<Rightarrow> int \<Rightarrow> bool \<Rightarrow> rat \<Rightarrow> overrun option" where
  "over b extra next_call now =
     (let l = b_limits b;
          calls = b_calls b + (if next_call then 1 else 0);
          tokens = total_tokens b + extra;
          seconds = round1 (active_seconds b now)
      in if 0 < lim_calls l \<and> lim_calls l < calls then Some (OverCalls (lim_calls l) (b_calls b))
         else if 0 < lim_tokens l \<and> (lim_tokens l \<le> total_tokens b \<or> lim_tokens l < tokens)
         then Some (OverTokens (lim_tokens l) (total_tokens b) extra)
         else if 0 < lim_seconds l \<and> lim_seconds l \<le> seconds
         then Some (OverSeconds (lim_seconds l) seconds)
         else None)"

definition stop :: "budget \<Rightarrow> overrun \<Rightarrow> stop_point \<Rightarrow> budget \<times> exceeded" where
  "stop b found pt =
     (case b_exceeded b of
        Some e \<Rightarrow> (b, e)
      | None \<Rightarrow> (b\<lparr>b_exceeded := Some (found, pt)\<rparr>, (found, pt)))"

definition reserve_model_call :: "budget \<Rightarrow> int \<Rightarrow> rat \<Rightarrow> budget \<times> exceeded option" where
  "reserve_model_call b estimated now =
     (case b_exceeded b of
        Some e \<Rightarrow> (b, Some e)
      | None \<Rightarrow>
          let estimate = max estimated 0
          in (case over b estimate True now of
                Some found \<Rightarrow> (case stop b found AtModelCall of (b', e) \<Rightarrow> (b', Some e))
              | None \<Rightarrow> (b\<lparr>b_calls := b_calls b + 1, b_reserved := estimate\<rparr>, None)))"

definition usage_total :: "usage option \<Rightarrow> int" where
  "usage_total u =
     (case u of
        None \<Rightarrow> 0
      | Some u \<Rightarrow>
          (case u_total u of
             Some t \<Rightarrow> if 0 < t then t else pos_int (u_input u) + pos_int (u_output u)
           | None \<Rightarrow> pos_int (u_input u) + pos_int (u_output u)))"

definition settle :: "budget \<Rightarrow> usage option \<Rightarrow> budget" where
  "settle b u =
     (let total = usage_total u
      in (if 0 < total then b\<lparr>b_measured := b_measured b + total\<rparr>
          else b\<lparr>b_unmeasured := b_unmeasured b + 1,
                 b_estimated := b_estimated b + b_reserved b\<rparr>)\<lparr>b_reserved := 0\<rparr>)"

definition reserve_tool_call :: "budget \<Rightarrow> rat \<Rightarrow> budget \<times> exceeded option" where
  "reserve_tool_call b now =
     (case b_exceeded b of
        Some e \<Rightarrow> (b\<lparr>b_refused := b_refused b + 1\<rparr>, Some e)
      | None \<Rightarrow>
          (case over b 0 True now of
             None \<Rightarrow> (b, None)
           | Some found \<Rightarrow>
               (case stop (b\<lparr>b_refused := b_refused b + 1\<rparr>) found AtToolCall of
                  (b', e) \<Rightarrow> (b', Some e))))"

definition remaining :: "limits_record \<Rightarrow> int \<Rightarrow> int \<Rightarrow> rat \<Rightarrow> limits_record" where
  "remaining l calls tokens seconds =
     \<lparr>r_calls = map_option (\<lambda>x. max (x - calls) 0) (r_calls l),
      r_tokens = map_option (\<lambda>x. max (x - tokens) 0) (r_tokens l),
      r_seconds = map_option (\<lambda>x. max (round1 (x - seconds)) 0) (r_seconds l)\<rparr>"

definition snapshot :: "budget \<Rightarrow> int \<Rightarrow> rat \<Rightarrow> snapshot" where
  "snapshot b unknown_steps now =
     (let l = as_record (b_limits b); seconds = round1 (active_seconds b now)
      in \<lparr>s_limits = l,
          s_consumed = Some
            \<lparr>c_calls = Some (of_int (b_calls b)), c_total = Some (of_int (total_tokens b)),
             c_measured = Some (of_int (b_measured b)),
             c_estimated = Some (of_int (b_estimated b)),
             c_unmeasured = Some (of_int (b_unmeasured b)), c_seconds = Some seconds,
             c_executions = Some (of_int (b_executions b)),
             c_refused = Some (of_int (b_refused b))\<rparr>,
          s_remaining = remaining l (b_calls b) (total_tokens b) seconds,
          s_exceeded = b_exceeded b, s_not_executed = b_refused b, s_unknown = unknown_steps,
          s_exact = (b_unmeasured b = 0)\<rparr>)"

lemmas budget_defs = over_def stop_def reserve_model_call_def settle_def reserve_tool_call_def
  Let_def

section \<open>Counters are never negative\<close>

definition budget_ok :: "budget \<Rightarrow> bool" where
  "budget_ok b \<longleftrightarrow>
     0 \<le> b_calls b \<and> 0 \<le> b_measured b \<and> 0 \<le> b_unmeasured b \<and> 0 \<le> b_estimated b \<and>
     0 \<le> b_seconds_before b \<and> 1 \<le> b_executions b \<and> 0 \<le> b_refused b \<and> 0 \<le> b_reserved b"

lemma pos_int_nonneg [simp]: "0 \<le> pos_int v"
  by (cases v) auto

lemma pos_float_nonneg [simp]: "0 \<le> pos_float v"
  by (cases v) auto

lemma pos_int_of_int [simp]: "0 \<le> n \<Longrightarrow> pos_int (Some (of_int n)) = n"
  by simp

lemma pos_float_id [simp]: "0 \<le> x \<Longrightarrow> pos_float (Some x) = x"
  by simp

lemma budget_ok_for_run [simp]: "budget_ok (for_run saved l now)"
  by (simp add: budget_ok_def for_run_def Let_def)

lemma budget_ok_reserve [simp]: "budget_ok b \<Longrightarrow> budget_ok (fst (reserve_model_call b n now))"
  by (auto simp: budget_ok_def reserve_model_call_def stop_def Let_def split: option.splits)

lemma budget_ok_settle [simp]: "budget_ok b \<Longrightarrow> budget_ok (settle b u)"
  by (auto simp: budget_ok_def settle_def Let_def)

lemma budget_ok_tool [simp]: "budget_ok b \<Longrightarrow> budget_ok (fst (reserve_tool_call b now))"
  by (auto simp: budget_ok_def reserve_tool_call_def stop_def split: option.splits)

lemma active_seconds_nonneg: "budget_ok b \<Longrightarrow> 0 \<le> active_seconds b now"
  by (simp add: budget_ok_def active_seconds_def)

section \<open>A run's sequence of operations\<close>

datatype budget_op =
  ModelCall int rat
| Settle "usage option"
| ToolCall rat

fun budget_step :: "budget \<Rightarrow> budget_op \<Rightarrow> budget" where
  "budget_step b (ModelCall n now) = fst (reserve_model_call b n now)"
| "budget_step b (Settle u) = settle b u"
| "budget_step b (ToolCall now) = fst (reserve_tool_call b now)"

definition within_calls :: "budget \<Rightarrow> bool" where
  "within_calls b \<longleftrightarrow> (lim_calls (b_limits b) \<le> 0 \<or> b_calls b \<le> lim_calls (b_limits b))"

lemma budget_step_limits [simp]: "b_limits (budget_step b op) = b_limits b"
  by (cases op) (auto simp: budget_defs split: option.splits)

lemma budget_step_within_calls: "within_calls b \<Longrightarrow> within_calls (budget_step b op)"
  by (cases op) (auto simp: within_calls_def budget_defs split: option.splits if_splits)

lemma budget_steps_within_calls: "within_calls b \<Longrightarrow> within_calls (foldl budget_step b ops)"
  by (induction ops arbitrary: b) (auto simp: budget_step_within_calls)

lemma budget_steps_limits [simp]: "b_limits (foldl budget_step b ops) = b_limits b"
  by (induction ops arbitrary: b) auto

lemma budget_step_exceeded:
  "b_exceeded b = Some e \<Longrightarrow>
   b_exceeded (budget_step b op) = Some e \<and> b_calls (budget_step b op) = b_calls b"
  by (cases op) (auto simp: budget_defs)

lemma budget_steps_exceeded:
  "b_exceeded b = Some e \<Longrightarrow>
   b_exceeded (foldl budget_step b ops) = Some e \<and> b_calls (foldl budget_step b ops) = b_calls b"
proof (induction ops arbitrary: b)
  case (Cons op ops)
  from budget_step_exceeded[OF Cons.prems, of op] Cons.IH[of "budget_step b op"]
  show ?case by simp
qed simp

lemma reserve_model_call_accepted:
  assumes "reserve_model_call b n now = (b', None)"
  shows "b_exceeded b = None" and "over b (max n 0) True now = None"
    and "b' = b\<lparr>b_calls := b_calls b + 1, b_reserved := max n 0\<rparr>"
  using assms by (auto simp: reserve_model_call_def Let_def split: option.splits prod.splits)


section \<open>Properties\<close>

text \<open>C7: whatever calls, settlements and tool calls an execution makes, the model calls of the run
  never exceed the configured limit, and once a limit has stopped the run every later
  reservation is refused with the same reason and counts no call.\<close>

theorem model_calls_stay_within_limit:
  assumes "within_calls b"
  shows "within_calls (foldl budget_step b ops)
      \<and> (\<forall>e. b_exceeded (foldl budget_step b ops) = Some e \<longrightarrow>
           (\<forall>more n now. reserve_model_call (foldl budget_step b (ops @ more)) n now
              = (foldl budget_step b (ops @ more), Some e)
            \<and> b_calls (foldl budget_step b (ops @ more)) = b_calls (foldl budget_step b ops)))"
proof -
  have "reserve_model_call (foldl budget_step b (ops @ more)) n now
              = (foldl budget_step b (ops @ more), Some e)
            \<and> b_calls (foldl budget_step b (ops @ more)) = b_calls (foldl budget_step b ops)"
    if "b_exceeded (foldl budget_step b ops) = Some e" for e more n now
    using budget_steps_exceeded[OF that, of more] by (simp add: reserve_model_call_def)
  with budget_steps_within_calls[OF assms, of ops] show ?thesis by blast
qed

definition demo_budget :: budget where
  "demo_budget = for_run None \<lparr>lim_calls = 1, lim_tokens = 100, lim_seconds = 0\<rparr> 0"

theorem model_calls_stay_within_limit_witness:
  "within_calls (foldl budget_step demo_budget [ModelCall 10 0, Settle None, ModelCall 10 0, ToolCall 0])
   \<and> b_refused (foldl budget_step demo_budget [ModelCall 10 0, Settle None, ModelCall 10 0, ToolCall 0]) = 1"
proof
  have "within_calls demo_budget" by code_simp
  then show "within_calls (foldl budget_step demo_budget
      [ModelCall 10 0, Settle None, ModelCall 10 0, ToolCall 0])"
    using model_calls_stay_within_limit by blast
  show "b_refused (foldl budget_step demo_budget
      [ModelCall 10 0, Settle None, ModelCall 10 0, ToolCall 0]) = 1"
    by code_simp
qed

text \<open>a reservation that is accepted fits: the call count, the tokens used so far plus the
  estimate of this call, and the active time are all within their limits, and it changes nothing
  but the call count and the reserved estimate.\<close>

theorem accepted_reservation_fits:
  assumes "reserve_model_call b n now = (b', None)"
  shows "(0 < lim_calls (b_limits b) \<longrightarrow> b_calls b' \<le> lim_calls (b_limits b))
      \<and> (0 < lim_tokens (b_limits b) \<longrightarrow>
           total_tokens b + b_reserved b' \<le> lim_tokens (b_limits b)
           \<and> total_tokens b < lim_tokens (b_limits b))
      \<and> (0 < lim_seconds (b_limits b) \<longrightarrow> round1 (active_seconds b now) < lim_seconds (b_limits b))
      \<and> b' = b\<lparr>b_calls := b_calls b + 1, b_reserved := max n 0\<rparr>"
proof -
  note acc = reserve_model_call_accepted[OF assms]
  show ?thesis
    using acc(2) by (auto simp: acc(3) over_def Let_def split: if_splits)
qed

theorem accepted_reservation_fits_witness:
  "b_calls (fst (reserve_model_call demo_budget 10 0)) \<le> 1"
proof -
  define b' where "b' = fst (reserve_model_call demo_budget 10 0)"
  have "snd (reserve_model_call demo_budget 10 0) = None" by code_simp
  then have r: "reserve_model_call demo_budget 10 0 = (b', None)"
    unfolding b'_def by (metis prod.collapse)
  have "lim_calls (b_limits demo_budget) = 1" by code_simp
  then have "b_calls b' \<le> 1" using conjunct1[OF accepted_reservation_fits[OF r]] by simp
  then show ?thesis by (simp add: b'_def)
qed

text \<open>an execution that resumes from the snapshot of the one before continues its counts and its
  stop: nothing of the consumption is reset, except that the active time is carried to a tenth of
  a second.\<close>

theorem resumed_budget_continues:
  assumes "budget_ok b"
  shows "for_run (Some (snapshot b unknown now)) l now' =
     b\<lparr>b_limits := l, b_seconds_before := round1 (active_seconds b now),
       b_executions := b_executions b + 1, b_started := now', b_reserved := 0\<rparr>"
  using assms active_seconds_nonneg[OF assms, of now]
  by (simp add: for_run_def snapshot_def Let_def budget_ok_def round1_nonneg del: pos_int.simps pos_float.simps)

theorem resumed_budget_continues_witness:
  "b_calls (for_run (Some (snapshot (settle (fst (reserve_model_call demo_budget 10 0)) None) 0 5))
     (b_limits demo_budget) 9) = 1"
proof -
  have ok: "budget_ok (settle (fst (reserve_model_call demo_budget 10 0)) None)"
    by (simp add: demo_budget_def)
  have "b_calls (settle (fst (reserve_model_call demo_budget 10 0)) None) = 1" by code_simp
  with resumed_budget_continues[OF ok, of 0 5 "b_limits demo_budget" 9] show ?thesis by simp
qed

end
