(* ===== verification/ExternalWrites.thy ===== *)
theory ExternalWrites
  imports Prelude
begin

text \<open>Tool calls, their results and steps (\<open>agent/backend/app/features/agent/tools.py\<close>,
  \<open>runtime.py\<close>) and the contract on writes whose outcome is unknown
  (\<open>external_writes.py\<close>). Arguments, data scopes and outputs are JSON objects that the
  code only compares and copies; they are their canonical text. A metadata value that may be
  of any JSON type keeps the string or its truthiness.\<close>

section \<open>Data\<close>

type_synonym json_text = string

datatype meta_value = MStr string | MOther bool

fun truthy :: "meta_value option \<Rightarrow> bool" where
  "truthy None = False"
| "truthy (Some (MStr s)) = (s \<noteq> [])"
| "truthy (Some (MOther b)) = b"

record tool_call =
  call_name :: string
  call_arguments :: json_text
  call_trace_id :: "ident option"
  call_data_scope :: "json_text option"
  call_operation_key :: "ident option"

datatype policy_decision = PolicyAllow | PolicyAsk | PolicyDeny

text \<open>\<open>res_argument_errors\<close>: the error details carry a non-empty list of argument errors.\<close>

record tool_result =
  res_name :: string
  res_success :: bool
  res_output :: "json_text option"
  res_error_code :: "string option"
  res_outcome :: "meta_value option"
  res_operation :: "meta_value option"
  res_audit_operation :: "meta_value option"
  res_warnings :: "string list"
  res_approval_required :: bool
  res_policy :: policy_decision
  res_argument_errors :: bool
  res_authorization :: "string option"

datatype step_status =
  StepPending | StepRunning | StepWaitingApproval | StepCompleted | StepFailed | StepCancelled

record run_step =
  step_id :: ident
  step_kind :: string
  step_status :: step_status
  step_call :: "tool_call option"
  step_result :: "tool_result option"
  step_approval :: "ident option"
  step_started_at :: "instant option"
  step_completed_at :: "instant option"

record tool_definition =
  def_trusted_read_only :: bool
  def_standard_auto_approve :: bool
  def_resend_safe :: bool

definition OUTCOME_UNKNOWN :: string where "OUTCOME_UNKNOWN = ''unknown''"
definition OUTCOME_UNKNOWN_CODE :: string where "OUTCOME_UNKNOWN_CODE = ''tool.outcome_unknown''"

section \<open>Operations\<close>

definition has_side_effects :: "tool_definition \<Rightarrow> bool" where
  "has_side_effects d = (\<not> def_trusted_read_only d \<and> \<not> def_standard_auto_approve d)"

definition guarded :: "tool_definition \<Rightarrow> bool" where
  "guarded d = (has_side_effects d \<and> \<not> def_resend_safe d)"

text \<open>The key is a digest of the canonical JSON of these five fields; the digest is the
  parameter \<open>digest\<close>.\<close>

definition operation_key ::
    "(ident \<times> ident \<times> string \<times> json_text \<times> ident \<Rightarrow> string)
     \<Rightarrow> ident \<Rightarrow> ident option \<Rightarrow> string \<Rightarrow> json_text \<Rightarrow> ident \<Rightarrow> string" where
  "operation_key digest run user tool arguments call =
     ''op_'' @ digest (run, (case user of None \<Rightarrow> [] | Some u \<Rightarrow> u), tool, arguments, call)"

definition is_outcome_unknown :: "tool_result option \<Rightarrow> bool" where
  "is_outcome_unknown r =
     (case r of
        None \<Rightarrow> False
      | Some r \<Rightarrow> \<not> res_success r \<and> res_outcome r = Some (MStr OUTCOME_UNKNOWN))"

definition unknown_write_operation :: "tool_result option \<Rightarrow> ident option" where
  "unknown_write_operation r =
     (case r of
        None \<Rightarrow> None
      | Some r' \<Rightarrow>
          if \<not> is_outcome_unknown r then None
          else
            (case (if truthy (res_operation r') then res_operation r' else res_audit_operation r') of
               Some (MStr s) \<Rightarrow> nonempty_str (Some s)
             | _ \<Rightarrow> None))"

definition has_operation_key :: "tool_call \<Rightarrow> bool" where
  "has_operation_key c = (nonempty_str (call_operation_key c) \<noteq> None)"

definition step_outcome_unknown :: "run_step \<Rightarrow> bool" where
  "step_outcome_unknown s =
     (case step_call s of
        None \<Rightarrow> False
      | Some c \<Rightarrow> has_operation_key c \<and> is_outcome_unknown (step_result s))"

fun sent_step_from :: "run_step list \<Rightarrow> ident \<Rightarrow> run_step option" where
  "sent_step_from [] call = None"
| "sent_step_from (s # ss) call =
     (case step_call s of
        None \<Rightarrow> sent_step_from ss call
      | Some c \<Rightarrow>
          if call_trace_id c \<noteq> Some call \<or> \<not> has_operation_key c then sent_step_from ss call
          else if step_status s = StepRunning \<or> step_status s = StepCompleted
                  \<or> step_outcome_unknown s
          then Some s else sent_step_from ss call)"

definition sent_step :: "run_step list \<Rightarrow> ident option \<Rightarrow> run_step option" where
  "sent_step steps call =
     (case nonempty_str call of None \<Rightarrow> None | Some c \<Rightarrow> sent_step_from steps c)"

definition same_write :: "string \<Rightarrow> json_text \<Rightarrow> run_step \<Rightarrow> bool" where
  "same_write name arguments s =
     (case step_call s of
        None \<Rightarrow> False
      | Some c \<Rightarrow> has_operation_key c \<and> call_name c = name \<and> call_arguments c = arguments)"

definition step_succeeded :: "run_step \<Rightarrow> bool" where
  "step_succeeded s = (case step_result s of None \<Rightarrow> False | Some r \<Rightarrow> res_success r)"

fun latest_settled :: "run_step option \<Rightarrow> run_step list \<Rightarrow> string \<Rightarrow> json_text \<Rightarrow> run_step option" where
  "latest_settled latest [] name arguments = latest"
| "latest_settled latest (s # ss) name arguments =
     (if \<not> same_write name arguments s then latest_settled latest ss name arguments
      else if step_outcome_unknown s \<or> step_succeeded s
      then latest_settled (Some s) ss name arguments
      else latest_settled latest ss name arguments)"

definition unresolved_unknown ::
    "run_step list \<Rightarrow> string \<Rightarrow> json_text \<Rightarrow> run_step option" where
  "unresolved_unknown steps name arguments =
     (case latest_settled None steps name arguments of
        None \<Rightarrow> None
      | Some s \<Rightarrow> if step_outcome_unknown s then Some s else None)"

definition interrupted_result :: "tool_call \<Rightarrow> tool_result" where
  "interrupted_result c =
     \<lparr>res_name = call_name c, res_success = False, res_output = None,
      res_error_code = Some OUTCOME_UNKNOWN_CODE,
      res_outcome = Some (MStr OUTCOME_UNKNOWN),
      res_operation = map_option MStr (call_operation_key c),
      res_audit_operation = None, res_warnings = [], res_approval_required = False,
      res_policy = PolicyAllow, res_argument_errors = False, res_authorization = None\<rparr>"

definition unknown_steps :: "run_step list \<Rightarrow> bool \<Rightarrow> run_step list" where
  "unknown_steps steps run_ended =
     filter (\<lambda>s. step_outcome_unknown s
                 \<or> (run_ended \<and> step_status s = StepRunning
                    \<and> (case step_call s of None \<Rightarrow> False | Some c \<Rightarrow> has_operation_key c))) steps"

section \<open>Lemmas\<close>

lemma sent_step_from_Some:
  "sent_step_from steps call = Some s \<Longrightarrow>
   s \<in> set steps \<and> (\<exists>c. step_call s = Some c \<and> call_trace_id c = Some call \<and> has_operation_key c)"
  by (induction steps) (auto split: option.splits if_splits)

lemma sent_step_from_None:
  "sent_step_from steps call = None \<longleftrightarrow>
   (\<forall>s\<in>set steps. \<forall>c. step_call s = Some c \<and> call_trace_id c = Some call \<and> has_operation_key c \<longrightarrow>
      step_status s \<notin> {StepRunning, StepCompleted} \<and> \<not> step_outcome_unknown s)"
  by (induction steps) (auto split: option.splits)

lemma latest_settled_append:
  "latest_settled latest (xs @ ys) name arguments =
   latest_settled (latest_settled latest xs name arguments) ys name arguments"
  by (induction xs arbitrary: latest) auto

lemma latest_settled_skip:
  "\<forall>s\<in>set ss. same_write name arguments s \<longrightarrow> \<not> step_outcome_unknown s \<and> \<not> step_succeeded s \<Longrightarrow>
   latest_settled latest ss name arguments = latest"
  by (induction ss) auto

lemma interrupted_result_unknown [simp]: "is_outcome_unknown (Some (interrupted_result c))"
  by (simp add: is_outcome_unknown_def interrupted_result_def)

lemma not_unknown_and_succeeded:
  "step_outcome_unknown s \<Longrightarrow> \<not> step_succeeded s"
  by (auto simp: step_outcome_unknown_def is_outcome_unknown_def step_succeeded_def
      split: option.splits)

lemma latest_settled_spec:
  "latest_settled latest ss name arguments =
   (case filter (\<lambda>s. same_write name arguments s \<and> (step_outcome_unknown s \<or> step_succeeded s)) ss of
      [] \<Rightarrow> latest | x # xs \<Rightarrow> Some (last (x # xs)))"
  by (induction ss arbitrary: latest) (auto split: list.splits)

end
