(* ===== verification/RunState.thy ===== *)
theory RunState
  imports RunClaim RunBudget ExternalWrites
begin

text \<open>The data of a run and the operations on one run under the repository's lock
  (\<open>agent/backend/app/features/agent/runtime.py\<close>, \<open>confirmation.py\<close>). All clock
  readings of one locked operation are one instant \<open>now\<close>; fresh identifiers are
  arguments. An event keeps its type and the payload fields that the code decides; the display
  text of messages is not modelled.\<close>

section \<open>Data\<close>

datatype run_status =
  RunQueued | RunRunning | RunWaitingApproval | RunWaitingConfirmation
| RunCompleted | RunFailed | RunCancelled

datatype approval_status =
  ApprovalPending | ApprovalApproved | ApprovalRejected | ApprovalCancelled

datatype conf_source = SrcAgent | SrcNl2sql | SrcRag
datatype conf_status = ConfPending | ConfAnswered | ConfSkipped | ConfCancelled | ConfExpired

record approval =
  appr_id :: ident
  appr_run :: ident
  appr_step :: ident
  appr_call :: tool_call
  appr_status :: approval_status
  appr_reconcile :: bool
  appr_decided_by :: "ident option"
  appr_decided_at :: "instant option"

record conf_item =
  ci_id :: ident
  ci_single :: bool
  ci_options :: "ident list"

record conf_answer =
  ca_item :: ident
  ca_options :: "ident list"
  ca_other :: string

record confirmation =
  cf_id :: ident
  cf_source :: conf_source
  cf_call :: ident
  cf_items :: "conf_item list"
  cf_round :: int
  cf_status :: conf_status
  cf_answers :: "conf_answer list"
  cf_session :: "string option"
  cf_connection :: string
  cf_decided_at :: "instant option"

datatype conf_action = ActAnswer | ActSkip | ActCancel

datatype run_event =
  EvCreated ident
| EvClaimed ident "instant option" int
| EvRunning int
| EvCancelled "ident list" "ident list" "ident option" "(string \<times> string) list"
| EvApprovalDecided ident bool bool
| EvApprovalVoided ident run_status
| EvConfirmationAsked ident conf_source int
| EvConfirmationDecided ident conf_source conf_action "ident option"
| EvWithdrawn ident "ident list" "ident option"
| EvStepStarted ident string
| EvToolCompleted ident string "run_status option"
| EvToolFailed ident string "string option" bool "run_status option"
| EvGuardrailWarning ident string "string list"
| EvApprovalRequired ident ident string
| EvArtifact ident string "ident option"
| EvCompleted
| EvFailed string
| EvInterrupted run_status
| EvUnexecuted string string
| EvWarning string

record artifact =
  art_id :: ident
  art_name :: string
  art_kind :: string
  art_content :: json_text

datatype agent_version = Draft | Version int

record response_link =
  rl_confirmation :: ident
  rl_source :: conf_source
  rl_action :: conf_action
  rl_source_run :: ident
  rl_question_run :: "ident option"
  rl_round :: int

record run_usage =
  ru_requests :: int
  ru_total_tokens :: int

text \<open>The metadata keys the code reserves are fields of the run; \<open>run_metadata\<close> is the rest.\<close>

record run = claim_metadata +
  run_id :: ident
  run_goal :: string
  run_agent :: ident
  run_runtime :: string
  run_status :: run_status
  run_steps :: "run_step list"
  run_events :: "run_event list"
  run_approvals :: "approval list"
  run_confirmations :: "confirmation list"
  run_artifacts :: "artifact list"
  run_pending_calls :: "tool_call list"
  run_sdk_state :: "string option"
  run_definition_hash :: "string option"
  run_agent_version :: agent_version
  run_response :: "response_link option"
  run_round :: "int option"
  run_withdrawn :: bool
  run_origin :: "(string \<times> string) list"
  run_metadata :: "(string \<times> json_text) list"
  run_user :: "ident option"
  run_thread :: "ident option"
  run_owner :: "ident option"
  run_usage :: "run_usage option"
  run_budget :: "snapshot option"
  run_created_at :: instant
  run_updated_at :: instant

definition BUILTIN_RUNTIME_ID :: string where "BUILTIN_RUNTIME_ID = ''builtin''"
definition TOOL_CALL_ABORTED_CODE :: string where
  "TOOL_CALL_ABORTED_CODE = ''runtime.tool_call_aborted''"

section \<open>Reading a run\<close>

definition is_terminal :: "run_status \<Rightarrow> bool" where
  "is_terminal s = (s = RunCompleted \<or> s = RunFailed \<or> s = RunCancelled)"

definition pending_approval_count :: "run \<Rightarrow> nat" where
  "pending_approval_count r = length (filter (\<lambda>a. appr_status a = ApprovalPending) (run_approvals r))"

definition pending_agent_confirmations :: "run \<Rightarrow> confirmation list" where
  "pending_agent_confirmations r =
     filter (\<lambda>c. cf_source c = SrcAgent \<and> cf_status c = ConfPending) (run_confirmations r)"

definition append_event :: "run \<Rightarrow> run_event \<Rightarrow> run" where
  "append_event r e = r\<lparr>run_events := run_events r @ [e]\<rparr>"

definition require_step :: "run_step list \<Rightarrow> ident \<Rightarrow> run_step option" where
  "require_step ss i = find (\<lambda>s. step_id s = i) ss"

definition step_label :: "run_step \<Rightarrow> string" where
  "step_label s = (case step_call s of None \<Rightarrow> step_kind s | Some c \<Rightarrow> call_name c)"

section \<open>Starting and ending an execution\<close>

definition may_begin :: "run \<Rightarrow> claim option \<Rightarrow> instant \<Rightarrow> rejection option" where
  "may_begin r c now =
     (if run_status r \<noteq> RunQueued then Some NotQueued else begin_rejection r c now)"

definition set_running :: "run \<Rightarrow> claim option \<Rightarrow> string \<Rightarrow> instant \<Rightarrow> run" where
  "set_running r c fresh now =
     (let r' = start_execution r c fresh now
      in append_event (r'\<lparr>run_status := RunRunning, run_updated_at := now\<rparr>)
           (EvRunning (execution_generation r')))"

definition stale_execution :: "exec_context \<Rightarrow> run \<Rightarrow> bool \<Rightarrow> bool" where
  "stale_execution ctx r segment_end =
     (case current_execution_token ctx (run_id r) of
        None \<Rightarrow> False
      | Some t \<Rightarrow>
          execution_token r \<noteq> Some t
          \<or> (segment_end \<and> run_status r \<noteq> RunRunning \<and> \<not> is_terminal (run_status r)))"

definition fail_builtin :: "run \<Rightarrow> string \<Rightarrow> instant \<Rightarrow> run" where
  "fail_builtin r code now =
     append_event (r\<lparr>run_status := RunFailed, run_updated_at := now, run_sdk_state := None\<rparr>)
       (EvFailed code)"

definition cancel_step :: "instant \<Rightarrow> run_step \<Rightarrow> run_step" where
  "cancel_step now s =
     (if step_status s \<in> {StepPending, StepRunning, StepWaitingApproval}
      then s\<lparr>step_status := StepCancelled, step_completed_at := Some now\<rparr> else s)"

definition cancel_approval :: "instant \<Rightarrow> approval \<Rightarrow> approval" where
  "cancel_approval now a =
     (if appr_status a = ApprovalPending
      then a\<lparr>appr_status := ApprovalCancelled, appr_decided_by := Some ''system'',
              appr_decided_at := Some now\<rparr> else a)"

definition close_confirmation :: "instant \<Rightarrow> conf_status \<Rightarrow> confirmation \<Rightarrow> confirmation" where
  "close_confirmation now st c =
     (if cf_status c = ConfPending then c\<lparr>cf_status := st, cf_decided_at := Some now\<rparr> else c)"

definition CANCEL_VIA_KEYS :: "string list" where
  "CANCEL_VIA_KEYS = [''via'', ''mcp_api_key_id'']"

definition cancel_run_locked ::
    "run \<Rightarrow> ident option \<Rightarrow> (string \<times> string) list \<Rightarrow> instant \<Rightarrow> run" where
  "cancel_run_locked r by_user via now =
     (let in_flight = map step_id (filter (\<lambda>s. step_status s = StepRunning) (run_steps r));
          cancelled = map appr_id (filter (\<lambda>a. appr_status a = ApprovalPending) (run_approvals r))
      in append_event
           (r\<lparr>run_status := RunCancelled, run_updated_at := now, run_pending_calls := [],
              run_steps := map (cancel_step now) (run_steps r),
              run_approvals := map (cancel_approval now) (run_approvals r),
              run_confirmations :=
                map (close_confirmation now ConfCancelled) (run_confirmations r)\<rparr>)
           (EvCancelled cancelled in_flight (nonempty_str by_user)
              (filter (\<lambda>kv. fst kv \<in> set CANCEL_VIA_KEYS) via)))"

definition interrupt_step :: "instant \<Rightarrow> run_step \<Rightarrow> run_step" where
  "interrupt_step now s =
     (if step_status s \<in> {StepPending, StepRunning} then
        (case (step_status s, step_result s, step_call s) of
           (StepRunning, None, Some c) \<Rightarrow>
             if has_operation_key c then s\<lparr>step_result := Some (interrupted_result c)\<rparr> else s
         | _ \<Rightarrow> s)
        \<lparr>step_status := StepFailed,
         step_completed_at := Some (case step_completed_at s of None \<Rightarrow> now | Some t \<Rightarrow> t)\<rparr>
      else s)"

definition fail_interrupted :: "run \<Rightarrow> instant \<Rightarrow> run" where
  "fail_interrupted r now =
     append_event
       (r\<lparr>run_steps := map (interrupt_step now) (run_steps r), run_pending_calls := [],
          md_lease := None, run_sdk_state := None, run_status := RunFailed,
          run_updated_at := now\<rparr>)
       (EvInterrupted (run_status r))"

section \<open>Tool steps\<close>

definition run_closed_for_tools :: "exec_context \<Rightarrow> run \<Rightarrow> string option \<Rightarrow> bool" where
  "run_closed_for_tools ctx r stored_token =
     (if is_terminal (run_status r) then True
      else case (current_execution_token ctx (run_id r), stored_token) of
             (Some mine, Some stored) \<Rightarrow>
               if stored \<noteq> mine then True else stale_execution ctx r False
           | _ \<Rightarrow> stale_execution ctx r False)"

definition waiting_step_for :: "tool_call \<Rightarrow> run_step \<Rightarrow> bool" where
  "waiting_step_for call s =
     (case (nonempty_str (call_trace_id call), step_call s) of
        (Some t, Some c) \<Rightarrow>
          call_trace_id c = Some t \<and> step_status s \<in> {StepPending, StepWaitingApproval}
      | _ \<Rightarrow> False)"

definition adopt_call :: "tool_call \<Rightarrow> tool_call \<Rightarrow> tool_call" where
  "adopt_call call c =
     (case call_data_scope call of
        None \<Rightarrow> c
      | Some d \<Rightarrow> c\<lparr>call_arguments := call_arguments call, call_data_scope := Some d\<rparr>)"

definition adopt_key :: "tool_call \<Rightarrow> tool_call \<Rightarrow> tool_call" where
  "adopt_key call c =
     (case nonempty_str (call_operation_key call) of
        None \<Rightarrow> c | Some k \<Rightarrow> c\<lparr>call_operation_key := Some k\<rparr>)"

text \<open>What the tool is called with: the run's user, never the approver.\<close>

record invocation =
  inv_approval :: "ident option"
  inv_trace :: "ident option"
  inv_key :: "ident option"
  inv_agent :: ident
  inv_run :: ident
  inv_user :: "ident option"

definition tool_invocation_context :: "run \<Rightarrow> tool_call \<Rightarrow> ident option \<Rightarrow> invocation" where
  "tool_invocation_context r call appr =
     \<lparr>inv_approval = appr, inv_trace = call_trace_id call, inv_key = call_operation_key call,
      inv_agent = run_agent r, inv_run = run_id r, inv_user = run_user r\<rparr>"

definition start_step :: "run \<Rightarrow> tool_call \<Rightarrow> ident \<Rightarrow> instant \<Rightarrow> run \<times> ident \<times> invocation" where
  "start_step r call fresh now =
     (case find (waiting_step_for call) (run_steps r) of
        None \<Rightarrow>
          let s = \<lparr>step_id = fresh, step_kind = ''tool'', step_status = StepRunning,
                   step_call = Some (adopt_key call call), step_result = None,
                   step_approval = None, step_started_at = Some now, step_completed_at = None\<rparr>
          in (append_event (r\<lparr>run_steps := run_steps r @ [s]\<rparr>)
                (EvStepStarted fresh (call_name call)),
              fresh, tool_invocation_context r call None)
      | Some s \<Rightarrow>
          (append_event
             (r\<lparr>run_steps := update_first (waiting_step_for call)
                  (\<lambda>s. s\<lparr>step_call := map_option (adopt_key call \<circ> adopt_call call) (step_call s),
                          step_status := StepRunning, step_started_at := Some now\<rparr>)
                  (run_steps r)\<rparr>)
             (EvStepStarted (step_id s) (call_name call)),
           step_id s, tool_invocation_context r call (step_approval s)))"

text \<open>\<open>mcp_base_tool_name\<close> and the store for large artifacts are the parameters \<open>base\<close> and
  \<open>ext\<close>; \<open>ext\<close> gives the content to keep when the artifact was moved out.\<close>

definition artifact_kind :: "(string \<Rightarrow> string) \<Rightarrow> string \<Rightarrow> string option" where
  "artifact_kind base name =
     (let b = base name
      in if b = ''rag_search'' then Some ''rag_evidence''
         else if b = ''nl2sql_query'' \<or> b = ''nl2sql_get_job'' then Some ''structured_table''
         else None)"

definition tool_artifact ::
    "(string \<Rightarrow> string) \<Rightarrow> (artifact \<Rightarrow> json_text option) \<Rightarrow> run_step \<Rightarrow> tool_result \<Rightarrow> ident
     \<Rightarrow> (artifact \<times> tool_result) option" where
  "tool_artifact base ext s res fresh =
     (case (step_call s, res_output res) of
        (Some c, Some out) \<Rightarrow>
          (case artifact_kind base (call_name c) of
             None \<Rightarrow> None
           | Some k \<Rightarrow>
               let a = \<lparr>art_id = fresh, art_name = call_name c @ '':'' @ step_id s,
                        art_kind = k, art_content = out\<rparr>
               in (case ext a of
                     None \<Rightarrow> Some (a, res)
                   | Some short \<Rightarrow>
                       Some (a\<lparr>art_content := short\<rparr>, res\<lparr>res_output := Some short\<rparr>)))
      | _ \<Rightarrow> None)"

definition append_guardrail :: "run \<Rightarrow> run_step \<Rightarrow> tool_result \<Rightarrow> run" where
  "append_guardrail r s res =
     (if res_warnings res = [] then r
      else append_event r (EvGuardrailWarning (step_id s) (step_label s) (res_warnings res)))"

definition finish_success ::
    "run \<Rightarrow> run_step \<Rightarrow> tool_result \<Rightarrow> (artifact \<times> tool_result) option \<Rightarrow> run_status option \<Rightarrow> run" where
  "finish_success r s res art after_end =
     (let r1 = (case art of
                  None \<Rightarrow> r
                | Some (a, _) \<Rightarrow>
                    append_event (r\<lparr>run_artifacts := run_artifacts r @ [a]\<rparr>)
                      (EvArtifact (art_id a) (art_kind a) (Some (step_id s))))
      in append_guardrail
           (append_event r1 (EvToolCompleted (step_id s) (step_label s) after_end)) s res)"

definition finish_status :: "tool_result \<Rightarrow> step_status" where
  "finish_status res =
     (if res_success res then StepCompleted
      else if res_error_code res = Some TOOL_CALL_ABORTED_CODE then StepCancelled
      else StepFailed)"

definition finish_step ::
    "(string \<Rightarrow> string) \<Rightarrow> (artifact \<Rightarrow> json_text option) \<Rightarrow> run \<Rightarrow> ident \<Rightarrow> tool_result \<Rightarrow> ident
     \<Rightarrow> instant \<Rightarrow> run option" where
  "finish_step base ext r i res fresh now =
     (case require_step (run_steps r) i of
        None \<Rightarrow> None
      | Some s \<Rightarrow>
          let after_end = (if is_terminal (run_status r) then Some (run_status r) else None);
              art = (if res_success res then tool_artifact base ext s res fresh else None);
              res' = (case art of None \<Rightarrow> res | Some (_, res') \<Rightarrow> res');
              r1 = r\<lparr>run_steps := update_first (\<lambda>s. step_id s = i)
                       (\<lambda>s. s\<lparr>step_result := Some res', step_completed_at := Some now,
                               step_status := finish_status res\<rparr>) (run_steps r)\<rparr>;
              r2 = (if res_success res then finish_success r1 s res' art after_end
                    else append_event r1
                           (EvToolFailed i (step_label s) (res_error_code res)
                              (res_error_code res = Some TOOL_CALL_ABORTED_CODE) after_end))
          in Some (r2\<lparr>run_updated_at := now\<rparr>))"

section \<open>Interruptions for approval and confirmation\<close>

definition ask_confirmation :: "run \<Rightarrow> confirmation \<Rightarrow> run" where
  "ask_confirmation r c =
     append_event (r\<lparr>run_confirmations := run_confirmations r @ [c]\<rparr>)
       (EvConfirmationAsked (cf_id c) (cf_source c) (cf_round c))"

definition ask_approval :: "instant \<Rightarrow> run \<Rightarrow> tool_call \<times> ident \<times> ident \<Rightarrow> run" where
  "ask_approval now r x =
     (case x of (call, step, appr) \<Rightarrow>
        append_event
          (r\<lparr>run_steps := run_steps r @
               [\<lparr>step_id = step, step_kind = ''tool'', step_status = StepWaitingApproval,
                 step_call = Some call, step_result = None, step_approval = Some appr,
                 step_started_at = Some now, step_completed_at = None\<rparr>],
             run_approvals := run_approvals r @
               [\<lparr>appr_id = appr, appr_run = run_id r, appr_step = step, appr_call = call,
                 appr_status = ApprovalPending,
                 appr_reconcile =
                   unresolved_unknown (run_steps r) (call_name call) (call_arguments call) \<noteq> None,
                 appr_decided_by = None, appr_decided_at = None\<rparr>]\<rparr>)
          (EvApprovalRequired appr step (call_name call)))"

definition request_approvals ::
    "exec_context \<Rightarrow> run \<Rightarrow> (tool_call \<times> ident \<times> ident) list \<Rightarrow> string \<Rightarrow> confirmation list
     \<Rightarrow> instant \<Rightarrow> run" where
  "request_approvals ctx r calls state confs now =
     (if is_terminal (run_status r) \<or> stale_execution ctx r True then r
      else (foldl (ask_approval now) (foldl ask_confirmation r confs) calls)
           \<lparr>run_sdk_state := Some state,
            run_status := (if calls = [] then RunWaitingConfirmation else RunWaitingApproval),
            run_updated_at := now\<rparr>)"

definition complete_run ::
    "exec_context \<Rightarrow> run \<Rightarrow> json_text \<Rightarrow> confirmation list \<Rightarrow> ident \<Rightarrow> instant \<Rightarrow> run" where
  "complete_run ctx r content confs fresh now =
     (if is_terminal (run_status r) \<or> stale_execution ctx r True then r
      else append_event
             ((append_event
                 (r\<lparr>run_confirmations := run_confirmations r @ confs,
                    run_artifacts := run_artifacts r @
                      [\<lparr>art_id = fresh, art_name = ''answer'', art_kind = ''answer'',
                        art_content = content\<rparr>]\<rparr>)
                 (EvArtifact fresh ''answer'' None))
              \<lparr>run_status := RunCompleted, run_updated_at := now\<rparr>)
             EvCompleted)"

definition fail_run :: "exec_context \<Rightarrow> run \<Rightarrow> string \<Rightarrow> instant \<Rightarrow> run" where
  "fail_run ctx r code now =
     (if \<not> is_terminal (run_status r) \<and> \<not> stale_execution ctx r True
      then fail_builtin r code now else r)"

definition unexecuted_step :: "instant \<Rightarrow> string \<Rightarrow> tool_call \<times> ident \<Rightarrow> run_step" where
  "unexecuted_step now code x =
     \<lparr>step_id = snd x, step_kind = ''tool'', step_status = StepCancelled,
      step_call = Some (fst x),
      step_result = Some
        \<lparr>res_name = call_name (fst x), res_success = False, res_output = None,
         res_error_code = Some code, res_outcome = None, res_operation = None,
         res_audit_operation = None, res_warnings = [], res_approval_required = False,
         res_policy = PolicyAsk, res_argument_errors = False, res_authorization = None\<rparr>,
      step_approval = None, step_started_at = Some now, step_completed_at = Some now\<rparr>"

definition add_unexecuted :: "instant \<Rightarrow> string \<Rightarrow> run \<Rightarrow> tool_call \<times> ident \<Rightarrow> run" where
  "add_unexecuted now code r x =
     append_event (r\<lparr>run_steps := run_steps r @ [unexecuted_step now code x]\<rparr>)
       (EvUnexecuted (call_name (fst x)) code)"

definition record_unexecuted :: "instant \<Rightarrow> run \<Rightarrow> string \<Rightarrow> (tool_call \<times> ident) list \<Rightarrow> run" where
  "record_unexecuted now r code calls =
     (foldl (add_unexecuted now code) r calls)\<lparr>run_updated_at := now\<rparr>"

definition record_usage :: "exec_context \<Rightarrow> run \<Rightarrow> run_usage \<Rightarrow> run" where
  "record_usage ctx r u = (if stale_execution ctx r False then r else r\<lparr>run_usage := Some u\<rparr>)"

definition record_run_budget :: "exec_context \<Rightarrow> run \<Rightarrow> snapshot \<Rightarrow> run" where
  "record_run_budget ctx r s =
     (if stale_execution ctx r False then r else r\<lparr>run_budget := Some s\<rparr>)"

definition adopt_stored_cancel :: "run \<Rightarrow> run \<Rightarrow> instant \<Rightarrow> run \<times> bool" where
  "adopt_stored_cancel r stored now =
     (if run_status stored \<noteq> RunCancelled \<or> is_terminal (run_status r) then (r, False)
      else
        (case find (\<lambda>e. case e of EvCancelled _ _ _ _ \<Rightarrow> True | _ \<Rightarrow> False) (rev (run_events stored)) of
           Some (EvCancelled _ _ by_user via) \<Rightarrow> (cancel_run_locked r by_user via now, True)
         | _ \<Rightarrow> (cancel_run_locked r None [] now, True)))"

end
