(* ===== verification/RunRepository.thy ===== *)
theory RunRepository
  imports RunState
begin

text \<open>The repository of runs (\<open>AgentRuntimeRepository\<close> in
  \<open>agent/backend/app/features/agent/runtime.py\<close>): every operation that begins, interrupts,
  answers or ends a run, with its guards in the order of the code. An operation returns the
  repository it leaves together with its result or the exception it raises, so that a change
  made before a raise stays visible. The runs are listed in the insertion order of the
  dictionary; the index of approvals is the list of approvals of the runs. Persistence, the
  fact projection and log lines are outside the model.\<close>

section \<open>Data\<close>

record agent_profile =
  ag_id :: ident
  ag_enabled :: bool
  ag_published_version :: "int option"
  ag_versions :: "int list"
  ag_draft :: json_text

record repo =
  repo_runs :: "run list"
  repo_agents :: "agent_profile list"
  repo_aborts :: "ident list"

datatype run_error =
  KeyError ident
| RunNotActive ident run_status
| ConfirmationClosed ident
| UnknownAnswer
| MissingAnswer
| UnknownOption
| NotSingle
| DecisionHookFailed
| AgentDisabled
| AgentNotPublished ident
| ThreadNotFound ident
| ThreadKindMismatch ident

type_synonym 'a outcome = "repo \<times> (run_error + 'a)"

section \<open>Lookup and update\<close>

definition get_run :: "repo \<Rightarrow> ident \<Rightarrow> run option" where
  "get_run p i = find (\<lambda>r. run_id r = i) (repo_runs p)"

definition put_run :: "repo \<Rightarrow> run \<Rightarrow> repo" where
  "put_run p r = p\<lparr>repo_runs := update_first (\<lambda>x. run_id x = run_id r) (\<lambda>_. r) (repo_runs p)\<rparr>"

definition require_run :: "repo \<Rightarrow> ident \<Rightarrow> (run \<Rightarrow> 'a outcome) \<Rightarrow> 'a outcome" where
  "require_run p i f = (case get_run p i of None \<Rightarrow> (p, Inl (KeyError i)) | Some r \<Rightarrow> f r)"

definition get_agent :: "repo \<Rightarrow> ident \<Rightarrow> agent_profile option" where
  "get_agent p i = find (\<lambda>a. ag_id a = i) (repo_agents p)"

text \<open>\<open>sorted(..., key=created_at, reverse=True)\<close> is stable in Python.\<close>

definition sorted_runs :: "repo \<Rightarrow> run list" where
  "sorted_runs p = sort_key (\<lambda>r. - run_created_at r) (repo_runs p)"

definition thread_runs :: "repo \<Rightarrow> ident \<Rightarrow> run list" where
  "thread_runs p t = sort_key run_created_at (filter (\<lambda>r. run_thread r = Some t) (repo_runs p))"

definition run_thread_owner :: "run \<Rightarrow> ident option" where
  "run_thread_owner r =
     (case nonempty_str (run_owner r) of None \<Rightarrow> run_user r | Some u \<Rightarrow> Some u)"

definition thread_owner :: "run list \<Rightarrow> ident option" where
  "thread_owner rs = (case rs of [] \<Rightarrow> None | r # _ \<Rightarrow> run_thread_owner r)"

definition is_draft_run :: "run \<Rightarrow> bool" where
  "is_draft_run r = (run_agent_version r = Draft)"

definition is_draft_thread :: "run list \<Rightarrow> bool" where
  "is_draft_thread rs = (case rs of [] \<Rightarrow> False | r # _ \<Rightarrow> is_draft_run r)"

definition published :: "agent_profile \<Rightarrow> int option" where
  "published a = find (\<lambda>v. Some v = ag_published_version a) (ag_versions a)"

definition require_thread ::
    "repo \<Rightarrow> ident \<Rightarrow> ident option \<Rightarrow> ident option \<Rightarrow> bool \<Rightarrow> run list option" where
  "require_thread p t user agent all_users =
     (case thread_runs p t of
        [] \<Rightarrow> None
      | r # rs \<Rightarrow>
          if \<not> all_users \<and> thread_owner (r # rs) \<noteq> user then None
          else (case agent of
                  Some a \<Rightarrow> if run_agent r \<noteq> a then None else Some (r # rs)
                | None \<Rightarrow> Some (r # rs)))"

section \<open>The dispatcher's claim\<close>

definition claimable :: "instant \<Rightarrow> run \<Rightarrow> bool" where
  "claimable now r =
     (run_runtime r = BUILTIN_RUNTIME_ID \<and> run_status r = RunQueued \<and> \<not> lease_active r now)"

definition claim_run_locked :: "run \<Rightarrow> ident \<Rightarrow> string \<Rightarrow> int \<Rightarrow> instant \<Rightarrow> run" where
  "claim_run_locked r worker fresh lease_seconds now =
     (let l = new_lease r worker fresh now lease_seconds
      in append_event (r\<lparr>md_lease := Some l, run_updated_at := now\<rparr>)
           (EvClaimed worker (lease_expires_at l) (lease_generation l)))"

definition claim_control_plane_run ::
    "repo \<Rightarrow> ident \<Rightarrow> string \<Rightarrow> int \<Rightarrow> instant \<Rightarrow> repo \<times> run option" where
  "claim_control_plane_run p worker fresh lease_seconds now =
     (case find (claimable now) (rev (sorted_runs p)) of
        None \<Rightarrow> (p, None)
      | Some r \<Rightarrow>
          let r' = claim_run_locked r worker fresh lease_seconds now in (put_run p r', Some r'))"

section \<open>Cancel\<close>

definition cancel_in_repo ::
    "repo \<Rightarrow> run \<Rightarrow> ident option \<Rightarrow> (string \<times> string) list \<Rightarrow> instant \<Rightarrow> repo \<times> run" where
  "cancel_in_repo p r by_user via now =
     (let r' = cancel_run_locked r by_user via now
      in ((put_run p r')\<lparr>repo_aborts := repo_aborts p @ [run_id r]\<rparr>, r'))"

definition cancel_run ::
    "repo \<Rightarrow> ident \<Rightarrow> ident option \<Rightarrow> (string \<times> string) list \<Rightarrow> instant \<Rightarrow> run outcome" where
  "cancel_run p i by_user via now =
     require_run p i (\<lambda>r.
       if is_terminal (run_status r) then (p, Inr r)
       else (case cancel_in_repo p r by_user via now of (p', r') \<Rightarrow> (p', Inr r')))"

section \<open>Begin and resume\<close>

definition begin_builtin_run ::
    "(agent_profile \<Rightarrow> string) \<Rightarrow> repo \<Rightarrow> ident \<Rightarrow> claim option \<Rightarrow> string \<Rightarrow> instant
     \<Rightarrow> (run \<times> agent_profile) option outcome" where
  "begin_builtin_run draft_hash p i c fresh now =
     require_run p i (\<lambda>r.
       if may_begin r c now \<noteq> None then (p, Inr None)
       else (case get_agent p (run_agent r) of
               None \<Rightarrow> (put_run p (fail_builtin r ''runtime.agent_not_found'' now), Inr None)
             | Some a \<Rightarrow>
                 if (case run_definition_hash r of
                       None \<Rightarrow> False | Some h \<Rightarrow> draft_hash a \<noteq> h)
                 then (put_run p (fail_builtin r ''evaluation.definition_changed'' now), Inr None)
                 else let r' = set_running r c fresh now
                      in (put_run p r', Inr (Some (r', a)))))"

definition resume_decisions :: "run \<Rightarrow> (ident \<times> bool) list" where
  "resume_decisions r =
     concat (map (\<lambda>a. case nonempty_str (call_trace_id (appr_call a)) of
                        Some t \<Rightarrow> if appr_status a \<in> {ApprovalApproved, ApprovalRejected}
                                  then [(t, appr_status a = ApprovalApproved)] else []
                      | None \<Rightarrow> []) (run_approvals r))
     @ concat (map (\<lambda>c. if cf_source c = SrcAgent \<and> cf_call c \<noteq> []
                           \<and> cf_status c \<in> {ConfAnswered, ConfSkipped}
                        then [(cf_call c, True)] else []) (run_confirmations r))"

text \<open>A later entry of the dictionary replaces an earlier one.\<close>

definition decision_for :: "(ident \<times> bool) list \<Rightarrow> ident \<Rightarrow> bool option" where
  "decision_for ds call = map_of (rev ds) call"

definition begin_builtin_resume ::
    "repo \<Rightarrow> ident \<Rightarrow> claim option \<Rightarrow> string \<Rightarrow> instant
     \<Rightarrow> (run \<times> agent_profile \<times> string \<times> (ident \<times> bool) list) option outcome" where
  "begin_builtin_resume p i c fresh now =
     require_run p i (\<lambda>r.
       if may_begin r c now \<noteq> None then (p, Inr None)
       else if pending_approval_count r > 0 \<or> pending_agent_confirmations r \<noteq> []
       then (p, Inr None)
       else (case (get_agent p (run_agent r), run_sdk_state r) of
               (Some a, Some state) \<Rightarrow>
                 let r' = set_running (r\<lparr>run_sdk_state := None\<rparr>) c fresh now
                 in (put_run p r', Inr (Some (r', a, state, resume_decisions r)))
             | _ \<Rightarrow>
                 (put_run p (fail_builtin r ''runtime.resume_state_missing'' now), Inr None)))"

section \<open>Tools\<close>

definition builtin_run_ended :: "exec_context \<Rightarrow> repo \<Rightarrow> ident \<Rightarrow> string option \<Rightarrow> bool" where
  "builtin_run_ended ctx p i stored_token =
     (case get_run p i of None \<Rightarrow> False | Some r \<Rightarrow> run_closed_for_tools ctx r stored_token)"

definition approved_builtin_call :: "repo \<Rightarrow> ident \<Rightarrow> ident \<Rightarrow> string \<Rightarrow> approval option" where
  "approved_builtin_call p i call name =
     (if call = [] then None
      else (case get_run p i of
              None \<Rightarrow> None
            | Some r \<Rightarrow>
                find (\<lambda>a. appr_status a = ApprovalApproved
                          \<and> call_trace_id (appr_call a) = Some call
                          \<and> call_name (appr_call a) = name) (run_approvals r)))"

definition start_builtin_tool_step ::
    "exec_context \<Rightarrow> repo \<Rightarrow> ident \<Rightarrow> tool_call \<Rightarrow> bool \<Rightarrow> ident \<Rightarrow> instant
     \<Rightarrow> (ident \<times> invocation) outcome" where
  "start_builtin_tool_step ctx p i call cleanup fresh now =
     require_run p i (\<lambda>r.
       if \<not> cleanup \<and> run_closed_for_tools ctx r None
       then (p, Inl (RunNotActive i (run_status r)))
       else (case start_step r call fresh now of
               (r', step, invoked) \<Rightarrow> (put_run p r', Inr (step, invoked))))"

definition finish_builtin_tool_step ::
    "(string \<Rightarrow> string) \<Rightarrow> (artifact \<Rightarrow> json_text option) \<Rightarrow> repo \<Rightarrow> ident \<Rightarrow> ident \<Rightarrow> tool_result
     \<Rightarrow> ident \<Rightarrow> instant \<Rightarrow> unit outcome" where
  "finish_builtin_tool_step base ext p i step res fresh now =
     require_run p i (\<lambda>r.
       case finish_step base ext r step res fresh now of
         None \<Rightarrow> (p, Inl (KeyError step))
       | Some r' \<Rightarrow> (put_run p r', Inr ()))"

section \<open>Write-backs of an execution\<close>

definition request_builtin_approvals ::
    "exec_context \<Rightarrow> repo \<Rightarrow> ident \<Rightarrow> (tool_call \<times> ident \<times> ident) list \<Rightarrow> string
     \<Rightarrow> confirmation list \<Rightarrow> instant \<Rightarrow> run outcome" where
  "request_builtin_approvals ctx p i calls state confs now =
     require_run p i (\<lambda>r.
       let r' = request_approvals ctx r calls state confs now in (put_run p r', Inr r'))"

definition complete_builtin_run ::
    "exec_context \<Rightarrow> repo \<Rightarrow> ident \<Rightarrow> json_text \<Rightarrow> confirmation list \<Rightarrow> ident \<Rightarrow> instant \<Rightarrow> run outcome"
  where
  "complete_builtin_run ctx p i content confs fresh now =
     require_run p i (\<lambda>r.
       let r' = complete_run ctx r content confs fresh now in (put_run p r', Inr r'))"

definition fail_builtin_run ::
    "exec_context \<Rightarrow> repo \<Rightarrow> ident \<Rightarrow> string \<Rightarrow> instant \<Rightarrow> run outcome" where
  "fail_builtin_run ctx p i code now =
     require_run p i (\<lambda>r. let r' = fail_run ctx r code now in (put_run p r', Inr r'))"

definition record_unexecuted_steps ::
    "repo \<Rightarrow> ident \<Rightarrow> string \<Rightarrow> (tool_call \<times> ident) list \<Rightarrow> instant \<Rightarrow> unit outcome" where
  "record_unexecuted_steps p i code calls now =
     require_run p i (\<lambda>r. (put_run p (record_unexecuted now r code calls), Inr ()))"

definition record_builtin_usage :: "exec_context \<Rightarrow> repo \<Rightarrow> ident \<Rightarrow> run_usage \<Rightarrow> repo" where
  "record_builtin_usage ctx p i u =
     (case get_run p i of None \<Rightarrow> p | Some r \<Rightarrow> put_run p (record_usage ctx r u))"

definition record_builtin_budget :: "exec_context \<Rightarrow> repo \<Rightarrow> ident \<Rightarrow> snapshot \<Rightarrow> repo" where
  "record_builtin_budget ctx p i s =
     (case get_run p i of None \<Rightarrow> p | Some r \<Rightarrow> put_run p (record_run_budget ctx r s))"

definition interrupted :: "instant \<Rightarrow> run \<Rightarrow> bool" where
  "interrupted before r =
     (run_status r \<in> {RunRunning, RunQueued} \<and> run_updated_at r < before)"

definition fail_interrupted_runs :: "repo \<Rightarrow> instant \<Rightarrow> instant \<Rightarrow> repo \<times> ident list" where
  "fail_interrupted_runs p before now =
     (p\<lparr>repo_runs := map (\<lambda>r. if interrupted before r then fail_interrupted r now else r) (repo_runs p)\<rparr>,
      map run_id (filter (interrupted before) (sorted_runs p)))"

section \<open>Approvals\<close>

text \<open>The first run that lists the approval, with the approval.\<close>

fun find_approval :: "run list \<Rightarrow> ident \<Rightarrow> (run \<times> approval) option" where
  "find_approval [] i = None"
| "find_approval (r # rs) i =
     (case find (\<lambda>a. appr_id a = i) (run_approvals r) of
        Some a \<Rightarrow> Some (r, a) | None \<Rightarrow> find_approval rs i)"

definition set_approval :: "run \<Rightarrow> ident \<Rightarrow> approval_status \<Rightarrow> ident option \<Rightarrow> instant \<Rightarrow> run" where
  "set_approval r i st by_user now =
     r\<lparr>run_approvals := update_first (\<lambda>a. appr_id a = i)
         (\<lambda>a. a\<lparr>appr_status := st, appr_decided_by := by_user, appr_decided_at := Some now\<rparr>)
         (run_approvals r)\<rparr>"

definition set_step_status :: "run \<Rightarrow> ident \<Rightarrow> step_status \<Rightarrow> instant \<Rightarrow> run" where
  "set_step_status r i st now =
     r\<lparr>run_steps := update_first (\<lambda>s. step_id s = i)
         (\<lambda>s. if st = StepCancelled then s\<lparr>step_status := st, step_completed_at := Some now\<rparr>
              else s\<lparr>step_status := st\<rparr>) (run_steps r)\<rparr>"

definition after_decision :: "run \<Rightarrow> instant \<Rightarrow> run" where
  "after_decision r now =
     (if pending_approval_count r = 0
      then r\<lparr>run_status := (if pending_agent_confirmations r \<noteq> [] then RunWaitingConfirmation
                             else RunQueued),
             run_updated_at := now\<rparr>
      else r)"

definition decide_run_approval ::
    "run \<Rightarrow> approval \<Rightarrow> bool \<Rightarrow> bool \<Rightarrow> ident option \<Rightarrow> instant \<Rightarrow> run" where
  "decide_run_approval r a approved always by_user now =
     (let r1 = append_event
                 (set_approval r (appr_id a)
                    (if approved then ApprovalApproved else ApprovalRejected) by_user now)
                 (EvApprovalDecided (appr_id a) approved (approved \<and> always))
      in if run_runtime r = BUILTIN_RUNTIME_ID
         then after_decision
                (set_step_status r1 (appr_step a)
                   (if approved then StepPending else StepCancelled) now) now
         else set_step_status r1 (appr_step a) StepCancelled now)"

definition void_run_approval :: "run \<Rightarrow> approval \<Rightarrow> ident option \<Rightarrow> instant \<Rightarrow> run" where
  "void_run_approval r a by_user now =
     (if appr_status a = ApprovalPending
      then append_event (set_approval r (appr_id a) ApprovalCancelled by_user now)
             (EvApprovalVoided (appr_id a) (run_status r))
      else r)"

definition decide_approval ::
    "(run \<Rightarrow> bool) \<Rightarrow> repo \<Rightarrow> ident \<Rightarrow> bool \<Rightarrow> bool \<Rightarrow> ident option \<Rightarrow> instant \<Rightarrow> run outcome" where
  "decide_approval hook_fails p i approved always by_user now =
     (case find_approval (repo_runs p) i of
        None \<Rightarrow> (p, Inl (KeyError i))
      | Some (r, a) \<Rightarrow>
          (case require_step (run_steps r) (appr_step a) of
             None \<Rightarrow> (p, Inl (KeyError (appr_step a)))
           | Some s \<Rightarrow>
               if is_terminal (run_status r) then
                 let r' = void_run_approval r a by_user now in (put_run p r', Inr r')
               else if appr_status a \<noteq> ApprovalPending then (p, Inr r)
               else if hook_fails r then (p, Inl DecisionHookFailed)
               else let r' = decide_run_approval r a approved always by_user now
                    in (put_run p r', Inr r')))"

section \<open>Creating a run\<close>

record create_request =
  cr_goal :: string
  cr_agent :: ident
  cr_thread :: "ident option"
  cr_draft :: bool
  cr_metadata :: "(string \<times> json_text) list"

text \<open>What a caller adds to the metadata: the link to the confirmation answered, the round, and
  the origin of the run it continues.\<close>

record create_extra =
  cx_response :: "response_link option"
  cx_round :: "int option"
  cx_origin :: "(string \<times> string) list"
  cx_definition_hash :: "string option"

definition used_version :: "create_request \<Rightarrow> int option \<Rightarrow> agent_profile \<Rightarrow> agent_version" where
  "used_version req version a =
     (if cr_draft req then Draft
      else (case version of
              Some v \<Rightarrow> if v \<noteq> 0 then Version v
                        else (case ag_published_version a of
                                Some w \<Rightarrow> if w \<noteq> 0 then Version w else Draft | None \<Rightarrow> Draft)
            | None \<Rightarrow> (case ag_published_version a of
                         Some w \<Rightarrow> if w \<noteq> 0 then Version w else Draft | None \<Rightarrow> Draft)))"

definition expire_confirmations :: "instant \<Rightarrow> ident \<Rightarrow> run \<Rightarrow> run" where
  "expire_confirmations now t r =
     (if run_thread r = Some t \<and> is_terminal (run_status r)
      then r\<lparr>run_confirmations := map (close_confirmation now ConfExpired) (run_confirmations r)\<rparr>
      else r)"

definition new_run ::
    "create_request \<Rightarrow> create_extra \<Rightarrow> agent_version \<Rightarrow> ident option \<Rightarrow> ident option
     \<Rightarrow> ident \<Rightarrow> ident \<Rightarrow> instant \<Rightarrow> run" where
  "new_run req extra version user owner i thread now =
     \<lparr>md_lease = None, md_execution = None, run_id = i, run_goal = cr_goal req,
      run_agent = cr_agent req, run_runtime = BUILTIN_RUNTIME_ID, run_status = RunQueued,
      run_steps = [], run_events = [EvCreated (cr_agent req)], run_approvals = [],
      run_confirmations = [], run_artifacts = [], run_pending_calls = [],
      run_sdk_state = None, run_definition_hash = cx_definition_hash extra,
      run_agent_version = version, run_response = cx_response extra,
      run_round = cx_round extra, run_withdrawn = False, run_origin = cx_origin extra,
      run_metadata = cr_metadata req, run_user = user, run_thread = Some thread,
      run_owner = owner, run_usage = None, run_budget = None, run_created_at = now,
      run_updated_at = now\<rparr>"

definition create_builtin_run ::
    "repo \<Rightarrow> create_request \<Rightarrow> ident option \<Rightarrow> int option \<Rightarrow> create_extra \<Rightarrow> bool
     \<Rightarrow> ident \<Rightarrow> ident \<Rightarrow> instant \<Rightarrow> run outcome" where
  "create_builtin_run p req user version extra all_users fresh_run fresh_thread now =
     (case get_agent p (cr_agent req) of
        None \<Rightarrow> (p, Inl (KeyError (cr_agent req)))
      | Some a \<Rightarrow>
          if \<not> ag_enabled a then (p, Inl AgentDisabled)
          else if \<not> cr_draft req \<and> published a = None
          then (p, Inl (AgentNotPublished (cr_agent req)))
          else if \<not> cr_draft req
                  \<and> (case version of None \<Rightarrow> False | Some v \<Rightarrow> v \<notin> set (ag_versions a))
          then (p, Inl (AgentNotPublished (cr_agent req)))
          else
            let v = used_version req version a in
            (case cr_thread req of
               None \<Rightarrow>
                 let r = new_run req extra v user user fresh_run fresh_thread now
                 in (p\<lparr>repo_runs := repo_runs p @ [r]\<rparr>, Inr r)
             | Some t \<Rightarrow>
                 (case require_thread p t user (Some (cr_agent req)) all_users of
                    None \<Rightarrow> (p, Inl (ThreadNotFound t))
                  | Some rs \<Rightarrow>
                      if is_draft_thread rs \<noteq> cr_draft req
                      then (p, Inl (ThreadKindMismatch t))
                      else
                        let r = new_run req extra v user (thread_owner rs) fresh_run t now
                        in (p\<lparr>repo_runs :=
                                map (expire_confirmations now t) (repo_runs p) @ [r]\<rparr>,
                            Inr r))))"

section \<open>Confirmations\<close>

definition answer_for :: "conf_answer list \<Rightarrow> ident \<Rightarrow> conf_answer option" where
  "answer_for as i = find (\<lambda>a. ca_item a = i) (rev as)"

fun check_items :: "conf_item list \<Rightarrow> conf_answer list \<Rightarrow> run_error + conf_answer list" where
  "check_items [] as = Inr []"
| "check_items (it # its) as =
     (case answer_for as (ci_id it) of
        None \<Rightarrow> Inl MissingAnswer
      | Some a \<Rightarrow>
          if ca_options a = [] \<and> ca_other a = [] then Inl MissingAnswer
          else
            let opts = dedup (ca_options a)
            in if \<exists>x\<in>set opts. x \<notin> set (ci_options it) then Inl UnknownOption
               else if ci_single it \<and> (1 < length opts \<or> (opts \<noteq> [] \<and> ca_other a \<noteq> []))
               then Inl NotSingle
               else (case check_items its as of
                       Inl e \<Rightarrow> Inl e
                     | Inr rest \<Rightarrow>
                         Inr (\<lparr>ca_item = ci_id it, ca_options = opts, ca_other = ca_other a\<rparr> # rest)))"

definition validate_answers :: "confirmation \<Rightarrow> conf_answer list \<Rightarrow> run_error + conf_answer list" where
  "validate_answers c as =
     (if \<exists>a\<in>set as. ca_item a \<notin> ci_id ` set (cf_items c) then Inl UnknownAnswer
      else check_items (cf_items c) as)"

definition question_run :: "repo \<Rightarrow> run \<Rightarrow> run" where
  "question_run p r =
     (case run_response r of
        None \<Rightarrow> r
      | Some l \<Rightarrow>
          (case rl_question_run l of
             None \<Rightarrow> r
           | Some q \<Rightarrow> (case get_run p q of None \<Rightarrow> r | Some r' \<Rightarrow> r')))"

definition set_confirmation ::
    "run \<Rightarrow> ident \<Rightarrow> conf_status \<Rightarrow> conf_answer list option \<Rightarrow> instant \<Rightarrow> run" where
  "set_confirmation r i st answers now =
     r\<lparr>run_confirmations := update_first (\<lambda>c. cf_id c = i)
         (\<lambda>c. c\<lparr>cf_status := st, cf_decided_at := Some now,
                 cf_answers := (case answers of None \<Rightarrow> cf_answers c | Some as \<Rightarrow> as)\<rparr>)
         (run_confirmations r)\<rparr>"

definition withdraw_mark :: "instant \<Rightarrow> run \<Rightarrow> run" where
  "withdraw_mark now r =
     r\<lparr>run_withdrawn := True, run_updated_at := now,
       run_confirmations := map (close_confirmation now ConfCancelled) (run_confirmations r)\<rparr>"

definition withdraw_chain :: "repo \<Rightarrow> run \<Rightarrow> ident list" where
  "withdraw_chain p r =
     (case run_thread r of
        None \<Rightarrow> [run_id r]
      | Some t \<Rightarrow>
          let q = question_run p r
          in if run_id q = run_id r then [run_id r]
             else map run_id (filter (\<lambda>x. run_created_at q \<le> run_created_at x
                                          \<and> run_created_at x \<le> run_created_at r)
                    (thread_runs p t)))"

record conf_outcome =
  co_run :: run
  co_next :: "run option"
  co_question :: "string option"
  co_sessions :: "(string \<times> string) list"

definition withdraw_confirmation ::
    "repo \<Rightarrow> run \<Rightarrow> confirmation \<Rightarrow> ident option \<Rightarrow> instant \<Rightarrow> repo \<times> conf_outcome" where
  "withdraw_confirmation p r c by_user now =
     (let q = question_run p r;
          chain = withdraw_chain p r;
          p1 = put_run p (set_confirmation r (cf_id c) ConfCancelled None now);
          p2 = p1\<lparr>repo_runs :=
                  map (\<lambda>x. if run_id x \<in> set chain then withdraw_mark now x else x) (repo_runs p1)\<rparr>;
          sessions = (if cf_source c = SrcAgent then []
                      else case nonempty_str (cf_session c) of
                             None \<Rightarrow> [] | Some s \<Rightarrow> [(cf_connection c, s)]);
          r2 = (case get_run p2 (run_id r) of None \<Rightarrow> r | Some x \<Rightarrow> x);
          (p3, r3) = (if is_terminal (run_status r2) then (p2, r2)
                      else cancel_in_repo p2 r2 by_user [] now);
          r4 = append_event r3 (EvWithdrawn (cf_id c) chain by_user)
      in (put_run p3 r4,
          \<lparr>co_run = r4, co_next = None, co_question = Some (run_goal q),
           co_sessions = sessions\<rparr>))"

definition next_request :: "run \<Rightarrow> string \<Rightarrow> create_request" where
  "next_request r goal =
     \<lparr>cr_goal = goal, cr_agent = run_agent r, cr_thread = run_thread r,
      cr_draft = is_draft_run r, cr_metadata = []\<rparr>"

definition next_extra :: "repo \<Rightarrow> run \<Rightarrow> confirmation \<Rightarrow> conf_action \<Rightarrow> create_extra" where
  "next_extra p r c action =
     \<lparr>cx_response = Some
        \<lparr>rl_confirmation = cf_id c, rl_source = cf_source c, rl_action = action,
         rl_source_run = run_id r, rl_question_run = Some (run_id (question_run p r)),
         rl_round = cf_round c\<rparr>,
      cx_round = Some (cf_round c), cx_origin = run_origin r, cx_definition_hash = None\<rparr>"

definition answer_user :: "ident option \<Rightarrow> run \<Rightarrow> ident option" where
  "answer_user actor r =
     (case nonempty_str actor of None \<Rightarrow> run_user r | Some u \<Rightarrow> Some u)"

definition agent_confirmation_answered :: "run \<Rightarrow> instant \<Rightarrow> run" where
  "agent_confirmation_answered r now =
     (if run_status r = RunWaitingConfirmation \<and> pending_approval_count r = 0
         \<and> pending_agent_confirmations r = []
      then r\<lparr>run_status := RunQueued, run_updated_at := now\<rparr>
      else r\<lparr>run_updated_at := now\<rparr>)"

definition mark_answered ::
    "run \<Rightarrow> confirmation \<Rightarrow> conf_action \<Rightarrow> conf_answer list \<Rightarrow> ident option \<Rightarrow> instant \<Rightarrow> run" where
  "mark_answered r c action normalized by_user now =
     append_event
       (set_confirmation r (cf_id c) (if action = ActAnswer then ConfAnswered else ConfSkipped)
          (Some normalized) now)
       (EvConfirmationDecided (cf_id c) (cf_source c) action by_user)"

text \<open>An agent's confirmation lets the same run go on; a tool's confirmation creates the next run of
  the conversation. The answer is recorded before the next run is created.\<close>

definition answer_confirmation ::
    "repo \<Rightarrow> run \<Rightarrow> confirmation \<Rightarrow> conf_action \<Rightarrow> conf_answer list \<Rightarrow> ident option \<Rightarrow> ident option
     \<Rightarrow> string \<Rightarrow> ident \<Rightarrow> ident \<Rightarrow> instant \<Rightarrow> conf_outcome outcome" where
  "answer_confirmation p r c action normalized by_user actor goal fresh_run fresh_thread now =
     (let r1 = mark_answered r c action normalized by_user now
      in if cf_source c = SrcAgent then
           let r2 = agent_confirmation_answered r1 now
           in (put_run p r2,
               Inr \<lparr>co_run = r2, co_next = None, co_question = None, co_sessions = []\<rparr>)
         else
           let p1 = put_run p r1;
               res = create_builtin_run p1 (next_request r1 goal) (answer_user actor r1) None
                       (next_extra p1 r1 c action) True fresh_run fresh_thread now
           in (fst res,
               case snd res of
                 Inl e \<Rightarrow> Inl e
               | Inr nxt \<Rightarrow>
                   Inr \<lparr>co_run = (case get_run (fst res) (run_id r) of None \<Rightarrow> r1 | Some x \<Rightarrow> x),
                        co_next = Some nxt, co_question = None, co_sessions = []\<rparr>))"

definition decide_confirmation ::
    "repo \<Rightarrow> ident \<Rightarrow> ident \<Rightarrow> conf_action \<Rightarrow> conf_answer list \<Rightarrow> ident option \<Rightarrow> ident option
     \<Rightarrow> string \<Rightarrow> ident \<Rightarrow> ident \<Rightarrow> instant \<Rightarrow> conf_outcome outcome" where
  "decide_confirmation p i conf action answers by_user actor goal fresh_run fresh_thread now =
     require_run p i (\<lambda>r.
       case find (\<lambda>c. cf_id c = conf) (run_confirmations r) of
         None \<Rightarrow> (p, Inl (KeyError conf))
       | Some c \<Rightarrow>
           if cf_status c \<noteq> ConfPending then (p, Inl (ConfirmationClosed conf))
           else if action = ActCancel
           then (case withdraw_confirmation p r c by_user now of (p', out) \<Rightarrow> (p', Inr out))
           else
             (case (if action = ActAnswer then validate_answers c answers else Inr []) of
                Inl e \<Rightarrow> (p, Inl e)
              | Inr normalized \<Rightarrow>
                  answer_confirmation p r c action normalized by_user actor goal fresh_run
                    fresh_thread now))"

section \<open>A cancel stored by another process\<close>

definition adopt_cancel :: "repo \<Rightarrow> run \<Rightarrow> instant \<Rightarrow> repo" where
  "adopt_cancel p stored now =
     (case get_run p (run_id stored) of
        None \<Rightarrow> p
      | Some r \<Rightarrow>
          (case adopt_stored_cancel r stored now of
             (r', changed) \<Rightarrow>
               if changed then (put_run p r')\<lparr>repo_aborts := repo_aborts p @ [run_id r]\<rparr> else p))"

end
