(* ===== verification/RunInvariant.thy ===== *)
theory RunInvariant
  imports RunRepository
begin

text \<open>The well-formedness of a run and its history order. \<open>run_inv\<close> says which pending
  approvals and confirmations each status allows; \<open>run_mono\<close> says what no operation ever
  undoes: a terminal status, a recorded event, a decided approval, the generation of the
  execution. Every operation on one run is proved to respect both.\<close>

section \<open>Definitions\<close>

definition idle :: "run \<Rightarrow> bool" where
  "idle r \<longleftrightarrow> pending_approval_count r = 0 \<and> pending_agent_confirmations r = []"

definition approvals_have_steps :: "run \<Rightarrow> bool" where
  "approvals_have_steps r \<longleftrightarrow> (\<forall>a\<in>set (run_approvals r). appr_step a \<in> step_id ` set (run_steps r))"

definition status_inv :: "run \<Rightarrow> bool" where
  "status_inv r \<longleftrightarrow>
     (run_status r = RunWaitingApproval \<longrightarrow>
        0 < pending_approval_count r \<and> run_sdk_state r \<noteq> None) \<and>
     (run_status r = RunWaitingConfirmation \<longrightarrow>
        pending_approval_count r = 0 \<and> run_sdk_state r \<noteq> None) \<and>
     (run_status r \<notin> {RunWaitingApproval, RunWaitingConfirmation} \<longrightarrow> idle r)"

definition run_inv :: "run \<Rightarrow> bool" where
  "run_inv r \<longleftrightarrow>
     run_runtime r = BUILTIN_RUNTIME_ID \<and> lease_fresh r \<and> approvals_have_steps r \<and> status_inv r"

definition decided_kept :: "approval list \<Rightarrow> approval list \<Rightarrow> bool" where
  "decided_kept as bs \<longleftrightarrow>
     length as \<le> length bs \<and>
     (\<forall>k<length as. appr_id (bs ! k) = appr_id (as ! k) \<and> appr_call (bs ! k) = appr_call (as ! k)
        \<and> (appr_status (as ! k) \<noteq> ApprovalPending \<longrightarrow> bs ! k = as ! k))"

definition run_mono :: "run \<Rightarrow> run \<Rightarrow> bool" where
  "run_mono r r' \<longleftrightarrow>
     run_id r' = run_id r \<and> run_user r' = run_user r \<and> run_thread r' = run_thread r \<and>
     (is_terminal (run_status r) \<longrightarrow> run_status r' = run_status r) \<and>
     execution_generation r \<le> execution_generation r' \<and>
     prefix (run_events r) (run_events r') \<and>
     prefix (map step_id (run_steps r)) (map step_id (run_steps r')) \<and>
     decided_kept (run_approvals r) (run_approvals r')"

section \<open>Order lemmas\<close>

lemma decided_kept_refl [simp]: "decided_kept as as"
  by (simp add: decided_kept_def)

lemma decided_kept_append [simp]: "decided_kept as (as @ bs)"
  by (simp add: decided_kept_def nth_append)

lemma decided_kept_trans:
  "decided_kept as bs \<Longrightarrow> decided_kept bs cs \<Longrightarrow> decided_kept as cs"
  unfolding decided_kept_def by (metis le_trans order_less_le_trans)

lemma decided_kept_map:
  assumes "\<And>a. appr_id (f a) = appr_id a" and "\<And>a. appr_call (f a) = appr_call a"
    and "\<And>a. appr_status a \<noteq> ApprovalPending \<Longrightarrow> f a = a"
  shows "decided_kept as (map f as)"
  using assms by (simp add: decided_kept_def)

lemma decided_kept_update_first:
  assumes "find P as = Some a" and "appr_status a = ApprovalPending"
    and "appr_id (f a) = appr_id a" and "appr_call (f a) = appr_call a"
  shows "decided_kept as (update_first P f as)"
proof -
  obtain ys zs where as: "as = ys @ a # zs" "update_first P f as = ys @ f a # zs"
    using split_update_first[OF assms(1)] by blast
  show ?thesis
    unfolding as(2) unfolding as(1) decided_kept_def using assms by (auto simp: nth_append nth_Cons split: nat.splits)
qed

lemma decided_keptD:
  assumes "decided_kept as bs" and "a \<in> set as" and "appr_status a \<noteq> ApprovalPending"
  shows "a \<in> set bs"
  using assms unfolding decided_kept_def by (metis in_set_conv_nth less_le_trans)

lemma run_mono_refl [simp]: "run_mono r r"
  by (simp add: run_mono_def)

lemma run_mono_trans: "run_mono r1 r2 \<Longrightarrow> run_mono r2 r3 \<Longrightarrow> run_mono r1 r3"
  by (auto simp: run_mono_def dest: decided_kept_trans prefix_order.trans)

section \<open>Congruence\<close>

lemma execution_generation_cong:
  "md_execution r' = md_execution r \<Longrightarrow> execution_generation r' = execution_generation r"
  by (simp add: execution_generation_def)

lemma lease_fresh_cong:
  "md_execution r' = md_execution r \<Longrightarrow> md_lease r' = md_lease r \<or> md_lease r' = None \<Longrightarrow>
   lease_fresh r \<Longrightarrow> lease_fresh r'"
  by (auto simp: lease_fresh_def execution_generation_def)

text \<open>An operation that touches neither the lease, the status, the approvals, the confirmations
  nor the saved state, and that only adds steps.\<close>

definition bookkeeping :: "run \<Rightarrow> run \<Rightarrow> bool" where
  "bookkeeping r r' \<longleftrightarrow>
     run_id r' = run_id r \<and> run_user r' = run_user r \<and> run_thread r' = run_thread r \<and>
     run_runtime r' = run_runtime r \<and> md_lease r' = md_lease r \<and>
     md_execution r' = md_execution r \<and> run_status r' = run_status r \<and>
     run_approvals r' = run_approvals r \<and> run_confirmations r' = run_confirmations r \<and>
     run_sdk_state r' = run_sdk_state r \<and> prefix (run_events r) (run_events r') \<and>
     prefix (map step_id (run_steps r)) (map step_id (run_steps r'))"

lemma bookkeeping_refl [simp]: "bookkeeping r r"
  by (simp add: bookkeeping_def)

lemma bookkeeping_trans: "bookkeeping r1 r2 \<Longrightarrow> bookkeeping r2 r3 \<Longrightarrow> bookkeeping r1 r3"
  by (auto simp: bookkeeping_def dest: prefix_order.trans)

lemma step_ids_prefix:
  "prefix (map step_id ss) (map step_id ss') \<Longrightarrow> step_id ` set ss \<subseteq> step_id ` set ss'"
  by (metis list.set_map set_mono_prefix)

lemma bookkeeping_mono: "bookkeeping r r' \<Longrightarrow> run_mono r r'"
  by (simp add: bookkeeping_def run_mono_def execution_generation_def)

lemma approvals_have_steps_mono:
  "run_approvals r' = run_approvals r \<Longrightarrow>
   prefix (map step_id (run_steps r)) (map step_id (run_steps r')) \<Longrightarrow>
   approvals_have_steps r \<Longrightarrow> approvals_have_steps r'"
  using step_ids_prefix[of "run_steps r" "run_steps r'"]
  unfolding approvals_have_steps_def by (metis subsetD)

lemma bookkeeping_inv: "bookkeeping r r' \<Longrightarrow> run_inv r \<Longrightarrow> run_inv r'"
  using approvals_have_steps_mono[of r' r]
  by (simp add: bookkeeping_def run_inv_def status_inv_def idle_def
      pending_approval_count_def pending_agent_confirmations_def lease_fresh_def
      execution_generation_def)

lemma bookkeeping_append_event [simp]: "bookkeeping r (append_event r e)"
  by (simp add: bookkeeping_def append_event_def)

lemma append_event_inv [simp]: "run_inv (append_event r e) = run_inv r"
  by (simp add: append_event_def run_inv_def status_inv_def idle_def approvals_have_steps_def
      pending_approval_count_def pending_agent_confirmations_def lease_fresh_def
      execution_generation_def)

lemma append_event_sel [simp]:
  "run_status (append_event r e) = run_status r"
  "run_id (append_event r e) = run_id r"
  "run_steps (append_event r e) = run_steps r"
  "run_approvals (append_event r e) = run_approvals r"
  "run_confirmations (append_event r e) = run_confirmations r"
  "run_sdk_state (append_event r e) = run_sdk_state r"
  "run_runtime (append_event r e) = run_runtime r"
  "run_artifacts (append_event r e) = run_artifacts r"
  "run_pending_calls (append_event r e) = run_pending_calls r"
  "md_lease (append_event r e) = md_lease r"
  "md_execution (append_event r e) = md_execution r"
  "run_user (append_event r e) = run_user r"
  "run_thread (append_event r e) = run_thread r"
  "run_events (append_event r e) = run_events r @ [e]"
  by (simp_all add: append_event_def)

section \<open>Bookkeeping operations\<close>

lemma find_step_mem: "find P ss = Some s \<Longrightarrow> step_id s \<in> step_id ` set ss"
  by (auto dest: find_Some_mem)

lemma start_step_bookkeeping: "bookkeeping r (fst (start_step r call fresh now))"
  by (auto simp: start_step_def bookkeeping_def Let_def split: option.splits)

lemma finish_success_bookkeeping: "bookkeeping r (finish_success r s res art after_end)"
  by (auto simp: finish_success_def bookkeeping_def append_guardrail_def Let_def
      split: option.splits prod.splits)

lemma finish_step_bookkeeping:
  assumes "finish_step base ext r i res fresh now = Some r'"
  shows "bookkeeping r r'"
proof -
  have upd: "bookkeeping x (x\<lparr>run_updated_at := now\<rparr>)" for x
    by (simp add: bookkeeping_def)
  have st: "bookkeeping r (r\<lparr>run_steps := update_first P
      (\<lambda>s. s\<lparr>step_result := a, step_completed_at := b, step_status := c\<rparr>) (run_steps r)\<rparr>)"
    for P a b c by (simp add: bookkeeping_def)
  show ?thesis
    using assms
    by (auto simp: finish_step_def Let_def split: option.splits
        intro!: bookkeeping_trans[OF _ upd] bookkeeping_trans[OF st]
          finish_success_bookkeeping)
qed

lemma record_unexecuted_bookkeeping: "bookkeeping r (record_unexecuted now r code calls)"
proof -
  have upd: "bookkeeping x (x\<lparr>run_updated_at := now\<rparr>)" for x
    by (simp add: bookkeeping_def)
  have "bookkeeping r (foldl (add_unexecuted now code) r calls)"
  proof (induction calls arbitrary: r)
    case (Cons x calls)
    have "bookkeeping r (add_unexecuted now code r x)"
      by (simp add: bookkeeping_def add_unexecuted_def)
    from bookkeeping_trans[OF this Cons.IH] show ?case by simp
  qed simp
  from bookkeeping_trans[OF this upd] show ?thesis
    by (simp add: record_unexecuted_def)
qed

lemma record_usage_bookkeeping: "bookkeeping r (record_usage ctx r u)"
  by (simp add: record_usage_def bookkeeping_def)

lemma record_run_budget_bookkeeping: "bookkeeping r (record_run_budget ctx r s)"
  by (simp add: record_run_budget_def bookkeeping_def)

section \<open>Operations that change the state of a run\<close>

lemma claim_run_locked_mono: "run_mono r (claim_run_locked r w f s now)"
  by (simp add: claim_run_locked_def run_mono_def Let_def execution_generation_def)

lemma claim_run_locked_inv:
  assumes "run_inv r" shows "run_inv (claim_run_locked r w f s now)"
proof -
  have "lease_fresh (claim_run_metadata r w f now s)"
    using assms by (simp add: run_inv_def)
  then show ?thesis
    using assms
    by (simp add: claim_run_locked_def claim_run_metadata_def run_inv_def status_inv_def idle_def
        approvals_have_steps_def pending_approval_count_def pending_agent_confirmations_def
        lease_fresh_def execution_generation_def Let_def)
qed

lemma set_running_sel:
  "run_status (set_running r c f now) = RunRunning"
  "run_approvals (set_running r c f now) = run_approvals r"
  "run_confirmations (set_running r c f now) = run_confirmations r"
  "run_steps (set_running r c f now) = run_steps r"
  "run_runtime (set_running r c f now) = run_runtime r"
  "run_id (set_running r c f now) = run_id r"
  "run_user (set_running r c f now) = run_user r"
  "run_thread (set_running r c f now) = run_thread r"
  "md_execution (set_running r c f now) = md_execution (start_execution r c f now)"
  "md_lease (set_running r c f now) = None"
  "prefix (run_events r) (run_events (set_running r c f now))"
  by (simp_all add: set_running_def start_execution_def Let_def)

lemma may_begin_accepted:
  "may_begin r c now = None \<longleftrightarrow> run_status r = RunQueued \<and> begin_rejection r c now = None"
  by (simp add: may_begin_def)

lemma set_running_generation:
  assumes "may_begin r c now = None" and "lease_fresh r"
  shows "execution_generation r < execution_generation (set_running r c f now')"
  using accepted_start_generation(1)[of r c now f now'] assms
  by (simp add: may_begin_accepted execution_generation_def set_running_sel)

lemma set_running_mono:
  assumes "may_begin r c now = None" and "lease_fresh r"
  shows "run_mono r (set_running r c f now')"
  using assms set_running_generation[OF assms, of f now']
  by (simp add: run_mono_def set_running_sel may_begin_accepted is_terminal_def)

lemma set_running_inv:
  assumes "may_begin r c now = None" and "run_inv r"
  shows "run_inv (set_running r c f now')"
proof -
  have "lease_fresh (start_execution r c f now')"
    using assms accepted_start_generation(3)[of r c now f now']
    by (simp add: may_begin_accepted run_inv_def)
  then have "lease_fresh (set_running r c f now')"
    by (simp add: lease_fresh_def execution_generation_def set_running_sel)
  moreover have "idle r" using assms by (simp add: may_begin_accepted run_inv_def status_inv_def)
  ultimately show ?thesis
    using assms(2)
    by (simp add: run_inv_def status_inv_def idle_def approvals_have_steps_def set_running_sel
        pending_approval_count_def pending_agent_confirmations_def)
qed

lemma fail_builtin_mono:
  "\<not> is_terminal (run_status r) \<Longrightarrow> run_mono r (fail_builtin r code now)"
  by (simp add: fail_builtin_def run_mono_def execution_generation_def)

lemma fail_builtin_inv:
  "run_inv r \<Longrightarrow> run_status r \<in> {RunQueued, RunRunning} \<Longrightarrow> run_inv (fail_builtin r code now)"
  by (auto simp: fail_builtin_def run_inv_def status_inv_def idle_def approvals_have_steps_def
      pending_approval_count_def pending_agent_confirmations_def lease_fresh_def
      execution_generation_def)

lemma cancel_approval_sel [simp]:
  "appr_id (cancel_approval now a) = appr_id a"
  "appr_call (cancel_approval now a) = appr_call a"
  "appr_step (cancel_approval now a) = appr_step a"
  "appr_status (cancel_approval now a) \<noteq> ApprovalPending"
  by (simp_all add: cancel_approval_def)

lemma cancel_step_id [simp]: "step_id (cancel_step now s) = step_id s"
  by (simp add: cancel_step_def)

lemma close_confirmation_sel [simp]:
  "cf_id (close_confirmation now st c) = cf_id c"
  "cf_source (close_confirmation now st c) = cf_source c"
  "st \<noteq> ConfPending \<Longrightarrow> cf_status (close_confirmation now st c) \<noteq> ConfPending"
  by (simp_all add: close_confirmation_def)

lemma cancel_run_locked_mono:
  "\<not> is_terminal (run_status r) \<Longrightarrow> run_mono r (cancel_run_locked r by_user via now)"
  by (auto simp: cancel_run_locked_def run_mono_def execution_generation_def Let_def comp_def
      cancel_approval_def intro!: decided_kept_map)

lemma cancel_run_locked_inv:
  "run_inv r \<Longrightarrow> run_inv (cancel_run_locked r by_user via now)"
  by (auto simp: cancel_run_locked_def run_inv_def status_inv_def idle_def Let_def
      approvals_have_steps_def pending_approval_count_def pending_agent_confirmations_def
      lease_fresh_def execution_generation_def filter_empty_conv image_image)

lemma interrupt_step_id [simp]: "step_id (interrupt_step now s) = step_id s"
  by (auto simp: interrupt_step_def split: option.splits step_status.splits)

lemma fail_interrupted_mono:
  "interrupted before r \<Longrightarrow> run_mono r (fail_interrupted r now)"
  by (auto simp: fail_interrupted_def interrupted_def run_mono_def is_terminal_def
      execution_generation_def comp_def)

lemma fail_interrupted_inv:
  "run_inv r \<Longrightarrow> interrupted before r \<Longrightarrow> run_inv (fail_interrupted r now)"
  by (auto simp: fail_interrupted_def interrupted_def run_inv_def status_inv_def idle_def
      approvals_have_steps_def pending_approval_count_def pending_agent_confirmations_def
      lease_fresh_def execution_generation_def image_image)

end
