(* ===== verification/RunWriteBacks.thy ===== *)
theory RunWriteBacks
  imports RunInvariant
begin

text \<open>Preservation by the write-backs of an execution (approval request, completion, failure)
  and by the decisions of a user (approvals, confirmations, withdrawal, expiry). A write-back
  is covered as the worker issues it: inside the context of an execution of the run.\<close>

section \<open>The fence\<close>

text \<open>Inside an execution of the run, a segment end that is accepted finds the run running under
  the same token.\<close>

lemma fenced_segment_end:
  assumes "current_execution_token ctx (run_id r) = Some t"
    and "\<not> (is_terminal (run_status r) \<or> stale_execution ctx r True)"
  shows "run_status r = RunRunning" and "execution_token r = Some t"
  using assms by (auto simp: stale_execution_def)

lemma stale_superseded:
  "current_execution_token ctx (run_id r) = Some t \<Longrightarrow> execution_token r \<noteq> Some t \<Longrightarrow>
   stale_execution ctx r e"
  by (simp add: stale_execution_def)

lemma current_token_bound:
  "execution_token r = Some t \<Longrightarrow>
   current_execution_token (fst (bind_execution ctx (run_id r) r)) (run_id r) = Some t"
  by (simp add: current_execution_token_def bind_execution_def)

section \<open>Completion and failure\<close>

lemma complete_run_mono: "run_mono r (complete_run ctx r content confs fresh now)"
  by (auto simp: complete_run_def run_mono_def execution_generation_def)

lemma complete_run_inv:
  assumes "run_inv r" and "current_execution_token ctx (run_id r) \<noteq> None"
    and "\<forall>c\<in>set confs. cf_source c \<noteq> SrcAgent"
  shows "run_inv (complete_run ctx r content confs fresh now)"
proof (cases "is_terminal (run_status r) \<or> stale_execution ctx r True")
  case True
  with assms(1) show ?thesis by (simp add: complete_run_def)
next
  case False
  with assms(2) have "run_status r = RunRunning"
    using fenced_segment_end by blast
  with assms have "idle r" by (simp add: run_inv_def status_inv_def)
  with False assms show ?thesis
    by (auto simp: complete_run_def run_inv_def status_inv_def idle_def approvals_have_steps_def
        pending_approval_count_def pending_agent_confirmations_def lease_fresh_def
        execution_generation_def filter_empty_conv)
qed

lemma fail_run_mono: "run_mono r (fail_run ctx r code now)"
  by (simp add: fail_run_def fail_builtin_mono)

lemma fail_run_inv:
  assumes "run_inv r" and "current_execution_token ctx (run_id r) \<noteq> None"
  shows "run_inv (fail_run ctx r code now)"
  using assms fenced_segment_end(1) fail_builtin_inv
  by (cases "is_terminal (run_status r) \<or> stale_execution ctx r True") (auto simp: fail_run_def)

section \<open>Request of approvals\<close>

definition waiting_growth :: "run \<Rightarrow> run \<Rightarrow> bool" where
  "waiting_growth r r' \<longleftrightarrow>
     run_id r' = run_id r \<and> run_user r' = run_user r \<and> run_thread r' = run_thread r \<and>
     run_runtime r' = run_runtime r \<and> md_lease r' = md_lease r \<and>
     md_execution r' = md_execution r \<and> run_status r' = run_status r \<and>
     decided_kept (run_approvals r) (run_approvals r') \<and>
     pending_approval_count r \<le> pending_approval_count r' \<and>
     (approvals_have_steps r \<longrightarrow> approvals_have_steps r') \<and>
     prefix (run_events r) (run_events r') \<and>
     prefix (map step_id (run_steps r)) (map step_id (run_steps r'))"

lemma waiting_growth_refl [simp]: "waiting_growth r r"
  by (simp add: waiting_growth_def)

lemma waiting_growth_trans:
  "waiting_growth r1 r2 \<Longrightarrow> waiting_growth r2 r3 \<Longrightarrow> waiting_growth r1 r3"
  by (auto simp: waiting_growth_def dest: decided_kept_trans prefix_order.trans)

lemma ask_confirmation_growth: "waiting_growth r (ask_confirmation r c)"
  by (simp add: waiting_growth_def ask_confirmation_def pending_approval_count_def
      approvals_have_steps_def)

lemma ask_confirmations_growth: "waiting_growth r (foldl ask_confirmation r cs)"
  by (induction cs arbitrary: r)
    (auto intro: waiting_growth_trans ask_confirmation_growth)

lemma ask_confirmations_approvals [simp]:
  "run_approvals (foldl ask_confirmation r cs) = run_approvals r"
  by (induction cs arbitrary: r) (auto simp: ask_confirmation_def)

lemma ask_approval_growth: "waiting_growth r (ask_approval now r x)"
  by (cases x) (simp add: waiting_growth_def ask_approval_def pending_approval_count_def
      approvals_have_steps_def)

lemma ask_approvals_growth: "waiting_growth r (foldl (ask_approval now) r xs)"
  by (induction xs arbitrary: r) (auto intro: waiting_growth_trans ask_approval_growth)

lemma ask_approval_pending: "0 < pending_approval_count (ask_approval now r x)"
  by (cases x) (simp add: ask_approval_def pending_approval_count_def)

lemma ask_approvals_pending:
  assumes "xs \<noteq> []"
  shows "0 < pending_approval_count (foldl (ask_approval now) r xs)"
proof (cases xs)
  case (Cons x ys)
  have "pending_approval_count (ask_approval now r x) \<le>
      pending_approval_count (foldl (ask_approval now) (ask_approval now r x) ys)"
    using ask_approvals_growth unfolding waiting_growth_def by blast
  with ask_approval_pending[of now r x] Cons show ?thesis by simp
qed (use assms in simp)

lemma pending_count_growth:
  "xs = [] \<Longrightarrow> pending_approval_count (foldl (ask_approval now) (foldl ask_confirmation r cs) xs) =
     pending_approval_count r"
  by (simp add: pending_approval_count_def)

definition request_growth ::
    "run \<Rightarrow> (tool_call \<times> ident \<times> ident) list \<Rightarrow> confirmation list \<Rightarrow> instant \<Rightarrow> run" where
  "request_growth r calls confs now = foldl (ask_approval now) (foldl ask_confirmation r confs) calls"

lemma request_growth: "waiting_growth r (request_growth r calls confs now)"
  unfolding request_growth_def
  by (rule waiting_growth_trans[OF ask_confirmations_growth ask_approvals_growth])

lemma request_approvals_mono: "run_mono r (request_approvals ctx r calls state confs now)"
  using request_growth[of r calls confs now]
  by (simp add: request_approvals_def run_mono_def waiting_growth_def request_growth_def
      execution_generation_def)

lemma request_approvals_inv:
  assumes "run_inv r" and "current_execution_token ctx (run_id r) \<noteq> None"
  shows "run_inv (request_approvals ctx r calls state confs now)"
proof (cases "is_terminal (run_status r) \<or> stale_execution ctx r True")
  case True
  with assms(1) show ?thesis by (simp add: request_approvals_def)
next
  case False
  let ?g = "request_growth r calls confs now"
  have "run_status r = RunRunning"
    using False assms(2) fenced_segment_end by blast
  with assms have idle: "idle r" by (simp add: run_inv_def status_inv_def)
  have g: "waiting_growth r ?g" by (rule request_growth)
  have steps: "approvals_have_steps ?g"
    using g assms(1) by (simp add: waiting_growth_def run_inv_def)
  have fresh: "lease_fresh ?g"
    using g assms(1)
    by (simp add: waiting_growth_def run_inv_def lease_fresh_def execution_generation_def)
  have count: "calls \<noteq> [] \<Longrightarrow> 0 < pending_approval_count ?g"
      "calls = [] \<Longrightarrow> pending_approval_count ?g = 0"
    using ask_approvals_pending idle
    by (auto simp: request_growth_def idle_def pending_approval_count_def)
  have eq: "request_approvals ctx r calls state confs now =
      ?g\<lparr>run_sdk_state := Some state,
         run_status := (if calls = [] then RunWaitingConfirmation else RunWaitingApproval),
         run_updated_at := now\<rparr>"
    using False by (simp add: request_approvals_def request_growth_def)
  show ?thesis
    unfolding eq using g steps fresh count assms(1)
    by (simp add: run_inv_def status_inv_def waiting_growth_def approvals_have_steps_def
        lease_fresh_def execution_generation_def pending_approval_count_def)
qed

section \<open>Decisions on approvals\<close>

lemma set_approval_count:
  assumes "find (\<lambda>a. appr_id a = i) as = Some a" and "appr_status a = ApprovalPending"
    and "appr_status (f a) \<noteq> ApprovalPending"
  shows "Suc (length (filter (\<lambda>a. appr_status a = ApprovalPending)
              (update_first (\<lambda>a. appr_id a = i) f as))) =
         length (filter (\<lambda>a. appr_status a = ApprovalPending) as)"
proof -
  obtain ys zs where as: "as = ys @ a # zs"
      and upd: "update_first (\<lambda>a. appr_id a = i) f as = ys @ f a # zs"
    using split_update_first[OF assms(1)] by blast
  show ?thesis unfolding upd unfolding as using assms by simp
qed

lemma set_approval_sel [simp]:
  "run_status (set_approval r i st u now) = run_status r"
  "run_id (set_approval r i st u now) = run_id r"
  "run_steps (set_approval r i st u now) = run_steps r"
  "run_confirmations (set_approval r i st u now) = run_confirmations r"
  "run_sdk_state (set_approval r i st u now) = run_sdk_state r"
  "run_runtime (set_approval r i st u now) = run_runtime r"
  "md_lease (set_approval r i st u now) = md_lease r"
  "md_execution (set_approval r i st u now) = md_execution r"
  "run_user (set_approval r i st u now) = run_user r"
  "run_thread (set_approval r i st u now) = run_thread r"
  "run_events (set_approval r i st u now) = run_events r"
  by (simp_all add: set_approval_def)

lemma set_step_status_sel [simp]:
  "run_status (set_step_status r i st now) = run_status r"
  "run_id (set_step_status r i st now) = run_id r"
  "run_approvals (set_step_status r i st now) = run_approvals r"
  "run_confirmations (set_step_status r i st now) = run_confirmations r"
  "run_sdk_state (set_step_status r i st now) = run_sdk_state r"
  "run_runtime (set_step_status r i st now) = run_runtime r"
  "md_lease (set_step_status r i st now) = md_lease r"
  "md_execution (set_step_status r i st now) = md_execution r"
  "run_user (set_step_status r i st now) = run_user r"
  "run_thread (set_step_status r i st now) = run_thread r"
  "run_events (set_step_status r i st now) = run_events r"
  "map step_id (run_steps (set_step_status r i st now)) = map step_id (run_steps r)"
  by (simp_all add: set_step_status_def)

lemma set_approval_decided:
  assumes "find (\<lambda>a. appr_id a = i) (run_approvals r) = Some a"
    and "appr_status a = ApprovalPending"
  shows "decided_kept (run_approvals r) (run_approvals (set_approval r i st u now))"
  unfolding set_approval_def
  by (simp, rule decided_kept_update_first[OF assms(1,2)]) simp_all

lemma set_approval_steps:
  assumes "approvals_have_steps r"
  shows "approvals_have_steps (set_approval r i st u now)"
  unfolding approvals_have_steps_def
proof
  fix a
  assume a: "a \<in> set (run_approvals (set_approval r i st u now))"
  have old: "appr_step a \<in> step_id ` set (run_steps r)" if "a \<in> set (run_approvals r)" for a
    using assms that by (simp add: approvals_have_steps_def)
  have "appr_step a \<in> step_id ` set (run_steps r)"
    by (rule update_first_all[where Q = "\<lambda>a. appr_step a \<in> step_id ` set (run_steps r)",
          OF _ _ a[unfolded set_approval_def, simplified]]) (simp_all add: old)
  then show "appr_step a \<in> step_id ` set (run_steps (set_approval r i st u now))" by simp
qed

lemma after_decision_sel [simp]:
  "run_id (after_decision r now) = run_id r"
  "run_steps (after_decision r now) = run_steps r"
  "run_approvals (after_decision r now) = run_approvals r"
  "run_confirmations (after_decision r now) = run_confirmations r"
  "run_sdk_state (after_decision r now) = run_sdk_state r"
  "run_runtime (after_decision r now) = run_runtime r"
  "md_lease (after_decision r now) = md_lease r"
  "md_execution (after_decision r now) = md_execution r"
  "run_user (after_decision r now) = run_user r"
  "run_thread (after_decision r now) = run_thread r"
  "run_events (after_decision r now) = run_events r"
  by (simp_all add: after_decision_def)

lemma decide_run_approval_mono:
  assumes "find (\<lambda>a. appr_id a = i) (run_approvals r) = Some a"
    and "appr_status a = ApprovalPending" and "\<not> is_terminal (run_status r)"
  shows "run_mono r (decide_run_approval r a approved always u now)"
proof -
  have "appr_id a = i" using find_Some_mem[OF assms(1)] by simp
  then show ?thesis
    using set_approval_decided[OF assms(1,2)] assms(3)
    by (simp add: decide_run_approval_def run_mono_def Let_def execution_generation_def)
qed

lemma void_run_approval_mono:
  assumes "find (\<lambda>a. appr_id a = i) (run_approvals r) = Some a"
  shows "run_mono r (void_run_approval r a u now)"
proof -
  have "appr_id a = i" using find_Some_mem[OF assms] by simp
  then show ?thesis
    using set_approval_decided[OF assms]
    by (simp add: void_run_approval_def run_mono_def execution_generation_def)
qed

lemma pending_found_count:
  assumes "find (\<lambda>a. appr_id a = i) (run_approvals r) = Some a" and "appr_status a = ApprovalPending"
  shows "0 < pending_approval_count r"
proof -
  have "a \<in> set (filter (\<lambda>a. appr_status a = ApprovalPending) (run_approvals r))"
    using find_Some_mem[OF assms(1)] assms(2) by simp
  then show ?thesis unfolding pending_approval_count_def by (metis length_pos_if_in_set)
qed

lemma approvals_have_steps_cong:
  "run_approvals r' = run_approvals r \<Longrightarrow> map step_id (run_steps r') = map step_id (run_steps r) \<Longrightarrow>
   approvals_have_steps r' = approvals_have_steps r"
  unfolding approvals_have_steps_def by (metis list.set_map)

text \<open>A pending approval means that the run waits for approvals; the decision either leaves it
  waiting or hands it on.\<close>

lemma pending_means_waiting:
  "run_inv r \<Longrightarrow> 0 < pending_approval_count r \<Longrightarrow> run_status r = RunWaitingApproval"
  by (cases "run_status r") (auto simp: run_inv_def status_inv_def idle_def)

lemma decide_run_approval_inv:
  assumes "run_inv r" and "find (\<lambda>a. appr_id a = i) (run_approvals r) = Some a"
    and "appr_status a = ApprovalPending"
  shows "run_inv (decide_run_approval r a approved always u now)"
proof -
  have i: "appr_id a = i" using find_Some_mem[OF assms(2)] by simp
  have wait: "run_status r = RunWaitingApproval"
    using pending_means_waiting[OF assms(1)] pending_found_count[OF assms(2,3)] by simp
  have rt: "run_runtime r = BUILTIN_RUNTIME_ID" using assms(1) by (simp add: run_inv_def)
  let ?st = "if approved then ApprovalApproved else ApprovalRejected"
  let ?ss = "if approved then StepPending else StepCancelled"
  let ?r1 = "append_event (set_approval r i ?st u now) (EvApprovalDecided i approved (approved \<and> always))"
  let ?r2 = "set_step_status ?r1 (appr_step a) ?ss now"
  have eq: "decide_run_approval r a approved always u now = after_decision ?r2 now"
    using rt i by (simp add: decide_run_approval_def Let_def)
  have steps: "approvals_have_steps ?r2"
  proof -
    have "approvals_have_steps (set_approval r i ?st u now)"
      using assms(1) by (intro set_approval_steps) (simp add: run_inv_def)
    then show ?thesis
      using approvals_have_steps_cong[of ?r2 "set_approval r i ?st u now"] by simp
  qed
  have "run_sdk_state r \<noteq> None" using assms(1) wait by (simp add: run_inv_def status_inv_def)
  then show ?thesis
    unfolding eq using assms(1) steps wait rt
    by (auto simp: run_inv_def status_inv_def after_decision_def idle_def lease_fresh_def
        execution_generation_def approvals_have_steps_def pending_approval_count_def
        pending_agent_confirmations_def)
qed

lemma void_run_approval_inv:
  assumes "run_inv r" and "find (\<lambda>a. appr_id a = i) (run_approvals r) = Some a"
    and "is_terminal (run_status r)"
  shows "run_inv (void_run_approval r a u now)"
proof -
  have "appr_status a \<noteq> ApprovalPending"
    using pending_means_waiting[OF assms(1)] pending_found_count[OF assms(2)] assms(3)
    by (auto simp: is_terminal_def)
  with assms(1) show ?thesis by (simp add: void_run_approval_def)
qed

section \<open>Confirmations\<close>

text \<open>An operation on confirmations that only closes them.\<close>

definition closes_confirmations :: "run \<Rightarrow> run \<Rightarrow> bool" where
  "closes_confirmations r r' \<longleftrightarrow>
     run_id r' = run_id r \<and> run_user r' = run_user r \<and> run_thread r' = run_thread r \<and>
     run_runtime r' = run_runtime r \<and> md_lease r' = md_lease r \<and>
     md_execution r' = md_execution r \<and> run_status r' = run_status r \<and>
     run_approvals r' = run_approvals r \<and> run_sdk_state r' = run_sdk_state r \<and>
     run_steps r' = run_steps r \<and> prefix (run_events r) (run_events r') \<and>
     (pending_agent_confirmations r = [] \<longrightarrow> pending_agent_confirmations r' = [])"

lemma closes_confirmations_mono: "closes_confirmations r r' \<Longrightarrow> run_mono r r'"
  by (simp add: closes_confirmations_def run_mono_def execution_generation_def)

lemma closes_confirmations_inv: "closes_confirmations r r' \<Longrightarrow> run_inv r \<Longrightarrow> run_inv r'"
  by (simp add: closes_confirmations_def run_inv_def status_inv_def idle_def lease_fresh_def
      execution_generation_def approvals_have_steps_def pending_approval_count_def)

lemma closes_confirmations_trans:
  "closes_confirmations r1 r2 \<Longrightarrow> closes_confirmations r2 r3 \<Longrightarrow> closes_confirmations r1 r3"
  by (auto simp: closes_confirmations_def dest: prefix_order.trans)

lemma append_event_closes [simp]: "closes_confirmations r (append_event r e)"
  by (simp add: closes_confirmations_def pending_agent_confirmations_def)

lemma close_all_pending:
  "st \<noteq> ConfPending \<Longrightarrow>
   filter (\<lambda>c. cf_source c = SrcAgent \<and> cf_status c = ConfPending)
     (map (close_confirmation now st) cs) = []"
  by (auto simp: filter_empty_conv)

lemma withdraw_mark_closes: "closes_confirmations r (withdraw_mark now r)"
  by (simp add: closes_confirmations_def withdraw_mark_def pending_agent_confirmations_def
      close_all_pending)

lemma expire_confirmations_closes: "closes_confirmations r (expire_confirmations now t r)"
  by (simp add: closes_confirmations_def expire_confirmations_def pending_agent_confirmations_def
      close_all_pending)

lemma close_first_pending:
  assumes "\<And>c. cf_status (f c) \<noteq> ConfPending"
    and "filter (\<lambda>c. cf_source c = SrcAgent \<and> cf_status c = ConfPending) cs = []"
  shows "filter (\<lambda>c. cf_source c = SrcAgent \<and> cf_status c = ConfPending) (update_first P f cs) = []"
  using assms(2) by (induction cs) (auto simp: assms(1) split: if_splits)

lemma set_confirmation_closes:
  assumes "st \<noteq> ConfPending"
  shows "closes_confirmations r (set_confirmation r i st as now)"
  using close_first_pending[of _ "run_confirmations r"] assms
  by (auto simp: closes_confirmations_def set_confirmation_def pending_agent_confirmations_def
      intro!: close_first_pending)

lemma agent_confirmation_answered_mono:
  "run_mono r (agent_confirmation_answered r now)"
  by (simp add: agent_confirmation_answered_def run_mono_def execution_generation_def is_terminal_def)

lemma agent_confirmation_answered_inv:
  "run_inv r \<Longrightarrow> run_inv (agent_confirmation_answered r now)"
  by (auto simp: agent_confirmation_answered_def run_inv_def status_inv_def idle_def
      lease_fresh_def execution_generation_def approvals_have_steps_def
      pending_approval_count_def pending_agent_confirmations_def)

lemma new_run_inv: "run_inv (new_run req extra v user owner i t now)"
  by (simp add: new_run_def run_inv_def status_inv_def idle_def lease_fresh_def
      execution_generation_def approvals_have_steps_def pending_approval_count_def
      pending_agent_confirmations_def)

section \<open>A cancel adopted from the store\<close>

lemma adopt_stored_cancel_mono: "run_mono r (fst (adopt_stored_cancel r stored now))"
  by (auto simp: adopt_stored_cancel_def cancel_run_locked_mono split: option.splits run_event.splits)

lemma adopt_stored_cancel_inv: "run_inv r \<Longrightarrow> run_inv (fst (adopt_stored_cancel r stored now))"
  by (auto simp: adopt_stored_cancel_def cancel_run_locked_inv split: option.splits run_event.splits)

end
