(* ===== verification/Fencing.thy ===== *)
theory Fencing
  imports Prelude
begin

text \<open>The interface of a fenced start: a system whose steps never lower a generation, and whose
  starts are accepted only for a claim of a newer generation, which they then install. A client
  of the interface learns that a claim is used at most once and that later starts have later
  generations.\<close>

locale fenced_start =
  fixes step :: "'s \<Rightarrow> 's \<Rightarrow> bool"
    and inv :: "'s \<Rightarrow> bool"
    and gen :: "'s \<Rightarrow> int"
    and starts :: "'s \<Rightarrow> 'c \<Rightarrow> 's \<Rightarrow> bool"
    and claim_gen :: "'c \<Rightarrow> int"
  assumes step_inv: "inv s \<Longrightarrow> step s s' \<Longrightarrow> inv s'"
    and step_gen: "inv s \<Longrightarrow> step s s' \<Longrightarrow> gen s \<le> gen s'"
    and starts_step: "starts s c s' \<Longrightarrow> step s s'"
    and starts_newer: "inv s \<Longrightarrow> starts s c s' \<Longrightarrow> gen s < claim_gen c"
    and starts_gen: "inv s \<Longrightarrow> starts s c s' \<Longrightarrow> gen s' = claim_gen c"
begin

lemma steps_inv: "step\<^sup>*\<^sup>* s s' \<Longrightarrow> inv s \<Longrightarrow> inv s'"
  by (induction rule: rtranclp_induct) (auto intro: step_inv)

lemma steps_gen: "step\<^sup>*\<^sup>* s s' \<Longrightarrow> inv s \<Longrightarrow> gen s \<le> gen s'"
proof (induction rule: rtranclp_induct)
  case (step y z)
  have "inv y" using steps_inv[OF step.hyps(1)] step.prems .
  with step step_gen[of y z] show ?case by simp
qed simp

lemma starts_increase:
  assumes "inv s" and "starts s c s1" and "step\<^sup>*\<^sup>* s1 s2" and "starts s2 c' s3"
  shows "claim_gen c < claim_gen c'"
proof -
  have 1: "inv s1" using step_inv[OF assms(1) starts_step[OF assms(2)]] .
  have "claim_gen c = gen s1" using starts_gen[OF assms(1,2)] by simp
  also have "\<dots> \<le> gen s2" by (rule steps_gen[OF assms(3) 1])
  also have "\<dots> < claim_gen c'" by (rule starts_newer[OF steps_inv[OF assms(3) 1] assms(4)])
  finally show ?thesis .
qed

lemma at_most_once:
  assumes "inv s" and "starts s c s1" and "step\<^sup>*\<^sup>* s1 s2"
  shows "\<not> starts s2 c s3"
  using starts_increase[OF assms] by blast

end

end
