(* ===== verification/RunLifecycle.thy ===== *)
theory RunLifecycle
  imports RunWriteBacks Fencing
begin

text \<open>The life of all runs: the step relation whose rules are the operations of the repository as
  their callers issue them, the invariant of every reachable repository, the history order, and
  the fenced start interface interpreted on begin and resume.\<close>

section \<open>Repositories\<close>

definition repo_inv :: "repo \<Rightarrow> bool" where
  "repo_inv p \<longleftrightarrow> distinct (map run_id (repo_runs p)) \<and> (\<forall>r\<in>set (repo_runs p). run_inv r)"

definition repo_mono :: "repo \<Rightarrow> repo \<Rightarrow> bool" where
  "repo_mono p p' \<longleftrightarrow> (\<forall>i r. get_run p i = Some r \<longrightarrow> (\<exists>r'. get_run p' i = Some r' \<and> run_mono r r'))"

definition repo_ok :: "repo \<Rightarrow> repo \<Rightarrow> bool" where
  "repo_ok p p' \<longleftrightarrow> (repo_inv p \<longrightarrow> repo_inv p' \<and> repo_mono p p')"

lemma repo_mono_refl [simp]: "repo_mono p p"
  by (simp add: repo_mono_def)

lemma repo_mono_trans: "repo_mono p q \<Longrightarrow> repo_mono q s \<Longrightarrow> repo_mono p s"
  unfolding repo_mono_def by (meson run_mono_trans)

lemma repo_ok_refl [simp]: "repo_ok p p"
  by (simp add: repo_ok_def)

lemma repo_ok_trans: "repo_ok p q \<Longrightarrow> repo_ok q s \<Longrightarrow> repo_ok p s"
  unfolding repo_ok_def by (meson repo_mono_trans)

lemma get_run_id: "get_run p i = Some r \<Longrightarrow> run_id r = i \<and> r \<in> set (repo_runs p)"
  unfolding get_run_def by (drule find_Some_mem) simp

lemma get_run_mem:
  assumes "distinct (map run_id (repo_runs p))" and "r \<in> set (repo_runs p)"
  shows "get_run p (run_id r) = Some r"
proof -
  have "distinct (map run_id rs) \<Longrightarrow> r \<in> set rs \<Longrightarrow> find (\<lambda>x. run_id x = run_id r) rs = Some r" for rs
    by (induction rs) (auto simp: image_iff)
  with assms show ?thesis by (simp add: get_run_def)
qed

lemma repo_runs_put_run [simp]:
  "repo_runs (put_run p r) = update_first (\<lambda>x. run_id x = run_id r) (\<lambda>_. r) (repo_runs p)"
  by (simp add: put_run_def)

lemma put_run_ids [simp]: "map run_id (repo_runs (put_run p r)) = map run_id (repo_runs p)"
proof -
  have "map run_id (update_first (\<lambda>x. run_id x = run_id r) (\<lambda>_. r) xs) = map run_id xs" for xs
    by (induction xs) auto
  then show ?thesis by simp
qed

lemma get_run_put_run:
  "get_run p (run_id r) \<noteq> None \<Longrightarrow>
   get_run (put_run p r) i = (if i = run_id r then Some r else get_run p i)"
proof -
  have "find (\<lambda>x. run_id x = run_id r) xs \<noteq> None \<Longrightarrow>
      find (\<lambda>x. run_id x = i) (update_first (\<lambda>x. run_id x = run_id r) (\<lambda>_. r) xs) =
      (if i = run_id r then Some r else find (\<lambda>x. run_id x = i) xs)" for xs
    by (induction xs) auto
  then show "get_run p (run_id r) \<noteq> None \<Longrightarrow> ?thesis" by (simp add: get_run_def)
qed

lemma get_run_aborts [simp]: "get_run (p\<lparr>repo_aborts := x\<rparr>) i = get_run p i"
  by (simp add: get_run_def)

lemma repo_ok_aborts [simp]: "repo_ok p (q\<lparr>repo_aborts := x\<rparr>) = repo_ok p q"
  by (simp add: repo_ok_def repo_inv_def repo_mono_def)

lemma put_run_ok:
  assumes "get_run p i = Some r"
    and "run_inv r \<Longrightarrow> run_mono r r'" and "run_inv r \<Longrightarrow> run_inv r'"
  shows "repo_ok p (put_run p r')"
  unfolding repo_ok_def
proof
  assume inv: "repo_inv p"
  have r: "run_id r = i" "r \<in> set (repo_runs p)" using get_run_id[OF assms(1)] by auto
  have rinv: "run_inv r" using inv r by (simp add: repo_inv_def)
  have mono: "run_mono r r'" and inv': "run_inv r'" using assms rinv by auto
  have id': "run_id r' = i" using mono r by (simp add: run_mono_def)
  have "run_inv x" if "x \<in> set (repo_runs (put_run p r'))" for x
    using update_first_all[of "repo_runs p" run_inv "\<lambda>x. run_id x = run_id r'" "\<lambda>_. r'" x]
      inv inv' that by (simp add: repo_inv_def)
  then have 1: "repo_inv (put_run p r')"
    using inv by (simp add: repo_inv_def put_run_ids[unfolded repo_runs_put_run])
  have 2: "repo_mono p (put_run p r')"
    unfolding repo_mono_def
    using assms(1) id' mono by (auto simp: get_run_put_run)
  from 1 2 show "repo_inv (put_run p r') \<and> repo_mono p (put_run p r')" ..
qed

lemma get_run_map:
  assumes "\<And>r. run_id (f r) = run_id r"
  shows "get_run (p\<lparr>repo_runs := map f (repo_runs p)\<rparr>) i = map_option f (get_run p i)"
proof -
  have "find (\<lambda>x. run_id x = i) (map f xs) = map_option f (find (\<lambda>x. run_id x = i) xs)" for xs
    by (induction xs) (auto simp: assms)
  then show ?thesis by (simp add: get_run_def)
qed

lemma map_runs_ok:
  assumes "\<And>r. run_id (f r) = run_id r"
    and "\<And>r. run_inv r \<Longrightarrow> run_mono r (f r)" and "\<And>r. run_inv r \<Longrightarrow> run_inv (f r)"
  shows "repo_ok p (p\<lparr>repo_runs := map f (repo_runs p)\<rparr>)"
  unfolding repo_ok_def
proof (intro impI conjI)
  assume inv: "repo_inv p"
  show "repo_inv (p\<lparr>repo_runs := map f (repo_runs p)\<rparr>)"
    using inv assms(1,3) by (simp add: repo_inv_def comp_def)
  show "repo_mono p (p\<lparr>repo_runs := map f (repo_runs p)\<rparr>)"
    unfolding repo_mono_def
  proof (intro allI impI)
    fix i r
    assume g: "get_run p i = Some r"
    then have "run_inv r" using get_run_id[OF g] inv by (simp add: repo_inv_def)
    with g show "\<exists>r'. get_run (p\<lparr>repo_runs := map f (repo_runs p)\<rparr>) i = Some r' \<and> run_mono r r'"
      by (simp add: get_run_map assms)
  qed
qed

lemma append_run_ok:
  assumes "run_inv r" and "run_id r \<notin> run_id ` set (repo_runs p)"
  shows "repo_ok p (p\<lparr>repo_runs := repo_runs p @ [r]\<rparr>)"
proof -
  have "find P (xs @ ys) = (case find P xs of None \<Rightarrow> find P ys | Some x \<Rightarrow> Some x)" for P xs and ys :: "run list"
    by (induction xs) auto
  then have "repo_mono p (p\<lparr>repo_runs := repo_runs p @ [r]\<rparr>)"
    by (simp add: repo_mono_def get_run_def)
  then show ?thesis using assms by (auto simp: repo_ok_def repo_inv_def)
qed

section \<open>One lemma per operation\<close>

lemma require_run_ok:
  assumes "\<And>r. get_run p i = Some r \<Longrightarrow> repo_ok p (fst (f r))"
  shows "repo_ok p (fst (require_run p i f))"
  using assms by (simp add: require_run_def split: option.splits)

lemma claim_ok [step_inv]: "repo_ok p (fst (claim_control_plane_run p w f s now))"
proof (cases "find (claimable now) (rev (sorted_runs p))")
  case (Some r)
  have mem: "r \<in> set (repo_runs p)"
    using find_Some_mem[OF Some] by (simp add: sorted_runs_def)
  show ?thesis
  proof (cases "repo_inv p")
    case True
    then have "get_run p (run_id r) = Some r" using mem by (simp add: repo_inv_def get_run_mem)
    from put_run_ok[OF this claim_run_locked_mono claim_run_locked_inv] Some show ?thesis
      by (simp add: claim_control_plane_run_def Let_def)
  qed (simp add: repo_ok_def)
qed (simp add: claim_control_plane_run_def)

lemma cancel_in_repo_ok:
  "get_run p i = Some r \<Longrightarrow> \<not> is_terminal (run_status r) \<Longrightarrow>
   repo_ok p (fst (cancel_in_repo p r u via now))"
  by (simp add: cancel_in_repo_def Let_def put_run_ok cancel_run_locked_mono cancel_run_locked_inv)

lemma cancel_ok [step_inv]: "repo_ok p (fst (cancel_run p i u via now))"
  unfolding cancel_run_def case_prod_unfold
  by (rule require_run_ok) (simp add: cancel_in_repo_ok)

lemma begin_ok [step_inv]: "repo_ok p (fst (begin_builtin_run h p i c f now))"
  unfolding begin_builtin_run_def
proof (rule require_run_ok)
  fix r assume g: "get_run p i = Some r"
  have fail: "repo_ok p (put_run p (fail_builtin r code now))" if "may_begin r c now = None" for code
    using put_run_ok[OF g fail_builtin_mono fail_builtin_inv] that
    by (simp add: may_begin_accepted is_terminal_def)
  have go: "repo_ok p (put_run p (set_running r c f now))" if "may_begin r c now = None"
    using put_run_ok[OF g] set_running_mono[OF that] set_running_inv[OF that]
    by (simp add: run_inv_def)
  show "repo_ok p (fst (if may_begin r c now \<noteq> None then (p, Inr None)
       else (case get_agent p (run_agent r) of
               None \<Rightarrow> (put_run p (fail_builtin r ''runtime.agent_not_found'' now), Inr None)
             | Some a \<Rightarrow>
                 if (case run_definition_hash r of
                       None \<Rightarrow> False | Some d \<Rightarrow> h a \<noteq> d)
                 then (put_run p (fail_builtin r ''evaluation.definition_changed'' now), Inr None)
                 else let r' = set_running r c f now
                      in (put_run p r', Inr (Some (r', a))))))"
    using fail go by (auto simp: Let_def split: option.splits)
qed

lemma may_begin_saved_state: "may_begin (r\<lparr>run_sdk_state := s\<rparr>) c now = may_begin r c now"
  by (simp add: may_begin_def begin_rejection_def lease_active_def cong: option.case_cong)

lemma resume_ok [step_inv]: "repo_ok p (fst (begin_builtin_resume p i c f now))"
  unfolding begin_builtin_resume_def
proof (rule require_run_ok)
  fix r assume g: "get_run p i = Some r"
  let ?r = "r\<lparr>run_sdk_state := None\<rparr>"
  have fail: "repo_ok p (put_run p (fail_builtin r code now))" if "may_begin r c now = None" for code
    using put_run_ok[OF g fail_builtin_mono fail_builtin_inv] that
    by (simp add: may_begin_accepted is_terminal_def)
  have go: "repo_ok p (put_run p (set_running ?r c f now))" if m: "may_begin r c now = None"
  proof (rule put_run_ok[OF g])
    have m': "may_begin ?r c now = None"
      using m by (simp add: may_begin_saved_state)
    assume inv: "run_inv r"
    have inv': "run_inv ?r"
      using inv m by (simp add: may_begin_accepted run_inv_def status_inv_def idle_def
          lease_fresh_def execution_generation_def approvals_have_steps_def
          pending_approval_count_def pending_agent_confirmations_def)
    have "run_mono r ?r" by (simp add: run_mono_def execution_generation_def)
    then show "run_mono r (set_running ?r c f now)"
      using run_mono_trans set_running_mono[OF m'] inv' by (simp add: run_inv_def)
    show "run_inv (set_running ?r c f now)" by (rule set_running_inv[OF m' inv'])
  qed
  show "repo_ok p (fst (if may_begin r c now \<noteq> None then (p, Inr None)
       else if pending_approval_count r > 0 \<or> pending_agent_confirmations r \<noteq> []
       then (p, Inr None)
       else (case (get_agent p (run_agent r), run_sdk_state r) of
               (Some a, Some state) \<Rightarrow>
                 let r' = set_running (r\<lparr>run_sdk_state := None\<rparr>) c f now
                 in (put_run p r', Inr (Some (r', a, state, resume_decisions r)))
             | _ \<Rightarrow>
                 (put_run p (fail_builtin r ''runtime.resume_state_missing'' now), Inr None))))"
    using fail go by (auto simp: Let_def split: option.splits)
qed

lemma bookkeeping_ok:
  "get_run p i = Some r \<Longrightarrow> bookkeeping r r' \<Longrightarrow> repo_ok p (put_run p r')"
  by (blast intro: put_run_ok bookkeeping_mono bookkeeping_inv)

lemma start_tool_ok [step_inv]:
  "repo_ok p (fst (start_builtin_tool_step ctx p i call cleanup f now))"
  unfolding start_builtin_tool_step_def
proof (rule require_run_ok)
  fix r assume "get_run p i = Some r"
  from bookkeeping_ok[OF this start_step_bookkeeping[of r call f now]]
  show "repo_ok p (fst (if \<not> cleanup \<and> run_closed_for_tools ctx r None
       then (p, Inl (RunNotActive i (run_status r)))
       else (case start_step r call f now of
               (r', step, invoked) \<Rightarrow> (put_run p r', Inr (step, invoked)))))"
    by (auto split: prod.splits)
qed

lemma finish_tool_ok [step_inv]:
  "repo_ok p (fst (finish_builtin_tool_step base ext p i step res f now))"
  unfolding finish_builtin_tool_step_def
  by (rule require_run_ok)
    (auto split: option.splits intro: bookkeeping_ok finish_step_bookkeeping)

lemma request_ok [step_inv]:
  assumes "current_execution_token ctx i \<noteq> None"
  shows "repo_ok p (fst (request_builtin_approvals ctx p i calls state confs now))"
  unfolding request_builtin_approvals_def
proof (rule require_run_ok)
  fix r assume g: "get_run p i = Some r"
  have "current_execution_token ctx (run_id r) \<noteq> None" using get_run_id[OF g] assms by simp
  from put_run_ok[OF g request_approvals_mono request_approvals_inv[OF _ this]]
  show "repo_ok p (fst (let r' = request_approvals ctx r calls state confs now
      in (put_run p r', Inr r')))" by (simp add: Let_def)
qed

lemma complete_ok [step_inv]:
  assumes "current_execution_token ctx i \<noteq> None" and "\<forall>c\<in>set confs. cf_source c \<noteq> SrcAgent"
  shows "repo_ok p (fst (complete_builtin_run ctx p i content confs f now))"
  unfolding complete_builtin_run_def
proof (rule require_run_ok)
  fix r assume g: "get_run p i = Some r"
  have "current_execution_token ctx (run_id r) \<noteq> None" using get_run_id[OF g] assms by simp
  from put_run_ok[OF g complete_run_mono complete_run_inv[OF _ this assms(2)]]
  show "repo_ok p (fst (let r' = complete_run ctx r content confs f now in (put_run p r', Inr r')))"
    by (simp add: Let_def)
qed

lemma fail_ok [step_inv]:
  assumes "current_execution_token ctx i \<noteq> None"
  shows "repo_ok p (fst (fail_builtin_run ctx p i code now))"
  unfolding fail_builtin_run_def
proof (rule require_run_ok)
  fix r assume g: "get_run p i = Some r"
  have "current_execution_token ctx (run_id r) \<noteq> None" using get_run_id[OF g] assms by simp
  from put_run_ok[OF g fail_run_mono fail_run_inv[OF _ this]]
  show "repo_ok p (fst (let r' = fail_run ctx r code now in (put_run p r', Inr r')))"
    by (simp add: Let_def)
qed

lemma unexecuted_ok [step_inv]: "repo_ok p (fst (record_unexecuted_steps p i code calls now))"
  unfolding record_unexecuted_steps_def
  by (rule require_run_ok) (auto intro: bookkeeping_ok record_unexecuted_bookkeeping)

lemma usage_ok [step_inv]: "repo_ok p (record_builtin_usage ctx p i u)"
  by (auto simp: record_builtin_usage_def split: option.splits
      intro: bookkeeping_ok record_usage_bookkeeping)

lemma run_budget_ok [step_inv]: "repo_ok p (record_builtin_budget ctx p i s)"
  by (auto simp: record_builtin_budget_def split: option.splits
      intro: bookkeeping_ok record_run_budget_bookkeeping)

lemma interrupted_ok [step_inv]: "repo_ok p (fst (fail_interrupted_runs p before now))"
  unfolding fail_interrupted_runs_def fst_conv
  by (rule map_runs_ok)
    (auto simp: fail_interrupted_mono fail_interrupted_inv, simp add: fail_interrupted_def)

lemma find_approval_Some:
  "find_approval rs i = Some (r, a) \<Longrightarrow>
   r \<in> set rs \<and> find (\<lambda>a. appr_id a = i) (run_approvals r) = Some a"
  by (induction rs) (auto split: option.splits)

lemma decide_approval_ok [step_inv]: "repo_ok p (fst (decide_approval h p i ok always u now))"
proof (cases "repo_inv p \<and> find_approval (repo_runs p) i \<noteq> None")
  case True
  then obtain r a where fa: "find_approval (repo_runs p) i = Some (r, a)" by auto
  then have r: "r \<in> set (repo_runs p)" and a: "find (\<lambda>a. appr_id a = i) (run_approvals r) = Some a"
    using find_approval_Some by auto
  have g: "get_run p (run_id r) = Some r" using True r by (simp add: repo_inv_def get_run_mem)
  have 1: "repo_ok p (put_run p (void_run_approval r a u now))" if "is_terminal (run_status r)"
    using put_run_ok[OF g void_run_approval_mono[OF a] void_run_approval_inv[OF _ a that]] .
  have 2: "repo_ok p (put_run p (decide_run_approval r a ok always u now))"
    if "appr_status a = ApprovalPending" "\<not> is_terminal (run_status r)"
    using put_run_ok[OF g decide_run_approval_mono[OF a that] decide_run_approval_inv[OF _ a that(1)]] .
  show ?thesis
    using 1 2 by (simp add: decide_approval_def fa Let_def split: option.splits)
next
  case False
  then show ?thesis
    by (cases "find_approval (repo_runs p) i") (auto simp: repo_ok_def decide_approval_def)
qed

lemma create_ok [step_inv]:
  assumes "fresh \<notin> run_id ` set (repo_runs p)"
  shows "repo_ok p (fst (create_builtin_run p req user v extra all_users fresh ft now))"
proof -
  have nid: "run_id (new_run req extra v user owner fresh t now) = fresh" for v owner t
    by (simp add: new_run_def)
  have plain: "repo_ok p (p\<lparr>repo_runs := repo_runs p @ [new_run req extra v user owner fresh t now]\<rparr>)"
    for v owner t
    by (rule append_run_ok) (use assms new_run_inv nid in auto)
  have cont: "repo_ok p (p\<lparr>repo_runs := map (expire_confirmations now t) (repo_runs p)
      @ [new_run req extra v user owner fresh t now]\<rparr>)" for v owner t
  proof -
    let ?q = "p\<lparr>repo_runs := map (expire_confirmations now t) (repo_runs p)\<rparr>"
    have id: "run_id (expire_confirmations now t r) = run_id r" for r
      by (simp add: expire_confirmations_def)
    have 1: "repo_ok p ?q"
      by (rule map_runs_ok)
        (use id closes_confirmations_mono closes_confirmations_inv expire_confirmations_closes
         in blast)+
    have "repo_ok ?q (?q\<lparr>repo_runs := repo_runs ?q @ [new_run req extra v user owner fresh t now]\<rparr>)"
      by (rule append_run_ok) (use assms new_run_inv nid id in \<open>auto simp: image_image\<close>)
    from repo_ok_trans[OF 1 this] show ?thesis by simp
  qed
  show ?thesis
    by (auto simp: create_builtin_run_def Let_def plain cont split: option.splits)
qed

lemma withdraw_chain_marked:
  "repo_ok p (p\<lparr>repo_runs := map (\<lambda>x. if run_id x \<in> C then withdraw_mark now x else x) (repo_runs p)\<rparr>)"
proof (rule map_runs_ok)
  fix r
  show "run_id (if run_id r \<in> C then withdraw_mark now r else r) = run_id r"
    by (simp add: withdraw_mark_def)
  show "run_mono r (if run_id r \<in> C then withdraw_mark now r else r)"
    by (simp add: closes_confirmations_mono[OF withdraw_mark_closes])
  show "run_inv r \<Longrightarrow> run_inv (if run_id r \<in> C then withdraw_mark now r else r)"
    by (simp add: closes_confirmations_inv[OF withdraw_mark_closes])
qed

lemma append_event_ok: "get_run p i = Some r \<Longrightarrow> repo_ok p (put_run p (append_event r e))"
  by (erule bookkeeping_ok) simp

lemma get_run_cancelled:
  assumes "get_run p i = Some r"
  shows "get_run (fst (cancel_in_repo p r u via now)) i = Some (snd (cancel_in_repo p r u via now))"
proof -
  have "run_id (cancel_run_locked r u via now) = i"
    using get_run_id[OF assms] by (simp add: cancel_run_locked_def Let_def)
  then show ?thesis
    using assms by (simp add: cancel_in_repo_def Let_def get_run_put_run)
qed

lemma withdraw_ok:
  assumes g: "get_run p i = Some r"
  shows "repo_ok p (fst (withdraw_confirmation p r c u now))"
proof -
  let ?r1 = "set_confirmation r (cf_id c) ConfCancelled None now"
  let ?p1 = "put_run p ?r1"
  let ?C = "set (withdraw_chain p r)"
  let ?f = "\<lambda>x. if run_id x \<in> ?C then withdraw_mark now x else x"
  let ?p2 = "?p1\<lparr>repo_runs := map ?f (repo_runs ?p1)\<rparr>"
  have i: "run_id r = i" using get_run_id[OF g] by simp
  have c1: "closes_confirmations r ?r1" by (rule set_confirmation_closes) simp
  have 1: "repo_ok p ?p1"
    by (rule put_run_ok[OF g])
      (blast intro: closes_confirmations_mono closes_confirmations_inv c1)+
  have 2: "repo_ok ?p1 ?p2" by (rule withdraw_chain_marked)
  have "run_id ?r1 = i" using i by (simp add: set_confirmation_def)
  then have "get_run ?p1 i = Some ?r1" using g by (simp add: get_run_put_run)
  then have g2: "get_run ?p2 i = Some (?f ?r1)"
    by (subst get_run_map) (simp_all add: withdraw_mark_def)
  show ?thesis
  proof (cases "is_terminal (run_status (?f ?r1))")
    case True
    have "repo_ok ?p2 (put_run ?p2 (append_event (?f ?r1) e))" for e
      by (rule append_event_ok[OF g2])
    from repo_ok_trans[OF repo_ok_trans[OF 1 2] this] True g2 i show ?thesis
      by (simp add: withdraw_confirmation_def Let_def)
  next
    case False
    let ?c = "cancel_in_repo ?p2 (?f ?r1) u [] now"
    have 3: "repo_ok ?p2 (fst ?c)" by (rule cancel_in_repo_ok[OF g2 False])
    have "repo_ok (fst ?c) (put_run (fst ?c) (append_event (snd ?c) e))" for e
      by (rule append_event_ok[OF get_run_cancelled[OF g2]])
    from repo_ok_trans[OF repo_ok_trans[OF repo_ok_trans[OF 1 2] 3] this] False g2 i show ?thesis
      by (simp add: withdraw_confirmation_def Let_def case_prod_unfold)
  qed
qed

lemma mark_answered_closes: "closes_confirmations r (mark_answered r c act as u now)"
  unfolding mark_answered_def
  by (rule closes_confirmations_trans[OF set_confirmation_closes append_event_closes]) simp

lemma answer_confirmation_ok:
  assumes "fresh \<notin> run_id ` set (repo_runs p)" and g: "get_run p i = Some r"
  shows "repo_ok p (fst (answer_confirmation p r c act as u actor goal fresh ft now))"
proof -
  let ?r1 = "mark_answered r c act as u now"
  have 1: "repo_ok p (put_run p ?r1)"
    by (rule put_run_ok[OF g])
      (blast intro: closes_confirmations_mono closes_confirmations_inv mark_answered_closes)+
  have 2: "repo_ok p (put_run p (agent_confirmation_answered ?r1 now))"
    by (rule put_run_ok[OF g])
      (rule run_mono_trans[OF closes_confirmations_mono[OF mark_answered_closes]
          agent_confirmation_answered_mono],
       erule agent_confirmation_answered_inv[OF closes_confirmations_inv[OF mark_answered_closes]])
  have "run_id ` set (repo_runs (put_run p ?r1)) = run_id ` set (repo_runs p)"
    by (metis list.set_map put_run_ids)
  then have 3: "repo_ok p (fst (create_builtin_run (put_run p ?r1) req user v ex all_users fresh ft now))"
    for req user v ex all_users
    by (intro repo_ok_trans[OF 1 create_ok]) (simp only: assms(1) not_False_eq_True)
  show ?thesis
    unfolding answer_confirmation_def Let_def
    by (cases "cf_source c = SrcAgent") (simp_all only: 2 3 if_True if_False fst_conv simp_thms)
qed

lemma decide_confirmation_ok [step_inv]:
  assumes "fresh \<notin> run_id ` set (repo_runs p)"
  shows "repo_ok p (fst (decide_confirmation p i cid act as u actor goal fresh ft now))"
  unfolding decide_confirmation_def case_prod_unfold
  apply (rule require_run_ok)
  subgoal premises g for r
    by (simp add: answer_confirmation_ok[OF assms g] withdraw_ok[OF g]
        split: option.split sum.split)
  done

lemma adopt_ok [step_inv]: "repo_ok p (adopt_cancel p stored now)"
proof (cases "get_run p (run_id stored)")
  case (Some r)
  from put_run_ok[OF Some adopt_stored_cancel_mono adopt_stored_cancel_inv]
  show ?thesis by (simp add: adopt_cancel_def Some case_prod_unfold)
qed (simp add: adopt_cancel_def)

end
