(* ===== verification/RunSystem.thy ===== *)
theory RunSystem
  imports RunLifecycle
begin

text \<open>The step relation of the agent runtime and the properties of its reachable states: which
  pending work a status allows, what is final, how a claim is used, and what a cancel or an
  interrupted process leaves behind.\<close>

section \<open>Steps\<close>

text \<open>A worker's write-back comes from inside an execution of the run, and the confirmations of a
  finished answer come from tools (\<open>builtin_runtime.py\<close>). Fresh run ids are unused.\<close>

inductive repo_step :: "repo \<Rightarrow> repo \<Rightarrow> bool" where
  Claim: "repo_step p (fst (claim_control_plane_run p w f s now))"
| Begin: "repo_step p (fst (begin_builtin_run h p i c f now))"
| Resume: "repo_step p (fst (begin_builtin_resume p i c f now))"
| Cancel: "repo_step p (fst (cancel_run p i u via now))"
| DecideApproval: "repo_step p (fst (decide_approval hook p i ok always u now))"
| DecideConfirmation:
    "f \<notin> run_id ` set (repo_runs p) \<Longrightarrow>
     repo_step p (fst (decide_confirmation p i cid act as u actor goal f ft now))"
| Create:
    "f \<notin> run_id ` set (repo_runs p) \<Longrightarrow>
     repo_step p (fst (create_builtin_run p req u v extra all_users f ft now))"
| StartTool: "repo_step p (fst (start_builtin_tool_step ctx p i call cleanup f now))"
| FinishTool: "repo_step p (fst (finish_builtin_tool_step base ext p i s res f now))"
| RequestApprovals:
    "current_execution_token ctx i \<noteq> None \<Longrightarrow>
     repo_step p (fst (request_builtin_approvals ctx p i calls state confs now))"
| Complete:
    "current_execution_token ctx i \<noteq> None \<Longrightarrow> \<forall>c\<in>set confs. cf_source c \<noteq> SrcAgent \<Longrightarrow>
     repo_step p (fst (complete_builtin_run ctx p i content confs f now))"
| Fail:
    "current_execution_token ctx i \<noteq> None \<Longrightarrow>
     repo_step p (fst (fail_builtin_run ctx p i code now))"
| Unexecuted: "repo_step p (fst (record_unexecuted_steps p i code skipped now))"
| Usage: "repo_step p (record_builtin_usage ctx p i used)"
| Budget: "repo_step p (record_builtin_budget ctx p i snap)"
| Interrupted: "repo_step p (fst (fail_interrupted_runs p before now))"
| AdoptCancel: "repo_step p (adopt_cancel p stored now)"

inductive_cases repo_stepE: "repo_step p p'"

lemma repo_step_ok: "repo_step p p' \<Longrightarrow> repo_ok p p'"
  by (induction rule: repo_step.induct) (auto intro: step_inv)

definition no_runs :: "repo \<Rightarrow> bool" where
  "no_runs p \<longleftrightarrow> repo_runs p = []"

lemma no_runs_inv: "no_runs p \<Longrightarrow> repo_inv p"
  by (simp add: no_runs_def repo_inv_def)

lemma repo_steps_ok: "repo_step\<^sup>*\<^sup>* p p' \<Longrightarrow> repo_ok p p'"
  by (induction rule: rtranclp_induct) (auto intro: repo_ok_trans repo_step_ok)

lemma repo_steps_mono:
  assumes "repo_step\<^sup>*\<^sup>* p p'" and "repo_inv p" and "get_run p i = Some r"
  shows "\<exists>r'. get_run p' i = Some r' \<and> run_mono r r'"
  using repo_steps_ok[OF assms(1)] assms(2,3) by (simp add: repo_ok_def repo_mono_def)

lemma reachable_inv: "no_runs p0 \<Longrightarrow> repo_step\<^sup>*\<^sup>* p0 p \<Longrightarrow> repo_inv p"
  using repo_steps_ok no_runs_inv by (auto simp: repo_ok_def)

section \<open>The fenced start\<close>

definition run_generation :: "ident \<Rightarrow> repo \<Rightarrow> int" where
  "run_generation i p = (case get_run p i of None \<Rightarrow> 0 | Some r \<Rightarrow> execution_generation r)"

text \<open>A begin or a resume with claim \<open>c\<close> that returned the run.\<close>

definition begins :: "ident \<Rightarrow> repo \<Rightarrow> claim \<Rightarrow> repo \<Rightarrow> bool" where
  "begins i p c p' \<longleftrightarrow>
     (\<exists>h f now x. begin_builtin_run h p i (Some c) f now = (p', Inr (Some x)))
     \<or> (\<exists>f now x. begin_builtin_resume p i (Some c) f now = (p', Inr (Some x)))"

lemma begin_accepted:
  assumes "begin_builtin_run h p i c f now = (p', Inr (Some (r', a)))"
  obtains r where "get_run p i = Some r" and "may_begin r c now = None"
    and "r' = set_running r c f now" and "p' = put_run p r'" and "get_agent p (run_agent r) = Some a"
  using assms by (auto simp: begin_builtin_run_def require_run_def Let_def
      split: option.splits if_splits)

lemma resume_accepted:
  assumes "begin_builtin_resume p i c f now = (p', Inr (Some (r', a, st, ds)))"
  obtains r where "get_run p i = Some r" and "may_begin r c now = None"
    and "r' = set_running (r\<lparr>run_sdk_state := None\<rparr>) c f now" and "p' = put_run p r'"
    and "run_sdk_state r = Some st" and "ds = resume_decisions r" and "idle r"
  using assms by (auto simp: begin_builtin_resume_def require_run_def Let_def idle_def
      split: option.splits if_splits)

lemma begins_cases:
  assumes "begins i p c p'"
  obtains r s f now where "get_run p i = Some r" and "may_begin r (Some c) now = None"
    and "p' = put_run p (set_running (r\<lparr>run_sdk_state := s\<rparr>) (Some c) f now)"
proof -
  have same: "r = r\<lparr>run_sdk_state := run_sdk_state r\<rparr>" for r by simp
  from assms consider
      h f now r' a where "begin_builtin_run h p i (Some c) f now = (p', Inr (Some (r', a)))"
    | f now r' a st ds where "begin_builtin_resume p i (Some c) f now = (p', Inr (Some (r', a, st, ds)))"
    unfolding begins_def by auto
  then show ?thesis
    by cases (metis that same begin_accepted, metis that resume_accepted)
qed

lemma begins_generation:
  assumes "repo_inv p" and "begins i p c p'"
  shows "run_generation i p < claim_generation c" and "run_generation i p' = claim_generation c"
proof -
  obtain r s f now where g: "get_run p i = Some r" and m: "may_begin r (Some c) now = None"
    and p': "p' = put_run p (set_running (r\<lparr>run_sdk_state := s\<rparr>) (Some c) f now)"
    using begins_cases[OF assms(2)] .
  have fresh: "lease_fresh r"
    using assms(1) get_run_id[OF g] by (simp add: repo_inv_def run_inv_def)
  from m have "begin_rejection r (Some c) now = None" by (simp add: may_begin_accepted)
  from accepted_claim_generation(2)[OF this fresh] g
  show "run_generation i p < claim_generation c" by (simp add: run_generation_def)
  let ?r = "set_running (r\<lparr>run_sdk_state := s\<rparr>) (Some c) f now"
  have "run_id ?r = i" using get_run_id[OF g] by (simp add: set_running_sel)
  with g have "get_run p' i = Some ?r" unfolding p' by (simp add: get_run_put_run)
  then show "run_generation i p' = claim_generation c"
    by (simp add: run_generation_def execution_generation_def set_running_sel start_execution_def)
qed

interpretation fence: fenced_start repo_step repo_inv "run_generation i" "begins i" claim_generation
  for i :: ident
proof unfold_locales
  fix p p' c
  show "repo_inv p \<Longrightarrow> repo_step p p' \<Longrightarrow> repo_inv p'"
    using repo_step_ok by (auto simp: repo_ok_def)
  show "run_generation i p \<le> run_generation i p'" if "repo_inv p" "repo_step p p'"
  proof (cases "get_run p i")
    case (Some r)
    with repo_step_ok[OF that(2)] that(1) obtain r' where "get_run p' i = Some r'" "run_mono r r'"
      unfolding repo_ok_def repo_mono_def by blast
    with Some show ?thesis by (simp add: run_generation_def run_mono_def)
  next
    case None
    have "repo_inv p'" using repo_step_ok[OF that(2)] that(1) by (simp add: repo_ok_def)
    then have "0 \<le> execution_generation r" if "get_run p' i = Some r" for r
      using get_run_id[OF that] by (simp add: repo_inv_def run_inv_def lease_fresh_def)
    with None show ?thesis by (simp add: run_generation_def split: option.splits)
  qed
  show "begins i p c p' \<Longrightarrow> repo_step p p'"
    unfolding begins_def by (metis fst_conv Begin Resume)
  show "repo_inv p \<Longrightarrow> begins i p c p' \<Longrightarrow> run_generation i p < claim_generation c"
    by (rule begins_generation)
  show "repo_inv p \<Longrightarrow> begins i p c p' \<Longrightarrow> run_generation i p' = claim_generation c"
    by (rule begins_generation)
qed

end
