(* ===== verification/RunProperties.thy ===== *)
theory RunProperties
  imports RunSystem
begin

text \<open>What the lifecycle of a run promises: the properties of every reachable repository and of the
  operations on it, each with an application to a small concrete repository (one agent, one run
  that is created, claimed, begun, interrupted for an approval, decided and resumed).\<close>

section \<open>A small repository for the witnesses\<close>

definition demo_repo :: repo where
  "demo_repo = \<lparr>repo_runs = [],
     repo_agents = [\<lparr>ag_id = ''a'', ag_enabled = True, ag_published_version = Some 1,
                     ag_versions = [1], ag_draft = []\<rparr>], repo_aborts = []\<rparr>"

definition demo_request :: create_request where
  "demo_request = \<lparr>cr_goal = ''q'', cr_agent = ''a'', cr_thread = None, cr_draft = False,
     cr_metadata = []\<rparr>"

definition demo_extra :: create_extra where
  "demo_extra = \<lparr>cx_response = None, cx_round = None, cx_origin = [], cx_definition_hash = None\<rparr>"

definition demo_created :: repo where
  "demo_created =
     fst (create_builtin_run demo_repo demo_request (Some ''u'') None demo_extra False ''r'' ''t'' 0)"

definition demo_claimed :: repo where
  "demo_claimed = fst (claim_control_plane_run demo_created ''w'' ''k'' 30 0)"

definition demo_claim :: claim where
  "demo_claim = \<lparr>claim_run = ''r'', claim_worker = ''w'', claim_token = ''k'', claim_generation = 1\<rparr>"

definition demo_running :: repo where
  "demo_running = fst (begin_builtin_run (\<lambda>_. []) demo_claimed ''r'' (Some demo_claim) ''x'' 1)"

definition demo_call :: tool_call where
  "demo_call = \<lparr>call_name = ''send'', call_arguments = ''{}'', call_trace_id = Some ''c1'',
     call_data_scope = None, call_operation_key = Some ''op_1''\<rparr>"

definition demo_context :: exec_context where
  "demo_context = Some (''r'', ''k'')"

definition demo_waiting :: repo where
  "demo_waiting =
     fst (request_builtin_approvals demo_context demo_running ''r'' [(demo_call, ''s'', ''ap'')] ''st'' [] 2)"

definition demo_cancelled :: repo where
  "demo_cancelled = fst (cancel_run demo_waiting ''r'' None [] 3)"

lemmas demo_defs = demo_repo_def demo_request_def demo_extra_def demo_created_def
  demo_claimed_def demo_claim_def demo_running_def demo_call_def demo_context_def
  demo_waiting_def demo_cancelled_def

lemma demo_created_run:
  "demo_created = demo_repo\<lparr>repo_runs := [new_run demo_request demo_extra (Version 1) (Some ''u'')
     (Some ''u'') ''r'' ''t'' 0]\<rparr>"
  by code_simp

lemma demo_steps_created: "repo_step\<^sup>*\<^sup>* demo_repo demo_created"
  unfolding demo_created_def
  by (rule r_into_rtranclp, rule repo_step.Create) (simp add: demo_repo_def)

lemma demo_steps_claimed: "repo_step\<^sup>*\<^sup>* demo_repo demo_claimed"
  unfolding demo_claimed_def
  by (rule rtranclp.rtrancl_into_rtrancl[OF demo_steps_created], rule repo_step.Claim)

lemma demo_steps_running: "repo_step\<^sup>*\<^sup>* demo_repo demo_running"
  unfolding demo_running_def
  by (rule rtranclp.rtrancl_into_rtrancl[OF demo_steps_claimed], rule repo_step.Begin)

lemma demo_steps_waiting: "repo_step\<^sup>*\<^sup>* demo_repo demo_waiting"
  unfolding demo_waiting_def
  by (rule rtranclp.rtrancl_into_rtrancl[OF demo_steps_running], rule repo_step.RequestApprovals)
    (simp add: demo_context_def current_execution_token_def)

lemma demo_steps_cancelled: "repo_step\<^sup>*\<^sup>* demo_waiting demo_cancelled"
  unfolding demo_cancelled_def by (rule r_into_rtranclp, rule repo_step.Cancel)

lemma demo_no_runs [simp]: "no_runs demo_repo"
  by (simp add: no_runs_def demo_repo_def)

definition demo_started :: run where
  "demo_started = the (get_run demo_running ''r'')"

lemma demo_begins: "begins ''r'' demo_claimed demo_claim demo_running"
proof -
  have "snd (begin_builtin_run (\<lambda>_. []) demo_claimed ''r'' (Some demo_claim) ''x'' 1) =
      Inr (Some (demo_started, hd (repo_agents demo_repo)))"
    by code_simp
  then show ?thesis
    unfolding begins_def demo_running_def by (metis prod.collapse)
qed

section \<open>Reachable states\<close>

text \<open>C2: in every state the runtime can reach, a run that is queued, running or ended has no
  pending approval and no pending confirmation of the agent; a run that waits has the saved
  state its resume needs, and waits for approvals only while one is pending.\<close>

theorem reachable_status:
  assumes "no_runs p0" and "repo_step\<^sup>*\<^sup>* p0 p" and "r \<in> set (repo_runs p)"
  shows "(run_status r \<notin> {RunWaitingApproval, RunWaitingConfirmation} \<longrightarrow>
            pending_approval_count r = 0 \<and> pending_agent_confirmations r = [])
       \<and> (run_status r \<in> {RunWaitingApproval, RunWaitingConfirmation} \<longrightarrow> run_sdk_state r \<noteq> None)
       \<and> (run_status r = RunWaitingApproval \<longleftrightarrow> 0 < pending_approval_count r)"
  using reachable_inv[OF assms(1,2)] assms(3)
  by (auto simp: repo_inv_def run_inv_def status_inv_def idle_def)

lemma demo_started_mem: "demo_started \<in> set (repo_runs demo_running)"
  by code_simp

theorem reachable_status_witness:
  "run_status demo_started = RunRunning \<and> pending_approval_count demo_started = 0"
proof
  show "run_status demo_started = RunRunning" by code_simp
  then show "pending_approval_count demo_started = 0"
    using reachable_status[OF demo_no_runs demo_steps_running demo_started_mem] by simp
qed

text \<open>C3: a run that has completed, failed or been cancelled keeps that status for ever, whatever
  operations follow.\<close>

theorem terminal_is_final:
  assumes "no_runs p0" and "repo_step\<^sup>*\<^sup>* p0 p" and "repo_step\<^sup>*\<^sup>* p p'"
    and "get_run p i = Some r" and "is_terminal (run_status r)"
  shows "map_option run_status (get_run p' i) = Some (run_status r)"
  using repo_steps_mono[OF assms(3) reachable_inv[OF assms(1,2)] assms(4)] assms(5)
  by (auto simp: run_mono_def)

text \<open>The approval is granted, and a second worker claims and resumes the run.\<close>

definition demo_decided :: repo where
  "demo_decided = fst (decide_approval (\<lambda>_. False) demo_waiting ''ap'' True False (Some ''u'') 5)"

definition demo_reclaimed :: repo where
  "demo_reclaimed = fst (claim_control_plane_run demo_decided ''w2'' ''k2'' 30 6)"

definition demo_claim2 :: claim where
  "demo_claim2 = \<lparr>claim_run = ''r'', claim_worker = ''w2'', claim_token = ''k2'', claim_generation = 2\<rparr>"

definition demo_resumed :: repo where
  "demo_resumed = fst (begin_builtin_resume demo_reclaimed ''r'' (Some demo_claim2) ''x2'' 7)"

lemma demo_running_waiting: "repo_step\<^sup>*\<^sup>* demo_running demo_waiting"
  unfolding demo_waiting_def by (rule r_into_rtranclp, rule repo_step.RequestApprovals)
    (simp add: demo_context_def current_execution_token_def)

lemma demo_running_reclaimed: "repo_step\<^sup>*\<^sup>* demo_running demo_reclaimed"
  unfolding demo_reclaimed_def demo_decided_def
  by (rule rtranclp.rtrancl_into_rtrancl, rule rtranclp.rtrancl_into_rtrancl,
      rule demo_running_waiting, rule repo_step.DecideApproval, rule repo_step.Claim)

lemma demo_begins_again: "begins ''r'' demo_reclaimed demo_claim2 demo_resumed"
proof -
  have "snd (begin_builtin_resume demo_reclaimed ''r'' (Some demo_claim2) ''x2'' 7) =
      Inr (Some (the (get_run demo_resumed ''r''), hd (repo_agents demo_repo), ''st'', [(''c1'', True)]))"
    by code_simp
  then show ?thesis
    unfolding begins_def demo_resumed_def by (metis prod.collapse)
qed

definition demo_ended :: run where
  "demo_ended = the (get_run demo_cancelled ''r'')"

theorem terminal_is_final_witness:
  "map_option run_status (get_run (fst (complete_builtin_run demo_context demo_cancelled ''r'' [] [] ''y'' 4)) ''r'')
     = Some RunCancelled"
proof -
  have 1: "repo_step\<^sup>*\<^sup>* demo_cancelled
      (fst (complete_builtin_run demo_context demo_cancelled ''r'' [] [] ''y'' 4))"
    by (rule r_into_rtranclp, rule repo_step.Complete)
      (simp_all add: demo_context_def current_execution_token_def)
  have 2: "get_run demo_cancelled ''r'' = Some demo_ended" by code_simp
  have 3: "run_status demo_ended = RunCancelled" by code_simp
  show ?thesis
    using terminal_is_final[OF demo_no_runs rtranclp_trans[OF demo_steps_waiting demo_steps_cancelled] 1 2]
      3 by (simp add: is_terminal_def)
qed

text \<open>C1: a dispatcher's claim starts a run at most once. After a begin or a resume accepted the
  claim, no later state accepts the same claim again, for a begin or a resume.\<close>

theorem claim_used_once:
  assumes "no_runs p0" and "repo_step\<^sup>*\<^sup>* p0 p" and "begins i p c p1" and "repo_step\<^sup>*\<^sup>* p1 p2"
  shows "\<not> begins i p2 c p3"
  by (rule fence.at_most_once[OF reachable_inv[OF assms(1,2)] assms(3,4)])

theorem claim_used_once_witness:
  "begins ''r'' demo_claimed demo_claim demo_running \<and> (\<forall>p3. \<not> begins ''r'' demo_waiting demo_claim p3)"
proof -
  from claim_used_once[OF demo_no_runs demo_steps_claimed demo_begins demo_running_waiting] demo_begins
  show ?thesis by simp
qed

text \<open>of two accepted starts of a run by claims, the later has the greater generation, so a
  worker whose claim was superseded can be told from the current one.\<close>

theorem later_start_is_newer:
  assumes "no_runs p0" and "repo_step\<^sup>*\<^sup>* p0 p" and "begins i p c p1" and "repo_step\<^sup>*\<^sup>* p1 p2"
    and "begins i p2 c' p3"
  shows "claim_generation c < claim_generation c'"
  by (rule fence.starts_increase[OF reachable_inv[OF assms(1,2)] assms(3,4,5)])

theorem later_start_is_newer_witness:
  "claim_generation demo_claim < claim_generation demo_claim2"
  by (rule later_start_is_newer[OF demo_no_runs demo_steps_claimed demo_begins
        demo_running_reclaimed demo_begins_again])

text \<open>the history of a run only grows: its events and its steps are never dropped or
  reordered, and an approval that was decided keeps its decision, whatever operations follow.\<close>

theorem history_only_grows:
  assumes "no_runs p0" and "repo_step\<^sup>*\<^sup>* p0 p" and "repo_step\<^sup>*\<^sup>* p p'" and "get_run p i = Some r"
  shows "\<exists>r'. get_run p' i = Some r' \<and> prefix (run_events r) (run_events r')
      \<and> prefix (map step_id (run_steps r)) (map step_id (run_steps r'))
      \<and> (\<forall>a\<in>set (run_approvals r). appr_status a \<noteq> ApprovalPending \<longrightarrow> a \<in> set (run_approvals r'))"
  using repo_steps_mono[OF assms(3) reachable_inv[OF assms(1,2)] assms(4)]
  by (auto simp: run_mono_def intro: decided_keptD)

theorem history_only_grows_witness:
  "\<exists>r'. get_run demo_cancelled ''r'' = Some r' \<and> prefix (run_events demo_started) (run_events r')"
proof -
  have "get_run demo_running ''r'' = Some demo_started" by code_simp
  from history_only_grows[OF demo_no_runs demo_steps_running
      rtranclp_trans[OF demo_running_waiting demo_steps_cancelled] this]
  show ?thesis by blast
qed


section \<open>Cancel\<close>

lemma run_pending_calls_event: "run_pending_calls (append_event r e) = run_pending_calls r"
  by (simp add: append_event_def)

text \<open>a cancel of a run that has not ended leaves nothing open: no approval or confirmation is
  pending, no step is pending, running or waiting, nothing is queued for the model, the event
  names exactly the steps that were in flight, and the process is told to abort their calls.\<close>

theorem cancel_closes_everything:
  assumes "get_run p i = Some r" and "\<not> is_terminal (run_status r)"
  shows "\<exists>p' r' ids by. cancel_run p i u via now = (p', Inr r') \<and> get_run p' i = Some r'
      \<and> run_status r' = RunCancelled \<and> pending_approval_count r' = 0
      \<and> (\<forall>c\<in>set (run_confirmations r'). cf_status c \<noteq> ConfPending)
      \<and> (\<forall>s\<in>set (run_steps r'). step_status s \<in> {StepCompleted, StepFailed, StepCancelled})
      \<and> run_pending_calls r' = [] \<and> i \<in> set (repo_aborts p')
      \<and> last (run_events r') =
          EvCancelled ids (map step_id (filter (\<lambda>s. step_status s = StepRunning) (run_steps r)))
            by (filter (\<lambda>kv. fst kv \<in> set CANCEL_VIA_KEYS) via)"
proof -
  let ?c = "cancel_run_locked r u via now"
  have i: "run_id r = i" using get_run_id[OF assms(1)] by simp
  then have "run_id ?c = i" by (simp add: cancel_run_locked_def Let_def)
  then have g: "get_run (put_run p ?c) i = Some ?c" using assms(1) by (simp add: get_run_put_run)
  have step: "step_status (cancel_step now s) \<in> {StepCompleted, StepFailed, StepCancelled}" for s
    by (cases "step_status s") (simp_all add: cancel_step_def)
  have "cancel_run p i u via now = (fst (cancel_in_repo p r u via now), Inr ?c)"
    using assms by (simp add: cancel_run_def require_run_def cancel_in_repo_def Let_def)
  then show ?thesis
    using g i step
    by (auto simp: cancel_in_repo_def Let_def cancel_run_locked_def run_pending_calls_event pending_approval_count_def
        filter_empty_conv)
qed

definition demo_pending :: run where
  "demo_pending = the (get_run demo_waiting ''r'')"

theorem cancel_closes_everything_witness:
  "\<exists>p' r'. cancel_run demo_waiting ''r'' None [] 3 = (p', Inr r') \<and> pending_approval_count r' = 0"
proof -
  have g: "get_run demo_waiting ''r'' = Some demo_pending" by code_simp
  have n: "\<not> is_terminal (run_status demo_pending)" by code_simp
  show ?thesis using cancel_closes_everything[OF g n, of None "[]" 3] by blast
qed

text \<open>no tool step starts in a run that has ended, nor from an execution that another one has
  replaced. The call is refused with the run's status and the repository is unchanged.\<close>

theorem closed_run_starts_no_tool:
  assumes "get_run p i = Some r"
    and "is_terminal (run_status r)
         \<or> (\<exists>t. current_execution_token ctx i = Some t \<and> execution_token r \<noteq> Some t)"
  shows "start_builtin_tool_step ctx p i call False fresh now = (p, Inl (RunNotActive i (run_status r)))"
proof -
  have "run_id r = i" using get_run_id[OF assms(1)] by simp
  then have "run_closed_for_tools ctx r None"
    using assms(2) by (auto simp: run_closed_for_tools_def stale_execution_def)
  then show ?thesis
    using assms(1) by (simp add: start_builtin_tool_step_def require_run_def)
qed

theorem closed_run_starts_no_tool_witness:
  "start_builtin_tool_step demo_context demo_cancelled ''r'' demo_call False ''s2'' 4 =
     (demo_cancelled, Inl (RunNotActive ''r'' RunCancelled))"
proof -
  have 2: "get_run demo_cancelled ''r'' = Some demo_ended" by code_simp
  have 3: "run_status demo_ended = RunCancelled" by code_simp
  show ?thesis
    using closed_run_starts_no_tool[OF 2, of demo_context demo_call "''s2''" 4] 3
    by (simp add: is_terminal_def)
qed

section \<open>Fenced write-backs\<close>

lemma put_run_same: "get_run p i = Some r \<Longrightarrow> put_run p r = p"
proof -
  assume g: "get_run p i = Some r"
  have "find (\<lambda>x. run_id x = i) xs = Some r \<Longrightarrow> run_id r = i \<Longrightarrow>
      update_first (\<lambda>x. run_id x = i) (\<lambda>_. r) xs = xs" for xs
    by (induction xs) (auto split: if_splits)
  with g get_run_id[OF g] show ?thesis by (simp add: put_run_def get_run_def)
qed

text \<open>C4: once another execution of the run has started, the late write-backs of the old one
  (completion, failure, the request of approvals, usage and budget) leave the repository
  unchanged.\<close>

theorem superseded_writes_are_ignored:
  assumes "get_run p i = Some r" and "current_execution_token ctx i = Some t"
    and "execution_token r \<noteq> Some t"
  shows "fst (complete_builtin_run ctx p i content confs f now) = p
      \<and> fst (fail_builtin_run ctx p i code now) = p
      \<and> fst (request_builtin_approvals ctx p i calls state confs now) = p
      \<and> record_builtin_usage ctx p i used = p
      \<and> record_builtin_budget ctx p i snap = p"
proof -
  have "run_id r = i" using get_run_id[OF assms(1)] by simp
  then have "stale_execution ctx r e" for e using assms(2,3) stale_superseded by simp
  then show ?thesis
    using assms(1) put_run_same[OF assms(1)]
    by (simp add: complete_builtin_run_def fail_builtin_run_def request_builtin_approvals_def
        record_builtin_usage_def record_builtin_budget_def require_run_def Let_def
        complete_run_def fail_run_def request_approvals_def record_usage_def record_run_budget_def)
qed

definition demo_second :: run where
  "demo_second = the (get_run demo_resumed ''r'')"

theorem superseded_writes_are_ignored_witness:
  "fst (complete_builtin_run demo_context demo_resumed ''r'' ''late'' [] ''y'' 9) = demo_resumed"
proof -
  have g: "get_run demo_resumed ''r'' = Some demo_second" by code_simp
  have c: "current_execution_token demo_context ''r'' = Some ''k''" by code_simp
  have t: "execution_token demo_second \<noteq> Some ''k''" by code_simp
  show ?thesis using superseded_writes_are_ignored[OF g c t] by blast
qed

section \<open>Decisions\<close>

text \<open>the decision on an approval of a waiting run is final for that approval, and the last one
  hands the run on: to the agent's open confirmations if there are any, else back to the queue;
  before the last one the run keeps waiting.\<close>

theorem decision_hands_on:
  assumes "no_runs p0" and "repo_step\<^sup>*\<^sup>* p0 p"
    and "find_approval (repo_runs p) i = Some (r, a)" and "appr_status a = ApprovalPending"
  shows "\<exists>r'. decide_approval (\<lambda>_. False) p i ok always u now = (put_run p r', Inr r')
      \<and> pending_approval_count r = Suc (pending_approval_count r')
      \<and> run_status r' =
          (if pending_approval_count r' > 0 then RunWaitingApproval
           else if pending_agent_confirmations r \<noteq> [] then RunWaitingConfirmation else RunQueued)"
proof -
  have inv: "repo_inv p" by (rule reachable_inv[OF assms(1,2)])
  have r: "r \<in> set (repo_runs p)" and a: "find (\<lambda>a. appr_id a = i) (run_approvals r) = Some a"
    using find_approval_Some[OF assms(3)] by auto
  have rinv: "run_inv r" using inv r by (simp add: repo_inv_def)
  have wait: "run_status r = RunWaitingApproval"
    using pending_means_waiting[OF rinv] pending_found_count[OF a assms(4)] by simp
  have i: "appr_id a = i" using find_Some_mem[OF a] by simp
  have "a \<in> set (run_approvals r)" using find_Some_mem[OF a] by simp
  then have "appr_step a \<in> step_id ` set (run_steps r)"
    using rinv by (simp add: run_inv_def approvals_have_steps_def)
  then obtain s where s: "require_step (run_steps r) (appr_step a) = Some s"
    by (cases "require_step (run_steps r) (appr_step a)") (auto simp: require_step_def find_None_iff)
  let ?r' = "decide_run_approval r a ok always u now"
  have "decide_approval (\<lambda>_. False) p i ok always u now = (put_run p ?r', Inr ?r')"
    using assms(3,4) s wait by (simp add: decide_approval_def is_terminal_def Let_def)
  moreover have cnt: "pending_approval_count r = Suc (pending_approval_count ?r')"
    using set_approval_count[OF a assms(4)] rinv i
    by (simp add: decide_run_approval_def Let_def pending_approval_count_def set_approval_def run_inv_def)
  moreover have "run_status ?r' = (if pending_approval_count ?r' > 0 then RunWaitingApproval
      else if pending_agent_confirmations r \<noteq> [] then RunWaitingConfirmation else RunQueued)"
    using rinv wait
    by (simp add: decide_run_approval_def Let_def after_decision_def run_inv_def
        pending_approval_count_def pending_agent_confirmations_def)
  ultimately show ?thesis by blast
qed

theorem decision_hands_on_witness:
  "\<exists>r'. decide_approval (\<lambda>_. False) demo_waiting ''ap'' True False None 5 = (put_run demo_waiting r', Inr r')"
proof -
  have f: "find_approval (repo_runs demo_waiting) ''ap'' = Some (demo_pending, hd (run_approvals demo_pending))"
    by code_simp
  have s: "appr_status (hd (run_approvals demo_pending)) = ApprovalPending" by code_simp
  show ?thesis
    using decision_hands_on[OF demo_no_runs demo_steps_waiting f s, of True False None 5] by blast
qed

text \<open>a resume is accepted only when every approval is decided and no confirmation of the agent
  is open; it consumes the saved state, so that a second resume cannot replay it, and hands over
  exactly the decisions of the user: the last one recorded for a call.\<close>

theorem resume_applies_decisions:
  assumes "begin_builtin_resume p i c f now = (p', Inr (Some (r', a, state, ds)))"
  shows "\<exists>r. get_run p i = Some r \<and> run_status r = RunQueued
      \<and> (\<forall>x\<in>set (run_approvals r). appr_status x \<noteq> ApprovalPending)
      \<and> run_sdk_state r = Some state \<and> run_sdk_state r' = None \<and> run_status r' = RunRunning
      \<and> (\<forall>call b. decision_for ds call = Some b \<longrightarrow>
           (\<exists>x\<in>set (run_approvals r). call_trace_id (appr_call x) = Some call
              \<and> appr_status x = (if b then ApprovalApproved else ApprovalRejected))
           \<or> (b \<and> (\<exists>q\<in>set (run_confirmations r). cf_source q = SrcAgent \<and> cf_call q = call
                    \<and> cf_status q \<in> {ConfAnswered, ConfSkipped})))"
proof -
  obtain r where r: "get_run p i = Some r" "may_begin r c now = None"
    "r' = set_running (r\<lparr>run_sdk_state := None\<rparr>) c f now" "run_sdk_state r = Some state"
    "ds = resume_decisions r" "idle r"
    using resume_accepted[OF assms] by metis
  have ds: "(\<exists>x\<in>set (run_approvals r). call_trace_id (appr_call x) = Some call
              \<and> appr_status x = (if b then ApprovalApproved else ApprovalRejected))
           \<or> (b \<and> (\<exists>q\<in>set (run_confirmations r). cf_source q = SrcAgent \<and> cf_call q = call
                    \<and> cf_status q \<in> {ConfAnswered, ConfSkipped}))"
    if "decision_for ds call = Some b" for call b
  proof -
    have "(call, b) \<in> set (resume_decisions r)"
      using map_of_SomeD[OF that[unfolded decision_for_def]] r(5) by simp
    then show ?thesis
      by (auto simp: resume_decisions_def split: option.splits if_splits)
  qed
  have "run_sdk_state r' = None" using r(3) by (simp add: set_running_def start_execution_def Let_def)
  then show ?thesis
    using r ds by (auto simp: may_begin_accepted set_running_sel idle_def pending_approval_count_def
        filter_empty_conv)
qed

theorem resume_applies_decisions_witness:
  "\<exists>r. get_run demo_reclaimed ''r'' = Some r \<and> run_status r = RunQueued"
proof -
  have "begin_builtin_resume demo_reclaimed ''r'' (Some demo_claim2) ''x2'' 7 =
      (demo_resumed, Inr (Some (demo_second, hd (repo_agents demo_repo), ''st'', [(''c1'', True)])))"
    by code_simp
  from resume_applies_decisions[OF this] show ?thesis by blast
qed


section \<open>Claims\<close>

text \<open>the lease that the dispatcher writes yields a claim that starts the run until the lease
  expires, at the instant of expiry no longer, and never after another worker claimed the run.\<close>

theorem claim_valid_until_expiry:
  assumes "lease_fresh r" and "f \<noteq> []"
  shows "\<exists>c. claim_of i (claim_run_locked r w f s now) = Some c
      \<and> begin_rejection (claim_run_locked r w f s now) (Some c) t =
          (if t < now + microseconds (max 1 s) then None else Some LeaseExpired)
      \<and> begin_rejection (claim_run_locked (claim_run_locked r w f s now) w' f' s' now') (Some c) t =
          Some LeaseMismatch"
  using assms lease_fresh_nonneg[OF assms(1)]
  by (simp add: claim_run_locked_def Let_def claim_of_def begin_rejection_def new_lease_def
      lease_active_def generation_of_def split: option.splits)

definition demo_new :: run where
  "demo_new = the (get_run demo_created ''r'')"

theorem claim_valid_until_expiry_witness:
  "\<exists>c. claim_of ''r'' (claim_run_locked demo_new ''w'' ''k'' 30 0) = Some c
     \<and> begin_rejection (claim_run_locked demo_new ''w'' ''k'' 30 0) (Some c) 30000000 = Some LeaseExpired"
proof -
  have f: "lease_fresh demo_new"
    by (simp add: demo_new_def demo_created_run get_run_def new_run_def lease_fresh_def
        execution_generation_def)
  show ?thesis
    using claim_valid_until_expiry[OF f, of "''k''" "''r''" "''w''" 30 0 30000000]
    by (simp add: microseconds_def) blast
qed

text \<open>the dispatcher claims a run exactly when some queued run of this runtime has no active
  lease, and it takes an oldest one.\<close>

theorem claim_takes_oldest:
  "case claim_control_plane_run p w f s now of
     (p', None) \<Rightarrow> p' = p \<and> (\<forall>r. r \<in> set (repo_runs p) \<longrightarrow> \<not> claimable now r)
   | (p', Some r') \<Rightarrow> (\<exists>r\<in>set (repo_runs p). claimable now r \<and> r' = claim_run_locked r w f s now
       \<and> (\<forall>x. x \<in> set (repo_runs p) \<longrightarrow> claimable now x \<longrightarrow> run_created_at r \<le> run_created_at x))"
proof -
  have sorted: "sorted (map run_created_at (rev (sorted_runs p)))"
    unfolding sorted_runs_def rev_map[symmetric] sorted_rev_iff_nth_Suc
    using sorted_sort_key[of "\<lambda>r. - run_created_at r" "repo_runs p"]
    by (simp add: sorted_iff_nth_Suc)
  have first: "run_created_at r \<le> run_created_at x"
    if "find P rs = Some r" "sorted (map run_created_at rs)" "x \<in> set rs" "P x" for P r x rs
    using that by (induction rs) (auto split: if_splits dest: find_Some_mem)
  show ?thesis
  proof (cases "find (claimable now) (rev (sorted_runs p))")
    case None
    then have "\<forall>x. x \<in> set (repo_runs p) \<longrightarrow> \<not> claimable now x"
      by (simp add: find_None_iff sorted_runs_def)
    with None show ?thesis by (simp add: claim_control_plane_run_def)
  next
    case (Some r)
    have "r \<in> set (repo_runs p)" "claimable now r"
      using find_Some_mem[OF Some] by (simp_all add: sorted_runs_def)
    then show ?thesis
      using first[OF Some sorted] Some
      by (auto simp: claim_control_plane_run_def Let_def sorted_runs_def)
  qed
qed

theorem claim_takes_oldest_witness:
  "\<exists>r. snd (claim_control_plane_run demo_created ''w'' ''k'' 30 0) = Some r \<and> run_created_at r = 0"
proof -
  have e: "snd (claim_control_plane_run demo_created ''w'' ''k'' 30 0) =
      Some (claim_run_locked demo_new ''w'' ''k'' 30 0)" by code_simp
  have "run_created_at (claim_run_locked demo_new ''w'' ''k'' 30 0) = 0" by code_simp
  with e claim_takes_oldest[where p = demo_created and w = "''w''" and f = "''k''" and s = 30 and now = 0] show ?thesis
    by (auto split: prod.splits option.splits)
qed

section \<open>Writes whose outcome is unknown\<close>

text \<open>the same tool with the same arguments needs a person's approval exactly when the last of
  those writes that settled is one whose outcome is unknown; only a later success of the same
  write resolves it.\<close>

theorem unresolved_iff_last_settled_unknown:
  "unresolved_unknown steps name arguments = Some s \<longleftrightarrow>
   (\<exists>xs ys. steps = xs @ s # ys \<and> same_write name arguments s \<and> step_outcome_unknown s
      \<and> (\<forall>y\<in>set ys. same_write name arguments y \<longrightarrow> \<not> step_outcome_unknown y \<and> \<not> step_succeeded y))"
  (is "?L \<longleftrightarrow> ?R")
proof
  assume ?R
  then obtain xs ys where s: "steps = xs @ s # ys" "same_write name arguments s" "step_outcome_unknown s"
    and later: "\<forall>y\<in>set ys. same_write name arguments y \<longrightarrow> \<not> step_outcome_unknown y \<and> \<not> step_succeeded y"
    by blast
  have "latest_settled None steps name arguments = Some s"
    using s latest_settled_skip[OF later] by (simp add: latest_settled_append)
  with s show ?L by (simp add: unresolved_unknown_def)
next
  let ?Q = "\<lambda>s. same_write name arguments s \<and> (step_outcome_unknown s \<or> step_succeeded s)"
  assume ?L
  then have l: "latest_settled None steps name arguments = Some s" and u: "step_outcome_unknown s"
    by (auto simp: unresolved_unknown_def split: option.splits if_splits)
  have "filter ?Q steps \<noteq> []" and "last (filter ?Q steps) = s"
    using l by (auto simp: latest_settled_spec split: list.splits)
  then obtain xs ys where "steps = xs @ s # ys" "?Q s" "\<forall>y\<in>set ys. \<not> ?Q y"
    using filter_last_split[of ?Q steps] by auto
  with u show ?R by blast
qed

definition demo_lost :: run_step where
  "demo_lost = \<lparr>step_id = ''s'', step_kind = ''tool'', step_status = StepRunning,
     step_call = Some demo_call, step_result = None, step_approval = None,
     step_started_at = Some 0, step_completed_at = None\<rparr>"

theorem unresolved_iff_last_settled_unknown_witness:
  "unresolved_unknown [interrupt_step 9 demo_lost] ''send'' ''{}'' = Some (interrupt_step 9 demo_lost)"
proof -
  have "same_write ''send'' ''{}'' (interrupt_step 9 demo_lost)"
    and "step_outcome_unknown (interrupt_step 9 demo_lost)" by code_simp+
  then have "\<exists>xs ys. [interrupt_step 9 demo_lost] = xs @ interrupt_step 9 demo_lost # ys
      \<and> same_write ''send'' ''{}'' (interrupt_step 9 demo_lost)
      \<and> step_outcome_unknown (interrupt_step 9 demo_lost)
      \<and> (\<forall>y\<in>set ys. same_write ''send'' ''{}'' y \<longrightarrow> \<not> step_outcome_unknown y \<and> \<not> step_succeeded y)"
    by (intro exI[of _ "[]"]) simp
  with unresolved_iff_last_settled_unknown show ?thesis by blast
qed

text \<open>C5: when the runtime restarts, a write that a previous process may have sent is recorded as
  having an unknown outcome, never as not executed, and it then counts among the run's unknown
  writes; a step that had not started is just failed.\<close>

theorem interrupted_write_is_unknown:
  assumes "interrupted before r" and "s \<in> set (run_steps r)"
    and "step_status s \<in> {StepPending, StepRunning}"
  shows "\<exists>s'\<in>set (run_steps (fail_interrupted r now)).
      step_id s' = step_id s \<and> step_status s' = StepFailed
      \<and> (step_status s = StepRunning \<and> step_result s = None \<and>
          (\<exists>c. step_call s = Some c \<and> has_operation_key c) \<longrightarrow>
         step_outcome_unknown s' \<and> s' \<in> set (unknown_steps (run_steps (fail_interrupted r now)) True))
      \<and> (step_status s = StepPending \<longrightarrow> step_result s' = step_result s)"
proof -
  let ?s = "interrupt_step now s"
  have mem: "?s \<in> set (run_steps (fail_interrupted r now))"
    using assms(2) by (simp add: fail_interrupted_def)
  have "step_status ?s = StepFailed" using assms(3) by (auto simp: interrupt_step_def)
  moreover have "step_outcome_unknown ?s"
    if "step_status s = StepRunning" "step_result s = None" "step_call s = Some c" "has_operation_key c" for c
    using that by (simp add: interrupt_step_def step_outcome_unknown_def)
  moreover have "step_status s = StepPending \<longrightarrow> step_result ?s = step_result s"
    by (simp add: interrupt_step_def)
  ultimately show ?thesis
    using mem by (intro bexI[of _ ?s]) (auto simp: unknown_steps_def)
qed

theorem interrupted_write_is_unknown_witness:
  "\<exists>s'\<in>set (run_steps (fail_interrupted (demo_started\<lparr>run_steps := [demo_lost]\<rparr>) 9)).
     step_id s' = ''s'' \<and> step_outcome_unknown s'"
proof -
  have i: "interrupted 5 (demo_started\<lparr>run_steps := [demo_lost]\<rparr>)" by code_simp
  have k: "\<exists>c. step_call demo_lost = Some c \<and> has_operation_key c"
    by (rule exI[of _ demo_call]) (simp add: demo_lost_def demo_call_def has_operation_key_def)
  show ?thesis
    using interrupted_write_is_unknown[OF i, of demo_lost 9] k
    by (auto simp: demo_lost_def)
qed

section \<open>Answers\<close>

lemma check_items_ok:
  "check_items its as = Inr out \<Longrightarrow>
   map ca_item out = map ci_id its \<and>
   (\<forall>k<length its. distinct (ca_options (out ! k)) \<and> set (ca_options (out ! k)) \<subseteq> set (ci_options (its ! k))
      \<and> (ca_options (out ! k) \<noteq> [] \<or> ca_other (out ! k) \<noteq> [])
      \<and> (ci_single (its ! k) \<longrightarrow> length (ca_options (out ! k)) + (if ca_other (out ! k) = [] then 0 else 1) = 1))"
proof (induction its arbitrary: out)
  case (Cons it its)
  obtain a where a: "answer_for as (ci_id it) = Some a"
    using Cons.prems by (auto split: option.splits)
  have ne: "ca_options a \<noteq> [] \<or> ca_other a \<noteq> []"
    using Cons.prems a by (auto split: if_splits)
  let ?o = "dedup (ca_options a)"
  have chk: "set ?o \<subseteq> set (ci_options it)" "\<not> (ci_single it \<and> (1 < length ?o \<or> (?o \<noteq> [] \<and> ca_other a \<noteq> [])))"
    using Cons.prems a ne by (auto simp: Let_def split: if_splits)
  obtain rest where rest: "check_items its as = Inr rest"
    and out: "out = \<lparr>ca_item = ci_id it, ca_options = ?o, ca_other = ca_other a\<rparr> # rest"
    using Cons.prems a ne chk by (auto simp: Let_def split: if_splits sum.splits)
  have ne': "?o \<noteq> [] \<or> ca_other a \<noteq> []" using ne by (metis set_dedup set_empty)
  have one: "ci_single it \<longrightarrow> length ?o + (if ca_other a = [] then 0 else 1) = 1"
    using chk(2) ne' by (cases "?o") (auto split: if_splits)
  show ?case
    using Cons.IH[OF rest] out chk(1) ne' one by (auto simp: nth_Cons split: nat.splits)
qed simp

text \<open>an accepted set of answers covers every question of the confirmation once and in its
  order, with known options only and without repetition, and a single choice has one option or a
  text of one's own, never both.\<close>

theorem accepted_answers_are_complete:
  assumes "validate_answers c as = Inr out"
  shows "map ca_item out = map ci_id (cf_items c)
      \<and> (\<forall>a\<in>set as. ca_item a \<in> ci_id ` set (cf_items c))
      \<and> (\<forall>k<length (cf_items c).
           distinct (ca_options (out ! k))
           \<and> set (ca_options (out ! k)) \<subseteq> set (ci_options (cf_items c ! k))
           \<and> (ca_options (out ! k) \<noteq> [] \<or> ca_other (out ! k) \<noteq> [])
           \<and> (ci_single (cf_items c ! k) \<longrightarrow>
                length (ca_options (out ! k)) + (if ca_other (out ! k) = [] then 0 else 1) = 1))"
proof -
  have "check_items (cf_items c) as = Inr out" "\<forall>a\<in>set as. ca_item a \<in> ci_id ` set (cf_items c)"
    using assms by (auto simp: validate_answers_def split: if_splits)
  with check_items_ok show ?thesis by blast
qed

definition demo_confirmation :: confirmation where
  "demo_confirmation = \<lparr>cf_id = ''q'', cf_source = SrcNl2sql, cf_call = [],
     cf_items = [\<lparr>ci_id = ''i1'', ci_single = True, ci_options = [''x'', ''y'']\<rparr>], cf_round = 1,
     cf_status = ConfPending, cf_answers = [], cf_session = None, cf_connection = [],
     cf_decided_at = None\<rparr>"

theorem accepted_answers_are_complete_witness:
  "map ca_item [\<lparr>ca_item = ''i1'', ca_options = [''y''], ca_other = []\<rparr>] = map ci_id (cf_items demo_confirmation)"
proof -
  have "validate_answers demo_confirmation [\<lparr>ca_item = ''i1'', ca_options = [''y'', ''y''], ca_other = []\<rparr>] =
      Inr [\<lparr>ca_item = ''i1'', ca_options = [''y''], ca_other = []\<rparr>]"
    by (simp add: validate_answers_def demo_confirmation_def answer_for_def)
  from accepted_answers_are_complete[OF this] show ?thesis by simp
qed

text \<open>C6: answering or skipping a confirmation of a tool, with answers that are accepted, records the answer before the
  next run is created. When the creation then raises, the error reaches the caller, but the confirmation stays
  answered with these answers, no run is added, and every further answer, skip or withdrawal of it is refused as closed.\<close>

theorem failed_next_run_keeps_the_answer:
  assumes "get_run p i = Some r" and "find (\<lambda>c. cf_id c = conf) (run_confirmations r) = Some c"
    and "cf_status c = ConfPending" and "cf_source c \<noteq> SrcAgent"
    and "action \<noteq> ActCancel" and "(if action = ActAnswer then validate_answers c as else Inr []) = Inr normalized"
    and "decide_confirmation p i conf action as u actor goal fresh ft now = (p', Inl e)"
  shows "decide_confirmation p' i conf action' as' u' actor' goal' fresh' ft' now' =
           (p', Inl (ConfirmationClosed conf))
       \<and> (\<exists>r' c'. get_run p' i = Some r' \<and> find (\<lambda>c. cf_id c = conf) (run_confirmations r') = Some c'
            \<and> cf_status c' = (if action = ActAnswer then ConfAnswered else ConfSkipped) \<and> cf_answers c' = normalized
            \<and> cf_decided_at c' = Some now)
       \<and> map run_id (repo_runs p') = map run_id (repo_runs p)"
proof -
  have cid: "cf_id c = conf" using find_Some_mem[OF assms(2)] by simp
  have i: "run_id r = i" using get_run_id[OF assms(1)] by simp
  let ?r1 = "mark_answered r c action normalized u now"
  let ?p1 = "put_run p ?r1"
  let ?c1 = "c\<lparr>cf_status := (if action = ActAnswer then ConfAnswered else ConfSkipped), cf_decided_at := Some now,
    cf_answers := normalized\<rparr>"
  have id1: "run_id ?r1 = i" using i by (simp add: mark_answered_def set_confirmation_def)
  have dec: "decide_confirmation p i conf action as u actor goal fresh ft now =
      answer_confirmation p r c action normalized u actor goal fresh ft now"
    using assms(1-3,5,6) by (cases "action = ActAnswer") (simp_all add: decide_confirmation_def require_run_def)
  have err: "create_builtin_run ?p1 (next_request ?r1 goal) (answer_user actor ?r1) None
      (next_extra ?p1 ?r1 c action) True fresh ft now = (p', Inl e)"
    using assms(4,7) by (auto simp: dec answer_confirmation_def Let_def split: sum.splits intro: prod_eqI)
  have p': "p' = ?p1"
    using err by (auto simp: create_builtin_run_def Let_def split: option.splits if_splits)
  have g: "get_run p' i = Some ?r1" unfolding p' using assms(1) id1 by (simp add: get_run_put_run)
  have f: "find (\<lambda>c. cf_id c = conf) (run_confirmations ?r1) = Some ?c1"
    using find_update_first[OF assms(2)] cid by (simp add: mark_answered_def set_confirmation_def)
  have "decide_confirmation p' i conf action' as' u' actor' goal' fresh' ft' now' = (p', Inl (ConfirmationClosed conf))"
    using g f by (simp add: decide_confirmation_def require_run_def)
  moreover have "map run_id (repo_runs p') = map run_id (repo_runs p)"
    unfolding p' by (rule put_run_ids)
  moreover have "cf_status ?c1 = (if action = ActAnswer then ConfAnswered else ConfSkipped) \<and> cf_answers ?c1 = normalized
      \<and> cf_decided_at ?c1 = Some now" by simp
  ultimately show ?thesis using g f by blast
qed

definition demo_asked :: run where
  "demo_asked = demo_started\<lparr>run_status := RunCompleted, run_confirmations := [demo_confirmation],
     run_agent_version := Draft\<rparr>"

definition demo_disabled :: repo where
  "demo_disabled = demo_repo\<lparr>repo_runs := [demo_asked],
     repo_agents := [\<lparr>ag_id = ''a'', ag_enabled = False, ag_published_version = Some 1,
                      ag_versions = [1], ag_draft = []\<rparr>]\<rparr>"

theorem failed_next_run_keeps_the_answer_witness:
  "\<exists>p'. decide_confirmation demo_disabled ''r'' ''q'' ActAnswer [\<lparr>ca_item = ''i1'', ca_options = [''y''], ca_other = []\<rparr>]
       None None [] ''r2'' ''t2'' 5 = (p', Inl AgentDisabled)
     \<and> decide_confirmation p' ''r'' ''q'' ActSkip [] None None [] ''r2'' ''t2'' 6 = (p', Inl (ConfirmationClosed ''q''))"
proof -
  let ?as = "[\<lparr>ca_item = ''i1'', ca_options = [''y''], ca_other = []\<rparr>]"
  have g: "get_run demo_disabled ''r'' = Some demo_asked" by code_simp
  have c: "find (\<lambda>c. cf_id c = ''q'') (run_confirmations demo_asked) = Some demo_confirmation"
    by (simp add: demo_asked_def demo_confirmation_def)
  have s: "cf_status demo_confirmation = ConfPending" "cf_source demo_confirmation \<noteq> SrcAgent"
    by (simp_all add: demo_confirmation_def)
  have v: "(if ActAnswer = ActAnswer then validate_answers demo_confirmation ?as else Inr []) = Inr ?as" by code_simp
  let ?d = "decide_confirmation demo_disabled ''r'' ''q'' ActAnswer ?as None None [] ''r2'' ''t2'' 5"
  have "snd ?d = Inl AgentDisabled" by code_simp
  then have e: "?d = (fst ?d, Inl AgentDisabled)" by (metis prod.collapse)
  from failed_next_run_keeps_the_answer[OF g c s _ v e] e show ?thesis by blast
qed

end
