(* ===== verification/AuthData.thy ===== *)
theory AuthData
  imports Prelude
begin

text \<open>The data of the authentication the products share
  (\<open>pr_system_settings/auth/domain.py\<close>, \<open>errors.py\<close>), the rules for whose data a principal may see
  (\<open>visibility.py\<close>) and the password policy (\<open>pr_system_settings/users_roles.py\<close>). Ids and names
  are strings of bytes; \<open>casefold\<close> is the lowering of ASCII letters, which are all a stored login id
  may hold. Sets of permission codes are sets. Instants are exact seconds.\<close>

section \<open>Errors\<close>

datatype security_code =
  StateConflict | LoginIdConflict | RoleCodeConflict | RoleCodeReserved | DeleteRequiresDisabled
| UserDeleteProtected | DeleteSelfForbidden | RoleDeleteProtected | RoleRequiresArchived
| RoleAssigned | CsrfInvalid | RequestInvalid | AuthenticationRequired | PermissionDenied
| ResourceNotFound | RateLimited | OperationFailed | ServiceUnavailable | ApiErrorCode
| ApiKeyLimit | ApiKeyInvalid | ApiKeyProductForbidden | ApiKeyRateLimited | ApiKeyNotAllowed
| PasswordChangeRequired | RouteUnclassified | RouteForbidden

datatype store_error = StoreNotFound | StoreConflict security_code | StoreFailed

text \<open>\<open>StoreRaised\<close>: an exception of the store that the service does not catch.\<close>

datatype api_error = ApiError nat security_code | StoreRaised store_error

fun default_code :: "nat \<Rightarrow> security_code" where
  "default_code n =
     (if n = 400 \<or> n = 422 then RequestInvalid else if n = 401 then AuthenticationRequired
      else if n = 403 then PermissionDenied else if n = 404 then ResourceNotFound
      else if n = 409 then StateConflict else if n = 429 then RateLimited
      else if n = 500 then OperationFailed else if n = 503 then ServiceUnavailable else ApiErrorCode)"

definition api :: "nat \<Rightarrow> api_error" where
  "api n = ApiError n (default_code n)"

definition LoginFailed :: api_error where
  "LoginFailed = api 401"

fun store_api :: "store_error \<Rightarrow> api_error" where
  "store_api StoreNotFound = api 404"
| "store_api (StoreConflict c) = ApiError 409 c"
| "store_api StoreFailed = StoreRaised StoreFailed"

section \<open>Users, roles, sessions\<close>

definition SYSTEM_ADMIN_ROLE_CODE :: string where "SYSTEM_ADMIN_ROLE_CODE = ''SYSTEM_ADMIN''"
definition SYSTEM_ADMIN_ROLE_ID :: ident where "SYSTEM_ADMIN_ROLE_ID = ''00000000-0000-0000-0000-000000000001''"
definition CONFIGURED_ADMIN_UUID :: ident where "CONFIGURED_ADMIN_UUID = ''00000000-0000-0000-0000-000000000002''"
definition LOCAL_DEBUG_UUID :: ident where "LOCAL_DEBUG_UUID = ''00000000-0000-0000-0000-000000000000''"
definition FIXED_ADMIN_LOGIN :: string where "FIXED_ADMIN_LOGIN = ''system_admin''"
definition SYSTEM_ADMIN_DISPLAY_NAME :: string where "SYSTEM_ADMIN_DISPLAY_NAME = ''system administrator''"

datatype user_status = Active | Disabled

record user =
  us_uuid :: ident
  us_login :: string
  us_name :: string
  us_hash :: string
  us_status :: user_status
  us_force :: bool
  us_failed :: int
  us_locked :: "rat option"
  us_version :: int
  us_roles :: "ident list"
  us_bootstrap :: bool

record role =
  ro_id :: ident
  ro_code :: string
  ro_name :: string
  ro_description :: string
  ro_built_in :: bool
  ro_archived :: bool
  ro_version :: int

record session =
  se_id :: ident
  se_user :: ident
  se_token :: string
  se_csrf :: string
  se_idle :: rat
  se_absolute :: rat
  se_seen :: rat
  se_revoked :: "rat option"

record identity =
  id_user :: ident
  id_login :: string
  id_name :: string

record principal =
  pr_user :: ident
  pr_login :: string
  pr_name :: string
  pr_status :: user_status
  pr_force :: bool
  pr_codes :: "string list"
  pr_permissions :: "string set"
  pr_session :: ident
  pr_csrf :: string
  pr_change_allowed :: bool
  pr_roles :: "ident list"
  pr_role_names :: "string list"

definition is_system_admin :: "principal \<Rightarrow> bool" where
  "is_system_admin p = (SYSTEM_ADMIN_ROLE_CODE \<in> set (pr_codes p))"

definition has_permission :: "principal \<Rightarrow> string \<Rightarrow> bool" where
  "has_permission p c = (is_system_admin p \<or> c \<in> pr_permissions p)"

definition has_any_permission :: "principal \<Rightarrow> string set \<Rightarrow> bool" where
  "has_any_permission p cs = (is_system_admin p \<or> pr_permissions p \<inter> cs \<noteq> {})"

fun role_names_from :: "string list \<Rightarrow> string list \<Rightarrow> string list" where
  "role_names_from [] names = []"
| "role_names_from (c # cs) names =
     (let name = (case names of [] \<Rightarrow> '''' | n # _ \<Rightarrow> n)
      in (if strip name = '''' then if c = SYSTEM_ADMIN_ROLE_CODE then SYSTEM_ADMIN_DISPLAY_NAME else c
          else name) # role_names_from cs (tl names))"

definition role_names :: "principal \<Rightarrow> string list" where
  "role_names p = role_names_from (pr_codes p) (pr_role_names p)"

text \<open>Assignment to the key of a dictionary that keeps its order.\<close>

definition dict_put :: "('a \<Rightarrow> 'k) \<Rightarrow> 'a \<Rightarrow> 'a list \<Rightarrow> 'a list" where
  "dict_put key x xs =
     (if list_ex (\<lambda>y. key y = key x) xs then update_where (\<lambda>y. key y = key x) (\<lambda>_. x) xs else xs @ [x])"

section \<open>Whose data\<close>

datatype executor_filter = AllRuns | MineRuns | OthersRuns

definition can_view_all :: "principal option \<Rightarrow> bool" where
  "can_view_all p = (case p of None \<Rightarrow> False | Some q \<Rightarrow> is_system_admin q)"

definition owner_filter :: "principal \<Rightarrow> ident option" where
  "owner_filter p = (if can_view_all (Some p) then None else Some (pr_user p))"

definition owner_of :: "ident option \<Rightarrow> ident" where
  "owner_of u = strip (case u of None \<Rightarrow> '''' | Some x \<Rightarrow> x)"

definition can_access_user_data :: "principal option \<Rightarrow> ident option \<Rightarrow> bool" where
  "can_access_user_data p u =
     (case p of None \<Rightarrow> False
      | Some q \<Rightarrow> can_view_all p \<or> owner_of u \<noteq> '''' \<and> owner_of u = pr_user q)"

definition can_add_user_content :: "principal option \<Rightarrow> ident option \<Rightarrow> bool" where
  "can_add_user_content p u =
     (case p of None \<Rightarrow> False | Some q \<Rightarrow> owner_of u \<noteq> '''' \<and> owner_of u = pr_user q)"

definition can_access_run :: "principal option \<Rightarrow> ident option \<Rightarrow> ident option \<Rightarrow> bool" where
  "can_access_run p executor owner =
     (p \<noteq> None \<and> (can_access_user_data p executor \<or> owner \<noteq> None \<and> can_access_user_data p owner))"

definition executor_matches :: "principal \<Rightarrow> ident option \<Rightarrow> executor_filter \<Rightarrow> bool" where
  "executor_matches p executor f =
     (case f of AllRuns \<Rightarrow> True
      | MineRuns \<Rightarrow> owner_of executor = pr_user p
      | OthersRuns \<Rightarrow> owner_of executor \<noteq> pr_user p)"

section \<open>Passwords\<close>

definition COMMON_PASSWORDS :: "string list" where
  "COMMON_PASSWORDS =
     [''password'', ''password1'', ''password123'', ''password123!'', ''admin'', ''administrator'',
      ''letmein'', ''qwerty'', ''welcome'', ''welcome1'', ''welcome123!'', ''oracle'', ''oracle123'',
      ''oracle123!'', ''changeme'', ''changeme123!'', ''admin123!'', ''qwerty123!'', ''letmein123!'',
      ''1234567890'']"

definition SYMBOLS :: string where "SYMBOLS = ''!@#$%_-+=''"

definition is_upper :: "char \<Rightarrow> bool" where
  "is_upper c = (let n = (of_char c :: nat) in 65 \<le> n \<and> n \<le> 90)"

definition is_lower :: "char \<Rightarrow> bool" where
  "is_lower c = (let n = (of_char c :: nat) in 97 \<le> n \<and> n \<le> 122)"

fun contains :: "string \<Rightarrow> string \<Rightarrow> bool" where
  "contains p [] = (p = [])"
| "contains p (c # cs) = (take (length p) (c # cs) = p \<or> contains p cs)"

datatype policy_error = BadLength | NoUpper | NoLower | NoDigit | NoSymbol | Guessable

definition validate_password :: "nat \<Rightarrow> nat \<Rightarrow> string \<Rightarrow> string \<Rightarrow> policy_error list" where
  "validate_password min_length max_length login pw =
     (let lowered = lower pw; login = lower (strip login)
      in (if length pw < min_length \<or> max_length < length pw then [BadLength] else [])
         @ (if \<not> list_ex is_upper pw then [NoUpper] else [])
         @ (if \<not> list_ex is_lower pw then [NoLower] else [])
         @ (if \<not> list_ex is_digit pw then [NoDigit] else [])
         @ (if \<not> list_ex (\<lambda>c. \<not> is_upper c \<and> \<not> is_lower c \<and> \<not> is_digit c) pw then [NoSymbol] else [])
         @ (if lowered \<in> set COMMON_PASSWORDS \<or> 3 \<le> length login \<and> contains login lowered
            then [Guessable] else []))"

text \<open>The four required characters come first; \<open>others\<close> are the further choices from the alphabet and
  \<open>shuffle\<close> rearranges the whole.\<close>

definition temporary_password :: "(string \<Rightarrow> string) \<Rightarrow> char \<Rightarrow> char \<Rightarrow> char \<Rightarrow> char \<Rightarrow> string \<Rightarrow> string" where
  "temporary_password shuffle u l d s others = shuffle ([u, l, d, s] @ others)"

definition alphabet :: "char \<Rightarrow> bool" where
  "alphabet c = (is_upper c \<or> is_lower c \<or> is_digit c \<or> c \<in> set SYMBOLS)"

text \<open>The password of the administrator of the configuration file.\<close>

definition admin_password_ok :: "string \<Rightarrow> bool" where
  "admin_password_ok pw =
     (pw \<noteq> ''TODO'' \<and> CHR 0x0D \<notin> set pw \<and> CHR 0x0A \<notin> set pw \<and> \<not> contains ''admin'' pw
      \<and> list_ex is_digit pw \<and> list_ex is_lower pw \<and> list_ex is_upper pw \<and> CHR 0x22 \<notin> set pw
      \<and> 12 \<le> length pw \<and> length pw \<le> 30)"

lemma contains_iff: "contains p s \<longleftrightarrow> (\<exists>a b. s = a @ p @ b)"
proof (induction p s rule: contains.induct)
  case (2 p c cs)
  show ?case
  proof
    assume "contains p (c # cs)"
    then consider "take (length p) (c # cs) = p" | "contains p cs" by auto
    then show "\<exists>a b. c # cs = a @ p @ b"
    proof cases
      case 1
      then have "c # cs = [] @ p @ drop (length p) (c # cs)" by (metis append_Nil append_take_drop_id)
      then show ?thesis by blast
    next
      case 2
      then obtain a b where "cs = a @ p @ b" using "2.IH" by blast
      then have "c # cs = (c # a) @ p @ b" by simp
      then show ?thesis by blast
    qed
  next
    assume "\<exists>a b. c # cs = a @ p @ b"
    then obtain a b where ab: "c # cs = a @ p @ b" by blast
    show "contains p (c # cs)"
    proof (cases a)
      case Nil
      then have "take (length p) (c # cs) = p" using ab by simp
      then show ?thesis by simp
    next
      case (Cons x xs)
      then have "cs = xs @ p @ b" using ab by simp
      then show ?thesis using "2.IH" by auto
    qed
  qed
qed simp

end
