(* ===== verification/AuthStore.thy ===== *)
theory AuthStore
  imports AuthData "HOL-Library.List_Lexorder" "HOL-Library.Char_ord"
begin

text \<open>The store of users, roles and sessions that the service of \<open>AuthService\<close> works on
  (\<open>pr_system_settings/auth/store.py\<close>, protocol \<open>AuthStore\<close>): its operations as a record of functions,
  and the store in memory (\<open>InMemoryAuthStore\<close>). Each operation is one critical section. A
  dictionary is a list in the order of insertion; the time of a revocation is an argument.\<close>

section \<open>The protocol\<close>

record 's auth_ops =
  op_user_by_login :: "'s \<Rightarrow> string \<Rightarrow> user option"
  op_user :: "'s \<Rightarrow> ident \<Rightarrow> user option"
  op_users :: "'s \<Rightarrow> user list"
  op_create_user :: "rat \<Rightarrow> user \<Rightarrow> 's \<Rightarrow> store_error + 's"
  op_update_user :: "ident \<Rightarrow> int \<Rightarrow> string \<Rightarrow> user_status \<Rightarrow> ident list \<Rightarrow> 's \<Rightarrow> store_error + 's"
  op_delete_user :: "ident \<Rightarrow> int \<Rightarrow> 's \<Rightarrow> store_error + 's"
  op_set_password :: "ident \<Rightarrow> string \<Rightarrow> bool \<Rightarrow> 's \<Rightarrow> store_error + 's"
  op_login_failure :: "ident \<Rightarrow> int \<Rightarrow> rat option \<Rightarrow> 's \<Rightarrow> store_error + 's"
  op_login_success :: "ident \<Rightarrow> string option \<Rightarrow> 's \<Rightarrow> store_error + 's"
  op_roles :: "'s \<Rightarrow> bool \<Rightarrow> role list"
  op_role :: "'s \<Rightarrow> ident \<Rightarrow> role option"
  op_get_roles :: "'s \<Rightarrow> ident list \<Rightarrow> role list"
  op_create_role :: "role \<Rightarrow> 's \<Rightarrow> store_error + 's"
  op_update_role :: "role \<Rightarrow> int \<Rightarrow> 's \<Rightarrow> store_error + 's"
  op_archive_role :: "ident \<Rightarrow> int \<Rightarrow> 's \<Rightarrow> store_error + 's"
  op_restore_role :: "ident \<Rightarrow> int \<Rightarrow> 's \<Rightarrow> store_error + 's"
  op_delete_role :: "ident \<Rightarrow> int \<Rightarrow> 's \<Rightarrow> store_error + 's"
  op_active_admins :: "'s \<Rightarrow> nat"
  op_create_session :: "session \<Rightarrow> 's \<Rightarrow> store_error + 's"
  op_session :: "'s \<Rightarrow> string \<Rightarrow> session option"
  op_touch :: "ident \<Rightarrow> rat \<Rightarrow> rat \<Rightarrow> 's \<Rightarrow> 's"
  op_revoke :: "rat \<Rightarrow> ident \<Rightarrow> 's \<Rightarrow> 's"
  op_revoke_user :: "rat \<Rightarrow> ident \<Rightarrow> 's \<Rightarrow> 's"
  op_permission_codes :: "'s \<Rightarrow> string \<Rightarrow> ident \<Rightarrow> string set"

text \<open>A row of a table of permissions of a product: table, role, code.\<close>

type_synonym permission_row = "string \<times> ident \<times> string"

definition codes_of :: "permission_row list \<Rightarrow> string \<Rightarrow> ident \<Rightarrow> string set" where
  "codes_of rows table r = set (map (\<lambda>x. snd (snd x)) (filter (\<lambda>x. fst x = table \<and> fst (snd x) = r) rows))"

definition PERMISSION_TABLES :: "(string \<times> string) list" where
  "PERMISSION_TABLES =
     [(''nl2sql'', ''NL2SQL_APP_ROLE_PERMISSIONS''), (''rag'', ''RAG_ROLE_PERMISSIONS''),
      (''agent'', ''AGENT_ROLE_PERMISSIONS'')]"

section \<open>The store in memory\<close>

record mem_auth =
  ma_users :: "user list"
  ma_roles :: "role list"
  ma_sessions :: "session list"
  ma_permissions :: "permission_row list"

definition mem_user :: "mem_auth \<Rightarrow> ident \<Rightarrow> user option" where
  "mem_user s u = find (\<lambda>x. us_uuid x = u) (ma_users s)"

definition mem_user_by_login :: "mem_auth \<Rightarrow> string \<Rightarrow> user option" where
  "mem_user_by_login s l = find (\<lambda>x. lower (us_login x) = lower l) (ma_users s)"

definition mem_users :: "mem_auth \<Rightarrow> user list" where
  "mem_users s = sort_key us_login (ma_users s)"

definition mem_role :: "mem_auth \<Rightarrow> ident \<Rightarrow> role option" where
  "mem_role s r = find (\<lambda>x. ro_id x = r) (ma_roles s)"

definition mem_roles :: "mem_auth \<Rightarrow> bool \<Rightarrow> role list" where
  "mem_roles s archived = sort_key ro_code (filter (\<lambda>r. archived \<or> \<not> ro_archived r) (ma_roles s))"

definition mem_get_roles :: "mem_auth \<Rightarrow> ident list \<Rightarrow> role list" where
  "mem_get_roles s rs = List.map_filter (mem_role s) (dedup rs)"

definition mem_role_ids_ok :: "mem_auth \<Rightarrow> ident list \<Rightarrow> ident list \<Rightarrow> bool" where
  "mem_role_ids_ok s rs allowed =
     list_all (\<lambda>r. (case mem_role s r of Some x \<Rightarrow> \<not> ro_archived x | None \<Rightarrow> False) \<or> r \<in> set allowed) rs"

definition mem_active_admins :: "mem_auth \<Rightarrow> nat" where
  "mem_active_admins s =
     length (filter (\<lambda>u. us_status u = Active \<and> SYSTEM_ADMIN_ROLE_ID \<in> set (us_roles u)) (ma_users s))"

definition put_user :: "ident \<Rightarrow> (user \<Rightarrow> user) \<Rightarrow> mem_auth \<Rightarrow> mem_auth" where
  "put_user u f s = s\<lparr>ma_users := update_where (\<lambda>x. us_uuid x = u) f (ma_users s)\<rparr>"

definition mem_create_user :: "user \<Rightarrow> mem_auth \<Rightarrow> store_error + mem_auth" where
  "mem_create_user u s =
     (if list_ex (\<lambda>x. lower (us_login x) = lower (us_login u)) (ma_users s) then Inl (StoreConflict LoginIdConflict)
      else if \<not> mem_role_ids_ok s (us_roles u) [] then Inl StoreNotFound
      else Inr (s\<lparr>ma_users := dict_put us_uuid u (ma_users s)\<rparr>))"

definition mem_update_user ::
    "ident \<Rightarrow> int \<Rightarrow> string \<Rightarrow> user_status \<Rightarrow> ident list \<Rightarrow> mem_auth \<Rightarrow> store_error + mem_auth" where
  "mem_update_user u v name status rs s =
     (case mem_user s u of
        None \<Rightarrow> Inl StoreNotFound
      | Some x \<Rightarrow>
          if us_version x \<noteq> v then Inl (StoreConflict StateConflict)
          else if \<not> mem_role_ids_ok s rs (us_roles x) then Inl StoreNotFound
          else if us_status x = Active \<and> SYSTEM_ADMIN_ROLE_ID \<in> set (us_roles x)
               \<and> (status \<noteq> Active \<or> SYSTEM_ADMIN_ROLE_ID \<notin> set rs) \<and> mem_active_admins s \<le> 1
          then Inl (StoreConflict StateConflict)
          else Inr (put_user u (\<lambda>x. x\<lparr>us_name := name, us_status := status, us_roles := dedup rs,
                                      us_version := us_version x + 1\<rparr>) s))"

definition mem_set_password :: "ident \<Rightarrow> string \<Rightarrow> bool \<Rightarrow> mem_auth \<Rightarrow> store_error + mem_auth" where
  "mem_set_password u h force s =
     (case mem_user s u of
        None \<Rightarrow> Inl StoreNotFound
      | Some x \<Rightarrow> Inr (put_user u (\<lambda>x. x\<lparr>us_hash := h, us_force := force, us_failed := 0, us_locked := None,
                                         us_version := us_version x + 1\<rparr>) s))"

definition mem_delete_user :: "ident \<Rightarrow> int \<Rightarrow> mem_auth \<Rightarrow> store_error + mem_auth" where
  "mem_delete_user u v s =
     (case mem_user s u of
        None \<Rightarrow> Inl StoreNotFound
      | Some x \<Rightarrow>
          if us_version x \<noteq> v then Inl (StoreConflict StateConflict)
          else if us_status x \<noteq> Disabled then Inl (StoreConflict DeleteRequiresDisabled)
          else if us_bootstrap x then Inl (StoreConflict UserDeleteProtected)
          else Inr (s\<lparr>ma_sessions := filter (\<lambda>y. se_user y \<noteq> u) (ma_sessions s),
                      ma_users := filter (\<lambda>y. us_uuid y \<noteq> u) (ma_users s)\<rparr>))"

definition mem_login_failure :: "ident \<Rightarrow> int \<Rightarrow> rat option \<Rightarrow> mem_auth \<Rightarrow> store_error + mem_auth" where
  "mem_login_failure u n locked s =
     (case mem_user s u of
        None \<Rightarrow> Inl StoreNotFound
      | Some x \<Rightarrow> Inr (put_user u (\<lambda>x. x\<lparr>us_failed := n, us_locked := locked\<rparr>) s))"

definition mem_login_success :: "ident \<Rightarrow> string option \<Rightarrow> mem_auth \<Rightarrow> store_error + mem_auth" where
  "mem_login_success u h s =
     (case mem_user s u of
        None \<Rightarrow> Inl StoreNotFound
      | Some x \<Rightarrow>
          Inr (put_user u (\<lambda>x. x\<lparr>us_failed := 0, us_locked := None,
                 us_hash := (case nonempty_str h of None \<Rightarrow> us_hash x | Some y \<Rightarrow> y)\<rparr>) s))"

definition mem_create_role :: "role \<Rightarrow> mem_auth \<Rightarrow> store_error + mem_auth" where
  "mem_create_role r s =
     (if list_ex (\<lambda>x. ro_code x = ro_code r) (ma_roles s) then Inl (StoreConflict RoleCodeConflict)
      else Inr (s\<lparr>ma_roles := dict_put ro_id r (ma_roles s)\<rparr>))"

definition mem_update_role :: "role \<Rightarrow> int \<Rightarrow> mem_auth \<Rightarrow> store_error + mem_auth" where
  "mem_update_role r v s =
     (case mem_role s (ro_id r) of
        None \<Rightarrow> Inl StoreNotFound
      | Some x \<Rightarrow>
          if ro_version x \<noteq> v then Inl (StoreConflict StateConflict)
          else Inr (s\<lparr>ma_roles := dict_put ro_id (r\<lparr>ro_version := v + 1\<rparr>) (ma_roles s)\<rparr>))"

definition mem_archive_role :: "ident \<Rightarrow> int \<Rightarrow> mem_auth \<Rightarrow> store_error + mem_auth" where
  "mem_archive_role r v s =
     (case mem_role s r of
        None \<Rightarrow> Inl StoreNotFound
      | Some x \<Rightarrow> mem_update_role (x\<lparr>ro_archived := True\<rparr>) v s)"

definition mem_restore_role :: "ident \<Rightarrow> int \<Rightarrow> mem_auth \<Rightarrow> store_error + mem_auth" where
  "mem_restore_role r v s =
     (case mem_role s r of
        None \<Rightarrow> Inl StoreNotFound
      | Some x \<Rightarrow>
          if \<not> ro_archived x then Inl (StoreConflict StateConflict)
          else mem_update_role (x\<lparr>ro_archived := False\<rparr>) v s)"

text \<open>The conditions of a product on deleting a role (\<open>_role_delete_blocker\<close>, \<open>_before_delete_role\<close>) are
  checked here by \<open>blocker\<close>.\<close>

definition mem_delete_role ::
    "(role \<Rightarrow> store_error option) \<Rightarrow> ident \<Rightarrow> int \<Rightarrow> mem_auth \<Rightarrow> store_error + mem_auth" where
  "mem_delete_role blocker r v s =
     (case mem_role s r of
        None \<Rightarrow> Inl StoreNotFound
      | Some x \<Rightarrow>
          if ro_version x \<noteq> v then Inl (StoreConflict StateConflict)
          else if ro_built_in x then Inl (StoreConflict RoleDeleteProtected)
          else if \<not> ro_archived x then Inl (StoreConflict RoleRequiresArchived)
          else if list_ex (\<lambda>u. r \<in> set (us_roles u)) (ma_users s) then Inl (StoreConflict RoleAssigned)
          else case blocker x of
                 Some e \<Rightarrow> Inl e
               | None \<Rightarrow> Inr (s\<lparr>ma_roles := filter (\<lambda>y. ro_id y \<noteq> r) (ma_roles s),
                               ma_permissions := filter (\<lambda>p. fst (snd p) \<noteq> r) (ma_permissions s)\<rparr>))"

definition mem_create_session :: "session \<Rightarrow> mem_auth \<Rightarrow> store_error + mem_auth" where
  "mem_create_session x s = Inr (s\<lparr>ma_sessions := dict_put se_id x (ma_sessions s)\<rparr>)"

definition mem_session :: "mem_auth \<Rightarrow> string \<Rightarrow> session option" where
  "mem_session s t = find (\<lambda>x. se_token x = t) (ma_sessions s)"

definition mem_touch :: "ident \<Rightarrow> rat \<Rightarrow> rat \<Rightarrow> mem_auth \<Rightarrow> mem_auth" where
  "mem_touch i seen idle s =
     s\<lparr>ma_sessions := update_where (\<lambda>x. se_id x = i) (\<lambda>x. x\<lparr>se_seen := seen, se_idle := idle\<rparr>) (ma_sessions s)\<rparr>"

definition mem_revoke :: "rat \<Rightarrow> ident \<Rightarrow> mem_auth \<Rightarrow> mem_auth" where
  "mem_revoke now i s =
     s\<lparr>ma_sessions := update_where (\<lambda>x. se_id x = i) (\<lambda>x. x\<lparr>se_revoked := Some now\<rparr>) (ma_sessions s)\<rparr>"

definition mem_revoke_user :: "rat \<Rightarrow> ident \<Rightarrow> mem_auth \<Rightarrow> mem_auth" where
  "mem_revoke_user now u s =
     s\<lparr>ma_sessions := update_where (\<lambda>x. se_user x = u \<and> se_revoked x = None)
          (\<lambda>x. x\<lparr>se_revoked := Some now\<rparr>) (ma_sessions s)\<rparr>"

definition memory_ops :: "(role \<Rightarrow> store_error option) \<Rightarrow> mem_auth auth_ops" where
  "memory_ops blocker =
     \<lparr>op_user_by_login = mem_user_by_login, op_user = mem_user, op_users = mem_users,
      op_create_user = (\<lambda>_. mem_create_user), op_update_user = mem_update_user, op_delete_user = mem_delete_user,
      op_set_password = mem_set_password, op_login_failure = mem_login_failure,
      op_login_success = mem_login_success, op_roles = mem_roles, op_role = mem_role,
      op_get_roles = mem_get_roles, op_create_role = mem_create_role, op_update_role = mem_update_role,
      op_archive_role = mem_archive_role, op_restore_role = mem_restore_role,
      op_delete_role = mem_delete_role blocker, op_active_admins = mem_active_admins,
      op_create_session = mem_create_session, op_session = mem_session, op_touch = mem_touch,
      op_revoke = mem_revoke, op_revoke_user = mem_revoke_user,
      op_permission_codes = (\<lambda>s. codes_of (ma_permissions s))\<rparr>"

text \<open>The first user of an empty store.\<close>

definition system_admin_role :: role where
  "system_admin_role =
     \<lparr>ro_id = SYSTEM_ADMIN_ROLE_ID, ro_code = SYSTEM_ADMIN_ROLE_CODE, ro_name = SYSTEM_ADMIN_DISPLAY_NAME,
      ro_description = ''built in'', ro_built_in = True, ro_archived = False, ro_version = 1\<rparr>"

definition bootstrap_user :: "ident \<Rightarrow> string \<Rightarrow> string \<Rightarrow> string \<Rightarrow> user" where
  "bootstrap_user uuid login name h =
     \<lparr>us_uuid = uuid, us_login = login, us_name = name, us_hash = h, us_status = Active, us_force = True,
      us_failed = 0, us_locked = None, us_version = 1, us_roles = [SYSTEM_ADMIN_ROLE_ID], us_bootstrap = True\<rparr>"

definition mem_bootstrap :: "ident \<Rightarrow> string \<Rightarrow> string \<Rightarrow> string \<Rightarrow> mem_auth \<Rightarrow> mem_auth \<times> bool" where
  "mem_bootstrap uuid login name h s =
     (let s = (if mem_role s SYSTEM_ADMIN_ROLE_ID \<noteq> None then s
               else s\<lparr>ma_roles := ma_roles s @ [system_admin_role]\<rparr>)
      in if ma_users s \<noteq> [] then (s, False)
         else (s\<lparr>ma_users := [bootstrap_user uuid login name h]\<rparr>, True))"

end
