(* ===== verification/AuthService.thy ===== *)
theory AuthService
  imports AuthStore
begin

text \<open>The service of the shared authentication (\<open>pr_system_settings/auth/service.py\<close>,
  \<open>AuthService\<close>): log-in with the lock of a user, sessions, change of passwords, management of users and
  roles, and the rules against giving away more than one has. It works on any store (\<open>auth_ops\<close>).
  What a product adds (\<open>_role_permissions\<close>, \<open>_role_within_actor\<close>, \<open>_assert_actor_can_restore_role\<close>,
  \<open>_assert_role_deletable\<close>) is a record of functions; the hash of a token, the hash of a password and its
  verification, and the fresh ids and tokens, are arguments. An operation answers an error or its value,
  with the store it leaves behind. The messages are not modelled.\<close>

section \<open>What a service is configured with\<close>

record auth_settings =
  as_absolute_hours :: rat
  as_idle_minutes :: rat
  as_failed_limit :: int
  as_lockout_minutes :: rat
  as_min_length :: nat
  as_max_length :: nat

record product =
  pd_key :: string
  pd_all :: "string set"
  pd_catalog :: "string set"
  pd_permissions :: "role list \<Rightarrow> string set"
  pd_within :: "principal \<Rightarrow> role \<Rightarrow> bool"
  pd_restore :: "principal \<Rightarrow> role \<Rightarrow> api_error option"
  pd_deletable :: "role \<Rightarrow> api_error option"

record crypto =
  cr_token :: "string \<Rightarrow> string"
  cr_hash :: "string \<Rightarrow> string"
  cr_verify :: "string \<Rightarrow> string \<Rightarrow> bool \<times> string option"

record 's auth_service =
  sv_ops :: "'s auth_ops"
  sv_settings :: auth_settings
  sv_product :: product
  sv_crypto :: crypto

text \<open>The fresh values of a new session.\<close>

record new_tokens =
  nt_session :: ident
  nt_token :: string
  nt_csrf :: string

section \<open>Principals\<close>

definition principal_for :: "'s auth_service \<Rightarrow> user \<Rightarrow> session \<Rightarrow> 's \<Rightarrow> principal" where
  "principal_for sv u x s =
     (let active = filter (\<lambda>r. \<not> ro_archived r) (op_get_roles (sv_ops sv) s (us_roles u));
          ordered = sort_key ro_code active
      in \<lparr>pr_user = us_uuid u, pr_login = us_login u, pr_name = us_name u, pr_status = us_status u,
          pr_force = us_force u, pr_codes = map ro_code ordered,
          pr_permissions = pd_permissions (sv_product sv) active, pr_session = se_id x, pr_csrf = se_csrf x,
          pr_change_allowed = True, pr_roles = map ro_id active, pr_role_names = map ro_name ordered\<rparr>)"

definition configured_principal :: "'s auth_service \<Rightarrow> string \<Rightarrow> ident \<Rightarrow> string \<Rightarrow> principal" where
  "configured_principal sv login sid csrf =
     \<lparr>pr_user = CONFIGURED_ADMIN_UUID, pr_login = login, pr_name = SYSTEM_ADMIN_DISPLAY_NAME,
      pr_status = Active, pr_force = False, pr_codes = [SYSTEM_ADMIN_ROLE_CODE],
      pr_permissions = pd_all (sv_product sv), pr_session = sid, pr_csrf = csrf,
      pr_change_allowed = True, pr_roles = [], pr_role_names = [SYSTEM_ADMIN_DISPLAY_NAME]\<rparr>"

definition ADMIN_SESSION_PREFIX :: string where "ADMIN_SESSION_PREFIX = ''configured-system-admin:''"

definition is_configured_admin :: "principal \<Rightarrow> bool" where
  "is_configured_admin p =
     (pr_user p = CONFIGURED_ADMIN_UUID \<and> take (length ADMIN_SESSION_PREFIX) (pr_session p) = ADMIN_SESSION_PREFIX)"

section \<open>Log-in of a user of the store\<close>

definition locked_at :: "rat \<Rightarrow> user \<Rightarrow> bool" where
  "locked_at now u = (case us_locked u of None \<Rightarrow> False | Some t \<Rightarrow> now < t)"

definition new_session :: "'s auth_service \<Rightarrow> rat \<Rightarrow> user \<Rightarrow> new_tokens \<Rightarrow> session" where
  "new_session sv now u nt =
     \<lparr>se_id = nt_session nt, se_user = us_uuid u, se_token = cr_token (sv_crypto sv) (nt_token nt),
      se_csrf = cr_token (sv_crypto sv) (nt_csrf nt), se_idle = now + 60 * as_idle_minutes (sv_settings sv),
      se_absolute = now + 3600 * as_absolute_hours (sv_settings sv), se_seen = now, se_revoked = None\<rparr>"

text \<open>The failure count and the lock a wrong password leaves.\<close>

definition after_failure :: "'s auth_service \<Rightarrow> rat \<Rightarrow> user \<Rightarrow> int \<times> rat option" where
  "after_failure sv now u =
     (if as_failed_limit (sv_settings sv) \<le> us_failed u + 1
      then (0, Some (now + 60 * as_lockout_minutes (sv_settings sv))) else (us_failed u + 1, None))"

definition store_then :: "(store_error + 's) \<Rightarrow> 's \<Rightarrow> ('s \<Rightarrow> (api_error + 'a) \<times> 's) \<Rightarrow> (api_error + 'a) \<times> 's" where
  "store_then r s f = (case r of Inl e \<Rightarrow> (Inl (store_api e), s) | Inr s' \<Rightarrow> f s')"

definition store_raw :: "(store_error + 's) \<Rightarrow> 's \<Rightarrow> ('s \<Rightarrow> (api_error + 'a) \<times> 's) \<Rightarrow> (api_error + 'a) \<times> 's" where
  "store_raw r s f = (case r of Inl e \<Rightarrow> (Inl (StoreRaised e), s) | Inr s' \<Rightarrow> f s')"

definition login_user ::
    "'s auth_service \<Rightarrow> rat \<Rightarrow> string \<Rightarrow> string \<Rightarrow> new_tokens \<Rightarrow> 's \<Rightarrow> (api_error + principal) \<times> 's" where
  "login_user sv now login pw nt s =
     (let ops = sv_ops sv
      in case op_user_by_login ops s (lower login) of
           None \<Rightarrow> (Inl LoginFailed, s)
         | Some u \<Rightarrow>
             if us_status u \<noteq> Active \<or> locked_at now u then (Inl LoginFailed, s)
             else case cr_verify (sv_crypto sv) pw (us_hash u) of
                    (False, h) \<Rightarrow>
                      (case after_failure sv now u of (n, locked) \<Rightarrow>
                         store_raw (op_login_failure ops (us_uuid u) n locked s) s (\<lambda>s. (Inl LoginFailed, s)))
                  | (True, h) \<Rightarrow>
                      store_raw (op_login_success ops (us_uuid u) h s) s (\<lambda>s.
                        store_raw (op_create_session ops (new_session sv now u nt) s) s (\<lambda>s.
                          (Inr (principal_for sv u (new_session sv now u nt) s), s))))"

text \<open>\<open>admin\<close> is the answer of the configured administrator for this password.\<close>

definition authenticate_login ::
    "'s auth_service \<Rightarrow> (string \<Rightarrow> api_error + principal) \<Rightarrow> rat \<Rightarrow> string \<Rightarrow> string \<Rightarrow> new_tokens \<Rightarrow> 's
     \<Rightarrow> (api_error + principal) \<times> 's" where
  "authenticate_login sv admin now login pw nt s =
     (if login = FIXED_ADMIN_LOGIN then (admin pw, s)
      else if lower login = FIXED_ADMIN_LOGIN then (Inl LoginFailed, s)
      else login_user sv now login pw nt s)"

section \<open>Sessions\<close>

definition authenticate_session ::
    "'s auth_service \<Rightarrow> rat \<Rightarrow> string \<Rightarrow> 's \<Rightarrow> (api_error + principal) \<times> 's" where
  "authenticate_session sv now token s =
     (let ops = sv_ops sv
      in if token = '''' then (Inl (api 401), s)
         else case op_session ops s (cr_token (sv_crypto sv) token) of
                None \<Rightarrow> (Inl (api 401), s)
              | Some x \<Rightarrow>
                  if se_revoked x \<noteq> None then (Inl (api 401), s)
                  else if se_idle x \<le> now \<or> se_absolute x \<le> now then (Inl (api 401), op_revoke ops now (se_id x) s)
                  else case op_user ops s (se_user x) of
                         None \<Rightarrow> (Inl (api 401), op_revoke ops now (se_id x) s)
                       | Some u \<Rightarrow>
                           if us_status u \<noteq> Active then (Inl (api 401), op_revoke ops now (se_id x) s)
                           else
                             let idle = min (now + 60 * as_idle_minutes (sv_settings sv)) (se_absolute x);
                                 s = op_touch ops (se_id x) now idle s
                             in (Inr (principal_for sv u (x\<lparr>se_idle := idle\<rparr>) s), s))"

definition verify_csrf :: "'s auth_service \<Rightarrow> principal \<Rightarrow> string \<Rightarrow> string \<Rightarrow> api_error option" where
  "verify_csrf sv p cookie header =
     (if cookie = '''' \<or> header = '''' \<or> cookie \<noteq> header then Some (ApiError 403 CsrfInvalid)
      else if cr_token (sv_crypto sv) header \<noteq> pr_csrf p then Some (ApiError 403 CsrfInvalid)
      else None)"

text \<open>\<open>works\<close>: the store does not fail.\<close>

definition revoke_session_token ::
    "'s auth_service \<Rightarrow> string \<Rightarrow> bool \<Rightarrow> rat \<Rightarrow> string \<Rightarrow> 's \<Rightarrow> 's" where
  "revoke_session_token sv admin_prefix works now token s =
     (if token = '''' \<or> take (length admin_prefix + 1) token = admin_prefix @ ''.'' \<or> \<not> works then s
      else case op_session (sv_ops sv) s (cr_token (sv_crypto sv) token) of
             None \<Rightarrow> s
           | Some x \<Rightarrow> if se_revoked x = None then op_revoke (sv_ops sv) now (se_id x) s else s)"

definition logout :: "'s auth_service \<Rightarrow> rat \<Rightarrow> principal \<Rightarrow> 's \<Rightarrow> 's" where
  "logout sv now p s = (if is_configured_admin p then s else op_revoke (sv_ops sv) now (pr_session p) s)"

definition new_password_error :: "'s auth_service \<Rightarrow> string \<Rightarrow> string \<Rightarrow> api_error option" where
  "new_password_error sv pw login =
     (if validate_password (as_min_length (sv_settings sv)) (as_max_length (sv_settings sv)) login pw \<noteq> []
      then Some (api 400) else None)"

definition change_password ::
    "'s auth_service \<Rightarrow> rat \<Rightarrow> principal \<Rightarrow> string \<Rightarrow> string \<Rightarrow> 's \<Rightarrow> (api_error + principal) \<times> 's" where
  "change_password sv now p current new s =
     (let ops = sv_ops sv
      in case op_user ops s (pr_user p) of
           None \<Rightarrow> (Inl (api 400), s)
         | Some u \<Rightarrow>
             if \<not> fst (cr_verify (sv_crypto sv) current (us_hash u)) then (Inl (api 400), s)
             else case new_password_error sv new (us_login u) of
                    Some e \<Rightarrow> (Inl e, s)
                  | None \<Rightarrow>
                      store_raw (op_set_password ops (us_uuid u) (cr_hash (sv_crypto sv) new) False s) s
                        (\<lambda>s. (Inr p, op_revoke_user ops now (us_uuid u) s)))"

section \<open>What an actor may give away\<close>

definition other_tables :: "'s auth_service \<Rightarrow> string list" where
  "other_tables sv = map snd (filter (\<lambda>kv. fst kv \<noteq> pd_key (sv_product sv)) PERMISSION_TABLES)"

definition cross_allowed :: "'s auth_service \<Rightarrow> principal \<Rightarrow> ident list \<Rightarrow> 's \<Rightarrow> ident list" where
  "cross_allowed sv actor rs s =
     (let codes = op_permission_codes (sv_ops sv) s
      in filter (\<lambda>r. list_all (\<lambda>t. codes t r \<subseteq> (\<Union>a \<in> set (pr_roles actor). codes t a)) (other_tables sv)) rs)"

definition assignable :: "'s auth_service \<Rightarrow> principal \<Rightarrow> role list \<Rightarrow> 's \<Rightarrow> ident list" where
  "assignable sv actor rs s =
     (if is_system_admin actor then map ro_id rs
      else cross_allowed sv actor
             (map ro_id (filter (\<lambda>r. ro_code r \<noteq> SYSTEM_ADMIN_ROLE_CODE \<and> \<not> ro_archived r
                \<and> pd_within (sv_product sv) actor r) rs)) s)"

fun roles_to_assign ::
    "'s auth_service \<Rightarrow> 's \<Rightarrow> ident list \<Rightarrow> ident list \<Rightarrow> api_error + role list" where
  "roles_to_assign sv s existing [] = Inr []"
| "roles_to_assign sv s existing (r # rs) =
     (case op_role (sv_ops sv) s r of
        Some x \<Rightarrow>
          if ro_archived x then
            (if r \<in> set existing then roles_to_assign sv s existing rs else Inl (api 404))
          else (case roles_to_assign sv s existing rs of Inl e \<Rightarrow> Inl e | Inr xs \<Rightarrow> Inr (x # xs))
      | None \<Rightarrow> if r \<in> set existing then roles_to_assign sv s existing rs else Inl (api 404))"

definition assign_error ::
    "'s auth_service \<Rightarrow> principal \<Rightarrow> ident list \<Rightarrow> ident list \<Rightarrow> 's \<Rightarrow> api_error option" where
  "assign_error sv actor rs existing s =
     (case roles_to_assign sv s existing rs of
        Inl e \<Rightarrow> Some e
      | Inr xs \<Rightarrow> if list_all (\<lambda>x. ro_id x \<in> set (assignable sv actor xs s)) xs then None else Some (api 403))"

definition manage_error :: "'s auth_service \<Rightarrow> principal \<Rightarrow> user \<Rightarrow> 's \<Rightarrow> api_error option" where
  "manage_error sv actor u s =
     (if is_system_admin actor then None
      else
        let xs = filter (\<lambda>x. \<not> ro_archived x) (List.map_filter (op_role (sv_ops sv) s) (us_roles u))
        in if list_all (\<lambda>x. ro_id x \<in> set (assignable sv actor xs s)) xs then None else Some (api 403))"

section \<open>Users\<close>

text \<open>The answer to an operation on a user is read from the store afterwards.\<close>

definition read_user :: "'s auth_service \<Rightarrow> ident \<Rightarrow> 's \<Rightarrow> (api_error + user) \<times> 's" where
  "read_user sv u s = (case op_user (sv_ops sv) s u of None \<Rightarrow> (Inl (api 404), s) | Some x \<Rightarrow> (Inr x, s))"

definition new_user :: "'s auth_service \<Rightarrow> ident \<Rightarrow> string \<Rightarrow> string \<Rightarrow> ident list \<Rightarrow> string \<Rightarrow> user" where
  "new_user sv uuid login name rs pw =
     \<lparr>us_uuid = uuid, us_login = login, us_name = strip name, us_hash = cr_hash (sv_crypto sv) pw,
      us_status = Active, us_force = True, us_failed = 0, us_locked = None, us_version = 1, us_roles = rs,
      us_bootstrap = False\<rparr>"

definition create_user ::
    "'s auth_service \<Rightarrow> principal \<Rightarrow> rat \<Rightarrow> ident \<Rightarrow> string \<Rightarrow> string \<Rightarrow> ident list \<Rightarrow> string \<Rightarrow> 's
     \<Rightarrow> (api_error + user) \<times> 's" where
  "create_user sv actor now uuid login name role_ids pw s =
     (let rs = dedup role_ids; login = strip login
      in if SYSTEM_ADMIN_ROLE_ID \<in> set rs then (Inl (api 409), s)
         else case assign_error sv actor rs [] s of
                Some e \<Rightarrow> (Inl e, s)
              | None \<Rightarrow>
                  if lower login = FIXED_ADMIN_LOGIN then (Inl (api 409), s)
                  else case new_password_error sv pw login of
                         Some e \<Rightarrow> (Inl e, s)
                       | None \<Rightarrow>
                           store_then (op_create_user (sv_ops sv) now (new_user sv uuid login name rs pw) s) s
                             (read_user sv uuid))"

definition held_admin :: "'s auth_service \<Rightarrow> 's \<Rightarrow> ident list \<Rightarrow> bool" where
  "held_admin sv s rs =
     list_ex (\<lambda>r. case op_role (sv_ops sv) s r of None \<Rightarrow> False | Some x \<Rightarrow> ro_code x = SYSTEM_ADMIN_ROLE_CODE) rs"

definition update_user ::
    "'s auth_service \<Rightarrow> principal \<Rightarrow> rat \<Rightarrow> ident \<Rightarrow> int \<Rightarrow> string \<Rightarrow> user_status \<Rightarrow> ident list \<Rightarrow> 's
     \<Rightarrow> (api_error + user) \<times> 's" where
  "update_user sv actor now u v name status role_ids s =
     (let ops = sv_ops sv; rs = dedup role_ids
      in case op_user ops s u of
           None \<Rightarrow> (Inl (api 404), s)
         | Some current \<Rightarrow>
             case manage_error sv actor current s of
               Some e \<Rightarrow> (Inl e, s)
             | None \<Rightarrow>
                 if SYSTEM_ADMIN_ROLE_ID \<in> set rs \<and> SYSTEM_ADMIN_ROLE_ID \<notin> set (us_roles current)
                 then (Inl (api 409), s)
                 else case assign_error sv actor rs (us_roles current) s of
                        Some e \<Rightarrow> (Inl e, s)
                      | None \<Rightarrow>
                          if held_admin sv s (us_roles current) \<and> (status \<noteq> Active \<or> \<not> held_admin sv s rs)
                             \<and> op_active_admins ops s \<le> 1
                          then (Inl (api 409), s)
                          else
                            store_then (op_update_user ops u v (strip name) status rs s) s
                              (\<lambda>s. case op_user ops s u of
                                     None \<Rightarrow> (Inl (api 404), s)
                                   | Some x \<Rightarrow> (Inr x, if status \<noteq> Active then op_revoke_user ops now u s else s)))"

definition delete_user ::
    "'s auth_service \<Rightarrow> principal \<Rightarrow> ident \<Rightarrow> int \<Rightarrow> 's \<Rightarrow> (api_error + user) \<times> 's" where
  "delete_user sv actor u v s =
     (case op_user (sv_ops sv) s u of
        None \<Rightarrow> (Inl (api 404), s)
      | Some current \<Rightarrow>
          case manage_error sv actor current s of
            Some e \<Rightarrow> (Inl e, s)
          | None \<Rightarrow>
              if pr_user actor = u then (Inl (ApiError 409 DeleteSelfForbidden), s)
              else if us_bootstrap current then (Inl (ApiError 409 UserDeleteProtected), s)
              else if us_status current \<noteq> Disabled then (Inl (ApiError 409 DeleteRequiresDisabled), s)
              else store_then (op_delete_user (sv_ops sv) u v s) s (\<lambda>s. (Inr current, s)))"

definition reset_password ::
    "'s auth_service \<Rightarrow> principal \<Rightarrow> rat \<Rightarrow> ident \<Rightarrow> string \<Rightarrow> 's \<Rightarrow> (api_error + user) \<times> 's" where
  "reset_password sv actor now u pw s =
     (case op_user (sv_ops sv) s u of
        None \<Rightarrow> (Inl (api 404), s)
      | Some x \<Rightarrow>
          case manage_error sv actor x s of
            Some e \<Rightarrow> (Inl e, s)
          | None \<Rightarrow>
              case new_password_error sv pw (us_login x) of
                Some e \<Rightarrow> (Inl e, s)
              | None \<Rightarrow>
                  store_raw (op_set_password (sv_ops sv) u (cr_hash (sv_crypto sv) pw) True s) s
                    (\<lambda>s. read_user sv u (op_revoke_user (sv_ops sv) now u s)))"

definition unlock_user :: "'s auth_service \<Rightarrow> principal \<Rightarrow> ident \<Rightarrow> 's \<Rightarrow> (api_error + user) \<times> 's" where
  "unlock_user sv actor u s =
     (case op_user (sv_ops sv) s u of
        None \<Rightarrow> (Inl (api 404), s)
      | Some x \<Rightarrow>
          case manage_error sv actor x s of
            Some e \<Rightarrow> (Inl e, s)
          | None \<Rightarrow> store_raw (op_login_success (sv_ops sv) u None s) s (read_user sv u))"

section \<open>Roles\<close>

definition read_role :: "'s auth_service \<Rightarrow> ident \<Rightarrow> 's \<Rightarrow> (api_error + role) \<times> 's" where
  "read_role sv r s = (case op_role (sv_ops sv) s r of None \<Rightarrow> (Inl (api 404), s) | Some x \<Rightarrow> (Inr x, s))"

definition roles_for_actor :: "'s auth_service \<Rightarrow> principal \<Rightarrow> bool \<Rightarrow> 's \<Rightarrow> role list" where
  "roles_for_actor sv actor archived s =
     (if has_any_permission actor (pd_catalog (sv_product sv)) then op_roles (sv_ops sv) s archived
      else
        let rs = op_roles (sv_ops sv) s False
        in filter (\<lambda>r. ro_id r \<in> set (assignable sv actor rs s)) rs)"

definition role_for_actor :: "'s auth_service \<Rightarrow> principal \<Rightarrow> ident \<Rightarrow> 's \<Rightarrow> role option" where
  "role_for_actor sv actor r s =
     (case op_role (sv_ops sv) s r of
        None \<Rightarrow> None
      | Some x \<Rightarrow>
          if has_any_permission actor (pd_catalog (sv_product sv)) \<or> ro_id x \<in> set (assignable sv actor [x] s)
          then Some x else None)"

definition create_role ::
    "'s auth_service \<Rightarrow> ident \<Rightarrow> string \<Rightarrow> string \<Rightarrow> string \<Rightarrow> 's \<Rightarrow> (api_error + role) \<times> 's" where
  "create_role sv r code name description s =
     (let code = upper (strip code)
      in if code = SYSTEM_ADMIN_ROLE_CODE then (Inl (ApiError 409 RoleCodeReserved), s)
         else store_then (op_create_role (sv_ops sv)
                \<lparr>ro_id = r, ro_code = code, ro_name = strip name, ro_description = strip description,
                 ro_built_in = False, ro_archived = False, ro_version = 1\<rparr> s) s (read_role sv r))"

definition editable_role :: "'s auth_service \<Rightarrow> ident \<Rightarrow> 's \<Rightarrow> api_error + role" where
  "editable_role sv r s =
     (case op_role (sv_ops sv) s r of
        None \<Rightarrow> Inl (api 404)
      | Some x \<Rightarrow> if ro_built_in x \<or> ro_archived x then Inl (api 409) else Inr x)"

definition update_role ::
    "'s auth_service \<Rightarrow> ident \<Rightarrow> int \<Rightarrow> string option \<Rightarrow> string option \<Rightarrow> 's \<Rightarrow> (api_error + role) \<times> 's" where
  "update_role sv r v name description s =
     (case editable_role sv r s of
        Inl e \<Rightarrow> (Inl e, s)
      | Inr x \<Rightarrow>
          store_then (op_update_role (sv_ops sv)
            (x\<lparr>ro_name := (case name of None \<Rightarrow> ro_name x | Some n \<Rightarrow> strip n),
               ro_description := (case description of None \<Rightarrow> ro_description x | Some d \<Rightarrow> strip d)\<rparr>) v s) s
            (read_role sv r))"

definition archive_role :: "'s auth_service \<Rightarrow> ident \<Rightarrow> int \<Rightarrow> 's \<Rightarrow> (api_error + role) \<times> 's" where
  "archive_role sv r v s =
     (case op_role (sv_ops sv) s r of
        None \<Rightarrow> (Inl (api 404), s)
      | Some x \<Rightarrow>
          if ro_built_in x then (Inl (api 409), s)
          else store_then (op_archive_role (sv_ops sv) r v s) s (read_role sv r))"

definition restore_role ::
    "'s auth_service \<Rightarrow> principal \<Rightarrow> ident \<Rightarrow> int \<Rightarrow> 's \<Rightarrow> (api_error + role) \<times> 's" where
  "restore_role sv actor r v s =
     (case op_role (sv_ops sv) s r of
        None \<Rightarrow> (Inl (api 404), s)
      | Some x \<Rightarrow>
          if ro_built_in x \<or> \<not> ro_archived x then (Inl (api 409), s)
          else case pd_restore (sv_product sv) actor x of
                 Some e \<Rightarrow> (Inl e, s)
               | None \<Rightarrow>
                   if \<not> is_system_admin actor \<and> ro_id x \<notin> set (cross_allowed sv actor [ro_id x] s)
                   then (Inl (api 403), s)
                   else store_then (op_restore_role (sv_ops sv) r v s) s (read_role sv r))"

definition delete_role :: "'s auth_service \<Rightarrow> ident \<Rightarrow> int \<Rightarrow> 's \<Rightarrow> (api_error + role) \<times> 's" where
  "delete_role sv r v s =
     (case op_role (sv_ops sv) s r of
        None \<Rightarrow> (Inl (api 404), s)
      | Some x \<Rightarrow>
          if ro_built_in x then (Inl (ApiError 409 RoleDeleteProtected), s)
          else if \<not> ro_archived x then (Inl (ApiError 409 RoleRequiresArchived), s)
          else case pd_deletable (sv_product sv) x of
                 Some e \<Rightarrow> (Inl e, s)
               | None \<Rightarrow> store_then (op_delete_role (sv_ops sv) r v s) s (\<lambda>s. (Inr x, s)))"

section \<open>Principals without a browser\<close>

definition worker_session :: "rat \<Rightarrow> ident \<Rightarrow> session" where
  "worker_session now u =
     \<lparr>se_id = ''worker'', se_user = u, se_token = '''', se_csrf = '''', se_idle = now, se_absolute = now,
      se_seen = now, se_revoked = None\<rparr>"

text \<open>\<open>admin\<close>: the login of the configured administrator, or the error of its configuration.\<close>

definition principal_for_worker ::
    "'s auth_service \<Rightarrow> (api_error + string) \<Rightarrow> rat \<Rightarrow> ident \<Rightarrow> 's \<Rightarrow> api_error + principal" where
  "principal_for_worker sv admin now u s =
     (if u = CONFIGURED_ADMIN_UUID then
        (case admin of Inl e \<Rightarrow> Inl e
         | Inr login \<Rightarrow> Inr (configured_principal sv login (ADMIN_SESSION_PREFIX @ ''worker'') ''''))
      else case op_user (sv_ops sv) s u of
             None \<Rightarrow> Inl (api 403)
           | Some x \<Rightarrow>
               if us_status x \<noteq> Active \<or> us_force x then Inl (api 403)
               else Inr (principal_for sv x (worker_session now u) s))"

end
