(* ===== verification/AuthTables.thy ===== *)
theory AuthTables
  imports AuthStore "HOL-Library.Product_Lexorder"
begin

text \<open>The store in the tables of the database (\<open>pr_system_settings/auth/store.py\<close>,
  \<open>OracleAuthStore\<close>): users, their roles, roles and sessions are rows of four tables with the unique
  indexes and foreign keys of \<open>migrations.py\<close>. Each operation is one transaction: an error leaves the
  tables as they were. \<open>StoreFailed\<close> stands for an error of the database the store does not translate.\<close>

record user_row =
  ur_uuid :: ident
  ur_login :: string
  ur_normalized :: string
  ur_name :: string
  ur_hash :: string
  ur_status :: user_status
  ur_force :: bool
  ur_failed :: int
  ur_locked :: "rat option"
  ur_version :: int
  ur_created :: rat

record auth_tables =
  at_users :: "user_row list"
  at_user_roles :: "(ident \<times> ident) list"
  at_roles :: "role list"
  at_sessions :: "session list"
  at_permissions :: "permission_row list"

section \<open>Reading\<close>

definition bootstrap_uuid :: "auth_tables \<Rightarrow> ident option" where
  "bootstrap_uuid t =
     (case sort_key (\<lambda>x. (ur_created x, ur_uuid x)) (at_users t) of [] \<Rightarrow> None | x # _ \<Rightarrow> Some (ur_uuid x))"

definition roles_of_user :: "auth_tables \<Rightarrow> ident \<Rightarrow> ident list" where
  "roles_of_user t u = sort_key id (map snd (filter (\<lambda>x. fst x = u) (at_user_roles t)))"

definition user_record :: "auth_tables \<Rightarrow> user_row \<Rightarrow> user" where
  "user_record t x =
     \<lparr>us_uuid = ur_uuid x, us_login = ur_login x, us_name = ur_name x, us_hash = ur_hash x,
      us_status = ur_status x, us_force = ur_force x, us_failed = ur_failed x, us_locked = ur_locked x,
      us_version = ur_version x, us_roles = roles_of_user t (ur_uuid x),
      us_bootstrap = (bootstrap_uuid t = Some (ur_uuid x))\<rparr>"

definition user_row_of :: "auth_tables \<Rightarrow> ident \<Rightarrow> user_row option" where
  "user_row_of t u = find (\<lambda>x. ur_uuid x = u) (at_users t)"

definition db_user :: "auth_tables \<Rightarrow> ident \<Rightarrow> user option" where
  "db_user t u = map_option (user_record t) (user_row_of t u)"

definition db_user_by_login :: "auth_tables \<Rightarrow> string \<Rightarrow> user option" where
  "db_user_by_login t l = map_option (user_record t) (find (\<lambda>x. ur_normalized x = lower l) (at_users t))"

definition db_users :: "auth_tables \<Rightarrow> user list" where
  "db_users t = map (user_record t) (sort_key ur_normalized (at_users t))"

definition role_base :: "role \<Rightarrow> role" where
  "role_base r = r\<lparr>ro_description := (if ro_description r = ''-'' then '''' else ro_description r)\<rparr>"

definition db_role :: "auth_tables \<Rightarrow> ident \<Rightarrow> role option" where
  "db_role t r = map_option role_base (find (\<lambda>x. ro_id x = r) (at_roles t))"

definition db_roles :: "auth_tables \<Rightarrow> bool \<Rightarrow> role list" where
  "db_roles t archived =
     map role_base (sort_key ro_code (filter (\<lambda>r. archived \<or> \<not> ro_archived r) (at_roles t)))"

definition db_get_roles :: "auth_tables \<Rightarrow> ident list \<Rightarrow> role list" where
  "db_get_roles t rs = List.map_filter (db_role t) (filter (\<lambda>r. r \<noteq> '''') (dedup rs))"

definition db_active_admins :: "auth_tables \<Rightarrow> nat" where
  "db_active_admins t =
     length (filter (\<lambda>(u, p, r). u = fst p \<and> snd p = ro_id r \<and> ro_code r = SYSTEM_ADMIN_ROLE_CODE \<and> \<not> ro_archived r)
       (List.product (map ur_uuid (filter (\<lambda>x. ur_status x = Active) (at_users t)))
          (List.product (at_user_roles t) (at_roles t))))"

text \<open>The count inside the update of a user: it does not read the roles.\<close>

definition active_admin_pairs :: "auth_tables \<Rightarrow> (ident \<times> ident) list" where
  "active_admin_pairs t =
     filter (\<lambda>p. snd p = SYSTEM_ADMIN_ROLE_ID
        \<and> list_ex (\<lambda>x. ur_uuid x = fst p \<and> ur_status x = Active) (at_users t)) (at_user_roles t)"

definition db_role_ids_ok :: "auth_tables \<Rightarrow> ident list \<Rightarrow> ident list \<Rightarrow> bool" where
  "db_role_ids_ok t rs allowed =
     list_all (\<lambda>r. length (filter (\<lambda>x. ro_id x = r \<and> \<not> ro_archived x) (at_roles t)) = 1 \<or> r \<in> set allowed) (dedup rs)"

section \<open>Users\<close>

definition replace_user_roles :: "ident \<Rightarrow> ident list \<Rightarrow> auth_tables \<Rightarrow> auth_tables" where
  "replace_user_roles u rs t =
     t\<lparr>at_user_roles := filter (\<lambda>p. fst p \<noteq> u) (at_user_roles t) @ map (Pair u) (dedup rs)\<rparr>"

definition new_user_row :: "rat \<Rightarrow> user \<Rightarrow> user_row" where
  "new_user_row created u =
     \<lparr>ur_uuid = us_uuid u, ur_login = us_login u, ur_normalized = lower (us_login u), ur_name = us_name u,
      ur_hash = us_hash u, ur_status = us_status u, ur_force = us_force u, ur_failed = 0, ur_locked = None,
      ur_version = 1, ur_created = created\<rparr>"

definition db_create_user :: "rat \<Rightarrow> user \<Rightarrow> auth_tables \<Rightarrow> store_error + auth_tables" where
  "db_create_user created u t =
     (if \<not> db_role_ids_ok t (us_roles u) [] then Inl StoreNotFound
      else if list_ex (\<lambda>x. ur_normalized x = lower (us_login u) \<or> ur_uuid x = us_uuid u) (at_users t)
      then Inl (StoreConflict LoginIdConflict)
      else Inr (replace_user_roles (us_uuid u) (us_roles u) (t\<lparr>at_users := at_users t @ [new_user_row created u]\<rparr>)))"

definition put_row :: "ident \<Rightarrow> (user_row \<Rightarrow> user_row) \<Rightarrow> auth_tables \<Rightarrow> auth_tables" where
  "put_row u f t = t\<lparr>at_users := update_where (\<lambda>x. ur_uuid x = u) f (at_users t)\<rparr>"

definition db_update_user ::
    "ident \<Rightarrow> int \<Rightarrow> string \<Rightarrow> user_status \<Rightarrow> ident list \<Rightarrow> auth_tables \<Rightarrow> store_error + auth_tables" where
  "db_update_user u v name status rs t =
     (case user_row_of t u of
        None \<Rightarrow> Inl StoreNotFound
      | Some x \<Rightarrow>
          let current = roles_of_user t u;
              removes = (SYSTEM_ADMIN_ROLE_ID \<in> set current \<and> (status \<noteq> Active \<or> SYSTEM_ADMIN_ROLE_ID \<notin> set rs))
          in if \<not> db_role_ids_ok t rs current then Inl StoreNotFound
             else if removes \<and> length (active_admin_pairs t) \<le> 1 then Inl (StoreConflict StateConflict)
             else if ur_version x \<noteq> v then Inl (StoreConflict StateConflict)
             else Inr (replace_user_roles u rs
                    (put_row u (\<lambda>x. x\<lparr>ur_name := name, ur_status := status, ur_version := ur_version x + 1\<rparr>) t)))"

definition db_delete_user :: "ident \<Rightarrow> int \<Rightarrow> auth_tables \<Rightarrow> store_error + auth_tables" where
  "db_delete_user u v t =
     (case user_row_of t u of
        None \<Rightarrow> Inl StoreNotFound
      | Some x \<Rightarrow>
          if ur_version x \<noteq> v then Inl (StoreConflict StateConflict)
          else if ur_status x \<noteq> Disabled then Inl (StoreConflict DeleteRequiresDisabled)
          else if bootstrap_uuid t = Some u then Inl (StoreConflict UserDeleteProtected)
          else Inr (t\<lparr>at_sessions := filter (\<lambda>y. se_user y \<noteq> u) (at_sessions t),
                      at_user_roles := filter (\<lambda>p. fst p \<noteq> u) (at_user_roles t),
                      at_users := filter (\<lambda>y. ur_uuid y \<noteq> u) (at_users t)\<rparr>))"

definition db_set_password :: "ident \<Rightarrow> string \<Rightarrow> bool \<Rightarrow> auth_tables \<Rightarrow> store_error + auth_tables" where
  "db_set_password u h force t =
     (if user_row_of t u = None then Inl StoreNotFound
      else Inr (put_row u (\<lambda>x. x\<lparr>ur_hash := h, ur_force := force, ur_failed := 0, ur_locked := None,
                                 ur_version := ur_version x + 1\<rparr>) t))"

definition db_login_failure :: "ident \<Rightarrow> int \<Rightarrow> rat option \<Rightarrow> auth_tables \<Rightarrow> store_error + auth_tables" where
  "db_login_failure u n locked t = Inr (put_row u (\<lambda>x. x\<lparr>ur_failed := n, ur_locked := locked\<rparr>) t)"

definition db_login_success :: "ident \<Rightarrow> string option \<Rightarrow> auth_tables \<Rightarrow> store_error + auth_tables" where
  "db_login_success u h t =
     Inr (put_row u (\<lambda>x. x\<lparr>ur_failed := 0, ur_locked := None,
            ur_hash := (case nonempty_str h of None \<Rightarrow> ur_hash x | Some y \<Rightarrow> y)\<rparr>) t)"

section \<open>Roles\<close>

definition stored_description :: "string \<Rightarrow> string" where
  "stored_description d = (if d = '''' then ''-'' else d)"

definition db_create_role :: "role \<Rightarrow> auth_tables \<Rightarrow> store_error + auth_tables" where
  "db_create_role r t =
     (if list_ex (\<lambda>x. ro_code x = ro_code r \<or> ro_id x = ro_id r) (at_roles t) then Inl (StoreConflict RoleCodeConflict)
      else Inr (t\<lparr>at_roles := at_roles t @
             [r\<lparr>ro_description := stored_description (ro_description r), ro_version := 1\<rparr>]\<rparr>))"

definition role_missing_or_stale :: "auth_tables \<Rightarrow> ident \<Rightarrow> store_error" where
  "role_missing_or_stale t r =
     (if list_ex (\<lambda>x. ro_id x = r) (at_roles t) then StoreConflict StateConflict else StoreNotFound)"

definition put_role :: "(role \<Rightarrow> bool) \<Rightarrow> (role \<Rightarrow> role) \<Rightarrow> ident \<Rightarrow> auth_tables \<Rightarrow> store_error + auth_tables" where
  "put_role P f r t =
     (if \<not> list_ex P (at_roles t) then Inl (role_missing_or_stale t r)
      else Inr (t\<lparr>at_roles := update_where P f (at_roles t)\<rparr>))"

definition db_update_role :: "role \<Rightarrow> int \<Rightarrow> auth_tables \<Rightarrow> store_error + auth_tables" where
  "db_update_role r v t =
     put_role (\<lambda>x. ro_id x = ro_id r \<and> ro_version x = v)
       (\<lambda>x. x\<lparr>ro_name := ro_name r, ro_description := stored_description (ro_description r),
              ro_version := ro_version x + 1\<rparr>) (ro_id r) t"

definition db_archive_role :: "ident \<Rightarrow> int \<Rightarrow> auth_tables \<Rightarrow> store_error + auth_tables" where
  "db_archive_role r v t =
     put_role (\<lambda>x. ro_id x = r \<and> ro_version x = v \<and> \<not> ro_built_in x)
       (\<lambda>x. x\<lparr>ro_archived := True, ro_version := ro_version x + 1\<rparr>) r t"

definition db_restore_role :: "ident \<Rightarrow> int \<Rightarrow> auth_tables \<Rightarrow> store_error + auth_tables" where
  "db_restore_role r v t =
     (case db_role t r of
        None \<Rightarrow> Inl StoreNotFound
      | Some x \<Rightarrow>
          if \<not> ro_archived x then Inl (StoreConflict StateConflict)
          else put_role (\<lambda>x. ro_id x = r \<and> ro_version x = v \<and> \<not> ro_built_in x)
                 (\<lambda>x. x\<lparr>ro_archived := False, ro_version := ro_version x + 1\<rparr>) r t)"

text \<open>\<open>blocker\<close>: the condition of a product, and a table of another product that still refers to the
  role.\<close>

definition db_delete_role ::
    "(role \<Rightarrow> store_error option) \<Rightarrow> ident \<Rightarrow> int \<Rightarrow> auth_tables \<Rightarrow> store_error + auth_tables" where
  "db_delete_role blocker r v t =
     (case find (\<lambda>x. ro_id x = r) (at_roles t) of
        None \<Rightarrow> Inl StoreNotFound
      | Some x \<Rightarrow>
          if ro_version x \<noteq> v then Inl (StoreConflict StateConflict)
          else if ro_built_in x then Inl (StoreConflict RoleDeleteProtected)
          else if \<not> ro_archived x then Inl (StoreConflict RoleRequiresArchived)
          else if list_ex (\<lambda>p. snd p = r) (at_user_roles t) then Inl (StoreConflict RoleAssigned)
          else case blocker x of
                 Some e \<Rightarrow> Inl e
               | None \<Rightarrow> Inr (t\<lparr>at_roles := filter (\<lambda>y. ro_id y \<noteq> r) (at_roles t),
                               at_permissions := filter (\<lambda>p. fst (snd p) \<noteq> r) (at_permissions t)\<rparr>))"

section \<open>Sessions\<close>

definition db_create_session :: "session \<Rightarrow> auth_tables \<Rightarrow> store_error + auth_tables" where
  "db_create_session x t =
     (if list_ex (\<lambda>y. se_id y = se_id x \<or> se_token y = se_token x) (at_sessions t)
         \<or> user_row_of t (se_user x) = None
      then Inl StoreFailed
      else Inr (t\<lparr>at_sessions := at_sessions t @ [x\<lparr>se_revoked := None\<rparr>]\<rparr>))"

definition db_session :: "auth_tables \<Rightarrow> string \<Rightarrow> session option" where
  "db_session t h = find (\<lambda>x. se_token x = h) (at_sessions t)"

definition db_touch :: "ident \<Rightarrow> rat \<Rightarrow> rat \<Rightarrow> auth_tables \<Rightarrow> auth_tables" where
  "db_touch i seen idle t =
     t\<lparr>at_sessions := update_where (\<lambda>x. se_id x = i \<and> se_revoked x = None)
          (\<lambda>x. x\<lparr>se_seen := seen, se_idle := idle\<rparr>) (at_sessions t)\<rparr>"

definition db_revoke :: "rat \<Rightarrow> ident \<Rightarrow> auth_tables \<Rightarrow> auth_tables" where
  "db_revoke now i t =
     t\<lparr>at_sessions := update_where (\<lambda>x. se_id x = i \<and> se_revoked x = None)
          (\<lambda>x. x\<lparr>se_revoked := Some now\<rparr>) (at_sessions t)\<rparr>"

definition db_revoke_user :: "rat \<Rightarrow> ident \<Rightarrow> auth_tables \<Rightarrow> auth_tables" where
  "db_revoke_user now u t =
     t\<lparr>at_sessions := update_where (\<lambda>x. se_user x = u \<and> se_revoked x = None)
          (\<lambda>x. x\<lparr>se_revoked := Some now\<rparr>) (at_sessions t)\<rparr>"

definition table_ops :: "(role \<Rightarrow> store_error option) \<Rightarrow> auth_tables auth_ops" where
  "table_ops blocker =
     \<lparr>op_user_by_login = db_user_by_login, op_user = db_user, op_users = db_users,
      op_create_user = db_create_user, op_update_user = db_update_user, op_delete_user = db_delete_user,
      op_set_password = db_set_password, op_login_failure = db_login_failure,
      op_login_success = db_login_success, op_roles = db_roles, op_role = db_role,
      op_get_roles = db_get_roles, op_create_role = db_create_role, op_update_role = db_update_role,
      op_archive_role = db_archive_role, op_restore_role = db_restore_role,
      op_delete_role = db_delete_role blocker, op_active_admins = db_active_admins,
      op_create_session = db_create_session, op_session = db_session, op_touch = db_touch,
      op_revoke = db_revoke, op_revoke_user = db_revoke_user,
      op_permission_codes = (\<lambda>t. codes_of (at_permissions t))\<rparr>"

definition db_bootstrap :: "rat \<Rightarrow> ident \<Rightarrow> string \<Rightarrow> string \<Rightarrow> string \<Rightarrow> auth_tables \<Rightarrow> auth_tables \<times> bool" where
  "db_bootstrap created uuid login name h t =
     (let none = (at_users t = []);
          t = (if list_ex (\<lambda>x. ro_id x = SYSTEM_ADMIN_ROLE_ID) (at_roles t) then t
               else t\<lparr>at_roles := at_roles t @ [system_admin_role]\<rparr>)
      in if \<not> none then (t, False)
         else (t\<lparr>at_users := [new_user_row created (bootstrap_user uuid login name h)],
                 at_user_roles := at_user_roles t @ [(uuid, SYSTEM_ADMIN_ROLE_ID)]\<rparr>, True))"

end
