(* ===== verification/AuthContract.thy ===== *)
theory AuthContract
  imports AuthTables
begin

text \<open>What the service may rely on of a store (\<open>auth_contract\<close>), in terms of the users and the
  sessions it holds, and the two stores that keep it: the store in memory and the tables of the
  database. Every transaction of a store is a step of \<open>store_step\<close>.\<close>

section \<open>Lists as dictionaries\<close>

lemma find_update_where:
  "(\<And>x. key (f x) = key x) \<Longrightarrow>
   find (\<lambda>x. key x = k) (update_where P f xs) = map_option (\<lambda>x. if P x then f x else x) (find (\<lambda>x. key x = k) xs)"
  by (induction xs) auto

lemma find_filter_key:
  "distinct (map key xs) \<Longrightarrow>
   find (\<lambda>x. key x = k) (filter Q xs) = (case find (\<lambda>x. key x = k) xs of None \<Rightarrow> None | Some x \<Rightarrow> if Q x then Some x else None)"
proof (induction xs)
  case (Cons x xs)
  have none: "find (\<lambda>y. key y = k) xs = None" if "key x = k"
    using Cons.prems that by (simp add: find_None_iff) (metis imageI)
  show ?case
  proof (cases "key x = k")
    case True
    with none[OF True] Cons show ?thesis by auto
  next
    case False
    with Cons show ?thesis by auto
  qed
qed simp

lemma find_append: "find P (xs @ ys) = (case find P xs of None \<Rightarrow> find P ys | Some x \<Rightarrow> Some x)"
  by (induction xs) auto

lemma find_key_mem: "find (\<lambda>x. key x = k) xs = Some x \<Longrightarrow> x \<in> set xs \<and> key x = k"
  by (rule find_Some_mem)

lemma find_key_unique:
  "distinct (map key xs) \<Longrightarrow> x \<in> set xs \<Longrightarrow> find (\<lambda>y. key y = key x) xs = Some x"
  by (induction xs) auto

lemma find_key_None: "find (\<lambda>x. key x = k) xs = None \<longleftrightarrow> k \<notin> key ` set xs"
  by (auto simp: find_None_iff)

lemma find_put_other: "k \<noteq> key x \<Longrightarrow>
  find (\<lambda>y. key y = k) (update_where (\<lambda>y. key y = key x) (\<lambda>_. x) xs) = find (\<lambda>y. key y = k) xs"
  by (induction xs) auto

lemma find_put_same: "list_ex (\<lambda>y. key y = key x) xs \<Longrightarrow>
  find (\<lambda>y. key y = key x) (update_where (\<lambda>y. key y = key x) (\<lambda>_. x) xs) = Some x"
  by (induction xs) auto

lemma find_dict_put: "find (\<lambda>y. key y = k) (dict_put key x xs) = (if k = key x then Some x else find (\<lambda>y. key y = k) xs)"
proof (cases "list_ex (\<lambda>y. key y = key x) xs")
  case True
  then show ?thesis by (simp add: dict_put_def find_put_other find_put_same)
next
  case False
  then have "find (\<lambda>y. key y = key x) xs = None" by (simp add: find_None_iff list_ex_iff)
  then show ?thesis using False by (auto simp: dict_put_def find_append split: option.splits)
qed

lemma set_dict_put: "set (dict_put key x xs) \<subseteq> insert x {y \<in> set xs. key y \<noteq> key x}"
  by (auto simp: dict_put_def list_ex_iff update_where_def split: if_splits)

lemma distinct_dict_put: "distinct (map key xs) \<Longrightarrow> distinct (map key (dict_put key x xs))"
proof -
  assume d: "distinct (map key xs)"
  have "map key (update_where (\<lambda>y. key y = key x) (\<lambda>_. x) xs) = map key xs"
    by (induction xs) auto
  with d show ?thesis by (auto simp: dict_put_def list_ex_iff)
qed

lemma two_keys:
  assumes "distinct (map key xs)" and "2 \<le> length (filter Q xs)"
  shows "\<exists>y\<in>set xs. Q y \<and> key y \<noteq> k"
proof (rule ccontr)
  assume "\<not> ?thesis"
  then have "\<forall>y\<in>set (filter Q xs). key y = k" by auto
  then have "set (map key (filter Q xs)) \<subseteq> {k}" by auto
  moreover have "distinct (map key (filter Q xs))" using assms(1) by (rule distinct_map_filter)
  ultimately have "length (map key (filter Q xs)) \<le> 1"
    by (metis card.empty card_insert_disjoint card_mono distinct_card empty_iff finite.emptyI finite.insertI One_nat_def)
  with assms(2) show False by simp
qed

section \<open>The contract\<close>

definition plain :: "user \<Rightarrow> user" where
  "plain u = u\<lparr>us_bootstrap := False\<rparr>"

definition same_session :: "session \<Rightarrow> session \<Rightarrow> bool" where
  "same_session x y \<longleftrightarrow> se_id y = se_id x \<and> se_token y = se_token x \<and> se_user y = se_user x"

definition active_admin :: "user \<Rightarrow> bool" where
  "active_admin u \<longleftrightarrow> us_status u = Active \<and> SYSTEM_ADMIN_ROLE_ID \<in> set (us_roles u)"

definition upd :: "('k \<Rightarrow> 'v option) \<Rightarrow> 'k \<Rightarrow> ('v \<Rightarrow> 'v) \<Rightarrow> 'k \<Rightarrow> 'v option" where
  "upd m k f = (\<lambda>j. if j = k then map_option f (m j) else m j)"

text \<open>The laws of one store: \<open>us\<close> and \<open>ss\<close> are its users and sessions by id.\<close>

locale auth_contract =
  fixes ops :: "'s auth_ops"
    and us :: "'s \<Rightarrow> ident \<Rightarrow> user option"
    and ss :: "'s \<Rightarrow> ident \<Rightarrow> session option"
    and inv :: "'s \<Rightarrow> bool"
  assumes user_read: "inv s \<Longrightarrow> map_option plain (op_user ops s u) = us s u"
    and user_id: "inv s \<Longrightarrow> op_user ops s u = Some x \<Longrightarrow> us_uuid x = u"
    and session_read: "inv s \<Longrightarrow> op_session ops s t = Some x' \<longleftrightarrow> ss s (se_id x') = Some x' \<and> se_token x' = t"
    and create_user_law:
      "inv s \<Longrightarrow> us s (us_uuid x) = None \<Longrightarrow> op_create_user ops created x s = Inr s' \<Longrightarrow>
       inv s' \<and> ss s' = ss s \<and>
       (\<exists>y. us s' = (us s)(us_uuid x \<mapsto> y) \<and> us_uuid y = us_uuid x \<and> us_status y = us_status x
            \<and> us_hash y = us_hash x \<and> set (us_roles y) = set (us_roles x))"
    and update_user_law:
      "inv s \<Longrightarrow> op_update_user ops u v n st rs s = Inr s' \<Longrightarrow>
       inv s' \<and> ss s' = ss s \<and>
       (\<exists>x rs'. us s u = Some x \<and> us_version x = v \<and> set rs' = set rs \<and>
          us s' = (us s)(u \<mapsto> x\<lparr>us_name := n, us_status := st, us_roles := rs', us_version := v + 1\<rparr>))"
    and update_user_admin:
      "inv s \<Longrightarrow> op_update_user ops u v n st rs s = Inr s' \<Longrightarrow> us s u = Some x \<Longrightarrow> active_admin x \<Longrightarrow>
       st \<noteq> Active \<or> SYSTEM_ADMIN_ROLE_ID \<notin> set rs \<Longrightarrow> \<exists>w y. w \<noteq> u \<and> us s w = Some y \<and> active_admin y"
    and delete_user_law:
      "inv s \<Longrightarrow> op_delete_user ops u v s = Inr s' \<Longrightarrow>
       inv s' \<and> us s' = (us s)(u := None) \<and>
       ss s' = (\<lambda>i. case ss s i of None \<Rightarrow> None | Some y \<Rightarrow> if se_user y = u then None else Some y) \<and>
       (\<exists>x. us s u = Some x \<and> us_version x = v \<and> us_status x = Disabled)"
    and set_password_law:
      "inv s \<Longrightarrow> op_set_password ops u h f s = Inr s' \<Longrightarrow>
       inv s' \<and> ss s' = ss s \<and> us s u \<noteq> None \<and>
       us s' = upd (us s) u (\<lambda>x. x\<lparr>us_hash := h, us_force := f, us_failed := 0, us_locked := None,
                                  us_version := us_version x + 1\<rparr>)"
    and login_failure_law:
      "inv s \<Longrightarrow> op_login_failure ops u k l s = Inr s' \<Longrightarrow>
       inv s' \<and> ss s' = ss s \<and> us s' = upd (us s) u (\<lambda>x. x\<lparr>us_failed := k, us_locked := l\<rparr>)"
    and login_success_law:
      "inv s \<Longrightarrow> op_login_success ops u h' s = Inr s' \<Longrightarrow>
       inv s' \<and> ss s' = ss s \<and>
       us s' = upd (us s) u (\<lambda>x. x\<lparr>us_failed := 0, us_locked := None,
                 us_hash := (case nonempty_str h' of None \<Rightarrow> us_hash x | Some y \<Rightarrow> y)\<rparr>)"
    and role_laws:
      "inv s \<Longrightarrow> op_create_role ops r s = Inr s' \<Longrightarrow> inv s' \<and> ss s' = ss s \<and> us s' = us s"
      "inv s \<Longrightarrow> op_update_role ops r v s = Inr s' \<Longrightarrow> inv s' \<and> ss s' = ss s \<and> us s' = us s"
      "inv s \<Longrightarrow> op_archive_role ops i v s = Inr s' \<Longrightarrow> inv s' \<and> ss s' = ss s \<and> us s' = us s"
      "inv s \<Longrightarrow> op_restore_role ops i v s = Inr s' \<Longrightarrow> inv s' \<and> ss s' = ss s \<and> us s' = us s"
      "inv s \<Longrightarrow> op_delete_role ops i v s = Inr s' \<Longrightarrow> inv s' \<and> ss s' = ss s \<and> us s' = us s"
    and create_session_law:
      "inv s \<Longrightarrow> op_session ops s (se_token x') = None \<Longrightarrow> se_revoked x' = None \<Longrightarrow>
       op_create_session ops x' s = Inr s' \<Longrightarrow> inv s' \<and> us s' = us s \<and> ss s' = (ss s)(se_id x' \<mapsto> x')"
    and touch_law:
      "inv s \<Longrightarrow> inv (op_touch ops i seen idle s) \<and> us (op_touch ops i seen idle s) = us s \<and>
       (\<exists>g. ss (op_touch ops i seen idle s) = upd (ss s) i g \<and>
          (\<forall>x. same_session x (g x) \<and> se_revoked (g x) = se_revoked x
             \<and> (se_revoked x = None \<longrightarrow> g x = x\<lparr>se_seen := seen, se_idle := idle\<rparr>)))"
    and revoke_law:
      "inv s \<Longrightarrow> inv (op_revoke ops now i s) \<and> us (op_revoke ops now i s) = us s \<and>
       (\<exists>g. ss (op_revoke ops now i s) = upd (ss s) i g \<and> (\<forall>x. same_session x (g x) \<and> se_revoked (g x) \<noteq> None))"
    and revoke_user_law:
      "inv s \<Longrightarrow> inv (op_revoke_user ops now u s) \<and> us (op_revoke_user ops now u s) = us s \<and>
       ss (op_revoke_user ops now u s) = (\<lambda>j. map_option
         (\<lambda>x. if se_user x = u \<and> se_revoked x = None then x\<lparr>se_revoked := Some now\<rparr> else x) (ss s j))"

section \<open>Every transaction\<close>

text \<open>Any transaction of a store, at any moment, by any process; \<open>P\<close> restricts the sessions created. A
  new user has a fresh id, a new session a fresh token.\<close>

inductive store_step :: "'s auth_ops \<Rightarrow> (session \<Rightarrow> bool) \<Rightarrow> 's \<Rightarrow> 's \<Rightarrow> bool" for ops P where
  CreateUser: "op_user ops s (us_uuid x) = None \<Longrightarrow> op_create_user ops created x s = Inr s' \<Longrightarrow> store_step ops P s s'"
| UpdateUser: "op_update_user ops u v n st rs s = Inr s' \<Longrightarrow> store_step ops P s s'"
| DeleteUser: "op_delete_user ops u v s = Inr s' \<Longrightarrow> store_step ops P s s'"
| SetPassword: "op_set_password ops u h f s = Inr s' \<Longrightarrow> store_step ops P s s'"
| LoginFailure: "op_login_failure ops u k l s = Inr s' \<Longrightarrow> store_step ops P s s'"
| LoginSuccess: "op_login_success ops u h' s = Inr s' \<Longrightarrow> store_step ops P s s'"
| CreateRole: "op_create_role ops r s = Inr s' \<Longrightarrow> store_step ops P s s'"
| UpdateRole: "op_update_role ops r v s = Inr s' \<Longrightarrow> store_step ops P s s'"
| ArchiveRole: "op_archive_role ops i v s = Inr s' \<Longrightarrow> store_step ops P s s'"
| RestoreRole: "op_restore_role ops i v s = Inr s' \<Longrightarrow> store_step ops P s s'"
| DeleteRole: "op_delete_role ops i v s = Inr s' \<Longrightarrow> store_step ops P s s'"
| CreateSession: "P x' \<Longrightarrow> op_session ops s (se_token x') = None \<Longrightarrow> se_revoked x' = None \<Longrightarrow>
     op_create_session ops x' s = Inr s' \<Longrightarrow> store_step ops P s s'"
| Touch: "store_step ops P s (op_touch ops i seen idle s)"
| Revoke: "store_step ops P s (op_revoke ops now i s)"
| RevokeUser: "store_step ops P s (op_revoke_user ops now u s)"

text \<open>What is true of the session of a token, when there is one; a dead token is one no session accepts
  any more.\<close>

definition token_sat :: "'s auth_ops \<Rightarrow> (session \<Rightarrow> bool) \<Rightarrow> string \<Rightarrow> 's \<Rightarrow> bool" where
  "token_sat ops Q t s = (case op_session ops s t of None \<Rightarrow> True | Some x \<Rightarrow> Q x)"

abbreviation dead_token :: "'s auth_ops \<Rightarrow> string \<Rightarrow> 's \<Rightarrow> bool" where
  "dead_token ops \<equiv> token_sat ops (\<lambda>x. se_revoked x \<noteq> None)"

text \<open>How a session may change: a revoked one stays revoked, and the absolute limit never moves.\<close>

definition session_grows :: "session \<Rightarrow> session \<Rightarrow> bool" where
  "session_grows x y \<longleftrightarrow> same_session x y
     \<and> (se_revoked y = None \<longrightarrow> se_revoked x = None \<and> se_absolute y = se_absolute x)"

lemma session_grows_refl [simp]: "session_grows x x"
  by (simp add: session_grows_def same_session_def)

lemma session_grows_revoke [simp]: "session_grows x (x\<lparr>se_revoked := Some now\<rparr>)"
  by (simp add: session_grows_def same_session_def)

definition kept_by_growth :: "(session \<Rightarrow> bool) \<Rightarrow> bool" where
  "kept_by_growth Q \<longleftrightarrow> (\<forall>x y. session_grows x y \<longrightarrow> Q x \<longrightarrow> Q y)"

lemma kept_by_growthD: "kept_by_growth Q \<Longrightarrow> session_grows x y \<Longrightarrow> Q x \<Longrightarrow> Q y"
  unfolding kept_by_growth_def by blast

lemma kept_dead: "kept_by_growth (\<lambda>x. se_revoked x \<noteq> None)"
  by (auto simp: kept_by_growth_def session_grows_def)

lemma kept_limit:
  "kept_by_growth (\<lambda>x. se_revoked x \<noteq> None \<or> se_absolute x = a \<and> se_user x = u \<and> se_id x = i)"
  by (auto simp: kept_by_growth_def session_grows_def same_session_def)

context auth_contract
begin

lemma token_sat_iff:
  assumes "inv s"
  shows "token_sat ops Q t s \<longleftrightarrow> (\<forall>x. ss s (se_id x) = Some x \<and> se_token x = t \<longrightarrow> Q x)"
proof (cases "op_session ops s t")
  case None
  then show ?thesis using session_read[OF assms, of t] by (simp add: token_sat_def) blast
next
  case (Some x)
  then have "op_session ops s t = Some y \<longleftrightarrow> y = x" for y by auto
  then have "ss s (se_id y) = Some y \<and> se_token y = t \<longleftrightarrow> y = x" for y
    using session_read[OF assms, of t y] by simp
  then show ?thesis using Some by (simp add: token_sat_def)
qed

lemmas dead_iff = token_sat_iff[of _ "\<lambda>x. se_revoked x \<noteq> None"]

lemma step_effect:
  assumes "store_step ops P s s'" and "inv s"
  shows "inv s' \<and> (ss s' = ss s
    \<or> (\<exists>x. P x \<and> op_session ops s (se_token x) = None \<and> ss s' = (ss s)(se_id x \<mapsto> x))
    \<or> (\<exists>i g. ss s' = upd (ss s) i g \<and> (\<forall>x. session_grows x (g x)))
    \<or> (\<exists>u. ss s' = (\<lambda>i. case ss s i of None \<Rightarrow> None | Some y \<Rightarrow> if se_user y = u then None else Some y))
    \<or> (\<exists>u now. ss s' = (\<lambda>j. map_option
         (\<lambda>x. if se_user x = u \<and> se_revoked x = None then x\<lparr>se_revoked := Some now\<rparr> else x) (ss s j))))"
  using assms
proof (induction rule: store_step.induct)
  case (CreateUser s x created s')
  then have "us s (us_uuid x) = None" using user_read[OF CreateUser.prems, of "us_uuid x"] by simp
  from create_user_law[OF CreateUser.prems this CreateUser.hyps(2)] show ?case by simp
next
  case (UpdateUser u v n st rs s s')
  from update_user_law[OF UpdateUser.prems UpdateUser.hyps] show ?case by simp
next
  case (DeleteUser u v s s')
  from delete_user_law[OF DeleteUser.prems DeleteUser.hyps]
  have "inv s' \<and> ss s' = (\<lambda>i. case ss s i of None \<Rightarrow> None | Some y \<Rightarrow> if se_user y = u then None else Some y)" by simp
  then show ?case by blast
next
  case (SetPassword u h f s s')
  from set_password_law[OF SetPassword.prems SetPassword.hyps] show ?case by simp
next
  case (LoginFailure u k l s s')
  from login_failure_law[OF LoginFailure.prems LoginFailure.hyps] show ?case by simp
next
  case (LoginSuccess u h' s s')
  from login_success_law[OF LoginSuccess.prems LoginSuccess.hyps] show ?case by simp
next
  case (CreateRole r s s')
  from role_laws(1)[OF CreateRole.prems CreateRole.hyps] show ?case by simp
next
  case (UpdateRole r v s s')
  from role_laws(2)[OF UpdateRole.prems UpdateRole.hyps] show ?case by simp
next
  case (ArchiveRole i v s s')
  from role_laws(3)[OF ArchiveRole.prems ArchiveRole.hyps] show ?case by simp
next
  case (RestoreRole i v s s')
  from role_laws(4)[OF RestoreRole.prems RestoreRole.hyps] show ?case by simp
next
  case (DeleteRole i v s s')
  from role_laws(5)[OF DeleteRole.prems DeleteRole.hyps] show ?case by simp
next
  case (CreateSession x' s s')
  from create_session_law[OF CreateSession.prems CreateSession.hyps(2,3,4)] CreateSession.hyps(1,2)
  show ?case by blast
next
  case (Touch s i seen idle)
  from touch_law[OF Touch.prems, of i seen idle] obtain g where
    g: "inv (op_touch ops i seen idle s)" "ss (op_touch ops i seen idle s) = upd (ss s) i g"
    "\<And>x. same_session x (g x) \<and> se_revoked (g x) = se_revoked x"
    "\<And>x. se_revoked x = None \<Longrightarrow> g x = x\<lparr>se_seen := seen, se_idle := idle\<rparr>" by blast
  have "session_grows x (g x)" for x using g(3,4)[of x] by (cases "se_revoked x") (simp_all add: session_grows_def)
  with g(1,2) show ?case by blast
next
  case (Revoke s now i)
  from revoke_law[OF Revoke.prems, of now i] obtain g where
    g: "inv (op_revoke ops now i s)" "ss (op_revoke ops now i s) = upd (ss s) i g"
    "\<And>x. same_session x (g x) \<and> se_revoked (g x) \<noteq> None" by blast
  have "session_grows x (g x)" for x using g(3)[of x] by (auto simp: session_grows_def)
  with g(1,2) show ?case by blast
next
  case (RevokeUser s now u)
  from revoke_user_law[OF RevokeUser.prems, of now u] show ?case by blast
qed

lemma step_inv: "store_step ops P s s' \<Longrightarrow> inv s \<Longrightarrow> inv s'"
  using step_effect by blast

text \<open>What growth keeps of the session of a token stays true, whatever happens, as long as no session is
  created for the token. So a dead token stays dead.\<close>

lemma step_token:
  assumes step: "store_step ops (\<lambda>x. se_token x \<noteq> t) s s'" and inv: "inv s" and sat: "token_sat ops Q t s"
    and kept: "kept_by_growth Q"
  shows "token_sat ops Q t s'"
proof -
  have inv': "inv s'" using step_inv[OF step inv] .
  have old: "Q y" if "ss s (se_id y) = Some y" "se_token y = t" for y
    using sat token_sat_iff[OF inv] that by blast
  have grown: "Q x" if "ss s (se_id x) = Some y" "session_grows y x" "se_token x = t" for x y
  proof -
    have "se_id y = se_id x" "se_token y = t" using that(2,3) by (simp_all add: session_grows_def same_session_def)
    then show ?thesis using old[of y] kept_by_growthD[OF kept that(2)] that(1) by simp
  qed
  have "Q x" if x: "ss s' (se_id x) = Some x" "se_token x = t" for x
  proof -
    from conjunct2[OF step_effect[OF step inv]] consider "ss s' = ss s"
      | y where "se_token y \<noteq> t" "ss s' = (ss s)(se_id y \<mapsto> y)"
      | i g where "ss s' = upd (ss s) i g" "\<And>x. session_grows x (g x)"
      | u where "ss s' = (\<lambda>i. case ss s i of None \<Rightarrow> None | Some y \<Rightarrow> if se_user y = u then None else Some y)"
      | u now where "ss s' = (\<lambda>j. map_option
          (\<lambda>x. if se_user x = u \<and> se_revoked x = None then x\<lparr>se_revoked := Some now\<rparr> else x) (ss s j))"
      by blast
    then show ?thesis
    proof cases
      case 1
      then show ?thesis using old x by simp
    next
      case 2
      show ?thesis
      proof (cases "se_id x = se_id y")
        case True
        have "ss s' (se_id x) = Some y" unfolding 2(2) True by (rule fun_upd_same)
        with x(1) have "y = x" by (simp only: option.inject)
        then show ?thesis using 2(1) x(2) by simp
      next
        case False
        have "ss s' (se_id x) = ss s (se_id x)" unfolding 2(2) by (rule fun_upd_other[OF False])
        with x(1) have "ss s (se_id x) = Some x" by (simp only:)
        then show ?thesis by (rule old[OF _ x(2)])
      qed
    next
      case 3
      obtain y where y: "ss s (se_id x) = Some y" and two: "x = g y \<or> x = y"
        using x(1) 3(1) by (auto simp: upd_def split: if_splits)
      from two have "session_grows y x" using 3(2)[of y] by (elim disjE) simp_all
      from grown[OF y this x(2)] show ?thesis .
    next
      case 4
      then show ?thesis using old x by (auto split: option.splits if_splits)
    next
      case 5
      then obtain y where y: "ss s (se_id x) = Some y"
          "x = (if se_user y = u \<and> se_revoked y = None then y\<lparr>se_revoked := Some now\<rparr> else y)"
        using x(1) by auto
      have two: "x = y \<or> x = y\<lparr>se_revoked := Some now\<rparr>" by (metis y(2))
      from two have "session_grows y x" by (elim disjE) simp_all
      from grown[OF y(1) this x(2)] show ?thesis .
    qed
  qed
  then show ?thesis using token_sat_iff[OF inv'] by blast
qed

lemma steps_token:
  assumes "(store_step ops (\<lambda>x. se_token x \<noteq> t))\<^sup>*\<^sup>* s s'" and "inv s" and "token_sat ops Q t s"
    and "kept_by_growth Q"
  shows "inv s' \<and> token_sat ops Q t s'"
  using assms(1,2,3)
proof (induction rule: rtranclp_induct)
  case (step y z)
  then show ?case using step_inv step_token[OF step.hyps(2) _ _ assms(4)] by blast
qed simp

lemmas steps_dead = steps_token[OF _ _ _ kept_dead]

text \<open>Once there is an active administrator in the store there always is one.\<close>

lemma step_users:
  assumes "store_step ops P s s'" and "inv s"
  shows "us s' = us s
    \<or> (\<exists>u z. us s u = None \<and> us s' = (us s)(u \<mapsto> z))
    \<or> (\<exists>u f. us s' = upd (us s) u f \<and> (\<forall>x. us_status (f x) = us_status x \<and> us_roles (f x) = us_roles x))
    \<or> (\<exists>u x y. us s u = Some x \<and> us s' = (us s)(u \<mapsto> y) \<and>
         (active_admin x \<longrightarrow> active_admin y \<or> (\<exists>w z. w \<noteq> u \<and> us s w = Some z \<and> active_admin z)))
    \<or> (\<exists>u x. us s u = Some x \<and> us_status x = Disabled \<and> us s' = (us s)(u := None))"
  using assms
proof (induction rule: store_step.induct)
  case (CreateUser s x created s')
  then have none: "us s (us_uuid x) = None" using user_read[OF CreateUser.prems, of "us_uuid x"] by simp
  with create_user_law[OF CreateUser.prems this CreateUser.hyps(2)] show ?case by blast
next
  case (UpdateUser u v n st rs s s')
  obtain x rs' where x: "us s u = Some x" "set rs' = set rs"
      "us s' = (us s)(u \<mapsto> x\<lparr>us_name := n, us_status := st, us_roles := rs', us_version := v + 1\<rparr>)"
    using update_user_law[OF UpdateUser.prems UpdateUser.hyps] by blast
  have "active_admin (x\<lparr>us_name := n, us_status := st, us_roles := rs', us_version := v + 1\<rparr>)
      \<or> (\<exists>w z. w \<noteq> u \<and> us s w = Some z \<and> active_admin z)" if "active_admin x"
    using update_user_admin[OF UpdateUser.prems UpdateUser.hyps x(1) that] x(2) by (auto simp: active_admin_def)
  with x show ?case by blast
next
  case (DeleteUser u v s s')
  from delete_user_law[OF DeleteUser.prems DeleteUser.hyps] show ?case by blast
next
  case (SetPassword u h f s s')
  have "us s' = upd (us s) u (\<lambda>x. x\<lparr>us_hash := h, us_force := f, us_failed := 0, us_locked := None,
      us_version := us_version x + 1\<rparr>)" using set_password_law[OF SetPassword.prems SetPassword.hyps] by blast
  then show ?case by (intro disjI2 disjI1 exI conjI) (assumption, simp)
next
  case (LoginFailure u k l s s')
  have "us s' = upd (us s) u (\<lambda>x. x\<lparr>us_failed := k, us_locked := l\<rparr>)"
    using login_failure_law[OF LoginFailure.prems LoginFailure.hyps] by blast
  then show ?case by (intro disjI2 disjI1 exI conjI) (assumption, simp)
next
  case (LoginSuccess u h' s s')
  have "us s' = upd (us s) u (\<lambda>x. x\<lparr>us_failed := 0, us_locked := None,
      us_hash := (case nonempty_str h' of None \<Rightarrow> us_hash x | Some y \<Rightarrow> y)\<rparr>)"
    using login_success_law[OF LoginSuccess.prems LoginSuccess.hyps] by blast
  then show ?case by (intro disjI2 disjI1 exI conjI) (assumption, simp)
next
  case (CreateRole r s s')
  from role_laws(1)[OF CreateRole.prems CreateRole.hyps] show ?case by simp
next
  case (UpdateRole r v s s')
  from role_laws(2)[OF UpdateRole.prems UpdateRole.hyps] show ?case by simp
next
  case (ArchiveRole i v s s')
  from role_laws(3)[OF ArchiveRole.prems ArchiveRole.hyps] show ?case by simp
next
  case (RestoreRole i v s s')
  from role_laws(4)[OF RestoreRole.prems RestoreRole.hyps] show ?case by simp
next
  case (DeleteRole i v s s')
  from role_laws(5)[OF DeleteRole.prems DeleteRole.hyps] show ?case by simp
next
  case (CreateSession x' s s')
  from create_session_law[OF CreateSession.prems CreateSession.hyps(2,3,4)] show ?case by simp
next
  case (Touch s i seen idle)
  from touch_law[OF Touch.prems, of i seen idle] show ?case by simp
next
  case (Revoke s now i)
  from revoke_law[OF Revoke.prems, of now i] show ?case by simp
next
  case (RevokeUser s now u)
  from revoke_user_law[OF RevokeUser.prems, of now u] show ?case by simp
qed

lemma step_admin:
  assumes step: "store_step ops P s s'" and inv: "inv s" and adm: "\<exists>w y. us s w = Some y \<and> active_admin y"
  shows "\<exists>w y. us s' w = Some y \<and> active_admin y"
proof -
  obtain w y where wy: "us s w = Some y" "active_admin y" using adm by blast
  from step_users[OF step inv] consider "us s' = us s"
    | u z where "us s u = None" "us s' = (us s)(u \<mapsto> z)"
    | u f where "us s' = upd (us s) u f" "\<And>x. us_status (f x) = us_status x \<and> us_roles (f x) = us_roles x"
    | u x z where "us s u = Some x" "us s' = (us s)(u \<mapsto> z)"
        "active_admin x \<longrightarrow> active_admin z \<or> (\<exists>w z. w \<noteq> u \<and> us s w = Some z \<and> active_admin z)"
    | u x where "us s u = Some x" "us_status x = Disabled" "us s' = (us s)(u := None)"
    by blast
  then show ?thesis
  proof cases
    case 1
    with wy show ?thesis by metis
  next
    case 2
    then have "us s' w = Some y" using wy by auto
    with wy show ?thesis by blast
  next
    case 3
    then have "us s' w = Some (if w = u then f y else y)" using wy by (cases "w = u") (simp_all add: upd_def)
    moreover have "active_admin (if w = u then f y else y)" using 3(2) wy by (simp add: active_admin_def)
    ultimately show ?thesis by blast
  next
    case 4
    show ?thesis
    proof (cases "w = u \<and> \<not> active_admin z")
      case True
      then obtain w' z' where "w' \<noteq> u" "us s w' = Some z'" "active_admin z'" using 4 wy by auto
      then have "us s' w' = Some z'" using 4 by simp
      with \<open>active_admin z'\<close> show ?thesis by blast
    next
      case False
      then have "us s' w = Some (if w = u then z else y) \<and> active_admin (if w = u then z else y)"
        using 4 wy by auto
      then show ?thesis by blast
    qed
  next
    case 5
    then have "w \<noteq> u" using wy by (auto simp: active_admin_def)
    then have "us s' w = Some y" using 5 wy by simp
    with wy show ?thesis by blast
  qed
qed

lemma steps_admin:
  assumes "(store_step ops P)\<^sup>*\<^sup>* s s'" and "inv s" and "\<exists>w y. us s w = Some y \<and> active_admin y"
  shows "inv s' \<and> (\<exists>w y. us s' w = Some y \<and> active_admin y)"
  using assms
proof (induction rule: rtranclp_induct)
  case (step y z)
  then show ?case using step_inv step_admin by metis
qed simp

end

end
