(* ===== verification/AuthStores.thy ===== *)
theory AuthStores
  imports AuthContract
begin

text \<open>Both stores keep the contract: the store in memory and the tables.\<close>

section \<open>The store in memory\<close>

definition mem_us :: "mem_auth \<Rightarrow> ident \<Rightarrow> user option" where
  "mem_us s u = map_option plain (mem_user s u)"

definition mem_ss :: "mem_auth \<Rightarrow> ident \<Rightarrow> session option" where
  "mem_ss s i = find (\<lambda>x. se_id x = i) (ma_sessions s)"

definition mem_inv :: "mem_auth \<Rightarrow> bool" where
  "mem_inv s \<longleftrightarrow> distinct (map us_uuid (ma_users s)) \<and> distinct (map se_id (ma_sessions s))
     \<and> distinct (map se_token (ma_sessions s))"

lemma find_session:
  assumes "distinct (map se_id xs)" and "distinct (map se_token xs)"
  shows "find (\<lambda>y. se_token y = t) xs = Some x \<longleftrightarrow> find (\<lambda>y. se_id y = se_id x) xs = Some x \<and> se_token x = t"
  using find_key_mem[of se_token t xs x] find_key_mem[of se_id "se_id x" xs x]
    find_key_unique[OF assms(1), of x] find_key_unique[OF assms(2), of x] by auto

lemma mem_put_user:
  assumes "\<And>x. us_uuid (f x) = us_uuid x" and "\<And>x. plain (f x) = g (plain x)"
  shows "mem_us (put_user u f s) = upd (mem_us s) u g" and "mem_inv (put_user u f s) = mem_inv s"
    and "mem_ss (put_user u f s) = mem_ss s"
proof -
  have "mem_user (put_user u f s) w = map_option (\<lambda>x. if us_uuid x = u then f x else x) (mem_user s w)" for w
    unfolding mem_user_def put_user_def by (simp add: find_update_where[where key = us_uuid] assms(1))
  moreover have "us_uuid x = w" if "mem_user s w = Some x" for w x
    using that find_key_mem[of us_uuid] unfolding mem_user_def by blast
  ultimately show "mem_us (put_user u f s) = upd (mem_us s) u g"
    by (auto simp: mem_us_def upd_def fun_eq_iff assms(2) option.map_comp split: option.splits
        intro!: option.map_cong0)
qed (simp_all add: mem_inv_def mem_ss_def put_user_def map_update_where assms(1) fun_eq_iff)

lemma mem_admin_kept:
  assumes inv: "mem_inv s" and ok: "mem_update_user u v n st rs s = Inr s'" and x: "mem_us s u = Some x"
    and adm: "active_admin x" and rem: "st \<noteq> Active \<or> SYSTEM_ADMIN_ROLE_ID \<notin> set rs"
  shows "\<exists>w y. w \<noteq> u \<and> mem_us s w = Some y \<and> active_admin y"
proof -
  obtain x0 where x0: "mem_user s u = Some x0" "x = plain x0" using x by (auto simp: mem_us_def)
  have a0: "us_status x0 = Active" "SYSTEM_ADMIN_ROLE_ID \<in> set (us_roles x0)"
    using adm x0(2) by (simp_all add: active_admin_def plain_def)
  have "2 \<le> mem_active_admins s"
    using ok rem unfolding mem_update_user_def x0(1) option.case by (simp add: a0 split: if_splits)
  then obtain y where y: "y \<in> set (ma_users s)" "us_status y = Active \<and> SYSTEM_ADMIN_ROLE_ID \<in> set (us_roles y)" "us_uuid y \<noteq> u"
    using two_keys[of us_uuid "ma_users s" "\<lambda>u. us_status u = Active \<and> SYSTEM_ADMIN_ROLE_ID \<in> set (us_roles u)" u] inv
    unfolding mem_active_admins_def mem_inv_def by blast
  have "mem_us s (us_uuid y) = Some (plain y)"
    using find_key_unique[of us_uuid "ma_users s" y] y(1) inv by (simp add: mem_us_def mem_user_def mem_inv_def)
  moreover have "active_admin (plain y)" using y(2) by (simp add: active_admin_def plain_def)
  ultimately show ?thesis using y(3) by blast
qed

lemma mem_session_update:
  "(\<And>x. se_id (f x) = se_id x) \<Longrightarrow>
   mem_ss (s\<lparr>ma_sessions := update_where P f (ma_sessions s)\<rparr>) i = map_option (\<lambda>x. if P x then f x else x) (mem_ss s i)"
  unfolding mem_ss_def by (simp add: find_update_where[where key = se_id])

lemma mem_ss_id: "mem_ss s i = Some x \<Longrightarrow> se_id x = i"
  unfolding mem_ss_def using find_key_mem[of se_id] by blast

lemma mem_us_sessions [simp]: "mem_us (s\<lparr>ma_sessions := xs\<rparr>) = mem_us s"
  by (simp add: mem_us_def mem_user_def fun_eq_iff)

lemma mem_views_roles [simp]:
  "mem_us (s\<lparr>ma_roles := r\<rparr>) = mem_us s" "mem_ss (s\<lparr>ma_roles := r\<rparr>) = mem_ss s"
  "mem_inv (s\<lparr>ma_roles := r\<rparr>) = mem_inv s" "mem_us (s\<lparr>ma_permissions := p\<rparr>) = mem_us s"
  "mem_ss (s\<lparr>ma_permissions := p\<rparr>) = mem_ss s" "mem_inv (s\<lparr>ma_permissions := p\<rparr>) = mem_inv s"
  by (simp_all add: mem_us_def mem_user_def mem_ss_def mem_inv_def fun_eq_iff)

lemma mem_inv_sessions:
  assumes "mem_inv s" and "\<And>x. se_id (f x) = se_id x" and "\<And>x. se_token (f x) = se_token x"
  shows "mem_inv (s\<lparr>ma_sessions := update_where P f (ma_sessions s)\<rparr>)"
  using assms by (simp add: mem_inv_def)

lemma upd_if_id:
  assumes "\<And>x. m i = Some x \<Longrightarrow> key x = i" and "\<And>j x. m j = Some x \<Longrightarrow> key x = j"
  shows "(\<lambda>j. map_option (\<lambda>x. if key x = i then f x else x) (m j)) = upd m i f"
  using assms by (auto simp: upd_def fun_eq_iff option.map_ident_strong intro!: option.map_cong0 option.map_ident_strong)

lemma mem_update_role_views:
  "mem_update_role r v s = Inr s' \<Longrightarrow> mem_us s' = mem_us s \<and> mem_ss s' = mem_ss s \<and> mem_inv s' = mem_inv s"
  unfolding mem_update_role_def by (auto split: option.splits if_splits)

lemma mem_role_views:
  "mem_create_role r s = Inr s' \<Longrightarrow> mem_us s' = mem_us s \<and> mem_ss s' = mem_ss s \<and> mem_inv s' = mem_inv s"
  "mem_archive_role i v s = Inr s' \<Longrightarrow> mem_us s' = mem_us s \<and> mem_ss s' = mem_ss s \<and> mem_inv s' = mem_inv s"
  "mem_restore_role i v s = Inr s' \<Longrightarrow> mem_us s' = mem_us s \<and> mem_ss s' = mem_ss s \<and> mem_inv s' = mem_inv s"
  "mem_delete_role b i v s = Inr s' \<Longrightarrow> mem_us s' = mem_us s \<and> mem_ss s' = mem_ss s \<and> mem_inv s' = mem_inv s"
  subgoal unfolding mem_create_role_def by (simp split: if_splits) (hypsubst; simp)?
  subgoal unfolding mem_archive_role_def using mem_update_role_views by (simp split: option.splits) blast?
  subgoal unfolding mem_restore_role_def using mem_update_role_views by (simp split: option.splits if_splits) blast?
  subgoal unfolding mem_delete_role_def by (simp split: option.splits if_splits) (hypsubst; simp)?
  done

lemma mem_touch_views:
  "mem_ss (mem_touch i seen idle s) = upd (mem_ss s) i (\<lambda>x. x\<lparr>se_seen := seen, se_idle := idle\<rparr>)"
  "mem_ss (mem_revoke now i s) = upd (mem_ss s) i (\<lambda>x. x\<lparr>se_revoked := Some now\<rparr>)"
  unfolding mem_touch_def mem_revoke_def
  by (simp_all add: fun_eq_iff mem_session_update upd_def, safe)
    (auto simp: option.map_ident_strong dest: mem_ss_id intro!: option.map_cong0 option.map_ident_strong)

lemma plain_upd [simp]:
  "plain (x\<lparr>us_name := n, us_status := st, us_roles := rs, us_version := v\<rparr>)
     = (plain x)\<lparr>us_name := n, us_status := st, us_roles := rs, us_version := v\<rparr>"
  "us_uuid (plain x) = us_uuid x" "us_status (plain x) = us_status x" "us_roles (plain x) = us_roles x"
  "us_version (plain x) = us_version x" "us_hash (plain x) = us_hash x"
  by (simp_all add: plain_def)

lemma upd_some: "m u = Some x \<Longrightarrow> upd m u f = m(u \<mapsto> f x)"
  by (auto simp: upd_def)

lemma update_where_fresh:
  assumes "distinct (map key xs)" and "distinct (map tok xs)" and "tok x \<notin> tok ` set xs"
  shows "distinct (map tok (update_where (\<lambda>y. key y = key x) (\<lambda>_. x) xs))"
  using assms
proof (induction xs)
  case (Cons y ys)
  have same: "update_where (\<lambda>y. key y = key x) (\<lambda>_. x) ys = ys" if "key y = key x"
    using Cons.prems(1) that by (intro update_where_none) (metis distinct.simps(2) image_eqI list.map(2) set_map)
  have sub: "tok ` set (update_where (\<lambda>y. key y = key x) (\<lambda>_. x) ys) \<subseteq> insert (tok x) (tok ` set ys)"
    by (auto simp: update_where_def)
  show ?case
  proof (cases "key y = key x")
    case True
    then show ?thesis using Cons.prems same by auto
  next
    case False
    then show ?thesis using Cons sub by auto
  qed
qed simp

interpretation memory: auth_contract "memory_ops blocker" mem_us mem_ss mem_inv
proof (unfold_locales, goal_cases)
  case (1 s u)
  then show ?case by (simp add: memory_ops_def mem_us_def)
next
  case (2 s u x)
  then show ?case using find_key_mem[of us_uuid u "ma_users s" x] by (simp add: memory_ops_def mem_user_def)
next
  case (3 s t x')
  then show ?case by (simp add: memory_ops_def mem_session_def mem_ss_def mem_inv_def find_session)
next
  case (4 s x created s')
  then have s': "s' = s\<lparr>ma_users := dict_put us_uuid x (ma_users s)\<rparr>"
    by (simp add: memory_ops_def mem_create_user_def split: if_splits)
  then have "mem_us s' = (mem_us s)(us_uuid x \<mapsto> plain x)"
    by (simp add: mem_us_def mem_user_def fun_eq_iff find_dict_put)
  moreover have "mem_inv s'" "mem_ss s' = mem_ss s"
    using 4(1) s' by (simp_all add: mem_inv_def distinct_dict_put mem_ss_def fun_eq_iff)
  ultimately show ?case by (intro conjI exI[of _ "plain x"]) simp_all
next
  case (5 s u v n st rs s')
  then obtain x where x: "mem_user s u = Some x" "us_version x = v"
      "s' = put_user u (\<lambda>x. x\<lparr>us_name := n, us_status := st, us_roles := dedup rs, us_version := us_version x + 1\<rparr>) s"
    by (auto simp: memory_ops_def mem_update_user_def split: option.splits if_splits)
  note put = mem_put_user[where f = "\<lambda>x. x\<lparr>us_name := n, us_status := st, us_roles := dedup rs, us_version := us_version x + 1\<rparr>"
      and g = "\<lambda>x. x\<lparr>us_name := n, us_status := st, us_roles := dedup rs, us_version := us_version x + 1\<rparr>" and s = s and u = u]
  have "mem_us s u = Some (plain x)" using x(1) by (simp add: mem_us_def)
  moreover have "mem_us s' = (mem_us s)(u \<mapsto> (plain x)\<lparr>us_name := n, us_status := st, us_roles := dedup rs, us_version := v + 1\<rparr>)"
    using put(1) upd_some[of "mem_us s" u "plain x"] calculation x(2,3) by simp
  ultimately show ?case
    using 5(1) put(2,3) x by (intro conjI exI[of _ "plain x"] exI[of _ "dedup rs"]) simp_all
next
  case (6 s u v n st rs s' x)
  then show ?case by (intro mem_admin_kept) (simp_all add: memory_ops_def)
next
  case (7 s u v s')
  then obtain x where x: "mem_user s u = Some x" "us_version x = v" "us_status x = Disabled"
      "s' = s\<lparr>ma_sessions := filter (\<lambda>y. se_user y \<noteq> u) (ma_sessions s), ma_users := filter (\<lambda>y. us_uuid y \<noteq> u) (ma_users s)\<rparr>"
    by (auto simp: memory_ops_def mem_delete_user_def split: option.splits if_splits)
  have inv: "distinct (map us_uuid (ma_users s))" "distinct (map se_id (ma_sessions s))" "distinct (map se_token (ma_sessions s))"
    using 7(1) by (simp_all add: mem_inv_def)
  have "mem_us s' w = ((mem_us s)(u := None)) w" for w
  proof (cases "mem_user s w")
    case None
    then show ?thesis using find_filter_key[OF inv(1), of w "\<lambda>y. us_uuid y \<noteq> u"]
      by (simp add: x(4) mem_us_def mem_user_def)
  next
    case (Some y)
    then have "us_uuid y = w" using find_key_mem[of us_uuid] unfolding mem_user_def by blast
    then show ?thesis using find_filter_key[OF inv(1), of w "\<lambda>y. us_uuid y \<noteq> u"] Some
      by (simp add: x(4) mem_us_def mem_user_def)
  qed
  moreover have "mem_ss s' i = (case mem_ss s i of None \<Rightarrow> None | Some y \<Rightarrow> if se_user y = u then None else Some y)" for i
    using find_filter_key[OF inv(2), of i "\<lambda>y. se_user y \<noteq> u"]
    by (simp add: x(4) mem_ss_def split: option.splits)
  moreover have "mem_inv s'" using inv by (simp add: x(4) mem_inv_def distinct_map_filter)
  ultimately show ?case using x by (simp add: fun_eq_iff mem_us_def)
next
  case (8 s u h f s')
  then have s': "s' = put_user u (\<lambda>x. x\<lparr>us_hash := h, us_force := f, us_failed := 0, us_locked := None,
      us_version := us_version x + 1\<rparr>) s" "mem_user s u \<noteq> None"
    by (auto simp: memory_ops_def mem_set_password_def split: option.splits)
  show ?case unfolding s'(1) using 8(1) s'(2)
    by (intro conjI) (simp_all add: mem_put_user[where g = "\<lambda>x. x\<lparr>us_hash := h, us_force := f, us_failed := 0,
      us_locked := None, us_version := us_version x + 1\<rparr>"] plain_def, simp add: mem_us_def)
next
  case (9 s u k l s')
  then have s': "s' = put_user u (\<lambda>x. x\<lparr>us_failed := k, us_locked := l\<rparr>) s"
    by (auto simp: memory_ops_def mem_login_failure_def split: option.splits)
  show ?case unfolding s' using 9(1)
    by (intro conjI) (simp_all add: mem_put_user[where g = "\<lambda>x. x\<lparr>us_failed := k, us_locked := l\<rparr>"] plain_def)
next
  case (10 s u h' s')
  then have s': "s' = put_user u (\<lambda>x. x\<lparr>us_failed := 0, us_locked := None,
                 us_hash := (case nonempty_str h' of None \<Rightarrow> us_hash x | Some y \<Rightarrow> y)\<rparr>) s"
    by (auto simp: memory_ops_def mem_login_success_def split: option.splits)
  define f :: "user \<Rightarrow> user" where "f = (\<lambda>x. x\<lparr>us_failed := 0, us_locked := None,
                 us_hash := (case nonempty_str h' of None \<Rightarrow> us_hash x | Some y \<Rightarrow> y)\<rparr>)"
  have "us_uuid (f x) = us_uuid x" "plain (f x) = f (plain x)" for x
    unfolding f_def plain_def by (cases "nonempty_str h'"; simp)+
  note put = mem_put_user[where f = f and g = f, OF this]
  show ?case unfolding s' f_def[symmetric] using 10(1) put by simp
next
  case (11 s r s')
  then show ?case using mem_role_views(1) by (simp add: memory_ops_def)
next
  case (12 s r v s')
  then show ?case using mem_update_role_views by (simp add: memory_ops_def)
next
  case (13 s i v s')
  then show ?case using mem_role_views(2) by (simp add: memory_ops_def)
next
  case (14 s i v s')
  then show ?case using mem_role_views(3) by (simp add: memory_ops_def)
next
  case (15 s i v s')
  then show ?case using mem_role_views(4) by (simp add: memory_ops_def)
next
  case (16 s x' s')
  then have s': "s' = s\<lparr>ma_sessions := dict_put se_id x' (ma_sessions s)\<rparr>"
    and fresh: "mem_session s (se_token x') = None"
    by (simp_all add: memory_ops_def mem_create_session_def)
  have "distinct (map se_token (dict_put se_id x' (ma_sessions s)))"
  proof -
    have new: "se_token x' \<notin> se_token ` set (ma_sessions s)"
      using fresh by (simp add: mem_session_def find_key_None)
    have d: "distinct (map se_id (ma_sessions s))" "distinct (map se_token (ma_sessions s))"
      using 16(1) by (simp_all add: mem_inv_def)
    show ?thesis using update_where_fresh[OF d new] new d(2) by (simp add: dict_put_def)
  qed
  then have "mem_inv s'" using 16(1) by (simp add: s' mem_inv_def distinct_dict_put)
  moreover have "mem_ss s' = (mem_ss s)(se_id x' \<mapsto> x')"
    by (simp add: s' mem_ss_def fun_eq_iff find_dict_put)
  ultimately show ?case by (simp add: s')
next
  case (17 s i seen idle)
  have "mem_inv (mem_touch i seen idle s)" unfolding mem_touch_def by (rule mem_inv_sessions[OF 17]) simp_all
  moreover have "mem_us (mem_touch i seen idle s) = mem_us s" by (simp add: mem_touch_def)
  ultimately show ?case using mem_touch_views(1)[of i seen idle s]
    by (simp add: memory_ops_def) (rule exI[of _ "\<lambda>x. x\<lparr>se_seen := seen, se_idle := idle\<rparr>"], simp add: same_session_def)
next
  case (18 s now i)
  have "mem_inv (mem_revoke now i s)" unfolding mem_revoke_def by (rule mem_inv_sessions[OF 18]) simp_all
  moreover have "mem_us (mem_revoke now i s) = mem_us s" by (simp add: mem_revoke_def)
  ultimately show ?case using mem_touch_views(2)[of now i s]
    by (simp add: memory_ops_def) (rule exI[of _ "\<lambda>x. x\<lparr>se_revoked := Some now\<rparr>"], simp add: same_session_def)
next
  case (19 s now u)
  have "mem_inv (mem_revoke_user now u s)" unfolding mem_revoke_user_def by (rule mem_inv_sessions[OF 19]) simp_all
  moreover have "mem_us (mem_revoke_user now u s) = mem_us s" by (simp add: mem_revoke_user_def)
  moreover have "mem_ss (mem_revoke_user now u s) = (\<lambda>j. map_option
      (\<lambda>x. if se_user x = u \<and> se_revoked x = None then x\<lparr>se_revoked := Some now\<rparr> else x) (mem_ss s j))"
    unfolding mem_revoke_user_def by (simp add: fun_eq_iff mem_session_update)
  ultimately show ?case by (simp add: memory_ops_def)
qed

section \<open>The tables\<close>

definition tb_us :: "auth_tables \<Rightarrow> ident \<Rightarrow> user option" where
  "tb_us t u = map_option plain (db_user t u)"

definition tb_ss :: "auth_tables \<Rightarrow> ident \<Rightarrow> session option" where
  "tb_ss t i = find (\<lambda>x. se_id x = i) (at_sessions t)"

definition tb_inv :: "auth_tables \<Rightarrow> bool" where
  "tb_inv t \<longleftrightarrow> distinct (map ur_uuid (at_users t)) \<and> distinct (map se_id (at_sessions t))
     \<and> distinct (map se_token (at_sessions t)) \<and> distinct (at_user_roles t)"

definition plain_row :: "ident list \<Rightarrow> user_row \<Rightarrow> user" where
  "plain_row rs x =
     \<lparr>us_uuid = ur_uuid x, us_login = ur_login x, us_name = ur_name x, us_hash = ur_hash x,
      us_status = ur_status x, us_force = ur_force x, us_failed = ur_failed x, us_locked = ur_locked x,
      us_version = ur_version x, us_roles = rs, us_bootstrap = False\<rparr>"

lemma tb_us_row: "tb_us t u = map_option (plain_row (roles_of_user t u)) (user_row_of t u)"
proof (cases "user_row_of t u")
  case (Some x)
  then have "ur_uuid x = u" unfolding user_row_of_def using find_key_mem[of ur_uuid] by blast
  then show ?thesis using Some by (simp add: tb_us_def db_user_def user_record_def plain_row_def plain_def)
qed (simp add: tb_us_def db_user_def)

lemma tb_views [simp]:
  "tb_us (t\<lparr>at_sessions := xs\<rparr>) = tb_us t" "tb_us (t\<lparr>at_roles := r\<rparr>) = tb_us t"
  "tb_ss (t\<lparr>at_roles := r\<rparr>) = tb_ss t" "tb_inv (t\<lparr>at_roles := r\<rparr>) = tb_inv t"
  "tb_us (t\<lparr>at_permissions := p\<rparr>) = tb_us t" "tb_ss (t\<lparr>at_permissions := p\<rparr>) = tb_ss t"
  "tb_inv (t\<lparr>at_permissions := p\<rparr>) = tb_inv t"
  by (simp_all add: fun_eq_iff tb_us_row user_row_of_def roles_of_user_def tb_ss_def tb_inv_def)

lemma tb_put_row:
  assumes "\<And>x. ur_uuid (f x) = ur_uuid x" and "\<And>rs x. plain_row rs (f x) = g (plain_row rs x)"
  shows "tb_us (put_row u f t) = upd (tb_us t) u g" and "tb_inv (put_row u f t) = tb_inv t"
    and "tb_ss (put_row u f t) = tb_ss t"
proof -
  have row: "user_row_of (put_row u f t) w = map_option (\<lambda>x. if ur_uuid x = u then f x else x) (user_row_of t w)" for w
    unfolding user_row_of_def put_row_def by (simp add: find_update_where[where key = ur_uuid] assms(1))
  have id: "ur_uuid x = w" if "user_row_of t w = Some x" for w x
    using that find_key_mem[of ur_uuid] unfolding user_row_of_def by blast
  have roles: "roles_of_user (put_row u f t) w = roles_of_user t w" for w by (simp add: roles_of_user_def put_row_def)
  have "tb_us (put_row u f t) w = upd (tb_us t) u g w" for w
  proof (cases "user_row_of t w")
    case None
    then show ?thesis by (auto simp: tb_us_row row upd_def)
  next
    case (Some x)
    then show ?thesis using id[OF Some] by (cases "w = u") (simp_all add: tb_us_row row roles upd_def assms(2))
  qed
  then show "tb_us (put_row u f t) = upd (tb_us t) u g" by (rule ext)
qed (simp_all add: tb_inv_def tb_ss_def put_row_def map_update_where assms(1) fun_eq_iff)

lemma set_roles_of_user: "set (roles_of_user t u) = {r. (u, r) \<in> set (at_user_roles t)}"
  by (auto simp: roles_of_user_def) force?

lemma tb_replace_roles:
  "tb_us (replace_user_roles u rs t) = upd (tb_us t) u (\<lambda>x. x\<lparr>us_roles := sort_key id (dedup rs)\<rparr>)"
  "tb_ss (replace_user_roles u rs t) = tb_ss t"
  "tb_inv t \<Longrightarrow> tb_inv (replace_user_roles u rs t)"
proof -
  have row: "user_row_of (replace_user_roles u rs t) w = user_row_of t w" for w
    by (simp add: user_row_of_def replace_user_roles_def)
  have roles: "roles_of_user (replace_user_roles u rs t) w = (if w = u then sort_key id (dedup rs) else roles_of_user t w)" for w
  proof -
    have "filter (\<lambda>x. fst x = w) (filter (\<lambda>p. fst p \<noteq> u) ps) = (if w = u then [] else filter (\<lambda>x. fst x = w) ps)"
      for ps :: "(ident \<times> ident) list" by (induction ps) auto
    moreover have "filter (\<lambda>x. fst x = w) (map (Pair u) qs) = (if w = u then map (Pair u) qs else [])"
      for qs :: "ident list" by (induction qs) auto
    ultimately show ?thesis by (simp add: roles_of_user_def replace_user_roles_def comp_def)
  qed
  show "tb_us (replace_user_roles u rs t) = upd (tb_us t) u (\<lambda>x. x\<lparr>us_roles := sort_key id (dedup rs)\<rparr>)"
  proof
    fix w
    show "tb_us (replace_user_roles u rs t) w = upd (tb_us t) u (\<lambda>x. x\<lparr>us_roles := sort_key id (dedup rs)\<rparr>) w"
      by (cases "user_row_of t w"; cases "w = u") (simp_all add: tb_us_row row roles upd_def plain_row_def)
  qed
  show "tb_inv (replace_user_roles u rs t)" if "tb_inv t"
    using that by (auto simp: tb_inv_def replace_user_roles_def distinct_map inj_on_def)
qed (simp add: tb_ss_def replace_user_roles_def fun_eq_iff)

lemma tb_active_row:
  assumes "tb_inv t" and "2 \<le> length (active_admin_pairs t)"
  shows "\<exists>w y. w \<noteq> u \<and> tb_us t w = Some y \<and> active_admin y"
proof -
  let ?Q = "\<lambda>p. snd p = SYSTEM_ADMIN_ROLE_ID \<and> list_ex (\<lambda>x. ur_uuid x = fst p \<and> ur_status x = Active) (at_users t)"
  have "distinct (map id (at_user_roles t))" using assms(1) by (simp add: tb_inv_def)
  from two_keys[OF this assms(2)[unfolded active_admin_pairs_def], of "(u, SYSTEM_ADMIN_ROLE_ID)"]
  obtain p where p: "p \<in> set (at_user_roles t)" "?Q p" "p \<noteq> (u, SYSTEM_ADMIN_ROLE_ID)"
    unfolding id_apply by blast
  then obtain x where x: "x \<in> set (at_users t)" "ur_uuid x = fst p" "ur_status x = Active"
    by (auto simp: list_ex_iff)
  then have row: "user_row_of t (fst p) = Some x"
    using find_key_unique[of ur_uuid "at_users t" x] assms(1) by (simp add: user_row_of_def tb_inv_def)
  have "SYSTEM_ADMIN_ROLE_ID \<in> set (roles_of_user t (fst p))"
  proof -
    have "p = (fst p, SYSTEM_ADMIN_ROLE_ID)" using p(2) by (metis prod.collapse)
    with p(1) have "(fst p, SYSTEM_ADMIN_ROLE_ID) \<in> set (at_user_roles t)" by metis
    then show ?thesis by (simp add: set_roles_of_user)
  qed
  then have "active_admin (plain_row (roles_of_user t (fst p)) x)"
    using x(3) by (simp add: active_admin_def plain_row_def)
  moreover have "fst p \<noteq> u" using p(2,3) by (cases p) auto
  ultimately show ?thesis using row by (auto simp: tb_us_row)
qed

lemma db_update_parts:
  assumes "db_update_user u v n st rs t = Inr t'"
  obtains x where "user_row_of t u = Some x" "ur_version x = v"
    "t' = replace_user_roles u rs (put_row u (\<lambda>x. x\<lparr>ur_name := n, ur_status := st, ur_version := ur_version x + 1\<rparr>) t)"
    "SYSTEM_ADMIN_ROLE_ID \<in> set (roles_of_user t u) \<and> (st \<noteq> Active \<or> SYSTEM_ADMIN_ROLE_ID \<notin> set rs) \<longrightarrow>
       2 \<le> length (active_admin_pairs t)"
  using assms unfolding db_update_user_def
  by (auto simp: Let_def not_le split: option.splits if_splits)

lemma tb_session_update:
  "(\<And>x. se_id (f x) = se_id x) \<Longrightarrow>
   tb_ss (t\<lparr>at_sessions := update_where P f (at_sessions t)\<rparr>) i = map_option (\<lambda>x. if P x then f x else x) (tb_ss t i)"
  unfolding tb_ss_def by (simp add: find_update_where[where key = se_id])

lemma tb_ss_id: "tb_ss t i = Some x \<Longrightarrow> se_id x = i"
  unfolding tb_ss_def using find_key_mem[of se_id] by blast

lemma tb_inv_sessions:
  assumes "tb_inv t" and "\<And>x. se_id (f x) = se_id x" and "\<And>x. se_token (f x) = se_token x"
  shows "tb_inv (t\<lparr>at_sessions := update_where P f (at_sessions t)\<rparr>)"
  using assms by (simp add: tb_inv_def)

lemma tb_touch_views:
  "tb_ss (db_touch i seen idle t) =
     upd (tb_ss t) i (\<lambda>x. if se_revoked x = None then x\<lparr>se_seen := seen, se_idle := idle\<rparr> else x)"
  "tb_ss (db_revoke now i t) = upd (tb_ss t) i (\<lambda>x. if se_revoked x = None then x\<lparr>se_revoked := Some now\<rparr> else x)"
proof -
  have eq: "tb_ss (t\<lparr>at_sessions := update_where (\<lambda>x. se_id x = i \<and> se_revoked x = None) f (at_sessions t)\<rparr>)
      = upd (tb_ss t) i (\<lambda>x. if se_revoked x = None then f x else x)" if "\<And>x. se_id (f x) = se_id x" for f
  proof
    fix j
    show "tb_ss (t\<lparr>at_sessions := update_where (\<lambda>x. se_id x = i \<and> se_revoked x = None) f (at_sessions t)\<rparr>) j
      = upd (tb_ss t) i (\<lambda>x. if se_revoked x = None then f x else x) j"
      unfolding tb_session_update[OF that] using tb_ss_id[of t j]
      by (cases "tb_ss t j"; cases "j = i") (auto simp: upd_def)
  qed
  show "tb_ss (db_touch i seen idle t) =
     upd (tb_ss t) i (\<lambda>x. if se_revoked x = None then x\<lparr>se_seen := seen, se_idle := idle\<rparr> else x)"
    unfolding db_touch_def by (rule eq) simp
  show "tb_ss (db_revoke now i t) = upd (tb_ss t) i (\<lambda>x. if se_revoked x = None then x\<lparr>se_revoked := Some now\<rparr> else x)"
    unfolding db_revoke_def by (rule eq) simp
qed

lemma put_role_views: "put_role P f r t = Inr t' \<Longrightarrow> tb_us t' = tb_us t \<and> tb_ss t' = tb_ss t \<and> tb_inv t' = tb_inv t"
  unfolding put_role_def by (auto split: if_splits)

interpretation tables: auth_contract "table_ops blocker" tb_us tb_ss tb_inv
proof (unfold_locales, goal_cases)
  case (1 s u)
  then show ?case by (simp add: table_ops_def tb_us_def)
next
  case (2 s u x)
  then show ?case using find_key_mem[of ur_uuid u "at_users s"]
    by (auto simp: table_ops_def db_user_def user_row_of_def user_record_def)
next
  case (3 s t x')
  then show ?case by (simp add: table_ops_def db_session_def tb_ss_def tb_inv_def find_session)
next
  case (4 s x created s')
  let ?m = "s\<lparr>at_users := at_users s @ [new_user_row created x]\<rparr>"
  have s': "s' = replace_user_roles (us_uuid x) (us_roles x) ?m" and
    fresh: "\<not> list_ex (\<lambda>y. ur_normalized y = lower (us_login x) \<or> ur_uuid y = us_uuid x) (at_users s)"
    using 4(3) by (auto simp: table_ops_def db_create_user_def split: if_splits)
  have new: "us_uuid x \<notin> ur_uuid ` set (at_users s)" using fresh by (auto simp: list_ex_iff)
  have id: "ur_uuid (new_user_row created x) = us_uuid x" by (simp add: new_user_row_def)
  have row: "user_row_of ?m w = (if w = us_uuid x then Some (new_user_row created x) else user_row_of s w)" for w
    using new by (auto simp: user_row_of_def find_append id find_key_None[symmetric] split: option.splits)
  have "tb_inv ?m" using 4(1) new id by (simp add: tb_inv_def)
  moreover have "tb_us ?m = (tb_us s)(us_uuid x \<mapsto> plain_row (roles_of_user s (us_uuid x)) (new_user_row created x))"
    by (rule ext) (simp add: tb_us_row row roles_of_user_def)
  moreover have "tb_ss ?m = tb_ss s" by (simp add: tb_ss_def fun_eq_iff)
  ultimately show ?case unfolding s'
    by (intro conjI exI[of _ "plain_row (sort_key id (dedup (us_roles x))) (new_user_row created x)"])
      (simp_all add: tb_replace_roles upd_def fun_eq_iff plain_row_def new_user_row_def)
next
  case (5 s u v n st rs s')
  let ?f = "\<lambda>x. x\<lparr>ur_name := n, ur_status := st, ur_version := ur_version x + 1\<rparr>"
  have ok: "db_update_user u v n st rs s = Inr s'" using 5(2) by (simp add: table_ops_def)
  then obtain x where x: "user_row_of s u = Some x" "ur_version x = v" "s' = replace_user_roles u rs (put_row u ?f s)"
    by (rule db_update_parts) blast
  have "ur_uuid (?f x) = ur_uuid x" "plain_row rs (?f x) = (plain_row rs x)\<lparr>us_name := n, us_status := st,
      us_version := us_version (plain_row rs x) + 1\<rparr>" for x rs
    by (simp_all add: plain_row_def)
  note put = tb_put_row[OF this, of u s]
  let ?x = "plain_row (roles_of_user s u) x"
  have mem: "tb_us s u = Some ?x" using x(1) by (simp add: tb_us_row)
  have "tb_us s' = (tb_us s)(u \<mapsto> ?x\<lparr>us_name := n, us_status := st, us_roles := sort_key id (dedup rs), us_version := v + 1\<rparr>)"
    unfolding x(3) tb_replace_roles put by (rule ext) (simp add: upd_def mem plain_row_def x(2))
  moreover have "tb_inv s'" "tb_ss s' = tb_ss s" unfolding x(3) using 5(1) put by (simp_all add: tb_replace_roles)
  moreover have "us_version ?x = v" by (simp add: plain_row_def x(2))
  ultimately show ?case using mem by (intro conjI exI[of _ ?x] exI[of _ "sort_key id (dedup rs)"]) simp_all
next
  case (6 s u v n st rs s' x)
  have ok: "db_update_user u v n st rs s = Inr s'" using 6(2) by (simp add: table_ops_def)
  have "SYSTEM_ADMIN_ROLE_ID \<in> set (roles_of_user s u)"
    using 6(3,4) by (auto simp: tb_us_row active_admin_def plain_row_def)
  then have "2 \<le> length (active_admin_pairs s)" using ok 6(5) by (elim db_update_parts) blast
  then show ?case by (rule tb_active_row[OF 6(1)])
next
  case (7 s u v s')
  then obtain x where x: "user_row_of s u = Some x" "ur_version x = v" "ur_status x = Disabled"
      "s' = s\<lparr>at_sessions := filter (\<lambda>y. se_user y \<noteq> u) (at_sessions s),
              at_user_roles := filter (\<lambda>p. fst p \<noteq> u) (at_user_roles s),
              at_users := filter (\<lambda>y. ur_uuid y \<noteq> u) (at_users s)\<rparr>"
    by (auto simp: table_ops_def db_delete_user_def split: option.splits if_splits)
  have inv: "distinct (map ur_uuid (at_users s))" "distinct (map se_id (at_sessions s))" "distinct (map se_token (at_sessions s))"
    using 7(1) by (simp_all add: tb_inv_def)
  have roles: "roles_of_user s' w = roles_of_user s w" if "w \<noteq> u" for w
  proof -
    have "filter (\<lambda>x. fst x = w) (filter (\<lambda>p. fst p \<noteq> u) ps) = filter (\<lambda>x. fst x = w) ps"
      for ps :: "(ident \<times> ident) list" using that by (induction ps) auto
    then show ?thesis by (simp add: x(4) roles_of_user_def)
  qed
  have "tb_us s' w = ((tb_us s)(u := None)) w" for w
  proof (cases "user_row_of s w")
    case None
    then show ?thesis using find_filter_key[OF inv(1), of w "\<lambda>y. ur_uuid y \<noteq> u"]
      by (simp add: x(4) tb_us_row user_row_of_def)
  next
    case (Some y)
    then have "ur_uuid y = w" using find_key_mem[of ur_uuid] unfolding user_row_of_def by blast
    moreover from this have "user_row_of s' w = (if w = u then None else Some y)"
      using find_filter_key[OF inv(1), of w "\<lambda>y. ur_uuid y \<noteq> u"] Some by (simp add: x(4) user_row_of_def)
    ultimately show ?thesis using roles[of w] Some by (simp add: tb_us_row)
  qed
  moreover have "tb_ss s' i = (case tb_ss s i of None \<Rightarrow> None | Some y \<Rightarrow> if se_user y = u then None else Some y)" for i
    using find_filter_key[OF inv(2), of i "\<lambda>y. se_user y \<noteq> u"]
    by (simp add: x(4) tb_ss_def split: option.splits)
  moreover have "tb_inv s'" using inv 7(1) by (simp add: x(4) tb_inv_def distinct_map_filter)
  ultimately show ?case using x by (simp add: fun_eq_iff tb_us_row plain_row_def)
next
  case (8 s u h f s')
  define g :: "user_row \<Rightarrow> user_row" where "g = (\<lambda>x. x\<lparr>ur_hash := h, ur_force := f, ur_failed := 0, ur_locked := None, ur_version := ur_version x + 1\<rparr>)"
  have s': "s' = put_row u g s" "user_row_of s u \<noteq> None"
    using 8(2) by (auto simp: table_ops_def db_set_password_def g_def split: if_splits)
  have "ur_uuid (g x) = ur_uuid x" "plain_row rs (g x) = (plain_row rs x)\<lparr>us_hash := h, us_force := f, us_failed := 0,
      us_locked := None, us_version := us_version (plain_row rs x) + 1\<rparr>" for x rs
    by (simp_all add: g_def plain_row_def)
  from tb_put_row[OF this, of u s] show ?case unfolding s'(1) using 8(1) s'(2) by (simp add: tb_us_row)
next
  case (9 s u k l s')
  define g :: "user_row \<Rightarrow> user_row" where "g = (\<lambda>x. x\<lparr>ur_failed := k, ur_locked := l\<rparr>)"
  have s': "s' = put_row u g s" using 9(2) by (simp add: table_ops_def db_login_failure_def g_def)
  have "ur_uuid (g x) = ur_uuid x" "plain_row rs (g x) = (plain_row rs x)\<lparr>us_failed := k, us_locked := l\<rparr>" for x rs
    by (simp_all add: g_def plain_row_def)
  from tb_put_row[OF this, of u s] show ?case unfolding s' using 9(1) by simp
next
  case (10 s u h' s')
  define g :: "user_row \<Rightarrow> user_row" where "g = (\<lambda>x. x\<lparr>ur_failed := 0, ur_locked := None,
            ur_hash := (case nonempty_str h' of None \<Rightarrow> ur_hash x | Some y \<Rightarrow> y)\<rparr>)"
  have s': "s' = put_row u g s" using 10(2) by (simp add: table_ops_def db_login_success_def g_def)
  have "ur_uuid (g x) = ur_uuid x" "plain_row rs (g x) = (plain_row rs x)\<lparr>us_failed := 0, us_locked := None,
      us_hash := (case nonempty_str h' of None \<Rightarrow> us_hash (plain_row rs x) | Some y \<Rightarrow> y)\<rparr>" for x rs
    unfolding g_def plain_row_def by (cases "nonempty_str h'"; simp)+
  from tb_put_row[OF this, of u s] show ?case unfolding s' using 10(1) by simp
next
  case (11 s r s')
  then show ?case by (auto simp: table_ops_def db_create_role_def split: if_splits)
next
  case (12 s r v s')
  then show ?case using put_role_views by (simp add: table_ops_def db_update_role_def)
next
  case (13 s i v s')
  then show ?case using put_role_views by (simp add: table_ops_def db_archive_role_def)
next
  case (14 s i v s')
  then show ?case using put_role_views by (simp add: table_ops_def db_restore_role_def split: option.splits if_splits)
next
  case (15 s i v s')
  then show ?case by (auto simp: table_ops_def db_delete_role_def split: option.splits if_splits)
next
  case (16 s x' s')
  have s': "s' = s\<lparr>at_sessions := at_sessions s @ [x'\<lparr>se_revoked := None\<rparr>]\<rparr>"
    and new: "se_id x' \<notin> se_id ` set (at_sessions s)" "se_token x' \<notin> se_token ` set (at_sessions s)"
    using 16(4) by (auto simp: table_ops_def db_create_session_def list_ex_iff split: if_splits)
  have same: "x'\<lparr>se_revoked := None\<rparr> = x'" using 16(3) by simp
  have "tb_inv s'" using 16(1) new by (simp add: s' same tb_inv_def)
  moreover have "tb_ss s' = (tb_ss s)(se_id x' \<mapsto> x')"
    using new(1) by (auto simp: s' same tb_ss_def fun_eq_iff find_append find_key_None[symmetric] split: option.splits)
  ultimately show ?case by (simp add: s')
next
  case (17 s i seen idle)
  have "tb_inv (db_touch i seen idle s)" unfolding db_touch_def by (rule tb_inv_sessions[OF 17]) simp_all
  moreover have "tb_us (db_touch i seen idle s) = tb_us s" by (simp add: db_touch_def)
  ultimately show ?case using tb_touch_views(1)[of i seen idle s]
    by (simp add: table_ops_def) (rule exI[of _ "\<lambda>x. if se_revoked x = None then x\<lparr>se_seen := seen, se_idle := idle\<rparr> else x"],
      simp add: same_session_def)
next
  case (18 s now i)
  have "tb_inv (db_revoke now i s)" unfolding db_revoke_def by (rule tb_inv_sessions[OF 18]) simp_all
  moreover have "tb_us (db_revoke now i s) = tb_us s" by (simp add: db_revoke_def)
  ultimately show ?case using tb_touch_views(2)[of now i s]
    by (simp add: table_ops_def) (rule exI[of _ "\<lambda>x. if se_revoked x = None then x\<lparr>se_revoked := Some now\<rparr> else x"],
      simp add: same_session_def)
next
  case (19 s now u)
  have "tb_inv (db_revoke_user now u s)" unfolding db_revoke_user_def by (rule tb_inv_sessions[OF 19]) simp_all
  moreover have "tb_us (db_revoke_user now u s) = tb_us s" by (simp add: db_revoke_user_def)
  moreover have "tb_ss (db_revoke_user now u s) = (\<lambda>j. map_option
      (\<lambda>x. if se_user x = u \<and> se_revoked x = None then x\<lparr>se_revoked := Some now\<rparr> else x) (tb_ss s j))"
    unfolding db_revoke_user_def by (simp add: fun_eq_iff tb_session_update)
  ultimately show ?case by (simp add: table_ops_def)
qed

end
