(* ===== verification/AuthProperties.thy ===== *)
theory AuthProperties
  imports AuthService AuthStores
begin

text \<open>The properties of the shared authentication: what ends a session, the last administrator, log-in
  and the lock of a user, and the limits of what a manager of users may give away. They are proved in
  the contract of the stores and stated for the tables of the database.\<close>

section \<open>Sessions\<close>

lemma dead_token_refused:
  "dead_token (sv_ops sv) (cr_token (sv_crypto sv) token) s \<Longrightarrow> authenticate_session sv now token s = (Inl (api 401), s)"
  by (auto simp: authenticate_session_def token_sat_def Let_def split: option.splits)

lemma store_then_ok: "store_then r s f = (Inr y, s') \<Longrightarrow> \<exists>m. r = Inr m \<and> f m = (Inr y, s')"
  by (auto simp: store_then_def split: sum.splits)

lemma store_raw_ok: "store_raw r s f = (Inr y, s') \<Longrightarrow> \<exists>m. r = Inr m \<and> f m = (Inr y, s')"
  by (auto simp: store_raw_def split: sum.splits)

text \<open>What ends the sessions of a user: a new password, disabling, deleting, logging out.\<close>

inductive closes :: "'s auth_service \<Rightarrow> session \<Rightarrow> 's \<Rightarrow> 's \<Rightarrow> bool" for sv x where
  PasswordChanged: "change_password sv now p current new s = (Inr p', s') \<Longrightarrow> pr_user p = se_user x \<Longrightarrow> closes sv x s s'"
| PasswordReset: "reset_password sv actor now (se_user x) pw s = (Inr y, s') \<Longrightarrow> closes sv x s s'"
| UserDisabled: "update_user sv actor now (se_user x) v name Disabled rs s = (Inr y, s') \<Longrightarrow> closes sv x s s'"
| UserDeleted: "delete_user sv actor (se_user x) v s = (Inr y, s') \<Longrightarrow> closes sv x s s'"
| LoggedOut: "pr_session p = se_id x \<Longrightarrow> \<not> is_configured_admin p \<Longrightarrow> closes sv x s (logout sv now p s)"

context auth_contract
begin

lemma revoke_user_dead:
  assumes "inv s" and "op_session ops s t = Some x"
  shows "dead_token ops t (op_revoke_user ops now (se_user x) s)" and "inv (op_revoke_user ops now (se_user x) s)"
proof -
  let ?r = "op_revoke_user ops now (se_user x) s"
  have law: "inv ?r" "ss ?r = (\<lambda>j. map_option
      (\<lambda>y. if se_user y = se_user x \<and> se_revoked y = None then y\<lparr>se_revoked := Some now\<rparr> else y) (ss s j))"
    using revoke_user_law[OF assms(1), of now "se_user x"] by simp_all
  have "se_revoked y \<noteq> None" if y: "ss ?r (se_id y) = Some y" "se_token y = t" for y
  proof -
    obtain z where z: "ss s (se_id y) = Some z"
      "y = z \<and> (se_user z \<noteq> se_user x \<or> se_revoked z \<noteq> None) \<or> y = z\<lparr>se_revoked := Some now\<rparr>"
      using y(1) unfolding law(2) by (auto split: if_splits)
    from z(2) show ?thesis
    proof
      assume a: "y = z \<and> (se_user z \<noteq> se_user x \<or> se_revoked z \<noteq> None)"
      then have "op_session ops s t = Some y" using session_read[OF assms(1)] z(1) y(2) by metis
      then have "y = x" using assms(2) by simp
      then show ?thesis using a by auto
    qed simp
  qed
  then show "dead_token ops t ?r" using dead_iff[OF law(1)] by blast
  show "inv ?r" by (rule law(1))
qed

lemma revoke_dead:
  assumes "inv s" and "op_session ops s t = Some x"
  shows "dead_token ops t (op_revoke ops now (se_id x) s)" and "inv (op_revoke ops now (se_id x) s)"
proof -
  let ?r = "op_revoke ops now (se_id x) s"
  obtain g where law: "inv ?r" "ss ?r = upd (ss s) (se_id x) g" "\<And>y. same_session y (g y) \<and> se_revoked (g y) \<noteq> None"
    using revoke_law[OF assms(1), of now "se_id x"] by blast
  have "se_revoked y \<noteq> None" if y: "ss ?r (se_id y) = Some y" "se_token y = t" for y
  proof (cases "se_id y = se_id x")
    case True
    then obtain z where "y = g z" using y(1) unfolding law(2) upd_def by auto
    then show ?thesis using law(3) by simp
  next
    case False
    then have "ss s (se_id y) = Some y" using y(1) unfolding law(2) upd_def by simp
    then have "op_session ops s t = Some y" using session_read[OF assms(1)] y(2) by metis
    then show ?thesis using assms(2) False by simp
  qed
  then show "dead_token ops t ?r" using dead_iff[OF law(1)] by blast
  show "inv ?r" by (rule law(1))
qed

lemma delete_user_dead:
  assumes "inv s" and "op_session ops s t = Some x" and "op_delete_user ops (se_user x) v s = Inr s'"
  shows "dead_token ops t s'" and "inv s'"
proof -
  have law: "inv s'" "ss s' = (\<lambda>i. case ss s i of None \<Rightarrow> None | Some y \<Rightarrow> if se_user y = se_user x then None else Some y)"
    using delete_user_law[OF assms(1,3)] by simp_all
  have "se_revoked y \<noteq> None" if y: "ss s' (se_id y) = Some y" "se_token y = t" for y
  proof -
    have z: "ss s (se_id y) = Some y" "se_user y \<noteq> se_user x"
      using y(1) unfolding law(2) by (auto split: option.splits if_splits)
    then have "op_session ops s t = Some y" using session_read[OF assms(1)] y(2) by metis
    then show ?thesis using assms(2) z(2) by simp
  qed
  then show "dead_token ops t s'" using dead_iff[OF law(1)] by blast
  show "inv s'" by (rule law(1))
qed

lemma session_kept:
  assumes "inv s" and "inv s'" and "ss s' = ss s"
  shows "op_session ops s' t = op_session ops s t"
proof (cases "op_session ops s t")
  case None
  then have "op_session ops s' t \<noteq> Some y" for y
    using session_read[OF assms(1)] session_read[OF assms(2)] assms(3) by (metis option.distinct(1))
  then show ?thesis using None by auto
next
  case (Some y)
  then show ?thesis using session_read[OF assms(1)] session_read[OF assms(2)] assms(3) by metis
qed

lemma set_password_dead:
  assumes "inv s" and "op_session ops s t = Some x" and "op_set_password ops (se_user x) h f s = Inr m"
  shows "dead_token ops t (op_revoke_user ops now (se_user x) m) \<and> inv (op_revoke_user ops now (se_user x) m)"
proof -
  have m: "inv m" "ss m = ss s" using set_password_law[OF assms(1,3)] by simp_all
  then have "op_session ops m t = Some x" using session_kept[OF assms(1) m] assms(2) by simp
  from revoke_user_dead[OF m(1) this] show ?thesis by blast
qed

lemma change_password_dead:
  assumes ops: "sv_ops sv = ops" and inv: "inv s" and x: "op_session ops s t = Some x"
    and ok: "change_password sv now p current new s = (Inr p', s')" and p: "pr_user p = se_user x"
  shows "dead_token ops t s' \<and> inv s'"
proof -
  obtain u m where u: "op_user ops s (se_user x) = Some u" and m: "op_set_password ops (us_uuid u) (cr_hash (sv_crypto sv) new) False s = Inr m"
    and s': "s' = op_revoke_user ops now (us_uuid u) m"
    using ok unfolding change_password_def
    by (auto simp: ops p Let_def dest!: store_then_ok store_raw_ok split: option.splits if_splits)
  have "us_uuid u = se_user x" by (rule user_id[OF inv u])
  then show ?thesis using set_password_dead[OF inv x, of _ _ m now] m s' by simp
qed

lemma reset_password_dead:
  assumes ops: "sv_ops sv = ops" and inv: "inv s" and x: "op_session ops s t = Some x"
    and ok: "reset_password sv actor now (se_user x) pw s = (Inr y, s')"
  shows "dead_token ops t s' \<and> inv s'"
proof -
  obtain m where m: "op_set_password ops (se_user x) (cr_hash (sv_crypto sv) pw) True s = Inr m"
    and s': "s' = op_revoke_user ops now (se_user x) m"
    using ok unfolding reset_password_def read_user_def
    by (auto simp: ops dest!: store_then_ok store_raw_ok split: option.splits if_splits)
  then show ?thesis using set_password_dead[OF inv x m] by simp
qed

lemma disable_dead:
  assumes ops: "sv_ops sv = ops" and inv: "inv s" and x: "op_session ops s t = Some x"
    and ok: "update_user sv actor now (se_user x) v name Disabled rs s = (Inr y, s')"
  shows "dead_token ops t s' \<and> inv s'"
proof -
  obtain m where m: "op_update_user ops (se_user x) v (strip name) Disabled (dedup rs) s = Inr m"
    and s': "s' = op_revoke_user ops now (se_user x) m"
    using ok unfolding update_user_def
    by (auto simp: ops Let_def dest!: store_then_ok store_raw_ok split: option.splits if_splits)
  have i: "inv m" "ss m = ss s" using update_user_law[OF inv m] by simp_all
  then have "op_session ops m t = Some x" using session_kept[OF inv i] x by simp
  from revoke_user_dead[OF i(1) this] show ?thesis unfolding s' by blast
qed

lemma delete_dead:
  assumes ops: "sv_ops sv = ops" and inv: "inv s" and x: "op_session ops s t = Some x"
    and ok: "delete_user sv actor (se_user x) v s = (Inr y, s')"
  shows "dead_token ops t s' \<and> inv s'"
proof -
  have "op_delete_user ops (se_user x) v s = Inr s'"
    using ok unfolding delete_user_def
    by (auto simp: ops dest!: store_then_ok store_raw_ok split: option.splits if_splits)
  from delete_user_dead[OF inv x this] show ?thesis by blast
qed

lemma logout_dead:
  assumes ops: "sv_ops sv = ops" and inv: "inv s" and x: "op_session ops s t = Some x"
    and p: "pr_session p = se_id x" "\<not> is_configured_admin p"
  shows "dead_token ops t (logout sv now p s) \<and> inv (logout sv now p s)"
  using revoke_dead[OF inv x, of now] p by (simp add: logout_def ops)

lemma closes_dead:
  assumes "closes sv x s s'" and ops: "sv_ops sv = ops" and inv: "inv s" and x: "op_session ops s t = Some x"
  shows "dead_token ops t s' \<and> inv s'"
  using assms(1) inv x
proof (induction rule: closes.induct)
  case (PasswordChanged now p current new s p' s')
  from change_password_dead[OF ops PasswordChanged.prems PasswordChanged.hyps] show ?case .
next
  case (PasswordReset actor now pw s y s')
  from reset_password_dead[OF ops PasswordReset.prems PasswordReset.hyps] show ?case .
next
  case (UserDisabled actor now v name rs s y s')
  from disable_dead[OF ops UserDisabled.prems UserDisabled.hyps] show ?case .
next
  case (UserDeleted actor v s y s')
  from delete_dead[OF ops UserDeleted.prems UserDeleted.hyps] show ?case .
next
  case (LoggedOut p s now)
  from logout_dead[OF ops LoggedOut.prems LoggedOut.hyps] show ?case .
qed

end

section \<open>An example\<close>

definition example_row :: "ident \<Rightarrow> string \<Rightarrow> user_status \<Rightarrow> user_row" where
  "example_row u login st =
     \<lparr>ur_uuid = u, ur_login = login, ur_normalized = lower login, ur_name = login, ur_hash = ''#'' @ login,
      ur_status = st, ur_force = False, ur_failed = 0, ur_locked = None, ur_version = 1, ur_created = 0\<rparr>"

definition example_session :: session where
  "example_session =
     \<lparr>se_id = ''s1'', se_user = ''u2'', se_token = ''#t1'', se_csrf = ''#c1'', se_idle = 1800,
      se_absolute = 43200, se_seen = 0, se_revoked = None\<rparr>"

definition example_role :: role where
  "example_role =
     \<lparr>ro_id = ''r1'', ro_code = ''READER'', ro_name = ''reader'', ro_description = ''-'', ro_built_in = False,
      ro_archived = False, ro_version = 1\<rparr>"

definition example_tables :: auth_tables where
  "example_tables =
     \<lparr>at_users = [example_row ''u1'' ''root'' Active, example_row ''u2'' ''alice'' Active],
      at_user_roles = [(''u1'', SYSTEM_ADMIN_ROLE_ID), (''u2'', ''r1'')],
      at_roles = [system_admin_role, example_role], at_sessions = [example_session],
      at_permissions = [(''RAG_ROLE_PERMISSIONS'', ''r1'', ''rag.read'')]\<rparr>"

definition example_service :: "auth_tables auth_service" where
  "example_service =
     \<lparr>sv_ops = table_ops (\<lambda>_. None),
      sv_settings = \<lparr>as_absolute_hours = 12, as_idle_minutes = 30, as_failed_limit = 3, as_lockout_minutes = 15,
                     as_min_length = 10, as_max_length = 64\<rparr>,
      sv_product = \<lparr>pd_key = ''nl2sql'', pd_all = {}, pd_catalog = {}, pd_permissions = (\<lambda>_. {}),
                    pd_within = (\<lambda>_ _. True), pd_restore = (\<lambda>_ _. None), pd_deletable = (\<lambda>_. None)\<rparr>,
      sv_crypto = \<lparr>cr_token = (\<lambda>t. ''#'' @ t), cr_hash = (\<lambda>p. ''#'' @ p),
                   cr_verify = (\<lambda>p h. (h = ''#'' @ p, None))\<rparr>\<rparr>"

definition example_admin :: principal where
  "example_admin =
     \<lparr>pr_user = ''u1'', pr_login = ''root'', pr_name = ''root'', pr_status = Active, pr_force = False,
      pr_codes = [SYSTEM_ADMIN_ROLE_CODE], pr_permissions = {}, pr_session = ''s0'', pr_csrf = ''#c0'',
      pr_change_allowed = True, pr_roles = [SYSTEM_ADMIN_ROLE_ID], pr_role_names = []\<rparr>"

lemma example_inv: "tb_inv example_tables"
  by (simp add: tb_inv_def example_tables_def example_row_def)

lemma example_reset:
  "reset_password example_service example_admin 100 ''u2'' ''Meadow#2041'' example_tables =
     (Inr (the (db_user (snd (reset_password example_service example_admin 100 ''u2'' ''Meadow#2041'' example_tables)) ''u2'')),
      snd (reset_password example_service example_admin 100 ''u2'' ''Meadow#2041'' example_tables))"
  by code_simp

text \<open>C21: A session that was ended stays ended. When the password of a user is changed or reset, the user is
  disabled or deleted, or the session is logged out, the token of the session is refused from then on,
  whatever transactions of any process follow, as long as no new session is created for that token.\<close>
theorem closed_sessions_stay_closed:
  assumes sv: "sv_ops sv = table_ops blocker" and inv: "tb_inv t"
    and x: "db_session t (cr_token (sv_crypto sv) token) = Some x"
    and closed: "closes sv x t t1"
    and later: "(store_step (table_ops blocker) (\<lambda>y. se_token y \<noteq> cr_token (sv_crypto sv) token))\<^sup>*\<^sup>* t1 t2"
  shows "authenticate_session sv now' token t2 = (Inl (api 401), t2)"
proof -
  have x': "op_session (table_ops blocker) t (cr_token (sv_crypto sv) token) = Some x"
    using x by (simp add: table_ops_def)
  note c = tables.closes_dead[OF closed sv inv x']
  note d = tables.steps_dead[OF later conjunct2[OF c] conjunct1[OF c]]
  show ?thesis by (rule dead_token_refused) (use conjunct2[OF d] in \<open>simp add: sv\<close>)
qed

theorem closed_sessions_stay_closed_witness:
  "authenticate_session example_service 200 ''t1''
     (db_touch ''s1'' 150 1950 (snd (reset_password example_service example_admin 100 ''u2'' ''Meadow#2041'' example_tables)))
   = (Inl (api 401), db_touch ''s1'' 150 1950
        (snd (reset_password example_service example_admin 100 ''u2'' ''Meadow#2041'' example_tables)))"
proof -
  let ?t = "snd (reset_password example_service example_admin 100 ''u2'' ''Meadow#2041'' example_tables)"
  have ops: "sv_ops example_service = table_ops (\<lambda>_. None)" by (simp add: example_service_def)
  have x: "db_session example_tables (cr_token (sv_crypto example_service) ''t1'') = Some example_session"
    by (simp add: example_service_def example_tables_def db_session_def example_session_def)
  have "se_user example_session = ''u2''" by (simp add: example_session_def)
  then have c: "closes example_service example_session example_tables ?t"
    using closes.PasswordReset[OF example_reset[folded \<open>se_user example_session = ''u2''\<close>]] by simp
  have "store_step (table_ops (\<lambda>_. None)) (\<lambda>y. se_token y \<noteq> cr_token (sv_crypto example_service) ''t1'') ?t
      (db_touch ''s1'' 150 1950 ?t)"
    using store_step.Touch[of "table_ops (\<lambda>_. None)" "\<lambda>y. se_token y \<noteq> cr_token (sv_crypto example_service) ''t1''"
        ?t "''s1''" 150 1950] by (simp add: table_ops_def)
  then show ?thesis by (intro closed_sessions_stay_closed[OF ops example_inv x c] r_into_rtranclp)
qed

section \<open>The last administrator\<close>

lemma db_user_plain: "map_option plain (db_user t u) = tb_us t u"
  by (simp add: tb_us_def)

lemma active_admin_plain [simp]: "active_admin (plain x) = active_admin x"
  by (simp add: active_admin_def plain_def)

lemma admin_view: "(\<exists>u x. db_user t u = Some x \<and> active_admin x) \<longleftrightarrow> (\<exists>u x. tb_us t u = Some x \<and> active_admin x)"
  unfolding db_user_plain[symmetric] map_option_eq_Some using active_admin_plain by metis

text \<open>C22: The last administrator cannot be lost: once some user is active and holds the role of the system
  administrator, there is such a user after any sequence of transactions on users, roles and sessions, by
  any processes in any order.\<close>
theorem last_admin_is_kept:
  assumes "tb_inv t" and "db_user t u = Some x" and "active_admin x"
    and "(store_step (table_ops blocker) P)\<^sup>*\<^sup>* t t'"
  shows "\<exists>w y. db_user t' w = Some y \<and> active_admin y"
proof -
  have "\<exists>w y. tb_us t w = Some y \<and> active_admin y" using assms(2,3) admin_view by blast
  from conjunct2[OF tables.steps_admin[OF assms(4,1) this]] show ?thesis using admin_view by blast
qed

lemma example_admin_row: "db_user example_tables ''u1'' = Some (the (db_user example_tables ''u1''))"
  "active_admin (the (db_user example_tables ''u1''))"
  by code_simp+

theorem last_admin_is_kept_witness:
  "\<exists>w y. db_user (db_revoke_user 100 ''u2'' example_tables) w = Some y \<and> active_admin y"
proof -
  have "store_step (table_ops (\<lambda>_. None)) (\<lambda>_. True) example_tables (db_revoke_user 100 ''u2'' example_tables)"
    using store_step.RevokeUser[of "table_ops (\<lambda>_. None)" "\<lambda>_. True" example_tables 100 "''u2''"]
    by (simp add: table_ops_def)
  then show ?thesis by (intro last_admin_is_kept[OF example_inv example_admin_row] r_into_rtranclp)
qed

section \<open>Log-in\<close>

definition credentials_ok :: "auth_tables auth_service \<Rightarrow> rat \<Rightarrow> string \<Rightarrow> string \<Rightarrow> auth_tables \<Rightarrow> bool" where
  "credentials_ok sv now login pw t =
     (case db_user_by_login t (lower login) of
        None \<Rightarrow> False
      | Some u \<Rightarrow> us_status u = Active \<and> \<not> locked_at now u \<and> fst (cr_verify (sv_crypto sv) pw (us_hash u)))"

lemma row_by_login: "db_user_by_login t l = Some u \<Longrightarrow> user_row_of t (us_uuid u) \<noteq> None"
  by (auto simp: db_user_by_login_def user_row_of_def user_record_def find_key_None dest!: find_Some_mem)

lemma login_accepted:
  assumes sv: "sv_ops sv = table_ops blocker" and u: "db_user_by_login t (lower login) = Some u"
    and ok: "credentials_ok sv now login pw t"
    and fresh: "db_session t (cr_token (sv_crypto sv) (nt_token nt)) = None" "tb_ss t (nt_session nt) = None"
  shows "\<exists>h m. login_user sv now login pw nt t =
     (Inr (principal_for sv u (new_session sv now u nt) (m\<lparr>at_sessions := at_sessions t @ [new_session sv now u nt]\<rparr>)),
      m\<lparr>at_sessions := at_sessions t @ [new_session sv now u nt]\<rparr>)
     \<and> db_login_success (us_uuid u) h t = Inr m \<and> at_sessions m = at_sessions t"
proof -
  obtain h where v: "cr_verify (sv_crypto sv) pw (us_hash u) = (True, h)"
    using ok u by (cases "cr_verify (sv_crypto sv) pw (us_hash u)") (simp add: credentials_ok_def)
  obtain m where m: "db_login_success (us_uuid u) h t = Inr m" by (simp add: db_login_success_def)
  have ms: "at_sessions m = at_sessions t" using m by (auto simp: db_login_success_def put_row_def)
  have "user_row_of m (us_uuid u) \<noteq> None" using row_by_login[OF u] m
    by (auto simp: db_login_success_def put_row_def user_row_of_def find_update_where[where key = ur_uuid])
  then have "db_create_session (new_session sv now u nt) m = Inr (m\<lparr>at_sessions := at_sessions t @ [new_session sv now u nt]\<rparr>)"
    using fresh ms by (auto simp: db_create_session_def new_session_def db_session_def tb_ss_def find_None_iff list_ex_iff)
  then show ?thesis using ok u v m ms
    by (auto simp: login_user_def credentials_ok_def sv table_ops_def store_raw_def Let_def)
qed

lemma login_refused:
  assumes sv: "sv_ops sv = table_ops blocker" and no: "\<not> credentials_ok sv now login pw t"
  shows "fst (login_user sv now login pw nt t) = Inl LoginFailed
    \<and> at_sessions (snd (login_user sv now login pw nt t)) = at_sessions t"
  using no
  by (auto simp: login_user_def credentials_ok_def sv table_ops_def store_raw_def Let_def db_login_failure_def
      put_row_def split: option.splits prod.splits bool.splits)

text \<open>C23: A log-in succeeds exactly when the login id names an active user who is not locked and the password
  verifies against the stored hash. Then there is a session with the hash of the new token, for that user,
  with both limits counted from now; a refusal is always the same answer and creates no session.\<close>
theorem login_iff_credentials:
  assumes sv: "sv_ops sv = table_ops blocker"
    and fresh: "db_session t (cr_token (sv_crypto sv) (nt_token nt)) = None" "tb_ss t (nt_session nt) = None"
  shows "case login_user sv now login pw nt t of
      (Inl e, t') \<Rightarrow> \<not> credentials_ok sv now login pw t \<and> e = LoginFailed \<and> at_sessions t' = at_sessions t
    | (Inr p, t') \<Rightarrow> credentials_ok sv now login pw t \<and>
        (\<exists>u. db_user_by_login t (lower login) = Some u \<and> pr_user p = us_uuid u
           \<and> db_session t' (cr_token (sv_crypto sv) (nt_token nt)) = Some (new_session sv now u nt))"
proof (cases "credentials_ok sv now login pw t")
  case True
  then obtain u where u: "db_user_by_login t (lower login) = Some u"
    by (auto simp: credentials_ok_def split: option.splits)
  have new: "db_session (m\<lparr>at_sessions := at_sessions t @ [new_session sv now u nt]\<rparr>)
      (cr_token (sv_crypto sv) (nt_token nt)) = Some (new_session sv now u nt)" for m
    using fresh(1) by (simp add: db_session_def find_append new_session_def)
  from login_accepted[OF sv u True fresh] show ?thesis
    by (elim exE conjE) (simp add: True u new, simp add: principal_for_def Let_def)
next
  case False
  with login_refused[OF sv False, of nt] show ?thesis
    by (cases "login_user sv now login pw nt t") (auto split: sum.splits)
qed

theorem login_iff_credentials_witness:
  "case login_user example_service 100 ''Alice'' ''alice'' \<lparr>nt_session = ''s2'', nt_token = ''t2'', nt_csrf = ''c2''\<rparr> example_tables of
      (Inl e, t') \<Rightarrow> False
    | (Inr p, t') \<Rightarrow> pr_user p = ''u2'' \<and> map_option se_user (db_session t' ''#t2'') = Some ''u2''"
proof -
  let ?nt = "\<lparr>nt_session = ''s2'', nt_token = ''t2'', nt_csrf = ''c2''\<rparr>"
  have f: "db_session example_tables (cr_token (sv_crypto example_service) (nt_token ?nt)) = None"
    "tb_ss example_tables (nt_session ?nt) = None"
    by (simp_all add: db_session_def tb_ss_def example_tables_def example_session_def example_service_def)
  have ok: "credentials_ok example_service 100 ''Alice'' ''alice'' example_tables" by code_simp
  have u: "map_option us_uuid (db_user_by_login example_tables (lower ''Alice'')) = Some ''u2''" by code_simp
  have "sv_ops example_service = table_ops (\<lambda>_. None)" "cr_token (sv_crypto example_service) (nt_token ?nt) = ''#t2''"
    by (simp_all add: example_service_def)
  with login_iff_credentials[OF this(1) f, of 100 "''Alice''" "''alice''"] show ?thesis
    using ok u by (auto split: prod.splits sum.splits simp: new_session_def)
qed

lemma login_parts:
  assumes sv: "sv_ops sv = table_ops blocker" and ok: "login_user sv now login pw nt t = (Inr p, t1)"
  obtains u h m where "db_login_success (us_uuid u) h t = Inr m"
    "db_create_session (new_session sv now u nt) m = Inr t1" "p = principal_for sv u (new_session sv now u nt) t1"
proof -
  obtain u where u: "db_user_by_login t (lower login) = Some u" "\<not> (us_status u \<noteq> Active \<or> locked_at now u)"
    using ok by (auto simp: login_user_def sv table_ops_def Let_def split: option.splits if_splits)
  obtain v h where v: "cr_verify (sv_crypto sv) pw (us_hash u) = (v, h)" by fastforce
  have "v" using ok u v by (cases v) (auto simp: login_user_def sv table_ops_def Let_def split: prod.splits dest!: store_then_ok store_raw_ok)
  then have "store_raw (db_login_success (us_uuid u) h t) t (\<lambda>s.
        store_raw (db_create_session (new_session sv now u nt) s) s (\<lambda>s.
          (Inr (principal_for sv u (new_session sv now u nt) s), s))) = (Inr p, t1)"
    using ok u v by (simp add: login_user_def sv table_ops_def Let_def)
  from store_raw_ok[OF this] obtain m where m: "db_login_success (us_uuid u) h t = Inr m"
    "store_raw (db_create_session (new_session sv now u nt) m) m (\<lambda>s.
          (Inr (principal_for sv u (new_session sv now u nt) s), s)) = (Inr p, t1)" by blast
  from store_raw_ok[OF m(2)] have "db_create_session (new_session sv now u nt) m = Inr t1"
    "p = principal_for sv u (new_session sv now u nt) t1" by auto
  with m(1) show ?thesis by (rule that)
qed

lemma create_session_sat:
  assumes "db_create_session x t = Inr t1" and "se_revoked x = None" and "Q x"
  shows "token_sat (table_ops blocker) Q (se_token x) t1"
proof -
  have none: "find (\<lambda>y. se_token y = se_token x) (at_sessions t) = None"
    and t1: "t1 = t\<lparr>at_sessions := at_sessions t @ [x\<lparr>se_revoked := None\<rparr>]\<rparr>"
    using assms(1) by (auto simp: db_create_session_def find_None_iff list_ex_iff split: if_splits)
  have "db_session t1 (se_token x) = Some x" using none assms(2) by (simp add: t1 db_session_def find_append)
  then show ?thesis using assms(3) by (simp add: token_sat_def table_ops_def)
qed

lemma authenticate_ok_parts:
  assumes sv: "sv_ops sv = table_ops blocker" and ok: "authenticate_session sv now token t = (Inr q, t')"
  obtains x u where "db_session t (cr_token (sv_crypto sv) token) = Some x" "se_revoked x = None" "now < se_absolute x"
    "pr_user q = us_uuid u" "pr_session q = se_id x" "db_user t (se_user x) = Some u" "us_status u = Active"
  using ok that
  by (auto simp: authenticate_session_def sv table_ops_def Let_def principal_for_def not_le
      split: if_splits option.splits)

text \<open>However often it is used and whatever else happens, a session ends at the limit fixed when it was
  opened: when its token is accepted, less than the configured hours have passed since the log-in, and it
  acts as the user who logged in, who is active.\<close>
theorem session_ends_at_absolute_limit:
  assumes sv: "sv_ops sv = table_ops blocker" and inv: "tb_inv t"
    and new: "login_user sv now login pw nt t = (Inr p, t1)"
    and later: "(store_step (table_ops blocker) (\<lambda>y. se_token y \<noteq> cr_token (sv_crypto sv) (nt_token nt)))\<^sup>*\<^sup>* t1 t2"
    and used: "authenticate_session sv now' (nt_token nt) t2 = (Inr q, t3)"
  shows "now' < now + 3600 * as_absolute_hours (sv_settings sv) \<and> pr_user q = pr_user p \<and> pr_session q = nt_session nt
    \<and> map_option us_status (db_user t2 (pr_user p)) = Some Active"
proof -
  obtain u h m where m: "db_login_success (us_uuid u) h t = Inr m"
    and t1: "db_create_session (new_session sv now u nt) m = Inr t1" and p: "p = principal_for sv u (new_session sv now u nt) t1"
    by (rule login_parts[OF sv new])
  have pu: "pr_user p = us_uuid u" by (simp add: p principal_for_def Let_def)
  let ?Q = "\<lambda>x. se_revoked x \<noteq> None \<or> se_absolute x = now + 3600 * as_absolute_hours (sv_settings sv)
      \<and> se_user x = us_uuid u \<and> se_id x = nt_session nt"
  have "tb_inv m" using tables.login_success_law[OF inv, of blocker "us_uuid u" h m] m by (simp add: table_ops_def)
  moreover have fresh: "db_session m (se_token (new_session sv now u nt)) = None"
    using t1 by (auto simp: db_create_session_def db_session_def find_None_iff list_ex_iff split: if_splits)
  ultimately have "tb_inv t1" using tables.create_session_law[of m blocker "new_session sv now u nt" t1] t1
    by (simp add: table_ops_def new_session_def)
  moreover have "token_sat (table_ops blocker) ?Q (cr_token (sv_crypto sv) (nt_token nt)) t1"
    using create_session_sat[OF t1, of ?Q blocker] by (simp add: new_session_def)
  ultimately have sat: "token_sat (table_ops blocker) ?Q (cr_token (sv_crypto sv) (nt_token nt)) t2"
    using tables.steps_token[OF later _ _ kept_limit] by blast
  obtain x v where x: "db_session t2 (cr_token (sv_crypto sv) (nt_token nt)) = Some x" "se_revoked x = None"
      "now' < se_absolute x" "pr_user q = us_uuid v" "pr_session q = se_id x" "db_user t2 (se_user x) = Some v"
      "us_status v = Active"
    by (rule authenticate_ok_parts[OF sv used])
  have "?Q x" using sat x(1) by (simp add: token_sat_def table_ops_def)
  moreover have "us_uuid v = se_user x" using tables.user_id[of t2 blocker "se_user x" v] x(6)
      tables.steps_token[OF later \<open>tb_inv t1\<close> _ kept_limit] \<open>token_sat (table_ops blocker) ?Q _ t1\<close>
    by (auto simp: table_ops_def)
  ultimately show ?thesis using x pu by simp
qed

theorem session_ends_at_absolute_limit_witness:
  "(199::rat) < 100 + 3600 * 12 \<and> db_session (snd (login_user example_service 100 ''Alice'' ''alice''
      \<lparr>nt_session = ''s2'', nt_token = ''t2'', nt_csrf = ''c2''\<rparr> example_tables)) ''#t2'' \<noteq> None"
proof -
  let ?nt = "\<lparr>nt_session = ''s2'', nt_token = ''t2'', nt_csrf = ''c2''\<rparr>"
  let ?t = "snd (login_user example_service 100 ''Alice'' ''alice'' ?nt example_tables)"
  have ops: "sv_ops example_service = table_ops (\<lambda>_. None)" by (simp add: example_service_def)
  have "\<not> isl (fst (login_user example_service 100 ''Alice'' ''alice'' ?nt example_tables))" by code_simp
  then obtain p where p: "login_user example_service 100 ''Alice'' ''alice'' ?nt example_tables = (Inr p, ?t)"
    by (metis prod.collapse sum.collapse(2))
  have "\<not> isl (fst (authenticate_session example_service 199 (nt_token ?nt) ?t))" by code_simp
  then obtain q where q: "authenticate_session example_service 199 (nt_token ?nt) ?t =
      (Inr q, snd (authenticate_session example_service 199 (nt_token ?nt) ?t))"
    by (metis prod.collapse sum.collapse(2))
  have "as_absolute_hours (sv_settings example_service) = 12" by (simp add: example_service_def)
  moreover have "db_session ?t ''#t2'' \<noteq> None" by code_simp
  ultimately show ?thesis
    using session_ends_at_absolute_limit[OF ops example_inv p rtranclp.rtrancl_refl q] by simp
qed

end
