(* ===== verification/AuthAccess.thy ===== *)
theory AuthAccess
  imports AuthProperties
begin

text \<open>The lock of a user after too many wrong passwords, the roles a manager of users may give away, and
  two places where the service does not do what it means to.\<close>

section \<open>The lock\<close>

lemma insort_key_map: "insort_key k (f x) (map f xs) = map f (insort_key (\<lambda>x. k (f x)) x xs)"
  by (induction xs) auto

lemma sort_key_map: "sort_key k (map f xs) = map f (sort_key (\<lambda>x. k (f x)) xs)"
  by (induction xs) (simp_all add: insort_key_map)

lemma update_where_map: "update_where P f xs = map (\<lambda>x. if P x then f x else x) xs"
  by (simp add: update_where_def)

lemma bootstrap_put_row:
  assumes "\<And>x. ur_uuid (f x) = ur_uuid x" and "\<And>x. ur_created (f x) = ur_created x"
  shows "bootstrap_uuid (put_row u f t) = bootstrap_uuid t"
proof -
  let ?f = "\<lambda>x. if ur_uuid x = u then f x else x"
  have "(\<lambda>x. (ur_created (?f x), ur_uuid (?f x))) = (\<lambda>x. (ur_created x, ur_uuid x))"
    using assms by (auto simp: fun_eq_iff)
  then show ?thesis using assms
    by (simp add: bootstrap_uuid_def put_row_def update_where_map sort_key_map if_distrib cong: if_cong split: list.splits)
qed

text \<open>The tables after a row for failures was written.\<close>

lemma login_after_failure:
  assumes "db_user_by_login t l = Some u"
  shows "db_user_by_login (put_row (us_uuid u) (\<lambda>x. x\<lparr>ur_failed := n, ur_locked := k\<rparr>) t) l
    = Some (u\<lparr>us_failed := n, us_locked := k\<rparr>)"
proof -
  let ?f = "\<lambda>x. x\<lparr>ur_failed := n, ur_locked := k\<rparr>"
  obtain x where x: "find (\<lambda>x. ur_normalized x = lower l) (at_users t) = Some x" "u = user_record t x"
    using assms by (auto simp: db_user_by_login_def)
  have "bootstrap_uuid (put_row (ur_uuid x) ?f t) = bootstrap_uuid t" by (rule bootstrap_put_row) simp_all
  moreover have "roles_of_user (put_row (ur_uuid x) ?f t) w = roles_of_user t w" for w
    by (simp add: roles_of_user_def put_row_def)
  moreover have "find (\<lambda>x. ur_normalized x = lower l) (at_users (put_row (ur_uuid x) ?f t)) = Some (?f x)"
    using x(1) by (simp add: put_row_def find_update_where[where key = ur_normalized])
  ultimately show ?thesis by (simp add: db_user_by_login_def x(2) user_record_def)
qed

text \<open>Wrong passwords in a row.\<close>

definition try_passwords ::
    "auth_tables auth_service \<Rightarrow> string \<Rightarrow> (rat \<times> string \<times> new_tokens) list \<Rightarrow> auth_tables \<Rightarrow> auth_tables" where
  "try_passwords sv login tries t = foldl (\<lambda>t (now, pw, nt). snd (login_user sv now login pw nt t)) t tries"

lemma try_passwords_simps [simp]:
  "try_passwords sv login [] t = t"
  "try_passwords sv login (ts @ [(now, pw, nt)]) t = snd (login_user sv now login pw nt (try_passwords sv login ts t))"
  by (simp_all add: try_passwords_def)

lemma after_tries:
  assumes sv: "sv_ops sv = table_ops blocker" and u: "db_user_by_login t (lower login) = Some u"
    and act: "us_status u = Active" "us_locked u = None" "us_failed u = 0"
    and limit: "0 < as_failed_limit (sv_settings sv)"
    and wrong: "list_all (\<lambda>(now, pw, nt). \<not> fst (cr_verify (sv_crypto sv) pw (us_hash u))) tries"
    and short: "int (length tries) \<le> as_failed_limit (sv_settings sv)"
  shows "db_user_by_login (try_passwords sv login tries t) (lower login) = Some (
    if int (length tries) = as_failed_limit (sv_settings sv)
    then u\<lparr>us_failed := 0, us_locked := Some (fst (last tries) + 60 * as_lockout_minutes (sv_settings sv))\<rparr>
    else u\<lparr>us_failed := int (length tries), us_locked := None\<rparr>)"
  using wrong short
proof (induction tries rule: rev_induct)
  case Nil
  then show ?case using u act limit by simp
next
  case (snoc a ts)
  obtain now pw nt where a: "a = (now, pw, nt)" by (cases a)
  let ?t = "try_passwords sv login ts t" and ?u = "u\<lparr>us_failed := int (length ts), us_locked := None\<rparr>"
  have before: "db_user_by_login ?t (lower login) = Some ?u" using snoc by auto
  obtain h where v: "cr_verify (sv_crypto sv) pw (us_hash u) = (False, h)"
    using snoc.prems(1) by (cases "cr_verify (sv_crypto sv) pw (us_hash u)") (simp add: a)
  let ?n = "fst (after_failure sv now ?u)" and ?k = "snd (after_failure sv now ?u)"
  have "snd (login_user sv now login pw nt ?t) = put_row (us_uuid ?u) (\<lambda>x. x\<lparr>ur_failed := ?n, ur_locked := ?k\<rparr>) ?t"
    using before v act by (simp add: login_user_def sv table_ops_def Let_def locked_at_def store_raw_def
        db_login_failure_def split: prod.splits)
  then have "db_user_by_login (snd (login_user sv now login pw nt ?t)) (lower login) =
      Some (?u\<lparr>us_failed := ?n, us_locked := ?k\<rparr>)" using login_after_failure[OF before] by simp
  then show ?case using snoc.prems(2) by (auto simp: a after_failure_def)
qed

text \<open>From the first of a row of wrong passwords to the configured limit, the right password opens a
  session; when the limit is reached no password does, until the configured minutes have passed since the
  last attempt, and then the right one does again.\<close>
theorem lock_is_exact:
  assumes sv: "sv_ops sv = table_ops blocker" and u: "db_user_by_login t (lower login) = Some u"
    and act: "us_status u = Active" "us_locked u = None" "us_failed u = 0"
    and limit: "0 < as_failed_limit (sv_settings sv)"
    and wrong: "list_all (\<lambda>(now, pw, nt). \<not> fst (cr_verify (sv_crypto sv) pw (us_hash u))) tries"
    and short: "int (length tries) \<le> as_failed_limit (sv_settings sv)"
  shows "credentials_ok sv now login pw (try_passwords sv login tries t) \<longleftrightarrow>
    fst (cr_verify (sv_crypto sv) pw (us_hash u)) \<and>
    (int (length tries) < as_failed_limit (sv_settings sv)
     \<or> fst (last tries) + 60 * as_lockout_minutes (sv_settings sv) \<le> now)"
  using after_tries[OF assms] act short by (auto simp: credentials_ok_def locked_at_def)

theorem lock_is_exact_witness:
  "credentials_ok example_service 920 ''alice'' ''alice''
     (try_passwords example_service ''alice'' (replicate 3 (20, ''x'', \<lparr>nt_session = '''', nt_token = '''', nt_csrf = ''''\<rparr>))
        example_tables)
   \<and> \<not> credentials_ok example_service 919 ''alice'' ''alice''
     (try_passwords example_service ''alice'' (replicate 3 (20, ''x'', \<lparr>nt_session = '''', nt_token = '''', nt_csrf = ''''\<rparr>))
        example_tables)"
proof -
  let ?tries = "replicate 3 (20::rat, ''x'', \<lparr>nt_session = '''', nt_token = '''', nt_csrf = ''''\<rparr>)"
  have ops: "sv_ops example_service = table_ops (\<lambda>_. None)"
    and s: "as_failed_limit (sv_settings example_service) = 3" "as_lockout_minutes (sv_settings example_service) = 15"
    and c: "cr_verify (sv_crypto example_service) = (\<lambda>p h. (h = ''#'' @ p, None))"
    by (simp_all add: example_service_def)
  obtain u where u: "db_user_by_login example_tables (lower ''alice'') = Some u"
    and "map_option (\<lambda>u. (us_status u, us_locked u, us_failed u, us_hash u))
          (db_user_by_login example_tables (lower ''alice'')) = Some (Active, None, 0, ''#alice'')"
  proof -
    have "map_option (\<lambda>u. (us_status u, us_locked u, us_failed u, us_hash u))
          (db_user_by_login example_tables (lower ''alice'')) = Some (Active, None, 0, ''#alice'')" by code_simp
    with that show thesis by (cases "db_user_by_login example_tables (lower ''alice'')") auto
  qed
  then have p: "us_status u = Active" "us_locked u = None" "us_failed u = 0" "us_hash u = ''#alice''" by auto
  have "credentials_ok example_service now ''alice'' ''alice'' (try_passwords example_service ''alice'' ?tries example_tables)
      \<longleftrightarrow> 920 \<le> now" for now
    using lock_is_exact[OF ops u p(1-3), of ?tries now "''alice''"] by (simp add: s c p(4) numeral_3_eq_3)
  then show ?thesis by simp
qed

section \<open>What a manager of users may give away\<close>

definition may_give :: "auth_tables auth_service \<Rightarrow> principal \<Rightarrow> auth_tables \<Rightarrow> ident \<Rightarrow> bool" where
  "may_give sv actor t r =
     (r \<noteq> SYSTEM_ADMIN_ROLE_ID \<and>
      (case db_role t r of
         None \<Rightarrow> False
       | Some x \<Rightarrow> \<not> ro_archived x \<and>
           (is_system_admin actor \<or>
            ro_code x \<noteq> SYSTEM_ADMIN_ROLE_CODE \<and> pd_within (sv_product sv) actor x \<and>
            list_all (\<lambda>table. codes_of (at_permissions t) table r
                \<subseteq> (\<Union>a \<in> set (pr_roles actor). codes_of (at_permissions t) table a)) (other_tables sv))))"

lemma db_role_id: "db_role t r = Some x \<Longrightarrow> ro_id x = r"
  by (auto simp: db_role_def role_base_def dest!: find_Some_mem)

lemma roles_to_assign_parts:
  "roles_to_assign sv t existing rs = Inr xs \<Longrightarrow> sv_ops sv = table_ops blocker \<Longrightarrow>
   (\<forall>r\<in>set rs. r \<in> set existing \<or> (\<exists>x\<in>set xs. db_role t r = Some x \<and> \<not> ro_archived x))
   \<and> (\<forall>x\<in>set xs. db_role t (ro_id x) = Some x)"
proof (induction rs arbitrary: xs)
  case (Cons r rs)
  have ops: "op_role (sv_ops sv) t r = db_role t r" by (simp add: Cons.prems(2) table_ops_def)
  show ?case
  proof (cases "db_role t r")
    case None
    with Cons ops show ?thesis by (auto split: if_splits)
  next
    case (Some x)
    with Cons ops db_role_id[OF Some] show ?thesis by (auto split: if_splits sum.splits)
  qed
qed auto

lemma assignable_given:
  assumes sv: "sv_ops sv = table_ops blocker" and xs: "\<forall>x\<in>set xs. db_role t (ro_id x) = Some x"
    and r: "r \<in> set (assignable sv actor xs t)" "r \<noteq> SYSTEM_ADMIN_ROLE_ID" "db_role t r = Some x" "\<not> ro_archived x"
  shows "may_give sv actor t r"
proof (cases "is_system_admin actor")
  case True
  with r show ?thesis by (simp add: may_give_def)
next
  case False
  then have "r \<in> set (cross_allowed sv actor (map ro_id (filter (\<lambda>r. ro_code r \<noteq> SYSTEM_ADMIN_ROLE_CODE
      \<and> \<not> ro_archived r \<and> pd_within (sv_product sv) actor r) xs)) t)" using r(1) by (simp add: assignable_def)
  then obtain y where y: "y \<in> set xs" "r = ro_id y" "ro_code y \<noteq> SYSTEM_ADMIN_ROLE_CODE" "pd_within (sv_product sv) actor y"
    "list_all (\<lambda>table. codes_of (at_permissions t) table r
                \<subseteq> (\<Union>a \<in> set (pr_roles actor). codes_of (at_permissions t) table a)) (other_tables sv)"
    by (auto simp: cross_allowed_def sv table_ops_def Let_def)
  moreover have "y = x" using xs y(1,2) r(3) by auto
  ultimately show ?thesis using r by (simp add: may_give_def)
qed

lemma assign_given:
  assumes sv: "sv_ops sv = table_ops blocker" and ok: "assign_error sv actor rs existing t = None"
    and r: "r \<in> set rs" "r \<notin> set existing" "r \<noteq> SYSTEM_ADMIN_ROLE_ID"
  shows "may_give sv actor t r"
proof -
  obtain xs where xs: "roles_to_assign sv t existing rs = Inr xs"
    "list_all (\<lambda>x. ro_id x \<in> set (assignable sv actor xs t)) xs"
    using ok by (auto simp: assign_error_def split: sum.splits if_splits)
  note parts = roles_to_assign_parts[OF xs(1) sv]
  obtain x where x: "x \<in> set xs" "db_role t r = Some x" "\<not> ro_archived x" using parts r(1,2) by blast
  then have "ro_id x = r" using db_role_id by blast
  then have "r \<in> set (assignable sv actor xs t)" using xs(2) x(1) by (auto simp: list_all_iff)
  then show ?thesis using assignable_given[OF sv conjunct2[OF parts] _ r(3) x(2,3)] by blast
qed

lemma new_roles:
  "set (roles_of_user (replace_user_roles u rs t) w) = (if w = u then set rs else set (roles_of_user t w))"
  by (auto simp: set_roles_of_user replace_user_roles_def)

lemma roles_of_user_simps [simp]:
  "roles_of_user (put_row u f t) w = roles_of_user t w"
  "roles_of_user (t\<lparr>at_users := us\<rparr>) w = roles_of_user t w"
  "roles_of_user (db_revoke_user now u t) w = roles_of_user t w"
  by (simp_all add: roles_of_user_def put_row_def db_revoke_user_def)

text \<open>C29: Managing users gives no privilege away: every role a user holds after a successful creation or change
  of a user and did not hold before is unarchived and never the role of the system administrator; and
  unless the actor is the system administrator, the product finds the role within the actor's own, and in
  the tables of the other products the codes of the role are among those of the actor's roles.\<close>
theorem no_privilege_is_given_away:
  assumes sv: "sv_ops sv = table_ops blocker"
    and ok: "create_user sv actor now uuid login name rs pw t = (Inr y, t')
      \<or> update_user sv actor now uuid v name st rs t = (Inr y, t')"
    and r: "r \<in> set (roles_of_user t' w)" "r \<notin> set (roles_of_user t w)"
  shows "may_give sv actor t r"
  using ok
proof
  assume "create_user sv actor now uuid login name rs pw t = (Inr y, t')"
  then have a: "SYSTEM_ADMIN_ROLE_ID \<notin> set rs" "assign_error sv actor (dedup rs) [] t = None"
    "store_then (db_create_user now (new_user sv uuid (strip login) name (dedup rs) pw) t) t (read_user sv uuid) = (Inr y, t')"
    by (auto simp: create_user_def sv table_ops_def Let_def split: if_splits option.splits)
  from store_then_ok[OF a(3)] have "db_create_user now (new_user sv uuid (strip login) name (dedup rs) pw) t = Inr t'"
    by (auto simp: read_user_def split: option.splits)
  then have "set (roles_of_user t' w) = (if w = uuid then set rs else set (roles_of_user t w))"
    by (auto simp: db_create_user_def new_roles new_user_def split: if_splits)
  then have "r \<in> set rs" using r by (auto split: if_splits)
  moreover from this have "r \<noteq> SYSTEM_ADMIN_ROLE_ID" using a(1) by auto
  ultimately show ?thesis using assign_given[OF sv a(2), of r] by simp
next
  assume "update_user sv actor now uuid v name st rs t = (Inr y, t')"
  then obtain c where c: "db_user t uuid = Some c"
    "SYSTEM_ADMIN_ROLE_ID \<in> set rs \<longrightarrow> SYSTEM_ADMIN_ROLE_ID \<in> set (us_roles c)"
    "assign_error sv actor (dedup rs) (us_roles c) t = None"
    "\<exists>m. db_update_user uuid v (strip name) st (dedup rs) t = Inr m \<and> (t' = m \<or> t' = db_revoke_user now uuid m)"
    by (auto simp: update_user_def sv table_ops_def Let_def dest!: store_then_ok split: if_splits option.splits)
  then have "set (roles_of_user t' w) = (if w = uuid then set rs else set (roles_of_user t w))"
    by (auto simp: new_roles elim!: db_update_parts)
  then have n: "w = uuid" "r \<in> set rs" using r by (auto split: if_splits)
  have "us_roles c = roles_of_user t uuid" using c(1)
    by (auto simp: db_user_def user_record_def user_row_of_def dest!: find_Some_mem)
  then have "r \<notin> set (us_roles c)" using r(2) n(1) by simp
  then show ?thesis using assign_given[OF sv c(3), of r] n(2) c(2) by auto
qed

definition example_manager :: principal where
  "example_manager = example_admin\<lparr>pr_user := ''u2'', pr_codes := [''READER''], pr_roles := [''r1'']\<rparr>"

theorem no_privilege_is_given_away_witness:
  "may_give example_service example_manager example_tables ''r1'' \<and> \<not> is_system_admin example_manager"
proof -
  let ?c = "create_user example_service example_manager 100 ''u3'' ''bob'' ''Bob'' [''r1''] ''Meadow#2041'' example_tables"
  have ops: "sv_ops example_service = table_ops (\<lambda>_. None)" by (simp add: example_service_def)
  have "\<not> isl (fst ?c)" by code_simp
  then obtain y where y: "?c = (Inr y, snd ?c)" by (metis prod.collapse sum.collapse(2))
  have "''r1'' \<in> set (roles_of_user (snd ?c) ''u3'')" by code_simp
  moreover have "''r1'' \<notin> set (roles_of_user example_tables ''u3'')" by code_simp
  moreover have "\<not> is_system_admin example_manager" by code_simp
  ultimately show ?thesis
    using no_privilege_is_given_away[OF ops disjI1[OF y], of "''r1''" "''u3''"] by blast
qed

section \<open>Where the service does less than it means to\<close>

text \<open>\<open>login\<close> reads the user and verifies the password, then records the success, then opens the session,
  each in its own transaction, and none of them looks whether the password has changed meanwhile. A
  log-in that verified the old password just before a reset so opens a session after the reset has revoked
  all sessions; and when the old hash was due to be renewed, it puts the old password back.\<close>

definition reset_tables :: auth_tables where
  "reset_tables = snd (reset_password example_service example_admin 100 ''u2'' ''Meadow#2041'' example_tables)"

lemma login_may_overtake_a_reset:
  "let u = the (db_user_by_login example_tables ''alice'');
       nt = \<lparr>nt_session = ''s2'', nt_token = ''t2'', nt_csrf = ''c2''\<rparr>
   in fst (cr_verify (sv_crypto example_service) ''alice'' (us_hash u)) \<and>
      (case db_login_success (us_uuid u) (Some ''#alice'') reset_tables of
         Inl e \<Rightarrow> False
       | Inr t \<Rightarrow>
           (case db_create_session (new_session example_service 99 u nt) t of
              Inl e \<Rightarrow> False
            | Inr t' \<Rightarrow> \<not> isl (fst (authenticate_session example_service 101 ''t2'' t'))
                \<and> credentials_ok example_service 101 ''alice'' ''alice'' t'))"
  by code_simp

text \<open>The rule that keeps the last active administrator also applies to a disabled user with that role: while
  only one administrator is active, the name of the disabled one cannot be changed nor the role taken
  away. The store in memory checks that the user is active, the tables and the service do not.\<close>

definition disabled_admin_tables :: auth_tables where
  "disabled_admin_tables =
     example_tables\<lparr>at_users := [example_row ''u1'' ''root'' Active, example_row ''u2'' ''alice'' Disabled],
       at_user_roles := [(''u1'', SYSTEM_ADMIN_ROLE_ID), (''u2'', SYSTEM_ADMIN_ROLE_ID)]\<rparr>"

lemma disabled_administrator_is_stuck:
  "db_update_user ''u2'' 1 ''Alice'' Disabled [SYSTEM_ADMIN_ROLE_ID] disabled_admin_tables = Inl (StoreConflict StateConflict)
   \<and> db_update_user ''u2'' 1 ''alice'' Disabled [] disabled_admin_tables = Inl (StoreConflict StateConflict)
   \<and> fst (update_user example_service example_admin 100 ''u2'' 1 ''Alice'' Disabled [SYSTEM_ADMIN_ROLE_ID] disabled_admin_tables)
       = Inl (api 409)
   \<and> \<not> isl (mem_update_user ''u2'' 1 ''Alice'' Disabled [SYSTEM_ADMIN_ROLE_ID]
        \<lparr>ma_users = map (user_record disabled_admin_tables) (at_users disabled_admin_tables),
         ma_roles = at_roles disabled_admin_tables, ma_sessions = [], ma_permissions = []\<rparr>)"
  by (intro conjI; code_simp)

end
