(* ===== verification/ToolLoopGuard.thy ===== *)
theory ToolLoopGuard
  imports ExternalWrites "HOL-Library.AList"
begin

text \<open>The guard against tool calls that make no progress
  (\<open>agent/backend/app/features/agent/tool_loop_guard.py\<close>): one pass over the steps of a run
  counts, per tool, argument errors and execution failures in a row, and per call the equal
  results in a row. The digest of a JSON value is the parameter \<open>fp\<close>. The dictionaries are
  association lists in insertion order.\<close>

section \<open>Data\<close>

datatype loop_kind = RepeatedCall | RepeatedFailure | RepeatedArgumentError

record loop_finding =
  lf_kind :: loop_kind
  lf_tool :: string
  lf_count :: nat

definition REPEAT_LIMIT :: nat where "REPEAT_LIMIT = 3"
definition FAILURE_LIMIT :: nat where "FAILURE_LIMIT = 3"
definition ARGUMENT_ERROR_LIMIT :: nat where "ARGUMENT_ERROR_LIMIT = 4"

fun finding_limit :: "loop_kind \<Rightarrow> nat" where
  "finding_limit RepeatedCall = REPEAT_LIMIT"
| "finding_limit RepeatedFailure = FAILURE_LIMIT"
| "finding_limit RepeatedArgumentError = ARGUMENT_ERROR_LIMIT"

fun finding_code :: "loop_kind \<Rightarrow> string" where
  "finding_code RepeatedCall = ''runtime.tool_call_repeated''"
| "finding_code RepeatedFailure = ''runtime.tool_failures_repeated''"
| "finding_code RepeatedArgumentError = ''runtime.tool_argument_errors_repeated''"

definition stopped :: "loop_finding \<Rightarrow> bool" where
  "stopped f = (finding_limit (lf_kind f) \<le> lf_count f)"

definition warns :: "loop_finding \<Rightarrow> bool" where
  "warns f = (lf_count f + 1 = finding_limit (lf_kind f) \<and> 0 < lf_count f)"

record tool_counters =
  tc_arguments :: nat
  tc_failures :: nat

record scan_state =
  sc_tools :: "(string \<times> tool_counters) list"
  sc_repeats :: "(string \<times> string \<times> nat) list"
  sc_by_step :: "(ident \<times> loop_finding) list"

datatype failure = ArgumentFailure | ExecutionFailure

definition BUDGET_EXCEEDED_CODE :: string where "BUDGET_EXCEEDED_CODE = ''budget_exceeded''"
definition INVALID_ARGUMENTS_CODE :: string where
  "INVALID_ARGUMENTS_CODE = ''tool.invalid_arguments''"
definition DATA_SCOPE_VIOLATION_CODE :: string where
  "DATA_SCOPE_VIOLATION_CODE = ''agent_data_scope_violation''"

section \<open>Operations\<close>

definition failure_kind :: "tool_result \<Rightarrow> failure option" where
  "failure_kind r =
     (if res_success r then None
      else if res_approval_required r \<or> res_policy r = PolicyDeny then None
      else if res_error_code r = Some BUDGET_EXCEEDED_CODE then None
      else if res_error_code r \<in> {Some INVALID_ARGUMENTS_CODE, Some DATA_SCOPE_VIOLATION_CODE}
      then Some ArgumentFailure
      else if res_argument_errors r then Some ArgumentFailure
      else Some ExecutionFailure)"

text \<open>The steps the guard looks at: finished calls of the model.\<close>

definition counted :: "run_step \<Rightarrow> (tool_call \<times> tool_result) option" where
  "counted s =
     (case (step_call s, step_result s) of
        (Some c, Some r) \<Rightarrow>
          if step_status s \<in> {StepCompleted, StepFailed}
             \<and> res_authorization r \<notin> {Some ''control_plane'', Some ''confirmation''}
          then Some (c, r) else None
      | _ \<Rightarrow> None)"

definition counters_of :: "(string \<times> tool_counters) list \<Rightarrow> string \<Rightarrow> tool_counters" where
  "counters_of ts name =
     (case map_of ts name of None \<Rightarrow> \<lparr>tc_arguments = 0, tc_failures = 0\<rparr> | Some c \<Rightarrow> c)"

definition note_finding ::
    "ident \<Rightarrow> loop_kind \<Rightarrow> string \<Rightarrow> nat \<Rightarrow> scan_state \<Rightarrow> scan_state" where
  "note_finding i k name n sc =
     sc\<lparr>sc_by_step := AList.update i \<lparr>lf_kind = k, lf_tool = name, lf_count = n\<rparr> (sc_by_step sc)\<rparr>"

definition scan_success ::
    "(string \<times> json_text \<Rightarrow> string) \<Rightarrow> (json_text option \<Rightarrow> string) \<Rightarrow> scan_state \<Rightarrow> ident
     \<Rightarrow> tool_call \<Rightarrow> tool_result \<Rightarrow> scan_state" where
  "scan_success fp fpo sc i c r =
     (let name = call_name c;
          key = fp (name, call_arguments c);
          out = fpo (res_output r);
          prev = (case map_of (sc_repeats sc) key of None \<Rightarrow> ('''', 0) | Some v \<Rightarrow> v);
          n = (if fst prev = out then snd prev + 1 else 1)
      in note_finding i RepeatedCall name n
           (sc\<lparr>sc_tools := AList.update name \<lparr>tc_arguments = 0, tc_failures = 0\<rparr> (sc_tools sc),
              sc_repeats := AList.update key (out, n) (sc_repeats sc)\<rparr>))"

definition scan_failure ::
    "scan_state \<Rightarrow> ident \<Rightarrow> string \<Rightarrow> failure option \<Rightarrow> scan_state" where
  "scan_failure sc i name k =
     (let t = counters_of (sc_tools sc) name
      in case k of
           Some ArgumentFailure \<Rightarrow>
             note_finding i RepeatedArgumentError name (tc_arguments t + 1)
               (sc\<lparr>sc_tools := AList.update name (t\<lparr>tc_arguments := tc_arguments t + 1\<rparr>) (sc_tools sc)\<rparr>)
         | Some ExecutionFailure \<Rightarrow>
             note_finding i RepeatedFailure name (tc_failures t + 1)
               (sc\<lparr>sc_tools := AList.update name
                    (t\<lparr>tc_arguments := 0, tc_failures := tc_failures t + 1\<rparr>) (sc_tools sc)\<rparr>)
         | None \<Rightarrow> sc\<lparr>sc_tools := AList.update name t (sc_tools sc)\<rparr>)"

definition scan_step ::
    "(string \<times> json_text \<Rightarrow> string) \<Rightarrow> (json_text option \<Rightarrow> string) \<Rightarrow> scan_state \<Rightarrow> run_step
     \<Rightarrow> scan_state" where
  "scan_step fp fpo sc s =
     (case counted s of
        None \<Rightarrow> sc
      | Some (c, r) \<Rightarrow>
          if res_success r then scan_success fp fpo sc (step_id s) c r
          else scan_failure sc (step_id s) (call_name c) (failure_kind r))"

definition scan ::
    "(string \<times> json_text \<Rightarrow> string) \<Rightarrow> (json_text option \<Rightarrow> string) \<Rightarrow> run_step list \<Rightarrow> scan_state" where
  "scan fp fpo steps = foldl (scan_step fp fpo) \<lparr>sc_tools = [], sc_repeats = [], sc_by_step = []\<rparr> steps"

fun tool_finding :: "(string \<times> tool_counters) list \<Rightarrow> loop_finding option" where
  "tool_finding [] = None"
| "tool_finding ((name, t) # ts) =
     (if ARGUMENT_ERROR_LIMIT \<le> tc_arguments t
      then Some \<lparr>lf_kind = RepeatedArgumentError, lf_tool = name, lf_count = tc_arguments t\<rparr>
      else if FAILURE_LIMIT \<le> tc_failures t
      then Some \<lparr>lf_kind = RepeatedFailure, lf_tool = name, lf_count = tc_failures t\<rparr>
      else tool_finding ts)"

definition stop_finding ::
    "(string \<times> json_text \<Rightarrow> string) \<Rightarrow> (json_text option \<Rightarrow> string) \<Rightarrow> run_step list
     \<Rightarrow> loop_finding option" where
  "stop_finding fp fpo steps =
     (let sc = scan fp fpo steps
      in case tool_finding (sc_tools sc) of
           Some f \<Rightarrow> Some f
         | None \<Rightarrow> find (\<lambda>f. lf_kind f = RepeatedCall \<and> stopped f) (map snd (sc_by_step sc)))"

definition step_finding ::
    "(string \<times> json_text \<Rightarrow> string) \<Rightarrow> (json_text option \<Rightarrow> string) \<Rightarrow> run_step list \<Rightarrow> ident
     \<Rightarrow> loop_finding option" where
  "step_finding fp fpo steps i = map_of (sc_by_step (scan fp fpo steps)) i"

section \<open>The reference: runs of equal outcomes at the end\<close>

text \<open>The outcomes of one tool, oldest first.\<close>

datatype tool_outcome = Succeeded | Argument | Execution | Uncounted

definition result_outcome :: "tool_result \<Rightarrow> tool_outcome" where
  "result_outcome r =
     (if res_success r then Succeeded
      else case failure_kind r of
             None \<Rightarrow> Uncounted
           | Some ArgumentFailure \<Rightarrow> Argument
           | Some ExecutionFailure \<Rightarrow> Execution)"

definition outcomes :: "string \<Rightarrow> run_step list \<Rightarrow> tool_outcome list" where
  "outcomes name steps =
     concat (map (\<lambda>s. case counted s of
                        None \<Rightarrow> []
                      | Some (c, r) \<Rightarrow>
                          if call_name c = name \<and> result_outcome r \<noteq> Uncounted then [result_outcome r] else [])
               steps)"

definition failures_in_a_row :: "tool_outcome list \<Rightarrow> nat" where
  "failures_in_a_row os =
     length (filter (\<lambda>x. x = Execution) (takeWhile (\<lambda>x. x \<noteq> Succeeded) (rev os)))"

definition argument_errors_in_a_row :: "tool_outcome list \<Rightarrow> nat" where
  "argument_errors_in_a_row os = length (takeWhile (\<lambda>x. x = Argument) (rev os))"

lemma outcomes_append: "outcomes name (xs @ ys) = outcomes name xs @ outcomes name ys"
  by (simp add: outcomes_def)

lemma failures_snoc:
  "failures_in_a_row (os @ [x]) =
     (case x of Succeeded \<Rightarrow> 0 | Execution \<Rightarrow> Suc (failures_in_a_row os) | _ \<Rightarrow> failures_in_a_row os)"
  by (cases x) (simp_all add: failures_in_a_row_def)

lemma argument_errors_snoc:
  "argument_errors_in_a_row (os @ [x]) =
     (case x of Argument \<Rightarrow> Suc (argument_errors_in_a_row os) | _ \<Rightarrow> 0)"
  by (cases x) (simp_all add: argument_errors_in_a_row_def)

lemma scan_snoc: "scan fp fpo (xs @ [x]) = scan_step fp fpo (scan fp fpo xs) x"
  by (simp add: scan_def)

lemma counters_of_update:
  "counters_of (AList.update k v ts) n = (if n = k then v else counters_of ts n)"
  by (simp add: counters_of_def update_conv')

lemma sc_tools_note [simp]: "sc_tools (note_finding i k name n sc) = sc_tools sc"
  by (simp add: note_finding_def)

lemma scan_counters:
  "counters_of (sc_tools (scan fp fpo steps)) name =
     \<lparr>tc_arguments = argument_errors_in_a_row (outcomes name steps),
      tc_failures = failures_in_a_row (outcomes name steps)\<rparr>"
proof (induction steps rule: rev_induct)
  case Nil
  show ?case
    by (simp add: scan_def counters_of_def outcomes_def failures_in_a_row_def
        argument_errors_in_a_row_def)
next
  case (snoc s steps)
  show ?case
  proof (cases "counted s")
    case None
    with snoc show ?thesis by (simp add: scan_snoc scan_step_def outcomes_append outcomes_def)
  next
    case (Some cr)
    obtain c r where cr: "cr = (c, r)" by (cases cr)
    consider "res_success r" | "\<not> res_success r" "failure_kind r = None"
      | "\<not> res_success r" "failure_kind r = Some ArgumentFailure"
      | "\<not> res_success r" "failure_kind r = Some ExecutionFailure"
      by (metis failure.exhaust not_None_eq)
    then show ?thesis
      using snoc Some
      by cases (auto simp: cr scan_snoc scan_step_def scan_success_def scan_failure_def Let_def
          counters_of_update outcomes_append failures_snoc argument_errors_snoc
          outcomes_def[of _ "[s]"] result_outcome_def)
  qed
qed

text \<open>The equal results in a row of one call, and its successful outputs oldest first.\<close>

definition outputs ::
    "(string \<times> json_text \<Rightarrow> string) \<Rightarrow> (json_text option \<Rightarrow> string) \<Rightarrow> string \<Rightarrow> run_step list
     \<Rightarrow> string list" where
  "outputs fp fpo key steps =
     concat (map (\<lambda>s. case counted s of
                        None \<Rightarrow> []
                      | Some (c, r) \<Rightarrow>
                          if res_success r \<and> fp (call_name c, call_arguments c) = key
                          then [fpo (res_output r)] else []) steps)"

definition same_in_a_row :: "string list \<Rightarrow> nat" where
  "same_in_a_row os = (case rev os of [] \<Rightarrow> 0 | x # xs \<Rightarrow> Suc (length (takeWhile (\<lambda>y. y = x) xs)))"

lemma outputs_append: "outputs fp fpo key (xs @ ys) = outputs fp fpo key xs @ outputs fp fpo key ys"
  by (simp add: outputs_def)

lemma same_in_a_row_snoc:
  "same_in_a_row (os @ [x]) = (if os \<noteq> [] \<and> last os = x then Suc (same_in_a_row os) else 1)"
proof (cases os rule: rev_cases)
  case (snoc ys y)
  then show ?thesis by (auto simp: same_in_a_row_def)
qed (simp add: same_in_a_row_def)

lemma sc_repeats_note [simp]: "sc_repeats (note_finding i k name n sc) = sc_repeats sc"
  by (simp add: note_finding_def)

lemma scan_failure_repeats [simp]: "sc_repeats (scan_failure sc i name k) = sc_repeats sc"
  by (simp add: scan_failure_def Let_def split: option.split failure.split)

lemma scan_repeats:
  assumes "\<And>v. fpo v \<noteq> []"
  shows "map_of (sc_repeats (scan fp fpo steps)) key =
     (if outputs fp fpo key steps = [] then None
      else Some (last (outputs fp fpo key steps), same_in_a_row (outputs fp fpo key steps)))"
proof (induction steps arbitrary: key rule: rev_induct)
  case Nil
  show ?case by (simp add: scan_def outputs_def)
next
  case (snoc s steps)
  show ?case
  proof (cases "counted s")
    case None
    with snoc show ?thesis by (simp add: scan_snoc scan_step_def outputs_append outputs_def)
  next
    case (Some cr)
    obtain c r where cr: "cr = (c, r)" by (cases cr)
    show ?thesis
    proof (cases "res_success r")
      case True
      then show ?thesis
        using snoc Some assms
        by (auto simp: cr scan_snoc scan_step_def scan_success_def Let_def update_conv'
            outputs_append same_in_a_row_snoc outputs_def[of _ _ _ "[s]"])
    next
      case False
      then show ?thesis
        using snoc Some
        by (simp add: cr scan_snoc scan_step_def outputs_append outputs_def[of _ _ _ "[s]"])
    qed
  qed
qed


section \<open>The findings of the steps\<close>

lemma scan_step_keys:
  "distinct (map fst (sc_tools sc)) \<Longrightarrow> distinct (map fst (sc_tools (scan_step fp fpo sc s)))"
  by (auto simp: scan_step_def scan_success_def scan_failure_def Let_def distinct_update
      split: option.split failure.split)

lemma scan_tools_distinct: "distinct (map fst (sc_tools (scan fp fpo steps)))"
  by (induction steps rule: rev_induct)
    (simp_all add: scan_snoc scan_step_keys, simp add: scan_def)

lemma tool_finding_None:
  "tool_finding ts = None \<longleftrightarrow>
   (\<forall>nt\<in>set ts. tc_arguments (snd nt) < ARGUMENT_ERROR_LIMIT \<and> tc_failures (snd nt) < FAILURE_LIMIT)"
  by (induction ts rule: tool_finding.induct) auto

lemma counters_below:
  assumes "distinct (map fst ts)"
  shows "(\<forall>nt\<in>set ts. tc_arguments (snd nt) < ARGUMENT_ERROR_LIMIT \<and> tc_failures (snd nt) < FAILURE_LIMIT)
     \<longleftrightarrow> (\<forall>n. tc_arguments (counters_of ts n) < ARGUMENT_ERROR_LIMIT
              \<and> tc_failures (counters_of ts n) < FAILURE_LIMIT)"
    (is "?L \<longleftrightarrow> ?R")
proof
  assume ?L
  then show ?R
    by (auto simp: counters_of_def ARGUMENT_ERROR_LIMIT_def FAILURE_LIMIT_def
        dest!: map_of_SomeD split: option.split)
next
  assume R: ?R
  show ?L
  proof
    fix nt assume "nt \<in> set ts"
    then have "map_of ts (fst nt) = Some (snd nt)"
      using assms by (metis map_of_is_SomeI prod.collapse)
    then have "counters_of ts (fst nt) = snd nt" by (simp add: counters_of_def)
    with R show "tc_arguments (snd nt) < ARGUMENT_ERROR_LIMIT \<and> tc_failures (snd nt) < FAILURE_LIMIT"
      by metis
  qed
qed

lemma update_fresh: "k \<notin> fst ` set al \<Longrightarrow> AList.update k v al = al @ [(k, v)]"
  by (induction al) auto

text \<open>What the guard records for the last of some steps.\<close>

definition last_finding ::
    "(string \<times> json_text \<Rightarrow> string) \<Rightarrow> (json_text option \<Rightarrow> string) \<Rightarrow> run_step list \<Rightarrow> run_step
     \<Rightarrow> loop_finding list" where
  "last_finding fp fpo before s =
     (case counted s of
        None \<Rightarrow> []
      | Some (c, r) \<Rightarrow>
          (case result_outcome r of
             Succeeded \<Rightarrow>
               [\<lparr>lf_kind = RepeatedCall, lf_tool = call_name c,
                 lf_count = same_in_a_row (outputs fp fpo (fp (call_name c, call_arguments c)) (before @ [s]))\<rparr>]
           | Argument \<Rightarrow>
               [\<lparr>lf_kind = RepeatedArgumentError, lf_tool = call_name c,
                 lf_count = argument_errors_in_a_row (outcomes (call_name c) (before @ [s]))\<rparr>]
           | Execution \<Rightarrow>
               [\<lparr>lf_kind = RepeatedFailure, lf_tool = call_name c,
                 lf_count = failures_in_a_row (outcomes (call_name c) (before @ [s]))\<rparr>]
           | Uncounted \<Rightarrow> []))"

lemma scan_step_by_step:
  assumes "\<And>v. fpo v \<noteq> []" and "step_id s \<notin> fst ` set (sc_by_step (scan fp fpo steps))"
  shows "sc_by_step (scan fp fpo (steps @ [s])) =
     sc_by_step (scan fp fpo steps) @ map (Pair (step_id s)) (last_finding fp fpo steps s)"
proof (cases "counted s")
  case None
  then show ?thesis by (simp add: scan_snoc scan_step_def last_finding_def)
next
  case (Some cr)
  obtain c r where cr: "cr = (c, r)" by (cases cr)
  let ?sc = "scan fp fpo steps"
  have count: "counters_of (sc_tools ?sc) (call_name c) =
      \<lparr>tc_arguments = argument_errors_in_a_row (outcomes (call_name c) steps),
       tc_failures = failures_in_a_row (outcomes (call_name c) steps)\<rparr>"
    by (rule scan_counters)
  consider "res_success r" | "\<not> res_success r" "failure_kind r = None"
    | "\<not> res_success r" "failure_kind r = Some ArgumentFailure"
    | "\<not> res_success r" "failure_kind r = Some ExecutionFailure"
    by (metis failure.exhaust not_None_eq)
  then show ?thesis
  proof cases
    case 1
    let ?key = "fp (call_name c, call_arguments c)"
    have out: "outputs fp fpo ?key (steps @ [s]) = outputs fp fpo ?key steps @ [fpo (res_output r)]"
      using 1 Some by (simp add: cr outputs_append outputs_def[of _ _ _ "[s]"])
    show ?thesis
      using 1 Some assms scan_repeats[OF assms(1), where fp = fp and steps = steps and key = ?key]
      by (auto simp: cr scan_snoc scan_step_def scan_success_def last_finding_def result_outcome_def Let_def
          note_finding_def update_fresh out same_in_a_row_snoc)
  qed (use Some assms count in \<open>simp_all add: cr scan_snoc scan_step_def scan_failure_def
        last_finding_def result_outcome_def Let_def note_finding_def update_fresh outcomes_append
        outcomes_def[of _ "[s]"] failures_snoc argument_errors_snoc\<close>)
qed

definition findings ::
    "(string \<times> json_text \<Rightarrow> string) \<Rightarrow> (json_text option \<Rightarrow> string) \<Rightarrow> run_step list
     \<Rightarrow> (ident \<times> loop_finding) list" where
  "findings fp fpo steps =
     concat (map (\<lambda>k. map (Pair (step_id (steps ! k))) (last_finding fp fpo (take k steps) (steps ! k)))
       [0..<length steps])"

lemma findings_snoc:
  "findings fp fpo (steps @ [s]) =
     findings fp fpo steps @ map (Pair (step_id s)) (last_finding fp fpo steps s)"
proof -
  have "concat (map (\<lambda>k. map (Pair (step_id ((steps @ [s]) ! k)))
          (last_finding fp fpo (take k (steps @ [s])) ((steps @ [s]) ! k))) [0..<length steps]) =
      findings fp fpo steps"
    unfolding findings_def
    by (intro arg_cong[where f = concat] map_cong refl) (auto simp: nth_append)
  then show ?thesis by (simp add: findings_def[of _ _ "steps @ [s]"])
qed

lemma findings_ids: "fst ` set (findings fp fpo steps) \<subseteq> step_id ` set steps"
  by (auto simp: findings_def)

lemma scan_by_step:
  assumes "\<And>v. fpo v \<noteq> []" and "distinct (map step_id steps)"
  shows "sc_by_step (scan fp fpo steps) = findings fp fpo steps"
  using assms(2)
proof (induction steps rule: rev_induct)
  case Nil
  show ?case by (simp add: scan_def findings_def)
next
  case (snoc s steps)
  then have IH: "sc_by_step (scan fp fpo steps) = findings fp fpo steps" by simp
  have "step_id s \<notin> fst ` set (sc_by_step (scan fp fpo steps))"
    unfolding IH using findings_ids[of fp fpo steps] snoc.prems by auto
  from scan_step_by_step[OF assms(1) this] IH findings_snoc show ?case by metis
qed

section \<open>Properties\<close>

text \<open>C8: the guard stops a run exactly when some tool's calls were rejected for their arguments at
  least four times in a row, or failed three times without a success between, or one call with
  equal arguments gave the same result three times in a row.\<close>

theorem guard_stops_exactly_on_no_progress:
  assumes "\<And>v. fpo v \<noteq> []" and "distinct (map step_id steps)"
  shows "stop_finding fp fpo steps = None \<longleftrightarrow>
     (\<forall>name. argument_errors_in_a_row (outcomes name steps) < ARGUMENT_ERROR_LIMIT
           \<and> failures_in_a_row (outcomes name steps) < FAILURE_LIMIT)
   \<and> (\<forall>k<length steps. \<forall>c r. counted (steps ! k) = Some (c, r) \<and> res_success r \<longrightarrow>
        same_in_a_row (outputs fp fpo (fp (call_name c, call_arguments c)) (take (Suc k) steps))
          < REPEAT_LIMIT)"
proof -
  let ?sc = "scan fp fpo steps"
  have tools: "tool_finding (sc_tools ?sc) = None \<longleftrightarrow>
     (\<forall>name. argument_errors_in_a_row (outcomes name steps) < ARGUMENT_ERROR_LIMIT
           \<and> failures_in_a_row (outcomes name steps) < FAILURE_LIMIT)"
    unfolding tool_finding_None counters_below[OF scan_tools_distinct] scan_counters by simp
  have repeated: "(\<exists>f\<in>set (last_finding fp fpo (take k steps) (steps ! k)). lf_kind f = RepeatedCall \<and> stopped f)
      \<longleftrightarrow> (\<exists>c r. counted (steps ! k) = Some (c, r) \<and> res_success r \<and>
            REPEAT_LIMIT \<le> same_in_a_row (outputs fp fpo (fp (call_name c, call_arguments c)) (take (Suc k) steps)))"
    if "k < length steps" for k
  proof (cases "counted (steps ! k)")
    case (Some cr)
    obtain c r where cr: "cr = (c, r)" by (cases cr)
    have "result_outcome r = Succeeded \<longleftrightarrow> res_success r"
      by (simp add: result_outcome_def split: option.split failure.split)
    then show ?thesis
      using that Some
      by (cases "result_outcome r") (simp_all add: cr last_finding_def stopped_def take_Suc_conv_app_nth)
  qed (simp add: last_finding_def)
  have "find (\<lambda>f. lf_kind f = RepeatedCall \<and> stopped f) (map snd (sc_by_step ?sc)) = None \<longleftrightarrow>
      (\<forall>k<length steps. \<not> (\<exists>f\<in>set (last_finding fp fpo (take k steps) (steps ! k)).
          lf_kind f = RepeatedCall \<and> stopped f))"
    unfolding scan_by_step[OF assms] find_None_iff by (auto simp: findings_def image_iff)
  then have rep: "find (\<lambda>f. lf_kind f = RepeatedCall \<and> stopped f) (map snd (sc_by_step ?sc)) = None \<longleftrightarrow>
      (\<forall>k<length steps. \<forall>c r. counted (steps ! k) = Some (c, r) \<and> res_success r \<longrightarrow>
        same_in_a_row (outputs fp fpo (fp (call_name c, call_arguments c)) (take (Suc k) steps)) < REPEAT_LIMIT)"
    using repeated by (auto simp: not_le[symmetric])
  have "stop_finding fp fpo steps = None \<longleftrightarrow> tool_finding (sc_tools ?sc) = None
      \<and> find (\<lambda>f. lf_kind f = RepeatedCall \<and> stopped f) (map snd (sc_by_step ?sc)) = None"
    by (simp add: stop_finding_def Let_def split: option.split)
  then show ?thesis unfolding tools rep .
qed

definition demo_same :: "string \<Rightarrow> run_step" where
  "demo_same i = \<lparr>step_id = i, step_kind = ''tool'', step_status = StepCompleted,
     step_call = Some \<lparr>call_name = ''t'', call_arguments = ''{}'', call_trace_id = None,
       call_data_scope = None, call_operation_key = None\<rparr>,
     step_result = Some \<lparr>res_name = ''t'', res_success = True, res_output = Some ''[]'',
       res_error_code = None, res_outcome = None, res_operation = None, res_audit_operation = None,
       res_warnings = [], res_approval_required = False, res_policy = PolicyAllow,
       res_argument_errors = False, res_authorization = None\<rparr>,
     step_approval = None, step_started_at = None, step_completed_at = None\<rparr>"

theorem guard_stops_exactly_on_no_progress_witness:
  "stop_finding (\<lambda>x. fst x) (\<lambda>_. ''h'') [demo_same ''1'', demo_same ''2'', demo_same ''3''] \<noteq> None"
proof -
  let ?ss = "[demo_same ''1'', demo_same ''2'', demo_same ''3'']"
  have ne: "\<And>v. (\<lambda>_. ''h'') v \<noteq> []" by simp
  have d: "distinct (map step_id ?ss)" by (simp add: demo_same_def)
  obtain c r where c: "counted (?ss ! 2) = Some (c, r)" "res_success r"
      "fst (call_name c, call_arguments c) = ''t''"
    by (simp add: demo_same_def counted_def)
  have "same_in_a_row (outputs (\<lambda>x. fst x) (\<lambda>_. ''h'') ''t'' (take (Suc 2) ?ss)) = 3"
    by code_simp
  then have "\<not> same_in_a_row (outputs (\<lambda>x. fst x) (\<lambda>_. ''h'') (fst (call_name c, call_arguments c))
      (take (Suc 2) ?ss)) < REPEAT_LIMIT"
    unfolding c(3) by (simp add: REPEAT_LIMIT_def)
  moreover have "2 < length ?ss" by simp
  ultimately show ?thesis
    using guard_stops_exactly_on_no_progress[OF ne d, of "\<lambda>x. fst x"] c(1,2) by blast
qed

end
