(* ===== verification/ErrorKinds.thy ===== *)
theory ErrorKinds
  imports Prelude
begin

text \<open>The classification of the failures of an external call
  (\<open>platform/packages/backend_core/src/pr_backend_core/bounded_calls.py\<close>, first half): the kinds
  and the rule of each, the HTTP status or the structured code an exception carries, and the
  order in which these decide. An exception is a record of what the code reads from it; the
  links to its cause or context are the function \<open>next_exc\<close> on exception identities, so that
  cycles are possible as in Python. Texts are bytes. Number, date and JSON parsing of the
  standard library are parameters.\<close>

section \<open>Kinds and rules\<close>

datatype error_kind =
  RateLimited | QuotaExhausted | Unavailable | ServerError | NotSupported | Network | Tls
| Timeout | Authentication | Permission | NotFound | BadRequest | TooLarge | Safety
| InvalidOutput | Truncated | UnknownKind

datatype disposition = Item | Job

record kind_rule =
  kr_retries :: nat
  kr_disposition :: disposition
  kr_throttle :: bool
  kr_breaker :: bool
  kr_final_retry :: bool
  kr_refresh :: bool
  kr_adaptive_only :: bool

definition plain_rule :: kind_rule where
  "plain_rule = \<lparr>kr_retries = 0, kr_disposition = Item, kr_throttle = False, kr_breaker = False,
     kr_final_retry = False, kr_refresh = False, kr_adaptive_only = False\<rparr>"

fun default_rule :: "error_kind \<Rightarrow> kind_rule" where
  "default_rule RateLimited = plain_rule\<lparr>kr_retries := 8, kr_throttle := True, kr_final_retry := True\<rparr>"
| "default_rule QuotaExhausted = plain_rule\<lparr>kr_disposition := Job\<rparr>"
| "default_rule Unavailable = plain_rule\<lparr>kr_retries := 4, kr_breaker := True, kr_final_retry := True\<rparr>"
| "default_rule ServerError = plain_rule\<lparr>kr_retries := 2, kr_breaker := True, kr_final_retry := True\<rparr>"
| "default_rule NotSupported = plain_rule\<lparr>kr_disposition := Job\<rparr>"
| "default_rule Network = plain_rule\<lparr>kr_retries := 4, kr_breaker := True, kr_final_retry := True\<rparr>"
| "default_rule Tls = plain_rule\<lparr>kr_disposition := Job\<rparr>"
| "default_rule Timeout = plain_rule\<lparr>kr_retries := 3, kr_breaker := True, kr_final_retry := True\<rparr>"
| "default_rule Authentication = plain_rule\<lparr>kr_retries := 1, kr_disposition := Job, kr_refresh := True\<rparr>"
| "default_rule Permission = plain_rule\<lparr>kr_disposition := Job\<rparr>"
| "default_rule NotFound = plain_rule\<lparr>kr_disposition := Job\<rparr>"
| "default_rule BadRequest = plain_rule"
| "default_rule TooLarge = plain_rule\<lparr>kr_retries := 2, kr_adaptive_only := True\<rparr>"
| "default_rule Safety = plain_rule"
| "default_rule InvalidOutput = plain_rule\<lparr>kr_retries := 2\<rparr>"
| "default_rule Truncated = plain_rule\<lparr>kr_retries := 1, kr_adaptive_only := True\<rparr>"
| "default_rule UnknownKind = plain_rule"

datatype network_cause = Dns | Refused | Unreachable | Reset

text \<open>\<open>cl_cause\<close>: the cause whose label the code appends to the detail.\<close>

record classified =
  cl_kind :: error_kind
  cl_status :: "int option"
  cl_retry_after :: "rat option"
  cl_detail :: string
  cl_cause :: "network_cause option"

section \<open>Markers and codes\<close>

definition QUOTA_MARKERS :: "string list" where
  "QUOTA_MARKERS = [''insufficient_quota'', ''quota exceeded'', ''quotaexceeded'',
     ''exceeded your current quota'', ''quota has been exhausted'', ''limitexceeded'',
     ''billing hard limit'', map char_of [0xE5, 0x89, 0xB2 :: nat, 0xE3, 0x82, 0x8A, 0xE5, 0xBD, 0x93, 0xE3, 0x81, 0xA6]]"

definition SAFETY_MARKERS :: "string list" where
  "SAFETY_MARKERS = [''content_filter'', ''content filter'', ''content_policy'', ''content policy'',
     ''safety'', ''responsible ai'', ''inappropriate content'', ''blocked by'']"

definition CONTEXT_MARKERS :: "string list" where
  "CONTEXT_MARKERS = [''context_length_exceeded'', ''context length'', ''maximum context'',
     ''max_model_len'', ''maximum prompt length'', ''too many tokens'', ''input is too long'',
     ''prompt is too long'', ''request too large'', ''payload too large'']"

definition TRUNCATED_MARKERS :: "string list" where
  "TRUNCATED_MARKERS = [''max_output_tokens'', ''max_tokens'', ''finish_reason=length'']"

definition TLS_MARKERS :: "string list" where
  "TLS_MARKERS = [''certificate_verify_failed'', ''certificate verify failed'', ''ssl: certificate'']"

definition ERROR_CODE_STATUS :: "(string \<times> int) list" where
  "ERROR_CODE_STATUS =
    [(''resource_exhausted'', 429), (''rate_limit_exceeded'', 429), (''rate_limit_error'', 429),
     (''rate_limited'', 429), (''too_many_requests'', 429), (''toomanyrequests'', 429),
     (''insufficient_quota'', 429), (''quota_exceeded'', 429), (''unauthenticated'', 401),
     (''notauthenticated'', 401), (''invalid_api_key'', 401), (''authentication_error'', 401),
     (''permission_denied'', 403), (''permission_error'', 403), (''forbidden'', 403),
     (''notauthorizedornotfound'', 404), (''not_found'', 404), (''not_found_error'', 404),
     (''model_not_found'', 404), (''invalid_argument'', 400), (''invalid_request_error'', 400),
     (''invalidparameter'', 400), (''bad_request'', 400), (''failed_precondition'', 400),
     (''deadline_exceeded'', 408), (''request_timeout'', 408), (''payload_too_large'', 413),
     (''unimplemented'', 501), (''internal'', 500), (''internal_error'', 500),
     (''internalservererror'', 500), (''server_error'', 500), (''api_error'', 500),
     (''unavailable'', 503), (''service_unavailable'', 503), (''overloaded'', 503),
     (''overloaded_error'', 503)]"

definition ERROR_CODE_KEYS :: "string list" where
  "ERROR_CODE_KEYS = [''code'', ''status'', ''status_code'', ''http_status'', ''http_code'', ''type'']"

definition STRUCTURED_MAX_DEPTH :: nat where "STRUCTURED_MAX_DEPTH = 6"
definition STRUCTURED_MAX_NODES :: nat where "STRUCTURED_MAX_NODES = 200"
definition STRUCTURED_MAX_TEXT :: nat where "STRUCTURED_MAX_TEXT = 20000"

definition NETWORK_NAMES :: "string list" where
  "NETWORK_NAMES = [''connecterror'', ''connectionerror'', ''transporterror'', ''remoteprotocolerror'',
     ''readerror'', ''writeerror'', ''networkerror'', ''apiconnectionerror'', ''protocolerror'',
     ''gaierror'']"

definition INVALID_OUTPUT_NAMES :: "string list" where
  "INVALID_OUTPUT_NAMES = [''validationerror'', ''jsondecodeerror'', ''responseerror'', ''schemaerror'']"

definition has_marker :: "string list \<Rightarrow> string \<Rightarrow> bool" where
  "has_marker ms text = list_ex (\<lambda>m. sublist m text) ms"

section \<open>Exceptions\<close>

datatype jvalue = JNull | JBool bool | JInt int | JStr string | JList "jvalue list"
  | JMap "(string \<times> jvalue) list"

datatype os_error = ConnRefused | HostUnreach | NetUnreach | ConnReset | BrokenPipe | OtherErrno

record exc =
  ex_names :: "string list"
  ex_ssl_cert :: bool
  ex_ssl :: bool
  ex_timeout :: bool
  ex_connection :: bool
  ex_gaierror :: bool
  ex_errno :: "os_error option"
  ex_members :: "nat list"
  ex_statuses :: "int option list"
  ex_headers :: "(string \<Rightarrow> string option) option"
  ex_text :: string
  ex_roots :: "jvalue list"
  ex_detail :: string

definition status_of :: "exc \<Rightarrow> int option" where
  "status_of e =
     (case find (\<lambda>v. case v of None \<Rightarrow> False | Some n \<Rightarrow> 100 \<le> n \<and> n \<le> 599) (ex_statuses e) of
        None \<Rightarrow> None | Some v \<Rightarrow> v)"

fun exception_chain_from ::
    "(nat \<Rightarrow> nat option) \<Rightarrow> nat \<Rightarrow> nat list \<Rightarrow> nat option \<Rightarrow> nat list" where
  "exception_chain_from next_exc 0 chain current = chain"
| "exception_chain_from next_exc (Suc room) chain current =
     (case current of
        None \<Rightarrow> chain
      | Some i \<Rightarrow>
          if i \<in> set chain then chain
          else exception_chain_from next_exc room (chain @ [i]) (next_exc i))"

definition exception_chain :: "(nat \<Rightarrow> nat option) \<Rightarrow> nat \<Rightarrow> nat list" where
  "exception_chain next_exc i = exception_chain_from next_exc 8 [] (Some i)"

fun errno_cause :: "os_error \<Rightarrow> network_cause option" where
  "errno_cause ConnRefused = Some Refused"
| "errno_cause HostUnreach = Some Unreachable"
| "errno_cause NetUnreach = Some Unreachable"
| "errno_cause ConnReset = Some Reset"
| "errno_cause BrokenPipe = Some Reset"
| "errno_cause OtherErrno = None"

fun network_cause_from ::
    "(nat \<Rightarrow> exc) \<Rightarrow> (nat \<Rightarrow> nat option) \<Rightarrow> nat \<Rightarrow> nat list \<Rightarrow> network_cause option" where
  "network_cause_from info next_exc 0 pending = None"
| "network_cause_from info next_exc (Suc room) [] = None"
| "network_cause_from info next_exc (Suc room) (i # pending) =
     (if ex_gaierror (info i) then Some Dns
      else case Option.bind (ex_errno (info i)) errno_cause of
             Some c \<Rightarrow> Some c
           | None \<Rightarrow>
               network_cause_from info next_exc room
                 (pending @ ex_members (info i) @
                  (case next_exc i of None \<Rightarrow> [] | Some j \<Rightarrow> [j])))"

definition network_failure_cause ::
    "(nat \<Rightarrow> exc) \<Rightarrow> (nat \<Rightarrow> nat option) \<Rightarrow> nat \<Rightarrow> network_cause option" where
  "network_failure_cause info next_exc i = network_cause_from info next_exc 16 [i]"

section \<open>Retry-After\<close>

text \<open>\<open>to_float\<close> is \<open>float\<close> (None for ValueError), \<open>to_date\<close> the seconds of an HTTP date since the
  clock's origin, \<open>now\<close> the clock.\<close>

fun first_float :: "(string \<Rightarrow> rat option) \<Rightarrow> string option list \<Rightarrow> rat option" where
  "first_float to_float [] = None"
| "first_float to_float (None # vs) = first_float to_float vs"
| "first_float to_float (Some v # vs) =
     (case to_float (strip v) of Some x \<Rightarrow> Some x | None \<Rightarrow> first_float to_float vs)"

fun first_delay :: "(string \<Rightarrow> rat option) \<Rightarrow> (string \<Rightarrow> rat option) \<Rightarrow> rat \<Rightarrow> string option list \<Rightarrow> rat option"
  where
  "first_delay to_float to_date now [] = None"
| "first_delay to_float to_date now (None # vs) = first_delay to_float to_date now vs"
| "first_delay to_float to_date now (Some v # vs) =
     (case to_float (strip v) of
        Some x \<Rightarrow> Some (max 0 x)
      | None \<Rightarrow>
          (case to_date (strip v) of None \<Rightarrow> None | Some d \<Rightarrow> Some (max 0 (d - now))))"

definition parse_retry_after ::
    "(string \<Rightarrow> rat option) \<Rightarrow> (string \<Rightarrow> rat option) \<Rightarrow> rat \<Rightarrow> (string \<Rightarrow> string option) option \<Rightarrow> rat option"
  where
  "parse_retry_after to_float to_date now headers =
     (case headers of
        None \<Rightarrow> None
      | Some get \<Rightarrow>
          (case first_float to_float (map get [''retry-after-ms'', ''Retry-After-Ms'']) of
             Some x \<Rightarrow> Some (max 0 x / 1000)
           | None \<Rightarrow> first_delay to_float to_date now (map get [''retry-after'', ''Retry-After''])))"

section \<open>Structured codes\<close>

definition code_name :: "string \<Rightarrow> string" where
  "code_name s = lower (strip s)"

definition status_from_code :: "jvalue \<Rightarrow> int option" where
  "status_from_code v =
     (case v of
        JInt n \<Rightarrow> if 400 \<le> n \<and> n \<le> 599 then Some n else None
      | JStr s \<Rightarrow>
          (let name = code_name s in
           if is_numeral name
           then (let n = numeral_value name in if 400 \<le> n \<and> n \<le> 599 then Some n else None)
           else map_of ERROR_CODE_STATUS
                  (replace_char (CHR '' '') (CHR ''_'') (replace_char (CHR ''-'') (CHR ''_'') name)))
      | _ \<Rightarrow> None)"

definition deeper :: "nat \<Rightarrow> (nat \<times> int) option \<Rightarrow> int \<Rightarrow> (nat \<times> int) option" where
  "deeper depth found status =
     (case found of
        None \<Rightarrow> Some (depth, status)
      | Some (d, s) \<Rightarrow> if d < depth then Some (depth, status) else found)"

fun map_statuses :: "nat \<Rightarrow> (string \<times> jvalue) list \<Rightarrow> (nat \<times> int) option \<Rightarrow> (nat \<times> int) option" where
  "map_statuses depth [] found = found"
| "map_statuses depth ((k, v) # kvs) found =
     map_statuses depth kvs
       (if lower k \<in> set ERROR_CODE_KEYS
        then (case status_from_code v of None \<Rightarrow> found | Some s \<Rightarrow> deeper depth found s)
        else found)"

definition followed :: "jvalue \<Rightarrow> bool" where
  "followed v = (case v of JStr _ \<Rightarrow> True | JMap _ \<Rightarrow> True | JList _ \<Rightarrow> True | _ \<Rightarrow> False)"

text \<open>\<open>json_in\<close> decodes the first JSON object or array of a text of at most 20000 characters.\<close>

fun structured_from ::
    "(string \<Rightarrow> jvalue option) \<Rightarrow> nat \<Rightarrow> (jvalue \<times> nat) list \<Rightarrow> (nat \<times> int) option \<Rightarrow> (nat \<times> int) option"
  where
  "structured_from json_in 0 pending found = found"
| "structured_from json_in (Suc room) [] found = found"
| "structured_from json_in (Suc room) ((v, depth) # pending) found =
     (if STRUCTURED_MAX_DEPTH < depth then structured_from json_in room pending found
      else case v of
             JStr s \<Rightarrow>
               structured_from json_in room
                 (pending @ (case json_in s of
                               None \<Rightarrow> []
                             | Some w \<Rightarrow> if length s \<le> STRUCTURED_MAX_TEXT then [(w, depth + 1)] else []))
                 found
           | JMap kvs \<Rightarrow>
               structured_from json_in room
                 (pending @ map (\<lambda>kv. (snd kv, depth + 1)) (filter (\<lambda>kv. followed (snd kv)) kvs))
                 (map_statuses depth kvs found)
           | JList vs \<Rightarrow> structured_from json_in room (pending @ map (\<lambda>w. (w, depth + 1)) vs) found
           | _ \<Rightarrow> structured_from json_in room pending found)"

definition structured_status :: "(string \<Rightarrow> jvalue option) \<Rightarrow> exc \<Rightarrow> int option" where
  "structured_status json_in e =
     map_option snd
       (structured_from json_in STRUCTURED_MAX_NODES
          (map (\<lambda>v. (v, 0)) (filter (\<lambda>v. v \<noteq> JNull) (ex_roots e))) None)"

section \<open>The kind\<close>

definition kind_from_status :: "int \<Rightarrow> string \<Rightarrow> error_kind" where
  "kind_from_status status text =
     (if status = 429 then
        (if sublist ''quota'' text \<or> has_marker QUOTA_MARKERS text then QuotaExhausted else RateLimited)
      else if status = 401 then Authentication
      else if status = 403 then Permission
      else if status = 404 then
        (if sublist ''notauthorizedornotfound'' text then Permission else NotFound)
      else if status = 408 then Timeout
      else if status = 413 then TooLarge
      else if status = 501 \<or> status = 505 then NotSupported
      else if status = 500 then ServerError
      else if 500 \<le> status then Unavailable
      else if has_marker SAFETY_MARKERS text then Safety
      else if has_marker CONTEXT_MARKERS text then TooLarge
      else if has_marker QUOTA_MARKERS text then QuotaExhausted
      else BadRequest)"

definition kind_from_type :: "exc \<Rightarrow> error_kind option" where
  "kind_from_type e =
     (if ex_ssl_cert e \<or> (ex_ssl e \<and> has_marker TLS_MARKERS (ex_text e)) then Some Tls
      else if list_ex (\<lambda>n. suffix ''incompleteresponseerror'' n) (ex_names e) then Some Truncated
      else if list_ex (\<lambda>n. suffix ''unsupportedinputerror'' n) (ex_names e) then Some NotSupported
      else if ex_timeout e \<or> list_ex (\<lambda>n. sublist ''timeout'' n \<or> sublist ''timedout'' n) (ex_names e)
      then Some Timeout
      else if ex_connection e \<or> list_ex (\<lambda>n. n \<in> set NETWORK_NAMES) (ex_names e) then Some Network
      else if list_ex (\<lambda>n. list_ex (\<lambda>s. suffix s n) INVALID_OUTPUT_NAMES) (ex_names e)
      then Some InvalidOutput
      else None)"

text \<open>The first exception of the chain for which a reading is defined.\<close>

fun first_some :: "('a \<Rightarrow> 'b option) \<Rightarrow> 'a list \<Rightarrow> ('a \<times> 'b) option" where
  "first_some f [] = None"
| "first_some f (x # xs) = (case f x of Some y \<Rightarrow> Some (x, y) | None \<Rightarrow> first_some f xs)"

definition error_status :: "exc \<Rightarrow> int option" where
  "error_status e = (case status_of e of None \<Rightarrow> None | Some s \<Rightarrow> if s < 400 then None else Some s)"

fun join_texts :: "string list \<Rightarrow> string" where
  "join_texts [] = []"
| "join_texts [t] = t"
| "join_texts (t # ts) = t @ '' '' @ join_texts ts"

definition classify_error ::
    "(string \<Rightarrow> jvalue option) \<Rightarrow> ((string \<Rightarrow> string option) option \<Rightarrow> rat option)
     \<Rightarrow> (nat \<Rightarrow> exc) \<Rightarrow> (nat \<Rightarrow> nat option) \<Rightarrow> nat \<Rightarrow> classified" where
  "classify_error json_in retry_after info next_exc i =
     (let chain = map info (exception_chain next_exc i);
          of_kind = (\<lambda>k. \<lparr>cl_kind = k, cl_status = None, cl_retry_after = None,
            cl_detail = ex_detail (info i), cl_cause = None\<rparr>);
          text = join_texts (map ex_text chain)
      in if list_ex (\<lambda>e. ex_ssl_cert e \<or> (ex_ssl e \<and> has_marker TLS_MARKERS (ex_text e))) chain
         then of_kind Tls
         else if list_ex (\<lambda>e. has_marker TLS_MARKERS (ex_text e)) chain then of_kind Tls
         else
           (case first_some error_status chain of
              Some (e, s) \<Rightarrow>
                (of_kind (kind_from_status s (ex_text e)))
                \<lparr>cl_status := Some s, cl_retry_after := retry_after (ex_headers e)\<rparr>
            | None \<Rightarrow>
                (case first_some (structured_status json_in) chain of
                   Some (e, s) \<Rightarrow>
                     (of_kind (kind_from_status s (ex_text e)))\<lparr>cl_retry_after := retry_after (ex_headers e)\<rparr>
                 | None \<Rightarrow>
                     (case first_some kind_from_type chain of
                        Some (e, k) \<Rightarrow>
                          (of_kind k)\<lparr>cl_cause :=
                             (if k = Network then network_failure_cause info next_exc i else None)\<rparr>
                      | None \<Rightarrow>
                          if has_marker SAFETY_MARKERS text then of_kind Safety
                          else if has_marker TRUNCATED_MARKERS text then of_kind Truncated
                          else of_kind UnknownKind))))"

text \<open>A caller's own classifiers decide first; one that only gives the kind keeps the rest of the
  default.\<close>

datatype verdict = Full classified | KindOnly error_kind

fun chain_classifiers :: "classified \<Rightarrow> (nat \<Rightarrow> verdict option) list \<Rightarrow> nat \<Rightarrow> classified" where
  "chain_classifiers base [] i = base"
| "chain_classifiers base (c # cs) i =
     (case c i of
        None \<Rightarrow> chain_classifiers base cs i
      | Some (Full r) \<Rightarrow> r
      | Some (KindOnly k) \<Rightarrow> base\<lparr>cl_kind := k\<rparr>)"

section \<open>Lemmas\<close>

lemma exception_chain_from_distinct:
  "distinct chain \<Longrightarrow> distinct (exception_chain_from next_exc room chain current)"
  by (induction next_exc room chain current rule: exception_chain_from.induct)
    (auto split: option.splits)

lemma exception_chain_from_length:
  "length (exception_chain_from next_exc room chain current) \<le> length chain + room"
proof (induction next_exc room chain current rule: exception_chain_from.induct)
  case (2 next_exc room chain current)
  then show ?case by (fastforce split: option.splits)
qed simp

section \<open>Properties\<close>

text \<open>the HTTP statuses that stop a whole job at once, without a second call for the same
  fault: authentication (after its one retry), permission, not found, not supported, and a used-up
  quota whether it comes as 429 or as a request error; every other status is the failure of one
  item.\<close>

theorem job_stopping_statuses:
  "kr_disposition (default_rule (kind_from_status s text)) = Job \<longleftrightarrow>
     s \<in> {401, 403, 404, 501, 505}
   \<or> (s = 429 \<and> (sublist ''quota'' text \<or> has_marker QUOTA_MARKERS text))
   \<or> (s \<notin> {408, 413, 429} \<and> s < 500 \<and> \<not> has_marker SAFETY_MARKERS text
        \<and> \<not> has_marker CONTEXT_MARKERS text \<and> has_marker QUOTA_MARKERS text)"
  by (auto simp: kind_from_status_def plain_rule_def)

theorem job_stopping_statuses_witness:
  "kr_disposition (default_rule (kind_from_status 429 ''quota exceeded'')) = Job"
  using job_stopping_statuses[of 429 "''quota exceeded''"] by (simp add: has_marker_def QUOTA_MARKERS_def)

text \<open>the classification looks at no more than eight exceptions, each once, even when causes
  form a cycle, and the first is the exception itself.\<close>

theorem exception_chain_is_bounded:
  "length (exception_chain next_exc i) \<le> 8 \<and> distinct (exception_chain next_exc i)
   \<and> exception_chain next_exc i \<noteq> [] \<and> hd (exception_chain next_exc i) = i"
proof -
  have keep: "chain \<noteq> [] \<Longrightarrow> exception_chain_from next_exc room chain current \<noteq> [] \<and>
      hd (exception_chain_from next_exc room chain current) = hd chain" for room chain current
    by (induction next_exc room chain current rule: exception_chain_from.induct)
      (auto split: option.splits)
  have "exception_chain next_exc i = exception_chain_from next_exc 7 [i] (next_exc i)"
    by (simp add: exception_chain_def eval_nat_numeral)
  with keep[of "[i]" 7 "next_exc i"] exception_chain_from_distinct[of "[]" next_exc 8 "Some i"]
    exception_chain_from_length[of next_exc 8 "[]" "Some i"]
  show ?thesis by (simp add: exception_chain_def)
qed

end
