(* ===== verification/BoundedCalls.thy ===== *)
theory BoundedCalls
  imports ErrorKinds
begin

text \<open>The bounded caller (\<open>platform/packages/backend_core/src/pr_backend_core/bounded_calls.py\<close>,
  \<open>BoundedCallPolicy\<close> and \<open>BoundedCaller\<close>): the limit that adapts, the pause, the retry
  budget, the circuit breaker, the waits, one call with its retries, and the calls of a batch.
  The event loop interleaves calls only at an await that suspends, so a call is a sequence of
  atomic steps on the shared state: taking a slot, and settling the result of an attempt. The
  release of a slot and the settling are one step: the lock of the condition is never held over a
  suspension, so the \<open>await\<close> in \<open>_release\<close> does not suspend. The clock reading and the random
  number of a step are its arguments; seconds are exact. Observation events, the reason texts,
  the refresh of credentials, the timeout of an attempt (one more exception of the attempt) and
  log lines are not modelled.\<close>

section \<open>Policy\<close>

record policy =
  p_max :: int
  p_min :: int
  p_backoff_base :: rat
  p_backoff_max :: rat
  p_retry_after_max :: rat
  p_decrease_factor :: rat
  p_increase_after :: int
  p_budget_initial :: rat
  p_budget_ratio :: rat
  p_breaker_threshold :: int
  p_breaker_cooldown :: rat
  p_breaker_probes :: int
  p_final_delay :: rat
  p_final_attempts :: int
  p_fail_job :: bool
  p_heartbeat :: rat
  p_deadline :: "rat option"
  p_rules :: "error_kind \<Rightarrow> kind_rule option"

definition default_policy :: policy where
  "default_policy =
     \<lparr>p_max = 4, p_min = 1, p_backoff_base = 1, p_backoff_max = 60, p_retry_after_max = 300,
      p_decrease_factor = 1 / 2, p_increase_after = 5, p_budget_initial = 10,
      p_budget_ratio = 1 / 5, p_breaker_threshold = 10, p_breaker_cooldown = 30,
      p_breaker_probes = 3, p_final_delay = 30, p_final_attempts = 1, p_fail_job = False,
      p_heartbeat = 10, p_deadline = None, p_rules = (\<lambda>k. Some (default_rule k))\<rparr>"

datatype policy_error = BadMax | BadMin | BadFactor

definition check_policy :: "policy \<Rightarrow> policy_error option" where
  "check_policy p =
     (if p_max p < 1 then Some BadMax
      else if \<not> (1 \<le> p_min p \<and> p_min p \<le> p_max p) then Some BadMin
      else if \<not> (0 < p_decrease_factor p \<and> p_decrease_factor p < 1) then Some BadFactor
      else None)"

definition policy_rule :: "policy \<Rightarrow> error_kind \<Rightarrow> kind_rule" where
  "policy_rule p k = (case p_rules p k of Some r \<Rightarrow> r | None \<Rightarrow> default_rule k)"

section \<open>State\<close>

datatype breaker = Closed | Open | HalfOpen

record aborted =
  ab_kind :: error_kind
  ab_status :: "int option"
  ab_attempts :: int

record caller =
  c_started :: rat
  c_limit :: int
  c_in_flight :: int
  c_pause_until :: rat
  c_guard_until :: "rat option"
  c_since_change :: int
  c_budget :: rat
  c_consecutive :: "error_kind \<Rightarrow> int"
  c_breaker :: breaker
  c_breaker_kind :: "error_kind option"
  c_breaker_probes :: int
  c_probe_in_flight :: bool
  c_aborted :: "aborted option"
  c_count_calls :: int
  c_successes :: int
  c_retries :: int
  c_failures :: int
  c_items_failed :: int

definition new_caller :: "policy \<Rightarrow> rat \<Rightarrow> caller" where
  "new_caller p now =
     \<lparr>c_started = now, c_limit = p_max p, c_in_flight = 0, c_pause_until = 0,
      c_guard_until = None, c_since_change = 0, c_budget = p_budget_initial p,
      c_consecutive = (\<lambda>_. 0), c_breaker = Closed, c_breaker_kind = None,
      c_breaker_probes = 0, c_probe_in_flight = False, c_aborted = None, c_count_calls = 0,
      c_successes = 0, c_retries = 0, c_failures = 0, c_items_failed = 0\<rparr>"

section \<open>Waiting\<close>

text \<open>The chunks a wait sleeps. The clock is read before each chunk; \<open>clock\<close> gives the readings.\<close>

definition WAIT_EPS :: rat where "WAIT_EPS = 1 / 1000000000"

lemma wait_chunks_measure:
  fixes s :: rat
  assumes "WAIT_EPS < d" and "d \<le> s"
  shows "nat \<lceil>(s - d) / WAIT_EPS\<rceil> < nat \<lceil>s / WAIT_EPS\<rceil>"
proof -
  have "(s - d) / WAIT_EPS \<le> s / WAIT_EPS - 1"
    using assms(1) by (simp add: WAIT_EPS_def field_simps)
  then have "\<lceil>(s - d) / WAIT_EPS\<rceil> \<le> \<lceil>s / WAIT_EPS\<rceil> - 1"
    using ceiling_mono[of "(s - d) / WAIT_EPS" "s / WAIT_EPS - 1"] by simp
  moreover have "0 < \<lceil>s / WAIT_EPS\<rceil>"
    using assms by (simp add: WAIT_EPS_def)
  ultimately show ?thesis by simp
qed

function wait_chunks :: "(nat \<Rightarrow> rat) \<Rightarrow> rat \<Rightarrow> rat \<Rightarrow> rat \<Rightarrow> rat \<Rightarrow> nat \<Rightarrow> rat list" where
  "wait_chunks clock deadline seconds interval slept n =
     (let remaining = min (deadline - clock n) (seconds - slept);
          chunk = min remaining (max (1 / 1000) interval)
      in if remaining \<le> WAIT_EPS then []
         else chunk # wait_chunks clock deadline seconds interval (slept + chunk) (n + 1))"
  by pat_completeness auto

termination
proof (relation "measure (\<lambda>(clock, deadline, seconds, interval, slept, n). nat \<lceil>(seconds - slept) / WAIT_EPS\<rceil>)")
  fix clock deadline seconds interval slept and n :: nat and remaining chunk :: rat
  assume r: "remaining = min (deadline - clock n) (seconds - slept)"
    and c: "chunk = min remaining (max (1 / 1000) interval)" and g: "\<not> remaining \<le> WAIT_EPS"
  have "WAIT_EPS < chunk" using g c by (auto simp: WAIT_EPS_def min_def max_def)
  moreover have "chunk \<le> seconds - slept" using r c by simp
  ultimately show "((clock, deadline, seconds, interval, slept + chunk, n + 1),
      (clock, deadline, seconds, interval, slept, n))
      \<in> measure (\<lambda>(clock, deadline, seconds, interval, slept, n). nat \<lceil>(seconds - slept) / WAIT_EPS\<rceil>)"
    using wait_chunks_measure[of chunk "seconds - slept"] by (simp add: algebra_simps)
qed simp

declare wait_chunks.simps [simp del]

definition wait :: "policy \<Rightarrow> (nat \<Rightarrow> rat) \<Rightarrow> rat \<Rightarrow> rat list" where
  "wait p clock seconds =
     (if seconds \<le> 0 then []
      else wait_chunks clock (clock 0 + seconds) seconds (p_heartbeat p) 0 1)"

section \<open>Slots\<close>

datatype acquired = Raised aborted | Paused rat | Blocked | Granted bool

definition half_open :: "caller \<Rightarrow> caller" where
  "half_open c =
     (if c_breaker c = Open then c\<lparr>c_breaker := HalfOpen, c_probe_in_flight := False\<rparr> else c)"

text \<open>One turn of the loop of \<open>_acquire\<close>: a raise, a wait to come back from, a wait for a notification,
  or a slot.\<close>

definition acquire :: "caller \<Rightarrow> rat \<Rightarrow> caller \<times> acquired" where
  "acquire c now =
     (case c_aborted c of
        Some a \<Rightarrow> (c, Raised a)
      | None \<Rightarrow>
          if now < c_pause_until c then (c, Paused (c_pause_until c - now))
          else
            let c = half_open c
            in if c_breaker c = HalfOpen then
                 (if \<not> c_probe_in_flight c \<and> c_in_flight c = 0
                  then (c\<lparr>c_probe_in_flight := True, c_in_flight := c_in_flight c + 1\<rparr>, Granted True)
                  else (c, Blocked))
               else if c_in_flight c < c_limit c
               then (c\<lparr>c_in_flight := c_in_flight c + 1\<rparr>, Granted False)
               else (c, Blocked))"

definition release :: "caller \<Rightarrow> bool \<Rightarrow> caller" where
  "release c probe =
     (let c = c\<lparr>c_in_flight := c_in_flight c - 1\<rparr>
      in if probe then c\<lparr>c_probe_in_flight := False\<rparr> else c)"

definition pause :: "caller \<Rightarrow> rat \<Rightarrow> rat \<Rightarrow> caller" where
  "pause c seconds now =
     (if c_pause_until c < now + seconds then c\<lparr>c_pause_until := now + seconds\<rparr> else c)"

definition decreased_limit :: "policy \<Rightarrow> int \<Rightarrow> int" where
  "decreased_limit p l = max (p_min p) (min (l - 1) \<lceil>of_int l * p_decrease_factor p\<rceil>)"

definition decrease :: "policy \<Rightarrow> caller \<Rightarrow> rat \<Rightarrow> rat \<Rightarrow> caller" where
  "decrease p c window now =
     (if (case c_guard_until c of None \<Rightarrow> False | Some t \<Rightarrow> now < t) then c
      else c\<lparr>c_guard_until := Some (now + max window (p_backoff_base p)), c_since_change := 0,
             c_limit := decreased_limit p (c_limit c)\<rparr>)"

definition on_success :: "policy \<Rightarrow> caller \<Rightarrow> bool \<Rightarrow> caller" where
  "on_success p c probe =
     (let c = c\<lparr>c_successes := c_successes c + 1, c_budget := c_budget c + p_budget_ratio p,
                c_consecutive := (\<lambda>_. 0)\<rparr>;
          c = (if probe \<or> c_breaker c \<noteq> Closed
               then c\<lparr>c_breaker := Closed, c_breaker_kind := None, c_breaker_probes := 0\<rparr> else c);
          c = c\<lparr>c_since_change := c_since_change c + 1\<rparr>
      in if c_limit c < p_max p \<and> p_increase_after p \<le> c_since_change c
         then c\<lparr>c_limit := c_limit c + 1, c_since_change := 0\<rparr> else c)"

definition open_breaker :: "policy \<Rightarrow> caller \<Rightarrow> error_kind \<Rightarrow> rat \<Rightarrow> caller" where
  "open_breaker p c k now =
     (if c_breaker c = Open then c
      else pause (c\<lparr>c_breaker := Open, c_breaker_kind := Some k\<rparr>)
             (p_breaker_cooldown p * 2 ^ nat (c_breaker_probes c)) now)"

definition abort :: "caller \<Rightarrow> aborted \<Rightarrow> caller \<times> aborted" where
  "abort c a =
     (case c_aborted c of None \<Rightarrow> (c\<lparr>c_aborted := Some a\<rparr>, a) | Some b \<Rightarrow> (c, b))"

definition backoff :: "policy \<Rightarrow> nat \<Rightarrow> rat \<Rightarrow> rat" where
  "backoff p n random = random * min (p_backoff_max p) (p_backoff_base p * 2 ^ (n - 1))"

definition retry_delay :: "policy \<Rightarrow> classified \<Rightarrow> kind_rule \<Rightarrow> nat \<Rightarrow> rat \<Rightarrow> rat" where
  "retry_delay p info rule n random =
     (case cl_retry_after info of
        Some t \<Rightarrow> min t (p_retry_after_max p) + random * p_backoff_base p
      | None \<Rightarrow> if kr_adaptive_only rule then 0 else backoff p n random)"

section \<open>One call\<close>

record call_options =
  o_idempotent :: bool
  o_adaptive :: bool
  o_final :: bool

record call_state =
  k_retries :: "error_kind \<Rightarrow> nat"
  k_count :: nat
  k_last :: "error_kind option"
  k_adaptation :: nat
  k_number :: nat

definition new_call :: call_state where
  "new_call = \<lparr>k_retries = (\<lambda>_. 0), k_count = 0, k_last = None, k_adaptation = 0, k_number = 1\<rparr>"

datatype verdict_of_failure =
  RetryAfter rat
| NextFinal
| StopJob aborted
| FailItem error_kind bool

text \<open>The breaker's reading of a failure, before the retry is decided.\<close>

definition count_failure ::
    "policy \<Rightarrow> caller \<Rightarrow> classified \<Rightarrow> kind_rule \<Rightarrow> bool \<Rightarrow> nat \<Rightarrow> rat \<Rightarrow> caller \<times> aborted option" where
  "count_failure p c info rule probe number now =
     (if kr_breaker rule \<or> kr_throttle rule then
        let n = c_consecutive c (cl_kind info) + 1;
            c = c\<lparr>c_consecutive := (c_consecutive c)(cl_kind info := n)\<rparr>
        in if probe then
             let c = c\<lparr>c_breaker_probes := c_breaker_probes c + 1\<rparr>
             in if p_breaker_probes p \<le> c_breaker_probes c
                then (case abort c \<lparr>ab_kind = cl_kind info, ab_status = cl_status info,
                                    ab_attempts = int number\<rparr> of
                        (c, a) \<Rightarrow> (c, Some a))
                else (open_breaker p (c\<lparr>c_breaker := Closed\<rparr>) (cl_kind info) now, None)
           else if kr_breaker rule \<and> p_breaker_threshold p \<le> n
           then (open_breaker p c (cl_kind info) now, None)
           else (c, None)
      else if probe then (c\<lparr>c_breaker := Closed, c_breaker_probes := 0\<rparr>, None)
      else (c, None))"

definition may_retry ::
    "policy \<Rightarrow> caller \<Rightarrow> call_options \<Rightarrow> kind_rule \<Rightarrow> nat \<Rightarrow> rat \<Rightarrow> bool" where
  "may_retry p c opts rule used now =
     (o_idempotent opts \<and> \<not> o_final opts \<and> used < kr_retries rule
      \<and> (o_adaptive opts \<or> \<not> kr_adaptive_only rule)
      \<and> (case p_deadline p of None \<Rightarrow> True | Some d \<Rightarrow> now < c_started c + d))"

definition give_up ::
    "policy \<Rightarrow> caller \<Rightarrow> call_options \<Rightarrow> call_state \<Rightarrow> classified \<Rightarrow> kind_rule
     \<Rightarrow> caller \<times> call_state \<times> verdict_of_failure" where
  "give_up p c opts k info rule =
     (if o_final opts \<and> int (k_number k) < max 1 (p_final_attempts p) \<and> kr_disposition rule = Item
      then (c, k\<lparr>k_number := k_number k + 1\<rparr>, NextFinal)
      else if kr_disposition rule = Job
      then (case abort c \<lparr>ab_kind = cl_kind info, ab_status = cl_status info,
                          ab_attempts = int (k_number k)\<rparr> of
              (c, a) \<Rightarrow> (c, k, StopJob a))
      else
        let deferred = kr_final_retry rule \<and> \<not> o_final opts \<and> o_idempotent opts
        in (if deferred then c else c\<lparr>c_items_failed := c_items_failed c + 1\<rparr>, k,
            FailItem (cl_kind info) deferred))"

definition retry_call ::
    "caller \<Rightarrow> call_state \<Rightarrow> error_kind \<Rightarrow> kind_rule \<Rightarrow> rat \<Rightarrow> rat \<Rightarrow> caller \<times> call_state \<times> verdict_of_failure"
  where
  "retry_call c k kind rule delay now =
     (let c = c\<lparr>c_retries := c_retries c + 1, c_budget := c_budget c - 1\<rparr>;
          k = k\<lparr>k_retries := (k_retries k)(kind := k_retries k kind + 1),
                k_count := k_count k + 1, k_number := k_number k + 1,
                k_adaptation := k_adaptation k + (if kr_adaptive_only rule then 1 else 0)\<rparr>
      in if kr_throttle rule then (pause c delay now, k, RetryAfter 0)
         else (c, k, RetryAfter delay))"

definition charge_failure :: "policy \<Rightarrow> caller \<Rightarrow> kind_rule \<Rightarrow> bool \<Rightarrow> rat \<Rightarrow> rat \<Rightarrow> caller" where
  "charge_failure p c rule probe delay now =
     (let c = (release c probe)\<lparr>c_failures := c_failures c + 1\<rparr>
      in if kr_throttle rule then decrease p c delay now else c)"

definition settle_failure ::
    "policy \<Rightarrow> caller \<Rightarrow> call_options \<Rightarrow> call_state \<Rightarrow> classified \<Rightarrow> kind_rule \<Rightarrow> rat \<Rightarrow> rat
     \<Rightarrow> caller \<times> call_state \<times> verdict_of_failure" where
  "settle_failure p c opts k info rule delay now =
     (if may_retry p c opts rule (k_retries k (cl_kind info)) now then
        (if c_budget c < 1
         then give_up p
                (if kr_breaker rule \<or> kr_throttle rule
                 then open_breaker p c (cl_kind info) now else c) opts k info rule
         else retry_call c k (cl_kind info) rule delay now)
      else give_up p c opts k info rule)"

definition on_failure ::
    "policy \<Rightarrow> caller \<Rightarrow> call_options \<Rightarrow> call_state \<Rightarrow> classified \<Rightarrow> bool \<Rightarrow> rat \<Rightarrow> rat
     \<Rightarrow> caller \<times> call_state \<times> verdict_of_failure" where
  "on_failure p c opts k info probe random now =
     (let rule = policy_rule p (cl_kind info);
          delay = retry_delay p info rule (k_count k + 1) random;
          k' = k\<lparr>k_last := Some (cl_kind info)\<rparr>
      in case count_failure p (charge_failure p c rule probe delay now) info rule probe (k_number k) now of
           (c, Some a) \<Rightarrow> (c, k', StopJob a)
         | (c, None) \<Rightarrow> settle_failure p c opts k' info rule delay now)"

definition succeed :: "policy \<Rightarrow> caller \<Rightarrow> bool \<Rightarrow> caller" where
  "succeed p c probe = on_success p (release c probe) probe"

section \<open>All calls of a caller\<close>

text \<open>The attempts that hold a slot, with their probe flag, next to the state.\<close>

record system =
  s_caller :: caller
  s_running :: "bool list"

definition drop_nth :: "nat \<Rightarrow> 'a list \<Rightarrow> 'a list" where
  "drop_nth i xs = take i xs @ drop (Suc i) xs"

inductive call_step :: "policy \<Rightarrow> system \<Rightarrow> system \<Rightarrow> bool" for p where
  Take: "acquire (s_caller s) now = (c, Granted probe) \<Longrightarrow>
     call_step p s \<lparr>s_caller = c\<lparr>c_count_calls := c_count_calls c + 1\<rparr>, s_running = s_running s @ [probe]\<rparr>"
| Wait: "acquire (s_caller s) now = (c, w) \<Longrightarrow> (\<And>probe. w \<noteq> Granted probe) \<Longrightarrow>
     call_step p s (s\<lparr>s_caller := c\<rparr>)"
| Success: "i < length (s_running s) \<Longrightarrow>
     call_step p s \<lparr>s_caller = succeed p (s_caller s) (s_running s ! i), s_running = drop_nth i (s_running s)\<rparr>"
| Failure: "i < length (s_running s) \<Longrightarrow>
     on_failure p (s_caller s) opts k info (s_running s ! i) random now = (c, k', v) \<Longrightarrow>
     call_step p s \<lparr>s_caller = c, s_running = drop_nth i (s_running s)\<rparr>"
| Cancelled: "i < length (s_running s) \<Longrightarrow>
     call_step p s \<lparr>s_caller = release (s_caller s) (s_running s ! i), s_running = drop_nth i (s_running s)\<rparr>"

inductive_cases call_stepE: "call_step p s s'"

definition new_system :: "policy \<Rightarrow> rat \<Rightarrow> system" where
  "new_system p now = \<lparr>s_caller = new_caller p now, s_running = []\<rparr>"


section \<open>A batch\<close>

text \<open>What a call of the batch ends with. The first pass and the last retry of index \<open>i\<close> are
  \<open>first i\<close> and \<open>last_retry i\<close>; a job stop carries the caller's one stored error.\<close>

datatype 'v call_result = Value 'v | CallFailed error_kind bool | CallAborted aborted

datatype 'v call_outcome = Done 'v | Error error_kind

definition aborted_in :: "(nat \<Rightarrow> 'v call_result) \<Rightarrow> nat list \<Rightarrow> aborted option" where
  "aborted_in run is =
     (case find (\<lambda>i. case run i of CallAborted _ \<Rightarrow> True | _ \<Rightarrow> False) is of
        None \<Rightarrow> None
      | Some i \<Rightarrow> (case run i of CallAborted a \<Rightarrow> Some a | _ \<Rightarrow> None))"

definition deferred :: "(nat \<Rightarrow> 'v call_result) \<Rightarrow> nat list \<Rightarrow> nat list" where
  "deferred run is = filter (\<lambda>i. case run i of CallFailed _ d \<Rightarrow> d | _ \<Rightarrow> False) is"

definition outcome_of :: "'v call_result \<Rightarrow> 'v call_outcome option" where
  "outcome_of r =
     (case r of Value v \<Rightarrow> Some (Done v) | CallFailed k _ \<Rightarrow> Some (Error k) | CallAborted _ \<Rightarrow> None)"

fun is_error_outcome :: "'v call_outcome option \<Rightarrow> bool" where
  "is_error_outcome (Some (Error k)) = True"
| "is_error_outcome _ = False"

definition map_calls ::
    "policy \<Rightarrow> (nat \<Rightarrow> 'v call_result) \<Rightarrow> (nat \<Rightarrow> 'v call_result) \<Rightarrow> nat
     \<Rightarrow> (aborted + error_kind) + 'v call_outcome option list" where
  "map_calls p first last_retry n =
     (let is = [0..<n]; again = deferred first is
      in case aborted_in first is of
           Some a \<Rightarrow> Inl (Inl a)
         | None \<Rightarrow>
             (case aborted_in last_retry again of
                Some a \<Rightarrow> Inl (Inl a)
              | None \<Rightarrow>
                  let outs = map (\<lambda>i. outcome_of (if i \<in> set again then last_retry i else first i)) is
                  in (case (if p_fail_job p
                            then find is_error_outcome outs else None) of
                        Some (Some (Error k)) \<Rightarrow> Inl (Inr k)
                      | _ \<Rightarrow> Inr outs)))"

section \<open>The limits hold\<close>

definition limits_ok :: "policy \<Rightarrow> caller \<Rightarrow> bool" where
  "limits_ok p c \<longleftrightarrow> p_min p \<le> c_limit c \<and> c_limit c \<le> p_max p"

definition system_ok :: "policy \<Rightarrow> system \<Rightarrow> bool" where
  "system_ok p s \<longleftrightarrow>
     limits_ok p (s_caller s) \<and> c_in_flight (s_caller s) = int (length (s_running s)) \<and>
     int (length (s_running s)) \<le> p_max p \<and>
     (True \<in> set (s_running s) \<longrightarrow> s_running s = [True] \<and> c_breaker (s_caller s) = HalfOpen)"

definition retry_budget_ok :: "policy \<Rightarrow> caller \<Rightarrow> bool" where
  "retry_budget_ok p c \<longleftrightarrow>
     c_budget c = p_budget_initial p + of_int (c_successes c) * p_budget_ratio p - of_int (c_retries c)
     \<and> 0 \<le> c_budget c \<and> 0 \<le> c_successes c \<and> 0 \<le> c_retries c"

lemma decreased_limit_bounds:
  assumes "p_min p \<le> l" and "l \<le> p_max p"
  shows "p_min p \<le> decreased_limit p l" and "decreased_limit p l \<le> l"
    and "p_min p < l \<Longrightarrow> decreased_limit p l < l"
  using assms by (auto simp: decreased_limit_def)

text \<open>The part of the state the limits speak about is not touched by these.\<close>

lemma pause_sel [simp]:
  "c_limit (pause c x n) = c_limit c" "c_in_flight (pause c x n) = c_in_flight c"
  "c_breaker (pause c x n) = c_breaker c" "c_budget (pause c x n) = c_budget c"
  "c_successes (pause c x n) = c_successes c" "c_retries (pause c x n) = c_retries c"
  "c_aborted (pause c x n) = c_aborted c"
  by (simp_all add: pause_def)

lemma open_breaker_sel [simp]:
  "c_limit (open_breaker p c k n) = c_limit c" "c_in_flight (open_breaker p c k n) = c_in_flight c"
  "c_budget (open_breaker p c k n) = c_budget c"
  "c_successes (open_breaker p c k n) = c_successes c" "c_retries (open_breaker p c k n) = c_retries c"
  "c_aborted (open_breaker p c k n) = c_aborted c"
  by (simp_all add: open_breaker_def)

lemma decrease_sel [simp]:
  "c_in_flight (decrease p c w n) = c_in_flight c" "c_budget (decrease p c w n) = c_budget c"
  "c_successes (decrease p c w n) = c_successes c" "c_retries (decrease p c w n) = c_retries c"
  "c_aborted (decrease p c w n) = c_aborted c"
  by (simp_all add: decrease_def)

lemma release_sel [simp]:
  "c_limit (release c b) = c_limit c" "c_in_flight (release c b) = c_in_flight c - 1"
  "c_breaker (release c b) = c_breaker c" "c_budget (release c b) = c_budget c"
  "c_successes (release c b) = c_successes c" "c_retries (release c b) = c_retries c"
  "c_aborted (release c b) = c_aborted c"
  by (simp_all add: release_def Let_def)

lemma abort_sel:
  "abort c a = (c', b) \<Longrightarrow>
   c_limit c' = c_limit c \<and> c_in_flight c' = c_in_flight c \<and> c_budget c' = c_budget c
   \<and> c_successes c' = c_successes c \<and> c_retries c' = c_retries c \<and> c_aborted c' = Some b
   \<and> (c_aborted c = None \<or> c_aborted c = Some b)"
  by (auto simp: abort_def split: option.splits)

lemma decrease_limits [limit_inv]: "limits_ok p c \<Longrightarrow> limits_ok p (decrease p c w n)"
  using decreased_limit_bounds[of p "c_limit c"] by (simp add: limits_ok_def decrease_def)

lemma on_success_limits [limit_inv]: "limits_ok p c \<Longrightarrow> limits_ok p (on_success p c b)"
  by (simp add: limits_ok_def on_success_def Let_def)

lemma count_failure_sel:
  "count_failure p c info rule probe n now = (c', r) \<Longrightarrow>
   c_limit c' = c_limit c \<and> c_in_flight c' = c_in_flight c \<and> c_budget c' = c_budget c
   \<and> c_successes c' = c_successes c \<and> c_retries c' = c_retries c
   \<and> (\<forall>a. c_aborted c = Some a \<longrightarrow> c_aborted c' = Some a)
   \<and> (\<forall>a. r = Some a \<longrightarrow> c_aborted c' = Some a)"
  by (auto simp: count_failure_def Let_def split: if_splits prod.splits dest: abort_sel)

lemma give_up_sel:
  "give_up p c opts k info rule = (c', k', v) \<Longrightarrow>
   c_limit c' = c_limit c \<and> c_in_flight c' = c_in_flight c \<and> c_budget c' = c_budget c
   \<and> c_successes c' = c_successes c \<and> c_retries c' = c_retries c
   \<and> (\<forall>a. c_aborted c = Some a \<longrightarrow> c_aborted c' = Some a)
   \<and> (\<forall>a. v = StopJob a \<longrightarrow> c_aborted c' = Some a)"
  by (auto simp: give_up_def Let_def split: if_splits prod.splits dest: abort_sel)

lemma retry_call_sel:
  "retry_call c k kind rule d now = (c', k', v) \<Longrightarrow>
   c_limit c' = c_limit c \<and> c_in_flight c' = c_in_flight c \<and> c_budget c' = c_budget c - 1
   \<and> c_successes c' = c_successes c \<and> c_retries c' = c_retries c + 1
   \<and> c_aborted c' = c_aborted c"
  by (auto simp: retry_call_def Let_def split: if_splits)

lemma charge_failure_sel:
  "c_in_flight (charge_failure p c rule b d n) = c_in_flight c - 1
   \<and> (limits_ok p c \<longrightarrow> limits_ok p (charge_failure p c rule b d n))
   \<and> (retry_budget_ok p c \<longrightarrow> retry_budget_ok p (charge_failure p c rule b d n))
   \<and> c_aborted (charge_failure p c rule b d n) = c_aborted c"
  using decrease_limits[of p "(release c b)\<lparr>c_failures := c_failures c + 1\<rparr>"]
  by (simp add: charge_failure_def Let_def limits_ok_def retry_budget_ok_def)

lemma settle_failure_sel:
  assumes "settle_failure p c opts k info rule d now = (c', k', v)"
  shows "c_in_flight c' = c_in_flight c \<and> (limits_ok p c \<longrightarrow> limits_ok p c')
     \<and> (retry_budget_ok p c \<longrightarrow> retry_budget_ok p c')
     \<and> (\<forall>a. c_aborted c = Some a \<longrightarrow> c_aborted c' = Some a)
     \<and> (\<forall>a. v = StopJob a \<longrightarrow> c_aborted c' = Some a)"
proof -
  consider c3 where "give_up p c3 opts k info rule = (c', k', v)"
      "c3 = c \<or> c3 = open_breaker p c (cl_kind info) now"
    | "retry_call c k (cl_kind info) rule d now = (c', k', v)" "1 \<le> c_budget c"
    using assms unfolding settle_failure_def by (auto split: if_splits)
  then show ?thesis
  proof cases
    case 1
    then show ?thesis
      using give_up_sel[OF 1(1)] by (auto simp: limits_ok_def retry_budget_ok_def)
  next
    case 2
    have "v \<noteq> StopJob a" for a using 2(1) by (auto simp: retry_call_def Let_def split: if_splits)
    then show ?thesis
      using retry_call_sel[OF 2(1)] 2(2) by (auto simp: limits_ok_def retry_budget_ok_def)
  qed
qed

text \<open>The whole settling of a failure.\<close>

lemma on_failure_sel:
  assumes "on_failure p c opts k info probe random now = (c', k', v)"
  shows "c_in_flight c' = c_in_flight c - 1 \<and> (limits_ok p c \<longrightarrow> limits_ok p c')
     \<and> (retry_budget_ok p c \<longrightarrow> retry_budget_ok p c')
     \<and> (\<forall>a. c_aborted c = Some a \<longrightarrow> c_aborted c' = Some a)
     \<and> (\<forall>a. v = StopJob a \<longrightarrow> c_aborted c' = Some a)"
proof -
  define rule where "rule = policy_rule p (cl_kind info)"
  define d where "d = retry_delay p info rule (k_count k + 1) random"
  define k1 where "k1 = k\<lparr>k_last := Some (cl_kind info)\<rparr>"
  define c1 where "c1 = charge_failure p c rule probe d now"
  obtain c2 r where c2: "count_failure p c1 info rule probe (k_number k) now = (c2, r)"
    by (cases "count_failure p c1 info rule probe (k_number k) now")
  have res: "(c', k', v) = (case r of Some a \<Rightarrow> (c2, k1, StopJob a)
      | None \<Rightarrow> settle_failure p c2 opts k1 info rule d now)"
    using assms c2 unfolding on_failure_def Let_def rule_def d_def k1_def c1_def
    by (simp split: option.splits)
  note s1 = charge_failure_sel[of p c rule probe d now, folded c1_def]
  note s2 = count_failure_sel[OF c2]
  have c2_ok: "limits_ok p c \<longrightarrow> limits_ok p c2" "retry_budget_ok p c \<longrightarrow> retry_budget_ok p c2"
      "c_in_flight c2 = c_in_flight c - 1" "\<forall>a. c_aborted c = Some a \<longrightarrow> c_aborted c2 = Some a"
    using s1 s2 by (auto simp: limits_ok_def retry_budget_ok_def)
  show ?thesis
  proof (cases r)
    case (Some a)
    then show ?thesis using res c2_ok s2 by simp
  next
    case None
    then have "settle_failure p c2 opts k1 info rule d now = (c', k', v)" using res by simp
    then show ?thesis using settle_failure_sel[of p c2 opts k1 info rule d now c' k' v] c2_ok by simp
  qed
qed

lemma half_open_sel [simp]:
  "c_limit (half_open c) = c_limit c" "c_in_flight (half_open c) = c_in_flight c"
  "c_budget (half_open c) = c_budget c" "c_successes (half_open c) = c_successes c"
  "c_retries (half_open c) = c_retries c" "c_aborted (half_open c) = c_aborted c"
  "c_breaker (half_open c) = (if c_breaker c = Open then HalfOpen else c_breaker c)"
  by (simp_all add: half_open_def)

lemma acquire_granted:
  assumes "acquire c now = (c', Granted probe)"
  shows "c_aborted c = None" and "c_in_flight c' = c_in_flight c + 1" and "c_limit c' = c_limit c"
    and "c_budget c' = c_budget c" and "c_successes c' = c_successes c" and "c_retries c' = c_retries c"
    and "c_aborted c' = None"
    and "if probe then c_in_flight c = 0 \<and> c_breaker c' = HalfOpen
         else c_in_flight c < c_limit c \<and> c_breaker c' = Closed"
  using assms
  by (auto simp: acquire_def Let_def split: option.splits if_splits intro: breaker.exhaust
      dest: sym[of HalfOpen])

lemma acquire_waiting:
  assumes "acquire c now = (c', w)" and "\<And>probe. w \<noteq> Granted probe"
  shows "c' = c \<or> c' = half_open c"
  using assms by (auto simp: acquire_def Let_def split: option.splits if_splits)

lemma drop_nth_length: "i < length xs \<Longrightarrow> length (drop_nth i xs) = length xs - 1"
  by (simp add: drop_nth_def)

lemma drop_nth_subset: "set (drop_nth i xs) \<subseteq> set xs"
  by (auto simp: drop_nth_def dest: in_set_takeD in_set_dropD)

lemma drop_nth_single: "i < length [x] \<Longrightarrow> drop_nth i [x] = []"
  by (simp add: drop_nth_def)


text \<open>Settling attempt \<open>i\<close> takes its flag out; a probe is alone, so nothing is left with it.\<close>

lemma settle_running:
  assumes "system_ok p s" and "i < length (s_running s)" and "limits_ok p c"
    and "c_in_flight c = c_in_flight (s_caller s) - 1"
  shows "system_ok p \<lparr>s_caller = c, s_running = drop_nth i (s_running s)\<rparr>"
proof -
  have "True \<notin> set (drop_nth i (s_running s))"
  proof
    assume t: "True \<in> set (drop_nth i (s_running s))"
    then have "s_running s = [True]"
      using assms(1) drop_nth_subset[of i "s_running s"] by (auto simp: system_ok_def)
    with t assms(2) show False by (simp add: drop_nth_def)
  qed
  then show ?thesis
    using assms by (auto simp: system_ok_def drop_nth_length)
qed

lemma call_step_ok:
  assumes "call_step p s s'" and "system_ok p s" and "1 \<le> p_max p"
  shows "system_ok p s'"
  using assms(1)
proof cases
  case (Take now c probe)
  note g = acquire_granted[OF Take(2)]
  have "\<not> probe \<Longrightarrow> True \<notin> set (s_running s)"
  proof
    assume np: "\<not> probe" and t: "True \<in> set (s_running s)"
    then have "c_breaker (s_caller s) = HalfOpen" using assms(2) by (auto simp: system_ok_def)
    moreover have "c_breaker c = HalfOpen \<or> c_breaker c \<noteq> Closed"
      using Take(2) calculation by (auto simp: acquire_def Let_def split: option.splits if_splits)
    ultimately show False using g(8) np by auto
  qed
  moreover have "probe \<Longrightarrow> s_running s = []"
    using g(8) assms(2) by (auto simp: system_ok_def)
  ultimately show ?thesis
    using g assms(2,3) unfolding Take(1)
    by (cases probe) (auto simp: system_ok_def limits_ok_def)
next
  case (Wait now c w)
  have c: "c = s_caller s \<or> c = half_open (s_caller s)" using acquire_waiting[OF Wait(2,3)] by blast
  have "True \<in> set (s_running s) \<Longrightarrow> c_breaker (s_caller s) = HalfOpen"
    using assms(2) by (simp add: system_ok_def)
  then show ?thesis using c assms(2) unfolding Wait(1)
    by (auto simp: system_ok_def limits_ok_def)
next
  case (Success i)
  have "c_in_flight (succeed p (s_caller s) (s_running s ! i)) = c_in_flight (s_caller s) - 1"
    by (simp add: succeed_def on_success_def Let_def)
  moreover have "limits_ok p (succeed p (s_caller s) (s_running s ! i))"
    unfolding succeed_def
    by (rule on_success_limits) (use assms(2) in \<open>simp add: system_ok_def limits_ok_def\<close>)
  ultimately show ?thesis unfolding Success(1) using settle_running[OF assms(2) Success(2)] by blast
next
  case (Failure i opts k info random now c k' v)
  note f = on_failure_sel[OF Failure(3)]
  have "limits_ok p (s_caller s)" using assms(2) by (simp add: system_ok_def)
  with f show ?thesis unfolding Failure(1) using settle_running[OF assms(2) Failure(2)] by blast
next
  case (Cancelled i)
  have "limits_ok p (release (s_caller s) (s_running s ! i))"
    using assms(2) by (simp add: system_ok_def limits_ok_def)
  then show ?thesis
    unfolding Cancelled(1) using settle_running[OF assms(2) Cancelled(2)] by simp
qed

lemma call_step_budget:
  assumes "call_step p s s'" and "retry_budget_ok p (s_caller s)" and "0 \<le> p_budget_ratio p"
  shows "retry_budget_ok p (s_caller s')"
  using assms(1)
proof cases
  case (Take now c probe)
  then show ?thesis using acquire_granted[OF Take(2)] assms(2) by (simp add: retry_budget_ok_def)
next
  case (Wait now c w)
  then show ?thesis using acquire_waiting[OF Wait(2,3)] assms(2) by (auto simp: retry_budget_ok_def)
next
  case (Success i)
  then show ?thesis
    using assms(2,3) by (simp add: retry_budget_ok_def succeed_def on_success_def Let_def algebra_simps)
next
  case (Failure i opts k info random now c k' v)
  then show ?thesis using on_failure_sel[OF Failure(3)] assms(2) by simp
next
  case (Cancelled i)
  then show ?thesis using assms(2) by (simp add: retry_budget_ok_def)
qed

lemma call_step_aborted:
  assumes "call_step p s s'" and "c_aborted (s_caller s) = Some a"
  shows "c_aborted (s_caller s') = Some a \<and> length (s_running s') \<le> length (s_running s)"
  using assms(1)
proof cases
  case (Take now c probe)
  then show ?thesis using acquire_granted(1)[OF Take(2)] assms(2) by simp
next
  case (Wait now c w)
  then show ?thesis using acquire_waiting[OF Wait(2,3)] assms(2) by auto
next
  case (Success i)
  then show ?thesis using assms(2)
    by (simp add: succeed_def on_success_def Let_def drop_nth_length)
next
  case (Failure i opts k info random now c k' v)
  then show ?thesis using on_failure_sel[OF Failure(3)] assms(2) by (simp add: drop_nth_length)
next
  case (Cancelled i)
  then show ?thesis using assms(2) by (simp add: drop_nth_length)
qed

section \<open>The retries of one call\<close>

inductive call_reaches :: "policy \<Rightarrow> call_options \<Rightarrow> call_state \<Rightarrow> bool" for p opts where
  First: "call_reaches p opts new_call"
| Again: "call_reaches p opts k \<Longrightarrow> on_failure p c opts k info probe random now = (c', k', v) \<Longrightarrow>
    v \<in> range RetryAfter \<union> {NextFinal} \<Longrightarrow> call_reaches p opts k'"

definition all_kinds :: "error_kind list" where
  "all_kinds = [RateLimited, QuotaExhausted, Unavailable, ServerError, NotSupported, Network, Tls,
     Timeout, Authentication, Permission, NotFound, BadRequest, TooLarge, Safety, InvalidOutput,
     Truncated, UnknownKind]"

lemma all_kinds: "k \<in> set all_kinds" "distinct all_kinds"
  by (cases k) (simp_all add: all_kinds_def)

lemma sum_list_update:
  assumes "distinct xs" and "x \<in> set xs"
  shows "sum_list (map (f(x := Suc (f x))) xs) = Suc (sum_list (map f xs))"
  using assms
proof (induction xs)
  case (Cons y ys)
  show ?case
  proof (cases "y = x")
    case True
    then have "x \<notin> set ys" using Cons.prems by simp
    then have "map (f(x := Suc (f x))) ys = map f ys" by simp
    then have "sum_list (map (f(x := Suc (f x))) ys) = sum_list (map f ys)" by (rule arg_cong)
    with True show ?thesis by (simp del: fun_upd_apply add: fun_upd_same)
  qed (use Cons in simp)
qed simp

definition call_ok :: "policy \<Rightarrow> call_options \<Rightarrow> call_state \<Rightarrow> bool" where
  "call_ok p opts k \<longleftrightarrow>
     (\<forall>e. k_retries k e \<le> kr_retries (policy_rule p e)) \<and>
     (if o_final opts then 1 \<le> k_number k \<and> int (k_number k) \<le> max 1 (p_final_attempts p)
      else k_number k = Suc (sum_list (map (k_retries k) all_kinds)))"

lemma on_failure_call:
  assumes "on_failure p c opts k info probe random now = (c', k', v)" and "call_ok p opts k"
    and "v \<in> range RetryAfter \<union> {NextFinal}"
  shows "call_ok p opts k'"
proof -
  define rule where "rule = policy_rule p (cl_kind info)"
  define k1 where "k1 = k\<lparr>k_last := Some (cl_kind info)\<rparr>"
  obtain c2 where "settle_failure p c2 opts k1 info rule
      (retry_delay p info rule (k_count k + 1) random) now = (c', k', v)"
    using assms(1,3) unfolding on_failure_def Let_def rule_def k1_def
    by (auto split: prod.splits option.splits)
  then consider d where "retry_call c2 k1 (cl_kind info) rule d now = (c', k', v)"
      "may_retry p c2 opts rule (k_retries k1 (cl_kind info)) now"
    | c3 where "give_up p c3 opts k1 info rule = (c', k', v)"
    unfolding settle_failure_def by (auto split: if_splits)
  then show ?thesis
  proof cases
    case 1
    then have k': "k_number k' = Suc (k_number k)"
        "k_retries k' = (k_retries k)(cl_kind info := Suc (k_retries k (cl_kind info)))"
      by (auto simp: retry_call_def Let_def k1_def split: if_splits)
    have "\<not> o_final opts" "k_retries k (cl_kind info) < kr_retries rule"
      using 1(2) by (simp_all add: may_retry_def k1_def)
    then show ?thesis
      using assms(2) k' sum_list_update[OF all_kinds(2) all_kinds(1)[of "cl_kind info"], where f = "k_retries k"]
      by (auto simp: call_ok_def rule_def)
  next
    case 2
    then have "v = NextFinal" using assms(3) by (auto simp: give_up_def Let_def split: if_splits prod.splits)
    with 2 have "o_final opts" "int (k_number k) < max 1 (p_final_attempts p)"
        "k' = k1\<lparr>k_number := k_number k1 + 1\<rparr>"
      by (auto simp: give_up_def Let_def k1_def split: if_splits prod.splits)
    then show ?thesis using assms(2) by (auto simp: call_ok_def k1_def)
  qed
qed

lemma call_reaches_ok: "call_reaches p opts k \<Longrightarrow> call_ok p opts k"
proof (induction rule: call_reaches.induct)
  case First
  show ?case by (simp add: call_ok_def new_call_def all_kinds_def)
qed (blast intro: on_failure_call)

section \<open>Waits\<close>

lemma wait_chunks_total:
  "sum_list (wait_chunks clock deadline seconds interval slept n) \<le> max 0 (seconds - slept)
   \<and> (\<forall>x\<in>set (wait_chunks clock deadline seconds interval slept n).
        0 < x \<and> x \<le> max (1 / 1000) interval)"
proof (induction clock deadline seconds interval slept n rule: wait_chunks.induct)
  case (1 clock deadline seconds interval slept n)
  define remaining where "remaining = min (deadline - clock n) (seconds - slept)"
  define chunk where "chunk = min remaining (max (1 / 1000) interval)"
  show ?case
  proof (cases "remaining \<le> WAIT_EPS")
    case True
    then show ?thesis
      by (simp add: wait_chunks.simps[of clock deadline seconds interval slept n] Let_def
          remaining_def[symmetric])
  next
    case False
    have IH: "sum_list (wait_chunks clock deadline seconds interval (slept + chunk) (n + 1))
          \<le> max 0 (seconds - (slept + chunk))"
        "\<forall>x\<in>set (wait_chunks clock deadline seconds interval (slept + chunk) (n + 1)).
          0 < x \<and> x \<le> max (1 / 1000) interval"
      using 1[OF remaining_def chunk_def False] by simp_all
    have eq: "wait_chunks clock deadline seconds interval slept n =
        chunk # wait_chunks clock deadline seconds interval (slept + chunk) (n + 1)"
      using False
      by (subst wait_chunks.simps) (simp add: Let_def remaining_def[symmetric] chunk_def[symmetric])
    have pos: "0 < chunk" using False by (auto simp: chunk_def WAIT_EPS_def min_def max_def)
    have le: "chunk \<le> seconds - slept" "chunk \<le> max (1 / 1000) interval"
      by (simp_all add: chunk_def remaining_def)
    show ?thesis unfolding eq using IH pos le by auto
  qed
qed


section \<open>Properties\<close>

lemma call_steps_ok:
  "(call_step p)\<^sup>*\<^sup>* s s' \<Longrightarrow> system_ok p s \<Longrightarrow> 1 \<le> p_max p \<Longrightarrow> system_ok p s'"
  by (induction rule: rtranclp_induct) (auto intro: call_step_ok)

lemma call_steps_budget:
  "(call_step p)\<^sup>*\<^sup>* s s' \<Longrightarrow> retry_budget_ok p (s_caller s) \<Longrightarrow> 0 \<le> p_budget_ratio p \<Longrightarrow>
   retry_budget_ok p (s_caller s')"
  by (induction rule: rtranclp_induct) (auto intro: call_step_budget)

lemma check_policy_ok:
  "check_policy p = None \<Longrightarrow> 1 \<le> p_min p \<and> p_min p \<le> p_max p \<and> 1 \<le> p_max p"
  by (auto simp: check_policy_def split: if_splits)

lemma new_system_ok: "check_policy p = None \<Longrightarrow> system_ok p (new_system p now)"
  using check_policy_ok[of p] by (simp add: system_ok_def limits_ok_def new_system_def new_caller_def)

text \<open>C14: under every interleaving of calls, successes, failures and cancellations, the adaptive
  limit stays between its minimum and maximum, no more calls run than the maximum, the counter of
  running calls is exact, and the probe of a half-open breaker runs alone.\<close>

theorem concurrency_stays_bounded:
  assumes "check_policy p = None" and "(call_step p)\<^sup>*\<^sup>* (new_system p now) s"
  shows "p_min p \<le> c_limit (s_caller s) \<and> c_limit (s_caller s) \<le> p_max p
      \<and> c_in_flight (s_caller s) = int (length (s_running s))
      \<and> int (length (s_running s)) \<le> p_max p
      \<and> (True \<in> set (s_running s) \<longrightarrow> s_running s = [True])"
  using call_steps_ok[OF assms(2) new_system_ok[OF assms(1)]] check_policy_ok[OF assms(1)]
  by (simp add: system_ok_def limits_ok_def)

definition demo_one_running :: system where
  "demo_one_running =
     \<lparr>s_caller = (new_caller default_policy 0)\<lparr>c_in_flight := 1, c_count_calls := 1\<rparr>, s_running = [False]\<rparr>"

lemma demo_take: "(call_step default_policy)\<^sup>*\<^sup>* (new_system default_policy 0) demo_one_running"
proof (rule r_into_rtranclp)
  have a: "acquire (s_caller (new_system default_policy 0)) 0 =
      ((new_caller default_policy 0)\<lparr>c_in_flight := 1\<rparr>, Granted False)"
    by (simp add: acquire_def new_system_def new_caller_def default_policy_def half_open_def)
  have "demo_one_running =
      \<lparr>s_caller = ((new_caller default_policy 0)\<lparr>c_in_flight := 1\<rparr>)
         \<lparr>c_count_calls := c_count_calls ((new_caller default_policy 0)\<lparr>c_in_flight := 1\<rparr>) + 1\<rparr>,
       s_running = s_running (new_system default_policy 0) @ [False]\<rparr>"
    by (simp add: demo_one_running_def new_system_def new_caller_def)
  then show "call_step default_policy (new_system default_policy 0) demo_one_running"
    using call_step.Take[OF a] by metis
qed

theorem concurrency_stays_bounded_witness:
  "c_in_flight (s_caller demo_one_running) = 1 \<and> c_limit (s_caller demo_one_running) \<le> 4"
proof -
  have "check_policy default_policy = None" by (simp add: check_policy_def default_policy_def)
  from concurrency_stays_bounded[OF this demo_take]
  show ?thesis by (simp add: demo_one_running_def default_policy_def)
qed

text \<open>C15: the retry budget is an account: it holds the initial amount and the share of each success,
  less one per retry, and is never overdrawn. So the retries of all calls together are at most the
  initial amount plus that share of the successes.\<close>

theorem retries_stay_within_budget:
  assumes "0 \<le> p_budget_initial p" and "0 \<le> p_budget_ratio p"
    and "(call_step p)\<^sup>*\<^sup>* (new_system p now) s"
  shows "of_int (c_retries (s_caller s)) \<le>
      p_budget_initial p + of_int (c_successes (s_caller s)) * p_budget_ratio p"
proof -
  have "retry_budget_ok p (s_caller (new_system p now))"
    using assms(1) by (simp add: retry_budget_ok_def new_system_def new_caller_def)
  from call_steps_budget[OF assms(3) this assms(2)] show ?thesis by (simp add: retry_budget_ok_def)
qed

theorem retries_stay_within_budget_witness:
  "of_int (c_retries (s_caller demo_one_running)) \<le>
     p_budget_initial default_policy + of_int (c_successes (s_caller demo_one_running)) * p_budget_ratio default_policy"
  by (rule retries_stay_within_budget[OF _ _ demo_take]) (simp_all add: default_policy_def)

text \<open>C16: one call ends: every kind of failure is retried at most as often as its rule allows, so a
  call makes at most one attempt more than the retries of all kinds, and the last retry of an item
  at most the configured attempts, whatever failures come in whatever order.\<close>

theorem call_attempts_are_bounded:
  assumes "call_reaches p opts k"
  shows "(\<forall>e. k_retries k e \<le> kr_retries (policy_rule p e))
      \<and> k_number k \<le>
          (if o_final opts then nat (max 1 (p_final_attempts p))
           else Suc (sum_list (map (\<lambda>e. kr_retries (policy_rule p e)) all_kinds)))"
proof -
  note ok = call_reaches_ok[OF assms]
  have "sum_list (map (k_retries k) all_kinds) \<le> sum_list (map (\<lambda>e. kr_retries (policy_rule p e)) all_kinds)"
    using ok by (intro sum_list_mono) (auto simp: call_ok_def)
  then show ?thesis using ok by (auto simp: call_ok_def)
qed

theorem call_attempts_are_bounded_witness:
  "k_number new_call \<le> 28"
proof -
  have "call_reaches default_policy \<lparr>o_idempotent = True, o_adaptive = True, o_final = False\<rparr> new_call"
    by (rule call_reaches.First)
  from call_attempts_are_bounded[OF this] show ?thesis
    by (simp add: all_kinds_def policy_rule_def default_policy_def plain_rule_def)
qed

text \<open>an abort is final: it never changes, and no later call of this caller gets a slot; every
  attempt to take one raises the same error.\<close>

theorem abort_is_final:
  assumes "(call_step p)\<^sup>*\<^sup>* s s'" and "c_aborted (s_caller s) = Some a"
  shows "c_aborted (s_caller s') = Some a \<and> length (s_running s') \<le> length (s_running s)
      \<and> acquire (s_caller s') now = (s_caller s', Raised a)"
proof -
  from assms have "c_aborted (s_caller s') = Some a \<and> length (s_running s') \<le> length (s_running s)"
    by (induction rule: rtranclp_induct) (auto dest!: call_step_aborted intro: le_trans)
  then show ?thesis by (simp add: acquire_def)
qed

definition demo_aborted :: system where
  "demo_aborted = demo_one_running\<lparr>s_caller := (s_caller demo_one_running)
     \<lparr>c_aborted := Some \<lparr>ab_kind = Permission, ab_status = Some 403, ab_attempts = 1\<rparr>\<rparr>\<rparr>"

theorem abort_is_final_witness:
  "snd (acquire (s_caller demo_aborted) 5) = Raised \<lparr>ab_kind = Permission, ab_status = Some 403, ab_attempts = 1\<rparr>"
proof -
  have "c_aborted (s_caller demo_aborted) = Some \<lparr>ab_kind = Permission, ab_status = Some 403, ab_attempts = 1\<rparr>"
    by (simp add: demo_aborted_def)
  from abort_is_final[where p = default_policy and now = 5, OF rtranclp.rtrancl_refl this] show ?thesis by simp
qed

text \<open>waits are bounded. A retry waits at least what the server asked for (up to the configured
  maximum) and at most that plus the jitter, or at most the maximal backoff; and a wait of some
  seconds sleeps no longer than that in total, in positive chunks of at most the heartbeat, even
  if the clock stands still.\<close>

theorem waits_are_bounded:
  assumes "0 \<le> random" and "random < 1" and "0 \<le> p_backoff_base p" and "0 \<le> p_backoff_max p"
    and "0 \<le> seconds"
  shows "(case cl_retry_after info of
            Some t \<Rightarrow> min t (p_retry_after_max p) \<le> retry_delay p info rule n random
                     \<and> retry_delay p info rule n random \<le> min t (p_retry_after_max p) + p_backoff_base p
          | None \<Rightarrow> 0 \<le> retry_delay p info rule n random \<and> retry_delay p info rule n random \<le> p_backoff_max p)
      \<and> sum_list (wait p clock seconds) \<le> seconds
      \<and> (\<forall>x\<in>set (wait p clock seconds). 0 < x \<and> x \<le> max (1 / 1000) (p_heartbeat p))"
proof -
  have r: "random * b \<le> b" "0 \<le> random * b" if "0 \<le> b" for b
    using assms(1,2) that by (auto intro: mult_left_le_one_le)
  have cap: "0 \<le> min (p_backoff_max p) (p_backoff_base p * 2 ^ (n - 1))"
    using assms(3,4) by simp
  have b: "0 \<le> backoff p n random \<and> backoff p n random \<le> p_backoff_max p"
    using r[OF cap] unfolding backoff_def by linarith
  have w: "sum_list (wait p clock seconds) \<le> seconds
      \<and> (\<forall>x\<in>set (wait p clock seconds). 0 < x \<and> x \<le> max (1 / 1000) (p_heartbeat p))"
    using wait_chunks_total[of clock "clock 0 + seconds" seconds "p_heartbeat p" 0 1] assms(5)
    by (simp add: wait_def)
  show ?thesis
    using r[OF assms(3)] b w assms(4) by (simp add: retry_delay_def split: option.split)
qed

theorem waits_are_bounded_witness:
  "sum_list (wait default_policy (\<lambda>_. 0) 25) \<le> 25"
  using waits_are_bounded[of "1 / 2" default_policy 25
      "\<lparr>cl_kind = RateLimited, cl_status = None, cl_retry_after = None, cl_detail = [], cl_cause = None\<rparr>"
      plain_rule 1 "\<lambda>_. 0"]
  by (simp add: default_policy_def)

text \<open>a batch gives one outcome per item in the order of the input. An item has the result of its
  last retry if its first failure was deferred, else of its first call; a job stop or, where the
  policy asks for it, a failed item raises instead.\<close>

theorem batch_outcomes_in_order:
  assumes "map_calls p first last_retry n = Inr outs"
  shows "length outs = n
      \<and> (\<forall>i<n. case first i of
             Value v \<Rightarrow> outs ! i = Some (Done v)
           | CallFailed k True \<Rightarrow>
               (case last_retry i of Value v \<Rightarrow> outs ! i = Some (Done v)
                | CallFailed k' _ \<Rightarrow> outs ! i = Some (Error k') | CallAborted _ \<Rightarrow> False)
           | CallFailed k False \<Rightarrow> outs ! i = Some (Error k)
           | CallAborted _ \<Rightarrow> False)
      \<and> (p_fail_job p \<longrightarrow> (\<forall>i<n. \<forall>k. outs ! i \<noteq> Some (Error k)))"
proof -
  let ?again = "deferred first [0..<n]"
  let ?f = "\<lambda>i. outcome_of (if i \<in> set ?again then last_retry i else first i)"
  have none: "run i \<noteq> CallAborted a" if "aborted_in run idx = None" "i \<in> set idx"
    for run :: "nat \<Rightarrow> 'a call_result" and i idx a
    using that by (auto simp: aborted_in_def find_None_iff split: option.splits call_result.splits
        dest: find_Some_mem) 
  have a1: "aborted_in first [0..<n] = None" and a2: "aborted_in last_retry ?again = None"
    and outs: "outs = map ?f [0..<n]"
    and fail: "p_fail_job p \<longrightarrow> find is_error_outcome outs = None"
    using assms
    by (auto simp: map_calls_def Let_def split: option.splits if_splits call_outcome.splits
        dest: find_Some_mem)
  have "case first i of
             Value v \<Rightarrow> outs ! i = Some (Done v)
           | CallFailed k True \<Rightarrow>
               (case last_retry i of Value v \<Rightarrow> outs ! i = Some (Done v)
                | CallFailed k' _ \<Rightarrow> outs ! i = Some (Error k') | CallAborted _ \<Rightarrow> False)
           | CallFailed k False \<Rightarrow> outs ! i = Some (Error k)
           | CallAborted _ \<Rightarrow> False" if i: "i < n" for i
  proof -
    have mem: "i \<in> set ?again \<longleftrightarrow> (case first i of CallFailed _ d \<Rightarrow> d | _ \<Rightarrow> False)"
      using i by (simp add: deferred_def)
    have o: "outs ! i = ?f i" using i by (simp add: outs)
    have f1: "first i \<noteq> CallAborted a" for a using none[OF a1] i by simp
    have f2: "i \<in> set ?again \<Longrightarrow> last_retry i \<noteq> CallAborted a" for a using none[OF a2] by simp
    show ?thesis
      using o mem f1 f2 by (auto simp: outcome_of_def split: call_result.splits bool.splits)
  qed
  moreover have "outs ! i \<noteq> Some (Error k)" if "p_fail_job p" "i < n" for i k
  proof -
    have "length outs = n" by (simp add: outs)
    then have "outs ! i \<in> set outs" using that(2) by (intro nth_mem) simp
    with fail that(1) have "\<not> is_error_outcome (outs ! i)" by (auto simp: find_None_iff)
    then show ?thesis by auto
  qed
  ultimately show ?thesis by (simp add: outs)
qed

theorem batch_outcomes_in_order_witness:
  "\<exists>outs. map_calls default_policy (\<lambda>i. if i = 0 then Value ''a'' else CallFailed Network True)
     (\<lambda>_. Value ''b'') 2 = Inr outs \<and> length outs = 2"
proof -
  let ?first = "\<lambda>i::nat. if i = 0 then Value ''a'' else CallFailed Network True"
  have e: "map_calls default_policy ?first (\<lambda>_. Value ''b'') 2 = Inr [Some (Done ''a''), Some (Done ''b'')]"
    by (simp add: map_calls_def deferred_def aborted_in_def outcome_of_def default_policy_def
        eval_nat_numeral upt_rec)
  from batch_outcomes_in_order[OF e] e show ?thesis by blast
qed

end
