(* ===== verification/LoginStore.thy ===== *)
theory LoginStore
  imports Prelude "HOL-Library.AList" "HOL-Library.Multiset" "HOL-Library.Char_ord"
    "HOL-Library.List_Lexorder" "HOL-Library.Product_Lexorder"
begin

text \<open>The two places where attempts to log in are recorded
  (\<open>platform/packages/system_settings_backend/src/pr_system_settings/auth/login_throttle.py\<close>,
  \<open>MemoryLoginAttemptStore\<close> and \<open>OracleLoginAttemptStore\<close>), and the contract
  \<open>attempt_store\<close> both keep. A clock reading is an argument of the operation that takes it; seconds
  are exact. The table of the database is the list of its rows in insertion order; its operations are
  one transaction each, except that \<open>reserve\<close> commits its rows before it selects. Attempt ids are
  fresh (uuid4), so the primary key never refuses a row.\<close>

section \<open>Rows\<close>

record attempt_row =
  ar_attempt :: ident
  ar_age :: rat

text \<open>The dict a store returns, read with \<open>get(key, [])\<close>.\<close>

type_synonym attempt_rows = "ident \<Rightarrow> attempt_row list"

section \<open>The store of a process\<close>

text \<open>Per key the time and the attempt, oldest first.\<close>

type_synonym memory = "(ident \<times> (rat \<times> ident) list) list"

definition PRUNE_THRESHOLD :: nat where "PRUNE_THRESHOLD = 10000"
definition PURGE_BATCH_ROWS :: nat where "PURGE_BATCH_ROWS = 1000"
definition MAX_ROWS_PER_CHECK :: nat where "MAX_ROWS_PER_CHECK = 1000"

definition rows_of :: "memory \<Rightarrow> ident \<Rightarrow> (rat \<times> ident) list" where
  "rows_of m key = (case map_of m key of None \<Rightarrow> [] | Some rows \<Rightarrow> rows)"

definition drop_rows :: "(rat \<times> ident \<Rightarrow> bool) \<Rightarrow> ident \<Rightarrow> memory \<Rightarrow> memory" where
  "drop_rows predicate key m =
     (case map_of m key of
        None \<Rightarrow> m
      | Some rows \<Rightarrow>
          let kept = filter (\<lambda>row. \<not> predicate row) rows
          in if kept \<noteq> [] then AList.update key kept m else AList.delete key m)"

definition expired :: "rat \<Rightarrow> rat \<Rightarrow> rat \<times> ident \<Rightarrow> bool" where
  "expired now window row = (fst row + window \<le> now)"

definition prune :: "rat \<Rightarrow> rat \<Rightarrow> memory \<Rightarrow> memory" where
  "prune now window m = fold (drop_rows (expired now window)) (map fst m) m"

definition add_row :: "rat \<Rightarrow> ident \<Rightarrow> ident \<Rightarrow> memory \<Rightarrow> memory" where
  "add_row now attempt_id key m = AList.update key (rows_of m key @ [(now, attempt_id)]) m"

definition mem_recent :: "rat \<Rightarrow> rat \<Rightarrow> ident list \<Rightarrow> memory \<Rightarrow> memory \<times> attempt_rows" where
  "mem_recent now window keys m =
     (let m = fold (drop_rows (expired now window)) keys m
      in (m, \<lambda>key. if key \<in> set keys
                    then map (\<lambda>(t, a). \<lparr>ar_attempt = a, ar_age = now - t\<rparr>) (rev (rows_of m key))
                    else []))"

definition mem_reserve ::
    "rat \<Rightarrow> rat \<Rightarrow> ident \<Rightarrow> ident list \<Rightarrow> memory \<Rightarrow> memory \<times> attempt_rows" where
  "mem_reserve now window attempt_id keys m =
     (let m = (if PRUNE_THRESHOLD \<le> length m then prune now window m else m)
      in mem_recent now window keys (fold (add_row now attempt_id) keys m))"

definition mem_release :: "ident \<Rightarrow> ident list \<Rightarrow> memory \<Rightarrow> memory" where
  "mem_release attempt_id keys m = fold (drop_rows (\<lambda>row. snd row = attempt_id)) keys m"

definition mem_clear :: "ident \<Rightarrow> ident list \<Rightarrow> ident \<Rightarrow> memory \<Rightarrow> memory" where
  "mem_clear attempt_id keys cleared m =
     fold (drop_rows (\<lambda>row. snd row = attempt_id)) keys (AList.delete cleared m)"

definition mem_rows :: "memory \<Rightarrow> nat" where
  "mem_rows m = sum_list (map (\<lambda>kv. length (snd kv)) m)"

definition mem_purge :: "rat \<Rightarrow> rat \<Rightarrow> memory \<Rightarrow> memory \<times> nat" where
  "mem_purge now window m = (prune now window m, mem_rows m - mem_rows (prune now window m))"

section \<open>The shared table\<close>

record table_row =
  tr_key :: ident
  tr_attempt :: ident
  tr_at :: rat

type_synonym attempt_table = "table_row list"

definition table_age :: "rat \<Rightarrow> table_row \<Rightarrow> rat" where
  "table_age now r = max 0 (now - tr_at r)"

definition in_window :: "rat \<Rightarrow> rat \<Rightarrow> table_row \<Rightarrow> bool" where
  "in_window now window r = (now - window < tr_at r)"

text \<open>The page of the query; rows that are equal in both columns of \<open>ORDER BY\<close> stay in table order.\<close>

definition select_page :: "rat \<Rightarrow> rat \<Rightarrow> ident list \<Rightarrow> attempt_table \<Rightarrow> table_row list" where
  "select_page now window keys tab =
     take MAX_ROWS_PER_CHECK
       (sort_key (\<lambda>r. (now - tr_at r, tr_attempt r))
          (filter (\<lambda>r. tr_key r \<in> set keys \<and> in_window now window r) tab))"

definition select_recent :: "rat \<Rightarrow> rat \<Rightarrow> ident list \<Rightarrow> attempt_table \<Rightarrow> attempt_rows" where
  "select_recent now window keys tab =
     (\<lambda>key. map (\<lambda>r. \<lparr>ar_attempt = tr_attempt r, ar_age = table_age now r\<rparr>)
              (filter (\<lambda>r. tr_key r = key) (select_page now window keys tab)))"

definition db_insert :: "rat \<Rightarrow> ident \<Rightarrow> ident list \<Rightarrow> attempt_table \<Rightarrow> attempt_table" where
  "db_insert now attempt_id keys tab =
     tab @ map (\<lambda>key. \<lparr>tr_key = key, tr_attempt = attempt_id, tr_at = now\<rparr>) keys"

definition db_recent :: "rat \<Rightarrow> rat \<Rightarrow> ident list \<Rightarrow> attempt_table \<Rightarrow> attempt_table \<times> attempt_rows" where
  "db_recent now window keys tab = (tab, select_recent now window keys tab)"

definition db_reserve ::
    "rat \<Rightarrow> rat \<Rightarrow> ident \<Rightarrow> ident list \<Rightarrow> attempt_table \<Rightarrow> attempt_table \<times> attempt_rows" where
  "db_reserve now window attempt_id keys tab =
     db_recent now window keys (db_insert now attempt_id keys tab)"

definition db_release :: "ident \<Rightarrow> ident list \<Rightarrow> attempt_table \<Rightarrow> attempt_table" where
  "db_release attempt_id keys tab =
     filter (\<lambda>r. \<not> (tr_attempt r = attempt_id \<and> tr_key r \<in> set keys)) tab"

definition db_clear :: "ident \<Rightarrow> ident list \<Rightarrow> ident \<Rightarrow> attempt_table \<Rightarrow> attempt_table" where
  "db_clear attempt_id keys cleared tab =
     filter (\<lambda>r. \<not> (tr_key r = cleared \<or> (tr_attempt r = attempt_id \<and> tr_key r \<in> set keys))) tab"

fun delete_upto :: "nat \<Rightarrow> ('a \<Rightarrow> bool) \<Rightarrow> 'a list \<Rightarrow> 'a list" where
  "delete_upto 0 P xs = xs"
| "delete_upto (Suc n) P [] = []"
| "delete_upto (Suc n) P (x # xs) = (if P x then delete_upto n P xs else x # delete_upto (Suc n) P xs)"

definition db_purge :: "rat \<Rightarrow> rat \<Rightarrow> attempt_table \<Rightarrow> attempt_table \<times> nat" where
  "db_purge now window tab =
     (let kept = delete_upto PURGE_BATCH_ROWS (\<lambda>r. \<not> in_window now window r) tab
      in (kept, length tab - length kept))"

section \<open>What a store counts\<close>

definition mem_counted :: "memory \<Rightarrow> rat \<Rightarrow> rat \<Rightarrow> ident \<Rightarrow> attempt_row multiset" where
  "mem_counted m t window key =
     mset (map (\<lambda>(at', a). \<lparr>ar_attempt = a, ar_age = t - at'\<rparr>)
       (filter (\<lambda>row. \<not> expired t window row) (rows_of m key)))"

definition db_counted :: "attempt_table \<Rightarrow> rat \<Rightarrow> rat \<Rightarrow> ident \<Rightarrow> attempt_row multiset" where
  "db_counted tab t window key =
     mset (map (\<lambda>r. \<lparr>ar_attempt = tr_attempt r, ar_age = table_age t r\<rparr>)
       (filter (\<lambda>r. tr_key r = key \<and> in_window t window r) tab))"

text \<open>The contract: what a store counts for a key after each operation, and that a reading gives all
  of it unless a page is full.\<close>

locale attempt_store =
  fixes reserve :: "rat \<Rightarrow> rat \<Rightarrow> ident \<Rightarrow> ident list \<Rightarrow> 's \<Rightarrow> 's \<times> attempt_rows"
    and recent :: "rat \<Rightarrow> rat \<Rightarrow> ident list \<Rightarrow> 's \<Rightarrow> 's \<times> attempt_rows"
    and release :: "ident \<Rightarrow> ident list \<Rightarrow> 's \<Rightarrow> 's"
    and clear :: "ident \<Rightarrow> ident list \<Rightarrow> ident \<Rightarrow> 's \<Rightarrow> 's"
    and purge :: "rat \<Rightarrow> rat \<Rightarrow> 's \<Rightarrow> 's \<times> nat"
    and counted :: "'s \<Rightarrow> rat \<Rightarrow> rat \<Rightarrow> ident \<Rightarrow> attempt_row multiset"
  assumes reserve_counted:
      "distinct keys \<Longrightarrow> 0 < window \<Longrightarrow> now \<le> t \<Longrightarrow>
       counted (fst (reserve now window a keys s)) t window k =
         counted s t window k +
         (if k \<in> set keys \<and> t < now + window then {#\<lparr>ar_attempt = a, ar_age = t - now\<rparr>#} else {#})"
    and reserve_reads:
      "distinct keys \<Longrightarrow> snd (reserve now window a keys s) =
         snd (recent now window keys (fst (reserve now window a keys s)))"
    and recent_counted:
      "now \<le> t \<Longrightarrow> counted (fst (recent now window keys s)) t window k = counted s t window k"
    and recent_sub:
      "k \<in> set keys \<Longrightarrow> mset (snd (recent now window keys s) k) \<subseteq># counted s now window k"
    and recent_all:
      "distinct keys \<Longrightarrow> sum_list (map (\<lambda>k. length (snd (recent now window keys s) k)) keys) < MAX_ROWS_PER_CHECK \<Longrightarrow>
       k \<in> set keys \<Longrightarrow> mset (snd (recent now window keys s) k) = counted s now window k"
    and release_counted:
      "counted (release a keys s) t window k =
         (if k \<in> set keys then filter_mset (\<lambda>r. ar_attempt r \<noteq> a) (counted s t window k)
          else counted s t window k)"
    and clear_counted:
      "counted (clear a keys c s) t window k =
         (if k = c then {#} else
          if k \<in> set keys then filter_mset (\<lambda>r. ar_attempt r \<noteq> a) (counted s t window k)
          else counted s t window k)"
    and purge_counted:
      "now \<le> t \<Longrightarrow> counted (fst (purge now window s)) t window k = counted s t window k"

text \<open>A store without pages, whose rows only age.\<close>

locale exact_store = attempt_store +
  assumes recent_exact:
      "k \<in> set keys \<Longrightarrow> mset (snd (recent now window keys s) k) = counted s now window k"
    and counted_later:
      "now \<le> t \<Longrightarrow> counted s t window k =
         image_mset (\<lambda>r. r\<lparr>ar_age := ar_age r + (t - now)\<rparr>)
           (filter_mset (\<lambda>r. ar_age r + (t - now) < window) (counted s now window k))"
    and counted_young: "r \<in># counted s now window k \<Longrightarrow> ar_age r < window"

section \<open>The store of a process keeps the contract\<close>

lemma rows_of_update [simp]:
  "rows_of (AList.update k v m) k' = (if k' = k then v else rows_of m k')"
  by (simp add: rows_of_def update_conv')

lemma rows_of_delete [simp]:
  "rows_of (AList.delete k m) k' = (if k' = k then [] else rows_of m k')"
  by (simp add: rows_of_def delete_conv')

lemma rows_of_drop [simp]:
  "rows_of (drop_rows P k m) k' =
     (if k' = k then filter (\<lambda>row. \<not> P row) (rows_of m k) else rows_of m k')"
proof (cases "map_of m k")
  case None
  then show ?thesis by (auto simp: drop_rows_def rows_of_def)
next
  case (Some rows)
  then have "rows_of m k = rows" by (simp add: rows_of_def)
  with Some show ?thesis by (auto simp: drop_rows_def Let_def)
qed

lemma rows_of_fold_drop [simp]:
  "rows_of (fold (drop_rows P) keys m) k =
     (if k \<in> set keys then filter (\<lambda>row. \<not> P row) (rows_of m k) else rows_of m k)"
  by (induction keys arbitrary: m) auto

lemma rows_of_add [simp]:
  "rows_of (add_row now a k m) k' = (if k' = k then rows_of m k @ [(now, a)] else rows_of m k')"
  by (simp add: add_row_def)

lemma rows_of_fold_add:
  "distinct keys \<Longrightarrow> rows_of (fold (add_row now a) keys m) k =
     (if k \<in> set keys then rows_of m k @ [(now, a)] else rows_of m k)"
  by (induction keys arbitrary: m) auto

lemma rows_of_outside: "k \<notin> set (map fst m) \<Longrightarrow> rows_of m k = []"
proof -
  assume "k \<notin> set (map fst m)"
  then have "map_of m k = None" by (simp add: map_of_eq_None_iff)
  then show ?thesis by (simp add: rows_of_def)
qed

lemma rows_of_prune: "rows_of (prune now window m) k = filter (\<lambda>row. \<not> expired now window row) (rows_of m k)"
  by (cases "k \<in> set (map fst m)") (auto simp: prune_def rows_of_outside)

lemma expired_later: "expired now window row \<Longrightarrow> now \<le> t \<Longrightarrow> expired t window row"
  by (simp add: expired_def)

lemma live_filter:
  "now \<le> t \<Longrightarrow> filter (\<lambda>row. \<not> expired t window row) (filter (\<lambda>row. \<not> expired now window row) rows)
     = filter (\<lambda>row. \<not> expired t window row) rows"
  by (auto intro!: filter_cong simp: filter_filter dest: expired_later)

lemma mem_counted_prune:
  "now \<le> t \<Longrightarrow> mem_counted (prune now window m) t window k = mem_counted m t window k"
  unfolding mem_counted_def rows_of_prune by (simp only: live_filter)

lemma mem_counted_recent:
  "now \<le> t \<Longrightarrow> mem_counted (fst (mem_recent now window keys m)) t window k = mem_counted m t window k"
  by (simp add: mem_counted_def mem_recent_def Let_def live_filter del: mset_filter mset_map filter_filter)

lemma mem_recent_rows:
  "k \<in> set keys \<Longrightarrow> mset (snd (mem_recent now window keys m) k) = mem_counted m now window k"
  by (simp add: mem_recent_def mem_counted_def Let_def)

lemma filter_attempt_mset:
  "mset (map (\<lambda>(at', a). \<lparr>ar_attempt = a, ar_age = t - at'\<rparr>) (filter (\<lambda>row. snd row \<noteq> b) rows)) =
   filter_mset (\<lambda>r. ar_attempt r \<noteq> b) (mset (map (\<lambda>(at', a). \<lparr>ar_attempt = a, ar_age = t - at'\<rparr>) rows))"
  by (induction rows) auto

lemma mem_counted_drop_attempt:
  "mem_counted (fold (drop_rows (\<lambda>row. snd row = a)) keys m) t window k =
     (if k \<in> set keys then filter_mset (\<lambda>r. ar_attempt r \<noteq> a) (mem_counted m t window k)
      else mem_counted m t window k)"
proof -
  have swap: "filter (\<lambda>row. \<not> expired t window row) (filter (\<lambda>row. snd row \<noteq> a) rows) =
      filter (\<lambda>row. snd row \<noteq> a) (filter (\<lambda>row. \<not> expired t window row) rows)" for rows
    by (simp add: filter_filter conj_commute)
  show ?thesis
    by (simp add: mem_counted_def swap filter_attempt_mset del: filter_filter mset_map mset_filter)
qed

lemma mem_reserve_counted:
  assumes "distinct keys" and "0 < window" and "now \<le> t"
  shows "mem_counted (fst (mem_reserve now window a keys m)) t window k =
     mem_counted m t window k +
     (if k \<in> set keys \<and> t < now + window then {#\<lparr>ar_attempt = a, ar_age = t - now\<rparr>#} else {#})"
proof -
  define m1 where "m1 = (if PRUNE_THRESHOLD \<le> length m then prune now window m else m)"
  have m1: "mem_counted m1 t window k = mem_counted m t window k"
    using assms(3) by (simp add: m1_def mem_counted_prune)
  have "fst (mem_reserve now window a keys m) =
      fst (mem_recent now window keys (fold (add_row now a) keys m1))"
    by (simp add: mem_reserve_def m1_def Let_def)
  then have "mem_counted (fst (mem_reserve now window a keys m)) t window k =
      mem_counted (fold (add_row now a) keys m1) t window k"
    using assms(3) by (simp add: mem_counted_recent)
  also have "\<dots> = mem_counted m1 t window k +
      (if k \<in> set keys \<and> t < now + window then {#\<lparr>ar_attempt = a, ar_age = t - now\<rparr>#} else {#})"
    using assms(1) by (simp add: mem_counted_def rows_of_fold_add expired_def)
  finally show ?thesis using m1 by simp
qed

lemma mem_reserve_reads:
  "snd (mem_reserve now window a keys m) =
   snd (mem_recent now window keys (fst (mem_reserve now window a keys m)))"
  by (auto simp: mem_reserve_def mem_recent_def Let_def filter_filter)

interpretation memory_store:
  attempt_store mem_reserve mem_recent mem_release mem_clear mem_purge mem_counted
proof unfold_locales
  fix a keys c s t window k
  show "mem_counted (mem_clear a keys c s) t window k =
      (if k = c then {#} else if k \<in> set keys then filter_mset (\<lambda>r. ar_attempt r \<noteq> a) (mem_counted s t window k)
       else mem_counted s t window k)"
  proof -
    have "mem_counted (AList.delete c s) t window k = (if k = c then {#} else mem_counted s t window k)"
      by (simp add: mem_counted_def)
    then show ?thesis by (cases "k = c") (simp_all add: mem_clear_def mem_counted_drop_attempt)
  qed
qed (simp_all add: mem_reserve_counted mem_counted_recent mem_recent_rows mem_release_def
    mem_counted_drop_attempt mem_purge_def mem_counted_prune mem_reserve_reads[symmetric])

lemma mem_counted_later:
  assumes "now \<le> t"
  shows "mem_counted m t window k =
    image_mset (\<lambda>r. r\<lparr>ar_age := ar_age r + (t - now)\<rparr>)
      (filter_mset (\<lambda>r. ar_age r + (t - now) < window) (mem_counted m now window k))"
proof -
  have "mset (map (\<lambda>(u, a). \<lparr>ar_attempt = a, ar_age = t - u\<rparr>) (filter (\<lambda>row. \<not> expired t window row) rows)) =
    image_mset (\<lambda>r. r\<lparr>ar_age := ar_age r + (t - now)\<rparr>)
      (filter_mset (\<lambda>r. ar_age r + (t - now) < window)
        (mset (map (\<lambda>(u, a). \<lparr>ar_attempt = a, ar_age = now - u\<rparr>) (filter (\<lambda>row. \<not> expired now window row) rows))))"
    for rows :: "(rat \<times> ident) list"
    using assms by (induction rows) (auto simp: expired_def simp del: mset_filter mset_map)
  then show ?thesis by (simp only: mem_counted_def)
qed

interpretation memory_exact:
  exact_store mem_reserve mem_recent mem_release mem_clear mem_purge mem_counted
proof unfold_locales
  fix r s now window k
  show "r \<in># mem_counted s now window k \<Longrightarrow> ar_age r < window"
    by (auto simp: mem_counted_def expired_def)
qed (simp_all add: mem_recent_rows mem_counted_later)

section \<open>The shared table keeps the contract\<close>

abbreviation counted_row :: "rat \<Rightarrow> table_row \<Rightarrow> attempt_row" where
  "counted_row now r \<equiv> \<lparr>ar_attempt = tr_attempt r, ar_age = table_age now r\<rparr>"

lemma mset_take_subset: "mset (take n xs) \<subseteq># mset xs"
  by (metis append_take_drop_id mset_append mset_subset_eq_add_left)

lemma db_recent_sub:
  assumes "k \<in> set keys"
  shows "mset (snd (db_recent now window keys tab) k) \<subseteq># db_counted tab now window k"
proof -
  let ?sel = "filter (\<lambda>r. tr_key r \<in> set keys \<and> in_window now window r) tab"
  have "mset (select_page now window keys tab) \<subseteq># mset ?sel"
    unfolding select_page_def by (rule subset_mset.order_trans[OF mset_take_subset]) simp
  then have "filter_mset (\<lambda>r. tr_key r = k) (mset (select_page now window keys tab))
      \<subseteq># filter_mset (\<lambda>r. tr_key r = k) (mset ?sel)"
    by (rule multiset_filter_mono)
  moreover have "filter (\<lambda>r. tr_key r = k) ?sel = filter (\<lambda>r. tr_key r = k \<and> in_window now window r) tab"
    using assms by (auto simp: filter_filter intro: filter_cong)
  ultimately have "mset (filter (\<lambda>r. tr_key r = k) (select_page now window keys tab))
      \<subseteq># mset (filter (\<lambda>r. tr_key r = k \<and> in_window now window r) tab)"
    by (simp only: mset_filter[symmetric])
  then show ?thesis
    unfolding db_recent_def db_counted_def select_recent_def snd_conv mset_map
    by (rule image_mset_subseteq_mono)
qed

lemma sum_length_by_key:
  assumes "distinct keys" and "\<forall>r\<in>set rows. tr_key r \<in> set keys"
  shows "sum_list (map (\<lambda>k. length (filter (\<lambda>r. tr_key r = k) rows)) keys) = length rows"
  using assms(2)
proof (induction rows)
  case (Cons r rows)
  have eq: "length (filter (\<lambda>r. tr_key r = k) (r # rows)) =
      length (filter (\<lambda>r. tr_key r = k) rows) + (if k = tr_key r then 1 else 0)" for k
    by auto
  have one: "sum_list (map (\<lambda>k. if k = tr_key r then 1 else (0::nat)) keys) = 1"
    using assms(1) Cons.prems by (simp add: sum_list_map_eq_sum_count2 sum_list_distinct_conv_sum_set)
  show ?case
    using Cons one by (simp only: eq sum_list_addf) simp
qed simp

lemma select_page_keys: "r \<in> set (select_page now window keys tab) \<Longrightarrow> tr_key r \<in> set keys"
  by (auto simp: select_page_def dest: in_set_takeD)

lemma db_recent_all:
  assumes "distinct keys"
    and "sum_list (map (\<lambda>k. length (snd (db_recent now window keys tab) k)) keys) < MAX_ROWS_PER_CHECK"
    and "k \<in> set keys"
  shows "mset (snd (db_recent now window keys tab) k) = db_counted tab now window k"
proof -
  let ?sel = "filter (\<lambda>r. tr_key r \<in> set keys \<and> in_window now window r) tab"
  let ?sorted = "sort_key (\<lambda>r. (now - tr_at r, tr_attempt r)) ?sel"
  have "length (select_page now window keys tab) < MAX_ROWS_PER_CHECK"
    using assms(1,2) sum_length_by_key[of keys "select_page now window keys tab"] select_page_keys
    by (simp add: db_recent_def select_recent_def)
  then have "select_page now window keys tab = ?sorted"
    unfolding select_page_def by (simp add: min_def split: if_splits)
  then have "mset (filter (\<lambda>r. tr_key r = k) (select_page now window keys tab)) =
      mset (filter (\<lambda>r. tr_key r = k) ?sel)"
    by (simp only: mset_filter mset_sort)
  moreover have "filter (\<lambda>r. tr_key r = k) ?sel = filter (\<lambda>r. tr_key r = k \<and> in_window now window r) tab"
    using assms(3) by (auto simp: filter_filter intro: filter_cong)
  ultimately have "mset (filter (\<lambda>r. tr_key r = k) (select_page now window keys tab)) =
      mset (filter (\<lambda>r. tr_key r = k \<and> in_window now window r) tab)"
    by (simp only:)
  then show ?thesis
    unfolding db_recent_def db_counted_def select_recent_def snd_conv mset_map by (simp only:)
qed

lemma db_insert_counted:
  assumes "distinct keys" and "now \<le> t"
  shows "db_counted (db_insert now a keys tab) t window k =
     db_counted tab t window k +
     (if k \<in> set keys \<and> t < now + window then {#\<lparr>ar_attempt = a, ar_age = t - now\<rparr>#} else {#})"
proof -
  have own: "filter (\<lambda>r. tr_key r = k \<and> in_window t window r)
        (map (\<lambda>key. \<lparr>tr_key = key, tr_attempt = a, tr_at = now\<rparr>) keys) =
      (if k \<in> set keys \<and> t < now + window then [\<lparr>tr_key = k, tr_attempt = a, tr_at = now\<rparr>] else [])"
    using assms(1) by (induction keys) (auto simp: in_window_def)
  show ?thesis
    unfolding db_counted_def db_insert_def filter_append own map_append mset_append
    using assms(2) by (simp add: table_age_def)
qed

lemma db_filter_counted:
  assumes "\<And>r. tr_key r = k \<Longrightarrow> Q r \<longleftrightarrow> tr_attempt r \<noteq> a"
  shows "db_counted (filter Q tab) t window k =
    filter_mset (\<lambda>r. ar_attempt r \<noteq> a) (db_counted tab t window k)"
  using assms by (induction tab) (auto simp: db_counted_def simp del: mset_filter mset_map)

lemma db_keep_counted:
  assumes "\<And>r. tr_key r = k \<Longrightarrow> in_window t window r \<Longrightarrow> Q r"
  shows "db_counted (filter Q tab) t window k = db_counted tab t window k"
proof -
  have "filter (\<lambda>r. tr_key r = k \<and> in_window t window r) (filter Q tab) =
      filter (\<lambda>r. tr_key r = k \<and> in_window t window r) tab"
    using assms by (auto simp: filter_filter intro: filter_cong)
  then show ?thesis by (simp only: db_counted_def)
qed

lemma delete_upto_counted:
  assumes "now \<le> t"
  shows "db_counted (delete_upto n (\<lambda>r. \<not> in_window now window r) tab) t window k =
    db_counted tab t window k"
  using assms
  by (induction n "\<lambda>r. \<not> in_window now window r" tab rule: delete_upto.induct)
    (auto simp: db_counted_def in_window_def)

interpretation table_store:
  attempt_store db_reserve db_recent db_release db_clear db_purge db_counted
proof unfold_locales
  fix a keys s t window k
  show "db_counted (db_release a keys s) t window k =
      (if k \<in> set keys then filter_mset (\<lambda>r. ar_attempt r \<noteq> a) (db_counted s t window k)
       else db_counted s t window k)"
    unfolding db_release_def by (auto intro!: db_filter_counted db_keep_counted)
  fix c
  show "db_counted (db_clear a keys c s) t window k =
      (if k = c then {#} else if k \<in> set keys then filter_mset (\<lambda>r. ar_attempt r \<noteq> a) (db_counted s t window k)
       else db_counted s t window k)"
  proof (cases "k = c")
    case True
    then show ?thesis by (simp add: db_clear_def db_counted_def)
  next
    case False
    then show ?thesis unfolding db_clear_def by (auto intro!: db_filter_counted db_keep_counted)
  qed
next
  fix keys now window a s
  show "snd (db_reserve now window a keys s) = snd (db_recent now window keys (fst (db_reserve now window a keys s)))"
    by (simp add: db_reserve_def db_recent_def)
qed (simp_all add: db_reserve_def db_recent_def db_insert_counted db_recent_sub[unfolded db_recent_def snd_conv]
    db_recent_all[unfolded db_recent_def snd_conv] db_purge_def Let_def delete_upto_counted)

end
