(* ===== verification/LoginThrottle.thy ===== *)
theory LoginThrottle
  imports LoginStore
begin

text \<open>The limit on attempts to log in
  (\<open>platform/packages/system_settings_backend/src/pr_system_settings/auth/login_throttle.py\<close>,
  \<open>LoginThrottle\<close>, and the flow of \<open>AuthService.login\<close>): the keys, the decision to refuse, the
  change between the shared table and the memory of the process, and the steps of several workers
  on the shared table. The keyed hash is a parameter; whether a call of the shared store works is an
  argument (\<open>fate\<close>). Log lines are not modelled.\<close>

section \<open>Attempts\<close>

record throttle_limits =
  tl_per_login_and_ip :: int
  tl_per_ip :: int
  tl_window :: rat

datatype store_ref = SharedStore | MemoryStore

record attempt =
  at_id :: ident
  at_limited :: "(ident \<times> int) list"
  at_login_key :: ident
  at_window :: rat
  at_retry_after :: "int option"
  at_store :: "store_ref option"

definition key_hashes :: "attempt \<Rightarrow> ident list" where
  "key_hashes att = map fst (at_limited att)"

definition limited_keys ::
    "(string list \<Rightarrow> ident) \<Rightarrow> string \<Rightarrow> string \<Rightarrow> throttle_limits \<Rightarrow> (ident \<times> int) list \<times> ident" where
  "limited_keys key_hash login ip limits =
     (let login_key = key_hash [''login'', lower (strip login), ip];
          ip_key = key_hash [''ip'', ip]
      in (filter (\<lambda>(_, limit). 0 < limit)
            [(login_key, tl_per_login_and_ip limits), (ip_key, tl_per_ip limits)], login_key))"

definition new_attempt ::
    "(string list \<Rightarrow> ident) \<Rightarrow> string \<Rightarrow> string \<Rightarrow> throttle_limits \<Rightarrow> ident \<Rightarrow> attempt" where
  "new_attempt key_hash login ip limits a =
     (case limited_keys key_hash login ip limits of
        (limited, login_key) \<Rightarrow>
          \<lparr>at_id = a, at_limited = limited, at_login_key = login_key, at_window = tl_window limits,
           at_retry_after = None, at_store = None\<rparr>)"

section \<open>The decision\<close>

definition other_rows :: "attempt \<Rightarrow> attempt_row list \<Rightarrow> attempt_row list" where
  "other_rows att rows = filter (\<lambda>r. ar_attempt r \<noteq> at_id att) rows"

definition full_waits :: "attempt_rows \<Rightarrow> attempt \<Rightarrow> rat list" where
  "full_waits rows att =
     concat (map (\<lambda>(key, limit).
         let others = sort_key ar_age (other_rows att (rows key))
         in if limit \<le> int (length others)
            then [at_window att - ar_age (others ! nat (limit - 1))] else [])
       (at_limited att))"

definition retry_wait :: "attempt_rows \<Rightarrow> attempt \<Rightarrow> int option" where
  "retry_wait rows att =
     (if full_waits rows att = [] then None
      else Some (max 1 \<lceil>Max (set (full_waits rows att))\<rceil>))"

section \<open>The throttle of a process\<close>

record throttle_config =
  tc_shared :: bool
  tc_retry :: rat
  tc_hash :: "string list \<Rightarrow> ident"

definition MIN_SECRET_LENGTH :: nat where "MIN_SECRET_LENGTH = 32"

text \<open>Whether the given secret allows the use of the shared store.\<close>

definition uses_shared :: "bool \<Rightarrow> string \<Rightarrow> bool" where
  "uses_shared has_store secret = (has_store \<and> MIN_SECRET_LENGTH \<le> length (strip secret))"

record throttle =
  th_memory :: memory
  th_unavailable_until :: "rat option"
  th_table :: attempt_table

text \<open>A call of the shared store works, fails without effect, or fails (or times out) for the caller
  although its effect is committed.\<close>

datatype fate = Works | Fails | FailsLate

fun call_shared :: "fate \<Rightarrow> (attempt_table \<Rightarrow> attempt_table \<times> 'r) \<Rightarrow> throttle \<Rightarrow> throttle \<times> 'r option" where
  "call_shared Works f s = (s\<lparr>th_table := fst (f (th_table s))\<rparr>, Some (snd (f (th_table s))))"
| "call_shared Fails f s = (s, None)"
| "call_shared FailsLate f s = (s\<lparr>th_table := fst (f (th_table s))\<rparr>, None)"

definition shared_available :: "throttle_config \<Rightarrow> rat \<Rightarrow> throttle \<Rightarrow> bool" where
  "shared_available cfg now s =
     (tc_shared cfg \<and> (case th_unavailable_until s of None \<Rightarrow> True | Some t \<Rightarrow> t \<le> now))"

definition mark_unavailable :: "throttle_config \<Rightarrow> rat \<Rightarrow> throttle \<Rightarrow> throttle" where
  "mark_unavailable cfg now s = s\<lparr>th_unavailable_until := Some (now + tc_retry cfg)\<rparr>"

definition mark_available :: "throttle \<Rightarrow> throttle" where
  "mark_available s = s\<lparr>th_unavailable_until := None\<rparr>"

text \<open>An operation on the shared store whose failure is only noted.\<close>

definition shared_quietly ::
    "throttle_config \<Rightarrow> rat \<Rightarrow> fate \<Rightarrow> (attempt_table \<Rightarrow> attempt_table) \<Rightarrow> throttle \<Rightarrow> throttle" where
  "shared_quietly cfg now fate f s =
     (case call_shared fate (\<lambda>tab. (f tab, ())) s of
        (s, Some _) \<Rightarrow> s
      | (s, None) \<Rightarrow> mark_unavailable cfg now s)"

definition begin_in_memory :: "rat \<Rightarrow> attempt \<Rightarrow> throttle \<Rightarrow> throttle \<times> attempt" where
  "begin_in_memory now att s =
     (case mem_reserve now (at_window att) (at_id att) (key_hashes att) (th_memory s) of
        (m, rows) \<Rightarrow>
          (case retry_wait rows att of
             None \<Rightarrow> (s\<lparr>th_memory := m\<rparr>, att\<lparr>at_store := Some MemoryStore\<rparr>)
           | Some w \<Rightarrow>
               (s\<lparr>th_memory := mem_release (at_id att) (key_hashes att) m\<rparr>,
                att\<lparr>at_retry_after := Some w\<rparr>)))"

definition joined_rows :: "attempt \<Rightarrow> attempt_rows \<Rightarrow> attempt_rows \<Rightarrow> attempt_rows" where
  "joined_rows att shared local =
     (\<lambda>key. if key \<in> set (key_hashes att) then shared key @ local key else [])"

definition begin_in_table ::
    "throttle_config \<Rightarrow> rat \<Rightarrow> fate \<Rightarrow> attempt \<Rightarrow> attempt_rows \<Rightarrow> throttle \<Rightarrow> throttle \<times> attempt" where
  "begin_in_table cfg now release_fate att shared_rows s =
     (case mem_recent now (at_window att) (key_hashes att) (th_memory s) of
        (m, local_rows) \<Rightarrow>
          let s = (mark_available s)\<lparr>th_memory := m\<rparr>
          in case retry_wait (joined_rows att shared_rows local_rows) att of
               None \<Rightarrow> (s, att\<lparr>at_store := Some SharedStore\<rparr>)
             | Some w \<Rightarrow>
                 (shared_quietly cfg now release_fate (db_release (at_id att) (key_hashes att)) s,
                  att\<lparr>at_retry_after := Some w\<rparr>))"

text \<open>\<open>now\<close> is the clock of the process, \<open>db_now\<close> the clock of the database.\<close>

definition begin_attempt ::
    "throttle_config \<Rightarrow> rat \<Rightarrow> rat \<Rightarrow> fate \<Rightarrow> fate \<Rightarrow> attempt \<Rightarrow> throttle \<Rightarrow> throttle \<times> attempt" where
  "begin_attempt cfg now db_now fate release_fate att s =
     (if at_limited att = [] then (s, att)
      else if shared_available cfg now s then
        (case call_shared fate
                (db_reserve db_now (at_window att) (at_id att) (key_hashes att)) s of
           (s, Some rows) \<Rightarrow> begin_in_table cfg now release_fate att rows s
         | (s, None) \<Rightarrow> begin_in_memory now att (mark_unavailable cfg now s))
      else begin_in_memory now att s)"

definition record_failure ::
    "throttle_config \<Rightarrow> rat \<Rightarrow> rat \<Rightarrow> fate \<Rightarrow> attempt \<Rightarrow> throttle \<Rightarrow> throttle" where
  "record_failure cfg now db_now fate att s =
     (if at_store att = Some SharedStore
      then shared_quietly cfg now fate (\<lambda>tab. fst (db_purge db_now (at_window att) tab)) s else s)"

definition record_success :: "throttle_config \<Rightarrow> rat \<Rightarrow> fate \<Rightarrow> attempt \<Rightarrow> throttle \<Rightarrow> throttle" where
  "record_success cfg now fate att s =
     (let s = s\<lparr>th_memory := mem_clear (at_id att) (key_hashes att) (at_login_key att) (th_memory s)\<rparr>
      in if at_store att = Some SharedStore
         then shared_quietly cfg now fate (db_clear (at_id att) (key_hashes att) (at_login_key att)) s
         else s)"

definition cancel_attempt :: "throttle_config \<Rightarrow> rat \<Rightarrow> fate \<Rightarrow> attempt \<Rightarrow> throttle \<Rightarrow> throttle" where
  "cancel_attempt cfg now fate att s =
     (case at_store att of
        None \<Rightarrow> s
      | Some MemoryStore \<Rightarrow>
          s\<lparr>th_memory := mem_release (at_id att) (key_hashes att) (th_memory s)\<rparr>
      | Some SharedStore \<Rightarrow>
          shared_quietly cfg now fate (db_release (at_id att) (key_hashes att)) s)"

section \<open>A login\<close>

datatype check_result = Verified | WrongPassword | NoResult

datatype login_answer = RateLimitedFor int | LoggedIn | LoginFailed | LoginError

text \<open>\<open>now'\<close> and \<open>db_now'\<close> are the readings after the check of the password, \<open>fates\<close> those of the three
  calls of the shared store.\<close>

definition login ::
    "throttle_config \<Rightarrow> throttle_limits \<Rightarrow> rat \<times> rat \<Rightarrow> rat \<times> rat \<Rightarrow> fate \<times> fate \<times> fate \<Rightarrow> ident
     \<Rightarrow> string \<Rightarrow> string \<Rightarrow> check_result \<Rightarrow> throttle \<Rightarrow> throttle \<times> login_answer" where
  "login cfg limits before after fates a login_id ip check s =
     (case begin_attempt cfg (fst before) (snd before) (fst fates) (fst (snd fates))
             (new_attempt (tc_hash cfg) (strip login_id) ip limits a) s of
        (s, att) \<Rightarrow>
          (case at_retry_after att of
             Some w \<Rightarrow> (s, RateLimitedFor w)
           | None \<Rightarrow>
               (case check of
                  WrongPassword \<Rightarrow>
                    (record_failure cfg (fst after) (snd after) (snd (snd fates)) att s, LoginFailed)
                | NoResult \<Rightarrow> (cancel_attempt cfg (fst after) (snd (snd fates)) att s, LoginError)
                | Verified \<Rightarrow> (record_success cfg (fst after) (snd (snd fates)) att s, LoggedIn))))"

section \<open>The decision, over any store\<close>

lemma full_waits_empty:
  "full_waits rows att = [] \<longleftrightarrow>
   (\<forall>(k, l)\<in>set (at_limited att). int (length (other_rows att (rows k))) < l)"
  by (auto simp: full_waits_def Let_def split: if_splits)

lemma retry_wait_None:
  "retry_wait rows att = None \<longleftrightarrow>
   (\<forall>(k, l)\<in>set (at_limited att). int (length (other_rows att (rows k))) < l)"
  by (simp add: retry_wait_def full_waits_empty)

lemma retry_wait_pos: "retry_wait rows att = Some w \<Longrightarrow> 1 \<le> w"
  by (auto simp: retry_wait_def split: if_splits)

text \<open>An attempt the throttle can decide: fresh, keys without a collision, limits that fit one page.\<close>

definition decidable_attempt :: "attempt \<Rightarrow> bool" where
  "decidable_attempt att \<longleftrightarrow>
     at_retry_after att = None \<and> distinct (key_hashes att) \<and> 0 < at_window att \<and> (\<forall>(k, l)\<in>set (at_limited att). 0 < l) \<and>
     sum_list (map snd (at_limited att)) < int MAX_ROWS_PER_CHECK"

definition fresh_in :: "ident \<Rightarrow> attempt_row multiset \<Rightarrow> bool" where
  "fresh_in a M \<longleftrightarrow> (\<forall>r\<in>#M. ar_attempt r \<noteq> a)"

lemma others_fresh:
  "fresh_in (at_id att) M \<Longrightarrow> mset rows = M + M' \<Longrightarrow> \<forall>r\<in>#M'. ar_attempt r = at_id att \<Longrightarrow>
   length (other_rows att rows) = size M"
proof -
  assume fresh: "fresh_in (at_id att) M" and eq: "mset rows = M + M'" and own: "\<forall>r\<in>#M'. ar_attempt r = at_id att"
  have "mset (other_rows att rows) = filter_mset (\<lambda>r. ar_attempt r \<noteq> at_id att) (M + M')"
    by (simp add: other_rows_def eq)
  also have "\<dots> = filter_mset (\<lambda>r. ar_attempt r \<noteq> at_id att) M" using own by simp
  also have "\<dots> = M" using fresh by (auto simp: fresh_in_def filter_mset_eq_conv)
  finally show ?thesis by (metis size_mset)
qed

lemma length_others_le: "length rows \<le> length (other_rows att rows) + size (filter_mset (\<lambda>r. ar_attempt r = at_id att) (mset rows))"
  by (induction rows) (auto simp: other_rows_def)

lemma sum_lengths_le:
  "(\<And>j l. (j, l) \<in> set kls \<Longrightarrow> int (length (rows j)) \<le> l) \<Longrightarrow>
   int (sum_list (map ((\<lambda>j. length (rows j)) \<circ> fst) kls)) \<le> sum_list (map snd kls)"
  by (induction kls) fastforce+

context attempt_store begin

text \<open>What a reservation reads, next to rows from elsewhere: it decides exactly whether a limited key
  is full, for every store.\<close>

definition room :: "attempt \<Rightarrow> rat \<Rightarrow> attempt_rows \<Rightarrow> 's \<Rightarrow> bool" where
  "room att now extra s \<longleftrightarrow>
     (\<forall>(k, l)\<in>set (at_limited att).
        int (size (counted s now (at_window att) k) + length (extra k)) < l)"

lemma own_rows_one:
  assumes "decidable_attempt att" and "\<And>k. fresh_in (at_id att) (counted s now (at_window att) k)"
    and "k \<in> set (key_hashes att)"
  shows "counted (fst (reserve now (at_window att) (at_id att) (key_hashes att) s)) now (at_window att) k =
    counted s now (at_window att) k + {#\<lparr>ar_attempt = at_id att, ar_age = 0\<rparr>#}"
  using assms by (simp add: reserve_counted decidable_attempt_def)

lemma fresh_filter: "fresh_in a M \<Longrightarrow> filter_mset (\<lambda>r. ar_attempt r = a) M = {#}"
  by (auto simp: fresh_in_def)

lemma reserve_complete:
  assumes dec: "decidable_attempt att" and fresh: "\<And>k. fresh_in (at_id att) (counted s now (at_window att) k)"
    and few: "\<forall>(k, l)\<in>set (at_limited att).
      int (length (other_rows att (snd (reserve now (at_window att) (at_id att) (key_hashes att) s) k))) < l"
    and k: "k \<in> set (key_hashes att)"
  shows "mset (snd (reserve now (at_window att) (at_id att) (key_hashes att) s) k) =
    counted s now (at_window att) k + {#\<lparr>ar_attempt = at_id att, ar_age = 0\<rparr>#}"
proof -
  let ?W = "at_window att" and ?keys = "key_hashes att"
  define s' where "s' = fst (reserve now ?W (at_id att) ?keys s)"
  define rows where "rows = snd (reserve now ?W (at_id att) ?keys s)"
  have dist: "distinct ?keys" using dec by (simp add: decidable_attempt_def)
  have rows: "rows = snd (recent now ?W ?keys s')"
    unfolding rows_def s'_def by (rule reserve_reads[OF dist])
  have own: "counted s' now ?W j = counted s now ?W j + {#\<lparr>ar_attempt = at_id att, ar_age = 0\<rparr>#}"
    if "j \<in> set ?keys" for j
    unfolding s'_def by (rule own_rows_one[OF dec fresh that])
  have len: "int (length (rows j)) \<le> l" if "(j, l) \<in> set (at_limited att)" for j l
  proof -
    have j: "j \<in> set ?keys" using that by (force simp: key_hashes_def)
    have "mset (rows j) \<subseteq># counted s' now ?W j" unfolding rows by (rule recent_sub[OF j])
    then have "size (filter_mset (\<lambda>r. ar_attempt r = at_id att) (mset (rows j))) \<le>
        size (filter_mset (\<lambda>r. ar_attempt r = at_id att) (counted s' now ?W j))"
      by (intro size_mset_mono multiset_filter_mono)
    also have "\<dots> = 1" unfolding own[OF j] using fresh_filter[OF fresh] by simp
    finally show ?thesis
      using few that length_others_le[of "rows j" att] unfolding rows_def[symmetric] by fastforce
  qed
  have "int (sum_list (map (\<lambda>j. length (rows j)) ?keys)) \<le> sum_list (map snd (at_limited att))"
    unfolding key_hashes_def using sum_lengths_le[of "at_limited att" rows] len by simp
  then have "sum_list (map (\<lambda>j. length (rows j)) ?keys) < MAX_ROWS_PER_CHECK"
    using dec by (simp add: decidable_attempt_def)
  from recent_all[OF dist this[unfolded rows] k] own[OF k] show ?thesis
    unfolding rows_def[symmetric] rows by simp
qed

lemma reserve_decides:
  assumes dec: "decidable_attempt att" and fresh: "\<And>k. fresh_in (at_id att) (counted s now (at_window att) k)"
    and efresh: "\<And>k. fresh_in (at_id att) (mset (extra k))"
    and rows: "\<And>k. k \<in> set (key_hashes att) \<Longrightarrow>
      rows k = snd (reserve now (at_window att) (at_id att) (key_hashes att) s) k @ extra k"
  shows "retry_wait rows att = None \<longleftrightarrow> room att now extra s"
proof -
  let ?got = "snd (reserve now (at_window att) (at_id att) (key_hashes att) s)"
  have others: "length (other_rows att (rows k)) = length (other_rows att (?got k)) + length (extra k)"
    if "k \<in> set (key_hashes att)" for k
  proof -
    have "other_rows att (extra k) = extra k"
      using efresh[of k] by (auto simp: other_rows_def fresh_in_def intro: filter_True)
    then show ?thesis using rows[OF that] by (simp add: other_rows_def)
  qed
  have key: "k \<in> set (key_hashes att)" if "(k, l) \<in> set (at_limited att)" for k l
    using that by (force simp: key_hashes_def)
  have le: "length (other_rows att (?got k)) \<le> size (counted s now (at_window att) k)"
    if k: "k \<in> set (key_hashes att)" for k
  proof -
    have dist: "distinct (key_hashes att)" using dec by (simp add: decidable_attempt_def)
    have "mset (?got k) \<subseteq># counted s now (at_window att) k + {#\<lparr>ar_attempt = at_id att, ar_age = 0\<rparr>#}"
      unfolding reserve_reads[OF dist] own_rows_one[OF dec fresh k, symmetric] by (rule recent_sub[OF k])
    then have "mset (other_rows att (?got k)) \<subseteq># filter_mset (\<lambda>r. ar_attempt r \<noteq> at_id att)
        (counted s now (at_window att) k + {#\<lparr>ar_attempt = at_id att, ar_age = 0\<rparr>#})"
      unfolding other_rows_def mset_filter by (rule multiset_filter_mono)
    also have "\<dots> \<subseteq># counted s now (at_window att) k" by simp
    finally show ?thesis using size_mset_mono by fastforce
  qed
  show ?thesis
  proof
    assume none: "retry_wait rows att = None"
    have few: "\<forall>(k, l)\<in>set (at_limited att). int (length (other_rows att (?got k))) < l"
      using none others key unfolding retry_wait_None by fastforce
    have eq: "length (other_rows att (?got k)) = size (counted s now (at_window att) k)"
      if "k \<in> set (key_hashes att)" for k
      by (rule others_fresh[OF fresh reserve_complete[OF dec fresh few that]]) simp
    show "room att now extra s"
      using none others key eq unfolding retry_wait_None room_def by fastforce
  next
    assume "room att now extra s"
    then show "retry_wait rows att = None"
      using le others key unfolding retry_wait_None room_def by fastforce
  qed
qed

end

section \<open>When the next attempt is possible\<close>

lemma sorted_count:
  fixes xs :: "rat list"
  assumes "sorted xs" and "1 \<le> l" and "l \<le> int (length xs)"
  shows "int (length (filter (\<lambda>x. x + d < W) xs)) < l \<longleftrightarrow> W - xs ! nat (l - 1) \<le> d"
proof -
  let ?i = "nat (l - 1)"
  have i: "?i < length xs" using assms(2,3) by linarith
  have card: "length (filter (\<lambda>x. x + d < W) xs) = card {j. j < length xs \<and> xs ! j + d < W}"
    by (rule length_filter_conv_card)
  show ?thesis
  proof
    assume few: "int (length (filter (\<lambda>x. x + d < W) xs)) < l"
    show "W - xs ! ?i \<le> d"
    proof (rule ccontr)
      assume "\<not> W - xs ! ?i \<le> d"
      then have "{..?i} \<subseteq> {j. j < length xs \<and> xs ! j + d < W}"
        using i sorted_nth_mono[OF assms(1), of _ ?i] by fastforce
      from card_mono[OF _ this] have "Suc ?i \<le> length (filter (\<lambda>x. x + d < W) xs)"
        unfolding card by simp
      with few assms(2) show False by linarith
    qed
  next
    assume old: "W - xs ! ?i \<le> d"
    have "{j. j < length xs \<and> xs ! j + d < W} \<subseteq> {..<?i}"
    proof
      fix j
      assume "j \<in> {j. j < length xs \<and> xs ! j + d < W}"
      then have j: "j < length xs" "xs ! j + d < W" by auto
      have "\<not> ?i \<le> j" using sorted_nth_mono[OF assms(1) _ j(1), of ?i] j(2) old by force
      then show "j \<in> {..<?i}" by simp
    qed
    from card_mono[OF _ this] have "length (filter (\<lambda>x. x + d < W) xs) \<le> ?i" unfolding card by simp
    with assms(2) show "int (length (filter (\<lambda>x. x + d < W) xs)) < l" by linarith
  qed
qed

context exact_store begin

lemma room_later:
  assumes "now \<le> t" and pos: "\<forall>(k, l)\<in>set (at_limited att). 0 < l"
    and rows: "\<And>k. k \<in> set (key_hashes att) \<Longrightarrow>
      mset (other_rows att (rows k)) = counted s now (at_window att) k"
    and same: "at_limited att2 = at_limited att" "at_window att2 = at_window att"
  shows "room att2 t (\<lambda>_. []) s \<longleftrightarrow> (\<forall>x\<in>set (full_waits rows att). x \<le> t - now)"
proof -
  let ?W = "at_window att"
  have one: "int (size (counted s t ?W k)) < l \<longleftrightarrow>
      (l \<le> int (length (other_rows att (rows k))) \<longrightarrow>
       ?W - ar_age (sort_key ar_age (other_rows att (rows k)) ! nat (l - 1)) \<le> t - now)"
    if kl: "(k, l) \<in> set (at_limited att)" for k l
  proof -
    define os where "os = other_rows att (rows k)"
    define ages where "ages = map ar_age (sort_key ar_age os)"
    have k: "k \<in> set (key_hashes att)" using kl by (force simp: key_hashes_def)
    have l: "1 \<le> l" using pos kl by fastforce
    have "size (counted s t ?W k) = size (filter_mset (\<lambda>r. ar_age r + (t - now) < ?W) (mset os))"
      unfolding counted_later[OF assms(1)] rows[OF k, symmetric] os_def by (rule size_image_mset)
    also have "\<dots> = length (filter (\<lambda>x. x + (t - now) < ?W) ages)"
    proof -
      have "filter_mset (\<lambda>r. ar_age r + (t - now) < ?W) (mset os) =
          mset (filter (\<lambda>r. ar_age r + (t - now) < ?W) (sort_key ar_age os))"
        by (simp add: filter_sort)
      then have "size (filter_mset (\<lambda>r. ar_age r + (t - now) < ?W) (mset os)) =
          length (filter (\<lambda>r. ar_age r + (t - now) < ?W) (sort_key ar_age os))"
        by (simp only: size_mset)
      then show ?thesis by (simp add: ages_def filter_map comp_def)
    qed
    finally have size: "size (counted s t ?W k) = length (filter (\<lambda>x. x + (t - now) < ?W) ages)" .
    have len: "length ages = length os" by (simp add: ages_def)
    show ?thesis
    proof (cases "l \<le> int (length os)")
      case True
      have "ages ! nat (l - 1) = ar_age (sort_key ar_age os ! nat (l - 1))"
        using True l by (simp add: ages_def)
      moreover have "sorted ages" by (simp add: ages_def)
      ultimately show ?thesis
        using sorted_count[of ages l "t - now" ?W] True l len size by (simp add: os_def)
    next
      case False
      have "length (filter (\<lambda>x. x + (t - now) < ?W) ages) \<le> length os"
        unfolding len[symmetric] by (rule length_filter_le)
      then show ?thesis using False size by (simp add: os_def)
    qed
  qed
  show ?thesis
    unfolding room_def same full_waits_def using one by (fastforce simp: Let_def)
qed

end

section \<open>Workers on the shared table\<close>

text \<open>What one attempt has come to: its rows are committed, it may check the password, it is refused
  with its rows still there, or its rows are gone.\<close>

datatype phase = Reserved attempt | Granted attempt | Refused attempt | Finished

text \<open>\<open>sh_log\<close> is the history, which no operation of the code reads: for every attempt and key when the attempt was
  recorded. An attempt that is given back leaves it, and a log-in that succeeds takes out its own attempt and what its
  login key had; nothing else does, whatever happens to the table.\<close>

record shared_system =
  sh_table :: attempt_table
  sh_now :: rat
  sh_phase :: "ident \<Rightarrow> phase option"
  sh_log :: "table_row list"

definition no_attempts :: "rat \<Rightarrow> shared_system" where
  "no_attempts now = \<lparr>sh_table = [], sh_now = now, sh_phase = (\<lambda>_. None), sh_log = []\<rparr>"

definition set_phase :: "ident \<Rightarrow> phase \<Rightarrow> shared_system \<Rightarrow> shared_system" where
  "set_phase a p s = s\<lparr>sh_phase := (sh_phase s)(a \<mapsto> p)\<rparr>"

text \<open>\<open>limit_of\<close> is the limit of a key, \<open>window\<close> the one window of the deployment. The rows of the
  process (\<open>local\<close>) that join the decision are arbitrary. A reservation that times out stays
  \<open>Reserved\<close> for ever.\<close>

inductive throttle_step ::
    "(ident \<Rightarrow> int) \<Rightarrow> rat \<Rightarrow> shared_system \<Rightarrow> shared_system \<Rightarrow> bool"
  for limit_of window where
  Pass: "sh_now s \<le> t \<Longrightarrow> throttle_step limit_of window s (s\<lparr>sh_now := t\<rparr>)"
| Insert: "sh_phase s (at_id att) = None \<Longrightarrow> decidable_attempt att \<Longrightarrow> at_window att = window \<Longrightarrow>
     \<forall>(k, l)\<in>set (at_limited att). l = limit_of k \<Longrightarrow>
     throttle_step limit_of window s
       ((set_phase (at_id att) (Reserved att)
          (s\<lparr>sh_table := db_insert (sh_now s) (at_id att) (key_hashes att) (sh_table s)\<rparr>))
        \<lparr>sh_log := sh_log s @ map (\<lambda>k. \<lparr>tr_key = k, tr_attempt = at_id att, tr_at = sh_now s\<rparr>) (key_hashes att)\<rparr>)"
| Decide: "sh_phase s a = Some (Reserved att) \<Longrightarrow>
     rows = joined_rows att (snd (db_recent (sh_now s) window (key_hashes att) (sh_table s))) local \<Longrightarrow>
     throttle_step limit_of window s
       (set_phase a (if retry_wait rows att = None then Granted att else Refused att) s)"
| Leave: "sh_phase s a = Some (Refused att) \<or> sh_phase s a = Some (Granted att) \<Longrightarrow>
     throttle_step limit_of window s
       ((set_phase a Finished (s\<lparr>sh_table := db_release a (key_hashes att) (sh_table s)\<rparr>))
        \<lparr>sh_log := filter (\<lambda>r. tr_attempt r \<noteq> a) (sh_log s)\<rparr>)"
| Succeed: "sh_phase s a = Some (Granted att) \<Longrightarrow>
     throttle_step limit_of window s
       ((set_phase a Finished
          (s\<lparr>sh_table := db_clear a (key_hashes att) (at_login_key att) (sh_table s)\<rparr>))
        \<lparr>sh_log := filter (\<lambda>r. tr_attempt r \<noteq> a \<and> tr_key r \<noteq> at_login_key att) (sh_log s)\<rparr>)"
| Purge: "throttle_step limit_of window s
       (s\<lparr>sh_table := fst (db_purge (sh_now s) window (sh_table s))\<rparr>)"

inductive_cases throttle_stepE: "throttle_step limit_of window s s'"

definition granted_in :: "shared_system \<Rightarrow> ident \<Rightarrow> bool" where
  "granted_in s a = (case sh_phase s a of Some (Granted _) \<Rightarrow> True | _ \<Rightarrow> False)"

definition granted_rows :: "rat \<Rightarrow> shared_system \<Rightarrow> ident \<Rightarrow> table_row list" where
  "granted_rows window s key =
     filter (\<lambda>r. tr_key r = key \<and> in_window (sh_now s) window r \<and> granted_in s (tr_attempt r)) (sh_table s)"

definition limits_agree :: "(ident \<Rightarrow> int) \<Rightarrow> rat \<Rightarrow> attempt \<Rightarrow> bool" where
  "limits_agree limit_of window att \<longleftrightarrow>
     decidable_attempt att \<and> at_window att = window \<and> (\<forall>(k, l)\<in>set (at_limited att). l = limit_of k)"

definition phase_ok :: "(ident \<Rightarrow> int) \<Rightarrow> rat \<Rightarrow> shared_system \<Rightarrow> bool" where
  "phase_ok limit_of window s \<longleftrightarrow>
     (\<forall>a att. sh_phase s a \<in> {Some (Reserved att), Some (Granted att), Some (Refused att)} \<longrightarrow>
        at_id att = a \<and> limits_agree limit_of window att \<and>
        (\<forall>r\<in>set (sh_table s). tr_attempt r = a \<longrightarrow> tr_key r \<in> set (key_hashes att)))"

definition shared_ok :: "(ident \<Rightarrow> int) \<Rightarrow> rat \<Rightarrow> shared_system \<Rightarrow> bool" where
  "shared_ok limit_of window s \<longleftrightarrow>
     distinct (map (\<lambda>r. (tr_key r, tr_attempt r)) (sh_table s)) \<and>
     (\<forall>r\<in>set (sh_table s). sh_phase s (tr_attempt r) \<noteq> None) \<and>
     phase_ok limit_of window s \<and>
     (\<forall>k. int (length (granted_rows window s k)) \<le> max 0 (limit_of k))"

lemma distinct_pair_filter:
  assumes "distinct (map (\<lambda>r. (tr_key r, tr_attempt r)) tab)"
  shows "length (filter (\<lambda>r. tr_key r = k \<and> tr_attempt r = a \<and> Q r) tab) \<le> 1"
  using assms
proof (induction tab)
  case (Cons r tab)
  show ?case
  proof (cases "tr_key r = k \<and> tr_attempt r = a")
    case True
    then have "filter (\<lambda>r. tr_key r = k \<and> tr_attempt r = a \<and> Q r) tab = []"
      using Cons.prems by (auto simp: filter_empty_conv image_iff)
    then show ?thesis by simp
  next
    case False
    with Cons show ?thesis by auto
  qed
qed simp

lemma subseq_delete_upto: "subseq (delete_upto n P xs) xs"
  by (induction n P xs rule: delete_upto.induct) auto

lemma subseq_distinct_map: "subseq xs ys \<Longrightarrow> distinct (map f ys) \<Longrightarrow> distinct (map f xs)"
  by (induction rule: list_emb.induct) (auto dest: list_emb_set)

text \<open>A step that only takes rows away and grants nothing.\<close>

lemma shared_ok_shrink:
  assumes ok: "shared_ok limit_of window s" and sub: "subseq (sh_table s') (sh_table s)"
    and now: "sh_now s \<le> sh_now s'"
    and phase: "\<And>a. sh_phase s' a = sh_phase s a \<or> (sh_phase s a \<noteq> None \<and> sh_phase s' a = Some Finished)"
  shows "shared_ok limit_of window s'"
proof -
  have mem: "r \<in> set (sh_table s)" if "r \<in> set (sh_table s')" for r
    using that sub by (auto dest: list_emb_set)
  have "length (granted_rows window s' k) \<le> length (granted_rows window s k)" for k
  proof -
    have "length (granted_rows window s' k) \<le> length (filter (\<lambda>r. tr_key r = k \<and> in_window (sh_now s) window r
        \<and> granted_in s (tr_attempt r)) (sh_table s'))"
      unfolding granted_rows_def
    proof (rule length_filter_imp, elim conjE, intro conjI)
      fix r
      assume w: "in_window (sh_now s') window r" and g: "granted_in s' (tr_attempt r)"
      show "in_window (sh_now s) window r" using w now by (simp add: in_window_def)
      show "granted_in s (tr_attempt r)" using g phase[of "tr_attempt r"] by (auto simp: granted_in_def)
    qed
    also have "\<dots> \<le> length (granted_rows window s k)"
      unfolding granted_rows_def using sub by (rule list_emb_length[OF subseq_filter])
    finally show ?thesis .
  qed
  then have rows: "int (length (granted_rows window s' k)) \<le> max 0 (limit_of k)" for k
    using ok unfolding shared_ok_def by (meson le_trans of_nat_le_iff order_trans)
  have dist: "distinct (map (\<lambda>r. (tr_key r, tr_attempt r)) (sh_table s'))"
    using ok sub unfolding shared_ok_def by (blast intro: subseq_distinct_map)
  have known: "\<forall>r\<in>set (sh_table s'). sh_phase s' (tr_attempt r) \<noteq> None"
  proof
    fix r
    assume "r \<in> set (sh_table s')"
    then have "sh_phase s (tr_attempt r) \<noteq> None" using ok mem by (simp add: shared_ok_def)
    then show "sh_phase s' (tr_attempt r) \<noteq> None" using phase[of "tr_attempt r"] by auto
  qed
  have "phase_ok limit_of window s'"
    unfolding phase_ok_def
  proof (intro allI impI)
    fix a att
    assume p: "sh_phase s' a \<in> {Some (Reserved att), Some (Granted att), Some (Refused att)}"
    then have "sh_phase s a \<in> {Some (Reserved att), Some (Granted att), Some (Refused att)}"
      using phase[of a] by auto
    then show "at_id att = a \<and> limits_agree limit_of window att \<and>
        (\<forall>r\<in>set (sh_table s'). tr_attempt r = a \<longrightarrow> tr_key r \<in> set (key_hashes att))"
      using ok mem unfolding shared_ok_def phase_ok_def by blast
  qed
  with dist known rows show ?thesis by (simp add: shared_ok_def)
qed

lemma shared_ok_insert:
  assumes ok: "shared_ok limit_of window s" and new: "sh_phase s (at_id att) = None"
    and agree: "limits_agree limit_of window att"
  shows "shared_ok limit_of window
    (set_phase (at_id att) (Reserved att)
       (s\<lparr>sh_table := db_insert (sh_now s) (at_id att) (key_hashes att) (sh_table s)\<rparr>))"
    (is "shared_ok _ _ ?s'")
proof -
  let ?new = "map (\<lambda>key. \<lparr>tr_key = key, tr_attempt = at_id att, tr_at = sh_now s\<rparr>) (key_hashes att)"
  have tab: "sh_table ?s' = sh_table s @ ?new" and now: "sh_now ?s' = sh_now s"
    and ph: "sh_phase ?s' = (sh_phase s)(at_id att \<mapsto> Reserved att)"
    by (simp_all add: set_phase_def db_insert_def)
  have other: "tr_attempt r \<noteq> at_id att" if "r \<in> set (sh_table s)" for r
    using ok new that by (auto simp: shared_ok_def)
  have "granted_rows window ?s' k = granted_rows window s k" for k
  proof -
    have "filter (\<lambda>r. tr_key r = k \<and> in_window (sh_now s) window r \<and> granted_in ?s' (tr_attempt r)) ?new = []"
      by (auto simp: filter_empty_conv granted_in_def ph)
    moreover have "granted_in ?s' (tr_attempt r) = granted_in s (tr_attempt r)" if "r \<in> set (sh_table s)" for r
      using other[OF that] by (simp add: granted_in_def ph)
    ultimately show ?thesis
      unfolding granted_rows_def tab now filter_append by (auto intro: filter_cong)
  qed
  moreover have "distinct (map (\<lambda>r. (tr_key r, tr_attempt r)) (sh_table ?s'))"
    using ok other agree unfolding tab shared_ok_def limits_agree_def decidable_attempt_def
    by (auto simp: distinct_map comp_def inj_on_def)
  moreover have "\<forall>r\<in>set (sh_table ?s'). sh_phase ?s' (tr_attempt r) \<noteq> None"
    using ok unfolding tab ph shared_ok_def by auto
  moreover have "phase_ok limit_of window ?s'"
    unfolding phase_ok_def
  proof (intro allI impI)
    fix a b
    assume p: "sh_phase ?s' a \<in> {Some (Reserved b), Some (Granted b), Some (Refused b)}"
    show "at_id b = a \<and> limits_agree limit_of window b \<and>
        (\<forall>r\<in>set (sh_table ?s'). tr_attempt r = a \<longrightarrow> tr_key r \<in> set (key_hashes b))"
    proof (cases "a = at_id att")
      case True
      with p have "b = att" by (simp add: ph)
      with True agree other show ?thesis unfolding tab by auto
    next
      case False
      with p have "sh_phase s a \<in> {Some (Reserved b), Some (Granted b), Some (Refused b)}" by (simp add: ph)
      with ok False show ?thesis unfolding tab shared_ok_def phase_ok_def by auto
    qed
  qed
  ultimately show ?thesis using ok by (simp add: shared_ok_def)
qed

lemma size_counted_filter:
  "size (filter_mset (\<lambda>r. P (ar_attempt r)) (db_counted tab now window k)) =
   length (filter (\<lambda>r. tr_key r = k \<and> in_window now window r \<and> P (tr_attempt r)) tab)"
  unfolding db_counted_def by (induction tab) (auto simp del: mset_filter)

lemma split_own_rows:
  "length (filter (\<lambda>r. L r \<and> (tr_attempt r = a \<or> G (tr_attempt r))) tab) \<le>
   length (filter (\<lambda>r. L r \<and> tr_attempt r \<noteq> a) tab) + length (filter (\<lambda>r. L r \<and> tr_attempt r = a) tab)"
  by (induction tab) auto

text \<open>A reading of the table that leaves every limited key below its limit has not met a full page.\<close>

lemma table_reading_complete:
  assumes dec: "decidable_attempt att" and dist: "distinct (map (\<lambda>r. (tr_key r, tr_attempt r)) tab)"
    and few: "\<forall>(k, l)\<in>set (at_limited att).
      int (length (other_rows att (snd (db_recent now (at_window att) (key_hashes att) tab) k))) < l"
    and k: "k \<in> set (key_hashes att)"
  shows "mset (snd (db_recent now (at_window att) (key_hashes att) tab) k) = db_counted tab now (at_window att) k"
proof -
  let ?W = "at_window att" and ?keys = "key_hashes att"
  define rows where "rows = snd (db_recent now ?W ?keys tab)"
  have keys: "distinct ?keys" using dec by (simp add: decidable_attempt_def)
  have own: "size (filter_mset (\<lambda>r. ar_attempt r = at_id att) (db_counted tab now ?W j)) \<le> 1" for j
    using distinct_pair_filter[OF dist, of j "at_id att" "in_window now ?W"]
      size_counted_filter[of "\<lambda>b. b = at_id att" tab now ?W j] by (simp add: conj_commute)
  have len: "int (length (rows j)) \<le> l" if "(j, l) \<in> set (at_limited att)" for j l
  proof -
    have j: "j \<in> set ?keys" using that by (force simp: key_hashes_def)
    have "mset (rows j) \<subseteq># db_counted tab now ?W j" unfolding rows_def by (rule table_store.recent_sub[OF j])
    then have "size (filter_mset (\<lambda>r. ar_attempt r = at_id att) (mset (rows j))) \<le>
        size (filter_mset (\<lambda>r. ar_attempt r = at_id att) (db_counted tab now ?W j))"
      by (intro size_mset_mono multiset_filter_mono)
    also have "\<dots> \<le> 1" by (rule own)
    finally show ?thesis
      using few that length_others_le[of "rows j" att] unfolding rows_def[symmetric] by fastforce
  qed
  have "int (sum_list (map (\<lambda>j. length (rows j)) ?keys)) \<le> sum_list (map snd (at_limited att))"
    unfolding key_hashes_def using sum_lengths_le[of "at_limited att" rows] len by simp
  then have "sum_list (map (\<lambda>j. length (rows j)) ?keys) < MAX_ROWS_PER_CHECK"
    using dec by (simp add: decidable_attempt_def)
  from table_store.recent_all[OF keys this[unfolded rows_def] k] show ?thesis .
qed

text \<open>A granting decision leaves at most the limit of granted rows.\<close>

lemma granted_after_decision:
  assumes ok: "shared_ok limit_of window s" and res: "sh_phase s a = Some (Reserved att)"
    and none: "retry_wait (joined_rows att (snd (db_recent (sh_now s) window (key_hashes att) (sh_table s))) local) att = None"
  shows "int (length (granted_rows window (set_phase a (Granted att) s) k)) \<le> max 0 (limit_of k)"
proof -
  let ?read = "snd (db_recent (sh_now s) window (key_hashes att) (sh_table s))"
  let ?live = "\<lambda>r. tr_key r = k \<and> in_window (sh_now s) window r"
  have att: "at_id att = a" "limits_agree limit_of window att"
      "\<forall>r\<in>set (sh_table s). tr_attempt r = a \<longrightarrow> tr_key r \<in> set (key_hashes att)"
    using ok res by (auto simp: shared_ok_def phase_ok_def)
  then have dec: "decidable_attempt att" and W: "at_window att = window" by (simp_all add: limits_agree_def)
  have dist: "distinct (map (\<lambda>r. (tr_key r, tr_attempt r)) (sh_table s))" using ok by (simp add: shared_ok_def)
  have gin: "granted_in (set_phase a (Granted att) s) b \<longleftrightarrow> b = a \<or> granted_in s b" for b
    by (simp add: granted_in_def set_phase_def)
  show ?thesis
  proof (cases "k \<in> set (key_hashes att)")
    case False
    then have "granted_rows window (set_phase a (Granted att) s) k = granted_rows window s k"
      using att(3) unfolding granted_rows_def gin by (auto simp: set_phase_def intro!: filter_cong)
    then show ?thesis using ok by (simp add: shared_ok_def)
  next
    case True
    have few: "\<forall>(j, l)\<in>set (at_limited att). int (length (other_rows att (?read j))) < l"
    proof (intro ballI, clarify)
      fix j l
      assume jl: "(j, l) \<in> set (at_limited att)"
      then have "j \<in> set (key_hashes att)" by (force simp: key_hashes_def)
      then show "int (length (other_rows att (?read j))) < l"
        using none jl unfolding retry_wait_None by (fastforce simp: joined_rows_def other_rows_def)
    qed
    obtain l where kl: "(k, l) \<in> set (at_limited att)" using True by (auto simp: key_hashes_def)
    then have l: "l = limit_of k" "0 < l" using att(2) dec by (auto simp: limits_agree_def decidable_attempt_def)
    have "mset (other_rows att (?read k)) = filter_mset (\<lambda>r. ar_attempt r \<noteq> a) (db_counted (sh_table s) (sh_now s) window k)"
      using table_reading_complete[OF dec dist, of "sh_now s"] few True att(1) unfolding W other_rows_def by simp
    then have "length (other_rows att (?read k)) =
        size (filter_mset (\<lambda>r. ar_attempt r \<noteq> a) (db_counted (sh_table s) (sh_now s) window k))"
      by (metis size_mset)
    also have "\<dots> = length (filter (\<lambda>r. ?live r \<and> tr_attempt r \<noteq> a) (sh_table s))"
      using size_counted_filter[of "\<lambda>b. b \<noteq> a"] by (simp only: conj_assoc)
    finally have others: "int (length (filter (\<lambda>r. ?live r \<and> tr_attempt r \<noteq> a) (sh_table s))) < l"
      using few kl by fastforce
    have own: "length (filter (\<lambda>r. tr_key r = k \<and> tr_attempt r = a \<and> in_window (sh_now s) window r) (sh_table s)) \<le> 1"
      by (rule distinct_pair_filter[OF dist])
    have "length (granted_rows window (set_phase a (Granted att) s) k) \<le>
        length (filter (\<lambda>r. ?live r \<and> tr_attempt r \<noteq> a) (sh_table s)) +
        length (filter (\<lambda>r. tr_key r = k \<and> tr_attempt r = a \<and> in_window (sh_now s) window r) (sh_table s))"
      using split_own_rows[of "\<lambda>r. ?live r" a "granted_in s" "sh_table s"]
      unfolding granted_rows_def gin by (simp add: set_phase_def conj_commute conj_left_commute)
    then show ?thesis using others own l by linarith
  qed
qed

lemma shared_ok_decide:
  assumes ok: "shared_ok limit_of window s" and res: "sh_phase s a = Some (Reserved att)"
    and p: "p = (if retry_wait (joined_rows att (snd (db_recent (sh_now s) window (key_hashes att) (sh_table s))) local) att = None
                 then Granted att else Refused att)"
  shows "shared_ok limit_of window (set_phase a p s)"
proof -
  have tab: "sh_table (set_phase a p s) = sh_table s"
    and ph: "sh_phase (set_phase a p s) = (sh_phase s)(a \<mapsto> p)" by (simp_all add: set_phase_def)
  have "int (length (granted_rows window (set_phase a p s) k)) \<le> max 0 (limit_of k)" for k
  proof (cases "p = Granted att")
    case True
    then have "retry_wait (joined_rows att (snd (db_recent (sh_now s) window (key_hashes att) (sh_table s))) local) att = None"
      using p by (auto split: if_splits)
    from granted_after_decision[OF ok res this] True show ?thesis by simp
  next
    case False
    then have "p = Refused att" using p by (auto split: if_splits)
    then have "granted_in (set_phase a p s) b = granted_in s b" for b
      using res unfolding granted_in_def ph by auto
    then show ?thesis using ok by (simp add: shared_ok_def granted_rows_def set_phase_def)
  qed
  moreover have "phase_ok limit_of window (set_phase a p s)"
    unfolding phase_ok_def
  proof (intro allI impI)
    fix b x
    assume px: "sh_phase (set_phase a p s) b \<in> {Some (Reserved x), Some (Granted x), Some (Refused x)}"
    have "sh_phase s b \<in> {Some (Reserved x), Some (Granted x), Some (Refused x)}"
    proof (cases "b = a")
      case True
      have "sh_phase (set_phase a p s) b = Some p" using True by (simp add: ph)
      moreover have "p = Granted att \<or> p = Refused att" using p by presburger
      ultimately have "x = att" using px by auto
      with True res show ?thesis by simp
    next
      case False
      with px show ?thesis by (simp add: ph)
    qed
    then show "at_id x = b \<and> limits_agree limit_of window x \<and>
        (\<forall>r\<in>set (sh_table (set_phase a p s)). tr_attempt r = b \<longrightarrow> tr_key r \<in> set (key_hashes x))"
      using ok unfolding tab shared_ok_def phase_ok_def by blast
  qed
  ultimately show ?thesis using ok unfolding shared_ok_def tab ph by auto
qed

lemma shared_ok_log [simp]: "shared_ok limit_of window (s\<lparr>sh_log := l\<rparr>) = shared_ok limit_of window s"
  by (simp add: shared_ok_def phase_ok_def granted_rows_def granted_in_def)

lemma throttle_step_ok:
  assumes "throttle_step limit_of window s s'" and ok: "shared_ok limit_of window s"
  shows "shared_ok limit_of window s'"
  using assms(1)
proof cases
  case (Pass t)
  then show ?thesis by (intro shared_ok_shrink[OF ok]) auto
next
  case (Insert att)
  then show ?thesis using shared_ok_insert[OF ok] by (simp add: limits_agree_def)
next
  case (Decide a att rows local)
  then show ?thesis using shared_ok_decide[OF ok] by auto
next
  case (Leave a att)
  then show ?thesis unfolding Leave(1) shared_ok_log by (intro shared_ok_shrink[OF ok]) (auto simp: set_phase_def db_release_def)
next
  case (Succeed a att)
  then show ?thesis unfolding Succeed(1) shared_ok_log by (intro shared_ok_shrink[OF ok]) (auto simp: set_phase_def db_clear_def)
next
  case Purge
  then show ?thesis
    by (intro shared_ok_shrink[OF ok]) (auto simp: db_purge_def Let_def subseq_delete_upto)
qed

lemma throttle_steps_ok:
  "(throttle_step limit_of window)\<^sup>*\<^sup>* s s' \<Longrightarrow> shared_ok limit_of window s \<Longrightarrow> shared_ok limit_of window s'"
  by (induction rule: rtranclp_induct) (auto intro: throttle_step_ok)

lemma no_attempts_ok: "shared_ok limit_of window (no_attempts now)"
  by (simp add: shared_ok_def no_attempts_def phase_ok_def granted_rows_def)

text \<open>The table holds every entry of the history that is in the window.\<close>

definition log_kept :: "rat \<Rightarrow> shared_system \<Rightarrow> bool" where
  "log_kept window s \<longleftrightarrow>
     distinct (map (\<lambda>r. (tr_key r, tr_attempt r)) (sh_log s)) \<and>
     (\<forall>r\<in>set (sh_log s). sh_phase s (tr_attempt r) \<noteq> None \<and> (in_window (sh_now s) window r \<longrightarrow> r \<in> set (sh_table s)))"

lemma delete_upto_keeps: "x \<in> set xs \<Longrightarrow> \<not> P x \<Longrightarrow> x \<in> set (delete_upto n P xs)"
  by (induction n P xs rule: delete_upto.induct) auto

lemma distinct_map_filter: "distinct (map f xs) \<Longrightarrow> distinct (map f (filter P xs))"
  by (induction xs) auto

lemma log_step:
  assumes "throttle_step limit_of window s s'" and log: "log_kept window s"
  shows "log_kept window s'"
  using assms(1)
proof cases
  case (Pass t)
  then show ?thesis using log by (auto simp: log_kept_def in_window_def)
next
  case (Insert att)
  have "tr_attempt r \<noteq> at_id att" if "r \<in> set (sh_log s)" for r using log that Insert(2) by (auto simp: log_kept_def)
  moreover have "distinct (key_hashes att)" using Insert(3) by (simp add: decidable_attempt_def)
  ultimately show ?thesis using log unfolding Insert(1)
    by (auto simp: log_kept_def set_phase_def db_insert_def distinct_map inj_on_def)
next
  case (Decide a att rows local)
  then show ?thesis using log by (auto simp: log_kept_def set_phase_def)
next
  case (Leave a att)
  then show ?thesis using log unfolding Leave(1)
    by (auto simp: log_kept_def set_phase_def db_release_def distinct_map_filter)
next
  case (Succeed a att)
  then show ?thesis using log unfolding Succeed(1)
    by (auto simp: log_kept_def set_phase_def db_clear_def distinct_map_filter)
next
  case Purge
  then show ?thesis using log by (auto simp: log_kept_def db_purge_def Let_def delete_upto_keeps)
qed

lemma log_steps: "(throttle_step limit_of window)\<^sup>*\<^sup>* s s' \<Longrightarrow> log_kept window s \<Longrightarrow> log_kept window s'"
  by (induction rule: rtranclp_induct) (auto intro: log_step)

section \<open>Properties\<close>

text \<open>The attempts for a key recorded in the window, allowed to check a password, and neither given back nor made up for by
  a success.\<close>

definition allowed_attempts :: "rat \<Rightarrow> shared_system \<Rightarrow> ident \<Rightarrow> table_row list" where
  "allowed_attempts window s key =
     filter (\<lambda>r. tr_key r = key \<and> in_window (sh_now s) window r \<and> granted_in s (tr_attempt r)) (sh_log s)"

lemma allowed_are_rows:
  assumes "log_kept window s"
  shows "length (allowed_attempts window s key) \<le> length (granted_rows window s key)"
proof -
  have d: "distinct (allowed_attempts window s key)"
    using assms by (auto simp: log_kept_def allowed_attempts_def distinct_map)
  have "set (allowed_attempts window s key) \<subseteq> set (granted_rows window s key)"
    using assms by (auto simp: log_kept_def allowed_attempts_def granted_rows_def)
  then have "card (set (allowed_attempts window s key)) \<le> card (set (granted_rows window s key))" by (simp add: card_mono)
  then show ?thesis using distinct_card[OF d] card_length[of "granted_rows window s key"] by linarith
qed

text \<open>C17: attempts of any number of workers on the shared table, in any interleaving with passing time, purges and
  successes, where the limits of an attempt fit together into one page of 1000 rows: the attempts of the history that were
  recorded in the window and allowed to check a password, and that were neither given back nor made up for by a success of
  the same login key, are at most the limit, for every key (login with address, and address).\<close>

theorem allowed_attempts_stay_within_limit:
  assumes "(throttle_step limit_of window)\<^sup>*\<^sup>* (no_attempts now) s"
  shows "int (length (allowed_attempts window s key)) \<le> max 0 (limit_of key)"
proof -
  have "log_kept window (no_attempts now)" by (simp add: log_kept_def no_attempts_def)
  from allowed_are_rows[OF log_steps[OF assms this], of key] show ?thesis
    using throttle_steps_ok[OF assms no_attempts_ok] by (auto simp: shared_ok_def intro: order_trans[of _ "int (length (granted_rows window s key))"])
qed

definition demo_attempt :: "ident \<Rightarrow> attempt" where
  "demo_attempt a = \<lparr>at_id = a, at_limited = [(''pair'', 1), (''ip'', 20)], at_login_key = ''pair'',
     at_window = 900, at_retry_after = None, at_store = None\<rparr>"

definition demo_limits :: "ident \<Rightarrow> int" where
  "demo_limits key = (if key = ''pair'' then 1 else 20)"

lemma demo_attempt_decidable: "decidable_attempt (demo_attempt a)"
  by (simp add: decidable_attempt_def demo_attempt_def key_hashes_def MAX_ROWS_PER_CHECK_def)

definition demo_inserted :: shared_system where
  "demo_inserted = (set_phase ''a'' (Reserved (demo_attempt ''a''))
     ((no_attempts 5)\<lparr>sh_table := db_insert 5 ''a'' [''pair'', ''ip''] []\<rparr>))
       \<lparr>sh_log := map (\<lambda>k. \<lparr>tr_key = k, tr_attempt = ''a'', tr_at = 5\<rparr>) [''pair'', ''ip'']\<rparr>"

definition demo_granted :: shared_system where
  "demo_granted = set_phase ''a'' (Granted (demo_attempt ''a'')) demo_inserted"

lemma demo_granted_reachable: "(throttle_step demo_limits 900)\<^sup>*\<^sup>* (no_attempts 5) demo_granted"
proof -
  have "throttle_step demo_limits 900 (no_attempts 5) demo_inserted"
    using throttle_step.Insert[of "no_attempts 5" "demo_attempt ''a''" 900 demo_limits] demo_attempt_decidable
    by (simp add: demo_inserted_def no_attempts_def demo_attempt_def demo_limits_def key_hashes_def)
  moreover have "throttle_step demo_limits 900 demo_inserted demo_granted"
  proof -
    let ?rows = "joined_rows (demo_attempt ''a'') (snd (db_recent (sh_now demo_inserted) 900
      (key_hashes (demo_attempt ''a'')) (sh_table demo_inserted))) (\<lambda>_. [])"
    have "retry_wait ?rows (demo_attempt ''a'') = None"
      unfolding retry_wait_None
      by (simp add: demo_attempt_def joined_rows_def key_hashes_def other_rows_def db_recent_def
          select_recent_def select_page_def demo_inserted_def set_phase_def db_insert_def no_attempts_def
          in_window_def MAX_ROWS_PER_CHECK_def)
    then show ?thesis
      using throttle_step.Decide[of demo_inserted "''a''" "demo_attempt ''a''" ?rows 900 "\<lambda>_. []" demo_limits]
      by (simp add: demo_granted_def demo_inserted_def set_phase_def)
  qed
  ultimately show ?thesis by (meson rtranclp.rtrancl_into_rtrancl rtranclp.rtrancl_refl)
qed

theorem allowed_attempts_stay_within_limit_witness:
  "allowed_attempts 900 demo_granted ''pair'' \<noteq> [] \<and> int (length (allowed_attempts 900 demo_granted ''pair'')) \<le> 1"
proof -
  have "allowed_attempts 900 demo_granted ''pair'' \<noteq> []"
    by (simp add: allowed_attempts_def demo_granted_def demo_inserted_def set_phase_def no_attempts_def in_window_def granted_in_def)
  then show ?thesis using allowed_attempts_stay_within_limit[OF demo_granted_reachable, of "''pair''"] by (simp add: demo_limits_def)
qed

text \<open>The rows a begin must count.\<close>

definition counted_now ::
    "throttle_config \<Rightarrow> rat \<Rightarrow> rat \<Rightarrow> fate \<Rightarrow> attempt \<Rightarrow> throttle \<Rightarrow> ident \<Rightarrow> nat" where
  "counted_now cfg now db_now fate att s key =
     (if shared_available cfg now s \<and> fate = Works
      then size (db_counted (th_table s) db_now (at_window att) key) else 0) +
     size (mem_counted (th_memory s) now (at_window att) key)"

definition fresh_attempt :: "attempt \<Rightarrow> throttle \<Rightarrow> bool" where
  "fresh_attempt att s \<longleftrightarrow>
     (\<forall>r\<in>set (th_table s). tr_attempt r \<noteq> at_id att) \<and>
     (\<forall>kv\<in>set (th_memory s). \<forall>row\<in>set (snd kv). snd row \<noteq> at_id att)"

lemma fresh_in_table: "fresh_attempt att s \<Longrightarrow> fresh_in (at_id att) (db_counted (th_table s) now W k)"
  by (auto simp: fresh_attempt_def fresh_in_def db_counted_def)

lemma fresh_rows: "fresh_attempt att s \<Longrightarrow> row \<in> set (rows_of (th_memory s) k) \<Longrightarrow> snd row \<noteq> at_id att"
proof (cases "map_of (th_memory s) k")
  case (Some rows)
  assume f: "fresh_attempt att s" and r: "row \<in> set (rows_of (th_memory s) k)"
  have "(k, rows) \<in> set (th_memory s)" using Some by (rule map_of_SomeD)
  with f have "\<forall>row\<in>set rows. snd row \<noteq> at_id att" unfolding fresh_attempt_def by fastforce
  with r Some show ?thesis by (simp add: rows_of_def)
qed (simp add: rows_of_def)

lemma fresh_in_memory: "fresh_attempt att s \<Longrightarrow> fresh_in (at_id att) (mem_counted (th_memory s) now W k)"
  using fresh_rows[of att s _ k] by (fastforce simp: fresh_in_def mem_counted_def)

lemma memory_decides:
  assumes "decidable_attempt att" and "\<And>k. fresh_in (at_id att) (mem_counted m now (at_window att) k)"
  shows "retry_wait (snd (mem_reserve now (at_window att) (at_id att) (key_hashes att) m)) att = None \<longleftrightarrow>
    memory_store.room att now (\<lambda>_. []) m"
  by (rule memory_store.reserve_decides[OF assms]) (simp_all add: fresh_in_def)

lemma begin_in_memory_result:
  assumes "at_retry_after att = None"
  shows "at_retry_after (snd (begin_in_memory now att s)) =
      retry_wait (snd (mem_reserve now (at_window att) (at_id att) (key_hashes att) (th_memory s))) att"
    and "th_table (fst (begin_in_memory now att s)) = th_table s"
    and "th_unavailable_until (fst (begin_in_memory now att s)) = th_unavailable_until s"
  using assms by (auto simp: begin_in_memory_def split: prod.splits option.splits)

lemma shared_quietly_memory [simp]: "th_memory (shared_quietly cfg now fate f s) = th_memory s"
  by (cases fate) (simp_all add: shared_quietly_def mark_unavailable_def)

lemma shared_quietly_table [simp]: "th_table (shared_quietly cfg now Works f s) = f (th_table s)"
  by (simp add: shared_quietly_def)

lemma begin_in_table_result:
  assumes "at_retry_after att = None"
  shows "at_retry_after (snd (begin_in_table cfg now f att rows s)) =
    retry_wait (joined_rows att rows (snd (mem_recent now (at_window att) (key_hashes att) (th_memory s)))) att"
  using assms by (auto simp: begin_in_table_def Let_def split: prod.splits option.splits)

lemma table_decides:
  assumes dec: "decidable_attempt att" and fresh: "fresh_attempt att s"
  shows "retry_wait (joined_rows att
      (snd (db_reserve db_now (at_window att) (at_id att) (key_hashes att) (th_table s)))
      (snd (mem_recent now (at_window att) (key_hashes att) (th_memory s)))) att = None \<longleftrightarrow>
    (\<forall>(k, l)\<in>set (at_limited att).
       int (size (db_counted (th_table s) db_now (at_window att) k)
            + size (mem_counted (th_memory s) now (at_window att) k)) < l)"
proof -
  let ?extra = "snd (mem_recent now (at_window att) (key_hashes att) (th_memory s))"
  have extra: "mset (?extra k) = mem_counted (th_memory s) now (at_window att) k" if "k \<in> set (key_hashes att)" for k
    by (rule memory_exact.recent_exact[OF that])
  have efresh: "fresh_in (at_id att) (mset (?extra k))" for k
  proof (cases "k \<in> set (key_hashes att)")
    case True
    with extra fresh_in_memory[OF fresh] show ?thesis by simp
  next
    case False
    then show ?thesis by (simp add: fresh_in_def mem_recent_def Let_def)
  qed
  have len: "length (?extra k) = size (mem_counted (th_memory s) now (at_window att) k)"
    if "(k, l) \<in> set (at_limited att)" for k l
    using extra[of k] that by (metis fst_conv image_eqI key_hashes_def list.set_map size_mset)
  have "retry_wait (joined_rows att (snd (db_reserve db_now (at_window att) (at_id att) (key_hashes att) (th_table s))) ?extra) att = None
      \<longleftrightarrow> table_store.room att db_now ?extra (th_table s)"
    by (rule table_store.reserve_decides[OF dec fresh_in_table[OF fresh] efresh]) (simp add: joined_rows_def)
  also have "\<dots> \<longleftrightarrow> (\<forall>(k, l)\<in>set (at_limited att).
       int (size (db_counted (th_table s) db_now (at_window att) k)
            + size (mem_counted (th_memory s) now (at_window att) k)) < l)"
    unfolding table_store.room_def using len by fastforce
  finally show ?thesis .
qed

lemma begin_refuses_iff_full':
  assumes dec: "decidable_attempt att" and fresh: "fresh_attempt att s"
  shows "at_retry_after (snd (begin_attempt cfg now db_now fate release_fate att s)) = None \<longleftrightarrow>
    (\<forall>(key, limit)\<in>set (at_limited att). int (counted_now cfg now db_now fate att s key) < limit)"
proof -
  have retry: "at_retry_after att = None" using dec by (simp add: decidable_attempt_def)
  have mem: "memory_store.room att now (\<lambda>_. []) (th_memory s) \<longleftrightarrow>
      (\<forall>(key, limit)\<in>set (at_limited att). int (size (mem_counted (th_memory s) now (at_window att) key)) < limit)"
    by (simp add: memory_store.room_def)
  note in_mem = memory_decides[OF dec fresh_in_memory[OF fresh], of now]
  consider "at_limited att = []" | "at_limited att \<noteq> []" "\<not> shared_available cfg now s"
    | "at_limited att \<noteq> []" "shared_available cfg now s" "fate = Works"
    | "at_limited att \<noteq> []" "shared_available cfg now s" "fate \<noteq> Works" by blast
  then show ?thesis
  proof cases
    case 1
    then show ?thesis using retry by (simp add: begin_attempt_def)
  next
    case 2
    then show ?thesis using in_mem mem retry
      by (simp add: begin_attempt_def begin_in_memory_result counted_now_def)
  next
    case 3
    then show ?thesis using table_decides[OF dec fresh, of db_now now] retry
      by (simp add: begin_attempt_def begin_in_table_result counted_now_def)
  next
    case 4
    then have "at_retry_after (snd (begin_attempt cfg now db_now fate release_fate att s)) =
        retry_wait (snd (mem_reserve now (at_window att) (at_id att) (key_hashes att) (th_memory s))) att"
      using retry by (cases fate) (simp_all add: begin_attempt_def begin_in_memory_result mark_unavailable_def)
    then show ?thesis using in_mem mem 4 by (simp add: counted_now_def)
  qed
qed

text \<open>a begin refuses exactly when a limited key is full, counting every attempt in the window in
  the shared table (when it answers) and in the memory of the process, so that neither a full page
  nor a change of store lets an attempt through.\<close>

theorem begin_refuses_iff_full:
  assumes dec: "decidable_attempt att" and fresh: "fresh_attempt att s"
  shows "at_retry_after (snd (begin_attempt cfg now db_now fate release_fate att s)) = None \<longleftrightarrow>
    (\<forall>(key, limit)\<in>set (at_limited att). int (counted_now cfg now db_now fate att s key) < limit)"
  by (rule begin_refuses_iff_full'[OF dec fresh])

definition demo_throttle :: throttle where
  "demo_throttle =
     \<lparr>th_memory = [(''pair'', [(100, ''z'')])], th_unavailable_until = None, th_table = []\<rparr>"

definition demo_config :: throttle_config where
  "demo_config = \<lparr>tc_shared = True, tc_retry = 30, tc_hash = concat\<rparr>"

theorem begin_refuses_iff_full_witness:
  "at_retry_after (snd (begin_attempt demo_config 200 50 Works Works (demo_attempt ''a'') demo_throttle)) \<noteq> None"
proof -
  have "fresh_attempt (demo_attempt ''a'') demo_throttle"
    by (simp add: fresh_attempt_def demo_attempt_def demo_throttle_def)
  from begin_refuses_iff_full[OF demo_attempt_decidable this, of demo_config 200 50 Works Works]
  show ?thesis
    by (simp add: demo_attempt_def demo_throttle_def counted_now_def mem_counted_def rows_of_def expired_def)
qed

lemma reserve_read_others:
  assumes dec: "decidable_attempt att" and fresh: "\<And>k. fresh_in (at_id att) (mem_counted m now (at_window att) k)"
    and k: "k \<in> set (key_hashes att)"
  shows "mset (other_rows att (snd (mem_reserve now (at_window att) (at_id att) (key_hashes att) m) k)) =
    mem_counted m now (at_window att) k"
proof -
  have "mset (snd (mem_reserve now (at_window att) (at_id att) (key_hashes att) m) k) =
      mem_counted m now (at_window att) k + {#\<lparr>ar_attempt = at_id att, ar_age = 0\<rparr>#}"
    unfolding mem_reserve_reads memory_exact.recent_exact[OF k]
    by (rule memory_store.own_rows_one[OF dec fresh k])
  then show ?thesis
    using fresh[of k] by (auto simp: other_rows_def fresh_in_def filter_mset_eq_conv)
qed

lemma released_counted:
  assumes dec: "decidable_attempt att" and fresh: "\<And>k. fresh_in (at_id att) (mem_counted m now (at_window att) k)"
    and k: "k \<in> set (key_hashes att)" and "now \<le> t"
  shows "mem_counted (mem_release (at_id att) (key_hashes att)
      (fst (mem_reserve now (at_window att) (at_id att) (key_hashes att) m))) t (at_window att) k =
    mem_counted m t (at_window att) k"
proof -
  have "fresh_in (at_id att) (mem_counted m t (at_window att) k)"
    using fresh[of k] unfolding mem_counted_later[OF assms(4)] by (auto simp: fresh_in_def)
  then have "filter_mset (\<lambda>r. ar_attempt r \<noteq> at_id att) (mem_counted m t (at_window att) k) =
      mem_counted m t (at_window att) k"
    by (auto simp: fresh_in_def filter_mset_eq_conv)
  moreover have "distinct (key_hashes att)" "0 < at_window att" using dec by (simp_all add: decidable_attempt_def)
  ultimately show ?thesis
    using k assms(4) by (simp add: memory_store.release_counted mem_reserve_counted)
qed

lemma ceiling_wait:
  fixes M :: rat
  assumes "0 < M" and "w = max 1 \<lceil>M\<rceil>"
  shows "M \<le> of_int w" and "of_int w - 1 < M"
proof -
  have "1 \<le> \<lceil>M\<rceil>" using assms(1) by simp
  then have "w = \<lceil>M\<rceil>" using assms(2) by simp
  then show "M \<le> of_int w" and "of_int w - 1 < M" using ceiling_correct[of M] by simp_all
qed

text \<open>the number of seconds given with a refusal is right: without attempts in between, an attempt
  with the same keys is allowed from then on, and one up to a second before it is still refused.\<close>

theorem retry_after_is_exact:
  assumes dec: "decidable_attempt att" and fresh: "fresh_attempt att s"
    and b: "begin_in_memory now att s = (s', att')" and w: "at_retry_after att' = Some w"
    and fresh2: "fresh_attempt (att\<lparr>at_id := b\<rparr>) s'" and t: "now \<le> t"
  shows "(of_int w \<le> t - now \<longrightarrow> at_retry_after (snd (begin_in_memory t (att\<lparr>at_id := b\<rparr>) s')) = None)
    \<and> (t - now \<le> of_int w - 1 \<longrightarrow> at_retry_after (snd (begin_in_memory t (att\<lparr>at_id := b\<rparr>) s')) \<noteq> None)"
proof -
  let ?att2 = "att\<lparr>at_id := b\<rparr>" and ?W = "at_window att" and ?keys = "key_hashes att"
  define rows where "rows = snd (mem_reserve now ?W (at_id att) ?keys (th_memory s))"
  define ws where "ws = full_waits rows att"
  have retry: "at_retry_after att = None" using dec by (simp add: decidable_attempt_def)
  have dec2: "decidable_attempt ?att2" using dec by (simp add: decidable_attempt_def key_hashes_def)
  note f = fresh_in_memory[OF fresh]
  have rw: "retry_wait rows att = Some w"
    using begin_in_memory_result(1)[OF retry, of now s] b w by (simp add: rows_def)
  then have s': "th_memory s' = mem_release (at_id att) ?keys (fst (mem_reserve now ?W (at_id att) ?keys (th_memory s)))"
    using b by (auto simp: begin_in_memory_def rows_def split: prod.splits)
  have others: "mset (other_rows att (rows k)) = mem_counted (th_memory s) now ?W k" if "k \<in> set ?keys" for k
    unfolding rows_def by (rule reserve_read_others[OF dec f that])
  have "at_retry_after (snd (begin_in_memory t ?att2 s')) = None \<longleftrightarrow> memory_store.room ?att2 t (\<lambda>_. []) (th_memory s')"
    using begin_in_memory_result(1)[of ?att2 t s'] retry memory_decides[OF dec2 fresh_in_memory[OF fresh2], of t] by simp
  also have "\<dots> \<longleftrightarrow> memory_store.room ?att2 t (\<lambda>_. []) (th_memory s)"
    unfolding memory_store.room_def s' using released_counted[OF dec f _ t] by (force simp: key_hashes_def)
  also have "\<dots> \<longleftrightarrow> (\<forall>x\<in>set ws. x \<le> t - now)"
    unfolding ws_def using dec
    by (intro memory_exact.room_later[OF t _ others]) (simp_all add: decidable_attempt_def)
  finally have allowed: "at_retry_after (snd (begin_in_memory t ?att2 s')) = None \<longleftrightarrow> (\<forall>x\<in>set ws. x \<le> t - now)" .
  have ne: "ws \<noteq> []" and w_eq: "w = max 1 \<lceil>Max (set ws)\<rceil>"
    using rw by (auto simp: retry_wait_def ws_def split: if_splits)
  have "0 < x" if "x \<in> set ws" for x
  proof -
    from that obtain k l where kl: "(k, l) \<in> set (at_limited att)" "l \<le> int (length (other_rows att (rows k)))"
        and x: "x = ?W - ar_age (sort_key ar_age (other_rows att (rows k)) ! nat (l - 1))"
      by (auto simp: ws_def full_waits_def Let_def split: if_splits)
    have "0 < l" using dec kl(1) by (auto simp: decidable_attempt_def)
    then have "sort_key ar_age (other_rows att (rows k)) ! nat (l - 1) \<in> set (sort_key ar_age (other_rows att (rows k)))"
      using kl(2) by (intro nth_mem) simp
    then have "sort_key ar_age (other_rows att (rows k)) ! nat (l - 1) \<in># mem_counted (th_memory s) now ?W k"
      using others[of k] kl(1) by (force simp: key_hashes_def set_mset_mset[symmetric] simp del: set_mset_mset)
    from memory_exact.counted_young[OF this] x show "0 < x" by simp
  qed
  then have "0 < Max (set ws)" using ne by simp
  from ceiling_wait[OF this w_eq] show ?thesis
    unfolding allowed using ne Max_ge[of "set ws"] Max_in[of "set ws"] by fastforce
qed

lemma demo_refused:
  "begin_in_memory 200 (demo_attempt ''a'') demo_throttle =
     (demo_throttle, (demo_attempt ''a'')\<lparr>at_retry_after := Some 800\<rparr>)"
  by (simp add: begin_in_memory_def mem_reserve_def mem_recent_def mem_release_def demo_attempt_def
      demo_throttle_def key_hashes_def Let_def add_row_def drop_rows_def rows_of_def expired_def
      PRUNE_THRESHOLD_def retry_wait_def full_waits_def other_rows_def)

theorem retry_after_is_exact_witness:
  "at_retry_after (snd (begin_in_memory 1000 (demo_attempt ''b'') demo_throttle)) = None"
proof -
  have fresh: "fresh_attempt (demo_attempt c) demo_throttle" if "c \<noteq> ''z''" for c
    using that by (simp add: fresh_attempt_def demo_attempt_def demo_throttle_def)
  have b: "(demo_attempt ''a'')\<lparr>at_id := ''b''\<rparr> = demo_attempt ''b''" by (simp add: demo_attempt_def)
  show ?thesis
    using retry_after_is_exact[OF demo_attempt_decidable fresh demo_refused, of 800 "''b''" 1000] fresh
    unfolding b by simp
qed

text \<open>an outage of the shared table never opens the login: the begin goes on in the memory of the
  process, where the attempt it allows is counted, and the table is not tried again before the
  configured time.\<close>

theorem outage_keeps_counting:
  assumes dec: "decidable_attempt att" and fresh: "fresh_attempt att s" and keys: "at_limited att \<noteq> []"
    and up: "shared_available cfg now s" and out: "fate \<noteq> Works"
    and b: "begin_attempt cfg now db_now fate release_fate att s = (s', att')"
  shows "(at_retry_after att' = None \<longrightarrow> at_store att' = Some MemoryStore
        \<and> (\<forall>k\<in>set (key_hashes att).
             \<lparr>ar_attempt = at_id att, ar_age = 0\<rparr> \<in># mem_counted (th_memory s') now (at_window att) k))
    \<and> (at_retry_after att' = None \<longleftrightarrow>
        (\<forall>(k, l)\<in>set (at_limited att). int (size (mem_counted (th_memory s) now (at_window att) k)) < l))
    \<and> (\<forall>t < now + tc_retry cfg. \<not> shared_available cfg t s')"
proof -
  have retry: "at_retry_after att = None" using dec by (simp add: decidable_attempt_def)
  obtain s1 where s1: "begin_attempt cfg now db_now fate release_fate att s = begin_in_memory now att s1"
      "th_memory s1 = th_memory s" "th_unavailable_until s1 = Some (now + tc_retry cfg)"
    using keys up out by (cases fate) (auto simp: begin_attempt_def mark_unavailable_def)
  have allowed: "at_retry_after att' = None \<longleftrightarrow>
      (\<forall>(k, l)\<in>set (at_limited att). int (size (mem_counted (th_memory s) now (at_window att) k)) < l)"
    using begin_refuses_iff_full'[OF dec fresh, of cfg now db_now fate release_fate] b out
    by (simp add: counted_now_def)
  have "th_unavailable_until s' = Some (now + tc_retry cfg)"
    using begin_in_memory_result(3)[OF retry, of now s1] s1(1,3) b by (metis fst_conv)
  then have closed: "\<forall>t < now + tc_retry cfg. \<not> shared_available cfg t s'"
    by (simp add: shared_available_def)
  have "at_store att' = Some MemoryStore \<and> (\<forall>k\<in>set (key_hashes att).
      \<lparr>ar_attempt = at_id att, ar_age = 0\<rparr> \<in># mem_counted (th_memory s') now (at_window att) k)"
    if none: "at_retry_after att' = None"
  proof -
    have b1: "begin_in_memory now att s1 = (s', att')" using s1 b by simp
    then have rw: "retry_wait (snd (mem_reserve now (at_window att) (at_id att) (key_hashes att) (th_memory s))) att = None"
      using begin_in_memory_result(1)[OF retry, of now s1] none s1(2) by simp
    have mem: "th_memory s' = fst (mem_reserve now (at_window att) (at_id att) (key_hashes att) (th_memory s))"
      and st: "at_store att' = Some MemoryStore"
      using b1 rw s1(2) by (auto simp: begin_in_memory_def split: prod.splits)
    show ?thesis
      using st memory_store.own_rows_one[OF dec fresh_in_memory[OF fresh]] unfolding mem by simp
  qed
  with allowed closed show ?thesis by blast
qed

theorem outage_keeps_counting_witness:
  "\<not> shared_available demo_config 210
     (fst (begin_attempt demo_config 200 50 Fails Works (demo_attempt ''a'') demo_throttle))"
proof -
  have fresh: "fresh_attempt (demo_attempt ''a'') demo_throttle"
    by (simp add: fresh_attempt_def demo_attempt_def demo_throttle_def)
  have up: "shared_available demo_config 200 demo_throttle" "at_limited (demo_attempt ''a'') \<noteq> []"
    by (simp_all add: shared_available_def demo_config_def demo_throttle_def demo_attempt_def)
  show ?thesis
    using outage_keeps_counting[OF demo_attempt_decidable fresh up(2) up(1), of Fails 50 Works] 
    by (cases "begin_attempt demo_config 200 50 Fails Works (demo_attempt ''a'') demo_throttle")
      (simp add: demo_config_def)
qed

text \<open>a success forgets the failures of the login with this address, and of the address only its
  own attempt: a valid account does not give an address new attempts on other accounts.\<close>

theorem success_resets_only_the_pair:
  assumes "at_store att = Some SharedStore" and "key \<in> set (key_hashes att)" and "key \<noteq> at_login_key att"
  shows "db_counted (th_table (record_success cfg now Works att s)) t window (at_login_key att) = {#}
    \<and> mem_counted (th_memory (record_success cfg now fate att s)) t window (at_login_key att) = {#}
    \<and> db_counted (th_table (record_success cfg now Works att s)) t window key =
        filter_mset (\<lambda>r. ar_attempt r \<noteq> at_id att) (db_counted (th_table s) t window key)
    \<and> mem_counted (th_memory (record_success cfg now fate att s)) t window key =
        filter_mset (\<lambda>r. ar_attempt r \<noteq> at_id att) (mem_counted (th_memory s) t window key)"
  using assms
  by (simp add: record_success_def Let_def memory_store.clear_counted table_store.clear_counted
      del: mset_filter)

theorem success_resets_only_the_pair_witness:
  "mem_counted (th_memory (record_success demo_config 300 Works
      ((demo_attempt ''a'')\<lparr>at_store := Some SharedStore\<rparr>) demo_throttle)) 300 900 ''pair'' = {#}"
  using success_resets_only_the_pair[of "(demo_attempt ''a'')\<lparr>at_store := Some SharedStore\<rparr>" "''ip''" demo_config 300
      demo_throttle 300 900 Works]
  by (simp add: demo_attempt_def key_hashes_def)

text \<open>A limit above the page of the query is never enforced by the shared table alone.\<close>

lemma limit_above_page_never_refuses:
  assumes "\<forall>(k, l)\<in>set (at_limited att). int MAX_ROWS_PER_CHECK < l"
  shows "retry_wait (snd (db_reserve now (at_window att) (at_id att) (key_hashes att) tab)) att = None"
proof -
  have "length (other_rows att (select_recent now W keys t k)) \<le> MAX_ROWS_PER_CHECK" for W keys t k
  proof -
    have "length (other_rows att (select_recent now W keys t k)) \<le> length (select_page now W keys t)"
      unfolding other_rows_def select_recent_def
      by (rule le_trans[OF length_filter_le]) simp
    then show ?thesis by (simp add: select_page_def)
  qed
  then have le: "int (length (other_rows att (snd (db_reserve now (at_window att) (at_id att) (key_hashes att) tab) k)))
      \<le> int MAX_ROWS_PER_CHECK" for k
    by (simp add: db_reserve_def db_recent_def)
  show ?thesis
    unfolding retry_wait_None
  proof (intro ballI, clarify)
    fix k l
    assume "(k, l) \<in> set (at_limited att)"
    with assms have "int MAX_ROWS_PER_CHECK < l" by fastforce
    with le[of k] show "int (length (other_rows att
        (snd (db_reserve now (at_window att) (at_id att) (key_hashes att) tab) k))) < l" by linarith
  qed
qed

end
