(* ===== verification/IngestionJobs.thy ===== *)
theory IngestionJobs
  imports Prelude "HOL-Library.List_Lexorder" "HOL-Library.Product_Lexorder" "HOL-Library.Char_ord"
begin

text \<open>The jobs of the ingestion of documents and the tables they live in
  (\<open>rag/backend/app/clients/oracle.py\<close>, the operations on \<open>rag_ingestion_jobs\<close>, and the data of
  \<open>rag/backend/app/schemas/document.py\<close>): creation, claim with a lease, heartbeat, conditional
  change of status, recovery of stale jobs, return of the jobs of a stopping worker, and failures
  before a claim. Each operation is one transaction. Workers read without a restriction of scope,
  so the access predicate is the existence of the document. Instants are exact seconds, a reading
  of a clock is an argument.\<close>

section \<open>Data\<close>

datatype job_status = JQueued | JRunning | JSucceeded | JFailed | JSkipped | JCancelled

datatype job_phase = Preprocess | Extract | Chunk | Index

datatype file_status =
  Uploaded | Preprocessing | Preprocessed | Ingesting | Review | Chunking | Chunked | Indexing
| Indexed | FileError

record ing_job =
  ij_id :: ident
  ij_document :: ident
  ij_recipe :: "ident option"
  ij_revision :: "int option"
  ij_status :: job_status
  ij_phase :: job_phase
  ij_error :: "string option"
  ij_skip :: "string option"
  ij_attempts :: nat
  ij_max_attempts :: nat
  ij_queued_at :: rat
  ij_started_at :: "rat option"
  ij_finished_at :: "rat option"
  ij_lease :: "ident option"
  ij_heartbeat :: "rat option"

record doc_row =
  dc_id :: ident
  dc_status :: file_status
  dc_error :: "string option"

record recipe_row =
  rc_id :: ident
  rc_document :: ident
  rc_revision :: int
  rc_status :: file_status
  rc_failed_phase :: "job_phase option"
  rc_error :: "string option"
  rc_extraction :: "ident option"
  rc_materialized :: "int option"

record chunk_set =
  cs_id :: ident
  cs_document :: ident
  cs_recipe :: "ident option"
  cs_extraction :: "ident option"
  cs_status :: file_status
  cs_active :: bool
  cs_retired :: "rat option"

record ing_db =
  db_jobs :: "ing_job list"
  db_docs :: "doc_row list"
  db_recipes :: "recipe_row list"
  db_chunk_sets :: "chunk_set list"

definition open_statuses :: "job_status list" where
  "open_statuses = [JQueued, JRunning]"

definition heavy_phase :: "job_phase \<Rightarrow> bool" where
  "heavy_phase p = (p = Preprocess \<or> p = Extract)"

definition active_status :: "file_status \<Rightarrow> bool" where
  "active_status s = (s \<in> {Preprocessing, Ingesting, Chunking, Indexing})"

fun running_status :: "job_phase \<Rightarrow> file_status" where
  "running_status Preprocess = Preprocessing"
| "running_status Extract = Ingesting"
| "running_status Chunk = Chunking"
| "running_status Index = Indexing"

fun status_before :: "job_phase \<Rightarrow> file_status" where
  "status_before Index = Chunked"
| "status_before Chunk = Review"
| "status_before Extract = Uploaded"
| "status_before Preprocess = Uploaded"

fun recipe_status_before :: "job_phase \<Rightarrow> file_status" where
  "recipe_status_before Index = Chunked"
| "recipe_status_before Chunk = Review"
| "recipe_status_before Extract = Preprocessed"
| "recipe_status_before Preprocess = Uploaded"

fun failed_phase_of :: "file_status \<Rightarrow> job_phase" where
  "failed_phase_of Ingesting = Extract"
| "failed_phase_of Chunking = Chunk"
| "failed_phase_of Indexing = Index"
| "failed_phase_of _ = Preprocess"

section \<open>Reading the tables\<close>

definition doc_exists :: "ing_db \<Rightarrow> ident \<Rightarrow> bool" where
  "doc_exists db d = list_ex (\<lambda>x. dc_id x = d) (db_docs db)"

definition get_job :: "ing_db \<Rightarrow> ident \<Rightarrow> ing_job option" where
  "get_job db i = find (\<lambda>j. ij_id j = i \<and> doc_exists db (ij_document j)) (db_jobs db)"

definition get_recipe :: "ing_db \<Rightarrow> ident \<Rightarrow> ident \<Rightarrow> recipe_row option" where
  "get_recipe db d r = find (\<lambda>x. rc_document x = d \<and> rc_id x = r \<and> doc_exists db d) (db_recipes db)"

definition active_chunk_set :: "ing_db \<Rightarrow> ident \<Rightarrow> ident option" where
  "active_chunk_set db r =
     map_option cs_id (find (\<lambda>c. cs_recipe c = Some r \<and> cs_active c) (db_chunk_sets db))"

definition has_served_set :: "ing_db \<Rightarrow> ident \<Rightarrow> bool" where
  "has_served_set db r =
     list_ex (\<lambda>c. cs_recipe c = Some r \<and> cs_active c \<and> cs_status c = Indexed) (db_chunk_sets db)"

definition open_job :: "ing_job \<Rightarrow> bool" where
  "open_job j = (ij_status j = JQueued \<or> ij_status j = JRunning)"

definition document_jobs :: "ing_db \<Rightarrow> ident \<Rightarrow> job_status \<Rightarrow> ing_job list" where
  "document_jobs db d s = filter (\<lambda>j. ij_document j = d \<and> ij_status j = s \<and> doc_exists db d) (db_jobs db)"

section \<open>Statuses of documents and recipes\<close>

definition update_document_status :: "ident \<Rightarrow> file_status \<Rightarrow> string option \<Rightarrow> ing_db \<Rightarrow> ing_db" where
  "update_document_status d s err db =
     db\<lparr>db_docs := update_where (\<lambda>x. dc_id x = d) (\<lambda>x. x\<lparr>dc_status := s, dc_error := err\<rparr>) (db_docs db)\<rparr>"

definition update_recipe_status ::
    "ident \<Rightarrow> file_status \<Rightarrow> job_phase option \<Rightarrow> string option \<Rightarrow> ing_db \<Rightarrow> ing_db" where
  "update_recipe_status r s failed err db =
     db\<lparr>db_recipes := update_where (\<lambda>x. rc_id x = r)
          (\<lambda>x. x\<lparr>rc_status := s, rc_failed_phase := failed, rc_error := err\<rparr>) (db_recipes db)\<rparr>"

definition reset_document :: "ident \<Rightarrow> file_status \<Rightarrow> string option \<Rightarrow> ing_db \<Rightarrow> ing_db" where
  "reset_document d s err db =
     db\<lparr>db_docs := update_where (\<lambda>x. dc_id x = d \<and> active_status (dc_status x))
          (\<lambda>x. x\<lparr>dc_status := s, dc_error := err\<rparr>) (db_docs db)\<rparr>"

definition reset_recipe ::
    "ident \<Rightarrow> job_phase \<Rightarrow> file_status \<Rightarrow> string option \<Rightarrow> ing_db \<Rightarrow> ing_db" where
  "reset_recipe r phase s err db =
     db\<lparr>db_recipes := update_where
          (\<lambda>x. rc_id x = r \<and> active_status (rc_status x) \<and> doc_exists db (rc_document x))
          (\<lambda>x. x\<lparr>rc_status := (if s = Uploaded \<and> phase = Preprocess \<and> has_served_set db r then Indexed else s),
                 rc_failed_phase := (if s = FileError then Some phase else None), rc_error := err\<rparr>)
          (db_recipes db)\<rparr>"

definition restore_requeued :: "ing_job \<Rightarrow> ing_db \<Rightarrow> ing_db" where
  "restore_requeued j db =
     (case ij_recipe j of
        Some r \<Rightarrow> reset_recipe r (ij_phase j) (recipe_status_before (ij_phase j)) None db
      | None \<Rightarrow> reset_document (ij_document j) (status_before (ij_phase j)) None db)"

section \<open>Creating a job\<close>

datatype create_error = NoDocument | NoRecipe | RecipeChanged | RecipeBusy

definition recipe_busy :: "ing_db \<Rightarrow> ident \<Rightarrow> ident \<Rightarrow> bool" where
  "recipe_busy db d r = list_ex (\<lambda>j. ij_document j = d \<and> ij_recipe j = Some r \<and> open_job j) (db_jobs db)"

definition create_job :: "ing_job \<Rightarrow> ing_db \<Rightarrow> create_error + ing_db" where
  "create_job j db =
     (case ij_recipe j of
        None \<Rightarrow>
          if doc_exists db (ij_document j) then Inr (db\<lparr>db_jobs := db_jobs db @ [j]\<rparr>) else Inl NoDocument
      | Some r \<Rightarrow>
          (case get_recipe db (ij_document j) r of
             None \<Rightarrow> Inl NoRecipe
           | Some x \<Rightarrow>
               if ij_revision j \<noteq> Some (rc_revision x) then Inl RecipeChanged
               else if recipe_busy db (ij_document j) r then Inl RecipeBusy
               else Inr (db\<lparr>db_jobs := db_jobs db @ [j]\<rparr>)))"

section \<open>Claim and lease\<close>

definition claimed :: "rat \<Rightarrow> rat \<Rightarrow> ident option \<Rightarrow> ing_job \<Rightarrow> ing_job" where
  "claimed db_now started lease j =
     j\<lparr>ij_status := JRunning, ij_attempts := ij_attempts j + 1, ij_started_at := Some started,
       ij_error := None, ij_finished_at := None, ij_lease := lease,
       ij_heartbeat := (if lease = None then None else Some db_now)\<rparr>"

definition document_busy :: "ing_db \<Rightarrow> ing_job \<Rightarrow> bool" where
  "document_busy db j =
     list_ex (\<lambda>a. ij_document a = ij_document j \<and> ij_status a = JRunning \<and> ij_id a \<noteq> ij_id j) (db_jobs db)"

definition claim_job ::
    "rat \<Rightarrow> rat \<Rightarrow> ident \<Rightarrow> ident option \<Rightarrow> ing_db \<Rightarrow> ing_db \<times> ing_job option" where
  "claim_job db_now started i lease db =
     (case find (\<lambda>j. ij_id j = i \<and> ij_status j = JQueued) (db_jobs db) of
        None \<Rightarrow> (db, None)
      | Some j \<Rightarrow>
          if document_busy db j \<or> \<not> doc_exists db (ij_document j) then (db, None)
          else (db\<lparr>db_jobs := update_where (\<lambda>x. ij_id x = i) (claimed db_now started lease) (db_jobs db)\<rparr>,
                Some (claimed db_now started lease j)))"

definition heartbeat_jobs :: "rat \<Rightarrow> ident \<Rightarrow> ing_db \<Rightarrow> ing_db" where
  "heartbeat_jobs db_now owner db =
     db\<lparr>db_jobs := update_where (\<lambda>j. ij_lease j = Some owner \<and> ij_status j = JRunning)
          (\<lambda>j. j\<lparr>ij_heartbeat := Some db_now\<rparr>) (db_jobs db)\<rparr>"

section \<open>Conditional change of status\<close>

text \<open>\<open>visible\<close> is what the caller may see; a worker sees every document.\<close>

definition transition_applies ::
    "(ident \<Rightarrow> bool) \<Rightarrow> ident \<Rightarrow> job_status list \<Rightarrow> ident option \<Rightarrow> ing_db \<Rightarrow> ing_job \<Rightarrow> bool" where
  "transition_applies visible i from lease db j =
     (ij_id j = i \<and> ij_status j \<in> set from \<and> (lease \<noteq> None \<longrightarrow> ij_lease j = lease) \<and>
      doc_exists db (ij_document j) \<and> visible (ij_document j))"

definition transition_job ::
    "(ident \<Rightarrow> bool) \<Rightarrow> ident \<Rightarrow> job_status list \<Rightarrow> job_status \<Rightarrow> string option \<Rightarrow> rat option
     \<Rightarrow> ident option \<Rightarrow> string option \<Rightarrow> ing_db \<Rightarrow> ing_db \<times> ing_job option" where
  "transition_job visible i from to err finished lease skip db =
     (let applies = transition_applies visible i from lease db;
          change = (\<lambda>j. j\<lparr>ij_status := to, ij_error := err, ij_finished_at := finished, ij_skip := skip\<rparr>)
      in case find applies (db_jobs db) of
           None \<Rightarrow> (db, None)
         | Some j \<Rightarrow> (db\<lparr>db_jobs := update_where applies change (db_jobs db)\<rparr>, Some (change j)))"

section \<open>Stale jobs\<close>

definition stale_job :: "rat \<Rightarrow> rat \<Rightarrow> rat \<Rightarrow> ident option \<Rightarrow> ing_job \<Rightarrow> bool" where
  "stale_job stale_before ttl db_now exclude j =
     ((case ij_heartbeat j of
         None \<Rightarrow> (case ij_started_at j of Some t \<Rightarrow> t | None \<Rightarrow> ij_queued_at j) < stale_before
       | Some h \<Rightarrow> h < db_now - ttl)
      \<and> (case exclude of None \<Rightarrow> True | Some w \<Rightarrow> ij_lease j \<noteq> Some w))"

definition requeued :: "ing_job \<Rightarrow> ing_job" where
  "requeued j =
     j\<lparr>ij_status := JQueued, ij_error := None, ij_started_at := None, ij_finished_at := None,
       ij_lease := None, ij_heartbeat := None\<rparr>"

definition stale_message :: string where "stale_message = ''stale''"
definition orphan_message :: string where "orphan_message = ''interrupted''"

text \<open>One row of the recovery: the update repeats the condition, and the statuses follow only if it
  still applied.\<close>

definition recover_one ::
    "(ing_job \<Rightarrow> bool) \<Rightarrow> rat \<Rightarrow> ing_job \<Rightarrow> ing_db \<times> ing_job list \<Rightarrow> ing_db \<times> ing_job list" where
  "recover_one stale now j acc =
     (case acc of (db, done_jobs) \<Rightarrow>
        let still = (\<lambda>x. ij_id x = ij_id j \<and> ij_status x = JRunning \<and> stale x \<and> doc_exists db (ij_document x))
        in if \<not> list_ex still (db_jobs db) then (db, done_jobs)
           else if ij_max_attempts j \<le> ij_attempts j then
             (let db = db\<lparr>db_jobs := update_where still
                    (\<lambda>x. x\<lparr>ij_status := JFailed, ij_error := Some stale_message, ij_finished_at := Some now\<rparr>)
                    (db_jobs db)\<rparr>
              in (case ij_recipe j of
                    Some r \<Rightarrow> reset_recipe r (ij_phase j) FileError (Some stale_message) db
                  | None \<Rightarrow> reset_document (ij_document j) FileError (Some stale_message) db,
                  done_jobs @ [j]))
           else
             (restore_requeued j (db\<lparr>db_jobs := update_where still requeued (db_jobs db)\<rparr>),
              done_jobs @ [j]))"

definition orphan_document :: "ing_db \<Rightarrow> doc_row \<Rightarrow> bool" where
  "orphan_document db d =
     (active_status (dc_status d)
      \<and> \<not> list_ex (\<lambda>j. ij_document j = dc_id d \<and> open_job j) (db_jobs db)
      \<and> \<not> list_ex (\<lambda>r. rc_document r = dc_id d \<and> active_status (rc_status r)) (db_recipes db))"

definition orphan_recipe :: "ing_db \<Rightarrow> recipe_row \<Rightarrow> bool" where
  "orphan_recipe db r =
     (active_status (rc_status r) \<and> doc_exists db (rc_document r)
      \<and> \<not> list_ex (\<lambda>j. ij_recipe j = Some (rc_id r) \<and> open_job j) (db_jobs db))"

definition reset_orphan_documents :: "ing_db \<Rightarrow> ing_db" where
  "reset_orphan_documents db =
     fold (\<lambda>d. reset_document (dc_id d) FileError (Some orphan_message))
       (filter (orphan_document db) (db_docs db)) db"

definition reset_orphan_recipes :: "ing_db \<Rightarrow> ing_db" where
  "reset_orphan_recipes db =
     fold (\<lambda>r. reset_recipe (rc_id r) (failed_phase_of (rc_status r)) FileError (Some orphan_message))
       (filter (orphan_recipe db) (db_recipes db)) db"

definition recovery_rows :: "(ing_job \<Rightarrow> bool) \<Rightarrow> nat \<Rightarrow> ing_db \<Rightarrow> ing_job list" where
  "recovery_rows stale limit db =
     take limit
       (sort_key (\<lambda>j. (case ij_heartbeat j of Some t \<Rightarrow> t
                       | None \<Rightarrow> (case ij_started_at j of Some t \<Rightarrow> t | None \<Rightarrow> ij_queued_at j), ij_id j))
          (filter (\<lambda>j. ij_status j = JRunning \<and> stale j \<and> doc_exists db (ij_document j)) (db_jobs db)))"

definition recover_stale_jobs ::
    "rat \<Rightarrow> rat \<Rightarrow> rat \<Rightarrow> rat \<Rightarrow> nat \<Rightarrow> ident option \<Rightarrow> ing_db \<Rightarrow> ing_db \<times> ing_job list" where
  "recover_stale_jobs stale_before ttl db_now now limit exclude db =
     (let stale = stale_job stale_before ttl db_now exclude
      in case fold (recover_one stale now) (recovery_rows stale limit db) (db, []) of
           (db, jobs) \<Rightarrow> (reset_orphan_recipes (reset_orphan_documents db), jobs))"

section \<open>A worker that stops\<close>

definition handed_back :: "ing_job \<Rightarrow> ing_job" where
  "handed_back j = (requeued j)\<lparr>ij_attempts := ij_attempts j - 1\<rparr>"

definition requeue_one :: "ident \<Rightarrow> ing_job \<Rightarrow> ing_db \<times> ing_job list \<Rightarrow> ing_db \<times> ing_job list" where
  "requeue_one owner j acc =
     (case acc of (db, done_jobs) \<Rightarrow>
        let still = (\<lambda>x. ij_id x = ij_id j \<and> ij_status x = JRunning \<and> ij_lease x = Some owner
                         \<and> doc_exists db (ij_document x))
        in if \<not> list_ex still (db_jobs db) then (db, done_jobs)
           else (restore_requeued j (db\<lparr>db_jobs := update_where still handed_back (db_jobs db)\<rparr>),
                 done_jobs @ [handed_back j]))"

definition requeue_leased_jobs :: "ident \<Rightarrow> ing_db \<Rightarrow> ing_db \<times> ing_job list" where
  "requeue_leased_jobs owner db =
     fold (requeue_one owner)
       (sort_key ij_id (filter (\<lambda>j. ij_status j = JRunning \<and> ij_lease j = Some owner
          \<and> doc_exists db (ij_document j)) (db_jobs db))) (db, [])"

section \<open>Failures before a claim\<close>

definition startup_message :: string where "startup_message = ''not started''"

definition startup_applies :: "ing_job \<Rightarrow> nat \<Rightarrow> ing_db \<Rightarrow> ing_job \<Rightarrow> bool" where
  "startup_applies j expected db x =
     (ij_id x = ij_id j \<and> ij_document x = ij_document j \<and> ij_status x = JQueued \<and> ij_lease x = None
      \<and> ij_attempts x = expected
      \<and> \<not> list_ex (\<lambda>a. ij_document a = ij_document j \<and> ij_status a = JRunning) (db_jobs db))"

definition record_startup_failure :: "rat \<Rightarrow> ing_job \<Rightarrow> nat \<Rightarrow> ing_db \<Rightarrow> ing_db \<times> bool" where
  "record_startup_failure db_now j expected db =
     (let attempts = expected + 1;
          terminal = (ij_max_attempts j \<le> attempts);
          applies = startup_applies j expected db
      in if \<not> doc_exists db (ij_document j) \<or> \<not> list_ex applies (db_jobs db) then (db, False)
         else
           let db = db\<lparr>db_jobs := update_where applies
                 (\<lambda>x. x\<lparr>ij_attempts := attempts, ij_status := (if terminal then JFailed else JQueued),
                        ij_error := Some startup_message,
                        ij_finished_at := (if terminal then Some db_now else None)\<rparr>) (db_jobs db)\<rparr>
           in (if \<not> terminal then db
               else case ij_recipe j of
                      Some r \<Rightarrow>
                        db\<lparr>db_recipes := update_where (\<lambda>x. rc_id x = r \<and> rc_document x = ij_document j)
                             (\<lambda>x. x\<lparr>rc_status := FileError, rc_failed_phase := Some (ij_phase j),
                                    rc_error := Some startup_message\<rparr>) (db_recipes db)\<rparr>
                    | None \<Rightarrow> update_document_status (ij_document j) FileError (Some startup_message) db, True))"

end
