(* ===== verification/IngestionRuns.thy ===== *)
theory IngestionRuns
  imports IngestionJobs
begin

text \<open>The execution of an ingestion job (\<open>rag/backend/app/api/routes/documents.py\<close>,
  \<open>_run_ingestion_job\<close> and its helpers, and \<open>_mark_running_job_failed\<close> of
  \<open>rag/backend/app/rag/ingestion_worker.py\<close>): what an execution writes for each outcome, and the
  steps of all workers on the tables. The phases of the pipeline themselves are an outcome, and
  their writes to statuses and outputs are the step \<open>Pipeline\<close>. Message texts are arguments or
  abbreviated; log lines, metrics and the language packs are not modelled.\<close>

section \<open>Lease and cancellation\<close>

definition lease_held :: "ing_job option \<Rightarrow> ident \<Rightarrow> bool" where
  "lease_held row owner =
     (case row of
        None \<Rightarrow> False
      | Some j \<Rightarrow> ij_lease j = Some owner \<and> ij_status j \<in> {JRunning, JCancelled})"

definition lease_lost :: "ing_db \<Rightarrow> ing_job \<Rightarrow> ident option \<Rightarrow> bool" where
  "lease_lost db j lease =
     (case lease of None \<Rightarrow> False | Some w \<Rightarrow> \<not> lease_held (get_job db (ij_id j)) w)"

definition restore_recipe_after_cancel :: "ing_job \<Rightarrow> ing_db \<Rightarrow> ing_db" where
  "restore_recipe_after_cancel j db =
     (case ij_recipe j of
        None \<Rightarrow> db
      | Some r \<Rightarrow>
          update_recipe_status r
            (if get_recipe db (ij_document j) r \<noteq> None \<and> active_chunk_set db r \<noteq> None
             then Indexed else recipe_status_before (ij_phase j)) None None db)"

definition restore_before_phase :: "ing_job \<Rightarrow> ing_db \<Rightarrow> ing_db" where
  "restore_before_phase j db =
     (if ij_recipe j \<noteq> None then restore_recipe_after_cancel j db
      else update_document_status (ij_document j) (status_before (ij_phase j)) None db)"

definition restore_after_cancel :: "ing_job \<Rightarrow> ident option \<Rightarrow> ing_db \<Rightarrow> ing_db" where
  "restore_after_cancel j lease db =
     (if lease_lost db j lease then db
      else case get_job db (ij_id j) of
             None \<Rightarrow> db
           | Some current \<Rightarrow>
               if ij_status current \<noteq> JCancelled then db
               else if list_ex (\<lambda>x. ij_id x \<noteq> ij_id j) (document_jobs db (ij_document j) JRunning) then db
               else restore_before_phase j db)"

section \<open>Ends of an execution\<close>

abbreviation everywhere :: "ident \<Rightarrow> bool" where
  "everywhere d \<equiv> True"

definition finish_unless_cancelled ::
    "ident \<Rightarrow> job_status \<Rightarrow> string option \<Rightarrow> ident option \<Rightarrow> rat \<Rightarrow> ing_db \<Rightarrow> ing_db \<times> ing_job option" where
  "finish_unless_cancelled i to err lease now db =
     transition_job everywhere i [JRunning] to err (Some now) lease None db"

fun phase_index :: "job_phase \<Rightarrow> nat" where
  "phase_index Preprocess = 0"
| "phase_index Extract = 1"
| "phase_index Chunk = 2"
| "phase_index Index = 3"

fun phase_of_status :: "file_status \<Rightarrow> job_phase option" where
  "phase_of_status Preprocessing = Some Preprocess"
| "phase_of_status Ingesting = Some Extract"
| "phase_of_status Chunking = Some Chunk"
| "phase_of_status Indexing = Some Index"
| "phase_of_status _ = None"

definition failed_phase_for :: "ing_job \<Rightarrow> recipe_row option \<Rightarrow> job_phase" where
  "failed_phase_for j row =
     (case row of
        None \<Rightarrow> ij_phase j
      | Some x \<Rightarrow>
          (case phase_of_status (rc_status x) of
             None \<Rightarrow> ij_phase j
           | Some p \<Rightarrow> if phase_index (ij_phase j) < phase_index p then p else ij_phase j))"

definition mark_recipe_failed :: "ing_job \<Rightarrow> string \<Rightarrow> ing_db \<Rightarrow> ing_db" where
  "mark_recipe_failed j err db =
     (case ij_recipe j of
        None \<Rightarrow> db
      | Some r \<Rightarrow>
          update_recipe_status r FileError (Some (failed_phase_for j (get_recipe db (ij_document j) r)))
            (Some (take 2000 err)) db)"

definition fail_job :: "ing_job \<Rightarrow> string \<Rightarrow> ident option \<Rightarrow> rat \<Rightarrow> ing_db \<Rightarrow> ing_db \<times> bool" where
  "fail_job j err lease now db =
     (case finish_unless_cancelled (ij_id j) JFailed (Some err) lease now db of
        (db, None) \<Rightarrow> (restore_after_cancel j lease db, False)
      | (db, Some _) \<Rightarrow> (mark_recipe_failed j err db, True))"

definition skip_reason :: string where "skip_reason = ''superseded''"

definition skip_superseded :: "ing_job \<Rightarrow> ident option \<Rightarrow> rat \<Rightarrow> ing_db \<Rightarrow> ing_db" where
  "skip_superseded j lease now db =
     (case transition_job everywhere (ij_id j) [JRunning] JSkipped None (Some now) lease
             (Some skip_reason) db of
        (db, None) \<Rightarrow> restore_after_cancel j lease db
      | (db, Some _) \<Rightarrow> restore_recipe_after_cancel j db)"

text \<open>\<open>works\<close>: the database does not fail again during the return.\<close>

definition requeue_transient :: "bool \<Rightarrow> ing_job \<Rightarrow> ident option \<Rightarrow> ing_db \<Rightarrow> ing_db \<times> bool" where
  "requeue_transient works j lease db =
     (if \<not> works then (db, False)
      else if lease_lost db j lease then (db, True)
      else
        case transition_job everywhere (ij_id j) [JRunning] JQueued None None lease None
               (restore_before_phase j db) of
          (db, None) \<Rightarrow> (restore_after_cancel j lease db, True)
        | (db, Some _) \<Rightarrow> (db, True))"

datatype run_outcome =
  RunSucceeded "ing_job option"
| RunUserError string
| RunCancelSeen
| RunSuperseded
| RunTransient string
| RunCrashed string

definition settle_run ::
    "bool \<Rightarrow> ing_job \<Rightarrow> run_outcome \<Rightarrow> ident option \<Rightarrow> rat \<Rightarrow> ing_db \<Rightarrow> ing_db" where
  "settle_run works j out lease now db =
     (case out of
        RunUserError err \<Rightarrow> fst (fail_job j err lease now db)
      | RunCancelSeen \<Rightarrow> restore_after_cancel j lease db
      | RunSuperseded \<Rightarrow> skip_superseded j lease now db
      | RunCrashed err \<Rightarrow> fst (fail_job j err lease now db)
      | RunTransient err \<Rightarrow>
          (if ij_attempts j < ij_max_attempts j
           then (case requeue_transient works j lease db of
                   (db, True) \<Rightarrow> db
                 | (db, False) \<Rightarrow> fst (fail_job j err lease now db))
           else fst (fail_job j err lease now db))
      | RunSucceeded next_job \<Rightarrow>
          (case finish_unless_cancelled (ij_id j) JSucceeded None lease now db of
             (db, None) \<Rightarrow> restore_after_cancel j lease db
           | (db, Some _) \<Rightarrow>
               (case next_job of
                  None \<Rightarrow> db
                | Some n \<Rightarrow>
                    if ij_recipe j = None then db
                    else (case create_job n db of Inl _ \<Rightarrow> db | Inr db \<Rightarrow> db))))"

text \<open>The worker closes the job of an execution that died; the flag says that the start is to be
  delayed.\<close>

definition mark_running_job_failed ::
    "ident \<Rightarrow> string \<Rightarrow> ident option \<Rightarrow> nat \<Rightarrow> rat \<Rightarrow> rat \<Rightarrow> ing_db \<Rightarrow> ing_db \<times> bool" where
  "mark_running_job_failed i err lease expected now db_now db =
     (case get_job db i of
        None \<Rightarrow> (db, False)
      | Some j \<Rightarrow>
          (case ij_status j of
             JQueued \<Rightarrow> (fst (record_startup_failure db_now j expected db), True)
           | JCancelled \<Rightarrow> (restore_after_cancel j lease db, False)
           | JRunning \<Rightarrow>
               (case fail_job j (take 500 err) lease now db of
                  (db, failed) \<Rightarrow>
                    (if failed \<and> ij_recipe j = None
                     then update_document_status (ij_document j) FileError (Some (take 500 err)) db else db,
                     False))
           | _ \<Rightarrow> (db, False)))"

definition cancel_job :: "(ident \<Rightarrow> bool) \<Rightarrow> ident \<Rightarrow> string \<Rightarrow> rat \<Rightarrow> ing_db \<Rightarrow> ing_db \<times> ing_job option" where
  "cancel_job visible i message now db =
     transition_job visible i open_statuses JCancelled (Some message) (Some now) None None db"

section \<open>All workers\<close>

text \<open>An execution of a worker: the job it is about and, once claimed, the row it got.\<close>

record execution_of_job =
  ex_owner :: ident
  ex_job :: ident
  ex_row :: "ing_job option"

record ing_system =
  is_db :: ing_db
  is_execs :: "execution_of_job list"

definition runs :: "ing_system \<Rightarrow> ident \<Rightarrow> ident \<Rightarrow> bool" where
  "runs s w i = list_ex (\<lambda>e. ex_owner e = w \<and> ex_job e = i) (is_execs s)"

definition new_job :: "ing_db \<Rightarrow> ing_job \<Rightarrow> bool" where
  "new_job db j =
     (ij_status j = JQueued \<and> ij_attempts j = 0 \<and> 1 \<le> ij_max_attempts j \<and> ij_lease j = None
      \<and> ij_id j \<notin> ij_id ` set (db_jobs db))"

text \<open>Each step is one transaction. A worker starts a job only if it does not run it already
  (\<open>_inflight\<close>), and gives its jobs back only after all of its executions have ended.\<close>

inductive ing_step :: "ing_system \<Rightarrow> ing_system \<Rightarrow> bool" where
  Create: "new_job (is_db s) j \<Longrightarrow> create_job j (is_db s) = Inr db \<Longrightarrow> ing_step s (s\<lparr>is_db := db\<rparr>)"
| Dispatch: "\<not> runs s w i \<Longrightarrow>
     ing_step s (s\<lparr>is_execs := is_execs s @ [\<lparr>ex_owner = w, ex_job = i, ex_row = None\<rparr>]\<rparr>)"
| Claim: "e \<in> set (is_execs s) \<Longrightarrow> ex_row e = None \<Longrightarrow>
     claim_job db_now t (ex_job e) (Some (ex_owner e)) (is_db s) = (db, Some j) \<Longrightarrow>
     ing_step s \<lparr>is_db = db, is_execs = update_where (\<lambda>x. x = e) (\<lambda>x. x\<lparr>ex_row := Some j\<rparr>) (is_execs s)\<rparr>"
| Settle: "e \<in> set (is_execs s) \<Longrightarrow> ex_row e \<noteq> None \<Longrightarrow> to \<in> {JSucceeded, JFailed, JSkipped} \<Longrightarrow>
     ing_step s (s\<lparr>is_db := fst (transition_job everywhere (ex_job e) [JRunning] to err fin
       (Some (ex_owner e)) skip (is_db s))\<rparr>)"
| GiveBack: "e \<in> set (is_execs s) \<Longrightarrow> ex_row e = Some j \<Longrightarrow> ij_attempts j < ij_max_attempts j \<Longrightarrow>
     ing_step s (s\<lparr>is_db := fst (transition_job everywhere (ex_job e) [JRunning] JQueued None None
       (Some (ex_owner e)) None (is_db s))\<rparr>)"
| Startup: "get_job (is_db s) (ij_id j) = Some x \<Longrightarrow> ij_max_attempts j = ij_max_attempts x \<Longrightarrow>
     ing_step s (s\<lparr>is_db := fst (record_startup_failure db_now j expected (is_db s))\<rparr>)"
| End: "ing_step s (s\<lparr>is_execs := filter (\<lambda>x. x \<noteq> e) (is_execs s)\<rparr>)"
| Heartbeat: "ing_step s (s\<lparr>is_db := heartbeat_jobs db_now w (is_db s)\<rparr>)"
| Recover: "ing_step s (s\<lparr>is_db := fst (recover_stale_jobs stale_before ttl db_now now limit exclude (is_db s))\<rparr>)"
| Return: "(\<And>i. \<not> runs s w i) \<Longrightarrow> ing_step s (s\<lparr>is_db := fst (requeue_leased_jobs w (is_db s))\<rparr>)"
| Cancel: "ing_step s (s\<lparr>is_db := fst (cancel_job visible i message now (is_db s))\<rparr>)"
| Pipeline: "db_jobs db = db_jobs (is_db s) \<Longrightarrow> map dc_id (db_docs db) = map dc_id (db_docs (is_db s)) \<Longrightarrow>
     ing_step s (s\<lparr>is_db := db\<rparr>)"

definition empty_queue :: "ing_db \<Rightarrow> ing_system" where
  "empty_queue db = \<lparr>is_db = db\<lparr>db_jobs := []\<rparr>, is_execs = []\<rparr>"

end
