(* ===== verification/IngestionInvariant.thy ===== *)
theory IngestionInvariant
  imports IngestionRuns
begin

text \<open>The invariant of the job table under the steps of all workers: one running job per document,
  attempts within the maximum, and executions whose claimed row is current as long as they hold
  the lease. Every operation but the claim changes each row by \<open>row_step\<close>.\<close>

section \<open>Rows\<close>

definition row_ok :: "ing_job \<Rightarrow> bool" where
  "row_ok j \<longleftrightarrow> 1 \<le> ij_max_attempts j \<and> ij_attempts j \<le> ij_max_attempts j \<and>
     (ij_status j = JQueued \<longrightarrow> ij_attempts j < ij_max_attempts j)"

definition row_step :: "ing_job \<Rightarrow> ing_job \<Rightarrow> bool" where
  "row_step x y \<longleftrightarrow>
     ij_id y = ij_id x \<and> ij_document y = ij_document x \<and> ij_max_attempts y = ij_max_attempts x \<and>
     (ij_status y = JRunning \<longrightarrow>
        ij_status x = JRunning \<and> ij_lease y = ij_lease x \<and> ij_attempts y = ij_attempts x) \<and>
     (row_ok x \<longrightarrow> row_ok y) \<and> (\<not> open_job x \<longrightarrow> ij_status y = ij_status x)"

definition jobs_ok :: "ing_job list \<Rightarrow> bool" where
  "jobs_ok js \<longleftrightarrow>
     distinct (map ij_id js) \<and> (\<forall>j\<in>set js. row_ok j) \<and>
     (\<forall>x\<in>set js. \<forall>y\<in>set js.
        ij_status x = JRunning \<and> ij_status y = JRunning \<and> ij_document x = ij_document y \<longrightarrow> ij_id x = ij_id y)"

definition rows_step :: "ing_job list \<Rightarrow> ing_job list \<Rightarrow> bool" where
  "rows_step js js' \<longleftrightarrow> list_all2 row_step js js'"

lemma row_step_refl [simp]: "row_step x x"
  by (simp add: row_step_def)

lemma row_step_trans: "row_step x y \<Longrightarrow> row_step y z \<Longrightarrow> row_step x z"
  unfolding row_step_def open_job_def by metis

lemma rows_step_refl [simp]: "rows_step js js"
  by (simp add: rows_step_def list_all2_same)

lemma rows_step_trans: "rows_step a b \<Longrightarrow> rows_step b c \<Longrightarrow> rows_step a c"
  unfolding rows_step_def by (rule list_all2_trans[OF row_step_trans])

lemma rows_step_update:
  "(\<And>x. x \<in> set js \<Longrightarrow> P x \<Longrightarrow> row_step x (f x)) \<Longrightarrow> rows_step js (update_where P f js)"
  unfolding rows_step_def by (induction js) auto

lemma rows_step_ids: "rows_step js js' \<Longrightarrow> map ij_id js' = map ij_id js"
  unfolding rows_step_def by (induction rule: list_all2_induct) (auto simp: row_step_def)

lemma rows_step_source:
  assumes "rows_step js js'" and "y \<in> set js'"
  shows "\<exists>x\<in>set js. row_step x y"
  using assms unfolding rows_step_def by (induction rule: list_all2_induct) auto

lemma rows_step_target:
  assumes "rows_step js js'" and "x \<in> set js"
  shows "\<exists>y\<in>set js'. row_step x y"
  using assms unfolding rows_step_def by (induction rule: list_all2_induct) auto

lemma rows_step_ok:
  assumes "rows_step js js'" and ok: "jobs_ok js"
  shows "jobs_ok js'"
proof -
  have "row_ok y" if "y \<in> set js'" for y
    using rows_step_source[OF assms(1) that] ok unfolding jobs_ok_def row_step_def by blast
  moreover have "ij_id a = ij_id b"
    if ab: "a \<in> set js'" "b \<in> set js'" "ij_status a = JRunning" "ij_status b = JRunning" "ij_document a = ij_document b"
    for a b
  proof -
    obtain x y where xy: "x \<in> set js" "row_step x a" "y \<in> set js" "row_step y b"
      using rows_step_source[OF assms(1)] ab(1,2) by blast
    have run: "ij_status x = JRunning" "ij_status y = JRunning"
      using xy(2,4) ab(3,4) by (simp_all add: row_step_def)
    have doc: "ij_document x = ij_document y"
      using xy(2,4) ab(5) by (simp add: row_step_def)
    have "ij_id x = ij_id y" using ok xy(1,3) run doc unfolding jobs_ok_def by blast
    then show ?thesis using xy(2,4) by (simp add: row_step_def)
  qed
  moreover have "distinct (map ij_id js')"
    using ok unfolding rows_step_ids[OF assms(1)] jobs_ok_def by blast
  ultimately show ?thesis unfolding jobs_ok_def by blast
qed

lemma same_id_same_row:
  "jobs_ok js \<Longrightarrow> x \<in> set js \<Longrightarrow> y \<in> set js \<Longrightarrow> ij_id x = ij_id y \<Longrightarrow> x = y"
  unfolding jobs_ok_def distinct_map by (blast dest: inj_onD)

section \<open>Operations\<close>

named_theorems job_rows "the jobs after an operation that does not touch them"

lemma reset_jobs [job_rows]:
  "db_jobs (reset_document d s e db) = db_jobs db" "db_jobs (reset_recipe r p s e db) = db_jobs db"
  "db_jobs (update_document_status d s e db) = db_jobs db"
  "db_jobs (update_recipe_status r s f e db) = db_jobs db"
  by (simp_all add: reset_document_def reset_recipe_def update_document_status_def update_recipe_status_def)

lemma restore_requeued_jobs [job_rows]: "db_jobs (restore_requeued j db) = db_jobs db"
  by (simp add: restore_requeued_def job_rows split: option.splits)

lemma reset_orphans_jobs [job_rows]:
  "db_jobs (reset_orphan_documents db) = db_jobs db" "db_jobs (reset_orphan_recipes db) = db_jobs db"
proof -
  have "db_jobs (fold (\<lambda>d. reset_document (dc_id d) FileError (Some orphan_message)) ds db) = db_jobs db" for ds
    by (induction ds arbitrary: db) (simp_all add: job_rows)
  then show "db_jobs (reset_orphan_documents db) = db_jobs db" by (simp add: reset_orphan_documents_def)
  have "db_jobs (fold (\<lambda>r. reset_recipe (rc_id r) (failed_phase_of (rc_status r)) FileError (Some orphan_message)) rs db)
      = db_jobs db" for rs
    by (induction rs arbitrary: db) (simp_all add: job_rows)
  then show "db_jobs (reset_orphan_recipes db) = db_jobs db" by (simp add: reset_orphan_recipes_def)
qed

lemma heartbeat_rows: "rows_step (db_jobs db) (db_jobs (heartbeat_jobs t w db))"
  unfolding heartbeat_jobs_def by (auto intro!: rows_step_update simp: row_step_def row_ok_def open_job_def)

lemma transition_rows:
  assumes "set from \<subseteq> {JQueued, JRunning}" and "to \<noteq> JRunning"
    and "to = JQueued \<Longrightarrow> (\<And>x. x \<in> set (db_jobs db) \<Longrightarrow> transition_applies visible i from lease db x \<Longrightarrow>
      ij_attempts x < ij_max_attempts x)"
  shows "rows_step (db_jobs db) (db_jobs (fst (transition_job visible i from to err fin lease skip db)))"
proof (cases "find (transition_applies visible i from lease db) (db_jobs db)")
  case None
  then show ?thesis by (simp add: transition_job_def Let_def)
next
  case (Some j)
  have "rows_step (db_jobs db) (update_where (transition_applies visible i from lease db)
      (\<lambda>j. j\<lparr>ij_status := to, ij_error := err, ij_finished_at := fin, ij_skip := skip\<rparr>) (db_jobs db))"
  proof (rule rows_step_update)
    fix x
    assume x: "x \<in> set (db_jobs db)" and a: "transition_applies visible i from lease db x"
    have "ij_status x \<in> {JQueued, JRunning}" using a assms(1) by (auto simp: transition_applies_def)
    then show "row_step x (x\<lparr>ij_status := to, ij_error := err, ij_finished_at := fin, ij_skip := skip\<rparr>)"
      using assms(2) assms(3)[OF _ x a] by (auto simp: row_step_def row_ok_def open_job_def)
  qed
  with Some show ?thesis by (simp add: transition_job_def Let_def)
qed

lemma startup_rows:
  assumes "\<And>x. x \<in> set (db_jobs db) \<Longrightarrow> ij_id x = ij_id j \<Longrightarrow> ij_max_attempts j = ij_max_attempts x"
  shows "rows_step (db_jobs db) (db_jobs (fst (record_startup_failure t j expected db)))"
proof -
  let ?f = "\<lambda>x. x\<lparr>ij_attempts := expected + 1,
      ij_status := (if ij_max_attempts j \<le> expected + 1 then JFailed else JQueued),
      ij_error := Some startup_message,
      ij_finished_at := (if ij_max_attempts j \<le> expected + 1 then Some t else None)\<rparr>"
  have step: "rows_step (db_jobs db) (update_where (startup_applies j expected db) ?f (db_jobs db))"
  proof (rule rows_step_update)
    fix x
    assume "x \<in> set (db_jobs db)" and a: "startup_applies j expected db x"
    then have m: "ij_max_attempts x = ij_max_attempts j" "ij_attempts x = expected" "ij_status x = JQueued"
      using assms[of x] by (auto simp: startup_applies_def)
    then show "row_step x (?f x)"
      by (auto simp: row_step_def row_ok_def open_job_def)
  qed
  show ?thesis
    using step
    by (auto simp: record_startup_failure_def Let_def job_rows split: option.splits)
qed

text \<open>A recovery and a return only take running rows back; a row they have changed is not running.\<close>

definition taken_back :: "ing_job list \<Rightarrow> ing_job list \<Rightarrow> bool" where
  "taken_back js js' \<longleftrightarrow> rows_step js js' \<and> (\<forall>y\<in>set js'. ij_status y = JRunning \<longrightarrow> y \<in> set js)"

lemma taken_back_update:
  assumes bk: "taken_back js js'" and ok: "jobs_ok js" and j: "j \<in> set js"
    and still: "\<And>x. still x \<Longrightarrow> ij_id x = ij_id j \<and> ij_status x = JRunning"
    and step: "row_step j (f j)" and leaves: "\<And>x. ij_status (f x) \<noteq> JRunning"
  shows "taken_back js (update_where still f js')"
proof -
  have "rows_step js' (update_where still f js')"
  proof (rule rows_step_update)
    fix x
    assume x: "x \<in> set js'" and s: "still x"
    then have "x \<in> set js" using bk still[OF s] by (simp add: taken_back_def)
    then have "x = j" using same_id_same_row[OF ok _ j] still[OF s] by simp
    then show "row_step x (f x)" using step by simp
  qed
  then have "rows_step js (update_where still f js')"
    using bk rows_step_trans unfolding taken_back_def by blast
  moreover have "\<forall>y\<in>set (update_where still f js'). ij_status y = JRunning \<longrightarrow> y \<in> set js"
    using bk leaves by (fastforce simp: taken_back_def update_where_def split: if_splits)
  ultimately show ?thesis by (simp add: taken_back_def)
qed

lemma recover_one_back:
  assumes bk: "taken_back js (db_jobs (fst acc))" and ok: "jobs_ok js" and j: "j \<in> set js" "ij_status j = JRunning"
  shows "taken_back js (db_jobs (fst (recover_one stale now j acc)))"
proof -
  obtain db ds where acc: "acc = (db, ds)" by (cases acc)
  define still where "still = (\<lambda>x :: ing_job. ij_id x = ij_id j \<and> ij_status x = JRunning \<and> stale x \<and> doc_exists db (ij_document x))"
  have b: "taken_back js (db_jobs db)" using bk acc by simp
  have st: "still x \<Longrightarrow> ij_id x = ij_id j \<and> ij_status x = JRunning" for x by (simp add: still_def)
  have jok: "row_ok j" using ok j(1) unfolding jobs_ok_def by blast
  have failed: "taken_back js (update_where still
      (\<lambda>x. x\<lparr>ij_status := JFailed, ij_error := Some stale_message, ij_finished_at := Some now\<rparr>) (db_jobs db))"
    by (rule taken_back_update[OF b ok j(1) st])
      (use j(2) in \<open>auto simp: row_step_def row_ok_def open_job_def\<close>)
  have queued: "taken_back js (update_where still requeued (db_jobs db))" if "\<not> ij_max_attempts j \<le> ij_attempts j"
    by (rule taken_back_update[OF b ok j(1) st])
      (use j(2) that in \<open>auto simp: row_step_def row_ok_def open_job_def requeued_def\<close>)
  show ?thesis
  proof (cases "list_ex still (db_jobs db)")
    case False
    then show ?thesis using b unfolding acc recover_one_def still_def[symmetric] by (simp add: Let_def still_def)
  next
    case True
    then show ?thesis
      using failed queued unfolding acc recover_one_def still_def[symmetric]
      by (cases "ij_max_attempts j \<le> ij_attempts j"; cases "ij_recipe j") (simp_all add: Let_def still_def job_rows)
  qed
qed

lemma recover_rows:
  assumes ok: "jobs_ok (db_jobs db)"
  shows "rows_step (db_jobs db) (db_jobs (fst (recover_stale_jobs b ttl t now limit ex db)))"
proof -
  define stale where "stale = stale_job b ttl t ex"
  define rows where "rows = recovery_rows stale limit db"
  have mem: "j \<in> set (db_jobs db) \<and> ij_status j = JRunning" if "j \<in> set rows" for j
    using that unfolding rows_def recovery_rows_def by (auto dest: in_set_takeD)
  have fold: "taken_back (db_jobs db) (db_jobs (fst acc)) \<Longrightarrow> set js \<subseteq> set rows \<Longrightarrow>
      taken_back (db_jobs db) (db_jobs (fst (fold (recover_one stale now) js acc)))" for js acc
    by (induction js arbitrary: acc) (use mem recover_one_back[OF _ ok] in auto)
  have "taken_back (db_jobs db) (db_jobs (fst (fold (recover_one stale now) rows (db, []))))"
    by (rule fold) (simp_all add: taken_back_def)
  then show ?thesis
    unfolding recover_stale_jobs_def stale_def[symmetric] rows_def[symmetric]
    by (cases "fold (recover_one stale now) rows (db, [])") (simp add: Let_def taken_back_def job_rows stale_def rows_def)
qed

lemma requeue_one_back:
  assumes bk: "taken_back js (db_jobs (fst acc))" and ok: "jobs_ok js" and j: "j \<in> set js" "ij_status j = JRunning"
  shows "taken_back js (db_jobs (fst (requeue_one w j acc)))"
proof -
  obtain db ds where acc: "acc = (db, ds)" by (cases acc)
  define still where "still = (\<lambda>x :: ing_job. ij_id x = ij_id j \<and> ij_status x = JRunning \<and> ij_lease x = Some w
      \<and> doc_exists db (ij_document x))"
  have b: "taken_back js (db_jobs db)" using bk acc by simp
  have "row_ok j" using ok j(1) unfolding jobs_ok_def by blast
  then have "taken_back js (update_where still handed_back (db_jobs db))"
    by (intro taken_back_update[OF b ok j(1)])
      (use j(2) in \<open>auto simp: still_def row_step_def row_ok_def open_job_def requeued_def handed_back_def\<close>)
  then show ?thesis
    using b unfolding acc requeue_one_def by (simp add: Let_def job_rows still_def)
qed

lemma requeue_rows:
  assumes ok: "jobs_ok (db_jobs db)"
  shows "rows_step (db_jobs db) (db_jobs (fst (requeue_leased_jobs w db)))"
proof -
  define rows where "rows = sort_key ij_id (filter (\<lambda>j. ij_status j = JRunning \<and> ij_lease j = Some w
      \<and> doc_exists db (ij_document j)) (db_jobs db))"
  have mem: "j \<in> set (db_jobs db) \<and> ij_status j = JRunning" if "j \<in> set rows" for j
    using that unfolding rows_def by auto
  have fold: "taken_back (db_jobs db) (db_jobs (fst acc)) \<Longrightarrow> set js \<subseteq> set rows \<Longrightarrow>
      taken_back (db_jobs db) (db_jobs (fst (fold (requeue_one w) js acc)))" for js acc
    by (induction js arbitrary: acc) (use mem requeue_one_back[OF _ ok] in auto)
  have "taken_back (db_jobs db) (db_jobs (fst (fold (requeue_one w) rows (db, []))))"
    by (rule fold) (simp_all add: taken_back_def)
  then show ?thesis by (simp add: requeue_leased_jobs_def rows_def taken_back_def)
qed

section \<open>The claim\<close>

lemma claim_cases:
  assumes "claim_job t st i lease db = (db', Some j')"
  obtains j where "j \<in> set (db_jobs db)" "ij_id j = i" "ij_status j = JQueued" "\<not> document_busy db j"
    "j' = claimed t st lease j"
    "db_jobs db' = update_where (\<lambda>x. ij_id x = i) (claimed t st lease) (db_jobs db)"
  using assms by (auto simp: claim_job_def split: option.splits if_splits dest!: find_Some_mem)

lemma claim_jobs_ok:
  assumes c: "claim_job t st i lease db = (db', Some j')" and ok: "jobs_ok (db_jobs db)"
  shows "jobs_ok (db_jobs db')"
proof -
  from claim_cases[OF c] obtain j where j: "j \<in> set (db_jobs db)" "ij_id j = i" "ij_status j = JQueued"
      "\<not> document_busy db j"
    and jobs: "db_jobs db' = update_where (\<lambda>x. ij_id x = i) (claimed t st lease) (db_jobs db)" by metis
  let ?f = "\<lambda>x. if ij_id x = i then claimed t st lease x else x"
  have set: "set (db_jobs db') = ?f ` set (db_jobs db)" by (simp add: jobs update_where_def)
  have uniq: "x = j" if "x \<in> set (db_jobs db)" "ij_id x = i" for x
    using same_id_same_row[OF ok that(1) j(1)] that(2) j(2) by simp
  have rows: "\<forall>x\<in>set (db_jobs db). row_ok x" using ok unfolding jobs_ok_def by blast
  have "row_ok (claimed t st lease j)" using rows j(1,3) by (auto simp: row_ok_def claimed_def)
  then have "\<forall>y\<in>set (db_jobs db'). row_ok y" unfolding set using rows uniq by auto
  moreover have "map ij_id (db_jobs db') = map ij_id (db_jobs db)" unfolding jobs by (rule map_update_where) (simp add: claimed_def)
  then have "distinct (map ij_id (db_jobs db'))" using ok unfolding jobs_ok_def by simp
  moreover have "ij_id a = ij_id b"
    if a: "a \<in> set (db_jobs db')" "ij_status a = JRunning" and b: "b \<in> set (db_jobs db')" "ij_status b = JRunning"
      and doc: "ij_document a = ij_document b" for a b
  proof -
    obtain x y where x: "x \<in> set (db_jobs db)" "a = ?f x" and y: "y \<in> set (db_jobs db)" "b = ?f y"
      using a(1) b(1) unfolding set by blast
    have ids: "ij_id a = ij_id x" "ij_id b = ij_id y" "ij_document a = ij_document x" "ij_document b = ij_document y"
      using x(2) y(2) by (simp_all add: claimed_def)
    have other: "ij_document z \<noteq> ij_document j" if "z \<in> set (db_jobs db)" "ij_status z = JRunning" "ij_id z \<noteq> i" for z
      using j(4) that by (auto simp: document_busy_def list_ex_iff j(2))
    show ?thesis
    proof (cases "ij_id x = i")
      case True
      have "ij_id y = i"
      proof (rule ccontr)
        assume n: "ij_id y \<noteq> i"
        then have "ij_document y \<noteq> ij_document j" using other[OF y(1)] b(2) y(2) by simp
        with doc ids uniq[OF x(1) True] show False by simp
      qed
      with True ids show ?thesis by simp
    next
      case False
      then have rx: "ij_status x = JRunning" using a(2) x(2) by simp
      have "ij_id y \<noteq> i"
      proof
        assume n: "ij_id y = i"
        have "ij_document x \<noteq> ij_document j" by (rule other[OF x(1) rx False])
        with doc ids uniq[OF y(1) n] show False by simp
      qed
      then have "ij_status y = JRunning" using b(2) y(2) by simp
      with ok x(1) y(1) rx doc ids have "ij_id x = ij_id y" unfolding jobs_ok_def by metis
      with ids show ?thesis by simp
    qed
  qed
  ultimately show ?thesis unfolding jobs_ok_def by blast
qed

section \<open>Executions\<close>

definition exec_ok :: "ing_job list \<Rightarrow> execution_of_job \<Rightarrow> bool" where
  "exec_ok js e \<longleftrightarrow>
     (\<forall>r. ex_row e = Some r \<longrightarrow>
        ij_id r = ex_job e \<and> ex_job e \<in> ij_id ` set js \<and>
        (\<forall>x\<in>set js. ij_id x = ex_job e \<longrightarrow> ij_max_attempts x = ij_max_attempts r \<and>
           (ij_status x = JRunning \<and> ij_lease x = Some (ex_owner e) \<longrightarrow> ij_attempts x = ij_attempts r)))"

definition ing_ok :: "ing_system \<Rightarrow> bool" where
  "ing_ok s \<longleftrightarrow>
     jobs_ok (db_jobs (is_db s)) \<and>
     distinct (map (\<lambda>e. (ex_owner e, ex_job e)) (is_execs s)) \<and>
     (\<forall>e\<in>set (is_execs s). exec_ok (db_jobs (is_db s)) e)"

lemma rows_step_exec:
  assumes "rows_step js js'" and e: "exec_ok js e"
  shows "exec_ok js' e"
  unfolding exec_ok_def
proof (intro allI impI)
  fix r
  assume r: "ex_row e = Some r"
  have ids: "ij_id ` set js' = ij_id ` set js" using rows_step_ids[OF assms(1)] by (metis list.set_map)
  have "ij_max_attempts y = ij_max_attempts r \<and>
      (ij_status y = JRunning \<and> ij_lease y = Some (ex_owner e) \<longrightarrow> ij_attempts y = ij_attempts r)"
    if y: "y \<in> set js'" "ij_id y = ex_job e" for y
  proof -
    obtain x where x: "x \<in> set js" "row_step x y" using rows_step_source[OF assms(1) y(1)] by blast
    then have "ij_id x = ex_job e" using y(2) by (simp add: row_step_def)
    then have "ij_max_attempts x = ij_max_attempts r"
        "ij_status x = JRunning \<and> ij_lease x = Some (ex_owner e) \<longrightarrow> ij_attempts x = ij_attempts r"
      using e r x(1) unfolding exec_ok_def by blast+
    then show ?thesis using x(2) unfolding row_step_def by metis
  qed
  then show "ij_id r = ex_job e \<and> ex_job e \<in> ij_id ` set js' \<and>
      (\<forall>x\<in>set js'. ij_id x = ex_job e \<longrightarrow> ij_max_attempts x = ij_max_attempts r \<and>
         (ij_status x = JRunning \<and> ij_lease x = Some (ex_owner e) \<longrightarrow> ij_attempts x = ij_attempts r))"
    using e r unfolding exec_ok_def ids by blast
qed

lemma ing_ok_rows:
  assumes ok: "ing_ok s" and "rows_step (db_jobs (is_db s)) (db_jobs db)"
  shows "ing_ok (s\<lparr>is_db := db\<rparr>)"
  using rows_step_ok[OF assms(2)] rows_step_exec[OF assms(2)] ok by (simp add: ing_ok_def)

lemma create_job_jobs: "create_job j db = Inr db' \<Longrightarrow> db_jobs db' = db_jobs db @ [j]"
  by (auto simp: create_job_def split: option.splits if_splits)

lemma ing_ok_create:
  assumes ok: "ing_ok s" and new: "new_job (is_db s) j" and c: "create_job j (is_db s) = Inr db"
  shows "ing_ok (s\<lparr>is_db := db\<rparr>)"
proof -
  let ?js = "db_jobs (is_db s)"
  have fresh: "ij_id j \<notin> ij_id ` set ?js" using new by (simp add: new_job_def)
  have ok': "jobs_ok ?js" using ok by (simp add: ing_ok_def)
  have "row_ok j" "ij_status j \<noteq> JRunning" using new by (auto simp: new_job_def row_ok_def)
  then have rows: "\<forall>x\<in>set (?js @ [j]). row_ok x"
    and running: "x \<in> set (?js @ [j]) \<Longrightarrow> ij_status x = JRunning \<Longrightarrow> x \<in> set ?js" for x
    using ok' unfolding jobs_ok_def by auto
  have "distinct (map ij_id (?js @ [j]))" using ok' fresh unfolding jobs_ok_def by simp
  then have "jobs_ok (?js @ [j])"
    using rows running ok' unfolding jobs_ok_def by blast
  moreover have "exec_ok (?js @ [j]) e" if "exec_ok ?js e" for e
    using that fresh unfolding exec_ok_def by (auto simp: image_iff)
  ultimately show ?thesis using ok by (simp add: ing_ok_def create_job_jobs[OF c])
qed

lemma ing_ok_claim:
  assumes ok: "ing_ok s" and e: "e \<in> set (is_execs s)"
    and c: "claim_job t st (ex_job e) (Some (ex_owner e)) (is_db s) = (db, Some j')"
  shows "ing_ok \<lparr>is_db = db, is_execs = update_where (\<lambda>x. x = e) (\<lambda>x. x\<lparr>ex_row := Some j'\<rparr>) (is_execs s)\<rparr>"
proof -
  let ?js = "db_jobs (is_db s)"
  have ok': "jobs_ok ?js" using ok by (simp add: ing_ok_def)
  from claim_cases[OF c] obtain j where j: "j \<in> set ?js" "ij_id j = ex_job e"
      "j' = claimed t st (Some (ex_owner e)) j"
    and jobs: "db_jobs db = update_where (\<lambda>x. ij_id x = ex_job e) (claimed t st (Some (ex_owner e))) ?js" by metis
  have ids: "ij_id ` set (db_jobs db) = ij_id ` set ?js"
  proof -
    have "map ij_id (db_jobs db) = map ij_id ?js" unfolding jobs by (rule map_update_where) (simp add: claimed_def)
    then show ?thesis by (metis list.set_map)
  qed
  have uniq: "x = j" if "x \<in> set ?js" "ij_id x = ex_job e" for x
    using same_id_same_row[OF ok' that(1) j(1)] that(2) j(2) by simp
  have own: "exec_ok (db_jobs db) (e\<lparr>ex_row := Some j'\<rparr>)"
  proof -
    have "y = j'" if "y \<in> set (db_jobs db)" "ij_id y = ex_job e" for y
      using that uniq j(3) unfolding jobs by (auto simp: update_where_def claimed_def split: if_splits)
    moreover have "ij_id j' = ex_job e" using j by (simp add: claimed_def)
    moreover have "ex_job e \<in> ij_id ` set (db_jobs db)" unfolding ids using j by force
    ultimately show ?thesis unfolding exec_ok_def by auto
  qed
  have other: "exec_ok (db_jobs db) x" if x: "x \<in> set (is_execs s)" "x \<noteq> e" for x
  proof -
    have xo: "exec_ok ?js x" using ok x(1) by (simp add: ing_ok_def)
    have ne: "ex_owner x \<noteq> ex_owner e" if "ex_job x = ex_job e"
      using ok x e that by (auto simp: ing_ok_def distinct_map dest: inj_onD)
    show ?thesis
      unfolding exec_ok_def ids
    proof (intro allI impI)
      fix r
      assume r: "ex_row x = Some r"
      have "ij_max_attempts y = ij_max_attempts r \<and>
          (ij_status y = JRunning \<and> ij_lease y = Some (ex_owner x) \<longrightarrow> ij_attempts y = ij_attempts r)"
        if y: "y \<in> set (db_jobs db)" "ij_id y = ex_job x" for y
      proof -
        obtain z where z: "z \<in> set ?js" "y = (if ij_id z = ex_job e then claimed t st (Some (ex_owner e)) z else z)"
          using y(1) unfolding jobs by (auto dest: set_update_where)
        then have zid: "ij_id z = ex_job x" using y(2) by (auto simp: claimed_def split: if_splits)
        then have zr: "ij_max_attempts z = ij_max_attempts r"
            "ij_status z = JRunning \<and> ij_lease z = Some (ex_owner x) \<longrightarrow> ij_attempts z = ij_attempts r"
          using xo r z(1) unfolding exec_ok_def by blast+
        show ?thesis
        proof (cases "ij_id z = ex_job e")
          case True
          then have "ex_owner x \<noteq> ex_owner e" using ne zid by simp
          then show ?thesis using z(2) True zr(1) by (simp add: claimed_def)
        next
          case False
          then show ?thesis using z(2) zr by simp
        qed
      qed
      then show "ij_id r = ex_job x \<and> ex_job x \<in> ij_id ` set ?js \<and> (\<forall>y\<in>set (db_jobs db). ij_id y = ex_job x \<longrightarrow>
          ij_max_attempts y = ij_max_attempts r \<and>
          (ij_status y = JRunning \<and> ij_lease y = Some (ex_owner x) \<longrightarrow> ij_attempts y = ij_attempts r))"
        using xo r unfolding exec_ok_def by blast
    qed
  qed
  have "distinct (map (\<lambda>x. (ex_owner x, ex_job x)) (update_where (\<lambda>x. x = e) (\<lambda>x. x\<lparr>ex_row := Some j'\<rparr>) (is_execs s)))"
    using ok by (simp add: ing_ok_def)
  then show ?thesis
    using claim_jobs_ok[OF c ok'] own other by (auto simp: ing_ok_def dest!: set_update_where)
qed

end
