(* ===== verification/IngestionProperties.thy ===== *)
theory IngestionProperties
  imports IngestionInvariant
begin

text \<open>The properties of the ingestion jobs over every interleaving of workers, and of one execution
  that has lost its lease.\<close>

section \<open>Every step keeps the invariant\<close>

lemma get_job_mem: "get_job db i = Some j \<Longrightarrow> j \<in> set (db_jobs db) \<and> ij_id j = i \<and> doc_exists db (ij_document j)"
  by (auto simp: get_job_def dest: find_Some_mem)

lemma ing_ok_give_back:
  assumes ok: "ing_ok s" and e: "e \<in> set (is_execs s)" "ex_row e = Some j" and less: "ij_attempts j < ij_max_attempts j"
  shows "ing_ok (s\<lparr>is_db := fst (transition_job everywhere (ex_job e) [JRunning] JQueued None None
    (Some (ex_owner e)) None (is_db s))\<rparr>)"
proof (rule ing_ok_rows[OF ok transition_rows])
  fix x
  assume x: "x \<in> set (db_jobs (is_db s))"
    and a: "transition_applies everywhere (ex_job e) [JRunning] (Some (ex_owner e)) (is_db s) x"
  have "exec_ok (db_jobs (is_db s)) e" using ok e(1) by (simp add: ing_ok_def)
  then have "ij_max_attempts x = ij_max_attempts j" "ij_attempts x = ij_attempts j"
    using e(2) x a unfolding exec_ok_def transition_applies_def by auto
  then show "ij_attempts x < ij_max_attempts x" using less by simp
qed simp_all

lemma ing_step_ok:
  assumes "ing_step s s'" and ok: "ing_ok s"
  shows "ing_ok s'"
  using assms(1)
proof cases
  case (Create j db)
  then show ?thesis using ing_ok_create[OF ok] by simp
next
  case (Dispatch w i)
  then show ?thesis
    using ok by (auto simp: ing_ok_def exec_ok_def runs_def list_ex_iff)
next
  case (Claim e db_now t db j)
  then show ?thesis using ing_ok_claim[OF ok] by simp
next
  case (Settle e to err fin skip)
  then show ?thesis by (auto intro!: ing_ok_rows[OF ok] transition_rows)
next
  case (GiveBack e j)
  then show ?thesis using ing_ok_give_back[OF ok] by simp
next
  case (Startup j x db_now expected)
  have jobs: "jobs_ok (db_jobs (is_db s))" using ok by (simp add: ing_ok_def)
  have "rows_step (db_jobs (is_db s)) (db_jobs (fst (record_startup_failure db_now j expected (is_db s))))"
  proof (rule startup_rows)
    fix y
    assume "y \<in> set (db_jobs (is_db s))" "ij_id y = ij_id j"
    moreover have "x \<in> set (db_jobs (is_db s))" "ij_id x = ij_id j" using get_job_mem[OF Startup(2)] by simp_all
    ultimately have "y = x" using same_id_same_row[OF jobs] by simp
    then show "ij_max_attempts j = ij_max_attempts y" using Startup(3) by simp
  qed
  then show ?thesis unfolding Startup(1) by (rule ing_ok_rows[OF ok])
next
  case (End e)
  then show ?thesis using ok by (auto simp: ing_ok_def distinct_map_filter)
next
  case (Heartbeat db_now w)
  then show ?thesis by (auto intro!: ing_ok_rows[OF ok] heartbeat_rows)
next
  case (Recover b ttl t n limit ex)
  have "jobs_ok (db_jobs (is_db s))" using ok by (simp add: ing_ok_def)
  then show ?thesis unfolding Recover(1) by (intro ing_ok_rows[OF ok] recover_rows)
next
  case (Return w)
  have "jobs_ok (db_jobs (is_db s))" using ok by (simp add: ing_ok_def)
  then show ?thesis unfolding Return(1) by (intro ing_ok_rows[OF ok] requeue_rows)
next
  case (Cancel visible i message now)
  then show ?thesis
    by (auto intro!: ing_ok_rows[OF ok] transition_rows simp: cancel_job_def open_statuses_def)
next
  case (Pipeline db)
  then show ?thesis using ok by (simp add: ing_ok_def)
qed

lemma ing_steps_ok: "ing_step\<^sup>*\<^sup>* s s' \<Longrightarrow> ing_ok s \<Longrightarrow> ing_ok s'"
  by (induction rule: rtranclp_induct) (auto intro: ing_step_ok)

lemma empty_queue_ok: "ing_ok (empty_queue db)"
  by (simp add: ing_ok_def empty_queue_def jobs_ok_def)

lemma reachable_jobs_ok: "ing_step\<^sup>*\<^sup>* (empty_queue db) s \<Longrightarrow> jobs_ok (db_jobs (is_db s))"
  using ing_steps_ok[OF _ empty_queue_ok] by (auto simp: ing_ok_def)

section \<open>What a step keeps of a finished job\<close>

definition keeps_finished :: "ing_job list \<Rightarrow> ing_job list \<Rightarrow> bool" where
  "keeps_finished js js' \<longleftrightarrow>
     (\<forall>x\<in>set js. \<not> open_job x \<longrightarrow> (\<exists>y\<in>set js'. ij_id y = ij_id x \<and> ij_status y = ij_status x))"

lemma rows_keep_finished:
  assumes "rows_step js js'"
  shows "keeps_finished js js'"
  unfolding keeps_finished_def
proof (intro ballI impI)
  fix x
  assume x: "x \<in> set js" "\<not> open_job x"
  obtain y where "y \<in> set js'" "row_step x y" using rows_step_target[OF assms x(1)] by blast
  with x(2) show "\<exists>y\<in>set js'. ij_id y = ij_id x \<and> ij_status y = ij_status x"
    unfolding row_step_def by blast
qed

lemma keeps_finished_trans: "keeps_finished a b \<Longrightarrow> keeps_finished b c \<Longrightarrow> keeps_finished a c"
  unfolding keeps_finished_def open_job_def by metis

lemma claim_keeps_finished:
  assumes c: "claim_job t st i lease db = (db', Some j')" and ok: "jobs_ok (db_jobs db)"
  shows "keeps_finished (db_jobs db) (db_jobs db')"
  unfolding keeps_finished_def
proof (intro ballI impI)
  fix x
  assume x: "x \<in> set (db_jobs db)" "\<not> open_job x"
  from claim_cases[OF c] obtain j where j: "j \<in> set (db_jobs db)" "ij_id j = i" "ij_status j = JQueued"
    and jobs: "db_jobs db' = update_where (\<lambda>x. ij_id x = i) (claimed t st lease) (db_jobs db)" by metis
  have "ij_id x \<noteq> i" using same_id_same_row[OF ok x(1) j(1)] x(2) j(2,3) by (auto simp: open_job_def)
  then have "x \<in> set (db_jobs db')" using x(1) unfolding jobs by (force simp: update_where_def)
  then show "\<exists>y\<in>set (db_jobs db'). ij_id y = ij_id x \<and> ij_status y = ij_status x" by blast
qed

lemma ing_step_keeps_finished:
  assumes "ing_step s s'" and ok: "ing_ok s"
  shows "keeps_finished (db_jobs (is_db s)) (db_jobs (is_db s'))"
proof -
  have jobs: "jobs_ok (db_jobs (is_db s))" using ok by (simp add: ing_ok_def)
  have refl: "keeps_finished js js" for js by (auto simp: keeps_finished_def)
  from assms(1) show ?thesis
  proof cases
    case (Create j db)
    then show ?thesis by (auto simp: keeps_finished_def create_job_jobs[OF Create(3)])
  next
    case (Claim e db_now t db j)
    then show ?thesis using claim_keeps_finished[OF Claim(4) jobs] by simp
  next
    case (Settle e to err fin skip)
    then show ?thesis by (auto intro!: rows_keep_finished transition_rows)
  next
    case (GiveBack e j)
    have "exec_ok (db_jobs (is_db s)) e" using ok GiveBack(2) by (simp add: ing_ok_def)
    then have "rows_step (db_jobs (is_db s)) (db_jobs (fst (transition_job everywhere (ex_job e) [JRunning] JQueued
        None None (Some (ex_owner e)) None (is_db s))))"
      using GiveBack(3,4) by (intro transition_rows) (auto simp: exec_ok_def transition_applies_def)
    then show ?thesis using GiveBack(1) by (simp add: rows_keep_finished)
  next
    case (Startup j x db_now expected)
    have "rows_step (db_jobs (is_db s)) (db_jobs (fst (record_startup_failure db_now j expected (is_db s))))"
    proof (rule startup_rows)
      fix y
      assume "y \<in> set (db_jobs (is_db s))" "ij_id y = ij_id j"
      then have "y = x" using same_id_same_row[OF jobs, of y x] get_job_mem[OF Startup(2)] by simp
      then show "ij_max_attempts j = ij_max_attempts y" using Startup(3) by simp
    qed
    then show ?thesis using Startup(1) by (simp add: rows_keep_finished)
  next
    case (Heartbeat db_now w)
    then show ?thesis by (simp add: rows_keep_finished heartbeat_rows)
  next
    case (Recover b ttl t n limit ex)
    then show ?thesis by (simp add: rows_keep_finished recover_rows[OF jobs])
  next
    case (Return w)
    then show ?thesis by (simp add: rows_keep_finished requeue_rows[OF jobs])
  next
    case (Cancel visible i message now)
    then show ?thesis
      by (auto intro!: rows_keep_finished transition_rows simp: cancel_job_def open_statuses_def)
  qed (simp_all add: refl)
qed

lemma ing_steps_keep_finished:
  assumes "ing_step\<^sup>*\<^sup>* s s'" and "ing_ok s"
  shows "keeps_finished (db_jobs (is_db s)) (db_jobs (is_db s')) \<and> ing_ok s'"
  using assms(1)
proof (induction rule: rtranclp_induct)
  case base
  then show ?case using assms(2) by (auto simp: keeps_finished_def)
next
  case (step y z)
  then show ?case
    using ing_step_keeps_finished[of y z] ing_step_ok[of y z] keeps_finished_trans by blast
qed

section \<open>Properties\<close>

lemma at_most_one:
  assumes "distinct (map f xs)" and "\<And>x y. x \<in> set xs \<Longrightarrow> y \<in> set xs \<Longrightarrow> P x \<Longrightarrow> P y \<Longrightarrow> f x = f y"
  shows "length (filter P xs) \<le> 1"
proof (rule ccontr)
  assume "\<not> length (filter P xs) \<le> 1"
  then obtain a b ys where abs: "filter P xs = a # b # ys"
    by (metis One_nat_def Suc_le_mono le0 length_0_conv length_Cons neq_Nil_conv not_less_eq_eq)
  have "a \<in> set (filter P xs)" "b \<in> set (filter P xs)" by (simp_all add: abs)
  then have "f a = f b" using assms(2) by simp
  moreover have "distinct (map f (filter P xs))" using assms(1) by (rule distinct_map_filter)
  ultimately show False by (simp add: abs)
qed

definition demo_job :: ing_job where
  "demo_job = \<lparr>ij_id = ''j'', ij_document = ''d'', ij_recipe = None, ij_revision = None, ij_status = JQueued,
     ij_phase = Extract, ij_error = None, ij_skip = None, ij_attempts = 0, ij_max_attempts = 3,
     ij_queued_at = 10, ij_started_at = None, ij_finished_at = None, ij_lease = None, ij_heartbeat = None\<rparr>"

definition demo_ing_db :: ing_db where
  "demo_ing_db = \<lparr>db_jobs = [], db_docs = [\<lparr>dc_id = ''d'', dc_status = Uploaded, dc_error = None\<rparr>],
     db_recipes = [], db_chunk_sets = []\<rparr>"

definition demo_exec :: "ing_job option \<Rightarrow> execution_of_job" where
  "demo_exec row = \<lparr>ex_owner = ''w'', ex_job = ''j'', ex_row = row\<rparr>"

definition demo_claimed :: ing_job where
  "demo_claimed = claimed 20 20 (Some ''w'') demo_job"

definition demo_system :: "ing_job \<Rightarrow> execution_of_job list \<Rightarrow> ing_system" where
  "demo_system j es = \<lparr>is_db = demo_ing_db\<lparr>db_jobs := [j]\<rparr>, is_execs = es\<rparr>"

lemma demo_claim_steps: "ing_step\<^sup>*\<^sup>* (empty_queue demo_ing_db) (demo_system demo_claimed [demo_exec (Some demo_claimed)])"
proof -
  have "ing_step (empty_queue demo_ing_db) (demo_system demo_job [])"
    using ing_step.Create[of "empty_queue demo_ing_db" demo_job "demo_ing_db\<lparr>db_jobs := [demo_job]\<rparr>"]
    by (simp add: new_job_def create_job_def doc_exists_def empty_queue_def demo_system_def demo_ing_db_def demo_job_def)
  moreover have "ing_step (demo_system demo_job []) (demo_system demo_job [demo_exec None])"
    using ing_step.Dispatch[of "demo_system demo_job []" "''w''" "''j''"]
    by (simp add: runs_def demo_system_def demo_exec_def)
  moreover have "ing_step (demo_system demo_job [demo_exec None]) (demo_system demo_claimed [demo_exec (Some demo_claimed)])"
  proof -
    have c: "claim_job 20 20 (ex_job (demo_exec None)) (Some (ex_owner (demo_exec None)))
        (is_db (demo_system demo_job [demo_exec None])) = (demo_ing_db\<lparr>db_jobs := [demo_claimed]\<rparr>, Some demo_claimed)"
      by (simp add: claim_job_def document_busy_def doc_exists_def demo_system_def demo_exec_def demo_ing_db_def
          demo_claimed_def demo_job_def)
    show ?thesis
      using ing_step.Claim[OF _ _ c] by (simp add: demo_system_def demo_exec_def)
  qed
  ultimately show ?thesis by (meson rtranclp.rtrancl_into_rtrancl rtranclp.rtrancl_refl)
qed

definition demo_succeeded :: ing_job where
  "demo_succeeded = demo_claimed\<lparr>ij_status := JSucceeded, ij_finished_at := Some 30\<rparr>"

lemma demo_settle_step:
  "ing_step (demo_system demo_claimed [demo_exec (Some demo_claimed)])
     (demo_system demo_succeeded [demo_exec (Some demo_claimed)])"
  using ing_step.Settle[of "demo_exec (Some demo_claimed)" "demo_system demo_claimed [demo_exec (Some demo_claimed)]"
      JSucceeded None "Some 30" None]
  by (simp add: transition_job_def transition_applies_def doc_exists_def demo_system_def demo_exec_def demo_ing_db_def
      demo_claimed_def demo_job_def claimed_def demo_succeeded_def Let_def)

text \<open>C18: whatever the workers do and however they are interleaved, a document has at most one
  running job.\<close>

theorem one_running_job_per_document:
  assumes "ing_step\<^sup>*\<^sup>* (empty_queue db) s"
  shows "length (filter (\<lambda>j. ij_document j = d \<and> ij_status j = JRunning) (db_jobs (is_db s))) \<le> 1"
proof (rule at_most_one[where f = ij_id])
  note ok = reachable_jobs_ok[OF assms]
  show "distinct (map ij_id (db_jobs (is_db s)))" using ok unfolding jobs_ok_def by blast
  fix x y
  assume mem: "x \<in> set (db_jobs (is_db s))" "y \<in> set (db_jobs (is_db s))"
    and "ij_document x = d \<and> ij_status x = JRunning" "ij_document y = d \<and> ij_status y = JRunning"
  then have run: "ij_status x = JRunning" "ij_status y = JRunning" "ij_document x = ij_document y" by simp_all
  show "ij_id x = ij_id y" using ok mem run unfolding jobs_ok_def by blast
qed

text \<open>a job is never tried more often than its maximum, whether attempts end by success, failure,
  transient errors, lost leases, stops of the worker or failures to start; and a queued job always
  has an attempt left.\<close>

theorem attempts_within_maximum:
  assumes "ing_step\<^sup>*\<^sup>* (empty_queue db) s" and "j \<in> set (db_jobs (is_db s))"
  shows "ij_attempts j \<le> ij_max_attempts j \<and> (ij_status j = JQueued \<longrightarrow> ij_attempts j < ij_max_attempts j)"
  using reachable_jobs_ok[OF assms(1)] assms(2) unfolding jobs_ok_def row_ok_def by blast

text \<open>a job that has succeeded, failed, been skipped or cancelled keeps this status for ever; no
  late result of an execution, recovery or cancellation changes it.\<close>

theorem finished_job_stays_finished:
  assumes "ing_step\<^sup>*\<^sup>* (empty_queue db) s" and "ing_step\<^sup>*\<^sup>* s s'"
    and "j \<in> set (db_jobs (is_db s))" and "\<not> open_job j"
  shows "\<exists>j'\<in>set (db_jobs (is_db s')). ij_id j' = ij_id j \<and> ij_status j' = ij_status j"
  using ing_steps_keep_finished[OF assms(2) ing_steps_ok[OF assms(1) empty_queue_ok]] assms(3,4)
  unfolding keeps_finished_def by blast

theorem one_running_job_per_document_witness:
  "length (filter (\<lambda>j. ij_document j = ''d'' \<and> ij_status j = JRunning)
     (db_jobs (is_db (demo_system demo_claimed [demo_exec (Some demo_claimed)])))) \<le> 1"
  by (rule one_running_job_per_document[OF demo_claim_steps])

theorem attempts_within_maximum_witness:
  "ij_attempts demo_claimed \<le> 3"
  using attempts_within_maximum[OF demo_claim_steps, of demo_claimed]
  by (simp add: demo_system_def demo_claimed_def claimed_def demo_job_def)

theorem finished_job_stays_finished_witness:
  "\<exists>j'\<in>set (db_jobs (is_db (demo_system demo_succeeded [demo_exec (Some demo_claimed)]))).
     ij_id j' = ''j'' \<and> ij_status j' = JSucceeded"
proof -
  have "ing_step\<^sup>*\<^sup>* (empty_queue demo_ing_db) (demo_system demo_succeeded [demo_exec (Some demo_claimed)])"
    using demo_claim_steps demo_settle_step by (rule rtranclp.rtrancl_into_rtrancl)
  from finished_job_stays_finished[OF this rtranclp.rtrancl_refl, of demo_succeeded] show ?thesis
    by (simp add: demo_system_def demo_succeeded_def demo_claimed_def claimed_def demo_job_def open_job_def)
qed

lemma transition_some:
  assumes "snd (transition_job visible i st to err fin lease skip db) \<noteq> None"
  shows "\<exists>x\<in>set (db_jobs db). transition_applies visible i st lease db x"
  using assms by (auto simp: transition_job_def Let_def split: option.splits dest: find_Some_mem)

lemma transition_nothing:
  assumes "\<And>x. x \<in> set (db_jobs db) \<Longrightarrow> \<not> transition_applies visible i st lease db x"
  shows "transition_job visible i st to err fin lease skip db = (db, None)"
proof -
  have "find (transition_applies visible i st lease db) (db_jobs db) = None"
    using assms by (simp add: find_None_iff)
  then show ?thesis by (simp add: transition_job_def Let_def)
qed

text \<open>C19: of all executions of a job that are still alive, at most one can write: when one of them
  changes the job, its claim is the last one, and no change by another execution has any effect.\<close>

theorem only_the_holder_writes:
  assumes reach: "ing_step\<^sup>*\<^sup>* (empty_queue db) s"
    and e: "e \<in> set (is_execs s)" "ex_row e = Some r"
    and wrote: "snd (transition_job everywhere (ex_job e) [JRunning] to err fin (Some (ex_owner e)) skip (is_db s)) \<noteq> None"
    and e': "e' \<in> set (is_execs s)" "e' \<noteq> e" "ex_job e' = ex_job e"
  shows "transition_job everywhere (ex_job e') [JRunning] to' err' fin' (Some (ex_owner e')) skip' (is_db s) = (is_db s, None)
    \<and> (\<forall>j\<in>set (db_jobs (is_db s)). ij_id j = ex_job e \<longrightarrow>
         ij_lease j = Some (ex_owner e) \<and> ij_attempts j = ij_attempts r)"
proof -
  have ok: "ing_ok s" by (rule ing_steps_ok[OF reach empty_queue_ok])
  then have jobs: "jobs_ok (db_jobs (is_db s))" and dist: "distinct (map (\<lambda>e. (ex_owner e, ex_job e)) (is_execs s))"
    and ex: "exec_ok (db_jobs (is_db s)) e" using e(1) by (simp_all add: ing_ok_def)
  obtain x where x: "x \<in> set (db_jobs (is_db s))" "ij_id x = ex_job e" "ij_status x = JRunning"
      "ij_lease x = Some (ex_owner e)"
    using transition_some[OF wrote] by (auto simp: transition_applies_def)
  have only: "j = x" if "j \<in> set (db_jobs (is_db s))" "ij_id j = ex_job e" for j
    using same_id_same_row[OF jobs that(1) x(1)] that(2) x(2) by simp
  have owners: "ex_owner e' \<noteq> ex_owner e"
    using dist e(1) e' by (auto simp: distinct_map dest: inj_onD)
  have "ij_attempts x = ij_attempts r" using ex e(2) x unfolding exec_ok_def by blast
  then have rows: "\<forall>j\<in>set (db_jobs (is_db s)). ij_id j = ex_job e \<longrightarrow>
      ij_lease j = Some (ex_owner e) \<and> ij_attempts j = ij_attempts r"
    using only x(4) by blast
  have "transition_job everywhere (ex_job e') [JRunning] to' err' fin' (Some (ex_owner e')) skip' (is_db s) = (is_db s, None)"
  proof (rule transition_nothing)
    fix j
    assume "j \<in> set (db_jobs (is_db s))"
    then show "\<not> transition_applies everywhere (ex_job e') [JRunning] (Some (ex_owner e')) (is_db s) j"
      using rows owners e'(3) by (auto simp: transition_applies_def)
  qed
  with rows show ?thesis by blast
qed

theorem only_the_holder_writes_witness:
  "transition_job everywhere ''j'' [JRunning] JFailed None None (Some ''v'') None (demo_ing_db\<lparr>db_jobs := [demo_claimed]\<rparr>)
     = (demo_ing_db\<lparr>db_jobs := [demo_claimed]\<rparr>, None)"
proof -
  let ?e = "demo_exec (Some demo_claimed)" and ?e' = "\<lparr>ex_owner = ''v'', ex_job = ''j'', ex_row = None\<rparr>"
  let ?s = "demo_system demo_claimed [?e, ?e']"
  have "ing_step (demo_system demo_claimed [?e]) ?s"
    using ing_step.Dispatch[of "demo_system demo_claimed [?e]" "''v''" "''j''"]
    by (simp add: runs_def demo_system_def demo_exec_def)
  with demo_claim_steps have reach: "ing_step\<^sup>*\<^sup>* (empty_queue demo_ing_db) ?s"
    by (rule rtranclp.rtrancl_into_rtrancl)
  have e: "?e \<in> set (is_execs ?s)" "ex_row ?e = Some demo_claimed" "?e' \<in> set (is_execs ?s)" "?e' \<noteq> ?e" "ex_job ?e' = ex_job ?e"
    by (simp_all add: demo_system_def demo_exec_def)
  have wrote: "snd (transition_job everywhere (ex_job ?e) [JRunning] JSucceeded None None (Some (ex_owner ?e)) None (is_db ?s)) \<noteq> None"
    by (simp add: transition_job_def transition_applies_def doc_exists_def demo_system_def demo_exec_def demo_ing_db_def
        demo_claimed_def demo_job_def claimed_def Let_def)
  from conjunct1[OF only_the_holder_writes[OF reach e(1,2) wrote e(3,4,5)], of JFailed None None None]
  show ?thesis by (simp add: demo_system_def demo_exec_def)
qed

text \<open>an execution that has lost its lease changes nothing, whatever its outcome is: neither the
  job nor the document nor the recipe, and it creates no next job; the same holds for the worker
  that closes the job of a dead execution, unless the job is queued again.\<close>

theorem lost_lease_changes_nothing:
  assumes ids: "distinct (map ij_id (db_jobs db))" and lost: "lease_lost db j (Some w)"
  shows "settle_run works j out (Some w) now db = db
    \<and> ((\<forall>x. get_job db (ij_id j) = Some x \<longrightarrow> ij_status x \<noteq> JQueued) \<longrightarrow>
         fst (mark_running_job_failed (ij_id j) err (Some w) expected now t db) = db)"
proof -
  have none: "transition_job everywhere (ij_id j) [JRunning] to e fin (Some w) skip db = (db, None)" for to e fin skip
  proof (rule transition_nothing)
    fix x
    assume x: "x \<in> set (db_jobs db)"
    show "\<not> transition_applies everywhere (ij_id j) [JRunning] (Some w) db x"
    proof
      assume a: "transition_applies everywhere (ij_id j) [JRunning] (Some w) db x"
      then have ax: "ij_id x = ij_id j" "ij_status x = JRunning" "ij_lease x = Some w" "doc_exists db (ij_document x)"
        by (simp_all add: transition_applies_def)
      have "get_job db (ij_id j) \<noteq> None" unfolding get_job_def find_None_iff using x ax(1,4) by blast
      then obtain y where y: "get_job db (ij_id j) = Some y" by blast
      have "y = x" using distinct_map_eq[OF ids] get_job_mem[OF y] x ax(1) by simp
      with y ax lost show False by (simp add: lease_lost_def lease_held_def)
    qed
  qed
  have restore: "restore_after_cancel j (Some w) db = db" using lost by (simp add: restore_after_cancel_def)
  have fail: "fst (fail_job j m (Some w) now db) = db" for m
    by (simp add: fail_job_def finish_unless_cancelled_def none restore)
  have give: "fst (requeue_transient works j (Some w) db) = db" using lost by (simp add: requeue_transient_def)
  have "settle_run works j out (Some w) now db = db"
  proof (cases out)
    case (RunTransient m)
    then show ?thesis
      using give fail by (cases "requeue_transient works j (Some w) db")
        (auto simp: settle_run_def split: bool.splits)
  qed (simp_all add: settle_run_def fail restore skip_superseded_def finish_unless_cancelled_def none)
  moreover have "fst (mark_running_job_failed (ij_id j) err (Some w) expected now t db) = db"
    if q: "\<forall>x. get_job db (ij_id j) = Some x \<longrightarrow> ij_status x \<noteq> JQueued"
  proof (cases "get_job db (ij_id j)")
    case None
    then show ?thesis by (simp add: mark_running_job_failed_def)
  next
    case (Some x)
    have idx: "ij_id x = ij_id j" using get_job_mem[OF Some] by simp
    have lostx: "lease_lost db x (Some w)" using lost idx by (simp add: lease_lost_def)
    have "restore_after_cancel x (Some w) db = db" using lostx by (simp add: restore_after_cancel_def)
    moreover have "fail_job x m (Some w) now db = (db, False)" for m
      using calculation by (simp add: fail_job_def finish_unless_cancelled_def idx none)
    ultimately show ?thesis
      using Some q by (cases "ij_status x") (simp_all add: mark_running_job_failed_def)
  qed
  ultimately show ?thesis by blast
qed

theorem lost_lease_changes_nothing_witness:
  "settle_run True demo_claimed (RunSucceeded None) (Some ''old'') 50 (demo_ing_db\<lparr>db_jobs := [demo_claimed]\<rparr>)
     = demo_ing_db\<lparr>db_jobs := [demo_claimed]\<rparr>"
proof -
  have "lease_lost (demo_ing_db\<lparr>db_jobs := [demo_claimed]\<rparr>) demo_claimed (Some ''old'')"
    by (simp add: lease_lost_def lease_held_def get_job_def doc_exists_def demo_ing_db_def demo_claimed_def claimed_def
        demo_job_def)
  then show ?thesis
    using conjunct1[OF lost_lease_changes_nothing[of "demo_ing_db\<lparr>db_jobs := [demo_claimed]\<rparr>" demo_claimed "''old''"
        True "RunSucceeded None" 50]] by simp
qed

section \<open>After a recovery\<close>

lemma reset_recipe_active:
  assumes "x \<in> set (db_recipes (reset_recipe r p FileError err db))" and "active_status (rc_status x)"
  shows "x \<in> set (db_recipes db) \<and> (doc_exists db (rc_document x) \<longrightarrow> rc_id x \<noteq> r)"
  using assms by (auto simp: reset_recipe_def update_where_def active_status_def split: if_splits)

lemma reset_recipe_docs [simp]: "doc_exists (reset_recipe r p s e db) d = doc_exists db d"
  by (simp add: reset_recipe_def doc_exists_def)

lemma reset_recipes_active:
  "x \<in> set (db_recipes (fold (\<lambda>r. reset_recipe (rc_id r) (g r) FileError err) rs db)) \<Longrightarrow>
   active_status (rc_status x) \<Longrightarrow>
   x \<in> set (db_recipes db) \<and> (doc_exists db (rc_document x) \<longrightarrow> rc_id x \<notin> rc_id ` set rs)"
proof (induction rs arbitrary: db)
  case (Cons r rs)
  from Cons.IH[of "reset_recipe (rc_id r) (g r) FileError err db"] Cons.prems
  have "x \<in> set (db_recipes (reset_recipe (rc_id r) (g r) FileError err db))"
    "doc_exists db (rc_document x) \<longrightarrow> rc_id x \<notin> rc_id ` set rs" by simp_all
  with reset_recipe_active[OF this(1) Cons.prems(2)] show ?case by simp
qed simp

lemma reset_document_active:
  "x \<in> set (db_docs (reset_document d FileError err db)) \<Longrightarrow> active_status (dc_status x) \<Longrightarrow>
   x \<in> set (db_docs db) \<and> dc_id x \<noteq> d"
  by (auto simp: reset_document_def update_where_def active_status_def split: if_splits)

lemma reset_documents_active:
  "x \<in> set (db_docs (fold (\<lambda>d. reset_document (dc_id d) FileError err) ds db)) \<Longrightarrow> active_status (dc_status x) \<Longrightarrow>
   x \<in> set (db_docs db) \<and> dc_id x \<notin> dc_id ` set ds"
proof (induction ds arbitrary: db)
  case (Cons d ds)
  from Cons.IH[of "reset_document (dc_id d) FileError err db"] Cons.prems
  have "x \<in> set (db_docs (reset_document (dc_id d) FileError err db))" "dc_id x \<notin> dc_id ` set ds" by simp_all
  with reset_document_active[OF this(1) Cons.prems(2)] show ?case by simp
qed simp

lemma reset_recipe_other [simp]: "db_docs (reset_recipe r p s e db) = db_docs db"
  by (simp add: reset_recipe_def)

lemma reset_document_other [simp]: "db_recipes (reset_document d s e db) = db_recipes db"
  by (simp add: reset_document_def)

lemma orphan_recipes_docs [simp]: "db_docs (reset_orphan_recipes db) = db_docs db"
proof -
  have "db_docs (fold (\<lambda>r. reset_recipe (rc_id r) (failed_phase_of (rc_status r)) FileError (Some orphan_message)) rs db)
      = db_docs db" for rs
    by (induction rs arbitrary: db) simp_all
  then show ?thesis by (simp add: reset_orphan_recipes_def)
qed

lemma orphan_documents_recipes [simp]: "db_recipes (reset_orphan_documents db) = db_recipes db"
proof -
  have "db_recipes (fold (\<lambda>d. reset_document (dc_id d) FileError (Some orphan_message)) ds db) = db_recipes db" for ds
    by (induction ds arbitrary: db) simp_all
  then show ?thesis by (simp add: reset_orphan_documents_def)
qed

lemma reset_recipes_progress:
  "\<exists>q\<in>set (db_recipes db). rc_document q = d \<and> (active_status (rc_status q) \<or> rc_status q = FileError) \<Longrightarrow>
   \<exists>q\<in>set (db_recipes (fold (\<lambda>r. reset_recipe (rc_id r) (g r) FileError err) rs db)).
     rc_document q = d \<and> (active_status (rc_status q) \<or> rc_status q = FileError)"
proof (induction rs arbitrary: db)
  case (Cons r rs)
  from Cons.prems obtain q where q: "q \<in> set (db_recipes db)" "rc_document q = d"
      "active_status (rc_status q) \<or> rc_status q = FileError" by blast
  have "\<exists>q\<in>set (db_recipes (reset_recipe (rc_id r) (g r) FileError err db)).
      rc_document q = d \<and> (active_status (rc_status q) \<or> rc_status q = FileError)"
  proof -
    let ?hit = "rc_id q = rc_id r \<and> active_status (rc_status q) \<and> doc_exists db (rc_document q)"
    let ?q = "if ?hit then q\<lparr>rc_status := FileError, rc_failed_phase := Some (g r), rc_error := err\<rparr> else q"
    have "?q \<in> set (db_recipes (reset_recipe (rc_id r) (g r) FileError err db))"
      using q(1) by (auto simp: reset_recipe_def update_where_def image_iff intro!: bexI[where x = q])
    moreover have "rc_document ?q = d \<and> (active_status (rc_status ?q) \<or> rc_status ?q = FileError)" using q(2,3) by simp
    ultimately show ?thesis by blast
  qed
  then show ?case using Cons.IH by simp
qed simp

text \<open>after a recovery nothing is left in progress that nobody works on: every recipe in an active
  status has a queued or running job, and every document in an active status has one, or a recipe
  of it is in progress or in error.\<close>

theorem recovery_leaves_no_orphan:
  assumes r: "recover_stale_jobs b ttl t now limit ex db = (db', jobs)"
  shows "(\<forall>x\<in>set (db_recipes db'). active_status (rc_status x) \<and> doc_exists db' (rc_document x) \<longrightarrow>
            list_ex (\<lambda>j. ij_recipe j = Some (rc_id x) \<and> open_job j) (db_jobs db'))
    \<and> (\<forall>x\<in>set (db_docs db'). active_status (dc_status x) \<longrightarrow>
            list_ex (\<lambda>j. ij_document j = dc_id x \<and> open_job j) (db_jobs db')
          \<or> (\<exists>q\<in>set (db_recipes db'). rc_document q = dc_id x \<and>
               (active_status (rc_status q) \<or> rc_status q = FileError)))"
proof -
  obtain m where db': "db' = reset_orphan_recipes (reset_orphan_documents m)"
    using r by (auto simp: recover_stale_jobs_def Let_def split: prod.splits)
  let ?d = "reset_orphan_documents m"
  have jobs: "db_jobs db' = db_jobs m" "db_jobs ?d = db_jobs m" by (simp_all add: db' job_rows)
  have docs: "doc_exists db' d = doc_exists ?d d" for d by (simp add: db' doc_exists_def)
  have "list_ex (\<lambda>j. ij_recipe j = Some (rc_id x) \<and> open_job j) (db_jobs m)"
    if x: "x \<in> set (db_recipes db')" "active_status (rc_status x)" "doc_exists db' (rc_document x)" for x
  proof (rule ccontr)
    assume none: "\<not> ?thesis"
    have "x \<in> set (db_recipes ?d)" "rc_id x \<notin> rc_id ` set (filter (orphan_recipe ?d) (db_recipes ?d))"
      using reset_recipes_active[OF x(1)[unfolded db' reset_orphan_recipes_def] x(2)] x(3)[unfolded docs] by blast+
    with none x(2,3) docs jobs(2) show False by (auto simp: orphan_recipe_def)
  qed
  moreover have "list_ex (\<lambda>j. ij_document j = dc_id x \<and> open_job j) (db_jobs m)
      \<or> (\<exists>q\<in>set (db_recipes db'). rc_document q = dc_id x \<and> (active_status (rc_status q) \<or> rc_status q = FileError))"
    if x: "x \<in> set (db_docs db')" "active_status (dc_status x)" for x
  proof (rule disjCI)
    assume none: "\<not> (\<exists>q\<in>set (db_recipes db'). rc_document q = dc_id x \<and> (active_status (rc_status q) \<or> rc_status q = FileError))"
    have quiet: "\<not> list_ex (\<lambda>q. rc_document q = dc_id x \<and> active_status (rc_status q)) (db_recipes m)"
    proof
      assume "list_ex (\<lambda>q. rc_document q = dc_id x \<and> active_status (rc_status q)) (db_recipes m)"
      then have "\<exists>q\<in>set (db_recipes ?d). rc_document q = dc_id x \<and> (active_status (rc_status q) \<or> rc_status q = FileError)"
        by (auto simp: list_ex_iff)
      from reset_recipes_progress[OF this, of "\<lambda>r. failed_phase_of (rc_status r)" "Some orphan_message"
          "filter (orphan_recipe ?d) (db_recipes ?d)"] none
      show False unfolding db' reset_orphan_recipes_def by blast
    qed
    have "x \<in> set (db_docs ?d)" using x(1) by (simp add: db')
    then have "x \<in> set (db_docs m)" "dc_id x \<notin> dc_id ` set (filter (orphan_document m) (db_docs m))"
      using reset_documents_active[OF _ x(2), of _ "filter (orphan_document m) (db_docs m)" m] x(2)
      by (simp_all add: reset_orphan_documents_def)
    with quiet x(2) show "list_ex (\<lambda>j. ij_document j = dc_id x \<and> open_job j) (db_jobs m)"
      by (auto simp: orphan_document_def)
  qed
  ultimately show ?thesis unfolding jobs by blast
qed

definition demo_stuck :: ing_db where
  "demo_stuck = demo_ing_db\<lparr>db_docs := [\<lparr>dc_id = ''d'', dc_status = Ingesting, dc_error = None\<rparr>]\<rparr>"

theorem recovery_leaves_no_orphan_witness:
  "list_all (\<lambda>x. \<not> active_status (dc_status x)) (db_docs (fst (recover_stale_jobs 0 30 100 100 10 None demo_stuck)))"
proof -
  have "recover_stale_jobs 0 30 100 100 10 None demo_stuck = (demo_ing_db\<lparr>db_docs :=
      [\<lparr>dc_id = ''d'', dc_status = FileError, dc_error = Some orphan_message\<rparr>]\<rparr>, [])"
    by (simp add: recover_stale_jobs_def recovery_rows_def demo_stuck_def demo_ing_db_def reset_orphan_documents_def
        reset_orphan_recipes_def orphan_document_def reset_document_def active_status_def Let_def)
  from conjunct2[OF recovery_leaves_no_orphan[OF this]] this show ?thesis
    by (simp add: demo_ing_db_def list_all_iff)
qed

text \<open>A job given back after a transient error of the database keeps its lease, so a failure to start
  it again is not counted.\<close>

lemma given_back_job_is_not_counted:
  assumes ids: "distinct (map ij_id (db_jobs db))"
    and t: "transition_job everywhere i [JRunning] JQueued None None (Some w) None db = (db', Some x)"
    and j: "ij_id j = i"
  shows "record_startup_failure now j expected db' = (db', False)"
proof -
  obtain y where y: "y \<in> set (db_jobs db)" "transition_applies everywhere i [JRunning] (Some w) db y"
    using transition_some[of everywhere i "[JRunning]" JQueued None None "Some w" None db] t by auto
  have jobs: "db_jobs db' = update_where (transition_applies everywhere i [JRunning] (Some w) db)
      (\<lambda>j. j\<lparr>ij_status := JQueued, ij_error := None, ij_finished_at := None, ij_skip := None\<rparr>) (db_jobs db)"
    using t by (auto simp: transition_job_def Let_def split: option.splits)
  have "ij_lease z \<noteq> None" if z: "z \<in> set (db_jobs db')" "ij_id z = i" for z
  proof -
    obtain u where u: "u \<in> set (db_jobs db)" "ij_id u = i" "ij_lease z = ij_lease u"
      using z unfolding jobs by (auto simp: update_where_def split: if_splits)
    have "u = y" using distinct_map_eq[OF ids u(1) y(1)] u(2) y(2) by (simp add: transition_applies_def)
    with u(3) y(2) show ?thesis by (simp add: transition_applies_def)
  qed
  then have "\<not> list_ex (startup_applies j expected db') (db_jobs db')"
    using j by (auto simp: list_ex_iff startup_applies_def)
  then show ?thesis by (simp add: record_startup_failure_def Let_def)
qed

end
