(* ===== verification/IngestionDispatch.thy ===== *)
theory IngestionDispatch
  imports IngestionJobs
begin

text \<open>The order in which queued jobs are taken
  (\<open>rag/backend/app/clients/oracle.py\<close>, \<open>ingestion_dispatch_order_sql\<close> and
  \<open>list_dispatchable_ingestion_jobs\<close>) and the slots of a worker
  (\<open>rag/backend/app/rag/ingestion_worker.py\<close>, \<open>_dispatch_available\<close> and the bookkeeping around
  it): all slots, the slots of heavy phases, and the delays after failures to start. Ids in flight
  are lists without repetition.\<close>

section \<open>The order\<close>

text \<open>The columns of \<open>ORDER BY\<close>: key, rank of the phase (descending), time of the queue, id.\<close>

datatype dispatch_rank = Rank (rank_key: rat) (rank_phase: nat) (rank_queued: rat) (rank_id: string)

instantiation dispatch_rank :: linorder
begin

definition less_eq_dispatch_rank :: "dispatch_rank \<Rightarrow> dispatch_rank \<Rightarrow> bool" where
  "less_eq_dispatch_rank a b \<longleftrightarrow>
     (rank_key a, rank_phase b, rank_queued a, rank_id a) \<le> (rank_key b, rank_phase a, rank_queued b, rank_id b)"

definition less_dispatch_rank :: "dispatch_rank \<Rightarrow> dispatch_rank \<Rightarrow> bool" where
  "less_dispatch_rank a b \<longleftrightarrow> a \<le> b \<and> \<not> b \<le> (a :: dispatch_rank)"

instance
proof
  fix a b c :: dispatch_rank
  show "a < b \<longleftrightarrow> a \<le> b \<and> \<not> b \<le> a" by (rule less_dispatch_rank_def)
  show "a \<le> a" by (simp add: less_eq_dispatch_rank_def)
  show "a \<le> b \<Longrightarrow> b \<le> c \<Longrightarrow> a \<le> c"
    by (auto simp: less_eq_dispatch_rank_def)
  show "a \<le> b \<Longrightarrow> b \<le> a \<Longrightarrow> a = b"
    by (cases a; cases b) (auto simp: less_eq_dispatch_rank_def)
  show "a \<le> b \<or> b \<le> a"
    by (auto simp: less_eq_dispatch_rank_def)
qed

end

definition start_times :: "ing_db \<Rightarrow> ing_job \<Rightarrow> rat list" where
  "start_times db j =
     map ij_queued_at
       (filter (\<lambda>s. ij_document s = ij_document j \<and> ij_recipe s = ij_recipe j \<and> heavy_phase (ij_phase s)
                  \<and> ij_queued_at s \<le> ij_queued_at j) (db_jobs db))"

definition dispatch_key :: "rat \<Rightarrow> ing_db \<Rightarrow> ing_job \<Rightarrow> rat" where
  "dispatch_key window db j =
     (if heavy_phase (ij_phase j) then ij_queued_at j
      else max (if start_times db j = [] then ij_queued_at j else Max (set (start_times db j)))
               (ij_queued_at j - window))"

fun phase_rank :: "job_phase \<Rightarrow> nat" where
  "phase_rank Index = 3"
| "phase_rank Chunk = 2"
| "phase_rank Extract = 1"
| "phase_rank Preprocess = 0"

definition dispatch_rank_of :: "rat \<Rightarrow> ing_db \<Rightarrow> ing_job \<Rightarrow> dispatch_rank" where
  "dispatch_rank_of window db j =
     Rank (dispatch_key window db j) (phase_rank (ij_phase j)) (ij_queued_at j) (ij_id j)"

definition dispatchable :: "ident list \<Rightarrow> job_phase list \<Rightarrow> ing_db \<Rightarrow> ing_job \<Rightarrow> bool" where
  "dispatchable exclude_ids exclude_phases db j =
     (ij_status j = JQueued
      \<and> \<not> list_ex (\<lambda>a. ij_document a = ij_document j \<and> ij_status a = JRunning) (db_jobs db)
      \<and> ij_id j \<notin> set exclude_ids \<and> ij_phase j \<notin> set exclude_phases \<and> doc_exists db (ij_document j))"

definition list_dispatchable ::
    "rat \<Rightarrow> nat \<Rightarrow> ident list \<Rightarrow> job_phase list \<Rightarrow> ing_db \<Rightarrow> ing_job list" where
  "list_dispatchable window limit exclude_ids exclude_phases db =
     take limit (sort_key (dispatch_rank_of window db) (filter (dispatchable exclude_ids exclude_phases db) (db_jobs db)))"

section \<open>The worker\<close>

record worker_config =
  wc_concurrency :: nat
  wc_heavy :: nat
  wc_poll :: rat
  wc_recovery :: rat
  wc_max_attempts :: nat

text \<open>The limits a worker really uses.\<close>

definition worker_limits :: "nat \<Rightarrow> nat \<Rightarrow> rat \<Rightarrow> rat \<Rightarrow> nat \<Rightarrow> worker_config" where
  "worker_limits slots heavy poll recovery attempts =
     \<lparr>wc_concurrency = max 1 slots, wc_heavy = min (max 1 slots) (max 1 heavy), wc_poll = poll,
      wc_recovery = recovery, wc_max_attempts = attempts\<rparr>"

record worker =
  wk_inflight :: "ident list"
  wk_heavy :: "ident list"
  wk_retry_at :: "(ident \<times> rat) list"
  wk_streak :: nat
  wk_resume_at :: rat
  wk_stopping :: bool
  wk_interrupted :: bool

definition new_worker :: worker where
  "new_worker = \<lparr>wk_inflight = [], wk_heavy = [], wk_retry_at = [], wk_streak = 0, wk_resume_at = 0,
     wk_stopping = False, wk_interrupted = False\<rparr>"

definition cooling_ids :: "rat \<Rightarrow> worker \<Rightarrow> ident list" where
  "cooling_ids now w = map fst (filter (\<lambda>kv. now < snd kv) (wk_retry_at w))"

definition drop_cooled :: "rat \<Rightarrow> worker \<Rightarrow> worker" where
  "drop_cooled now w = w\<lparr>wk_retry_at := filter (\<lambda>kv. now < snd kv) (wk_retry_at w)\<rparr>"

text \<open>The loop over the fetched jobs: it skips jobs in flight or cooling and heavy jobs over their
  limit, and stops when all slots are taken. The result lists the started jobs.\<close>

fun start_jobs :: "worker_config \<Rightarrow> ident list \<Rightarrow> ing_job list \<Rightarrow> worker \<Rightarrow> ing_job list \<Rightarrow> worker \<times> ing_job list" where
  "start_jobs cfg cooling [] w started = (w, started)"
| "start_jobs cfg cooling (j # js) w started =
     (if ij_id j \<in> set (wk_inflight w) \<or> ij_id j \<in> set cooling then start_jobs cfg cooling js w started
      else if heavy_phase (ij_phase j) \<and> wc_heavy cfg \<le> length (wk_heavy w)
      then start_jobs cfg cooling js w started
      else
        let w = w\<lparr>wk_heavy := (if heavy_phase (ij_phase j) then wk_heavy w @ [ij_id j] else wk_heavy w),
                  wk_inflight := wk_inflight w @ [ij_id j]\<rparr>
        in if wc_concurrency cfg \<le> length (wk_inflight w) then (w, started @ [j])
           else start_jobs cfg cooling js w (started @ [j]))"

definition excluded_phases :: "worker_config \<Rightarrow> worker \<Rightarrow> job_phase list" where
  "excluded_phases cfg w = (if wc_heavy cfg \<le> length (wk_heavy w) then [Preprocess, Extract] else [])"

text \<open>\<open>fetch\<close> reads the queue; None when that fails.\<close>

definition dispatch_available ::
    "worker_config \<Rightarrow> rat \<Rightarrow> (nat \<Rightarrow> ident list \<Rightarrow> job_phase list \<Rightarrow> ing_job list option) \<Rightarrow> worker
     \<Rightarrow> worker \<times> ing_job list" where
  "dispatch_available cfg now fetch w =
     (if now < wk_resume_at w then (w, [])
      else if wc_concurrency cfg \<le> length (wk_inflight w) then (w, [])
      else
        let cooling = cooling_ids now w; w = drop_cooled now w
        in case fetch (wc_concurrency cfg - length (wk_inflight w)) (wk_inflight w @ cooling)
                  (excluded_phases cfg w) of
             None \<Rightarrow> (w, [])
           | Some jobs \<Rightarrow> start_jobs cfg cooling jobs w [])"

definition release_heavy_slot :: "ident \<Rightarrow> worker \<Rightarrow> worker" where
  "release_heavy_slot i w = w\<lparr>wk_heavy := filter (\<lambda>x. x \<noteq> i) (wk_heavy w)\<rparr>"

definition leave_slots :: "ident \<Rightarrow> worker \<Rightarrow> worker" where
  "leave_slots i w =
     w\<lparr>wk_inflight := filter (\<lambda>x. x \<noteq> i) (wk_inflight w), wk_heavy := filter (\<lambda>x. x \<noteq> i) (wk_heavy w)\<rparr>"

definition delay_startup_failure :: "worker_config \<Rightarrow> rat \<Rightarrow> ident \<Rightarrow> nat \<Rightarrow> worker \<Rightarrow> worker" where
  "delay_startup_failure cfg now i attempts w =
     (let streak = wk_streak w + 1;
          cap = max (wc_poll cfg) (wc_recovery cfg);
          delay = min cap (wc_poll cfg * 2 ^ min attempts 20);
          w = w\<lparr>wk_streak := streak,
                wk_retry_at := (i, now + delay) # filter (\<lambda>kv. fst kv \<noteq> i) (wk_retry_at w)\<rparr>
      in if wc_max_attempts cfg \<le> streak
         then w\<lparr>wk_resume_at := now + min cap (wc_poll cfg * 2 ^ min (streak - wc_max_attempts cfg) 20)\<rparr>
         else w)"

text \<open>How the run of a job ends for its worker; \<open>StartupFailed\<close> is the answer of
  \<open>_mark_running_job_failed\<close>.\<close>

datatype job_end = EndedWell | EndedCancelled | EndedFailed | StartupFailed nat

definition end_job :: "worker_config \<Rightarrow> rat \<Rightarrow> ident \<Rightarrow> job_end \<Rightarrow> worker \<Rightarrow> worker" where
  "end_job cfg now i out w =
     leave_slots i
       (case out of
          EndedWell \<Rightarrow>
            w\<lparr>wk_streak := 0, wk_resume_at := 0, wk_retry_at := filter (\<lambda>kv. fst kv \<noteq> i) (wk_retry_at w)\<rparr>
        | EndedCancelled \<Rightarrow> w
        | EndedFailed \<Rightarrow> if wk_stopping w then w\<lparr>wk_interrupted := True\<rparr> else w
        | StartupFailed attempts \<Rightarrow>
            if wk_stopping w then w\<lparr>wk_interrupted := True\<rparr> else delay_startup_failure cfg now i attempts w)"

text \<open>The steps of a worker. The dispatch awaits its fetch; jobs may end in between, which only
  frees slots, so \<open>StartFetched\<close> is the second half of such a dispatch, with any fetched jobs.\<close>

inductive worker_step :: "worker_config \<Rightarrow> worker \<Rightarrow> worker \<Rightarrow> bool" for cfg where
  Dispatch: "dispatch_available cfg now fetch w = (w', started) \<Longrightarrow> worker_step cfg w w'"
| StartFetched: "start_jobs cfg (cooling_ids now w) jobs w [] = (w', started)
    \<Longrightarrow> length (wk_inflight w) < wc_concurrency cfg \<Longrightarrow> worker_step cfg w w'"
| ReleaseHeavy: "worker_step cfg w (release_heavy_slot i w)"
| EndJob: "worker_step cfg w (end_job cfg now i out w)"
| Stop: "worker_step cfg w (w\<lparr>wk_stopping := True\<rparr>)"

section \<open>The slots stay within their limits\<close>

definition slots_ok :: "worker_config \<Rightarrow> worker \<Rightarrow> bool" where
  "slots_ok cfg w \<longleftrightarrow>
     distinct (wk_inflight w) \<and> distinct (wk_heavy w) \<and> set (wk_heavy w) \<subseteq> set (wk_inflight w) \<and>
     length (wk_inflight w) \<le> wc_concurrency cfg \<and> length (wk_heavy w) \<le> wc_heavy cfg"

lemma start_jobs_ok:
  assumes "start_jobs cfg cooling js w started = (w', started')" and "slots_ok cfg w"
    and "length (wk_inflight w) < wc_concurrency cfg"
  shows "slots_ok cfg w'"
  using assms
proof (induction js arbitrary: w started)
  case (Cons j js)
  let ?w = "w\<lparr>wk_heavy := (if heavy_phase (ij_phase j) then wk_heavy w @ [ij_id j] else wk_heavy w),
      wk_inflight := wk_inflight w @ [ij_id j]\<rparr>"
  consider "ij_id j \<in> set (wk_inflight w) \<or> ij_id j \<in> set cooling
        \<or> heavy_phase (ij_phase j) \<and> wc_heavy cfg \<le> length (wk_heavy w)"
    | "ij_id j \<notin> set (wk_inflight w)" "ij_id j \<notin> set cooling"
      "\<not> (heavy_phase (ij_phase j) \<and> wc_heavy cfg \<le> length (wk_heavy w))" by blast
  then show ?case
  proof cases
    case 1
    then have "start_jobs cfg cooling js w started = (w', started')" using Cons.prems(1) by (auto split: if_splits)
    then show ?thesis using Cons.IH Cons.prems(2,3) by blast
  next
    case 2
    have ok: "slots_ok cfg ?w" using 2 Cons.prems(2,3) by (auto simp: slots_ok_def)
    show ?thesis
    proof (cases "wc_concurrency cfg \<le> length (wk_inflight ?w)")
      case True
      then have "w' = ?w" using Cons.prems(1) 2 by (simp add: Let_def)
      with ok show ?thesis by simp
    next
      case False
      then have "start_jobs cfg cooling js ?w (started @ [j]) = (w', started')"
        using Cons.prems(1) 2 by (simp add: Let_def)
      then show ?thesis using Cons.IH ok False by simp
    qed
  qed
qed simp

lemma slots_ok_cong:
  "wk_inflight w' = wk_inflight w \<Longrightarrow> wk_heavy w' = wk_heavy w \<Longrightarrow> slots_ok cfg w' = slots_ok cfg w"
  by (simp add: slots_ok_def)

lemma slots_ok_leave: "slots_ok cfg w \<Longrightarrow> slots_ok cfg (leave_slots i w)"
  by (auto simp: slots_ok_def leave_slots_def intro: le_trans[OF length_filter_le])

lemma slots_ok_release: "slots_ok cfg w \<Longrightarrow> slots_ok cfg (release_heavy_slot i w)"
  by (auto simp: slots_ok_def release_heavy_slot_def intro: le_trans[OF length_filter_le])

lemma delay_slots [simp]:
  "wk_inflight (delay_startup_failure cfg now i n w) = wk_inflight w"
  "wk_heavy (delay_startup_failure cfg now i n w) = wk_heavy w"
  by (simp_all add: delay_startup_failure_def Let_def)

lemma dispatch_slots_ok:
  assumes "dispatch_available cfg now fetch w = (w', started)" and "slots_ok cfg w"
  shows "slots_ok cfg w'"
proof (cases "now < wk_resume_at w \<or> wc_concurrency cfg \<le> length (wk_inflight w)")
  case True
  then have "w' = w" using assms(1) by (auto simp: dispatch_available_def split: if_splits)
  with assms(2) show ?thesis by simp
next
  case False
  have ok: "slots_ok cfg (drop_cooled now w)" and room: "length (wk_inflight (drop_cooled now w)) < wc_concurrency cfg"
    using assms(2) False slots_ok_cong[of "drop_cooled now w" w] by (simp_all add: drop_cooled_def)
  show ?thesis
  proof (cases "fetch (wc_concurrency cfg - length (wk_inflight (drop_cooled now w)))
      (wk_inflight (drop_cooled now w) @ cooling_ids now w) (excluded_phases cfg (drop_cooled now w))")
    case None
    then show ?thesis using assms(1) False ok by (simp add: dispatch_available_def Let_def)
  next
    case (Some jobs)
    then have "start_jobs cfg (cooling_ids now w) jobs (drop_cooled now w) [] = (w', started)"
      using assms(1) False by (simp add: dispatch_available_def Let_def)
    then show ?thesis by (rule start_jobs_ok[OF _ ok room])
  qed
qed

lemma worker_step_ok: "worker_step cfg w w' \<Longrightarrow> slots_ok cfg w \<Longrightarrow> slots_ok cfg w'"
proof (induction rule: worker_step.induct)
  case (Dispatch now fetch w w' started)
  then show ?case by (rule dispatch_slots_ok)
next
  case (StartFetched now w jobs w' started)
  then show ?case by (metis start_jobs_ok)
next
  case (EndJob w now i out)
  then show ?case
    unfolding end_job_def by (intro slots_ok_leave) (auto simp: slots_ok_def split: job_end.splits)
next
  case (ReleaseHeavy w i)
  then show ?case by (rule slots_ok_release)
next
  case (Stop w)
  then show ?case by (simp add: slots_ok_def)
qed

lemma slots_ok_new: "slots_ok cfg new_worker"
  by (simp add: slots_ok_def new_worker_def)

lemma slots_ok_reachable:
  assumes "(worker_step cfg)\<^sup>*\<^sup>* w w'" and "slots_ok cfg w"
  shows "slots_ok cfg w'"
  using assms by (induction rule: rtranclp_induct) (auto intro: worker_step_ok)

text \<open>However the dispatches, the ends of jobs, the failures to start, the early returns of the
  heavy slot and the stop interleave, a worker never runs more jobs than its slots, never more heavy
  jobs than its heavy slots, keeps a heavy slot only for a job it runs, and runs no job twice at once;
  at least one slot of each kind exists whatever the settings say.\<close>

theorem slots_within_limits:
  assumes "cfg = worker_limits slots heavy poll recovery attempts"
    and "(worker_step cfg)\<^sup>*\<^sup>* new_worker w"
  shows "distinct (wk_inflight w) \<and> set (wk_heavy w) \<subseteq> set (wk_inflight w)
    \<and> length (wk_inflight w) \<le> max 1 slots \<and> length (wk_heavy w) \<le> max 1 heavy
    \<and> 0 < wc_heavy cfg \<and> wc_heavy cfg \<le> wc_concurrency cfg"
  using slots_ok_reachable[OF assms(2) slots_ok_new] assms(1)
  by (auto simp: slots_ok_def worker_limits_def)

definition demo_job :: "ident \<Rightarrow> job_phase \<Rightarrow> rat \<Rightarrow> ing_job" where
  "demo_job i p t =
     \<lparr>ij_id = i, ij_document = i @ ''d'', ij_recipe = None, ij_revision = None, ij_status = JQueued,
      ij_phase = p, ij_error = None, ij_skip = None, ij_attempts = 0, ij_max_attempts = 3,
      ij_queued_at = t, ij_started_at = None, ij_finished_at = None, ij_lease = None, ij_heartbeat = None\<rparr>"

definition demo_started :: worker where
  "demo_started = fst (dispatch_available (worker_limits 2 1 1 60 3) 0
     (\<lambda>n ids phases. Some [demo_job ''a'' Extract 1, demo_job ''b'' Extract 2, demo_job ''c'' Chunk 3]) new_worker)"

lemma demo_started_ids: "wk_inflight demo_started = [''a'', ''c''] \<and> wk_heavy demo_started = [''a'']"
  by (simp add: demo_started_def dispatch_available_def worker_limits_def new_worker_def Let_def
      demo_job_def heavy_phase_def cooling_ids_def drop_cooled_def excluded_phases_def)

theorem slots_within_limits_witness:
  "wk_inflight demo_started = [''a'', ''c''] \<and> wk_heavy demo_started = [''a'']
    \<and> length (wk_inflight demo_started) \<le> max 1 2"
proof -
  have "(worker_step (worker_limits 2 1 1 60 3))\<^sup>*\<^sup>* new_worker demo_started"
    unfolding demo_started_def
    by (rule r_into_rtranclp, rule worker_step.Dispatch, rule prod.collapse[symmetric])
  then show ?thesis using slots_within_limits[OF refl] demo_started_ids by blast
qed

section \<open>No job waits for ever behind newer ones\<close>

lemma dispatch_key_le:
  assumes "0 \<le> window"
  shows "dispatch_key window db a \<le> ij_queued_at a"
proof -
  have "x \<le> ij_queued_at a" if "x \<in> set (start_times db a)" for x
    using that by (auto simp: start_times_def)
  then show ?thesis using assms by (auto simp: dispatch_key_def)
qed

lemma dispatch_key_ge: "ij_queued_at b \<le> dispatch_key window db b + window" if "0 \<le> window"
  using that by (auto simp: dispatch_key_def max_def)

lemma rank_le_key: "a \<le> b \<Longrightarrow> rank_key a \<le> rank_key b"
  by (auto simp: less_eq_dispatch_rank_def)

lemma take_sort_key_le:
  assumes "a \<in> set xs" and "a \<notin> set (take n (sort_key f xs))" and "b \<in> set (take n (sort_key f xs))"
  shows "f b \<le> f a"
proof -
  let ?ys = "sort_key f xs"
  have "a \<in> set (drop n ?ys)"
    using assms(1,2) by (metis Un_iff append_take_drop_id set_append set_sort)
  moreover have "sorted (map f (take n ?ys @ drop n ?ys))" by simp
  ultimately show ?thesis using assms(3) by (simp only: map_append sorted_append) auto
qed

text \<open>C20: A job that could run and is left out of the fetch is left out only because the fetch is
  full, and every fetched job was queued at most the pipeline window after it (a job of a starting phase
  not after it at all): jobs queued later than the window never overtake, so no document starves.\<close>

theorem overtaking_is_bounded:
  assumes "0 \<le> window" and "a \<in> set (db_jobs db)" and "dispatchable ids phases db a"
    and "a \<notin> set (list_dispatchable window limit ids phases db)"
  shows "length (list_dispatchable window limit ids phases db) = limit
    \<and> (\<forall>b \<in> set (list_dispatchable window limit ids phases db).
          ij_queued_at b \<le> ij_queued_at a + window
          \<and> (heavy_phase (ij_phase b) \<longrightarrow> ij_queued_at b \<le> ij_queued_at a))"
proof (intro conjI ballI)
  let ?xs = "filter (dispatchable ids phases db) (db_jobs db)"
  have a: "a \<in> set ?xs" using assms(2,3) by simp
  have "limit \<le> length (sort_key (dispatch_rank_of window db) ?xs)"
  proof (rule ccontr)
    assume "\<not> ?thesis"
    then have "take limit (sort_key (dispatch_rank_of window db) ?xs) = sort_key (dispatch_rank_of window db) ?xs"
      by simp
    then show False using a assms(4) by (simp add: list_dispatchable_def)
  qed
  then show "length (list_dispatchable window limit ids phases db) = limit"
    by (simp add: list_dispatchable_def)
  fix b assume b: "b \<in> set (list_dispatchable window limit ids phases db)"
  have "dispatch_rank_of window db b \<le> dispatch_rank_of window db a"
    using take_sort_key_le[OF a] assms(4) b unfolding list_dispatchable_def by blast
  then have "dispatch_key window db b \<le> dispatch_key window db a"
    using rank_le_key by (fastforce simp: dispatch_rank_of_def)
  then have key: "dispatch_key window db b \<le> ij_queued_at a"
    using dispatch_key_le[OF assms(1), of db a] by simp
  then show "ij_queued_at b \<le> ij_queued_at a + window"
    using dispatch_key_ge[OF assms(1), of b db] by simp
  show "heavy_phase (ij_phase b) \<longrightarrow> ij_queued_at b \<le> ij_queued_at a"
    using key by (simp add: dispatch_key_def split: if_splits)
qed

definition demo_queue :: ing_db where
  "demo_queue =
     \<lparr>db_jobs = [(demo_job ''new'' Extract 5)\<lparr>ij_document := ''A''\<rparr>, (demo_job ''early'' Extract 1)\<lparr>ij_document := ''B'', ij_status := JSucceeded\<rparr>,
                 (demo_job ''next'' Chunk 9)\<lparr>ij_document := ''B''\<rparr>],
      db_docs = [\<lparr>dc_id = ''A'', dc_status = Uploaded, dc_error = None\<rparr>, \<lparr>dc_id = ''B'', dc_status = Uploaded, dc_error = None\<rparr>],
      db_recipes = [], db_chunk_sets = []\<rparr>"

theorem overtaking_is_bounded_witness:
  "map ij_id (list_dispatchable 10 1 [] [] demo_queue) = [''next'']
    \<and> list_all (\<lambda>b. ij_queued_at b \<le> 5 + 10) (list_dispatchable 10 1 [] [] demo_queue)"
proof -
  let ?a = "(demo_job ''new'' Extract 5)\<lparr>ij_document := ''A''\<rparr>"
  let ?b = "(demo_job ''next'' Chunk 9)\<lparr>ij_document := ''B''\<rparr>"
  have l: "list_dispatchable 10 1 [] [] demo_queue = [?b]"
    by (simp add: list_dispatchable_def demo_queue_def dispatchable_def demo_job_def doc_exists_def
        dispatch_rank_of_def dispatch_key_def start_times_def heavy_phase_def less_eq_dispatch_rank_def
        sort_key_def)
  have "length (list_dispatchable 10 1 [] [] demo_queue) = 1
    \<and> (\<forall>b \<in> set (list_dispatchable 10 1 [] [] demo_queue). ij_queued_at b \<le> ij_queued_at ?a + 10
          \<and> (heavy_phase (ij_phase b) \<longrightarrow> ij_queued_at b \<le> ij_queued_at ?a))"
  proof (rule overtaking_is_bounded)
    show "?a \<in> set (db_jobs demo_queue)" by (simp add: demo_queue_def)
    show "dispatchable [] [] demo_queue ?a"
      by (simp add: demo_queue_def dispatchable_def demo_job_def doc_exists_def)
    show "?a \<notin> set (list_dispatchable 10 1 [] [] demo_queue)"
      unfolding l by (simp add: demo_job_def)
  qed simp
  then show ?thesis using l by (simp add: demo_job_def)
qed

end
