(* ===== verification/IngestionWatch.thy ===== *)
theory IngestionWatch
  imports IngestionJobs
begin

text \<open>The watch over a job that runs in a process of its own
  (\<open>rag/backend/app/rag/ingestion_worker.py\<close>, \<open>_progress_is_running\<close>, \<open>_ProgressWatch\<close>,
  \<open>_wait_job_subprocess\<close>, \<open>_terminate_process\<close>), and the record of the progress it reads
  (\<open>rag/backend/app/schemas/document.py\<close>). Times are rationals; a list of polls carries what the
  clock, the process and the database answer in each turn of the loop.\<close>

section \<open>The progress of a job\<close>

datatype segment_status = SegQueued | SegRunning | SegSucceeded | SegFailed | SegCancelled

record segment_progress =
  sg_id :: string
  sg_page_start :: nat
  sg_page_end :: nat
  sg_status :: segment_status
  sg_completed :: nat
  sg_reused :: bool

record parse_progress =
  pp_engine :: "string option"
  pp_completed :: nat
  pp_failed :: nat
  pp_total :: "nat option"
  pp_finished :: bool
  pp_segments :: "segment_progress list"

datatype vision_kind = Picture | Table

record vision_progress =
  vp_phase :: "string option"
  vp_succeeded :: nat
  vp_failed :: nat
  vp_skipped :: nat
  vp_running :: nat
  vp_pending :: nat
  vp_total_known :: nat
  vp_total_final :: bool
  vp_current_page :: "nat option"
  vp_current_kind :: "vision_kind option"
  vp_finished :: bool
  vp_segment_page_start :: "nat option"
  vp_segment_page_end :: "nat option"
  vp_segments_completed :: nat
  vp_segments_total :: nat

datatype call_stage =
  VisionCalls | HeadingLevels | FieldExtraction | NavigationSummary | RaptorSummary | Embedding | Rerank

record call_progress =
  cp_stage :: call_stage
  cp_succeeded :: nat
  cp_failed :: nat
  cp_retries :: nat
  cp_total :: "nat option"
  cp_concurrency :: nat
  cp_max_concurrency :: nat
  cp_in_flight :: nat
  cp_waiting_reason :: "string option"
  cp_waiting_seconds :: "nat option"
  cp_finished :: bool

datatype progress_stage = ParseStage | VisionStage

record job_progress =
  jp_stage :: progress_stage
  jp_parse :: "parse_progress option"
  jp_vision :: "vision_progress option"
  jp_calls :: "call_progress option"
  jp_updated_at :: rat

text \<open>The phase and the progress of the row read from the database.\<close>

type_synonym job_reading = "job_phase \<times> job_progress option"

definition progress_is_running :: "job_progress option \<Rightarrow> bool" where
  "progress_is_running p =
     (case p of None \<Rightarrow> False
      | Some g \<Rightarrow>
          if jp_stage g = VisionStage then (case jp_vision g of None \<Rightarrow> False | Some v \<Rightarrow> \<not> vp_finished v)
          else (case jp_parse g of None \<Rightarrow> True | Some q \<Rightarrow> \<not> pp_finished q))"

section \<open>The watch\<close>

record watch =
  wt_fingerprint :: "job_reading option"
  wt_progress :: "job_progress option"
  wt_changed_at :: rat

definition new_watch :: "rat \<Rightarrow> watch" where
  "new_watch started = \<lparr>wt_fingerprint = None, wt_progress = None, wt_changed_at = started\<rparr>"

definition observe :: "job_reading option \<Rightarrow> rat \<Rightarrow> watch \<Rightarrow> watch" where
  "observe r now w =
     (case r of None \<Rightarrow> w
      | Some f \<Rightarrow>
          if Some f \<noteq> wt_fingerprint w
          then \<lparr>wt_fingerprint = Some f, wt_progress = snd f, wt_changed_at = now\<rparr> else w)"

definition stalled_for :: "rat \<Rightarrow> watch \<Rightarrow> rat option" where
  "stalled_for now w = (if progress_is_running (wt_progress w) then Some (now - wt_changed_at w) else None)"

definition read_safely :: "(job_reading option) option \<Rightarrow> job_reading option" where
  "read_safely r = (case r of None \<Rightarrow> None | Some x \<Rightarrow> x)"

text \<open>One turn of the loop: the time at its head, the exit code if the process ended in the wait, the
  read (None when it raised), the times of the observation and of the check, and whether the waiting
  task was cancelled in this turn.\<close>

record poll =
  pl_now :: rat
  pl_exit :: "int option"
  pl_read :: "(job_reading option) option"
  pl_observed :: rat
  pl_checked :: rat
  pl_cancelled :: bool

datatype wait_end = Completed | ExitedWith int | TimedOut "job_progress option" | Stalled "job_progress option" | WaitCancelled

record wait_config =
  wf_timeout :: rat
  wf_stall :: rat
  wf_poll :: rat

fun wait_from :: "wait_config \<Rightarrow> rat \<Rightarrow> watch \<Rightarrow> poll list \<Rightarrow> wait_end option" where
  "wait_from cfg deadline w [] = None"
| "wait_from cfg deadline w (p # ps) =
     (if deadline - pl_now p \<le> 0 then Some (TimedOut (wt_progress w))
      else if pl_cancelled p then Some WaitCancelled
      else case pl_exit p of
             Some code \<Rightarrow> Some (if code \<noteq> 0 then ExitedWith code else Completed)
           | None \<Rightarrow>
               let w = observe (read_safely (pl_read p)) (pl_observed p) w
               in case stalled_for (pl_checked p) w of
                    Some s \<Rightarrow> if wf_stall cfg \<le> s then Some (Stalled (wt_progress w)) else wait_from cfg deadline w ps
                  | None \<Rightarrow> wait_from cfg deadline w ps)"

definition wait_job :: "wait_config \<Rightarrow> rat \<Rightarrow> poll list \<Rightarrow> wait_end option" where
  "wait_job cfg started ps = wait_from cfg (started + wf_timeout cfg) (new_watch started) ps"

datatype signal = SigTerm | SigKill

text \<open>The signals sent to the process: its exit code if it has ended, and whether it ends within the
  ten seconds after the first.\<close>

definition terminate_process :: "int option \<Rightarrow> bool \<Rightarrow> signal list" where
  "terminate_process exit ends = (if exit \<noteq> None then [] else if ends then [SigTerm] else [SigTerm, SigKill])"

definition stops_process :: "wait_end \<Rightarrow> bool" where
  "stops_process r = (case r of Completed \<Rightarrow> False | ExitedWith c \<Rightarrow> False | _ \<Rightarrow> True)"

section \<open>When the loop ends\<close>

text \<open>What the loop relies on: the clock does not go back, and a wait that the process does not end
  lasts its timeout.\<close>

fun polls_ok :: "rat \<Rightarrow> rat \<Rightarrow> rat \<Rightarrow> poll list \<Rightarrow> bool" where
  "polls_ok interval deadline prev [] = True"
| "polls_ok interval deadline prev (p # ps) =
     (prev \<le> pl_now p
      \<and> (pl_exit p = None \<longrightarrow> pl_now p + min interval (deadline - pl_now p) \<le> pl_observed p)
      \<and> pl_now p \<le> pl_observed p \<and> pl_observed p \<le> pl_checked p
      \<and> polls_ok interval deadline (pl_checked p) ps)"

text \<open>One turn that does not end the loop.\<close>

lemma wait_from_continue:
  assumes "wait_from cfg deadline w (p # ps) = None"
  shows "pl_now p < deadline \<and> pl_exit p = None \<and>
    wait_from cfg deadline (observe (read_safely (pl_read p)) (pl_observed p) w) ps = None"
  using assms by (auto simp: Let_def split: if_splits option.splits)

lemma wait_ends_from:
  assumes "0 < interval" and "polls_ok interval deadline prev ps" and "deadline - prev \<le> of_nat k * interval"
    and "k < length ps"
  shows "wait_from cfg deadline w ps \<noteq> None"
  using assms(2-)
proof (induction k arbitrary: ps prev w)
  case 0
  then obtain p qs where ps: "ps = p # qs" by (cases ps) auto
  with 0 have "deadline - pl_now p \<le> 0" by auto
  then show ?case by (simp add: ps)
next
  case (Suc k)
  then obtain p qs where ps: "ps = p # qs" by (cases ps) auto
  show ?case
  proof
    assume none: "wait_from cfg deadline w ps = None"
    then have next_turn: "pl_now p < deadline" "pl_exit p = None"
      "wait_from cfg deadline (observe (read_safely (pl_read p)) (pl_observed p) w) qs = None"
      using wait_from_continue ps by blast+
    have clock: "prev \<le> pl_now p" "pl_now p + min interval (deadline - pl_now p) \<le> pl_observed p"
      "pl_observed p \<le> pl_checked p" "polls_ok interval deadline (pl_checked p) qs"
      using Suc.prems(1) next_turn(2) ps by auto
    have "deadline - pl_checked p \<le> of_nat k * interval"
    proof (cases "interval \<le> deadline - pl_now p")
      case True
      then have "prev + interval \<le> pl_checked p" using clock by simp
      then show ?thesis using Suc.prems(2) by (simp add: algebra_simps)
    next
      case False
      then have "deadline \<le> pl_checked p" using clock by simp
      then show ?thesis using assms(1) by (meson diff_le_0_iff_le mult_nonneg_nonneg of_nat_0_le_iff order.trans order_less_imp_le)
    qed
    then have "wait_from cfg deadline (observe (read_safely (pl_read p)) (pl_observed p) w) qs \<noteq> None"
      using Suc.IH[OF clock(4)] Suc.prems(3) ps by simp
    with next_turn(3) show False by simp
  qed
qed

lemma timed_out_late:
  assumes "wait_from cfg deadline w ps = Some (TimedOut g)"
  shows "\<exists>p \<in> set ps. deadline \<le> pl_now p"
  using assms
  by (induction cfg deadline w ps rule: wait_from.induct)
    (auto simp: Let_def split: if_splits option.splits)

text \<open>Waiting for the process of a job ends: after as many turns as poll intervals fit in the
  overall limit, and one more, the process has ended, or was stopped as stalled, or was stopped because
  the limit is over; the limit stops it only when it is over.\<close>

theorem waiting_ends:
  assumes "0 < wf_poll cfg" and "0 \<le> wf_timeout cfg"
    and "polls_ok (wf_poll cfg) (started + wf_timeout cfg) started ps"
    and "nat \<lceil>wf_timeout cfg / wf_poll cfg\<rceil> < length ps"
  shows "(\<exists>r. wait_job cfg started ps = Some r)
    \<and> (\<forall>g. wait_job cfg started ps = Some (TimedOut g) \<longrightarrow> (\<exists>p \<in> set ps. started + wf_timeout cfg \<le> pl_now p))"
proof -
  let ?k = "nat \<lceil>wf_timeout cfg / wf_poll cfg\<rceil>"
  have "wf_timeout cfg / wf_poll cfg \<le> of_nat ?k"
    using assms(1,2) by simp
  then have "started + wf_timeout cfg - started \<le> of_nat ?k * wf_poll cfg"
    using assms(1) by (simp add: pos_divide_le_eq)
  from wait_ends_from[OF assms(1,3) this assms(4)] show ?thesis
    unfolding wait_job_def using timed_out_late by blast
qed

section \<open>A job that moves is not stopped as stalled\<close>

text \<open>The readings of a run of polls since its progress last changed: every answered read is \<open>f\<close>.\<close>

definition quiet :: "job_reading \<Rightarrow> poll list \<Rightarrow> bool" where
  "quiet f ps = list_all (\<lambda>p. read_safely (pl_read p) \<in> {None, Some f}) ps"

text \<open>What the watch remembers after the turns \<open>pre\<close>.\<close>

definition remembers :: "poll list \<Rightarrow> watch \<Rightarrow> bool" where
  "remembers pre w \<longleftrightarrow>
     wt_fingerprint w = None \<and> wt_progress w = None \<or>
     (\<exists>f as p0 bs. pre = as @ p0 # bs \<and> read_safely (pl_read p0) = Some f \<and> quiet f bs
        \<and> wt_fingerprint w = Some f \<and> wt_progress w = snd f \<and> wt_changed_at w = pl_observed p0)"

lemma remembersI:
  "pre = as @ q # bs \<Longrightarrow> read_safely (pl_read q) = Some f \<Longrightarrow> quiet f bs \<Longrightarrow> wt_fingerprint w = Some f
    \<Longrightarrow> wt_progress w = snd f \<Longrightarrow> wt_changed_at w = pl_observed q \<Longrightarrow> remembers pre w"
  unfolding remembers_def by blast

lemma remembers_new: "remembers [] (new_watch started)"
  by (simp add: remembers_def new_watch_def)

lemma remembers_observe:
  assumes "remembers pre w"
  shows "remembers (pre @ [p]) (observe (read_safely (pl_read p)) (pl_observed p) w)"
proof (cases "read_safely (pl_read p)")
  case None
  show ?thesis
  proof (cases "wt_fingerprint w")
    case fresh: None
    with assms have "wt_progress w = None" unfolding remembers_def by auto
    then show ?thesis using fresh by (simp add: remembers_def observe_def None)
  next
    case seen: (Some f)
    with assms obtain as p0 bs where w: "pre = as @ p0 # bs" "read_safely (pl_read p0) = Some f" "quiet f bs"
      "wt_progress w = snd f" "wt_changed_at w = pl_observed p0"
      unfolding remembers_def by auto
    have "quiet f (bs @ [p])" using w None by (simp add: quiet_def)
    then show ?thesis
      by (rule remembersI[where as = as and q = p0, rotated 2]) (use w seen None in \<open>simp_all add: observe_def\<close>)
  qed
next
  case (Some f)
  show ?thesis
  proof (cases "Some f = wt_fingerprint w")
    case True
    then have fp: "wt_fingerprint w = Some f" by (rule sym)
    from assms fp obtain as p0 bs where w: "pre = as @ p0 # bs" "read_safely (pl_read p0) = Some f" "quiet f bs"
      "wt_progress w = snd f" "wt_changed_at w = pl_observed p0"
      unfolding remembers_def by auto
    have "quiet f (bs @ [p])" using w Some by (simp add: quiet_def)
    moreover have "observe (read_safely (pl_read p)) (pl_observed p) w = w" by (simp add: observe_def Some fp)
    ultimately show ?thesis using w fp by (metis append.assoc append_Cons remembersI)
  next
    case False
    show ?thesis
      by (rule remembersI[where as = pre and q = p and bs = "[]" and f = f])
        (use False Some in \<open>simp_all add: quiet_def observe_def\<close>)
  qed
qed

lemma wait_from_stalled_cases:
  assumes "wait_from cfg deadline w (p # ps) = Some (Stalled g)"
    and "w' = observe (read_safely (pl_read p)) (pl_observed p) w"
  shows "wait_from cfg deadline w' ps = Some (Stalled g)
    \<or> progress_is_running (wt_progress w') \<and> wf_stall cfg \<le> pl_checked p - wt_changed_at w' \<and> g = wt_progress w'"
  using assms by (auto simp: Let_def stalled_for_def split: if_splits option.splits)

lemma stalled_quiet:
  assumes "wait_from cfg deadline w ps = Some (Stalled g)" and "remembers pre w"
  shows "\<exists>f as p0 bs cs. pre @ ps = as @ p0 # bs @ cs \<and> read_safely (pl_read p0) = Some f \<and> quiet f bs
    \<and> progress_is_running (snd f) \<and> g = snd f \<and> wf_stall cfg \<le> pl_checked (last (p0 # bs)) - pl_observed p0"
  using assms
proof (induction ps arbitrary: w pre)
  case (Cons p ps)
  define w' where "w' = observe (read_safely (pl_read p)) (pl_observed p) w"
  have rem: "remembers (pre @ [p]) w'" unfolding w'_def by (rule remembers_observe[OF Cons.prems(2)])
  from wait_from_stalled_cases[OF Cons.prems(1) w'_def] show ?case
  proof
    assume "wait_from cfg deadline w' ps = Some (Stalled g)"
    from Cons.IH[OF this rem] show ?thesis by simp
  next
    assume stop: "progress_is_running (wt_progress w') \<and> wf_stall cfg \<le> pl_checked p - wt_changed_at w' \<and> g = wt_progress w'"
    then have "wt_progress w' \<noteq> None" by (auto simp: progress_is_running_def split: option.splits)
    with rem obtain f as p0 bs where f: "pre @ [p] = as @ p0 # bs" "read_safely (pl_read p0) = Some f" "quiet f bs"
      "wt_progress w' = snd f" "wt_changed_at w' = pl_observed p0"
      unfolding remembers_def by blast
    have "last (p0 # bs) = p" using f(1) by (metis last_appendR last_snoc list.distinct(1))
    moreover have "pre @ p # ps = as @ p0 # bs @ ps" using f(1) by (metis append.assoc append_Cons append_Nil)
    ultimately show ?thesis using f(2,3,4,5) stop by metis
  qed
qed simp

text \<open>A job is stopped as stalled only when it stood still: from some read on, the row of the job
  showed a step that reports its progress, unfinished, and every later read that was answered showed the
  same phase and progress, for at least the stall timeout; a job whose progress moves in time is never
  stopped, and neither is one in a step without progress.\<close>

theorem stalled_job_stood_still:
  assumes "wait_job cfg started ps = Some (Stalled g)"
  shows "\<exists>f as p0 bs cs. ps = as @ p0 # bs @ cs \<and> read_safely (pl_read p0) = Some f
    \<and> list_all (\<lambda>p. read_safely (pl_read p) \<in> {None, Some f}) bs
    \<and> progress_is_running (snd f) \<and> g = snd f \<and> wf_stall cfg \<le> pl_checked (last (p0 # bs)) - pl_observed p0"
  using stalled_quiet[OF assms[unfolded wait_job_def] remembers_new] by (simp add: quiet_def)

definition demo_progress :: "nat \<Rightarrow> job_progress" where
  "demo_progress n =
     \<lparr>jp_stage = ParseStage,
      jp_parse = Some \<lparr>pp_engine = None, pp_completed = n, pp_failed = 0, pp_total = Some 9, pp_finished = False, pp_segments = []\<rparr>,
      jp_vision = None, jp_calls = None, jp_updated_at = of_nat n\<rparr>"

definition demo_poll :: "rat \<Rightarrow> nat option \<Rightarrow> poll" where
  "demo_poll t n =
     \<lparr>pl_now = t, pl_exit = None,
      pl_read = (case n of None \<Rightarrow> None | Some k \<Rightarrow> Some (Some (Extract, Some (demo_progress k)))),
      pl_observed = t + 10, pl_checked = t + 10, pl_cancelled = False\<rparr>"

definition demo_wait :: wait_config where
  "demo_wait = \<lparr>wf_timeout = 30, wf_stall = 20, wf_poll = 10\<rparr>"

lemma demo_simps:
  "wait_job demo_wait 0 [demo_poll 0 (Some 1), demo_poll 10 None, demo_poll 20 (Some 1)]
    = Some (Stalled (Some (demo_progress 1)))"
  "wait_job demo_wait 0 [demo_poll 0 (Some 1), demo_poll 10 None, demo_poll 20 (Some 2), demo_poll 30 (Some 2)]
    = Some (TimedOut (Some (demo_progress 2)))"
  by (simp_all add: wait_job_def demo_wait_def demo_poll_def demo_progress_def new_watch_def observe_def
      read_safely_def stalled_for_def progress_is_running_def)

theorem stalled_job_stood_still_witness:
  "\<exists>f as p0 bs cs. [demo_poll 0 (Some 1), demo_poll 10 None, demo_poll 20 (Some 1)] = as @ p0 # bs @ cs
    \<and> read_safely (pl_read p0) = Some f \<and> progress_is_running (snd f)
    \<and> wf_stall demo_wait \<le> pl_checked (last (p0 # bs)) - pl_observed p0"
  using stalled_job_stood_still[OF demo_simps(1)] by blast

theorem waiting_ends_witness:
  "\<exists>r. wait_job demo_wait 0 [demo_poll 0 (Some 1), demo_poll 10 None, demo_poll 20 (Some 2), demo_poll 30 (Some 2)] = Some r"
proof -
  have "(\<exists>r. wait_job demo_wait 0 [demo_poll 0 (Some 1), demo_poll 10 None, demo_poll 20 (Some 2), demo_poll 30 (Some 2)] = Some r)
    \<and> (\<forall>g. wait_job demo_wait 0 [demo_poll 0 (Some 1), demo_poll 10 None, demo_poll 20 (Some 2), demo_poll 30 (Some 2)] = Some (TimedOut g)
        \<longrightarrow> (\<exists>p \<in> set [demo_poll 0 (Some 1), demo_poll 10 None, demo_poll 20 (Some 2), demo_poll 30 (Some 2)].
              0 + wf_timeout demo_wait \<le> pl_now p))"
    by (rule waiting_ends) (simp_all add: demo_wait_def demo_poll_def)
  then show ?thesis by blast
qed

end
