(* ===== verification/RerankSelection.thy ===== *)
theory RerankSelection
  imports Prelude "HOL-Library.Monad_Syntax" "HOL-Library.Sublist"
begin

text \<open>The choice of candidates after the reranking of a search
  (\<open>rag_engine/retrieval/rerank_selection.py\<close>, with \<open>reference_follow.reference_source_uids\<close>,
  \<open>attachment_evidence.is_attachment_evidence\<close> and \<open>rerank_scores.keeps_original_order\<close>): candidates tied
  by references form groups, found with a union-find whose search halves the paths, and a group is taken
  or left as a whole. The array of parents is a list; the search for a root is a partial function, since
  a loop among the parents would never end.\<close>

section \<open>Candidates\<close>

text \<open>The marker of a candidate added for a reference: where it came from, and all the candidates that share
  it.\<close>

record reference_marker =
  rm_from :: string
  rm_all :: "string list option"

record candidate =
  ca_uid :: string
  ca_marker :: "reference_marker option"
  ca_attachment :: bool
  ca_catalog :: bool

definition reference_source_uid :: "candidate \<Rightarrow> string" where
  "reference_source_uid c = (case ca_marker c of None \<Rightarrow> '''' | Some m \<Rightarrow> rm_from m)"

definition reference_source_uids :: "candidate \<Rightarrow> string list" where
  "reference_source_uids c =
     dedup ((if reference_source_uid c = '''' then [] else [reference_source_uid c])
       @ (case ca_marker c of None \<Rightarrow> [] | Some m \<Rightarrow>
            (case rm_all m of None \<Rightarrow> [] | Some us \<Rightarrow> filter (\<lambda>u. u \<noteq> '''') us)))"

text \<open>The last candidate with a uid.\<close>

definition position_of :: "candidate list \<Rightarrow> string \<Rightarrow> nat option" where
  "position_of cs u = (if u = '''' then None else find (\<lambda>i. ca_uid (cs ! i) = u) (rev [0..<length cs]))"

definition links :: "candidate list \<Rightarrow> (nat \<times> nat) list" where
  "links cs = concat (map (\<lambda>i. map (Pair i) (List.map_filter (position_of cs) (reference_source_uids (cs ! i))))
     [0..<length cs])"

section \<open>The union-find\<close>

partial_function (option) root :: "nat list \<Rightarrow> nat \<Rightarrow> (nat \<times> nat list) option" where
  "root l i = (if l ! i = i then Some (i, l) else root (l[i := l ! (l ! i)]) (l[i := l ! (l ! i)] ! i))"

declare root.simps [code]

text \<open>The root of the source is searched first.\<close>

definition link :: "nat \<Rightarrow> nat \<Rightarrow> nat list \<Rightarrow> nat list option" where
  "link i j l = do { (b, l) \<leftarrow> root l j; (a, l) \<leftarrow> root l i; Some (l[a := b]) }"

fun link_all :: "(nat \<times> nat) list \<Rightarrow> nat list \<Rightarrow> nat list option" where
  "link_all [] l = Some l"
| "link_all ((i, j) # es) l = do { l \<leftarrow> link i j l; link_all es l }"

definition add_to_group :: "nat \<Rightarrow> nat \<Rightarrow> (nat \<times> nat list) list \<Rightarrow> (nat \<times> nat list) list" where
  "add_to_group r i gs =
     (if list_ex (\<lambda>g. fst g = r) gs then update_where (\<lambda>g. fst g = r) (\<lambda>g. (fst g, snd g @ [i])) gs
      else gs @ [(r, [i])])"

fun collect :: "nat list \<Rightarrow> nat list \<Rightarrow> (nat \<times> nat list) list \<Rightarrow> (nat \<times> nat list) list option" where
  "collect l [] gs = Some gs"
| "collect l (i # is) gs = do { (r, l) \<leftarrow> root l i; collect l is (add_to_group r i gs) }"

definition group_indices :: "candidate list \<Rightarrow> nat list list option" where
  "group_indices cs = do {
     l \<leftarrow> link_all (links cs) [0..<length cs];
     gs \<leftarrow> collect l [0..<length cs] [];
     Some (map snd gs) }"

section \<open>Taking groups\<close>

record taking =
  tk_chosen :: "nat list"
  tk_ordinary :: int
  tk_protected :: int
  tk_catalog :: int
  tk_skipped :: int

definition take_group :: "candidate list \<Rightarrow> int \<Rightarrow> nat list \<Rightarrow> taking \<Rightarrow> taking" where
  "take_group cs limit g s =
     (if list_ex (\<lambda>i. ca_attachment (cs ! i)) g
      then s\<lparr>tk_chosen := tk_chosen s @ g, tk_protected := tk_protected s + int (length g)\<rparr>
      else if list_ex (\<lambda>i. ca_catalog (cs ! i)) g
      then s\<lparr>tk_chosen := tk_chosen s @ g, tk_catalog := tk_catalog s + int (length g)\<rparr>
      else if tk_ordinary s + int (length g) \<le> limit
      then s\<lparr>tk_chosen := tk_chosen s @ g, tk_ordinary := tk_ordinary s + int (length g)\<rparr>
      else s\<lparr>tk_skipped := tk_skipped s + 1\<rparr>)"

definition no_taking :: taking where
  "no_taking = \<lparr>tk_chosen = [], tk_ordinary = 0, tk_protected = 0, tk_catalog = 0, tk_skipped = 0\<rparr>"

text \<open>The answer: the candidates, and what is reported of the choice, which is \<open>None\<close> without a limit.\<close>

definition select_reranked :: "candidate list \<Rightarrow> int \<Rightarrow> (candidate list \<times> taking option) option" where
  "select_reranked cs limit =
     (if limit \<le> 0 then Some (cs, None)
      else do {
        gs \<leftarrow> group_indices cs;
        let s = fold (take_group cs limit) gs no_taking;
        Some (map (\<lambda>i. cs ! i) (filter (\<lambda>i. i \<in> set (tk_chosen s)) [0..<length cs]), Some s) })"

section \<open>The forest of parents\<close>

text \<open>Every parent is nearer to its root, measured by \<open>d\<close>.\<close>

definition ranked :: "(nat \<Rightarrow> nat) \<Rightarrow> nat list \<Rightarrow> bool" where
  "ranked d l \<longleftrightarrow> (\<forall>i<length l. l ! i < length l \<and> (l ! i \<noteq> i \<longrightarrow> d (l ! i) < d i))"

inductive reaches :: "nat list \<Rightarrow> nat \<Rightarrow> nat \<Rightarrow> bool" for l where
  Root: "l ! r = r \<Longrightarrow> reaches l r r"
| Step: "l ! i \<noteq> i \<Longrightarrow> reaches l (l ! i) r \<Longrightarrow> reaches l i r"

inductive_cases reachesE: "reaches l i r"

lemma reaches_root: "reaches l i r \<Longrightarrow> l ! r = r"
  by (induction rule: reaches.induct)

lemma reaches_unique: "reaches l i r \<Longrightarrow> reaches l i s \<Longrightarrow> r = s"
proof (induction rule: reaches.induct)
  case (Root r)
  from Root.prems show ?case by (rule reachesE) (use Root.hyps in auto)
next
  case (Step i r)
  from Step.prems show ?case by (rule reachesE) (use Step in auto)
qed

lemma reaches_step: "reaches l i r \<Longrightarrow> reaches l (l ! i) r"
  by (metis reaches.cases)

lemma reaches_ex:
  assumes "ranked d l" and "i < length l"
  shows "\<exists>r<length l. reaches l i r"
  using assms(2)
proof (induction "d i" arbitrary: i rule: less_induct)
  case less
  show ?case
  proof (cases "l ! i = i")
    case True
    with less.prems show ?thesis using reaches.Root by blast
  next
    case False
    then have "l ! i < length l" "d (l ! i) < d i" using assms(1) less.prems by (auto simp: ranked_def)
    with less.hyps obtain r where "r < length l" "reaches l (l ! i) r" by blast
    with False show ?thesis using reaches.Step by blast
  qed
qed

definition same_roots :: "nat list \<Rightarrow> nat list \<Rightarrow> bool" where
  "same_roots l l' \<longleftrightarrow> length l' = length l \<and> (\<forall>i<length l. \<forall>r. reaches l' i r \<longleftrightarrow> reaches l i r)"

lemma same_rootsI:
  assumes "ranked d l" and "length l' = length l" and "\<And>i r. i < length l \<Longrightarrow> reaches l i r \<Longrightarrow> reaches l' i r"
  shows "same_roots l l'"
  unfolding same_roots_def using assms reaches_ex[OF assms(1)] reaches_unique by metis

lemma same_roots_trans: "same_roots l l' \<Longrightarrow> same_roots l' l'' \<Longrightarrow> same_roots l l''"
  by (simp add: same_roots_def)

text \<open>Halving a path keeps the ranks and the roots.\<close>

lemma halve_ranked: "ranked d l \<Longrightarrow> i < length l \<Longrightarrow> ranked d (l[i := l ! (l ! i)])"
  unfolding ranked_def by (auto simp: nth_list_update) (metis less_trans)

lemma halve_roots:
  assumes rk: "ranked d l" and i: "i < length l"
  shows "same_roots l (l[i := l ! (l ! i)])"
proof (rule same_rootsI[OF rk])
  let ?l = "l[i := l ! (l ! i)]"
  fix j s
  assume "j < length l" and "reaches l j s"
  from this(2,1) show "reaches ?l j s"
  proof (induction rule: reaches.induct)
    case (Root r)
    then have "?l ! r = r" using i by (cases "r = i") simp_all
    then show ?case by (rule reaches.Root)
  next
    case (Step j s)
    have p: "l ! j < length l" "d (l ! j) < d j" using rk Step.prems Step.hyps(1) by (auto simp: ranked_def)
    with Step.IH have IH: "reaches ?l (l ! j) s" by blast
    show ?case
    proof (cases "j = i")
      case False
      then have "?l ! j = l ! j" by simp
      then show ?thesis using reaches.Step[of ?l j s] Step.hyps(1) IH by simp
    next
      case True
      have "l ! (l ! i) \<noteq> i" using rk p Step.hyps(1) unfolding True ranked_def by (metis less_asym)
      moreover have "?l ! (l ! i) = l ! (l ! i)" using Step.hyps(1) True by simp
      then have "reaches ?l (l ! (l ! i)) s" using reaches_step[OF IH] True by simp
      ultimately show ?thesis using reaches.Step[of ?l i s] i True by simp
    qed
  qed
qed simp

text \<open>The search for a root ends, and changes no root.\<close>

lemma root_ends:
  assumes "ranked d l" and "i < length l"
  shows "\<exists>r l'. root l i = Some (r, l') \<and> reaches l i r \<and> ranked d l' \<and> same_roots l l'"
  using assms
proof (induction "d i" arbitrary: i l rule: less_induct)
  case less
  show ?case
  proof (cases "l ! i = i")
    case True
    then show ?thesis using less.prems by (auto simp: root.simps same_roots_def intro: reaches.Root)
  next
    case False
    let ?l = "l[i := l ! (l ! i)]" and ?j = "l ! (l ! i)"
    have b: "l ! i < length l" "d (l ! i) < d i" using less.prems False by (auto simp: ranked_def)
    then have j: "?j < length l" "d ?j < d i" using less.prems(1) unfolding ranked_def by (blast, metis less_trans)
    from less.hyps[OF j(2) halve_ranked[OF less.prems]] j(1)
    obtain r l' where r: "root ?l ?j = Some (r, l')" "reaches ?l ?j r" "ranked d l'" "same_roots ?l l'" by auto
    have same: "same_roots l ?l" by (rule halve_roots[OF less.prems])
    have "reaches l ?j r" using same r(2) j(1) by (simp add: same_roots_def)
    moreover have "reaches l i r" if "reaches l ?j r"
      using that reaches.intros False by (cases "l ! (l ! i) = l ! i") metis+
    moreover have "root l i = Some (r, l')" using r(1) False less.prems(2) by (subst root.simps) simp
    ultimately show ?thesis using r(3) same_roots_trans[OF same r(4)] by blast
  qed
qed

section \<open>Linking\<close>

definition same_root :: "nat list \<Rightarrow> nat \<Rightarrow> nat \<Rightarrow> bool" where
  "same_root l x y \<longleftrightarrow> (\<exists>r. reaches l x r \<and> reaches l y r)"

lemma hang_reaches:
  assumes a: "l ! a = a" and b: "l ! b = b" "a \<noteq> b" and len: "a < length l"
  shows "reaches l x s \<Longrightarrow> reaches (l[a := b]) x (if s = a then b else s)"
proof (induction rule: reaches.induct)
  case (Root r)
  have "reaches (l[a := b]) b b" using b by (simp add: reaches.Root)
  then have "reaches (l[a := b]) a b" using reaches.Step[of "l[a := b]" a b] b(2) len by simp
  moreover have "reaches (l[a := b]) r r" if "r \<noteq> a" using Root that by (simp add: reaches.Root)
  ultimately show ?case by simp
next
  case (Step x s)
  then have "x \<noteq> a" using a by auto
  then show ?case using Step reaches.Step[of "l[a := b]" x] by simp
qed

lemma hang_ranked:
  assumes rk: "ranked d l" and a: "l ! a = a" and b: "l ! b = b" "a \<noteq> b" "a < length l" "b < length l"
  shows "ranked (\<lambda>x. d x + (if reaches l x a then Suc (d b) else 0)) (l[a := b])"
proof -
  have "\<not> reaches l b a" using reaches_unique[OF reaches.Root[OF b(1)]] b(2) by metis
  moreover have "reaches l (l ! x) a \<longleftrightarrow> reaches l x a" if "l ! x \<noteq> x" for x
    using that reaches_step reaches.Step by metis
  ultimately show ?thesis using rk a b unfolding ranked_def by (auto simp: nth_list_update intro: reaches.Root)
qed

lemma link_ends:
  assumes rk: "ranked d l" and ij: "i < length l" "j < length l"
  shows "\<exists>d' l'. link i j l = Some l' \<and> ranked d' l' \<and> length l' = length l \<and>
    (\<forall>x<length l. \<forall>y<length l. same_root l' x y \<longleftrightarrow>
       same_root l x y \<or> same_root l x i \<and> same_root l y j \<or> same_root l x j \<and> same_root l y i)"
proof -
  obtain b l1 where 1: "root l j = Some (b, l1)" "reaches l j b" "ranked d l1" "same_roots l l1"
    using root_ends[OF rk ij(2)] by blast
  have "i < length l1" using 1(4) ij(1) by (simp add: same_roots_def)
  then obtain a l2 where 2: "root l1 i = Some (a, l2)" "reaches l1 i a" "ranked d l2" "same_roots l1 l2"
    using root_ends[OF 1(3)] by blast
  have s: "same_roots l l2" by (rule same_roots_trans[OF 1(4) 2(4)])
  have len: "length l2 = length l" using s by (simp add: same_roots_def)
  have re: "reaches l2 x r \<longleftrightarrow> reaches l x r" if "x < length l" for x r using s that by (simp add: same_roots_def)
  have ia: "reaches l i a" using 1(4) 2(2) ij(1) by (simp add: same_roots_def)
  have roots: "l2 ! a = a" "l2 ! b = b" using re ij ia 1(2) reaches_root by blast+
  have ab: "a < length l2" "b < length l2" using reaches_ex[OF 2(3)] re ia 1(2) ij reaches_unique len by metis+
  define f where "f r = (if r = a then b else r)" for r
  have re': "reaches (l2[a := b]) x (f r)" if "reaches l x r" "x < length l" for x r
  proof (cases "a = b")
    case True
    then have "l2[a := b] = l2" using roots by (metis list_update_id)
    then show ?thesis using that re True by (simp add: f_def)
  next
    case False
    then show ?thesis using hang_reaches[OF roots(1,2) False ab(1)] re that by (simp add: f_def)
  qed
  obtain d' where d': "ranked d' (l2[a := b])"
  proof (cases "a = b")
    case True
    then have "l2[a := b] = l2" using roots by (metis list_update_id)
    then show thesis using 2(3) by (intro that) simp
  next
    case False
    then show thesis by (intro that) (rule hang_ranked[OF 2(3) roots False ab])
  qed
  have "same_root (l2[a := b]) x y \<longleftrightarrow>
       same_root l x y \<or> same_root l x i \<and> same_root l y j \<or> same_root l x j \<and> same_root l y i"
    if xy: "x < length l" "y < length l" for x y
  proof -
    obtain r s where rs: "reaches l x r" "reaches l y s" using reaches_ex[OF rk] xy by blast
    have "same_root (l2[a := b]) x y \<longleftrightarrow> f r = f s"
      using re'[OF rs(1) xy(1)] re'[OF rs(2) xy(2)] reaches_unique unfolding same_root_def by metis
    moreover have "same_root l x y \<longleftrightarrow> r = s" "same_root l x i \<longleftrightarrow> r = a" "same_root l y i \<longleftrightarrow> s = a"
        "same_root l x j \<longleftrightarrow> r = b" "same_root l y j \<longleftrightarrow> s = b"
      using rs ia 1(2) reaches_unique unfolding same_root_def by metis+
    ultimately show ?thesis by (auto simp: f_def)
  qed
  moreover have "link i j l = Some (l2[a := b])" using 1(1) 2(1) by (simp add: link_def)
  ultimately show ?thesis using d' len by (intro exI[of _ d'] exI[of _ "l2[a := b]"]) simp
qed

text \<open>Two candidates belong together when a chain of links joins them.\<close>

definition linked :: "(nat \<times> nat) list \<Rightarrow> nat \<Rightarrow> nat \<Rightarrow> bool" where
  "linked es x y \<longleftrightarrow> (x, y) \<in> (set es \<union> (set es)\<inverse>)\<^sup>*"

lemma linked_refl [simp]: "linked es x x"
  by (simp add: linked_def)

lemma linked_trans: "linked es x y \<Longrightarrow> linked es y z \<Longrightarrow> linked es x z"
  unfolding linked_def by (rule rtrancl_trans)

lemma linked_sym: "linked es x y \<Longrightarrow> linked es y x"
  unfolding linked_def by (rule symD[OF sym_rtrancl]) (auto simp: sym_def)

lemma linked_edge: "(x, y) \<in> set es \<Longrightarrow> linked es x y"
  unfolding linked_def by blast

lemma linked_mono: "linked es x y \<Longrightarrow> linked (es @ es') x y"
  unfolding linked_def by (erule rtrancl_mono[THEN subsetD, rotated]) auto

lemma linked_snoc:
  "linked (es @ [(i, j)]) x y \<longleftrightarrow>
     linked es x y \<or> linked es x i \<and> linked es y j \<or> linked es x j \<and> linked es y i" (is "_ \<longleftrightarrow> ?R x y")
proof
  assume "linked (es @ [(i, j)]) x y"
  then have "(x, y) \<in> (set (es @ [(i, j)]) \<union> (set (es @ [(i, j)]))\<inverse>)\<^sup>*" by (simp add: linked_def)
  then show "?R x y"
  proof (induction rule: rtrancl_induct)
    case (step y z)
    then consider "linked es y z" | "y = i \<and> z = j" | "y = j \<and> z = i"
      using linked_edge linked_sym by fastforce
    then show ?case using step.IH linked_trans linked_sym linked_refl by cases metis+
  qed simp
next
  have new: "linked (es @ [(i, j)]) i j" by (rule linked_edge) simp
  assume "?R x y"
  then consider "linked es x y" | "linked es x i" "linked es y j" | "linked es x j" "linked es y i" by blast
  then show "linked (es @ [(i, j)]) x y"
  proof cases
    case 1
    then show ?thesis by (rule linked_mono)
  next
    case 2
    from linked_trans[OF linked_mono[OF 2(1)] linked_trans[OF new linked_mono[OF linked_sym[OF 2(2)]]]] show ?thesis .
  next
    case 3
    from linked_trans[OF linked_mono[OF 3(1)] linked_trans[OF linked_sym[OF new] linked_mono[OF linked_sym[OF 3(2)]]]]
    show ?thesis .
  qed
qed

lemma link_all_ends:
  assumes "ranked d l" and "length l = n" and "\<forall>(i, j)\<in>set es. i < n \<and> j < n"
    and "\<And>x y. x < n \<Longrightarrow> y < n \<Longrightarrow> same_root l x y \<longleftrightarrow> linked es0 x y"
  shows "\<exists>d' l'. link_all es l = Some l' \<and> ranked d' l' \<and> length l' = n \<and>
    (\<forall>x<n. \<forall>y<n. same_root l' x y \<longleftrightarrow> linked (es0 @ es) x y)"
  using assms
proof (induction es arbitrary: d l es0)
  case (Cons e es)
  obtain i j where e: "e = (i, j)" by (cases e)
  then have ij: "i < length l" "j < length l" using Cons.prems by auto
  obtain d1 l1 where 1: "link i j l = Some l1" "ranked d1 l1" "length l1 = n"
    "\<forall>x<n. \<forall>y<n. same_root l1 x y \<longleftrightarrow>
       same_root l x y \<or> same_root l x i \<and> same_root l y j \<or> same_root l x j \<and> same_root l y i"
    using link_ends[OF Cons.prems(1) ij] Cons.prems(2) by auto
  have "same_root l1 x y \<longleftrightarrow> linked (es0 @ [(i, j)]) x y" if "x < n" "y < n" for x y
    using 1(4) Cons.prems(2,4) ij that unfolding linked_snoc by simp
  moreover have "\<forall>(i, j)\<in>set es. i < n \<and> j < n" using Cons.prems(3) by simp
  ultimately have "\<exists>d' l'. link_all es l1 = Some l' \<and> ranked d' l' \<and> length l' = n \<and>
    (\<forall>x<n. \<forall>y<n. same_root l' x y \<longleftrightarrow> linked ((es0 @ [(i, j)]) @ es) x y)" by (rule Cons.IH[OF 1(2,3), rotated])
  moreover have "link_all (e # es) l = link_all es l1" by (simp add: e 1(1))
  ultimately show ?case by (simp only: append_assoc append_Cons append_Nil e)
qed auto

section \<open>The groups are the components\<close>

lemma dedup_snoc: "dedup (xs @ [x]) = (if x \<in> set xs then dedup xs else dedup xs @ [x])"
  by (induction xs) (auto simp: filter_empty_conv)

lemma add_to_group_step:
  "add_to_group (f i) i (map (\<lambda>r. (r, filter (\<lambda>i. f i = r) is)) (dedup (map f is))) =
   map (\<lambda>r. (r, filter (\<lambda>i. f i = r) (is @ [i]))) (dedup (map f (is @ [i])))"
proof (cases "f i \<in> set (map f is)")
  case True
  then have "list_ex (\<lambda>g. fst g = f i) (map (\<lambda>r. (r, filter (\<lambda>i. f i = r) is)) (dedup (map f is)))"
    by (auto simp: list_ex_iff)
  then show ?thesis using True by (auto simp: add_to_group_def update_where_def dedup_snoc)
next
  case False
  then have "\<not> list_ex (\<lambda>g. fst g = f i) (map (\<lambda>r. (r, filter (\<lambda>i. f i = r) is)) (dedup (map f is)))"
    "filter (\<lambda>j. f j = f i) is = []"
    by (auto simp: list_ex_iff filter_empty_conv image_iff)
  then show ?thesis using False by (auto simp: add_to_group_def dedup_snoc)
qed

lemma collect_ends:
  assumes "ranked d l" and "\<And>i. i < length l \<Longrightarrow> reaches l i (f i)" and "\<forall>i\<in>set js. i < length l"
  shows "collect l js (map (\<lambda>r. (r, filter (\<lambda>i. f i = r) is)) (dedup (map f is)))
    = Some (map (\<lambda>r. (r, filter (\<lambda>i. f i = r) (is @ js))) (dedup (map f (is @ js))))"
  using assms
proof (induction js arbitrary: l "is")
  case (Cons i js)
  have i: "i < length l" using Cons.prems(3) by simp
  obtain r l' where r: "root l i = Some (r, l')" "reaches l i r" "ranked d l'" "same_roots l l'"
    using root_ends[OF Cons.prems(1) i] by blast
  have f: "r = f i" by (rule reaches_unique[OF r(2) Cons.prems(2)[OF i]])
  have l': "\<And>i. i < length l' \<Longrightarrow> reaches l' i (f i)" "\<forall>i\<in>set js. i < length l'"
    using r(4) Cons.prems(2,3) by (auto simp: same_roots_def)
  from Cons.IH[OF r(3) l', of "is @ [i]"] show ?case
    by (simp add: r(1) f add_to_group_step[of f i "is", unfolded map_append append_assoc])
qed simp

definition component :: "candidate list \<Rightarrow> nat \<Rightarrow> nat list" where
  "component cs i = filter (linked (links cs) i) [0..<length cs]"

definition first_of_component :: "candidate list \<Rightarrow> nat \<Rightarrow> bool" where
  "first_of_component cs i \<longleftrightarrow> (\<forall>j<i. \<not> linked (links cs) j i)"

lemma dedup_upto:
  "dedup (map f [0..<n]) = map f (filter (\<lambda>i. \<forall>j<i. f j \<noteq> f i) [0..<n])" for n :: nat
proof (induction n)
  case (Suc n)
  have "f n \<in> set (map f [0..<n]) \<longleftrightarrow> \<not> (\<forall>j<n. f j \<noteq> f n)"
    unfolding set_map set_upt image_iff Ball_def[symmetric] by (metis atLeastLessThan_iff le0)
  then show ?case using Suc by (simp add: dedup_snoc)
qed simp

lemma position_of_bound: "position_of cs u = Some i \<Longrightarrow> i < length cs"
  by (auto simp: position_of_def split: if_splits dest!: find_Some_mem)

lemma links_bound: "\<forall>(i, j)\<in>set (links cs). i < length cs \<and> j < length cs"
  by (auto simp: links_def List.map_filter_def intro: position_of_bound)

lemma group_indices_eq:
  "group_indices cs = Some (map (component cs) (filter (first_of_component cs) [0..<length cs]))"
proof -
  let ?n = "length cs"
  have rk: "ranked id [0..<?n]" by (simp add: ranked_def)
  have "reaches [0..<?n] x r \<longleftrightarrow> r = x" if "x < ?n" for x r
  proof -
    have "reaches [0..<?n] x x" using that by (intro reaches.Root) simp
    then show ?thesis using reaches_unique by metis
  qed
  then have id: "same_root [0..<?n] x y \<longleftrightarrow> linked [] x y" if "x < ?n" "y < ?n" for x y
    using that by (auto simp: same_root_def linked_def)
  obtain d l where l: "link_all (links cs) [0..<?n] = Some l" "ranked d l" "length l = ?n"
    "\<forall>x<?n. \<forall>y<?n. same_root l x y \<longleftrightarrow> linked ([] @ links cs) x y"
    using link_all_ends[OF rk _ links_bound[of cs], of "[]"] id by auto
  define f where "f i = (THE r. reaches l i r)" for i
  have f: "reaches l i (f i)" if "i < length l" for i
    unfolding f_def using reaches_ex[OF l(2) that] reaches_unique by (metis theI)
  have eq: "f i = f j \<longleftrightarrow> linked (links cs) i j" if "i < ?n" "j < ?n" for i j
    using l(4) f that l(3) reaches_unique unfolding same_root_def by (metis append_Nil)
  have "collect l [0..<?n] [] = Some (map (\<lambda>r. (r, filter (\<lambda>i. f i = r) [0..<?n])) (dedup (map f [0..<?n])))"
    using collect_ends[of d l f "[0..<?n]" "[]"] l(2,3) f by simp
  then have "group_indices cs = Some (map (\<lambda>i. filter (\<lambda>j. f j = f i) [0..<?n])
      (filter (\<lambda>i. \<forall>j<i. f j \<noteq> f i) [0..<?n]))"
    by (simp add: group_indices_def l(1) dedup_upto comp_def)
  moreover have "filter (\<lambda>i. \<forall>j<i. f j \<noteq> f i) [0..<?n] = filter (first_of_component cs) [0..<?n]"
    by (rule filter_cong) (auto simp: first_of_component_def eq)
  moreover have "filter (\<lambda>j. f j = f i) [0..<?n] = component cs i" if "i < ?n" for i
    unfolding component_def by (rule filter_cong) (use that eq linked_sym in auto)
  ultimately show ?thesis by auto
qed

text \<open>C38: The groups of the union-find are exactly the components of the references: the computation ends with
  one group per component, in the order of their first candidates, each with all of its candidates in
  order, however the references run and in whatever order the paths were shortened.\<close>
theorem groups_are_components:
  "group_indices cs = Some (map (component cs) (filter (first_of_component cs) [0..<length cs]))"
  by (rule group_indices_eq)

section \<open>The choice\<close>

definition kept_group :: "candidate list \<Rightarrow> nat list \<Rightarrow> bool" where
  "kept_group cs g \<longleftrightarrow> (\<exists>i\<in>set g. ca_attachment (cs ! i) \<or> ca_catalog (cs ! i))"

lemma take_groups:
  assumes "0 < limit"
  shows "\<exists>T. subseq T gs \<and> tk_chosen (fold (take_group cs limit) gs no_taking) = concat T
    \<and> tk_ordinary (fold (take_group cs limit) gs no_taking) = int (length (concat (filter (\<lambda>g. \<not> kept_group cs g) T)))
    \<and> tk_ordinary (fold (take_group cs limit) gs no_taking) \<le> limit
    \<and> (\<forall>g\<in>set gs. g \<in> set T \<or> \<not> kept_group cs g
          \<and> limit < tk_ordinary (fold (take_group cs limit) gs no_taking) + int (length g))"
proof (induction gs rule: rev_induct)
  case Nil
  then show ?case using assms by (intro exI[of _ "[]"]) (simp add: no_taking_def)
next
  case (snoc g gs)
  let ?s = "fold (take_group cs limit) gs no_taking"
  obtain T where T: "subseq T gs" "tk_chosen ?s = concat T"
    "tk_ordinary ?s = int (length (concat (filter (\<lambda>g. \<not> kept_group cs g) T)))" "tk_ordinary ?s \<le> limit"
    "\<forall>g\<in>set gs. g \<in> set T \<or> \<not> kept_group cs g \<and> limit < tk_ordinary ?s + int (length g)"
    using snoc.IH by blast
  have kept: "kept_group cs g \<longleftrightarrow> list_ex (\<lambda>i. ca_attachment (cs ! i)) g \<or> list_ex (\<lambda>i. ca_catalog (cs ! i)) g"
    by (auto simp: kept_group_def list_ex_iff)
  have more: "subseq (T @ [g]) (gs @ [g])" "subseq T (gs @ [g])"
    using T(1) by (simp_all add: list_emb_append_mono subseq_rev_drop_many)
  show ?case
  proof (cases "kept_group cs g \<or> tk_ordinary ?s + int (length g) \<le> limit")
    case True
    then have "tk_chosen (take_group cs limit g ?s) = concat (T @ [g])"
      "tk_ordinary (take_group cs limit g ?s) = int (length (concat (filter (\<lambda>g. \<not> kept_group cs g) (T @ [g]))))"
      "tk_ordinary (take_group cs limit g ?s) \<le> limit" "tk_ordinary ?s \<le> tk_ordinary (take_group cs limit g ?s)"
      using T(2,3,4) by (auto simp: take_group_def kept)
    then show ?thesis using more(1) T(5) by (intro exI[of _ "T @ [g]"]) fastforce
  next
    case False
    then have "take_group cs limit g ?s = ?s\<lparr>tk_skipped := tk_skipped ?s + 1\<rparr>"
      by (auto simp: take_group_def kept)
    then show ?thesis using more(2) T False by (intro exI[of _ T]) fastforce
  qed
qed

lemma component_iff: "j \<in> set (component cs i) \<longleftrightarrow> j < length cs \<and> linked (links cs) i j"
  by (auto simp: component_def)

lemma component_eq: "linked (links cs) i j \<Longrightarrow> component cs i = component cs j"
  unfolding component_def by (rule filter_cong) (auto intro: linked_trans linked_sym)

lemma component_first:
  assumes "i < length cs"
  shows "\<exists>k<length cs. first_of_component cs k \<and> component cs k = component cs i"
proof -
  define k where "k = (LEAST k. linked (links cs) k i)"
  have k: "linked (links cs) k i" "k \<le> i" unfolding k_def by (rule LeastI, rule linked_refl) (rule Least_le, rule linked_refl)
  have "\<not> linked (links cs) j k" if "j < k" for j
    using not_less_Least[of j "\<lambda>k. linked (links cs) k i"] that linked_trans[OF _ k(1), of j] by (auto simp: k_def)
  then have "first_of_component cs k" by (simp add: first_of_component_def)
  moreover have "k < length cs" using k(2) assms by simp
  ultimately show ?thesis using component_eq[OF k(1)] by blast
qed

lemma groups_disjoint:
  "distinct (map (component cs) (filter (first_of_component cs) [0..<length cs]))"
  "\<lbrakk>first_of_component cs i; first_of_component cs j; x \<in> set (component cs i); x \<in> set (component cs j)\<rbrakk> \<Longrightarrow> i = j"
proof -
  show eq: "i = j" if "first_of_component cs i" "first_of_component cs j" "x \<in> set (component cs i)"
    "x \<in> set (component cs j)" for i j x
  proof -
    have "linked (links cs) i j" using that(3,4) linked_trans[OF _ linked_sym] by (auto simp: component_iff)
    then show ?thesis using that(1,2) linked_sym unfolding first_of_component_def by (metis nat_neq_iff)
  qed
  have "i \<in> set (component cs i)" if "i < length cs" for i using that by (simp add: component_iff)
  then show "distinct (map (component cs) (filter (first_of_component cs) [0..<length cs]))"
    using eq by (fastforce simp: distinct_map inj_on_def)
qed

text \<open>The choice after a reranking always ends, with candidates in their order, and takes the groups of
  references whole: all candidates that a chain of references joins are chosen or none. Groups with an
  attachment or a candidate of the catalogue are always chosen; the others together never exceed the
  limit, and no group that was left out would still have fitted.\<close>
theorem reranked_groups_are_whole:
  assumes limit: "0 < limit"
  shows "\<exists>s. select_reranked cs limit =
      Some (map (\<lambda>i. cs ! i) (filter (\<lambda>i. i \<in> set (tk_chosen s)) [0..<length cs]), Some s)
    \<and> (\<forall>i<length cs. \<forall>j<length cs. linked (links cs) i j \<longrightarrow> (i \<in> set (tk_chosen s) \<longleftrightarrow> j \<in> set (tk_chosen s)))
    \<and> (\<forall>i<length cs. kept_group cs (component cs i) \<longrightarrow> i \<in> set (tk_chosen s))
    \<and> int (length (filter (\<lambda>i. i \<in> set (tk_chosen s) \<and> \<not> kept_group cs (component cs i)) [0..<length cs])) = tk_ordinary s
    \<and> tk_ordinary s \<le> limit
    \<and> (\<forall>i<length cs. i \<notin> set (tk_chosen s) \<longrightarrow> limit < tk_ordinary s + int (length (component cs i)))"
proof -
  let ?gs = "map (component cs) (filter (first_of_component cs) [0..<length cs])"
  define s where "s = fold (take_group cs limit) ?gs no_taking"
  obtain T where T: "subseq T ?gs" "tk_chosen s = concat T"
    "tk_ordinary s = int (length (concat (filter (\<lambda>g. \<not> kept_group cs g) T)))" "tk_ordinary s \<le> limit"
    "\<forall>g\<in>set ?gs. g \<in> set T \<or> \<not> kept_group cs g \<and> limit < tk_ordinary s + int (length g)"
    using take_groups[OF limit, of ?gs cs] unfolding s_def by blast
  obtain N where N: "T = nths ?gs N" using T(1) by (auto simp: subseq_conv_nths)
  have sub: "set T \<subseteq> set ?gs" unfolding N by (rule set_nths_subset)
  have chosen: "i \<in> set (tk_chosen s) \<longleftrightarrow> component cs i \<in> set T" if i: "i < length cs" for i
  proof
    assume "i \<in> set (tk_chosen s)"
    then obtain g where g: "g \<in> set T" "i \<in> set g" using T(2) by auto
    then obtain k where "g = component cs k" using sub by auto
    then have "g = component cs i" using g(2) component_eq by (auto simp: component_iff)
    then show "component cs i \<in> set T" using g(1) by simp
  next
    assume "component cs i \<in> set T"
    moreover have "i \<in> set (component cs i)" using i by (simp add: component_iff)
    ultimately show "i \<in> set (tk_chosen s)" using T(2) by auto
  qed
  have gs: "component cs i \<in> set ?gs" if "i < length cs" for i
    using component_first[OF that] by (auto intro: image_eqI[OF sym])
  have "distinct (concat (filter (\<lambda>g. \<not> kept_group cs g) T))"
  proof (rule distinct_concat)
    show "distinct (filter (\<lambda>g. \<not> kept_group cs g) T)"
      unfolding N using distinct_nthsI[OF groups_disjoint(1)] by (rule distinct_filter)
    fix g assume "g \<in> set (filter (\<lambda>g. \<not> kept_group cs g) T)"
    then have "g \<in> set ?gs" using sub by auto
    then show "distinct g" by (auto simp: component_def)
  next
    fix g h assume "g \<in> set (filter (\<lambda>g. \<not> kept_group cs g) T)" "h \<in> set (filter (\<lambda>g. \<not> kept_group cs g) T)" "g \<noteq> h"
    then have "g \<in> set ?gs" "h \<in> set ?gs" using sub by auto
    then obtain i j where "g = component cs i" "h = component cs j" "first_of_component cs i" "first_of_component cs j"
      by auto
    moreover from this have "i \<noteq> j" using \<open>g \<noteq> h\<close> by auto
    ultimately show "set g \<inter> set h = {}" using groups_disjoint(2) by blast
  qed
  then have "length (concat (filter (\<lambda>g. \<not> kept_group cs g) T)) = card (set (concat (filter (\<lambda>g. \<not> kept_group cs g) T)))"
    by (simp only: distinct_card)
  also have "set (concat (filter (\<lambda>g. \<not> kept_group cs g) T)) =
      set (filter (\<lambda>i. i \<in> set (tk_chosen s) \<and> \<not> kept_group cs (component cs i)) [0..<length cs])" (is "?L = ?R")
  proof (intro equalityI subsetI)
    fix i assume "i \<in> ?L"
    then obtain g where g: "g \<in> set T" "\<not> kept_group cs g" "i \<in> set g" by auto
    then obtain k where "g = component cs k" using sub by auto
    then have "i < length cs" "g = component cs i" using g(3) component_eq by (auto simp: component_iff)
    then show "i \<in> ?R" using g chosen by simp
  next
    fix i assume "i \<in> ?R"
    then have "i < length cs" "component cs i \<in> set T" "\<not> kept_group cs (component cs i)" using chosen by auto
    moreover have "i \<in> set (component cs i)" using \<open>i < length cs\<close> by (simp add: component_iff)
    ultimately show "i \<in> ?L" by auto
  qed
  finally have ordinary: "int (length (filter (\<lambda>i. i \<in> set (tk_chosen s) \<and> \<not> kept_group cs (component cs i)) [0..<length cs]))
      = tk_ordinary s" using T(3) distinct_card[OF distinct_filter[OF distinct_upt], symmetric] by simp
  have left: "component cs i \<in> set T \<or> \<not> kept_group cs (component cs i) \<and> limit < tk_ordinary s + int (length (component cs i))"
    if "i < length cs" for i using T(5) gs[OF that] by blast
  have "select_reranked cs limit =
      Some (map (\<lambda>i. cs ! i) (filter (\<lambda>i. i \<in> set (tk_chosen s)) [0..<length cs]), Some s)"
    using limit by (simp add: select_reranked_def group_indices_eq s_def Let_def)
  then show ?thesis using T(4) ordinary chosen left component_eq by (intro exI[of _ s]) auto
qed

definition example_candidate :: "string \<Rightarrow> string \<Rightarrow> candidate" where
  "example_candidate u source =
     \<lparr>ca_uid = u, ca_marker = (if source = '''' then None else Some \<lparr>rm_from = source, rm_all = None\<rparr>),
      ca_attachment = False, ca_catalog = False\<rparr>"

theorem reranked_groups_are_whole_witness:
  "(\<exists>s. select_reranked [example_candidate ''a'' '''', example_candidate ''b'' '''', example_candidate ''c'' ''a''] 2 =
      Some ([example_candidate ''a'' '''', example_candidate ''c'' ''a''], Some s) \<and> tk_ordinary s \<le> 2)
   \<and> (0::int) < 2"
proof -
  let ?cs = "[example_candidate ''a'' '''', example_candidate ''b'' '''', example_candidate ''c'' ''a'']"
  obtain s where s: "select_reranked ?cs 2 =
      Some (map (\<lambda>i. ?cs ! i) (filter (\<lambda>i. i \<in> set (tk_chosen s)) [0..<length ?cs]), Some s)" "tk_ordinary s \<le> 2"
    using reranked_groups_are_whole[of 2 ?cs] by auto
  moreover have "map_option fst (select_reranked ?cs 2) = Some [example_candidate ''a'' '''', example_candidate ''c'' ''a'']"
    by code_simp
  ultimately show ?thesis by auto
qed

end
