(* ===== verification/CandidateBudget.thy ===== *)
theory CandidateBudget
  imports Prelude "HOL-Library.Sublist" "HOL-Library.AList" "HOL-Library.List_Lexorder" "HOL-Library.Char_ord"
begin

text \<open>The candidates a search hands to the reranking (\<open>rag_engine/retrieval/candidate_budget.py\<close>): the
  same text of the same artifact counts once, then every stage of the search has its share and the whole
  has a limit. The fields of a record that the code turns into text are strings here, with the empty
  string for what is missing; a dictionary is a list of pairs.\<close>

definition DEFAULT_FUSION_LIMIT :: int where "DEFAULT_FUSION_LIMIT = 1000"

record evidence =
  ev_chunk_uid :: string
  ev_id :: string
  ev_source :: string
  ev_run :: string
  ev_document :: string
  ev_recipe :: string
  ev_chunk_set :: string
  ev_artifact :: string
  ev_text :: string
  ev_refs :: "string list"
  ev_stage :: string

definition or_else :: "string \<Rightarrow> string \<Rightarrow> string" where
  "or_else a b = (if a = '''' then b else a)"

definition record_id :: "evidence \<Rightarrow> string" where
  "record_id r = or_else (ev_chunk_uid r) (ev_id r)"

definition artifact_key :: "evidence \<Rightarrow> string list" where
  "artifact_key r = [or_else (ev_document r) (ev_source r), ev_run r, ev_recipe r, ev_chunk_set r, ev_artifact r]"

text \<open>The records the text was taken from, when they are known, or the record itself.\<close>

definition source_of :: "evidence \<Rightarrow> string list" where
  "source_of r =
     (let refs = sort (dedup (filter (\<lambda>x. x \<noteq> '''') (ev_refs r)))
      in if refs \<noteq> [] \<and> (ev_run r \<noteq> '''' \<or> ev_chunk_set r \<noteq> '''') then refs else [record_id r])"

type_synonym text_key = "string list \<times> string list \<times> string"

definition text_key :: "evidence \<Rightarrow> text_key" where
  "text_key r = (artifact_key r, source_of r, strip (ev_text r))"

definition record_identity :: "evidence \<Rightarrow> string list \<times> string" where
  "record_identity r = (artifact_key r, record_id r)"

definition has_text :: "evidence \<Rightarrow> bool" where
  "has_text r = (strip (ev_text r) \<noteq> '''')"

datatype exclusion =
  DuplicateOriginal string string
| StageAdmissionBudget string string
| RerankInputBudget string

section \<open>The same text once\<close>

record duplicate_scan =
  sc_seen :: "(string list \<times> string) list"
  sc_originals :: "(text_key \<times> string) list"
  sc_unique :: "evidence list"
  sc_excluded :: "exclusion list"

definition scan_record :: "evidence \<Rightarrow> duplicate_scan \<Rightarrow> duplicate_scan" where
  "scan_record r s =
     (if record_identity r \<in> set (sc_seen s) \<or> has_text r \<and> map_of (sc_originals s) (text_key r) \<noteq> None
      then s\<lparr>sc_excluded := sc_excluded s @
             [DuplicateOriginal (record_id r)
                (case map_of (sc_originals s) (text_key r) of None \<Rightarrow> record_id r | Some u \<Rightarrow> u)]\<rparr>
      else s\<lparr>sc_seen := record_identity r # sc_seen s,
             sc_originals := (if has_text r then (text_key r, record_id r) # sc_originals s else sc_originals s),
             sc_unique := sc_unique s @ [r]\<rparr>)"

definition scan_records :: "evidence list \<Rightarrow> duplicate_scan" where
  "scan_records rs = fold scan_record rs \<lparr>sc_seen = [], sc_originals = [], sc_unique = [], sc_excluded = []\<rparr>"

section \<open>The shares of the stages\<close>

type_synonym stage_counts = "(string \<times> int) list"

definition count_of :: "stage_counts \<Rightarrow> string \<Rightarrow> int" where
  "count_of m k = (case map_of m k of None \<Rightarrow> 0 | Some v \<Rightarrow> v)"

definition stage_of :: "evidence \<Rightarrow> string" where
  "stage_of r = or_else (ev_stage r) ''fusion''"

record admission =
  ad_selected :: "evidence list"
  ad_admitted :: stage_counts
  ad_excluded :: "exclusion list"

definition admit_record :: "stage_counts \<Rightarrow> int \<Rightarrow> evidence \<Rightarrow> admission \<Rightarrow> admission" where
  "admit_record limits most r s =
     (if count_of limits (stage_of r) \<le> count_of (ad_admitted s) (stage_of r)
      then s\<lparr>ad_excluded := ad_excluded s @ [StageAdmissionBudget (record_id r) (stage_of r)]\<rparr>
      else if most \<le> int (length (ad_selected s))
      then s\<lparr>ad_excluded := ad_excluded s @ [RerankInputBudget (record_id r)]\<rparr>
      else s\<lparr>ad_selected := ad_selected s @ [r],
             ad_admitted := AList.update (stage_of r) (count_of (ad_admitted s) (stage_of r) + 1) (ad_admitted s)\<rparr>)"

definition effective_limit :: "int \<Rightarrow> stage_counts \<Rightarrow> int" where
  "effective_limit limit limits = (if 0 < limit then max 1 limit else sum_list (map snd limits))"

definition default_limits :: "stage_counts option \<Rightarrow> stage_counts" where
  "default_limits limits = (case limits of None \<Rightarrow> [(''fusion'', DEFAULT_FUSION_LIMIT)] | Some m \<Rightarrow> m)"

definition select_candidates :: "evidence list \<Rightarrow> int \<Rightarrow> stage_counts option \<Rightarrow> admission" where
  "select_candidates rs limit stage_limits =
     (let s = scan_records rs; limits = default_limits stage_limits
      in fold (admit_record limits (effective_limit limit limits)) (sc_unique s)
           \<lparr>ad_selected = [], ad_admitted = [], ad_excluded = sc_excluded s\<rparr>)"

text \<open>The shares by the settings: each stage that is turned on has the product of its own limits.\<close>

record retrieval_settings =
  rs_stage_limits :: stage_counts
  rs_candidate_limit :: int
  rs_screens :: "(int \<times> int) option"
  rs_articles :: "(int \<times> int \<times> int \<times> int) option"

definition stage_limits :: "retrieval_settings \<Rightarrow> evidence list \<Rightarrow> stage_counts" where
  "stage_limits st rs =
     (let m = rs_stage_limits st;
          m = (if map_of m ''fusion'' = None then AList.update ''fusion'' (max 1 (rs_candidate_limit st)) m else m);
          m = (case rs_screens st of None \<Rightarrow> m | Some (children, screens) \<Rightarrow> AList.update ''screen'' (children * screens) m);
          m = (case rs_articles st of None \<Rightarrow> m
               | Some (documents, scope, articles, refine) \<Rightarrow>
                   AList.update ''article'' (max 0 ((documents + scope) * (articles + refine))) m)
      in AList.update ''attachment'' (int (length (filter (\<lambda>r. ev_stage r = ''attachment'') rs))) m)"

section \<open>What is kept\<close>

text \<open>Two records that count as one.\<close>

definition same_original :: "evidence \<Rightarrow> evidence \<Rightarrow> bool" where
  "same_original q r \<longleftrightarrow> record_identity q = record_identity r \<or> has_text q \<and> has_text r \<and> text_key q = text_key r"

lemma same_original_refl [simp]: "same_original r r"
  by (simp add: same_original_def)

text \<open>No two records of a list count as one.\<close>

definition originals_only :: "evidence list \<Rightarrow> bool" where
  "originals_only rs \<longleftrightarrow> distinct (map record_identity rs) \<and> distinct (map text_key (filter has_text rs))"

lemma mem_image: "f r \<in> f ` S \<longleftrightarrow> (\<exists>q\<in>S. f q = f r)"
  by (simp add: image_iff) metis

lemma distinct_map_snoc: "distinct (map f (xs @ [x])) \<longleftrightarrow> distinct (map f xs) \<and> (\<forall>q\<in>set xs. f q \<noteq> f x)"
  using mem_image[of f x "set xs"] by simp

lemma originals_only_snoc:
  "originals_only (rs @ [r]) \<longleftrightarrow> originals_only rs \<and> (\<forall>q\<in>set rs. \<not> same_original q r)"
proof (cases "has_text r")
  case True
  then have f: "filter has_text (rs @ [r]) = filter has_text rs @ [r]" by simp
  show ?thesis unfolding originals_only_def same_original_def f distinct_map_snoc set_filter using True by blast
next
  case False
  then have f: "filter has_text (rs @ [r]) = filter has_text rs" by simp
  show ?thesis unfolding originals_only_def same_original_def f distinct_map_snoc set_filter using False by blast
qed

lemma subseq_distinct: "subseq xs ys \<Longrightarrow> distinct ys \<Longrightarrow> distinct xs"
  by (auto simp: subseq_conv_nths distinct_nthsI)

lemma originals_only_subseq: "subseq rs rs' \<Longrightarrow> originals_only rs' \<Longrightarrow> originals_only rs"
  unfolding originals_only_def
  by (elim conjE, intro conjI; erule subseq_distinct[rotated]; intro subseq_map subseq_filter)

definition start_scan :: duplicate_scan where
  "start_scan = \<lparr>sc_seen = [], sc_originals = [], sc_unique = [], sc_excluded = []\<rparr>"

lemma scan_fold: "scan_records rs = fold scan_record rs start_scan"
  by (simp add: scan_records_def start_scan_def)

lemma scan_memory:
  "set (sc_seen (scan_records rs)) = record_identity ` set (sc_unique (scan_records rs))"
  "map_of (sc_originals (scan_records rs)) k \<noteq> None \<longleftrightarrow> (\<exists>q\<in>set (sc_unique (scan_records rs)). has_text q \<and> text_key q = k)"
proof (induction rs rule: rev_induct)
  case Nil
  {
    case 1
    then show ?case by (simp add: scan_fold start_scan_def)
  next
    case 2
    then show ?case by (simp add: scan_fold start_scan_def)
  }
next
  case (snoc r rs)
  note IH = snoc
  {
    case 1
    then show ?case using IH by (simp add: scan_fold scan_record_def)
  next
    case 2
    show ?case
    proof (cases "record_identity r \<in> set (sc_seen (scan_records rs)) \<or> has_text r \<and> map_of (sc_originals (scan_records rs)) (text_key r) \<noteq> None")
      case True
      then have "scan_record r (scan_records rs) = (scan_records rs)\<lparr>sc_excluded := sc_excluded (scan_record r (scan_records rs))\<rparr>"
        by (simp add: scan_record_def)
      then have "sc_originals (scan_record r (scan_records rs)) = sc_originals (scan_records rs)"
        "sc_unique (scan_record r (scan_records rs)) = sc_unique (scan_records rs)"
        by (metis duplicate_scan.select_convs(2,3) duplicate_scan.surjective duplicate_scan.update_convs(4))+
      then show ?thesis using IH by (simp add: scan_fold)
    next
      case False
      then have "sc_originals (scan_record r (scan_records rs)) =
          (if has_text r then (text_key r, record_id r) # sc_originals (scan_records rs) else sc_originals (scan_records rs))"
        "sc_unique (scan_record r (scan_records rs)) = sc_unique (scan_records rs) @ [r]"
        by (simp_all add: scan_record_def)
      then show ?thesis using IH by (auto simp: scan_fold)
    qed
  }
qed

lemma scan_records_snoc:
  "sc_unique (scan_records (rs @ [r])) =
     (if \<exists>q\<in>set (sc_unique (scan_records rs)). same_original q r then sc_unique (scan_records rs)
      else sc_unique (scan_records rs) @ [r])"
  "length (sc_excluded (scan_records (rs @ [r]))) =
     length (sc_excluded (scan_records rs)) + (if \<exists>q\<in>set (sc_unique (scan_records rs)). same_original q r then 1 else 0)"
proof -
  have "record_identity r \<in> set (sc_seen (scan_records rs)) \<or> has_text r \<and> map_of (sc_originals (scan_records rs)) (text_key r) \<noteq> None
      \<longleftrightarrow> (\<exists>q\<in>set (sc_unique (scan_records rs)). same_original q r)"
    using scan_memory(2)[of rs "text_key r"] unfolding scan_memory(1) same_original_def mem_image by blast
  then show "sc_unique (scan_records (rs @ [r])) =
     (if \<exists>q\<in>set (sc_unique (scan_records rs)). same_original q r then sc_unique (scan_records rs)
      else sc_unique (scan_records rs) @ [r])"
    "length (sc_excluded (scan_records (rs @ [r]))) =
     length (sc_excluded (scan_records rs)) + (if \<exists>q\<in>set (sc_unique (scan_records rs)). same_original q r then 1 else 0)"
    by (simp_all add: scan_fold scan_record_def)
qed

lemma scan_empty: "sc_unique (scan_records []) = []" "sc_excluded (scan_records []) = []"
  by (simp_all add: scan_fold start_scan_def)

lemma scan_result:
  "subseq (sc_unique (scan_records rs)) rs \<and> originals_only (sc_unique (scan_records rs))
   \<and> length (sc_unique (scan_records rs)) + length (sc_excluded (scan_records rs)) = length rs
   \<and> (\<forall>r\<in>set rs. \<exists>q\<in>set (sc_unique (scan_records rs)). same_original q r)"
proof (induction rs rule: rev_induct)
  case (snoc r rs)
  then show ?case
    by (auto simp: scan_records_snoc originals_only_snoc subseq_rev_drop_many intro: list_emb_append_mono split: if_splits)
qed (simp add: scan_empty originals_only_def)

lemma scan_originals: "originals_only rs \<Longrightarrow> sc_unique (scan_records rs) = rs \<and> sc_excluded (scan_records rs) = []"
proof (induction rs rule: rev_induct)
  case (snoc r rs)
  then show ?case using scan_records_snoc[of rs r] by (auto simp: originals_only_snoc)
qed (simp add: scan_empty)

section \<open>What is admitted\<close>

definition in_stage :: "string \<Rightarrow> evidence list \<Rightarrow> int" where
  "in_stage k rs = int (length (filter (\<lambda>r. stage_of r = k) rs))"

lemma in_stage_snoc: "in_stage k (rs @ [r]) = in_stage k rs + (if stage_of r = k then 1 else 0)"
  by (simp add: in_stage_def)

lemma count_of_update: "count_of (AList.update k v m) j = (if j = k then v else count_of m j)"
  by (simp add: count_of_def update_conv')

definition admit_all :: "stage_counts \<Rightarrow> int \<Rightarrow> exclusion list \<Rightarrow> evidence list \<Rightarrow> admission" where
  "admit_all limits most es rs =
     fold (admit_record limits most) rs \<lparr>ad_selected = [], ad_admitted = [], ad_excluded = es\<rparr>"

lemma admit_all_simps:
  "admit_all limits most es [] = \<lparr>ad_selected = [], ad_admitted = [], ad_excluded = es\<rparr>"
  "admit_all limits most es (rs @ [r]) = admit_record limits most r (admit_all limits most es rs)"
  by (simp_all add: admit_all_def)

text \<open>A record without a place: its stage has its share, or the whole its limit.\<close>

definition no_place :: "stage_counts \<Rightarrow> int \<Rightarrow> evidence list \<Rightarrow> evidence \<Rightarrow> bool" where
  "no_place limits most selected r \<longleftrightarrow>
     count_of limits (stage_of r) \<le> in_stage (stage_of r) selected \<or> most \<le> int (length selected)"

lemma admit_counts: "count_of (ad_admitted (admit_all limits most es rs)) k = in_stage k (ad_selected (admit_all limits most es rs))"
proof (induction rs arbitrary: k rule: rev_induct)
  case Nil
  then show ?case by (simp add: admit_all_simps count_of_def in_stage_def)
next
  case (snoc r rs)
  then show ?case by (simp add: admit_all_simps admit_record_def count_of_update in_stage_snoc)
qed

lemma admit_step:
  "ad_selected (admit_all limits most es (rs @ [r])) =
     (if no_place limits most (ad_selected (admit_all limits most es rs)) r then ad_selected (admit_all limits most es rs)
      else ad_selected (admit_all limits most es rs) @ [r])"
  "length (ad_excluded (admit_all limits most es (rs @ [r]))) = length (ad_excluded (admit_all limits most es rs)) +
     (if no_place limits most (ad_selected (admit_all limits most es rs)) r then 1 else 0)"
  by (simp_all add: admit_all_simps admit_record_def no_place_def admit_counts)

lemma no_place_snoc: "no_place limits most s q \<Longrightarrow> no_place limits most (s @ [r]) q"
  by (auto simp: no_place_def in_stage_snoc)

lemma admit_result:
  fixes es :: "exclusion list" and limits :: stage_counts and most :: int
  defines "s \<equiv> \<lambda>rs. ad_selected (admit_all limits most es rs)"
  shows "subseq (s rs) rs \<and> length (s rs) + length (ad_excluded (admit_all limits most es rs)) = length rs + length es
    \<and> int (length (s rs)) \<le> max 0 most \<and> (\<forall>k. in_stage k (s rs) \<le> max 0 (count_of limits k))
    \<and> (\<forall>r\<in>set rs. r \<in> set (s rs) \<or> no_place limits most (s rs) r)"
proof (induction rs rule: rev_induct)
  case Nil
  then show ?case by (simp add: s_def admit_all_simps in_stage_def)
next
  case (snoc r rs)
  show ?case
  proof (cases "no_place limits most (s rs) r")
    case True
    then have "s (rs @ [r]) = s rs" by (simp add: s_def admit_step)
    then show ?thesis using snoc.IH True
      by (auto simp: s_def admit_step subseq_rev_drop_many)
  next
    case False
    then have n: "s (rs @ [r]) = s rs @ [r]" by (simp add: s_def admit_step)
    have "subseq (s rs @ [r]) (rs @ [r])" using snoc.IH by (simp add: list_emb_append_mono)
    moreover have "length (s rs @ [r]) + length (ad_excluded (admit_all limits most es (rs @ [r]))) = length (rs @ [r]) + length es"
      using snoc.IH False by (simp add: s_def admit_step)
    moreover have "int (length (s rs @ [r])) \<le> max 0 most" using False by (simp add: no_place_def)
    moreover have "in_stage k (s rs @ [r]) \<le> max 0 (count_of limits k)" for k
      using snoc.IH False by (auto simp: no_place_def in_stage_snoc)
    moreover have "q \<in> set (s rs @ [r]) \<or> no_place limits most (s rs @ [r]) q" if "q \<in> set (rs @ [r])" for q
      using snoc.IH that no_place_snoc by auto
    ultimately show ?thesis unfolding n by blast
  qed
qed

lemma admit_fitting:
  assumes "int (length rs) \<le> max 0 most" and "\<And>k. in_stage k rs \<le> max 0 (count_of limits k)"
  shows "ad_selected (admit_all limits most es rs) = rs \<and> ad_excluded (admit_all limits most es rs) = es"
  using assms
proof (induction rs rule: rev_induct)
  case (snoc r rs)
  have fit: "int (length rs) \<le> max 0 most" "in_stage k rs \<le> max 0 (count_of limits k)" for k
    using snoc.prems(1) snoc.prems(2)[of k] by (auto simp: in_stage_snoc split: if_splits)
  have IH: "ad_selected (admit_all limits most es rs) = rs" "ad_excluded (admit_all limits most es rs) = es"
    using snoc.IH[OF fit] by simp_all
  have "0 \<le> in_stage (stage_of r) rs" by (simp add: in_stage_def)
  then have "\<not> no_place limits most rs r"
    using snoc.prems(1) snoc.prems(2)[of "stage_of r"] by (auto simp: no_place_def in_stage_snoc max_def split: if_splits)
  then show ?case using IH by (simp add: admit_all_simps admit_record_def no_place_def admit_counts)
qed (simp add: admit_all_simps)

lemma select_candidates_eq:
  "select_candidates rs limit ls =
     admit_all (default_limits ls) (effective_limit limit (default_limits ls)) (sc_excluded (scan_records rs))
       (sc_unique (scan_records rs))"
  by (simp add: select_candidates_def admit_all_def Let_def)

text \<open>C39: The candidates for the reranking keep their order and hold nothing twice; every record is selected or
  reported as excluded; no stage exceeds its share and all together not the limit; and what is left out
  either counts as one with a record that was selected, or its original had no place when the selection was
  complete.\<close>
theorem candidates_within_budget:
  "let res = select_candidates rs limit ls; limits = default_limits ls; most = effective_limit limit limits
   in subseq (ad_selected res) rs \<and> originals_only (ad_selected res)
    \<and> length (ad_selected res) + length (ad_excluded res) = length rs
    \<and> int (length (ad_selected res)) \<le> max 0 most
    \<and> (\<forall>k. in_stage k (ad_selected res) \<le> max 0 (count_of limits k))
    \<and> (\<forall>r\<in>set rs. \<exists>q\<in>set rs. same_original q r \<and> (q \<in> set (ad_selected res) \<or> no_place limits most (ad_selected res) q))"
proof -
  let ?u = "sc_unique (scan_records rs)" and ?e = "sc_excluded (scan_records rs)"
  let ?l = "default_limits ls" and ?m = "effective_limit limit (default_limits ls)"
  let ?res = "select_candidates rs limit ls"
  note a = admit_result[of ?l ?m ?e ?u, folded select_candidates_eq] and u = scan_result[of rs]
  have "subseq (ad_selected ?res) rs" using a u subseq_order.order_trans by blast
  moreover have "originals_only (ad_selected ?res)" using a u originals_only_subseq by blast
  moreover have "length (ad_selected ?res) + length (ad_excluded ?res) = length rs" using a u by simp
  moreover have "\<exists>q\<in>set rs. same_original q r \<and> (q \<in> set (ad_selected ?res) \<or> no_place ?l ?m (ad_selected ?res) q)"
    if r: "r \<in> set rs" for r
  proof -
    obtain q where q: "q \<in> set ?u" "same_original q r" using u r by blast
    moreover have "q \<in> set rs" using u q(1) by (auto simp: subseq_conv_nths dest: in_set_nthsD)
    ultimately show ?thesis using a by blast
  qed
  ultimately show ?thesis using a unfolding Let_def by blast
qed

definition example_evidence :: "string \<Rightarrow> string \<Rightarrow> string \<Rightarrow> evidence" where
  "example_evidence u text stage =
     \<lparr>ev_chunk_uid = u, ev_id = '''', ev_source = ''d'', ev_run = ''run'', ev_document = '''', ev_recipe = '''',
      ev_chunk_set = '''', ev_artifact = '''', ev_text = text, ev_refs = [''row''], ev_stage = stage\<rparr>"

theorem candidates_within_budget_witness:
  "let rs = [example_evidence ''a'' ''x'' '''', example_evidence ''b'' ''x '' '''', example_evidence ''c'' ''y'' ''screen'',
             example_evidence ''e'' ''z'' '''']
   in map ev_chunk_uid (ad_selected (select_candidates rs 5 None)) = [''a'', ''e'']
      \<and> length (ad_selected (select_candidates rs 5 None)) + length (ad_excluded (select_candidates rs 5 None)) = 4"
proof -
  let ?rs = "[example_evidence ''a'' ''x'' '''', example_evidence ''b'' ''x '' '''', example_evidence ''c'' ''y'' ''screen'',
             example_evidence ''e'' ''z'' '''']"
  have "map ev_chunk_uid (ad_selected (select_candidates ?rs 5 None)) = [''a'', ''e'']" by code_simp
  moreover have "length (ad_selected (select_candidates ?rs 5 None)) + length (ad_excluded (select_candidates ?rs 5 None)) = length ?rs"
    using candidates_within_budget[of ?rs 5 None] unfolding Let_def by blast
  ultimately show ?thesis by (simp add: Let_def)
qed

text \<open>Choosing among the chosen changes nothing: the selection of a selection is itself, and excludes
  nothing.\<close>
theorem candidate_choice_is_stable:
  "ad_selected (select_candidates (ad_selected (select_candidates rs limit ls)) limit ls) = ad_selected (select_candidates rs limit ls)
   \<and> ad_excluded (select_candidates (ad_selected (select_candidates rs limit ls)) limit ls) = []"
proof -
  let ?s = "ad_selected (select_candidates rs limit ls)" and ?l = "default_limits ls" and ?m = "effective_limit limit (default_limits ls)"
  let ?u = "sc_unique (scan_records rs)" and ?e = "sc_excluded (scan_records rs)"
  have s: "?s = ad_selected (admit_all ?l ?m ?e ?u)" by (simp only: select_candidates_eq)
  note a = admit_result[of ?l ?m ?e ?u, folded s] and u = scan_result[of rs]
  have "originals_only ?s" using a u originals_only_subseq by blast
  then have "sc_unique (scan_records ?s) = ?s" "sc_excluded (scan_records ?s) = []" using scan_originals by blast+
  then show ?thesis using admit_fitting[of ?s ?m ?l "[]"] a by (simp add: select_candidates_eq[of ?s])
qed

end
