(* ===== verification/RankFusion.thy ===== *)
theory RankFusion
  imports Prelude "HOL-Library.AList" "HOL-Library.Multiset"
begin

text \<open>The fusion of the ranked lists of a search (\<open>rag_engine/retrieval/weighted_rrf.py\<close>): every list of chunks
  found by one method for one wording of the question adds to the score of a chunk by its rank, weighted
  by method and wording. The floats of the code are exact fractions here; the key of a query
  (Unicode normalisation, folding of case, spaces dropped) is an argument \<open>key\<close>.\<close>

section \<open>Weights\<close>

record rrf_weights =
  rw_vector :: rat
  rw_keyword :: rat
  rw_original :: rat
  rw_additional :: rat

datatype fusion_error =
  NegativeWeight | NoWeight | UnknownChannel | BadRankConstant | UnknownQuery | NativeCount | NativeScore

definition check_weights :: "rrf_weights \<Rightarrow> fusion_error option" where
  "check_weights w =
     (if rw_vector w < 0 \<or> rw_keyword w < 0 \<or> rw_original w < 0 \<or> rw_additional w < 0 then Some NegativeWeight
      else if rw_vector w + rw_keyword w \<le> 0 \<or> rw_original w + rw_additional w \<le> 0 then Some NoWeight
      else None)"

definition ratio :: "rat \<Rightarrow> rat \<Rightarrow> rat \<times> rat" where
  "ratio l r = (let s = max l r; a = l / s; b = r / s in (a / (a + b), b / (a + b)))"

definition channel_weight :: "rrf_weights \<Rightarrow> string \<Rightarrow> fusion_error + rat" where
  "channel_weight w name =
     (if name = ''hybrid'' then Inr 1
      else if name = ''vector'' then Inr (fst (ratio (rw_vector w) (rw_keyword w)))
      else if name = ''keyword'' then Inr (snd (ratio (rw_vector w) (rw_keyword w)))
      else Inl UnknownChannel)"

text \<open>The first wording of each key.\<close>

definition unique_step :: "(string \<Rightarrow> string) \<Rightarrow> string \<Rightarrow> (string \<times> string) list \<Rightarrow> (string \<times> string) list" where
  "unique_step key q sel = (if key q \<noteq> '''' \<and> map_of sel (key q) = None then sel @ [(key q, strip q)] else sel)"

definition unique_queries :: "(string \<Rightarrow> string) \<Rightarrow> string list \<Rightarrow> string list" where
  "unique_queries key qs = map snd (fold (unique_step key) qs [])"

definition source_weights :: "(string \<Rightarrow> string) \<Rightarrow> string list \<Rightarrow> rrf_weights \<Rightarrow> (string \<times> rat) list" where
  "source_weights key qs w =
     (case unique_queries key qs of
        [] \<Rightarrow> []
      | [q] \<Rightarrow> [(q, 1)]
      | q # rest \<Rightarrow> (case ratio (rw_original w) (rw_additional w) of
          (original, additional) \<Rightarrow> (q, original) # map (\<lambda>r. (r, additional / of_nat (length rest))) rest))"

section \<open>The fusion\<close>

datatype list_status = Failed | Completed | Empty

record ranked_list =
  rl_query :: string
  rl_channel :: string
  rl_variant :: string
  rl_chunks :: "string list"
  rl_failed :: bool
  rl_factor :: rat
  rl_native :: "rat list"

record executed_list =
  el_ranking :: ranked_list
  el_weight :: rat
  el_status :: list_status

record contribution =
  cn_chunk :: string
  cn_list :: nat
  cn_rank :: nat
  cn_value :: rat

record fusion =
  fu_scores :: "(string \<times> rat) list"
  fu_lists :: "executed_list list"
  fu_contributions :: "contribution list"
  fu_raw :: nat
  fu_identifiers :: "string set"

definition list_key :: "(string \<Rightarrow> string) \<Rightarrow> ranked_list \<Rightarrow> string \<times> string \<times> string" where
  "list_key key r = (key (rl_query r), rl_channel r, rl_variant r)"

fun index_of :: "'a \<Rightarrow> 'a list \<Rightarrow> nat" where
  "index_of x [] = 0"
| "index_of x (y # ys) = (if y = x then 0 else Suc (index_of x ys))"

definition contribution_value :: "rat \<Rightarrow> rat \<Rightarrow> ranked_list \<Rightarrow> nat \<Rightarrow> string \<Rightarrow> fusion_error + rat" where
  "contribution_value k weight r rank c =
     (if rl_native r \<noteq> [] then
        if length (rl_native r) \<noteq> length (rl_chunks r) then Inl NativeCount
        else let n = rl_native r ! index_of c (rl_chunks r)
             in if n < 0 then Inl NativeScore else Inr (weight * n)
      else Inr (weight / (k + of_nat rank)))"

fun add_chunks :: "rat \<Rightarrow> rat \<Rightarrow> ranked_list \<Rightarrow> nat \<Rightarrow> nat \<Rightarrow> string list \<Rightarrow> fusion \<Rightarrow> fusion_error + fusion" where
  "add_chunks k weight r i rank [] s = Inr s"
| "add_chunks k weight r i rank (c # cs) s =
     (case contribution_value k weight r rank c of
        Inl e \<Rightarrow> Inl e
      | Inr v \<Rightarrow> add_chunks k weight r i (Suc rank) cs
          (if weight = 0 then s
           else s\<lparr>fu_scores := AList.update c ((case map_of (fu_scores s) c of None \<Rightarrow> 0 | Some x \<Rightarrow> x) + v) (fu_scores s),
                  fu_contributions := fu_contributions s @
                    [\<lparr>cn_chunk = c, cn_list = i, cn_rank = rank, cn_value = v\<rparr>]\<rparr>))"

definition list_status_of :: "ranked_list \<Rightarrow> list_status" where
  "list_status_of r = (if rl_failed r then Failed else if rl_chunks r \<noteq> [] then Completed else Empty)"

definition list_weight ::
    "(string \<Rightarrow> string) \<Rightarrow> (string \<times> rat) list \<Rightarrow> rrf_weights \<Rightarrow> ranked_list \<Rightarrow> fusion_error + rat" where
  "list_weight key budgets w r =
     (case map_of budgets (key (rl_query r)) of
        None \<Rightarrow> Inl UnknownQuery
      | Some b \<Rightarrow> (case channel_weight w (rl_channel r) of Inl e \<Rightarrow> Inl e | Inr c \<Rightarrow> Inr (b * c * rl_factor r)))"

definition fuse_list ::
    "(string \<Rightarrow> string) \<Rightarrow> (string \<times> rat) list \<Rightarrow> rrf_weights \<Rightarrow> rat \<Rightarrow> ranked_list \<Rightarrow> fusion \<Rightarrow> fusion_error + fusion" where
  "fuse_list key budgets w k r s =
     (case list_weight key budgets w r of
        Inl e \<Rightarrow> Inl e
      | Inr weight \<Rightarrow>
          let i = length (fu_lists s);
              s = s\<lparr>fu_lists := fu_lists s @ [\<lparr>el_ranking = r, el_weight = weight, el_status = list_status_of r\<rparr>]\<rparr>
          in if rl_failed r then Inr s
             else add_chunks k weight r i 1 (dedup (rl_chunks r))
                    (s\<lparr>fu_raw := fu_raw s + length (rl_chunks r),
                       fu_identifiers := fu_identifiers s \<union> set (rl_chunks r)\<rparr>))"

fun fuse_lists ::
    "(string \<Rightarrow> string) \<Rightarrow> (string \<times> rat) list \<Rightarrow> rrf_weights \<Rightarrow> rat \<Rightarrow> (string \<times> string \<times> string) list \<Rightarrow> ranked_list list
     \<Rightarrow> fusion \<Rightarrow> fusion_error + fusion" where
  "fuse_lists key budgets w k seen [] s = Inr s"
| "fuse_lists key budgets w k seen (r # rs) s =
     (if list_key key r \<in> set seen then fuse_lists key budgets w k seen rs s
      else case fuse_list key budgets w k r s of
             Inl e \<Rightarrow> Inl e
           | Inr s \<Rightarrow> fuse_lists key budgets w k (list_key key r # seen) rs s)"

text \<open>A later wording with the same key replaces the weight of an earlier one.\<close>

definition budgets_of :: "(string \<Rightarrow> string) \<Rightarrow> (string \<times> rat) list \<Rightarrow> (string \<times> rat) list" where
  "budgets_of key sources = rev (map (\<lambda>(q, w). (key q, w)) sources)"

definition fuse_rankings ::
    "(string \<Rightarrow> string) \<Rightarrow> ranked_list list \<Rightarrow> (string \<times> rat) list \<Rightarrow> rrf_weights \<Rightarrow> rat \<Rightarrow> fusion_error + fusion" where
  "fuse_rankings key rs sources w k =
     (if k \<le> 0 then Inl BadRankConstant
      else fuse_lists key (budgets_of key sources) w k [] rs
        \<lparr>fu_scores = [], fu_lists = [], fu_contributions = [], fu_raw = 0, fu_identifiers = {}\<rparr>)"

datatype fusion_execution = NothingFused | NativeOnly | AdditionalToNative | OuterRrf

definition execution_of :: "(string \<Rightarrow> string) \<Rightarrow> (string \<times> rat) list \<Rightarrow> fusion \<Rightarrow> fusion_execution" where
  "execution_of key sources f =
     (let active = filter (\<lambda>e. el_status e = Completed \<and> 0 < el_weight e) (fu_lists f);
          original = key (case sources of [] \<Rightarrow> '''' | (q, _) # _ \<Rightarrow> q)
      in case active of
           [] \<Rightarrow> NothingFused
         | [e] \<Rightarrow> if rl_channel (el_ranking e) = ''hybrid'' \<and> rl_native (el_ranking e) \<noteq> []
                      \<and> key (rl_query (el_ranking e)) = original then NativeOnly
                   else if rl_native (el_ranking e) \<noteq> [] then AdditionalToNative else OuterRrf
         | _ \<Rightarrow> if list_ex (\<lambda>e. rl_native (el_ranking e) \<noteq> []) active then AdditionalToNative else OuterRrf)"

section \<open>The formula\<close>

text \<open>What a list adds to the score of a chunk: its weight over the constant plus the rank of the chunk, or its
  weight times the score the database computed.\<close>

definition list_value :: "rat \<Rightarrow> rat \<Rightarrow> ranked_list \<Rightarrow> string \<Rightarrow> rat" where
  "list_value k weight r c =
     (if rl_failed r \<or> weight = 0 \<or> c \<notin> set (rl_chunks r) then 0
      else if rl_native r \<noteq> [] then weight * rl_native r ! index_of c (rl_chunks r)
      else weight / (k + 1 + of_nat (index_of c (dedup (rl_chunks r)))))"

definition adds :: "rat \<Rightarrow> ranked_list \<Rightarrow> string \<Rightarrow> bool" where
  "adds weight r c \<longleftrightarrow> \<not> rl_failed r \<and> weight \<noteq> 0 \<and> c \<in> set (rl_chunks r)"

definition formula :: "rat \<Rightarrow> executed_list list \<Rightarrow> string \<Rightarrow> rat option" where
  "formula k es c =
     (if \<exists>e\<in>set es. adds (el_weight e) (el_ranking e) c
      then Some (sum_list (map (\<lambda>e. list_value k (el_weight e) (el_ranking e) c) es)) else None)"

lemma list_value_zero: "\<not> adds w r c \<Longrightarrow> list_value k w r c = 0"
  by (auto simp: list_value_def adds_def)

lemma formula_none: "formula k es c = None \<Longrightarrow> sum_list (map (\<lambda>e. list_value k (el_weight e) (el_ranking e) c) es) = 0"
proof -
  assume "formula k es c = None"
  then have "map (\<lambda>e. list_value k (el_weight e) (el_ranking e) c) es = map (\<lambda>_. 0) es"
    by (simp add: formula_def list_value_zero split: if_splits)
  then show ?thesis by (simp only: sum_list_0)
qed

lemma formula_snoc:
  "formula k (es @ [e]) c =
     (if adds (el_weight e) (el_ranking e) c
      then Some ((case formula k es c of None \<Rightarrow> 0 | Some x \<Rightarrow> x) + list_value k (el_weight e) (el_ranking e) c)
      else formula k es c)"
proof (cases "formula k es c")
  case None
  then show ?thesis using formula_none[OF None] by (auto simp: formula_def list_value_zero split: if_splits)
next
  case (Some x)
  then show ?thesis by (auto simp: formula_def list_value_zero split: if_splits)
qed

definition value_at :: "rat \<Rightarrow> rat \<Rightarrow> ranked_list \<Rightarrow> nat \<Rightarrow> string \<Rightarrow> rat" where
  "value_at k weight r rank c =
     (if rl_native r \<noteq> [] then weight * rl_native r ! index_of c (rl_chunks r) else weight / (k + of_nat rank))"

definition chunk_ok :: "ranked_list \<Rightarrow> string \<Rightarrow> bool" where
  "chunk_ok r c \<longleftrightarrow> rl_native r = [] \<or> length (rl_native r) = length (rl_chunks r) \<and> 0 \<le> rl_native r ! index_of c (rl_chunks r)"

lemma contribution_value_iff:
  "contribution_value k weight r rank c = (if chunk_ok r c then Inr (value_at k weight r rank c)
     else Inl (if length (rl_native r) \<noteq> length (rl_chunks r) then NativeCount else NativeScore))"
  by (auto simp: contribution_value_def chunk_ok_def value_at_def Let_def)

lemma map_of_update: "map_of (AList.update k v m) j = (if j = k then Some v else map_of m j)"
  by (simp add: update_conv')

lemma add_chunks_result:
  assumes "distinct cs"
  shows "case add_chunks k weight r i rank cs s of
      Inl e \<Rightarrow> \<not> list_all (chunk_ok r) cs
    | Inr s' \<Rightarrow> list_all (chunk_ok r) cs \<and> fu_lists s' = fu_lists s \<and> (\<forall>c. map_of (fu_scores s') c =
        (if weight \<noteq> 0 \<and> c \<in> set cs
         then Some ((case map_of (fu_scores s) c of None \<Rightarrow> 0 | Some x \<Rightarrow> x) + value_at k weight r (rank + index_of c cs) c)
         else map_of (fu_scores s) c))"
  using assms
proof (induction cs arbitrary: rank s)
  case (Cons c cs)
  show ?case
  proof (cases "chunk_ok r c")
    case True
    let ?s = "if weight = 0 then s
           else s\<lparr>fu_scores := AList.update c ((case map_of (fu_scores s) c of None \<Rightarrow> 0 | Some x \<Rightarrow> x)
                    + value_at k weight r rank c) (fu_scores s),
                  fu_contributions := fu_contributions s @
                    [\<lparr>cn_chunk = c, cn_list = i, cn_rank = rank, cn_value = value_at k weight r rank c\<rparr>]\<rparr>"
    have step: "add_chunks k weight r i rank (c # cs) s = add_chunks k weight r i (Suc rank) cs ?s"
      using True by (simp add: contribution_value_iff)
    have new: "c \<notin> set cs" "distinct cs" using Cons.prems by simp_all
    note IH = Cons.IH[OF new(2), where rank = "Suc rank" and s = ?s]
    have sc: "map_of (fu_scores ?s) j = (if weight \<noteq> 0 \<and> j = c
        then Some ((case map_of (fu_scores s) c of None \<Rightarrow> 0 | Some x \<Rightarrow> x) + value_at k weight r rank c)
        else map_of (fu_scores s) j)" for j by (simp add: map_of_update)
    have li: "fu_lists ?s = fu_lists s" by simp
    show ?thesis
    proof (cases "add_chunks k weight r i (Suc rank) cs ?s")
      case (Inl e)
      then show ?thesis using IH unfolding step by simp
    next
      case (Inr s')
      then show ?thesis using IH[unfolded Inr sum.case sc li] new(1) True unfolding step Inr sum.case by auto
    qed
  next
    case False
    then show ?thesis by (simp add: contribution_value_iff)
  qed
qed simp

definition ranking_ok :: "(string \<Rightarrow> string) \<Rightarrow> (string \<times> rat) list \<Rightarrow> rrf_weights \<Rightarrow> ranked_list \<Rightarrow> bool" where
  "ranking_ok key budgets w r \<longleftrightarrow>
     (\<exists>v. list_weight key budgets w r = Inr v) \<and> (rl_failed r \<or> list_all (chunk_ok r) (dedup (rl_chunks r)))"

definition executed :: "(string \<Rightarrow> string) \<Rightarrow> (string \<times> rat) list \<Rightarrow> rrf_weights \<Rightarrow> ranked_list \<Rightarrow> executed_list" where
  "executed key budgets w r =
     \<lparr>el_ranking = r, el_weight = (case list_weight key budgets w r of Inl e \<Rightarrow> 0 | Inr v \<Rightarrow> v), el_status = list_status_of r\<rparr>"

definition scores_ok :: "rat \<Rightarrow> fusion \<Rightarrow> bool" where
  "scores_ok k s \<longleftrightarrow> (\<forall>c. map_of (fu_scores s) c = formula k (fu_lists s) c)"

lemma value_at_list_value:
  assumes "adds weight r c"
  shows "value_at k weight r (Suc (index_of c (dedup (rl_chunks r)))) c = list_value k weight r c"
  using assms by (auto simp: value_at_def list_value_def adds_def add_ac)

lemma fuse_list_result:
  assumes "scores_ok k s"
  shows "case fuse_list key budgets w k r s of
      Inl e \<Rightarrow> \<not> ranking_ok key budgets w r
    | Inr s' \<Rightarrow> ranking_ok key budgets w r \<and> fu_lists s' = fu_lists s @ [executed key budgets w r] \<and> scores_ok k s'"
proof (cases "list_weight key budgets w r")
  case (Inl e)
  then show ?thesis by (simp add: fuse_list_def ranking_ok_def)
next
  case (Inr weight)
  let ?s = "s\<lparr>fu_lists := fu_lists s @ [executed key budgets w r]\<rparr>"
  have e: "el_weight (executed key budgets w r) = weight" "el_ranking (executed key budgets w r) = r"
    by (simp_all add: executed_def Inr)
  show ?thesis
  proof (cases "rl_failed r")
    case True
    then have "fuse_list key budgets w k r s = Inr ?s" by (simp add: fuse_list_def Inr executed_def Let_def)
    moreover have "scores_ok k ?s" using assms True by (simp add: scores_ok_def formula_snoc e adds_def)
    ultimately show ?thesis using True Inr by (simp add: ranking_ok_def)
  next
    case False
    let ?t = "?s\<lparr>fu_raw := fu_raw s + length (rl_chunks r), fu_identifiers := fu_identifiers s \<union> set (rl_chunks r)\<rparr>"
    have step: "fuse_list key budgets w k r s = add_chunks k weight r (length (fu_lists s)) 1 (dedup (rl_chunks r)) ?t"
      using False by (simp add: fuse_list_def Inr executed_def Let_def)
    note a = add_chunks_result[where cs = "dedup (rl_chunks r)" and k = k and weight = weight and r = r
        and i = "length (fu_lists s)" and rank = 1 and s = ?t, OF distinct_dedup]
    show ?thesis
    proof (cases "add_chunks k weight r (length (fu_lists s)) 1 (dedup (rl_chunks r)) ?t")
      case (Inl e)
      then show ?thesis using a False by (simp add: step ranking_ok_def)
    next
      case (Inr s')
      then have ok: "list_all (chunk_ok r) (dedup (rl_chunks r))" "fu_lists s' = fu_lists s @ [executed key budgets w r]"
        and sc: "\<And>c. map_of (fu_scores s') c =
          (if weight \<noteq> 0 \<and> c \<in> set (rl_chunks r)
           then Some ((case map_of (fu_scores s) c of None \<Rightarrow> 0 | Some x \<Rightarrow> x)
                  + value_at k weight r (Suc (index_of c (dedup (rl_chunks r)))) c)
           else map_of (fu_scores s) c)" using a by simp_all
      have "map_of (fu_scores s') c = formula k (fu_lists s') c" for c
        unfolding ok(2) formula_snoc e sc using assms value_at_list_value[of weight r c k] False
        by (auto simp: scores_ok_def adds_def)
      then show ?thesis using ok \<open>list_weight key budgets w r = Inr weight\<close> Inr by (simp add: step ranking_ok_def scores_ok_def)
    qed
  qed
qed

text \<open>The first list of every key is executed.\<close>

fun first_lists :: "(string \<Rightarrow> string) \<Rightarrow> (string \<times> string \<times> string) list \<Rightarrow> ranked_list list \<Rightarrow> ranked_list list" where
  "first_lists key seen [] = []"
| "first_lists key seen (r # rs) =
     (if list_key key r \<in> set seen then first_lists key seen rs else r # first_lists key (list_key key r # seen) rs)"

lemma fuse_lists_result:
  assumes "scores_ok k s"
  shows "case fuse_lists key budgets w k seen rs s of
      Inl e \<Rightarrow> \<not> list_all (ranking_ok key budgets w) (first_lists key seen rs)
    | Inr s' \<Rightarrow> list_all (ranking_ok key budgets w) (first_lists key seen rs)
        \<and> fu_lists s' = fu_lists s @ map (executed key budgets w) (first_lists key seen rs) \<and> scores_ok k s'"
  using assms
proof (induction rs arbitrary: s seen)
  case (Cons r rs)
  show ?case
  proof (cases "list_key key r \<in> set seen")
    case True
    then show ?thesis using Cons.IH[OF Cons.prems, of seen] by (simp split: sum.splits)
  next
    case False
    note f = fuse_list_result[OF Cons.prems, of key budgets w r]
    show ?thesis
    proof (cases "fuse_list key budgets w k r s")
      case (Inl e)
      then show ?thesis using f False by simp
    next
      case (Inr s1)
      then have "scores_ok k s1" "ranking_ok key budgets w r" "fu_lists s1 = fu_lists s @ [executed key budgets w r]"
        using f by simp_all
      then show ?thesis using Cons.IH[where s = s1 and seen = "list_key key r # seen"] False Inr by (simp split: sum.splits)
    qed
  qed
qed simp

lemma fuse_rankings_result:
  "case fuse_rankings key rs sources w k of
     Inl e \<Rightarrow> \<not> (0 < k \<and> list_all (ranking_ok key (budgets_of key sources) w) (first_lists key [] rs))
   | Inr f \<Rightarrow> 0 < k \<and> list_all (ranking_ok key (budgets_of key sources) w) (first_lists key [] rs)
       \<and> fu_lists f = map (executed key (budgets_of key sources) w) (first_lists key [] rs) \<and> scores_ok k f"
proof (cases "k \<le> 0")
  case True
  then show ?thesis by (simp add: fuse_rankings_def)
next
  case False
  let ?s = "\<lparr>fu_scores = [], fu_lists = [], fu_contributions = [], fu_raw = 0, fu_identifiers = {}\<rparr>"
  have "scores_ok k ?s" by (simp add: scores_ok_def formula_def)
  from fuse_lists_result[OF this, of key "budgets_of key sources" w "[]" rs] False show ?thesis
    by (simp add: fuse_rankings_def split: sum.splits)
qed

text \<open>C37: The fusion computes the reciprocal rank formula: it succeeds exactly when the constant is positive and
  every list it executes is well formed, it executes the first list of every wording, method and variant, and the
  score of a chunk is the sum over the executed lists of weight over constant plus rank, or of weight times
  the score of the database. A chunk that no list with weight holds has no score.\<close>
theorem fusion_computes_the_formula:
  "case fuse_rankings key rs sources w k of
     Inl e \<Rightarrow> \<not> (0 < k \<and> list_all (ranking_ok key (budgets_of key sources) w) (first_lists key [] rs))
   | Inr f \<Rightarrow> 0 < k \<and> list_all (ranking_ok key (budgets_of key sources) w) (first_lists key [] rs)
       \<and> fu_lists f = map (executed key (budgets_of key sources) w) (first_lists key [] rs)
       \<and> (\<forall>c. map_of (fu_scores f) c = formula k (fu_lists f) c)"
  using fuse_rankings_result[where key = key and rs = rs and sources = sources and w = w and k = k] by (simp add: scores_ok_def split: sum.splits)

section \<open>The order of the lists\<close>

lemma first_lists_distinct:
  "distinct (map (list_key key) rs) \<Longrightarrow> list_key key ` set rs \<inter> set seen = {} \<Longrightarrow> first_lists key seen rs = rs"
  by (induction rs arbitrary: seen) auto

lemma formula_mset: "mset es = mset es' \<Longrightarrow> formula k es c = formula k es' c"
proof -
  assume m: "mset es = mset es'"
  then have "set es = set es'" by (rule mset_eq_setD)
  moreover have "sum_list (map f es) = sum_list (map f es')" for f :: "executed_list \<Rightarrow> rat"
    using m by (metis mset_map sum_mset_sum_list)
  ultimately show ?thesis by (simp add: formula_def)
qed

text \<open>The order in which the lists arrive does not matter: for the same lists, each of its own wording, method
  and variant, in any order, the fusion succeeds or fails alike and gives every chunk the same score.\<close>
theorem fusion_ignores_the_order:
  assumes "mset rs' = mset rs" and "distinct (map (list_key key) rs)"
  shows "case (fuse_rankings key rs sources w k, fuse_rankings key rs' sources w k) of
      (Inr f, Inr f') \<Rightarrow> \<forall>c. map_of (fu_scores f') c = map_of (fu_scores f) c
    | (Inl e, Inl e') \<Rightarrow> True
    | _ \<Rightarrow> False"
proof -
  have "mset (map (list_key key) rs') = mset (map (list_key key) rs)" using assms(1) by (metis mset_map)
  then have "distinct (map (list_key key) rs')" using assms(2) mset_eq_imp_distinct_iff by blast
  then have f: "first_lists key [] rs' = rs'" "first_lists key [] rs = rs" using assms(2) first_lists_distinct by auto
  have ok: "list_all P rs' \<longleftrightarrow> list_all P rs" for P using mset_eq_setD[OF assms(1)] by (simp add: list_all_iff)
  have "formula k (map g rs') c = formula k (map g rs) c" for g c
    by (rule formula_mset) (metis assms(1) mset_map)
  then show ?thesis using fuse_rankings_result[where key = key and rs = rs and sources = sources and w = w and k = k] fuse_rankings_result[where key = key and rs = rs' and sources = sources and w = w and k = k]
    unfolding f ok by (auto simp: scores_ok_def split: sum.splits)
qed

definition example_list :: "string \<Rightarrow> string list \<Rightarrow> ranked_list" where
  "example_list channel cs =
     \<lparr>rl_query = ''q'', rl_channel = channel, rl_variant = '''', rl_chunks = cs, rl_failed = False, rl_factor = 1, rl_native = []\<rparr>"

definition example_weights :: rrf_weights where
  "example_weights = \<lparr>rw_vector = 3, rw_keyword = 1, rw_original = 7, rw_additional = 3\<rparr>"

theorem fusion_ignores_the_order_witness:
  "case (fuse_rankings id [example_list ''vector'' [''a'', ''b''], example_list ''keyword'' [''b'']] [(''q'', 1)] example_weights 60,
      fuse_rankings id [example_list ''keyword'' [''b''], example_list ''vector'' [''a'', ''b'']] [(''q'', 1)] example_weights 60) of
      (Inr f, Inr f') \<Rightarrow> map_of (fu_scores f') ''b'' = map_of (fu_scores f) ''b''
    | _ \<Rightarrow> False"
proof -
  let ?v = "example_list ''vector'' [''a'', ''b'']" and ?k = "example_list ''keyword'' [''b'']"
  have m: "mset [?k, ?v] = mset [?v, ?k]" by simp
  have d: "distinct (map (list_key id) [?v, ?k])" by (simp add: list_key_def example_list_def)
  have "\<not> isl (fuse_rankings id [?v, ?k] [(''q'', 1)] example_weights 60)" by code_simp
  with fusion_ignores_the_order[OF m d, of "[(''q'', 1)]" example_weights 60] show ?thesis
    by (auto split: sum.splits)
qed

section \<open>The weights\<close>

lemma ratio_sum:
  assumes "0 \<le> l" and "0 \<le> r" and "0 < l + r"
  shows "fst (ratio l r) + snd (ratio l r) = 1 \<and> 0 \<le> fst (ratio l r) \<and> 0 \<le> snd (ratio l r)"
proof -
  have s: "0 < max l r" using assms by (auto simp: max_def)
  then have "0 < l / max l r + r / max l r" using assms by (simp add: add_divide_distrib[symmetric])
  then show ?thesis using assms s by (simp add: ratio_def Let_def add_divide_distrib[symmetric] divide_nonneg_pos)
qed

text \<open>The weights are shares of one: with weights the settings accept, the wordings of a question share one
  among themselves and the two methods share one, none of them negative, however many wordings there are.\<close>
theorem weights_are_shares_of_one:
  assumes ok: "check_weights w = None" and some: "unique_queries key qs \<noteq> []"
  shows "sum_list (map snd (source_weights key qs w)) = 1
    \<and> list_all (\<lambda>(q, x). 0 \<le> x) (source_weights key qs w)
    \<and> map fst (source_weights key qs w) = unique_queries key qs
    \<and> (\<exists>v t. channel_weight w ''vector'' = Inr v \<and> channel_weight w ''keyword'' = Inr t \<and> v + t = 1 \<and> 0 \<le> v \<and> 0 \<le> t)"
proof -
  have o: "fst (ratio (rw_original w) (rw_additional w)) + snd (ratio (rw_original w) (rw_additional w)) = 1
      \<and> 0 \<le> fst (ratio (rw_original w) (rw_additional w)) \<and> 0 \<le> snd (ratio (rw_original w) (rw_additional w))"
    by (rule ratio_sum) (use ok in \<open>auto simp: check_weights_def not_le split: if_splits\<close>)
  have c: "fst (ratio (rw_vector w) (rw_keyword w)) + snd (ratio (rw_vector w) (rw_keyword w)) = 1
      \<and> 0 \<le> fst (ratio (rw_vector w) (rw_keyword w)) \<and> 0 \<le> snd (ratio (rw_vector w) (rw_keyword w))"
    by (rule ratio_sum) (use ok in \<open>auto simp: check_weights_def not_le split: if_splits\<close>)
  have "sum_list (map snd (source_weights key qs w)) = 1 \<and> list_all (\<lambda>(q, x). 0 \<le> x) (source_weights key qs w)
      \<and> map fst (source_weights key qs w) = unique_queries key qs"
  proof (cases "unique_queries key qs")
    case Nil
    with some show ?thesis by simp
  next
    case (Cons q rest)
    show ?thesis
    proof (cases rest)
      case Nil
      then show ?thesis using Cons by (simp add: source_weights_def)
    next
      case (Cons r rest')
      let ?a = "snd (ratio (rw_original w) (rw_additional w))"
      have s: "source_weights key qs w = (q, fst (ratio (rw_original w) (rw_additional w)))
          # map (\<lambda>r. (r, ?a / of_nat (length rest))) rest"
        using \<open>unique_queries key qs = q # rest\<close> Cons by (simp add: source_weights_def split: prod.splits)
      have "sum_list (map (\<lambda>r. ?a / of_nat (length rest)) rest) = ?a"
      proof -
        have "(of_nat (length rest) :: rat) \<noteq> 0" using Cons by simp
        then show ?thesis by (simp add: sum_list_triv)
      qed
      moreover have "0 \<le> ?a / of_nat (length rest)" using o by simp
      ultimately show ?thesis unfolding s using o \<open>unique_queries key qs = q # rest\<close>
        by (simp add: comp_def list_all_iff)
    qed
  qed
  moreover have "\<exists>v t. channel_weight w ''vector'' = Inr v \<and> channel_weight w ''keyword'' = Inr t \<and> v + t = 1 \<and> 0 \<le> v \<and> 0 \<le> t"
    using c by (simp add: channel_weight_def)
  ultimately show ?thesis by blast
qed

theorem weights_are_shares_of_one_witness:
  "sum_list (map snd (source_weights id [''a'', ''b'', ''c'', ''a''] example_weights)) = 1
   \<and> map fst (source_weights id [''a'', ''b'', ''c'', ''a''] example_weights) = [''a'', ''b'', ''c'']"
proof -
  have "check_weights example_weights = None" by (simp add: check_weights_def example_weights_def)
  moreover have u: "unique_queries id [''a'', ''b'', ''c'', ''a''] = [''a'', ''b'', ''c'']" by code_simp
  ultimately show ?thesis using weights_are_shares_of_one[of example_weights id "[''a'', ''b'', ''c'', ''a'']"] by simp
qed

end
