(* ===== verification/SqlLexing.thy ===== *)
theory SqlLexing
  imports Prelude
begin

text \<open>The lexing of a statement for Oracle (\<open>nl2sql/sql_lexing.py\<close>): it keeps quotations and comments apart
  from code, so that the final semicolons can be dropped, \<open>q\<close> quotations rewritten for the parser and the
  clock functions replaced, without touching a literal or a comment. A text is a list of code points. What
  Python says of the letters, digits and spaces beyond ASCII is an argument (\<open>unicode\<close>).\<close>

type_synonym points = "nat list"

record unicode =
  wide_alnum :: "nat \<Rightarrow> bool"
  wide_space :: "nat \<Rightarrow> bool"

definition chars :: "string \<Rightarrow> points" where
  "chars s = map of_char s"

definition alnum :: "unicode \<Rightarrow> nat \<Rightarrow> bool" where
  "alnum u c = (48 \<le> c \<and> c \<le> 57 \<or> 65 \<le> c \<and> c \<le> 90 \<or> 97 \<le> c \<and> c \<le> 122 \<or> 128 \<le> c \<and> wide_alnum u c)"

definition space :: "unicode \<Rightarrow> nat \<Rightarrow> bool" where
  "space u c = (9 \<le> c \<and> c \<le> 13 \<or> 28 \<le> c \<and> c \<le> 32 \<or> 128 \<le> c \<and> wide_space u c)"

definition starts :: "points \<Rightarrow> points \<Rightarrow> bool" where
  "starts p s = (take (length p) s = p)"

text \<open>The offset of the first occurrence.\<close>

fun find_text :: "points \<Rightarrow> points \<Rightarrow> nat option" where
  "find_text p [] = (if p = [] then Some 0 else None)"
| "find_text p (c # cs) = (if starts p (c # cs) then Some 0 else map_option Suc (find_text p cs))"

section \<open>Tokens\<close>

datatype kind = Comment | Invalid | QuoteQ | QuoteNQ | Quoted | Code

text \<open>After the opening quote: how much belongs to the quotation, its end included; a doubled quote stands for
  one.\<close>

fun quoted_length :: "nat \<Rightarrow> points \<Rightarrow> nat option" where
  "quoted_length q [] = None"
| "quoted_length q [c] = (if c = q then Some 1 else None)"
| "quoted_length q (c # d # cs) =
     (if c \<noteq> q then map_option Suc (quoted_length q (d # cs))
      else if d = q then map_option (\<lambda>n. n + 2) (quoted_length q cs)
      else Some 1)"

definition q_closer :: "nat \<Rightarrow> nat" where
  "q_closer c = (if c = 91 then 93 else if c = 40 then 41 else if c = 123 then 125 else if c = 60 then 62 else c)"

text \<open>The characters an identifier may end with: a \<open>q\<close> after one of them opens nothing.\<close>

definition word_end :: "unicode \<Rightarrow> nat option \<Rightarrow> bool" where
  "word_end u prev = (case prev of None \<Rightarrow> False | Some c \<Rightarrow> alnum u c \<or> c = 95 \<or> c = 36 \<or> c = 35)"

definition is_q :: "nat \<Rightarrow> bool" where "is_q c = (c = 113 \<or> c = 81)"

definition is_n :: "nat \<Rightarrow> bool" where "is_n c = (c = 110 \<or> c = 78)"

definition q_prefix :: "unicode \<Rightarrow> nat option \<Rightarrow> points \<Rightarrow> nat" where
  "q_prefix u prev s =
     (if word_end u prev then 0
      else case s of
        a # b # cs \<Rightarrow>
          if is_q a \<and> b = 39 then 2
          else (case cs of c # _ \<Rightarrow> if is_n a \<and> is_q b \<and> c = 39 then 3 else 0 | [] \<Rightarrow> 0)
      | _ \<Rightarrow> 0)"

definition next_token :: "unicode \<Rightarrow> nat option \<Rightarrow> points \<Rightarrow> kind \<times> nat" where
  "next_token u prev s =
     (if starts (chars ''--'') s then
        (Comment, case find_text [10] (drop 2 s) of None \<Rightarrow> length s | Some i \<Rightarrow> i + 2)
      else if starts (chars ''/*'') s then
        (case find_text (chars ''*/'') (drop 2 s) of None \<Rightarrow> (Invalid, length s) | Some i \<Rightarrow> (Comment, i + 4))
      else
        let p = q_prefix u prev s
        in if p \<noteq> 0 \<and> p < length s then
             (case find_text [q_closer (s ! p), 39] (drop (p + 1) s) of
                None \<Rightarrow> (Invalid, length s)
              | Some i \<Rightarrow> if space u (s ! p) then (Invalid, length s)
                          else (if p = 3 then QuoteNQ else QuoteQ, p + 1 + i + 2))
           else if hd s = 39 \<or> hd s = 34 then
             (case quoted_length (hd s) (tl s) of None \<Rightarrow> (Invalid, length s) | Some n \<Rightarrow> (Quoted, n + 1))
           else (Code, 1))"

lemma next_token_pos: "s \<noteq> [] \<Longrightarrow> 0 < snd (next_token u prev s)"
  by (auto simp: next_token_def Let_def chars_def starts_def split: option.splits)

function tokens :: "unicode \<Rightarrow> nat option \<Rightarrow> points \<Rightarrow> (kind \<times> points) list" where
  "tokens u prev s =
     (if s = [] then []
      else let k = fst (next_token u prev s); n = snd (next_token u prev s)
           in if k = Invalid then [(Invalid, s)]
              else (k, take n s) # tokens u (Some (last (take n s))) (drop n s))"
  by pat_completeness auto
termination
  by (relation "measure (\<lambda>(u, prev, s). length s)") (simp_all add: next_token_pos)

declare tokens.simps [simp del]

section \<open>Queries\<close>

definition blank :: "unicode \<Rightarrow> points \<Rightarrow> bool" where
  "blank u s = list_all (space u) s"

definition strip_points :: "unicode \<Rightarrow> points \<Rightarrow> points" where
  "strip_points u s = rev (dropWhile (space u) (rev (dropWhile (space u) s)))"

text \<open>From the end: the semicolons before any other code are emptied.\<close>

fun drop_final :: "unicode \<Rightarrow> (kind \<times> points) list \<Rightarrow> (kind \<times> points) list" where
  "drop_final u [] = []"
| "drop_final u ((k, t) # ts) =
     (if k = Comment \<or> blank u t then (k, t) # drop_final u ts
      else if (k, t) = (Code, chars '';'') then (Code, []) # drop_final u ts
      else (k, t) # ts)"

definition double_quotes :: "points \<Rightarrow> points" where
  "double_quotes v = concat (map (\<lambda>c. if c = 39 then [39, 39] else [c]) v)"

definition parser_text :: "kind \<Rightarrow> points \<Rightarrow> points" where
  "parser_text k t =
     (if k = QuoteQ \<or> k = QuoteNQ then
        let p = (if k = QuoteNQ then 4 else 3)
        in (if k = QuoteNQ then chars ''N'' else []) @ [39] @ double_quotes (take (length t - 2 - p) (drop p t)) @ [39]
      else t)"

definition prepare_oracle_query :: "unicode \<Rightarrow> bool \<Rightarrow> points \<Rightarrow> points" where
  "prepare_oracle_query u for_parser s =
     strip_points u (concat (map (\<lambda>(k, t). if for_parser then parser_text k t else t)
       (rev (drop_final u (rev (tokens u None s))))))"

section \<open>The clock of the session\<close>

text \<open>The case an expression that ignores case sees: beyond ASCII, the long s counts as S, and the i with and
  the one without a dot as I.\<close>

definition fold_case :: "nat \<Rightarrow> nat" where
  "fold_case c = (if 97 \<le> c \<and> c \<le> 122 then c - 32 else if c = 383 then 83 else if c = 304 \<or> c = 305 then 73 else c)"

definition word_before :: "unicode \<Rightarrow> nat option \<Rightarrow> bool" where
  "word_before u prev = (case prev of None \<Rightarrow> False | Some c \<Rightarrow> alnum u c \<or> c = 95 \<or> c = 36 \<or> c = 35 \<or> c = 46 \<or> c = 64)"

definition word_after :: "unicode \<Rightarrow> points \<Rightarrow> bool" where
  "word_after u s = (case s of [] \<Rightarrow> False | c # _ \<Rightarrow> alnum u c \<or> c = 95 \<or> c = 36 \<or> c = 35 \<or> c = 64)"

definition word_matches :: "unicode \<Rightarrow> points \<Rightarrow> points \<Rightarrow> bool" where
  "word_matches u w s = (map fold_case (take (length w) s) = w \<and> \<not> word_after u (drop (length w) s))"

text \<open>The word at this place and what it is replaced by.\<close>

definition clock_word :: "unicode \<Rightarrow> nat option \<Rightarrow> points \<Rightarrow> (points \<times> points) option" where
  "clock_word u prev s =
     (if word_before u prev then None
      else if word_matches u (chars ''SYSDATE'') s then Some (take 7 s, chars ''CURRENT_DATE'')
      else if word_matches u (chars ''SYSTIMESTAMP'') s then Some (take 12 s, chars ''CURRENT_TIMESTAMP'')
      else None)"

text \<open>The replacement is looked up under the upper case of the word found. The i with a dot is its own upper
  case, so that the lookup raises: no result.\<close>

lemma clock_word_length: "clock_word u prev s = Some (w, r) \<Longrightarrow> s = w @ drop (length w) s \<and> w \<noteq> []"
proof -
  assume a: "clock_word u prev s = Some (w, r)"
  have ne: "s \<noteq> []" if "word_matches u (chars (CHR ''S'' # x)) s" for x
    using that by (auto simp: word_matches_def chars_def)
  from a obtain k where k: "w = take k s" "0 < k" "s \<noteq> []"
    unfolding clock_word_def
    by (cases "word_before u prev"; cases "word_matches u (chars ''SYSDATE'') s"; cases "word_matches u (chars ''SYSTIMESTAMP'') s")
      (auto dest: ne)
  have "s = take k s @ drop (length (take k s)) s" by (cases "k \<le> length s") simp_all
  with k show ?thesis by auto
qed

function clock_sub :: "unicode \<Rightarrow> nat option \<Rightarrow> points \<Rightarrow> points option" where
  "clock_sub u prev s =
     (if s = [] then Some []
      else case clock_word u prev s of
        Some (w, r) \<Rightarrow>
          if 304 \<in> set w then None else map_option ((@) r) (clock_sub u (Some (last w)) (drop (length w) s))
      | None \<Rightarrow> map_option ((#) (hd s)) (clock_sub u (Some (hd s)) (tl s)))"
  by pat_completeness auto
termination
  by (relation "measure (\<lambda>(u, prev, s). length s)") (use clock_word_length in fastforce)+

declare clock_sub.simps [simp del]

fun session_parts :: "unicode \<Rightarrow> points \<Rightarrow> (kind \<times> points) list \<Rightarrow> points option" where
  "session_parts u code [] = clock_sub u None code"
| "session_parts u code ((k, t) # ts) =
     (if k = Code then session_parts u (code @ t) ts
      else (case clock_sub u None code of
              None \<Rightarrow> None
            | Some a \<Rightarrow> map_option (\<lambda>b. a @ t @ b) (session_parts u [] ts)))"

definition use_session_current_datetime :: "unicode \<Rightarrow> points \<Rightarrow> points option" where
  "use_session_current_datetime u s = session_parts u [] (tokens u None s)"

section \<open>Nothing is lost\<close>

lemma tokens_step:
  "s \<noteq> [] \<Longrightarrow> next_token u prev s = (k, n) \<Longrightarrow> k \<noteq> Invalid \<Longrightarrow>
   tokens u prev s = (k, take n s) # tokens u (Some (last (take n s))) (drop n s)"
  by (subst tokens.simps) (simp add: Let_def)

lemma tokens_invalid: "s \<noteq> [] \<Longrightarrow> fst (next_token u prev s) = Invalid \<Longrightarrow> tokens u prev s = [(Invalid, s)]"
  by (subst tokens.simps) (simp add: Let_def)

lemma tokens_nil [simp]: "tokens u prev [] = []"
  by (simp add: tokens.simps)

lemma tokens_concat: "concat (map snd (tokens u prev s)) = s \<and> list_all (\<lambda>(k, t). t \<noteq> []) (tokens u prev s)"
proof (induction u prev s rule: tokens.induct)
  case (1 u prev s)
  show ?case
  proof (cases "s = [] \<or> fst (next_token u prev s) = Invalid")
    case True
    then show ?thesis using tokens_invalid[of s u prev] by (cases "s = []") auto
  next
    case False
    obtain k n where kn: "next_token u prev s = (k, n)" by fastforce
    have "0 < n" using next_token_pos[of s u prev] False kn by simp
    then show ?thesis using "1.IH"[OF _ refl refl] False kn tokens_step[of s u prev k n] by auto
  qed
qed

text \<open>The lexing loses nothing: the texts of the tokens, put together, are the statement, none of them is
  empty, and it always ends.\<close>
theorem lexing_loses_nothing:
  "concat (map snd (tokens u None s)) = s \<and> list_all (\<lambda>(k, t). t \<noteq> []) (tokens u None s)"
  by (rule tokens_concat)

section \<open>The q quotations\<close>

lemma find_text_Some:
  "find_text p xs = Some i \<Longrightarrow> xs = take i xs @ p @ drop (i + length p) xs \<and> i + length p \<le> length xs"
proof (induction xs arbitrary: i)
  case (Cons c cs)
  show ?case
  proof (cases "starts p (c # cs)")
    case True
    then have "i = 0" "take (length p) (c # cs) = p" using Cons.prems by (simp_all add: starts_def)
    moreover from this(2) have "length p \<le> length (c # cs)" by (metis length_take min.cobounded1)
    ultimately show ?thesis by (metis add_0 append_Nil append_take_drop_id take0)
  next
    case False
    then obtain j where "find_text p cs = Some j" "i = Suc j" using Cons.prems by auto
    then show ?thesis using Cons.IH[of j] by simp
  qed
qed (auto split: if_splits)

lemma q_token:
  assumes "next_token u prev s = (k, n)" and "k = QuoteQ \<or> k = QuoteNQ"
  shows "\<exists>pre c v rest. s = pre @ [39, c] @ v @ [q_closer c, 39] @ rest \<and> length pre = (if k = QuoteNQ then 2 else 1)
    \<and> n = length pre + 4 + length v"
proof -
  let ?p = "q_prefix u prev s"
  have p: "?p \<noteq> 0" "?p < length s" and
    f: "\<exists>i. find_text [q_closer (s ! ?p), 39] (drop (?p + 1) s) = Some i \<and> n = ?p + 1 + i + 2 \<and> k = (if ?p = 3 then QuoteNQ else QuoteQ)"
    using assms by (auto simp: next_token_def Let_def split: if_splits option.splits)
  obtain i where i: "find_text [q_closer (s ! ?p), 39] (drop (?p + 1) s) = Some i" "n = ?p + 1 + i + 2"
    "k = (if ?p = 3 then QuoteNQ else QuoteQ)" using f by blast
  have "?p = 2 \<and> (\<exists>a cs. s = [a] @ 39 # cs) \<or> ?p = 3 \<and> (\<exists>a b cs. s = [a, b] @ 39 # cs)"
    using p(1) by (auto simp: q_prefix_def split: if_splits list.splits)
  then obtain pre cs where pre: "s = pre @ 39 # cs" "length pre = ?p - 1" "?p = 2 \<or> ?p = 3" by fastforce
  then obtain c ds where c: "cs = c # ds" using p(2) by (cases cs) auto
  have idx: "s ! ?p = c" "drop (?p + 1) s = ds" using pre c by (auto simp: nth_append)
  note d = find_text_Some[OF i(1)[unfolded idx]]
  then have "ds = take i ds @ [q_closer c, 39] @ drop (i + 2) ds" "i \<le> length ds" by simp_all
  then show ?thesis using pre c i(2,3) by (intro exI[of _ pre] exI[of _ c] exI[of _ "take i ds"] exI[of _ "drop (i + 2) ds"]) auto
qed

fun undouble :: "points \<Rightarrow> points" where
  "undouble (a # b # cs) = (if a = 39 \<and> b = 39 then 39 # undouble cs else a # undouble (b # cs))"
| "undouble cs = cs"

lemma undouble_double: "undouble (double_quotes v) = v"
proof (induction v rule: induct_list012)
  case (3 a b cs)
  then show ?case by (cases "a = 39"; cases "b = 39") (auto simp: double_quotes_def)
qed (auto simp: double_quotes_def)

lemma quoted_double: "quoted_length 39 (double_quotes v @ [39]) = Some (length (double_quotes v) + 1)"
proof (induction v)
  case (Cons c v)
  have "\<exists>d ds. double_quotes v @ [39] = d # ds" by (cases "double_quotes v") auto
  then obtain d ds where d: "double_quotes v @ [39] = d # ds" by blast
  then show ?case using Cons by (cases "c = 39") (auto simp: double_quotes_def)
qed (simp add: double_quotes_def)

lemma q_prefix_other: "\<not> is_q a \<Longrightarrow> \<not> is_n a \<Longrightarrow> q_prefix u prev (a # cs) = 0"
  by (auto simp: q_prefix_def split: list.splits)

lemma tokens_quoted: "word_end u prev \<or> prev = None \<Longrightarrow>
  tokens u prev (39 # double_quotes v @ [39]) = [(Quoted, 39 # double_quotes v @ [39])]"
proof -
  have "next_token u prev (39 # double_quotes v @ [39]) = (Quoted, length (double_quotes v) + 2)"
    by (simp add: next_token_def starts_def chars_def q_prefix_other is_q_def is_n_def quoted_double)
  then show ?thesis by (subst tokens.simps) simp
qed

lemma q_token_converted:
  assumes "(k, t) \<in> set (tokens u prev s)" and "k = QuoteQ \<or> k = QuoteNQ"
  shows "\<exists>pre c v. t = pre @ [39, c] @ v @ [q_closer c, 39] \<and> parser_text k t =
      (if k = QuoteNQ then chars ''N'' else []) @ [39] @ double_quotes v @ [39]"
  using assms(1)
proof (induction u prev s rule: tokens.induct)
  case (1 u prev s)
  then have "s \<noteq> []" by auto
  obtain k' n where kn: "next_token u prev s = (k', n)" by fastforce
  show ?case
  proof (cases "k' = Invalid")
    case True
    then have "tokens u prev s = [(Invalid, s)]" using tokens_invalid[OF \<open>s \<noteq> []\<close>] kn by simp
    then show ?thesis using 1(2) assms(2) by auto
  next
    case False
    then consider "k' = k" "t = take n s" | "(k, t) \<in> set (tokens u (Some (last (take n s))) (drop n s))"
      using 1(2) tokens_step[OF \<open>s \<noteq> []\<close> kn False] by auto
    then show ?thesis
    proof cases
      case 1
      obtain pre c v rest where q: "s = pre @ [39, c] @ v @ [q_closer c, 39] @ rest" "length pre = (if k = QuoteNQ then 2 else 1)"
        "n = length pre + 4 + length v" using q_token[OF kn] assms(2) 1(1) by auto
      have "n = length (pre @ [39, c] @ v @ [q_closer c, 39])" using q(3) by simp
      moreover have "s = (pre @ [39, c] @ v @ [q_closer c, 39]) @ rest" using q(1) by simp
      ultimately have t: "t = pre @ [39, c] @ v @ [q_closer c, 39]" using 1(2) by (metis append_eq_conv_conj)
      have p: "(if k = QuoteNQ then 4 else 3) = length pre + 2" using q(2) by simp
      have "parser_text k t = (if k = QuoteNQ then chars ''N'' else []) @ [39] @ double_quotes v @ [39]"
        using assms(2) unfolding parser_text_def p Let_def by (simp add: t)
      then show ?thesis using t by blast
    next
      case 2
      then show ?thesis using "1.IH"[OF \<open>s \<noteq> []\<close> refl refl] kn False by simp
    qed
  qed
qed

text \<open>A q quotation keeps its value for the parser: what replaces it is lexed as one ordinary quotation,
  after an N where the quotation had one, and without its doubled quotes it is the text between the
  delimiters.\<close>
theorem q_quotations_keep_their_value:
  assumes "(k, t) \<in> set (tokens u None s)" and "k = QuoteQ \<or> k = QuoteNQ"
  shows "\<exists>pre c v. t = pre @ [39, c] @ v @ [q_closer c, 39] \<and> undouble (double_quotes v) = v
    \<and> tokens u None (parser_text k t) =
        (if k = QuoteNQ then [(Code, chars ''N'')] else []) @ [(Quoted, [39] @ double_quotes v @ [39])]"
proof -
  obtain pre c v where q: "t = pre @ [39, c] @ v @ [q_closer c, 39]"
    "parser_text k t = (if k = QuoteNQ then chars ''N'' else []) @ [39] @ double_quotes v @ [39]"
    using q_token_converted[OF assms] by blast
  have "tokens u None (78 # 39 # double_quotes v @ [39]) = (Code, [78]) # tokens u (Some 78) (39 # double_quotes v @ [39])"
  proof -
    have "q_prefix u None (78 # 39 # double_quotes v @ [39]) = 0"
      by (auto simp: q_prefix_def is_q_def split: list.splits)
    then have "next_token u None (78 # 39 # double_quotes v @ [39]) = (Code, 1)"
      by (simp add: next_token_def starts_def chars_def)
    then show ?thesis using tokens_step[of "78 # 39 # double_quotes v @ [39]" u None Code 1] by simp
  qed
  then show ?thesis using q assms(2) tokens_quoted[of u None v] tokens_quoted[of u "Some 78" v]
    by (intro exI[of _ pre] exI[of _ c] exI[of _ v]) (auto simp: undouble_double chars_def word_end_def alnum_def)
qed

definition ascii_only :: unicode where
  "ascii_only = \<lparr>wide_alnum = (\<lambda>_. False), wide_space = (\<lambda>_. False)\<rparr>"

theorem q_quotations_keep_their_value_witness:
  "\<exists>pre c v. chars ''q'' @ [39, 91, 97, 39, 98, 93, 39] = pre @ [39, c] @ v @ [q_closer c, 39]
    \<and> tokens ascii_only None (parser_text QuoteQ (chars ''q'' @ [39, 91, 97, 39, 98, 93, 39])) = [(Quoted, [39] @ double_quotes v @ [39])]"
proof -
  have "(QuoteQ, chars ''q'' @ [39, 91, 97, 39, 98, 93, 39])
      \<in> set (tokens ascii_only None (chars ''a = q'' @ [39, 91, 97, 39, 98, 93, 39] @ chars '';''))"
    by code_simp
  from q_quotations_keep_their_value[OF this] show ?thesis by fastforce
qed

end
