(* ===== verification/SqlClock.thy ===== *)
theory SqlClock
  imports SqlLexing
begin

text \<open>The replacement of the clock functions changes code only: lexing the result finds the same quotations and
  comments, in the same order (\<open>use_session_current_datetime\<close> of \<open>nl2sql/sql_lexing.py\<close>).\<close>

section \<open>One character of code\<close>

lemma next_token_prev: "word_end u p = word_end u p' \<Longrightarrow> next_token u p s = next_token u p' s"
  by (simp add: next_token_def q_prefix_def)

lemma tokens_prev: "word_end u p = word_end u p' \<Longrightarrow> tokens u p s = tokens u p' s"
  using next_token_prev[of u p p' s] by (subst (1 2) tokens.simps) simp

text \<open>\<open>we\<close>: the text before may end an identifier.\<close>

definition code_ok :: "bool \<Rightarrow> nat \<Rightarrow> points \<Rightarrow> bool" where
  "code_ok we c X \<longleftrightarrow> c \<noteq> 39 \<and> c \<noteq> 34 \<and> \<not> (c = 45 \<and> take 1 X = [45]) \<and> \<not> (c = 47 \<and> take 1 X = [42])
     \<and> \<not> (\<not> we \<and> is_q c \<and> take 1 X = [39] \<and> 2 \<le> length X)
     \<and> \<not> (\<not> we \<and> is_n c \<and> (\<exists>a. take 2 X = [a, 39] \<and> is_q a) \<and> 3 \<le> length X)"

lemma q_prefix_cases:
  "q_prefix u prev (c # X) =
     (if word_end u prev then 0 else if is_q c \<and> take 1 X = [39] then 2
      else if is_n c \<and> (\<exists>a. take 2 X = [a, 39] \<and> is_q a) then 3 else 0)"
  by (auto simp: q_prefix_def numeral_2_eq_2 take_Suc split: list.splits)

lemma take1_cases: "take 1 X = [a] \<longleftrightarrow> (\<exists>Y. X = a # Y)"
  by (cases X) auto

lemma code_next:
  "fst (next_token u prev (c # X)) = Code \<longleftrightarrow> code_ok (word_end u prev) c X"
  "fst (next_token u prev (c # X)) = Code \<Longrightarrow> next_token u prev (c # X) = (Code, 1)"
proof -
  have n: "\<not> (is_n c \<and> is_q c)" by (auto simp: is_n_def is_q_def)
  have s: "starts (chars ''--'') (c # X) \<longleftrightarrow> c = 45 \<and> take 1 X = [45]" "starts (chars ''/*'') (c # X) \<longleftrightarrow> c = 47 \<and> take 1 X = [42]"
    by (auto simp: starts_def chars_def numeral_2_eq_2)
  have p: "q_prefix u prev (c # X) \<noteq> 0 \<and> q_prefix u prev (c # X) < length (c # X) \<longleftrightarrow>
      \<not> word_end u prev \<and> (is_q c \<and> take 1 X = [39] \<and> 2 \<le> length X
        \<or> is_n c \<and> (\<exists>a. take 2 X = [a, 39] \<and> is_q a) \<and> 3 \<le> length X)"
    using n by (auto simp: q_prefix_cases)
  define P where "P \<longleftrightarrow> q_prefix u prev (c # X) \<noteq> 0 \<and> q_prefix u prev (c # X) < length (c # X)"
  have nt: "\<exists>x y z w. next_token u prev (c # X) =
      (if c = 45 \<and> take 1 X = [45] then (Comment, x) else if c = 47 \<and> take 1 X = [42] then y
       else if P then z else if c = 39 \<or> c = 34 then w else (Code, 1))
      \<and> fst y \<noteq> Code \<and> fst z \<noteq> Code \<and> fst w \<noteq> Code"
    unfolding next_token_def s Let_def P_def[symmetric] list.sel
    by (intro exI conjI, rule refl) (auto split: option.split)
  then have "fst (next_token u prev (c # X)) = Code \<longleftrightarrow>
      \<not> (c = 45 \<and> take 1 X = [45]) \<and> \<not> (c = 47 \<and> take 1 X = [42]) \<and> \<not> P \<and> c \<noteq> 39 \<and> c \<noteq> 34"
    by (elim exE conjE) simp
  also have "\<dots> \<longleftrightarrow> code_ok (word_end u prev) c X"
    unfolding P_def p code_ok_def by blast
  finally show "fst (next_token u prev (c # X)) = Code \<longleftrightarrow> code_ok (word_end u prev) c X" .
  show "next_token u prev (c # X) = (Code, 1)" if "fst (next_token u prev (c # X)) = Code"
    using nt that by (elim exE conjE) (auto split: if_splits)
qed

fun code_run :: "unicode \<Rightarrow> nat option \<Rightarrow> points \<Rightarrow> points \<Rightarrow> bool" where
  "code_run u prev [] rest = True"
| "code_run u prev (c # cs) rest = (code_ok (word_end u prev) c (cs @ rest) \<and> code_run u (Some c) cs rest)"

definition last_of :: "nat option \<Rightarrow> points \<Rightarrow> nat option" where
  "last_of prev cs = (if cs = [] then prev else Some (last cs))"

lemma last_of_simps [simp]: "last_of prev [] = prev" "last_of prev (c # cs) = last_of (Some c) cs"
  "last_of prev (xs @ ys) = last_of (last_of prev xs) ys"
  by (auto simp: last_of_def)

lemma code_run_append: "code_run u prev (xs @ ys) rest \<longleftrightarrow> code_run u prev xs (ys @ rest) \<and> code_run u (last_of prev xs) ys rest"
  by (induction xs arbitrary: prev) auto

definition codes :: "points \<Rightarrow> (kind \<times> points) list" where
  "codes cs = map (\<lambda>c. (Code, [c])) cs"

lemma tokens_code_run: "code_run u prev cs rest \<Longrightarrow> tokens u prev (cs @ rest) = codes cs @ tokens u (last_of prev cs) rest"
proof (induction cs arbitrary: prev)
  case (Cons c cs)
  then have "next_token u prev (c # cs @ rest) = (Code, 1)" using code_next[of u prev c "cs @ rest"] by simp
  then have "tokens u prev (c # cs @ rest) = (Code, [c]) # tokens u (Some c) (cs @ rest)"
    using tokens_step[of "c # cs @ rest" u prev Code 1] by simp
  then show ?case using Cons by (simp add: codes_def)
qed (simp add: codes_def)

section \<open>Replacing words\<close>

text \<open>\<open>Y\<close> begins no more than \<open>X\<close> what a character before it could open.\<close>

definition looks :: "points \<Rightarrow> points \<Rightarrow> bool" where
  "looks X Y \<longleftrightarrow> (take 1 Y = [45] \<longrightarrow> take 1 X = [45]) \<and> (take 1 Y = [42] \<longrightarrow> take 1 X = [42])
     \<and> (take 1 Y = [39] \<and> 2 \<le> length Y \<longrightarrow> take 1 X = [39] \<and> 2 \<le> length X)
     \<and> ((\<exists>a. take 2 Y = [a, 39] \<and> is_q a) \<and> 3 \<le> length Y \<longrightarrow> (\<exists>a. take 2 X = [a, 39] \<and> is_q a) \<and> 3 \<le> length X)"

lemma code_ok_looks: "code_ok we c X \<Longrightarrow> looks X Y \<Longrightarrow> code_ok we c Y"
  unfolding code_ok_def looks_def by blast

lemma looks_refl [simp]: "looks X X"
  by (simp add: looks_def)

definition same_head :: "points \<Rightarrow> points \<Rightarrow> bool" where
  "same_head X Y \<longleftrightarrow> X = Y \<or> (\<exists>t A B. X = t @ A \<and> Y = t @ B \<and> 2 \<le> length t \<and> (is_q (hd t) \<longrightarrow> 3 \<le> length t))"

lemma same_head_looks: "same_head X Y \<Longrightarrow> looks X Y"
proof -
  assume "same_head X Y"
  then consider "X = Y" | t A B where "X = t @ A" "Y = t @ B" "2 \<le> length t" "is_q (hd t) \<longrightarrow> 3 \<le> length t"
    by (auto simp: same_head_def)
  then show ?thesis
  proof cases
    case 2
    then have "take 1 X = take 1 Y" "take 2 X = take 2 Y" "hd X = hd t" "hd Y = hd t" "2 \<le> length X"
      by (auto simp: hd_append)
    moreover have "3 \<le> length X" if "is_q (hd t)" using 2 that by simp
    moreover have "hd Y = a" if "take 2 Y = [a, 39]" for a using that by (cases Y) auto
    ultimately show ?thesis unfolding looks_def by metis
  qed simp
qed

lemma clock_sub_step:
  assumes "clock_sub u lb (c # cs) = Some out"
  shows "(\<exists>out'. clock_word u lb (c # cs) = None \<and> clock_sub u (Some c) cs = Some out' \<and> out = c # out')
    \<or> (\<exists>w r d d'. clock_word u lb (c # cs) = Some (w, r) \<and> c # cs = w @ d \<and> clock_sub u (Some (last w)) d = Some d' \<and> out = r @ d')"
proof (cases "clock_word u lb (c # cs)")
  case None
  then show ?thesis using assms by (subst (asm) clock_sub.simps) auto
next
  case (Some p)
  obtain w r where p: "p = (w, r)" by (cases p)
  then have "clock_word u lb (c # cs) = Some (w, r)" using Some by simp
  moreover from this have "c # cs = w @ drop (length w) (c # cs)" using clock_word_length by blast
  moreover have "\<exists>d'. clock_sub u (Some (last w)) (drop (length w) (c # cs)) = Some d' \<and> out = r @ d'"
    using assms Some p by (subst (asm) clock_sub.simps) (auto split: if_splits)
  ultimately show ?thesis by blast
qed

lemma clock_sub_nil [simp]: "clock_sub u lb [] = Some []"
  by (simp add: clock_sub.simps)

definition word_char :: "nat \<Rightarrow> bool" where
  "word_char c \<longleftrightarrow> 65 \<le> c \<and> c \<le> 90 \<or> c = 95"

lemma word_char_end: "word_char c \<Longrightarrow> word_end u (Some c)"
  by (auto simp: word_char_def word_end_def alnum_def)

lemma clock_word_shape:
  assumes "clock_word u lb s = Some (w, r)"
  shows "fold_case (hd w) = 83" and "hd w = hd s" and "word_end u (Some (last w))" and "hd r = 67" and "list_all word_char r" and "r \<noteq> []"
proof -
  have s: "s = w @ drop (length w) s" "w \<noteq> []" using clock_word_length[OF assms] by auto
  have "map fold_case w = chars ''SYSDATE'' \<and> r = chars ''CURRENT_DATE''
      \<or> map fold_case w = chars ''SYSTIMESTAMP'' \<and> r = chars ''CURRENT_TIMESTAMP''"
    using assms by (auto simp: clock_word_def word_matches_def chars_def numeral_eq_Suc split: if_splits)
  then consider "map fold_case w = chars ''SYSDATE''" "r = chars ''CURRENT_DATE''"
    | "map fold_case w = chars ''SYSTIMESTAMP''" "r = chars ''CURRENT_TIMESTAMP''" by blast
  then have "hd (map fold_case w) = 83 \<and> (last (map fold_case w) = 69 \<or> last (map fold_case w) = 80)
      \<and> hd r = 67 \<and> list_all word_char r \<and> r \<noteq> []"
    by cases (simp_all add: chars_def word_char_def)
  then have f: "fold_case (hd w) = 83" "fold_case (last w) = 69 \<or> fold_case (last w) = 80"
    and r: "hd r = 67" "list_all word_char r" "r \<noteq> []"
    using s(2) by (simp_all add: hd_map last_map)
  show "fold_case (hd w) = 83" "hd r = 67" "list_all word_char r" "r \<noteq> []" by (fact f r)+
  show "hd w = hd s" using s by (metis hd_append2)
  show "word_end u (Some (last w))"
    using f(2) by (auto simp: fold_case_def word_end_def alnum_def split: if_splits)
qed

lemma clock_head:
  assumes "clock_sub u lb (c # cs) = Some out"
  shows "out \<noteq> [] \<and> (hd out = c \<or> fold_case c = 83 \<and> hd out = 67)"
  using clock_sub_step[OF assms]
proof
  assume "\<exists>w r d d'. clock_word u lb (c # cs) = Some (w, r) \<and> c # cs = w @ d \<and> clock_sub u (Some (last w)) d = Some d' \<and> out = r @ d'"
  then obtain w r d' where w: "clock_word u lb (c # cs) = Some (w, r)" "out = r @ d'" by blast
  show ?thesis using clock_word_shape[OF w(1)] w(2) by (auto simp: hd_append)
qed auto

lemma looks_clock:
  assumes sub: "clock_sub u lb code = Some code'" and head: "same_head rest rest'" and nq: "list_all (\<lambda>c. c \<noteq> 39) code"
  shows "looks (code @ rest) (code' @ rest')"
proof (cases code)
  case Nil
  then show ?thesis using sub same_head_looks[OF head] by simp
next
  case (Cons c cs)
  from clock_sub_step[OF sub[unfolded Cons]] show ?thesis
  proof
    assume "\<exists>w r d d'. clock_word u lb (c # cs) = Some (w, r) \<and> c # cs = w @ d \<and> clock_sub u (Some (last w)) d = Some d' \<and> code' = r @ d'"
    then obtain w r d' where w: "clock_word u lb (c # cs) = Some (w, r)" "code' = r @ d'" by blast
    then obtain r' where "r = 67 # r'" using clock_word_shape(4,6)[OF w(1)] by (cases r) auto
    then show ?thesis using w(2) by (simp add: looks_def is_q_def numeral_2_eq_2)
  next
    assume "\<exists>out'. clock_word u lb (c # cs) = None \<and> clock_sub u (Some c) cs = Some out' \<and> code' = c # out'"
    then obtain out' where o: "clock_sub u (Some c) cs = Some out'" "code' = c # out'" by blast
    have c: "c \<noteq> 39" using nq Cons by simp
    show ?thesis
    proof (cases cs)
      case Nil
      then have "out' = []" using o(1) by simp
      moreover have "looks rest rest'" by (rule same_head_looks[OF head])
      moreover have "take 1 rest' = [39] \<and> 2 \<le> length rest' \<longrightarrow> take 1 rest = [39] \<and> 2 \<le> length rest"
        using \<open>looks rest rest'\<close> by (simp add: looks_def)
      ultimately show ?thesis using Cons Nil o(2) c by (auto simp: looks_def numeral_2_eq_2 take1_cases Suc_le_eq)
    next
      case (Cons d ds)
      then have "d \<noteq> 39" using nq \<open>code = c # cs\<close> by simp
      moreover have "out' \<noteq> [] \<and> hd out' \<noteq> 39" using clock_head[OF o(1)[unfolded Cons]] \<open>d \<noteq> 39\<close> by auto
      ultimately show ?thesis using \<open>code = c # cs\<close> o(2) c by (cases out') (simp_all add: looks_def numeral_2_eq_2)
    qed
  qed
qed

lemma code_run_quotes: "code_run u prev cs rest \<Longrightarrow> list_all (\<lambda>c. c \<noteq> 39) cs"
  by (induction cs arbitrary: prev) (auto simp: code_ok_def)

lemma word_run:
  "list_all word_char r \<Longrightarrow> word_end u prev \<or> \<not> is_q (hd r) \<and> \<not> is_n (hd r) \<Longrightarrow> code_run u prev r rest"
proof (induction r arbitrary: prev)
  case (Cons c r)
  then show ?case using word_char_end[of c u] by (auto simp: code_ok_def word_char_def)
qed simp

lemma word_last: "list_all word_char r \<Longrightarrow> r \<noteq> [] \<Longrightarrow> word_end u (last_of prev r)"
  by (auto simp: last_of_def list_all_iff intro: word_char_end)

lemma clock_run:
  "clock_sub u lb code = Some code' \<Longrightarrow> code_run u prev code rest \<Longrightarrow> word_end u prev' = word_end u prev \<Longrightarrow>
   same_head rest rest' \<Longrightarrow>
   code_run u prev' code' rest' \<and> word_end u (last_of prev' code') = word_end u (last_of prev code)"
proof (induction "length code" arbitrary: code lb code' prev prev' rule: less_induct)
  case less
  show ?case
  proof (cases code)
    case Nil
    then show ?thesis using less.prems by simp
  next
    case (Cons c cs)
    from clock_sub_step[OF less.prems(1)[unfolded Cons]] show ?thesis
    proof
      assume "\<exists>out'. clock_word u lb (c # cs) = None \<and> clock_sub u (Some c) cs = Some out' \<and> code' = c # out'"
      then obtain out' where o: "clock_sub u (Some c) cs = Some out'" "code' = c # out'" by blast
      have r: "code_ok (word_end u prev) c (cs @ rest)" "code_run u (Some c) cs rest" using less.prems(2) Cons by auto
      have "code_ok (word_end u prev') c (out' @ rest')"
        using code_ok_looks[OF r(1) looks_clock[OF o(1) less.prems(4) code_run_quotes[OF r(2)]]] less.prems(3) by simp
      moreover have "code_run u (Some c) out' rest' \<and> word_end u (last_of (Some c) out') = word_end u (last_of (Some c) cs)"
        using less.hyps[of cs, OF _ o(1) r(2) refl less.prems(4)] Cons by simp
      ultimately show ?thesis using o(2) Cons by simp
    next
      assume "\<exists>w r d d'. clock_word u lb (c # cs) = Some (w, r) \<and> c # cs = w @ d \<and> clock_sub u (Some (last w)) d = Some d' \<and> code' = r @ d'"
      then obtain w r d d' where w: "clock_word u lb (c # cs) = Some (w, r)" "c # cs = w @ d"
        "clock_sub u (Some (last w)) d = Some d'" "code' = r @ d'" by blast
      note sh = clock_word_shape[OF w(1)]
      have wn: "w \<noteq> []" using clock_word_length[OF w(1)] by blast
      have "code_run u (Some (last w)) d rest" using less.prems(2) Cons w(2) wn
        by (auto simp: code_run_append last_of_def)
      moreover have "length d < length code" using Cons w(2) wn by (cases w) (auto dest: arg_cong[of _ _ length])
      moreover have "word_end u (last_of prev' r) = word_end u (Some (last w))" using word_last[OF sh(5,6)] sh(3) by simp
      ultimately have "code_run u (last_of prev' r) d' rest' \<and> word_end u (last_of (last_of prev' r) d') = word_end u (last_of (Some (last w)) d)"
        using less.hyps[OF _ w(3) _ _ less.prems(4)] by blast
      moreover have "code_run u prev' r (d' @ rest')"
        by (rule word_run[OF sh(5)]) (simp add: sh(4) is_q_def is_n_def)
      moreover have "last_of prev code = last_of (Some (last w)) d"
        using Cons w(2) wn by (auto simp: last_of_def)
      ultimately show ?thesis using w(4) by (simp add: code_run_append)
    qed
  qed
qed

section \<open>Quotations and comments stay as they are\<close>

lemma find_text_append:
  "find_text p (x @ y) = Some i \<Longrightarrow> i + length p \<le> length x \<Longrightarrow> find_text p (x @ z) = Some i"
proof (induction x arbitrary: i)
  case Nil
  then show ?case by (cases y; cases z) (auto simp: starts_def split: if_splits)
next
  case (Cons c cs)
  show ?case
  proof (cases "starts p (c # cs @ y)")
    case True
    then have "i = 0" using Cons.prems(1) by simp
    moreover from this have "length p \<le> length (c # cs)" using Cons.prems(2) by simp
    ultimately show ?thesis using True by (simp add: starts_def take_append[of _ "c # cs", simplified])
  next
    case False
    then obtain j where j: "find_text p (cs @ y) = Some j" "i = Suc j" using Cons.prems(1) by auto
    then have le: "j + length p \<le> length cs" using Cons.prems(2) by simp
    have "\<not> starts p (c # cs @ z)"
    proof (cases "length p \<le> length (c # cs)")
      case True
      then show ?thesis using False by (simp add: starts_def take_append[of _ "c # cs", simplified])
    qed (use le in simp)
    then show ?thesis using Cons.IH[OF j(1) le] j(2) by simp
  qed
qed

lemma quoted_length_pos: "quoted_length q xs = Some n \<Longrightarrow> 0 < n"
  by (induction q xs arbitrary: n rule: quoted_length.induct) (auto split: if_splits)

lemma quoted_length_append:
  "quoted_length q (x @ y) = Some (length x) \<Longrightarrow>
   (y \<noteq> [] \<longrightarrow> hd y \<noteq> q) \<and> ((z \<noteq> [] \<longrightarrow> hd z \<noteq> q) \<longrightarrow> quoted_length q (x @ z) = Some (length x))"
proof (induction q x rule: quoted_length.induct)
  case (1 q)
  then show ?case by (cases "(q, y)" rule: quoted_length.cases) (auto split: if_splits)
next
  case (2 q c)
  then show ?case by (cases y; cases z) (auto split: if_splits dest: quoted_length_pos)
next
  case (3 q c d cs)
  then show ?case by (auto split: if_splits)
qed

lemma quoted_length_le: "quoted_length q xs = Some n \<Longrightarrow> n \<le> length xs"
  by (induction q xs arbitrary: n rule: quoted_length.induct) (auto split: if_splits)

text \<open>What may follow a token instead of what followed it: nothing for nothing, and otherwise the same first
  character, or a C for an S.\<close>

definition follows :: "points \<Rightarrow> points \<Rightarrow> bool" where
  "follows X Y \<longleftrightarrow> (X = [] \<longleftrightarrow> Y = []) \<and> (X \<noteq> [] \<longrightarrow> hd Y = hd X \<or> fold_case (hd X) = 83 \<and> hd Y = 67)"

lemma find_char: "find_text [c] xs = Some i \<Longrightarrow> c \<notin> set (take i xs) \<and> (\<exists>ys. drop i xs = c # ys)"
proof (induction xs arbitrary: i)
  case (Cons a xs)
  then show ?case by (cases i) (auto simp: starts_def split: if_splits)
qed simp

lemma find_char_None: "find_text [c] xs = None \<longleftrightarrow> c \<notin> set xs"
  by (induction xs) (auto simp: starts_def)

lemma find_char_at: "c \<notin> set xs \<Longrightarrow> find_text [c] (xs @ c # ys) = Some (length xs)"
  by (induction xs) (auto simp: starts_def)

lemma starts_dash: "starts (chars ''--'') s \<longleftrightarrow> (\<exists>zs. s = 45 # 45 # zs)"
  by (cases s; cases "tl s") (auto simp: starts_def chars_def)

lemma starts_append: "length p \<le> length t \<Longrightarrow> starts p (t @ A) \<longleftrightarrow> starts p (t @ B)"
  by (simp add: starts_def)

lemma q_prefix_append:
  assumes "3 \<le> length t"
  shows "q_prefix u prev (t @ A) = q_prefix u prev (t @ B)"
proof -
  obtain a b c t' where "t = a # b # c # t'" using assms
    by (cases t; cases "tl t"; cases "tl (tl t)") auto
  then show ?thesis by (simp add: q_prefix_def)
qed

lemma next_token_kinds:
  assumes "next_token u prev s = (k, n)" and "k \<noteq> Code" and "k \<noteq> Invalid"
  shows "starts (chars ''--'') s \<and> k = Comment \<and> n = (case find_text [10] (drop 2 s) of None \<Rightarrow> length s | Some i \<Rightarrow> i + 2)
    \<or> \<not> starts (chars ''--'') s \<and> starts (chars ''/*'') s \<and> k = Comment \<and> (\<exists>i. find_text (chars ''*/'') (drop 2 s) = Some i \<and> n = i + 4)
    \<or> \<not> starts (chars ''--'') s \<and> \<not> starts (chars ''/*'') s \<and> q_prefix u prev s \<noteq> 0 \<and> q_prefix u prev s < length s
        \<and> \<not> space u (s ! q_prefix u prev s)
        \<and> (\<exists>i. find_text [q_closer (s ! q_prefix u prev s), 39] (drop (q_prefix u prev s + 1) s) = Some i
              \<and> k = (if q_prefix u prev s = 3 then QuoteNQ else QuoteQ) \<and> n = q_prefix u prev s + 1 + i + 2)
    \<or> \<not> starts (chars ''--'') s \<and> \<not> starts (chars ''/*'') s \<and> \<not> (q_prefix u prev s \<noteq> 0 \<and> q_prefix u prev s < length s)
        \<and> (hd s = 39 \<or> hd s = 34) \<and> k = Quoted \<and> (\<exists>m. quoted_length (hd s) (tl s) = Some m \<and> n = m + 1)"
  using assms unfolding next_token_def Let_def
  by (simp split: if_split_asm option.split_asm) (blast | fastforce)+

lemma q_prefix_le: "q_prefix u prev s = 0 \<or> q_prefix u prev s = 2 \<or> q_prefix u prev s = 3"
  by (auto simp: q_prefix_def split: list.splits)

text \<open>A quotation or comment is lexed the same when what follows it changes that way.\<close>

lemma token_stable:
  assumes t: "next_token u prev (t @ A) = (k, length t)" and k: "k \<noteq> Code" "k \<noteq> Invalid" and f: "follows A B"
    and ne: "t \<noteq> []"
  shows "next_token u prev (t @ B) = (k, length t) \<and> 2 \<le> length t \<and> (is_q (hd t) \<longrightarrow> 3 \<le> length t)"
  using next_token_kinds[OF t k]
proof (elim disjE)
  let ?s = "t @ A"
  assume a: "starts (chars ''--'') ?s \<and> k = Comment \<and> length t = (case find_text [10] (drop 2 ?s) of None \<Rightarrow> length ?s | Some i \<Rightarrow> i + 2)"
  then have "\<exists>x y zs. ?s = x # y # zs" using starts_dash by blast
  then obtain x y zs where "?s = x # y # zs" by blast
  from arg_cong[OF this, of length] have l2: "2 \<le> length ?s" by simp
  have len: "2 \<le> length t"
  proof (cases "find_text [10] (drop 2 ?s)")
    case None
    with a have "length t = length ?s" by (simp only: option.case)
    with l2 show ?thesis by (simp only:)
  next
    case (Some i)
    with a have "length t = i + 2" by (simp only: option.case)
    then show ?thesis by simp
  qed
  then obtain t' where tt: "t = 45 # 45 # t'"
    using a by (cases t; cases "tl t") (auto simp: starts_dash)
  have sB: "starts (chars ''--'') (t @ B)" by (simp add: tt starts_dash)
  have "(case find_text [10] (t' @ B) of None \<Rightarrow> length (t @ B) | Some i \<Rightarrow> i + 2) = length t"
  proof (cases "find_text [10] (t' @ A)")
    case None
    then have "A = []" using a tt by simp
    then have "B = []" using f by (simp add: follows_def)
    then show ?thesis using None \<open>A = []\<close> tt by simp
  next
    case (Some i)
    then have i: "i = length t'" using a tt by simp
    then obtain ys where A: "A = 10 # ys" "10 \<notin> set t'" using find_char[OF Some] by auto
    then obtain ys' where "B = 10 # ys'" using f by (cases B) (auto simp: follows_def fold_case_def)
    then show ?thesis using find_char_at[OF A(2)] tt by simp
  qed
  moreover have "drop 2 (t @ B) = t' @ B" by (simp add: tt)
  ultimately have "next_token u prev (t @ B) = (Comment, length t)"
    unfolding next_token_def Let_def if_P[OF sB] by simp
  moreover have "k = Comment" using a by blast
  moreover have "\<not> is_q (hd t)" by (simp add: tt is_q_def)
  ultimately show ?thesis using len by (simp only: simp_thms)
next
  let ?s = "t @ A"
  assume a: "\<not> starts (chars ''--'') ?s \<and> starts (chars ''/*'') ?s \<and> k = Comment
    \<and> (\<exists>i. find_text (chars ''*/'') (drop 2 ?s) = Some i \<and> length t = i + 4)"
  then obtain i where i: "find_text (chars ''*/'') (drop 2 ?s) = Some i" "length t = i + 4" by blast
  have l: "length (chars ''--'') \<le> length t" "length (chars ''/*'') \<le> length t" using i(2) by (simp_all add: chars_def)
  have "find_text (chars ''*/'') (drop 2 t @ A) = Some i" using i by simp
  then have "find_text (chars ''*/'') (drop 2 t @ B) = Some i"
    by (rule find_text_append) (simp add: i(2) chars_def)
  then have "find_text (chars ''*/'') (drop 2 (t @ B)) = Some i" using i(2) by simp
  moreover have "hd t = 47" using a i(2) by (cases t) (auto simp: starts_def chars_def numeral_2_eq_2)
  ultimately show ?thesis using a i(2) starts_append[OF l(1), of A B] starts_append[OF l(2), of A B]
    by (simp add: next_token_def is_q_def)
next
  let ?s = "t @ A" and ?p = "q_prefix u prev (t @ A)"
  assume a: "\<not> starts (chars ''--'') ?s \<and> \<not> starts (chars ''/*'') ?s \<and> ?p \<noteq> 0 \<and> ?p < length ?s \<and> \<not> space u (?s ! ?p)
    \<and> (\<exists>i. find_text [q_closer (?s ! ?p), 39] (drop (?p + 1) ?s) = Some i
          \<and> k = (if ?p = 3 then QuoteNQ else QuoteQ) \<and> length t = ?p + 1 + i + 2)"
  then obtain i where i: "find_text [q_closer (?s ! ?p), 39] (drop (?p + 1) ?s) = Some i"
    "k = (if ?p = 3 then QuoteNQ else QuoteQ)" "length t = ?p + 1 + i + 2" by blast
  have len: "5 \<le> length t" using a i(3) q_prefix_le[of u prev ?s] by auto
  then have p: "q_prefix u prev (t @ B) = ?p" by (intro q_prefix_append) simp
  have l: "length (chars ''--'') \<le> length t" "length (chars ''/*'') \<le> length t" using len by (simp_all add: chars_def)
  have nth: "(t @ B) ! ?p = ?s ! ?p" using i(3) by (simp add: nth_append)
  have "find_text [q_closer (?s ! ?p), 39] (drop (?p + 1) t @ A) = Some i" using i(1,3) by simp
  then have "find_text [q_closer (?s ! ?p), 39] (drop (?p + 1) t @ B) = Some i"
    by (rule find_text_append) (simp add: i(3))
  then have "find_text [q_closer (?s ! ?p), 39] (drop (?p + 1) (t @ B)) = Some i" using i(3) by simp
  then have "next_token u prev (t @ B) = (k, length t)"
    using a i(2,3) starts_append[OF l(1), of A B] starts_append[OF l(2), of A B]
    unfolding next_token_def p nth Let_def by simp
  then show ?thesis using len by simp
next
  let ?s = "t @ A"
  assume a: "\<not> starts (chars ''--'') ?s \<and> \<not> starts (chars ''/*'') ?s \<and> \<not> (q_prefix u prev ?s \<noteq> 0 \<and> q_prefix u prev ?s < length ?s)
        \<and> (hd ?s = 39 \<or> hd ?s = 34) \<and> k = Quoted \<and> (\<exists>m. quoted_length (hd ?s) (tl ?s) = Some m \<and> length t = m + 1)"
  then obtain q t' where tt: "t = q # t'" "q = 39 \<or> q = 34" using ne by (cases t) auto
  then have m: "quoted_length q (t' @ A) = Some (length t')" using a by auto
  have "t' \<noteq> []" using quoted_length_pos[OF m] by auto
  have "A \<noteq> [] \<longrightarrow> hd A \<noteq> q" using quoted_length_append[OF m] by blast
  then have "B \<noteq> [] \<longrightarrow> hd B \<noteq> q" using f tt(2) by (auto simp: follows_def)
  then have "quoted_length q (t' @ B) = Some (length t')" using quoted_length_append[OF m, of B] by blast
  moreover have "q_prefix u prev (t @ B) = 0" using tt by (auto intro!: q_prefix_other simp: is_q_def is_n_def)
  moreover have "\<not> starts (chars ''--'') (t @ B)" "\<not> starts (chars ''/*'') (t @ B)"
    using tt by (auto simp: starts_def chars_def)
  ultimately show ?thesis using a tt \<open>t' \<noteq> []\<close> by (cases t') (auto simp: next_token_def is_q_def)
qed

lemma session_head:
  "session_parts u (c # code) ts = Some out \<Longrightarrow> out \<noteq> [] \<and> (hd out = c \<or> fold_case c = 83 \<and> hd out = 67)"
proof (induction ts arbitrary: code)
  case Nil
  then show ?case using clock_head by simp
next
  case (Cons a ts)
  obtain k t where a: "a = (k, t)" by (cases a)
  show ?case
  proof (cases "k = Code")
    case True
    then show ?thesis using Cons a by simp
  next
    case False
    then obtain x b where "clock_sub u None (c # code) = Some x" "out = x @ t @ b"
      using Cons.prems a by (auto split: option.splits)
    then show ?thesis using clock_head by auto
  qed
qed

lemma session_follows:
  assumes "session_parts u [] (tokens u prev s) = Some out"
  shows "follows s out"
proof (cases s)
  case Nil
  then show ?thesis using assms by (simp add: follows_def)
next
  case (Cons c cs)
  obtain k n where kn: "next_token u prev s = (k, n)" by fastforce
  have pos: "0 < n" using next_token_pos[of s u prev] Cons kn by simp
  consider "k = Invalid" | "k = Code" | "k \<noteq> Invalid" "k \<noteq> Code" by blast
  then show ?thesis
  proof cases
    case 1
    then show ?thesis using assms tokens_invalid[of s u prev] kn Cons by (auto simp: follows_def)
  next
    case 2
    then have "n = 1" using code_next(2)[of u prev c cs] kn Cons by simp
    then have "session_parts u [c] (tokens u (Some c) cs) = Some out"
      using assms tokens_step[of s u prev k n] kn Cons 2 by simp
    then show ?thesis using session_head[of u c "[]"] Cons by (auto simp: follows_def)
  next
    case 3
    then obtain b where "out = take n s @ b" using assms tokens_step[OF _ kn] Cons by auto
    then show ?thesis using pos Cons by (cases n) (auto simp: follows_def)
  qed
qed

definition literals :: "(kind \<times> points) list \<Rightarrow> (kind \<times> points) list" where
  "literals ts = filter (\<lambda>(k, t). k \<noteq> Code) ts"

lemma literals_simps [simp]:
  "literals [] = []" "literals ((k, t) # ts) = (if k = Code then literals ts else (k, t) # literals ts)"
  "literals (xs @ ys) = literals xs @ literals ys" "literals (codes cs) = []"
  by (auto simp: literals_def codes_def)

lemma token_head:
  "t \<noteq> [] \<Longrightarrow> next_token u prev (t @ b) = (k, length t) \<Longrightarrow> k \<noteq> Invalid \<Longrightarrow>
   tokens u prev (t @ b) = (k, t) # tokens u (Some (last t)) b"
  using tokens_step[of "t @ b" u prev k "length t"] by simp

lemma session_literals:
  "session_parts u code (tokens u (last_of prev code) rest) = Some out \<Longrightarrow> code_run u prev code rest \<Longrightarrow>
   word_end u prev' = word_end u prev \<Longrightarrow>
   literals (tokens u prev' out) = literals (tokens u (last_of prev code) rest)"
proof (induction "length rest" arbitrary: rest code prev prev' out rule: less_induct)
  case less
  let ?q = "last_of prev code"
  show ?case
  proof (cases rest)
    case Nil
    then have o: "clock_sub u None code = Some out" using less.prems(1) by simp
    from clock_run[OF o less.prems(2,3), of rest] have "code_run u prev' out []" using Nil by (simp add: same_head_def)
    from tokens_code_run[OF this] show ?thesis using Nil by simp
  next
    case (Cons c cs)
    obtain k n where kn: "next_token u ?q rest = (k, n)" by fastforce
    have pos: "0 < n" using next_token_pos[of rest u ?q] Cons kn by simp
    consider "k = Invalid" | "k = Code" | "k \<noteq> Invalid" "k \<noteq> Code" by blast
    then show ?thesis
    proof cases
      case 1
      then have t: "tokens u ?q rest = [(Invalid, rest)]" using tokens_invalid[of rest u ?q] kn Cons by simp
      then obtain code' where o: "clock_sub u None code = Some code'" "out = code' @ rest"
        using less.prems(1) by (auto split: option.splits)
      note r = clock_run[OF o(1) less.prems(2,3), of rest, unfolded same_head_def, simplified]
      have "tokens u prev' out = codes code' @ tokens u (last_of prev' code') rest"
        using tokens_code_run[OF conjunct1[OF r]] o(2) by simp
      also have "tokens u (last_of prev' code') rest = tokens u ?q rest" by (rule tokens_prev) (simp add: r)
      finally show ?thesis by simp
    next
      case 2
      then have n: "n = 1" "code_ok (word_end u ?q) c cs" using code_next[of u ?q c cs] kn Cons by simp_all
      then have t: "tokens u ?q rest = (Code, [c]) # tokens u (Some c) cs" using tokens_step[OF _ kn] Cons 2 by simp
      have "code_run u prev (code @ [c]) cs" using less.prems(2) n(2) Cons by (simp add: code_run_append)
      moreover have "session_parts u (code @ [c]) (tokens u (last_of prev (code @ [c])) cs) = Some out"
        using less.prems(1) unfolding t by (simp add: last_of_def)
      ultimately have "literals (tokens u prev' out) = literals (tokens u (last_of prev (code @ [c])) cs)"
        using less.hyps[of cs "code @ [c]" prev out prev'] less.prems(3) Cons by simp
      then show ?thesis unfolding t by (simp add: last_of_def)
    next
      case 3
      let ?t = "take n rest" and ?r = "drop n rest"
      have t: "tokens u ?q rest = (k, ?t) # tokens u (Some (last ?t)) ?r" using tokens_step[OF _ kn] Cons 3 by simp
      then obtain code' b where o: "clock_sub u None code = Some code'" "out = code' @ ?t @ b"
        "session_parts u [] (tokens u (Some (last ?t)) ?r) = Some b"
        using less.prems(1) 3(2) by (auto split: option.splits)
      have tn: "?t \<noteq> []" using pos Cons by simp
      have nlen: "n = length ?t"
      proof -
        have "concat (map snd (tokens u ?q rest)) = rest" using tokens_concat by blast
        have "n \<le> length rest" using next_token_kinds[OF kn 3(2,1)]
        proof (elim disjE)
          assume "starts (chars ''--'') rest \<and> k = Comment \<and> n = (case find_text [10] (drop 2 rest) of None \<Rightarrow> length rest | Some i \<Rightarrow> i + 2)"
          then show ?thesis using find_text_Some[of "[10]" "drop 2 rest"] by (auto split: option.splits)
        next
          assume "\<not> starts (chars ''--'') rest \<and> starts (chars ''/*'') rest \<and> k = Comment
            \<and> (\<exists>i. find_text (chars ''*/'') (drop 2 rest) = Some i \<and> n = i + 4)"
          then show ?thesis using find_text_Some[of "chars ''*/''" "drop 2 rest"] by (auto simp: chars_def)
        next
          assume "\<not> starts (chars ''--'') rest \<and> \<not> starts (chars ''/*'') rest \<and> q_prefix u ?q rest \<noteq> 0
            \<and> q_prefix u ?q rest < length rest \<and> \<not> space u (rest ! q_prefix u ?q rest)
            \<and> (\<exists>i. find_text [q_closer (rest ! q_prefix u ?q rest), 39] (drop (q_prefix u ?q rest + 1) rest) = Some i
                \<and> k = (if q_prefix u ?q rest = 3 then QuoteNQ else QuoteQ) \<and> n = q_prefix u ?q rest + 1 + i + 2)"
          then show ?thesis
            using find_text_Some[of "[q_closer (rest ! q_prefix u ?q rest), 39]" "drop (q_prefix u ?q rest + 1) rest"] by force
        next
          assume "\<not> starts (chars ''--'') rest \<and> \<not> starts (chars ''/*'') rest
            \<and> \<not> (q_prefix u ?q rest \<noteq> 0 \<and> q_prefix u ?q rest < length rest)
            \<and> (hd rest = 39 \<or> hd rest = 34) \<and> k = Quoted \<and> (\<exists>m. quoted_length (hd rest) (tl rest) = Some m \<and> n = m + 1)"
          then show ?thesis using quoted_length_le[of "hd rest" "tl rest"] Cons by auto
        qed
        then show ?thesis by simp
      qed
      have f: "follows ?r b" by (rule session_follows[OF o(3)])
      have kn': "next_token u ?q (?t @ ?r) = (k, length ?t)" using kn nlen by simp
      note st = token_stable[OF kn' 3(2,1) f tn]
      have "same_head rest (?t @ b)" unfolding same_head_def
        using st by (intro disjI2 exI[of _ ?t] exI[of _ ?r] exI[of _ b]) simp
      note r = clock_run[OF o(1) less.prems(2,3) this]
      have "tokens u prev' out = codes code' @ tokens u (last_of prev' code') (?t @ b)"
        using tokens_code_run[OF conjunct1[OF r]] o(2) by simp
      also have "tokens u (last_of prev' code') (?t @ b) = tokens u ?q (?t @ b)" by (rule tokens_prev) (simp add: r)
      also have "\<dots> = (k, ?t) # tokens u (Some (last ?t)) b"
        by (rule token_head[OF tn conjunct1[OF st] 3(1)])
      finally have "literals (tokens u prev' out) = (k, ?t) # literals (tokens u (Some (last ?t)) b)" using 3 by simp
      moreover have "literals (tokens u (Some (last ?t)) b) = literals (tokens u (Some (last ?t)) ?r)"
        using less.hyps[of ?r "[]" "Some (last ?t)" b "Some (last ?t)"] o(3) pos Cons by simp
      ultimately show ?thesis using 3 unfolding t by simp
    qed
  qed
qed

text \<open>C40: Replacing the clock functions of the server by those of the session touches code only: the result,
  lexed again, has the same quotations and comments in the same order, whatever words the replacement
  inserted between them.\<close>
theorem clock_replacement_keeps_literals:
  assumes "use_session_current_datetime u s = Some s'"
  shows "filter (\<lambda>(k, t). k \<noteq> Code) (tokens u None s') = filter (\<lambda>(k, t). k \<noteq> Code) (tokens u None s)"
  using session_literals[of u "[]" None s s' None] assms by (simp add: use_session_current_datetime_def literals_def)

theorem clock_replacement_keeps_literals_witness:
  "filter (\<lambda>(k, t). k \<noteq> Code) (tokens ascii_only None (chars ''CURRENT_DATE - '' @ [39] @ chars ''SYSDATE'' @ [39] @ chars '' --sysdate''))
     = [(Quoted, [39] @ chars ''SYSDATE'' @ [39]), (Comment, chars ''--sysdate'')]"
proof -
  have "use_session_current_datetime ascii_only (chars ''sysdate - '' @ [39] @ chars ''SYSDATE'' @ [39] @ chars '' --sysdate'')
      = Some (chars ''CURRENT_DATE - '' @ [39] @ chars ''SYSDATE'' @ [39] @ chars '' --sysdate'')"
    by code_simp
  from clock_replacement_keeps_literals[OF this]
  show ?thesis by (rule trans) code_simp
qed

section \<open>What the two passes do not do\<close>

text \<open>Preparing a prepared query may still change it: once the last terminator and a minus sign are joined to the
  comment behind them, the terminator before is the last one.  The comment of the function calls the pass
  idempotent.\<close>

lemma preparing_twice_differs:
  "prepare_oracle_query ascii_only False (chars ''x ; -;-- c'') = chars ''x ; --- c''"
  "prepare_oracle_query ascii_only False (chars ''x ; --- c'') \<noteq> chars ''x ; --- c''"
  by code_simp+

text \<open>The search for the words ignores case the way Unicode folds it, so it also finds a dotted capital I
  (304); the table of replacements has no entry for that spelling and the function raises.\<close>

lemma dotted_capital_raises:
  "use_session_current_datetime ascii_only (chars ''SYST'' @ [304] @ chars ''MESTAMP'') = None"
  by code_simp

end
