(* ===== verification/SqlMask.thy ===== *)
theory SqlMask
  imports SqlClock
begin

text \<open>How the service reads a statement before it judges it (\<open>nl2sql/service.py\<close>): literals, quoted names and comments
  are kept by the normalisation of blanks and blanked by the mask. The scanner of these two functions is another one
  than the lexer of \<open>SqlLexing\<close>, which prepares the text that is parsed and executed; here they are compared.\<close>

section \<open>Items\<close>

text \<open>What the scanner sees: a literal, quoted name or comment; one character of code; a rest that is not closed.\<close>

datatype item = Hidden | Plain | Unclosed

text \<open>After the opening quote: how much belongs to the literal. Only a doubled apostrophe stands for one.\<close>

fun close_length :: "nat \<Rightarrow> points \<Rightarrow> nat option" where
  "close_length q [] = None"
| "close_length q [c] = (if c = q then Some 1 else None)"
| "close_length q (c # d # cs) =
     (if c \<noteq> q then map_option Suc (close_length q (d # cs))
      else if q = 39 \<and> d = 39 then map_option (\<lambda>n. n + 2) (close_length q cs)
      else Some 1)"

definition opens_q :: "unicode \<Rightarrow> nat option \<Rightarrow> points \<Rightarrow> bool" where
  "opens_q u prev s =
     (case s of a # b # c # _ \<Rightarrow> if is_q a then b = 39 \<and> \<not> word_end u prev else False | _ \<Rightarrow> False)"

definition next_item :: "unicode \<Rightarrow> nat option \<Rightarrow> points \<Rightarrow> item \<times> nat" where
  "next_item u prev s =
     (let closed = (\<lambda>skip r. case r of None \<Rightarrow> (Unclosed, length s) | Some i \<Rightarrow> (Hidden, skip + i))
      in if starts (chars ''--'') s then
           (Hidden, case find_text [10] s of None \<Rightarrow> length s | Some i \<Rightarrow> i)
         else if starts (chars ''/*'') s then closed 4 (find_text (chars ''*/'') (drop 2 s))
         else if opens_q u prev s then closed 5 (find_text [q_closer (s ! 2), 39] (drop 3 s))
         else if hd s = 39 \<or> hd s = 34 then closed 1 (close_length (hd s) (tl s))
         else (Plain, 1))"

lemma find_newline: "starts (chars ''--'') s \<Longrightarrow> find_text [10] s = map_option (\<lambda>i. i + 2) (find_text [10] (drop 2 s))"
proof -
  assume "starts (chars ''--'') s"
  then obtain zs where "s = 45 # 45 # zs" unfolding starts_dash by blast
  then show ?thesis by (simp add: starts_def option.map_comp comp_def)
qed

lemma next_item_pos: "s \<noteq> [] \<Longrightarrow> 0 < snd (next_item u prev s)"
  using find_newline[of s]
  by (auto simp: next_item_def Let_def split: option.splits)

function items :: "unicode \<Rightarrow> nat option \<Rightarrow> points \<Rightarrow> (item \<times> points) list" where
  "items u prev s =
     (if s = [] then []
      else let k = fst (next_item u prev s); n = snd (next_item u prev s)
           in if k = Unclosed then [(Unclosed, s)]
              else (k, take n s) # items u (Some (last (take n s))) (drop n s))"
  by pat_completeness auto
termination
  by (relation "measure (\<lambda>(u, prev, s). length s)") (simp_all add: next_item_pos)

declare items.simps [simp del]

definition blanks :: "points \<Rightarrow> points" where
  "blanks t = map (\<lambda>_. 32) t"

definition mask_item :: "item \<times> points \<Rightarrow> points" where
  "mask_item x = (if fst x = Hidden then blanks (snd x) else snd x)"

definition mask_literals :: "unicode \<Rightarrow> points \<Rightarrow> points" where
  "mask_literals u s = concat (map mask_item (items u None s))"

text \<open>The blanks of pasted text; every space separator of Unicode is a space for Python.\<close>

definition invisible :: "nat \<Rightarrow> bool" where
  "invisible c = list_ex (\<lambda>i. int c = i) [65279, 8203, 8204, 8205, 8288]"

definition normalize_plain :: "unicode \<Rightarrow> nat \<Rightarrow> points" where
  "normalize_plain u c =
     (if invisible c then []
      else if c = 13 then [10]
      else if c = 32 \<or> c = 9 \<or> c = 10 \<or> c = 12 then [c]
      else if space u c then [32]
      else [c])"

definition normalize_item :: "unicode \<Rightarrow> item \<times> points \<Rightarrow> points" where
  "normalize_item u x = (if fst x = Plain then concat (map (normalize_plain u) (snd x)) else snd x)"

definition normalize_text :: "unicode \<Rightarrow> points \<Rightarrow> points" where
  "normalize_text u s = concat (map (normalize_item u) (items u None s))"

definition normalize_executable :: "unicode \<Rightarrow> points \<Rightarrow> points" where
  "normalize_executable u s = prepare_oracle_query u False (normalize_text u s)"

section \<open>Leading comments\<close>

definition lstrip :: "unicode \<Rightarrow> points \<Rightarrow> points" where
  "lstrip u s = dropWhile (space u) s"

definition rstrip :: "unicode \<Rightarrow> points \<Rightarrow> points" where
  "rstrip u s = rev (dropWhile (space u) (rev s))"

lemma lstrip_length: "length (lstrip u s) \<le> length s"
  by (simp add: lstrip_def length_dropWhile_le)

text \<open>The end of a comment is sought from its beginning.\<close>

function skip_comments :: "unicode \<Rightarrow> points \<Rightarrow> points" where
  "skip_comments u s =
     (if starts (chars ''--'') s then
        (case find_text [10] s of None \<Rightarrow> [] | Some i \<Rightarrow> skip_comments u (lstrip u (drop (i + 1) s)))
      else if starts (chars ''/*'') s then
        (case find_text (chars ''*/'') s of None \<Rightarrow> [] | Some i \<Rightarrow> skip_comments u (lstrip u (drop (i + 2) s)))
      else s)"
  by pat_completeness auto
termination
proof (relation "measure (\<lambda>(u, s). length s)", goal_cases)
  case (2 u s i)
  then have "s \<noteq> []" by (auto simp: starts_def chars_def)
  then show ?case using lstrip_length[of u "drop (i + 1) s"] by (auto intro: le_less_trans)
next
  case (3 u s i)
  then have "s \<noteq> []" by (auto simp: starts_def chars_def)
  then show ?case using lstrip_length[of u "drop (i + 2) s"] by (auto intro: le_less_trans)
qed simp

declare skip_comments.simps [simp del]

definition strip_leading_comments :: "unicode \<Rightarrow> points \<Rightarrow> points" where
  "strip_leading_comments u s = skip_comments u (lstrip u s)"

section \<open>The mask is the view of the lexer\<close>

lemma items_nil [simp]: "items u prev [] = []"
  by (simp add: items.simps)

lemma items_step:
  "s \<noteq> [] \<Longrightarrow> next_item u prev s = (k, n) \<Longrightarrow> k \<noteq> Unclosed \<Longrightarrow>
   items u prev s = (k, take n s) # items u (Some (last (take n s))) (drop n s)"
  by (subst items.simps) (simp add: Let_def)

lemma items_unclosed: "s \<noteq> [] \<Longrightarrow> fst (next_item u prev s) = Unclosed \<Longrightarrow> items u prev s = [(Unclosed, s)]"
  by (subst items.simps) (simp add: Let_def)

lemma items_concat: "concat (map snd (items u prev s)) = s"
proof (induction u prev s rule: items.induct)
  case (1 u prev s)
  show ?case
  proof (cases "s = [] \<or> fst (next_item u prev s) = Unclosed")
    case True
    then show ?thesis using items_unclosed[of s u prev] by (cases "s = []") auto
  next
    case False
    obtain k n where kn: "next_item u prev s = (k, n)" by fastforce
    then show ?thesis using "1.IH"[OF _ refl refl] False items_step[of s u prev k n] by auto
  qed
qed

definition same_or_blank :: "nat \<Rightarrow> nat \<Rightarrow> bool" where
  "same_or_blank m c = (m = 32 \<or> m = c)"

text \<open>The mask has the length of the text, and every place of it is a blank or the character of the text.\<close>

lemma mask_pointwise: "list_all2 same_or_blank (mask_literals u s) s"
proof -
  have "list_all2 same_or_blank (mask_item x) (snd x)" for x
    by (auto simp: mask_item_def blanks_def same_or_blank_def list_all2_conv_all_nth)
  then have "list_all2 same_or_blank (concat (map mask_item xs)) (concat (map snd xs))" for xs
    by (induction xs) (auto intro: list_all2_appendI)
  from this[of "items u None s"] show ?thesis by (simp add: mask_literals_def items_concat)
qed

lemma mask_length [simp]: "length (mask_literals u s) = length s"
  using mask_pointwise list_all2_lengthD by blast

definition mask_token :: "kind \<times> points \<Rightarrow> points" where
  "mask_token x = (if fst x \<in> {Comment, QuoteQ, Quoted} then blanks (snd x) else snd x)"

text \<open>What both scanners know: no national \<open>q\<close> quotation and nothing the lexer cannot read.\<close>

definition read_alike :: "(kind \<times> points) list \<Rightarrow> bool" where
  "read_alike ts = list_all (\<lambda>(k, t). k \<noteq> QuoteNQ \<and> k \<noteq> Invalid) ts"

lemma read_alike_simps [simp]:
  "read_alike []" "read_alike ((k, t) # ts) \<longleftrightarrow> k \<noteq> QuoteNQ \<and> k \<noteq> Invalid \<and> read_alike ts"
  "read_alike (ts @ ts') \<longleftrightarrow> read_alike ts \<and> read_alike ts'"
  by (auto simp: read_alike_def)

lemma close_39: "close_length 39 s = quoted_length 39 s"
  by (induction "39 :: nat" s rule: quoted_length.induct) auto

lemma mask_from_step:
  "s \<noteq> [] \<Longrightarrow> next_item u prev s = (k, n) \<Longrightarrow> k \<noteq> Unclosed \<Longrightarrow>
   concat (map mask_item (items u prev s)) =
     (if k = Hidden then blanks (take n s) else take n s) @ concat (map mask_item (items u (Some (last (take n s))) (drop n s)))"
  by (simp add: items_step mask_item_def)

text \<open>A quoted name with a doubled quote is one token and several items, all blanked.\<close>

lemma blanks_simps [simp]: "blanks [] = []" "blanks (c # cs) = 32 # blanks cs" "blanks (a @ b) = blanks a @ blanks b"
  by (simp_all add: blanks_def)

lemma next_item_name: "next_item u prev (34 # cs) =
    (case close_length 34 cs of None \<Rightarrow> (Unclosed, length (34 # cs)) | Some i \<Rightarrow> (Hidden, 1 + i))"
  by (simp add: next_item_def starts_def chars_def opens_q_def is_q_def Let_def split: option.split list.split)

lemma close_length_pos: "close_length q s = Some n \<Longrightarrow> 0 < n \<and> n \<le> length s \<and> s ! (n - 1) = q"
  by (induction q s arbitrary: n rule: close_length.induct) (fastforce split: if_splits simp: nth_Cons')+

lemma close_34: "close_length 34 s = map_option Suc (find_text [34] s)"
  by (induction "34 :: nat" s rule: close_length.induct) (auto simp: starts_def option.map_comp comp_def)

lemma quoted_34:
  "quoted_length 34 s = Some n \<Longrightarrow>
   \<exists>i. find_text [34] s = Some i \<and> (n = i + 1 \<or> (\<exists>m. drop (i + 1) s \<noteq> [] \<and> hd (drop (i + 1) s) = 34
      \<and> quoted_length 34 (drop (i + 2) s) = Some m \<and> n = i + 2 + m))"
proof (induction "34 :: nat" s arbitrary: n rule: quoted_length.induct)
  case (3 c d cs)
  show ?case
  proof (cases "c = 34")
    case True
    then show ?thesis using 3 by (cases "d = 34") (auto simp: starts_def)
  next
    case False
    then obtain m where m: "quoted_length 34 (d # cs) = Some m" "n = Suc m" using 3(3) by auto
    from 3(1)[OF False m(1)] obtain i where "find_text [34] (d # cs) = Some i"
      "m = i + 1 \<or> (\<exists>k. drop (i + 1) (d # cs) \<noteq> [] \<and> hd (drop (i + 1) (d # cs)) = 34
        \<and> quoted_length 34 (drop (i + 2) (d # cs)) = Some k \<and> m = i + 2 + k)" by blast
    then show ?thesis using False m(2) by (intro exI[of _ "Suc i"]) (auto simp: starts_def)
  qed
qed (auto simp: starts_def split: if_splits)

definition masked :: "unicode \<Rightarrow> nat option \<Rightarrow> points \<Rightarrow> points" where
  "masked u prev s = concat (map mask_item (items u prev s))"

lemma mask_token_code [simp]: "mask_token (Code, t) = t"
  by (simp add: mask_token_def)

lemma quoted_length_end: "quoted_length q s = Some n \<Longrightarrow> 0 < n \<and> n \<le> length s \<and> s ! (n - 1) = q"
  by (induction q s arbitrary: n rule: quoted_length.induct) (fastforce split: if_splits simp: nth_Cons')+

lemma masked_nil [simp]: "masked u prev [] = []"
  by (simp add: masked_def)

lemma masked_hidden:
  "s \<noteq> [] \<Longrightarrow> next_item u prev s = (Hidden, n) \<Longrightarrow>
   masked u prev s = blanks (take n s) @ masked u (Some (last (take n s))) (drop n s)"
  by (simp add: masked_def items_step mask_item_def)

lemma masked_plain:
  "s \<noteq> [] \<Longrightarrow> next_item u prev s = (Plain, n) \<Longrightarrow>
   masked u prev s = take n s @ masked u (Some (last (take n s))) (drop n s)"
  by (simp add: masked_def items_step mask_item_def)

lemma blanks_take_drop: "blanks (take n s) @ blanks (take m (drop n s)) = blanks (take (n + m) s)"
  by (simp add: take_add blanks_def)

lemma masked_name:
  "quoted_length 34 cs = Some n \<Longrightarrow>
   masked u prev (34 # cs) = blanks (take (n + 1) (34 # cs)) @ masked u (Some 34) (drop (n + 1) (34 # cs))"
proof (induction "length cs" arbitrary: cs n prev rule: less_induct)
  case less
  obtain i where i: "find_text [34] cs = Some i"
    "n = i + 1 \<or> (\<exists>m. drop (i + 1) cs \<noteq> [] \<and> hd (drop (i + 1) cs) = 34
       \<and> quoted_length 34 (drop (i + 2) cs) = Some m \<and> n = i + 2 + m)"
    using quoted_34[OF less.prems] by blast
  have "i < length cs" "cs ! i = 34" using close_length_pos[of 34 cs "Suc i"] i(1) by (simp_all add: close_34)
  then have "last (take (i + 2) (34 # cs)) = 34" by (simp add: last_conv_nth)
  moreover have "next_item u prev (34 # cs) = (Hidden, i + 2)" using i(1) by (simp add: next_item_name close_34)
  ultimately have first: "masked u prev (34 # cs) = blanks (take (i + 2) (34 # cs)) @ masked u (Some 34) (drop (i + 2) (34 # cs))"
    using masked_hidden[of "34 # cs" u prev "i + 2"] by simp
  from i(2) show ?case
  proof
    assume "n = i + 1"
    then show ?thesis using first by simp
  next
    assume "\<exists>m. drop (i + 1) cs \<noteq> [] \<and> hd (drop (i + 1) cs) = 34 \<and> quoted_length 34 (drop (i + 2) cs) = Some m \<and> n = i + 2 + m"
    then obtain m where m: "drop (i + 1) cs \<noteq> []" "hd (drop (i + 1) cs) = 34" "quoted_length 34 (drop (i + 2) cs) = Some m"
      "n = i + 2 + m" by blast
    have "drop (i + 2) cs = tl (drop (i + 1) cs)" by (simp add: tl_drop drop_Suc)
    then have rest: "drop (i + 2) (34 # cs) = 34 # drop (i + 2) cs"
      using m(1,2) list.collapse[OF m(1)] by simp
    have "length (drop (i + 2) cs) < length cs" using \<open>i < length cs\<close> by simp
    from less.hyps[OF this m(3), of "Some 34"] first show ?thesis
      unfolding rest m(4) using blanks_take_drop[of "i + 2" "34 # cs" "m + 1"] rest
      by (simp add: drop_drop add.commute add.left_commute)
  qed
qed

lemma opens_q_prefix: "s \<noteq> [] \<Longrightarrow> opens_q u prev s \<longleftrightarrow> q_prefix u prev s = 2 \<and> 2 < length s"
  by (auto simp: opens_q_def q_prefix_def is_q_def is_n_def split: list.splits)

text \<open>One token of the lexer is an item of the scanner, except a quoted name.\<close>

lemma item_of_token:
  assumes "s \<noteq> []" and "next_token u prev s = (k, n)" and "k \<noteq> Invalid" "k \<noteq> QuoteNQ"
  shows "next_item u prev s = (if k = Code then Plain else Hidden, n) \<or> k = Quoted \<and> hd s = 34 \<and> quoted_length 34 (tl s) = Some (n - 1) \<and> 0 < n"
proof (cases "starts (chars ''--'') s")
  case True
  then show ?thesis using assms(2) find_newline[OF True]
    by (auto simp: next_token_def next_item_def Let_def split: option.splits)
next
  case no_line: False
  show ?thesis
  proof (cases "starts (chars ''/*'') s")
    case True
    then show ?thesis using assms no_line by (auto simp: next_token_def next_item_def Let_def split: option.splits)
  next
    case no_comment: False
    show ?thesis
    proof (cases "q_prefix u prev s \<noteq> 0 \<and> q_prefix u prev s < length s")
      case True
      then have "q_prefix u prev s = 2"
        using assms(2-4) q_prefix_le[of u prev s] no_line no_comment
        by (auto simp: next_token_def Let_def split: option.splits if_splits)
      then show ?thesis using True assms no_line no_comment opens_q_prefix[OF assms(1), of u prev]
        by (auto simp: next_token_def next_item_def Let_def split: option.splits if_splits)
    next
      case False
      then have "\<not> opens_q u prev s" using opens_q_prefix[OF assms(1), of u prev] by auto
      then show ?thesis using False assms no_line no_comment
        by (auto simp: next_token_def next_item_def Let_def close_39 split: option.splits if_splits)
    qed
  qed
qed

text \<open>The mask, on which every judgement rests, blanks exactly what the lexer of the executed text reads as literals,
  quoted names and comments, for every text without a national \<open>q\<close> quotation that the lexer can read.\<close>

lemma masked_lexer:
  "read_alike (tokens u prev s) \<Longrightarrow> masked u prev s = concat (map mask_token (tokens u prev s))"
proof (induction u prev s rule: tokens.induct)
  case (1 u prev s)
  show ?case
  proof (cases "s = []")
    case False
    obtain k n where kn: "next_token u prev s = (k, n)" by fastforce
    have "k \<noteq> Invalid" using "1.prems" tokens_invalid[OF False, of u prev] kn by auto
    note step = tokens_step[OF False kn this]
    have k: "k \<noteq> Invalid" "k \<noteq> QuoteNQ" "read_alike (tokens u (Some (last (take n s))) (drop n s))"
      using "1.prems" unfolding step by simp_all
    have IH: "masked u (Some (last (take n s))) (drop n s) = concat (map mask_token (tokens u (Some (last (take n s))) (drop n s)))"
      using "1.IH"[OF False refl refl] kn k by simp
    from item_of_token[OF False kn k(1,2)] show ?thesis
    proof
      assume i: "next_item u prev s = (if k = Code then Plain else Hidden, n)"
      show ?thesis
      proof (cases "k = Code")
        case True
        then show ?thesis using masked_plain[OF False, of u prev n] i IH step by simp
      next
        case nc: False
        then have "mask_token (k, take n s) = blanks (take n s)" using k by (cases k) (simp_all add: mask_token_def)
        then show ?thesis using masked_hidden[OF False, of u prev n] i nc IH step by simp
      qed
    next
      assume q: "k = Quoted \<and> hd s = 34 \<and> quoted_length 34 (tl s) = Some (n - 1) \<and> 0 < n"
      then obtain cs where cs: "s = 34 # cs" using False by (cases s) auto
      have m: "masked u prev s = blanks (take n s) @ masked u (Some 34) (drop n s)"
        using masked_name[of cs "n - 1" u prev] q cs by simp
      have "last (take n s) = 34"
      proof -
        have e: "0 < n - 1" "n - 1 \<le> length cs" "cs ! (n - 1 - 1) = 34" using quoted_length_end[of 34 cs "n - 1"] q cs by simp_all
        then have "length (take n s) = n" "take n s \<noteq> []" using cs by auto
        then have "last (take n s) = s ! (n - 1)" using e by (simp add: last_conv_nth)
        then show ?thesis using e cs by (simp add: nth_Cons')
      qed
      moreover have "mask_token (k, take n s) = blanks (take n s)" using q by (simp add: mask_token_def)
      ultimately show ?thesis using m IH step by simp
    qed
  qed simp
qed

section \<open>Leading comments are those of the lexer\<close>

definition leading :: "unicode \<Rightarrow> kind \<times> points \<Rightarrow> bool" where
  "leading u x = (fst x = Comment \<or> fst x = Code \<and> blank u (snd x))"

text \<open>A comment the two readings agree on: it does not begin as \<open>/*/\<close>.\<close>

definition ends_alike :: "(kind \<times> points) list \<Rightarrow> bool" where
  "ends_alike ts = list_all (\<lambda>(k, t). k \<noteq> Invalid \<and> (k = Comment \<longrightarrow> \<not> starts (chars ''/*/'') t)) ts"

lemma ends_alike_simps [simp]:
  "ends_alike []"
  "ends_alike ((k, t) # ts) \<longleftrightarrow> k \<noteq> Invalid \<and> (k = Comment \<longrightarrow> \<not> starts (chars ''/*/'') t) \<and> ends_alike ts"
  by (simp_all add: ends_alike_def)

lemma space_token: "space u c \<Longrightarrow> next_token u prev (c # cs) = (Code, 1)"
proof -
  assume "space u c"
  then have "c \<noteq> 45" "c \<noteq> 47" "c \<noteq> 39" "c \<noteq> 34" "\<not> is_q c" "\<not> is_n c" by (auto simp: space_def is_q_def is_n_def)
  then show ?thesis by (simp add: next_token_def starts_def chars_def q_prefix_other)
qed

lemma space_tokens: "space u c \<Longrightarrow> tokens u prev (c # cs) = (Code, [c]) # tokens u (Some c) cs"
  using tokens_step[of "c # cs" u prev Code 1] space_token[of u c prev cs] by simp

lemma leading_space [simp]: "space u c \<Longrightarrow> leading u (Code, [c])"
  by (simp add: leading_def blank_def)

lemma lstrip_simps [simp]: "lstrip u [] = []" "space u c \<Longrightarrow> lstrip u (c # cs) = lstrip u cs" "\<not> space u c \<Longrightarrow> lstrip u (c # cs) = c # cs"
  by (simp_all add: lstrip_def)

lemma lstrip_tokens:
  "\<exists>prev'. dropWhile (leading u) (tokens u prev s) = dropWhile (leading u) (tokens u prev' (lstrip u s))
    \<and> (ends_alike (tokens u prev s) \<longrightarrow> ends_alike (tokens u prev' (lstrip u s)))"
proof (induction s arbitrary: prev)
  case (Cons c cs)
  show ?case
  proof (cases "space u c")
    case True
    then show ?thesis using Cons[of "Some c"] by (auto simp: space_tokens)
  qed auto
qed auto

lemma skip_other: "\<not> starts (chars ''--'') s \<Longrightarrow> \<not> starts (chars ''/*'') s \<Longrightarrow> skip_comments u s = s"
  by (simp add: skip_comments.simps)

lemma token_other:
  assumes "s \<noteq> []" and "\<not> starts (chars ''--'') s" "\<not> starts (chars ''/*'') s" and "\<not> space u (hd s)"
    and "next_token u prev s = (k, n)" and "k \<noteq> Invalid"
  shows "\<not> leading u (k, take n s)"
proof -
  have "k = Code \<Longrightarrow> n = 1" "k \<noteq> Comment"
    using assms(2,3,5) by (auto simp: next_token_def Let_def split: if_splits option.splits)
  then show ?thesis using assms(1,4) by (cases s) (auto simp: leading_def blank_def)
qed

lemma block_comment_end:
  assumes "starts (chars ''/*'') s" and "find_text (chars ''*/'') (drop 2 s) = Some i" and "\<not> starts (chars ''/*/'') (take (i + 4) s)"
  shows "find_text (chars ''*/'') s = Some (i + 2)"
proof -
  obtain cs where s: "s = 47 # 42 # cs" using assms(1) by (cases s rule: remdups_adj.cases) (auto simp: starts_def chars_def)
  then have "\<not> starts (chars ''*/'') (42 # cs)" using assms(3) by (cases cs) (auto simp: starts_def chars_def)
  moreover have "\<not> starts (chars ''*/'') (47 # 42 # cs)" by (simp add: starts_def chars_def)
  ultimately show ?thesis using assms(2) by (simp add: s)
qed

lemma leading_comments_skipped:
  "ends_alike (tokens u prev s) \<Longrightarrow> skip_comments u (lstrip u s) = concat (map snd (dropWhile (leading u) (tokens u prev s)))"
proof (induction "length s" arbitrary: s prev rule: less_induct)
  case less
  obtain prev' where p: "dropWhile (leading u) (tokens u prev s) = dropWhile (leading u) (tokens u prev' (lstrip u s))"
    "ends_alike (tokens u prev' (lstrip u s))" using lstrip_tokens[of u prev s] less.prems by blast
  define r where "r = lstrip u s"
  show ?case
  proof (cases "r = []")
    case True
    have "skip_comments u [] = []" by (simp add: skip_comments.simps starts_def chars_def)
    moreover have "dropWhile (leading u) (tokens u prev s) = []" using p(1) True unfolding r_def by simp
    ultimately show ?thesis using True unfolding r_def by (metis concat.simps(1) list.simps(8))
  next
    case ne: False
    have len: "length r \<le> length s" by (simp add: r_def lstrip_length)
    obtain k n where kn: "next_token u prev' r = (k, n)" by fastforce
    have k: "k \<noteq> Invalid" using p(2) tokens_invalid[OF ne, of u prev'] kn by (auto simp: r_def)
    note step = tokens_step[OF ne kn k]
    have rest: "ends_alike (tokens u (Some (last (take n r))) (drop n r))" "k = Comment \<longrightarrow> \<not> starts (chars ''/*/'') (take n r)"
      using p(2) step by (simp_all add: r_def)
    have goal: "dropWhile (leading u) (tokens u prev s) = dropWhile (leading u) ((k, take n r) # tokens u (Some (last (take n r))) (drop n r))"
      using p(1) step by (simp add: r_def)
    show ?thesis
    proof (cases "starts (chars ''--'') r")
      case True
      show ?thesis
      proof (cases "find_text [10] (drop 2 r)")
        case None
        then have "k = Comment" "n = length r" using kn True by (simp_all add: next_token_def)
        moreover have "skip_comments u r = []" using None True find_newline[OF True] by (simp add: skip_comments.simps)
        moreover have "dropWhile (leading u) (tokens u prev s) = []"
          unfolding goal \<open>k = Comment\<close> \<open>n = length r\<close> by (simp add: leading_def)
        ultimately show ?thesis unfolding r_def by (metis concat.simps(1) list.simps(8))
      next
        case (Some j)
        then have kn': "k = Comment" "n = j + 2" using kn True by (simp_all add: next_token_def)
        obtain ys where ys: "drop j (drop 2 r) = 10 # ys" using find_char[OF Some] by blast
        then have dr: "drop n r = 10 # ys" using kn' by (simp only: drop_drop)
        then have dr': "drop (j + 3) r = ys" using kn' drop_drop[of 1 "j + 2" r] by (simp add: eval_nat_numeral)
        have sp: "space u 10" by (simp add: space_def)
        have "skip_comments u r = skip_comments u (lstrip u ys)"
          using Some True find_newline[OF True] dr' by (subst skip_comments.simps) (simp add: numeral_3_eq_3)
        moreover have "length ys < length s" using len dr by (metis length_Cons length_drop diff_le_self le_trans not_less_eq_eq not_le)
        moreover have "ends_alike (tokens u (Some 10) ys)" using rest(1) dr sp by (simp add: space_tokens)
        ultimately show ?thesis using less.hyps[of ys "Some 10"] goal dr sp kn'(1) by (simp add: r_def space_tokens leading_def blank_def)
      qed
    next
      case nl: False
      show ?thesis
      proof (cases "starts (chars ''/*'') r")
        case True
        then obtain i where i: "find_text (chars ''*/'') (drop 2 r) = Some i" "k = Comment" "n = i + 4"
          using kn nl k by (auto simp: next_token_def split: option.splits)
        have "skip_comments u r = skip_comments u (lstrip u (drop n r))"
          using nl True block_comment_end[OF True i(1)] rest(2) i
          by (subst skip_comments.simps) (simp add: eval_nat_numeral)
        moreover have "length (drop n r) < length s" using len i(3) ne by (cases r) auto
        ultimately show ?thesis using less.hyps[of "drop n r"] rest(1) goal i(2) by (simp add: r_def leading_def)
      next
        case nb: False
        have "\<not> space u (hd r)" using ne hd_dropWhile[of "space u" s] by (simp add: r_def lstrip_def)
        then have "\<not> leading u (k, take n r)" using token_other[OF ne nl nb _ kn k] by simp
        then have "concat (map snd (dropWhile (leading u) (tokens u prev s))) = r"
          using goal step tokens_concat[of u prev' r] by simp
        then show ?thesis using skip_other[OF nl nb] by (simp add: r_def)
      qed
    qed
  qed
qed

text \<open>The comment \<open>/*/ ... */\<close> is taken to end at once, so that its text stands as the statement.\<close>

lemma half_comment_is_the_statement:
  "strip_leading_comments ascii_only (chars ''/*/ select 1 from dual -- */ drop table t'') = chars ''select 1 from dual -- */ drop table t''"
  "map snd (dropWhile (leading ascii_only) (tokens ascii_only None (chars ''/*/ select 1 from dual -- */ drop table t'')))
     = map (\<lambda>c. [of_char c]) ''drop table t''"
  by code_simp+

end
