(* ===== verification/SqlGuard.thy ===== *)
theory SqlGuard
  imports SqlMask
begin

text \<open>The guard before SQL is run (\<open>nl2sql/service.py\<close>): a text is split into statements, and only a single query may
  run without a confirmation. Everything is judged on the mask of \<open>SqlMask\<close>. The parser (a library behind
  \<open>parse_oracle_sql\<close>) is an argument: whether it reads a text as one query without side effects.\<close>

section \<open>Patterns\<close>

text \<open>Letters as an expression that ignores case compares them; the Kelvin sign counts as K.\<close>

definition fold_re :: "nat \<Rightarrow> nat" where
  "fold_re c = (if int c = 8490 then 75 else fold_case c)"

definition is_word :: "unicode \<Rightarrow> nat \<Rightarrow> bool" where
  "is_word u c = (alnum u c \<or> c = 95)"

definition eat :: "string \<Rightarrow> points \<Rightarrow> points option" where
  "eat w s = (if map fold_re (take (length w) s) = chars w then Some (drop (length w) s) else None)"

definition eat_spaces :: "unicode \<Rightarrow> points \<Rightarrow> points option" where
  "eat_spaces u s = (if s \<noteq> [] \<and> space u (hd s) then Some (lstrip u s) else None)"

definition word_ends :: "unicode \<Rightarrow> points \<Rightarrow> bool" where
  "word_ends u s = (s = [] \<or> \<not> is_word u (hd s))"

definition word_at :: "unicode \<Rightarrow> string \<Rightarrow> points \<Rightarrow> bool" where
  "word_at u w s = (case eat w s of None \<Rightarrow> False | Some r \<Rightarrow> word_ends u r)"

definition eat_word :: "unicode \<Rightarrow> string \<Rightarrow> points \<Rightarrow> points option" where
  "eat_word u w s = Option.bind (eat w s) (eat_spaces u)"

definition ascii_lower :: "nat \<Rightarrow> nat" where
  "ascii_lower c = (if 65 \<le> c \<and> c \<le> 90 then c + 32 else c)"

definition lower_is :: "points \<Rightarrow> string \<Rightarrow> bool" where
  "lower_is w k = (map ascii_lower w = chars k)"

text \<open>The word at a place, empty if there is none.\<close>

definition sql_word :: "unicode \<Rightarrow> points \<Rightarrow> points" where
  "sql_word u s =
     (case s of
        [] \<Rightarrow> []
      | c # cs \<Rightarrow>
          if 65 \<le> c \<and> c \<le> 90 \<or> 97 \<le> c \<and> c \<le> 122 \<or> c = 95
          then c # takeWhile (\<lambda>d. is_word u d \<or> d = 36 \<or> d = 35) cs else [])"

section \<open>Statements\<close>

text \<open>A slash alone on its line; \<open>before\<close> is the text before it, read backwards.\<close>

definition slash_line :: "unicode \<Rightarrow> points \<Rightarrow> points \<Rightarrow> bool" where
  "slash_line u before s =
     (case s of
        [] \<Rightarrow> False
      | c # cs \<Rightarrow>
          if c = 47 then blank u (takeWhile (\<lambda>c. c \<noteq> 10) before) \<and> blank u (takeWhile (\<lambda>c. c \<noteq> 10) cs) else False)"

text \<open>The word between an \<open>END\<close> and the semicolon after it.\<close>

definition end_clause :: "unicode \<Rightarrow> points \<Rightarrow> points" where
  "end_clause u s =
     (let s = lstrip u s; w = sql_word u s; r = lstrip u (drop (length w) s)
      in if w \<noteq> [] \<and> r \<noteq> [] \<and> hd r = 59 then map ascii_lower w else [])"

definition block_kinds :: "string list" where
  "block_kinds = [''PROCEDURE'', ''FUNCTION'', ''PACKAGE'', ''TRIGGER'', ''TYPE'']"

text \<open>What \<open>CREATE\<close> begins a block. That \<open>PACKAGE\<close> and \<open>TYPE\<close> may go on with \<open>BODY\<close> makes no difference.\<close>

definition creates_block :: "unicode \<Rightarrow> points \<Rightarrow> bool" where
  "creates_block u s =
     (case eat_word u ''CREATE'' s of
        None \<Rightarrow> False
      | Some a \<Rightarrow>
          let b = (case Option.bind (eat_word u ''OR'' a) (eat_word u ''REPLACE'') of Some b \<Rightarrow> b | None \<Rightarrow> a);
              c = (case eat_word u ''EDITIONABLE'' b of
                     Some c \<Rightarrow> c
                   | None \<Rightarrow> (case eat_word u ''NONEDITIONABLE'' b of Some c \<Rightarrow> c | None \<Rightarrow> b))
          in list_ex (\<lambda>k. word_at u k c) block_kinds)"

datatype block_mode = Anonymous | SlashEnded

record split_state =
  sp_code :: bool
  sp_mode :: "block_mode option"
  sp_depth :: nat
  sp_cases :: nat
  sp_declares :: nat
  sp_closing :: bool

definition fresh_state :: split_state where
  "fresh_state = \<lparr>sp_code = False, sp_mode = None, sp_depth = 0, sp_cases = 0, sp_declares = 0, sp_closing = False\<rparr>"

definition block_word :: "points \<Rightarrow> points \<Rightarrow> split_state \<Rightarrow> split_state" where
  "block_word w end_kind st =
     (if lower_is w ''declare'' then
        st\<lparr>sp_depth := sp_depth st + 1, sp_declares := sp_declares st + 1, sp_closing := False\<rparr>
      else if lower_is w ''begin'' then
        (if 0 < sp_declares st then st\<lparr>sp_declares := sp_declares st - 1, sp_closing := False\<rparr>
         else st\<lparr>sp_depth := sp_depth st + 1, sp_closing := False\<rparr>)
      else if lower_is w ''case'' then st\<lparr>sp_cases := sp_cases st + 1, sp_closing := False\<rparr>
      else if lower_is w ''end'' then
        (if 0 < sp_cases st \<or> end_kind = chars ''case'' then st\<lparr>sp_cases := sp_cases st - 1, sp_closing := False\<rparr>
         else if end_kind = chars ''if'' \<or> end_kind = chars ''loop'' then st\<lparr>sp_closing := False\<rparr>
         else st\<lparr>sp_depth := sp_depth st - 1, sp_closing := (sp_depth st - 1 = 0)\<rparr>)
      else if sp_closing st \<and> \<not> lower_is w ''if'' \<and> \<not> lower_is w ''loop'' then st
      else st\<lparr>sp_closing := False\<rparr>)"

definition word_step :: "unicode \<Rightarrow> points \<Rightarrow> points \<Rightarrow> split_state \<Rightarrow> split_state" where
  "word_step u w s st =
     (let mode = (if sp_code st then sp_mode st
                  else if lower_is w ''begin'' \<or> lower_is w ''declare'' then Some Anonymous
                  else if creates_block u s then Some SlashEnded
                  else sp_mode st);
          st = st\<lparr>sp_code := True, sp_mode := mode\<rparr>
      in if mode = Some Anonymous then block_word w (end_clause u (drop (length w) s)) st else st)"

text \<open>A piece of the text with its mask and the kind of its block. \<open>got\<close> is the piece so far and \<open>gm\<close> its mask, both
  read backwards; \<open>m\<close> is the mask still to be read and \<open>s\<close> its text.\<close>

type_synonym text_piece = "block_mode option \<times> points \<times> points"

definition piece_of :: "split_state \<Rightarrow> points \<Rightarrow> points \<Rightarrow> text_piece" where
  "piece_of st gm got = (sp_mode st, rev gm, rev got)"

datatype move = Go nat split_state | Cut | CutAfter

definition next_move :: "unicode \<Rightarrow> split_state \<Rightarrow> points \<Rightarrow> points \<Rightarrow> move" where
  "next_move u st before m =
     (if slash_line u before m then Cut
      else if space u (hd m) then Go 1 st
      else
        let w = sql_word u m; st' = st\<lparr>sp_code := True\<rparr>
        in if w \<noteq> [] then Go (length w) (word_step u w m st)
           else if hd m = 59 then
             (case sp_mode st of
                Some SlashEnded \<Rightarrow> Go 1 st'
              | Some Anonymous \<Rightarrow> if sp_closing st \<and> sp_depth st = 0 \<and> sp_cases st = 0 then CutAfter else Go 1 st'
              | None \<Rightarrow> Cut)
           else Go 1 (st'\<lparr>sp_closing := False\<rparr>))"

lemma sql_word_length: "length (sql_word u m) \<le> length m"
  by (auto simp: sql_word_def length_takeWhile_le split: list.splits)

lemma next_move_pos: "m \<noteq> [] \<Longrightarrow> next_move u st before m = Go n st' \<Longrightarrow> 0 < n \<and> n \<le> length m"
  using sql_word_length[of u m]
  by (cases m) (auto simp: next_move_def Let_def split: if_splits option.splits block_mode.splits)

function split_from :: "unicode \<Rightarrow> split_state \<Rightarrow> points \<Rightarrow> points \<Rightarrow> points \<Rightarrow> points \<Rightarrow> points \<Rightarrow> text_piece list" where
  "split_from u st before gm got m s =
     (if m = [] then [piece_of st gm got]
      else case next_move u st before m of
        Go n st' \<Rightarrow> split_from u st' (rev (take n m) @ before) (rev (take n m) @ gm) (rev (take n s) @ got) (drop n m) (drop n s)
      | Cut \<Rightarrow> piece_of st gm got # split_from u fresh_state (hd m # before) [] [] (tl m) (tl s)
      | CutAfter \<Rightarrow>
          piece_of st (hd m # gm) (hd s # got) # split_from u fresh_state (hd m # before) [] [] (tl m) (tl s))"
  by pat_completeness auto
termination
  by (relation "measure (\<lambda>(u, st, before, gm, got, m, s). length m)") (auto dest: next_move_pos)

declare split_from.simps [simp del]

definition pieces_of :: "unicode \<Rightarrow> points \<Rightarrow> text_piece list" where
  "pieces_of u text = split_from u fresh_state [] [] [] (mask_literals u text) text"

definition has_sql :: "unicode \<Rightarrow> points \<Rightarrow> bool" where
  "has_sql u s = (strip_points u (strip_leading_comments u s) \<noteq> [])"

definition split_statements :: "unicode \<Rightarrow> points \<Rightarrow> points list" where
  "split_statements u sql =
     filter (has_sql u) (map (\<lambda>(mode, m, s). strip_points u s) (pieces_of u (normalize_text u sql)))"

section \<open>Queries only\<close>

definition FORBIDDEN_PREFIXES :: "string list" where
  "FORBIDDEN_PREFIXES =
     [''insert'', ''update'', ''delete'', ''merge'', ''drop'', ''alter'', ''create'', ''truncate'', ''grant'', ''revoke'',
      ''begin'', ''declare'', ''call'']"

definition query_head :: "unicode \<Rightarrow> points \<Rightarrow> points" where
  "query_head u m = map ascii_lower (lstrip u (dropWhile (\<lambda>c. c = 40) m))"

definition drop_final_semicolons :: "unicode \<Rightarrow> points \<Rightarrow> points" where
  "drop_final_semicolons u m = rev (dropWhile (\<lambda>c. c = 59) (rev (rstrip u m)))"

definition query_statement :: "unicode \<Rightarrow> (points \<Rightarrow> bool) \<Rightarrow> points \<Rightarrow> bool" where
  "query_statement u parsed st =
     (let stripped = strip_points u (strip_leading_comments u st); m = mask_literals u stripped; head = query_head u m
      in if stripped = [] then False
         else if list_ex (\<lambda>p. starts (chars p) head) FORBIDDEN_PREFIXES then False
         else if 59 \<in> set (drop_final_semicolons u m) then False
         else if \<not> (starts (chars ''select'') head \<or> starts (chars ''with'') head) then False
         else parsed stripped)"

definition is_select_only :: "unicode \<Rightarrow> (points \<Rightarrow> bool) \<Rightarrow> points \<Rightarrow> bool" where
  "is_select_only u parsed sql = (case split_statements u sql of [st] \<Rightarrow> query_statement u parsed st | _ \<Rightarrow> False)"

section \<open>Kinds of statements and dynamic SQL\<close>

definition comment_target :: "unicode \<Rightarrow> points \<Rightarrow> bool" where
  "comment_target u s =
     (case Option.bind (eat_word u ''COMMENT'' s) (eat_word u ''ON'') of
        None \<Rightarrow> False
      | Some r \<Rightarrow>
          let letter = (\<lambda>c. 65 \<le> fold_re c \<and> fold_re c \<le> 90 \<or> c = 95)
          in takeWhile letter r \<noteq> [] \<and> word_ends u (dropWhile letter r))"

definition typed_keywords :: "string list" where
  "typed_keywords =
     [''INSERT'', ''UPDATE'', ''DELETE'', ''MERGE'', ''CREATE'', ''DROP'', ''ALTER'', ''TRUNCATE'', ''RENAME'', ''FLASHBACK'',
      ''PURGE'', ''GRANT'', ''REVOKE'']"

definition admin_statement_type :: "unicode \<Rightarrow> points \<Rightarrow> string" where
  "admin_statement_type u sql =
     (let s = strip_points u (strip_leading_comments u sql)
      in if comment_target u s then ''COMMENT''
         else if list_ex (\<lambda>k. word_at u k s) [''SELECT'', ''WITH''] then ''SELECT''
         else if list_ex (\<lambda>k. word_at u k s) [''BEGIN'', ''DECLARE'', ''EXEC'', ''EXECUTE''] then ''PLSQL''
         else case find (\<lambda>k. word_at u k s) typed_keywords of Some k \<Rightarrow> k | None \<Rightarrow> ''UNKNOWN'')"

text \<open>The search of an expression that begins with a word.\<close>

fun word_search :: "unicode \<Rightarrow> (points \<Rightarrow> bool) \<Rightarrow> nat option \<Rightarrow> points \<Rightarrow> bool" where
  "word_search u p prev [] = False"
| "word_search u p prev (c # cs) =
     ((case prev of None \<Rightarrow> True | Some d \<Rightarrow> \<not> is_word u d) \<and> p (c # cs) \<or> word_search u p (Some c) cs)"

definition execute_immediate :: "unicode \<Rightarrow> points \<Rightarrow> bool" where
  "execute_immediate u s = (case eat_word u ''EXECUTE'' s of None \<Rightarrow> False | Some r \<Rightarrow> word_at u ''IMMEDIATE'' r)"

definition parses_text :: "unicode \<Rightarrow> points \<Rightarrow> bool" where
  "parses_text u s =
     (case eat ''DBMS_SQL'' s of
        None \<Rightarrow> False
      | Some r \<Rightarrow> (case eat ''.'' (lstrip u r) of None \<Rightarrow> False | Some r \<Rightarrow> word_at u ''PARSE'' (lstrip u r)))"

text \<open>Between \<open>OPEN\<close> and \<open>FOR\<close> stand three characters or more, none a semicolon, the first and the last blanks.\<close>

definition opens_for :: "unicode \<Rightarrow> points \<Rightarrow> bool" where
  "opens_for u s =
     (case eat ''OPEN'' s of
        None \<Rightarrow> False
      | Some r \<Rightarrow>
          list_ex (\<lambda>n. space u (hd r) \<and> 59 \<notin> set (take n r) \<and> space u (r ! (n - 1)) \<and> word_at u ''FOR'' (drop n r))
            [3..<length r])"

definition dynamic_sql_error :: "unicode \<Rightarrow> points \<Rightarrow> bool" where
  "dynamic_sql_error u st =
     (if admin_statement_type u st \<notin> {''PLSQL'', ''UNKNOWN''} then False
      else list_ex (\<lambda>p. word_search u p None (mask_literals u st)) [execute_immediate u, parses_text u, opens_for u])"

section \<open>What a piece is\<close>

text \<open>Pieces are cut out of the mask and the text at the same places; between two of them stands nothing, a slash or a
  semicolon, the same in both.\<close>

fun cut_up :: "points \<Rightarrow> points \<Rightarrow> text_piece list \<Rightarrow> bool" where
  "cut_up m s [] = False"
| "cut_up m s [(k, pm, ps)] = (m = pm \<and> s = ps)"
| "cut_up m s ((k, pm, ps) # q # qs) =
     (\<exists>c m' s'. m = pm @ c @ m' \<and> s = ps @ c @ s' \<and> length pm = length ps \<and> c \<in> {[], [47], [59]} \<and> cut_up m' s' (q # qs))"

definition begins_block :: "unicode \<Rightarrow> points \<Rightarrow> bool" where
  "begins_block u m = list_ex (\<lambda>k. eat k (lstrip u m) \<noteq> None) [''BEGIN'', ''DECLARE'', ''CREATE'']"

definition piece_ok :: "unicode \<Rightarrow> text_piece \<Rightarrow> bool" where
  "piece_ok u p = (if fst p = None then 59 \<notin> set (fst (snd p)) else begins_block u (fst (snd p)))"

lemma split_from_nonempty: "split_from u st before gm got m s \<noteq> []"
proof (induction u st before gm got m s rule: split_from.induct)
  case (1 u st before gm got m s)
  then show ?case by (cases "next_move u st before m") (simp_all add: split_from.simps[of u st before gm got m s])
qed

lemma cut_up_Cons:
  "ps \<noteq> [] \<Longrightarrow> cut_up m s ((k, pm, pt) # ps) \<longleftrightarrow>
   (\<exists>c m' s'. m = pm @ c @ m' \<and> s = pt @ c @ s' \<and> length pm = length pt \<and> c \<in> {[], [47], [59]} \<and> cut_up m' s' ps)"
  by (cases ps) auto

lemma cut_upI:
  "cut_up m' s' ps \<Longrightarrow> ps \<noteq> [] \<Longrightarrow> length pm = length pt \<Longrightarrow> c \<in> {[], [47], [59]} \<Longrightarrow>
   cut_up (pm @ c @ m') (pt @ c @ s') ((k, pm, pt) # ps)"
  unfolding cut_up_Cons by blast

lemma move_cut: "m \<noteq> [] \<Longrightarrow> next_move u st before m = Cut \<Longrightarrow> hd m = 47 \<or> hd m = 59"
  by (cases m) (auto simp: next_move_def slash_line_def Let_def split: if_splits option.splits block_mode.splits)

lemma split_from_cut_up:
  "list_all2 same_or_blank m s \<Longrightarrow> length gm = length got \<Longrightarrow>
   cut_up (rev gm @ m) (rev got @ s) (split_from u st before gm got m s)"
proof (induction u st before gm got m s rule: split_from.induct)
  case (1 u st before gm got m s)
  show ?case
  proof (cases m)
    case Nil
    then show ?thesis using "1.prems" by (simp add: split_from.simps piece_of_def)
  next
    case (Cons a ms)
    then obtain b ss where s: "s = b # ss" "same_or_blank a b" "list_all2 same_or_blank ms ss"
      using "1.prems"(1) by (auto simp: list_all2_Cons1)
    have ne: "m \<noteq> []" using Cons by simp
    show ?thesis
    proof (cases "next_move u st before m")
      case (Go n st')
      have "cut_up (rev (rev (take n m) @ gm) @ drop n m) (rev (rev (take n s) @ got) @ drop n s)
          (split_from u st' (rev (take n m) @ before) (rev (take n m) @ gm) (rev (take n s) @ got) (drop n m) (drop n s))"
        by (rule "1.IH"(1)[OF ne Go]) (use "1.prems" in \<open>auto simp: list_all2_dropI dest: list_all2_lengthD\<close>)
      then show ?thesis using ne Go by (subst split_from.simps) simp
    next
      case Cut
      then have "a = b" "a = 47 \<or> a = 59" using move_cut[OF ne Cut] Cons s(2) by (auto simp: same_or_blank_def)
      moreover have "cut_up ms ss (split_from u fresh_state (hd m # before) [] [] (tl m) (tl s))"
        using "1.IH"(2)[OF ne Cut] s Cons by simp
      moreover have "split_from u st before gm got m s
          = piece_of st gm got # split_from u fresh_state (hd m # before) [] [] (tl m) (tl s)"
        using ne Cut by (subst split_from.simps) simp
      ultimately show ?thesis using Cons s(1) "1.prems"(2) cut_upI[of ms ss _ "rev gm" "rev got" "[a]" "sp_mode st"]
        by (auto simp: piece_of_def split_from_nonempty)
    next
      case CutAfter
      have "cut_up ms ss (split_from u fresh_state (hd m # before) [] [] (tl m) (tl s))"
        using "1.IH"(3)[OF ne CutAfter] s Cons by simp
      moreover have "split_from u st before gm got m s
          = piece_of st (hd m # gm) (hd s # got) # split_from u fresh_state (hd m # before) [] [] (tl m) (tl s)"
        using ne CutAfter by (subst split_from.simps) simp
      ultimately show ?thesis using Cons s(1) "1.prems"(2) cut_upI[of ms ss _ "rev (a # gm)" "rev (b # got)" "[]" "sp_mode st"]
        by (auto simp: piece_of_def split_from_nonempty)
    qed
  qed
qed

lemma eat_append: "eat k s \<noteq> None \<Longrightarrow> eat k (s @ r) \<noteq> None"
proof -
  assume "eat k s \<noteq> None"
  then have e: "map fold_re (take (length k) s) = chars k" by (auto simp: eat_def split: if_splits)
  from arg_cong[OF e, of length] have "length k \<le> length s" by (simp add: chars_def)
  then show ?thesis using e by (simp add: eat_def)
qed

lemma eat_nil: "k \<noteq> [] \<Longrightarrow> eat k [] = None"
  by (auto simp: eat_def chars_def)

lemma lstrip_append: "lstrip u s \<noteq> [] \<Longrightarrow> lstrip u (s @ r) = lstrip u s @ r"
  by (auto simp: lstrip_def dropWhile_append)

lemma begins_block_append: "begins_block u m \<Longrightarrow> begins_block u (m @ r)"
proof -
  assume b: "begins_block u m"
  then have "lstrip u m \<noteq> []" by (auto simp: begins_block_def eat_nil)
  then show ?thesis using b eat_append by (auto simp: begins_block_def lstrip_append)
qed

lemma ascii_lower_letter: "97 \<le> d \<Longrightarrow> d \<le> 122 \<Longrightarrow> ascii_lower c = d \<Longrightarrow> fold_re c = d - 32"
  by (auto simp: ascii_lower_def fold_re_def fold_case_def split: if_splits)

lemma block_word_eaten: "lower_is w ''begin'' \<or> lower_is w ''declare'' \<Longrightarrow> eat ''BEGIN'' w \<noteq> None \<or> eat ''DECLARE'' w \<noteq> None"
proof -
  have lower: "map ascii_lower w = ks \<Longrightarrow> list_all (\<lambda>d. 97 \<le> d \<and> d \<le> 122) ks \<Longrightarrow> map fold_re w = map (\<lambda>d. d - 32) ks" for ks
    by (induction w arbitrary: ks) (auto simp: ascii_lower_letter)
  assume "lower_is w ''begin'' \<or> lower_is w ''declare''"
  then have "map fold_re w = chars ''BEGIN'' \<or> map fold_re w = chars ''DECLARE''"
    using lower[of "chars ''begin''"] lower[of "chars ''declare''"] by (auto simp: lower_is_def chars_def)
  moreover have "eat k w \<noteq> None" if "map fold_re w = chars k" for k
  proof -
    have "length w = length k" using arg_cong[OF that, of length] by (simp add: chars_def)
    then show ?thesis using that by (simp add: eat_def)
  qed
  ultimately show ?thesis by blast
qed

lemma fold_CREATE:
  "fold_re c = 67 \<longleftrightarrow> c = 67 \<or> c = 99" "fold_re c = 82 \<longleftrightarrow> c = 82 \<or> c = 114" "fold_re c = 69 \<longleftrightarrow> c = 69 \<or> c = 101"
  "fold_re c = 65 \<longleftrightarrow> c = 65 \<or> c = 97" "fold_re c = 84 \<longleftrightarrow> c = 84 \<or> c = 116"
  by (auto simp: fold_re_def fold_case_def)

lemma CREATE_letter:
  "fold_re c \<in> {67, 82, 69, 65, 84} \<Longrightarrow> is_word u c" "fold_re c = 67 \<Longrightarrow> 65 \<le> c \<and> c \<le> 90 \<or> 97 \<le> c \<and> c \<le> 122 \<or> c = 95"
  by (auto simp: fold_CREATE is_word_def alnum_def)

lemma create_word_eaten: "creates_block u m \<Longrightarrow> eat ''CREATE'' (sql_word u m) \<noteq> None"
proof -
  assume "creates_block u m"
  then have "eat ''CREATE'' m \<noteq> None" by (cases "eat ''CREATE'' m") (simp_all add: creates_block_def eat_word_def)
  then have "map fold_re (take 6 m) = [67, 82, 69, 65, 84, 69]" by (auto simp: eat_def chars_def eval_nat_numeral split: if_splits)
  then obtain a b c d e f where t: "take 6 m = [a, b, c, d, e, f]"
    "fold_re a = 67" "fold_re b = 82" "fold_re c = 69" "fold_re d = 65" "fold_re e = 84" "fold_re f = 69"
    unfolding map_eq_Cons_conv by blast
  moreover have "m = take 6 m @ drop 6 m" by simp
  ultimately have m: "m = a # b # c # d # e # f # drop 6 m" by (metis append_Cons append_Nil)
  have "\<exists>r'. sql_word u m = a # b # c # d # e # f # r'"
    using t(2-7) by (subst m) (simp add: sql_word_def CREATE_letter)
  then show ?thesis using t by (auto simp: eat_def chars_def)
qed

lemma block_word_mode [simp]: "sp_mode (block_word w e st) = sp_mode st" "sp_code (block_word w e st) = sp_code st"
  by (simp_all add: block_word_def)

text \<open>The state agrees with the mask of the piece so far.\<close>

definition state_ok :: "unicode \<Rightarrow> split_state \<Rightarrow> points \<Rightarrow> bool" where
  "state_ok u st pm =
     ((\<not> sp_code st \<longrightarrow> sp_mode st = None \<and> blank u pm) \<and> (sp_mode st = None \<longrightarrow> 59 \<notin> set pm)
      \<and> (sp_mode st \<noteq> None \<longrightarrow> begins_block u pm))"

lemma fresh_ok [simp]: "state_ok u fresh_state []"
  by (simp add: state_ok_def fresh_state_def blank_def)

lemma sql_word_take: "take (length (sql_word u m)) m = sql_word u m"
proof (cases m)
  case (Cons c cs)
  show ?thesis by (cases "sql_word u m = []") (auto simp: Cons sql_word_def takeWhile_eq_take[symmetric])
qed (simp add: sql_word_def)

lemma sql_word_no_semicolon: "59 \<notin> set (sql_word u m)"
  by (auto simp: sql_word_def is_word_def alnum_def dest: set_takeWhileD split: list.splits)

lemma blank_lstrip: "blank u a \<Longrightarrow> lstrip u (a @ w) = lstrip u w"
  by (auto simp: blank_def lstrip_def list_all_iff dropWhile_append2)

lemma word_not_space: "sql_word u m \<noteq> [] \<Longrightarrow> lstrip u (sql_word u m) = sql_word u m"
  by (auto simp: sql_word_def lstrip_def space_def split: list.splits if_splits)

lemma word_step_ok:
  assumes "state_ok u st pm" and "sql_word u m \<noteq> []"
  shows "state_ok u (word_step u (sql_word u m) m st) (pm @ sql_word u m)"
proof (cases "sp_code st")
  case True
  then show ?thesis using assms(1) sql_word_no_semicolon[of u m]
    by (auto simp: state_ok_def word_step_def Let_def begins_block_append)
next
  case False
  then have pm: "blank u pm" "sp_mode st = None" "59 \<notin> set pm" using assms(1) by (auto simp: state_ok_def)
  have "begins_block u (pm @ sql_word u m)"
    if "lower_is (sql_word u m) ''begin'' \<or> lower_is (sql_word u m) ''declare'' \<or> creates_block u m"
    using that block_word_eaten[of "sql_word u m"] create_word_eaten[of u m]
    by (auto simp: begins_block_def blank_lstrip[OF pm(1)] word_not_space[OF assms(2)])
  then show ?thesis using pm sql_word_no_semicolon[of u m] False
    by (auto simp: state_ok_def word_step_def Let_def)
qed

lemma move_ok:
  assumes "m \<noteq> []" and "next_move u st before m = Go n st'" and "state_ok u st pm"
  shows "state_ok u st' (pm @ take n m)"
proof -
  obtain c ms where m: "m = c # ms" using assms(1) by (cases m) auto
  consider "space u c" "n = 1" "st' = st" | "sql_word u m \<noteq> []" "n = length (sql_word u m)" "st' = word_step u (sql_word u m) m st"
    | "n = 1" "sp_mode st' = sp_mode st" "sp_code st'" "sp_mode st = None \<longrightarrow> c \<noteq> 59"
    using assms(2) m by (auto simp: next_move_def Let_def split: if_splits option.splits block_mode.splits)
  then show ?thesis
  proof cases
    case 1
    then have "c \<noteq> 59" by (auto simp: space_def)
    then show ?thesis using 1 assms(3) m by (auto simp: state_ok_def begins_block_append blank_def)
  next
    case 2
    then show ?thesis using word_step_ok[OF assms(3) 2(1)] by (simp add: sql_word_take)
  next
    case 3
    then show ?thesis using assms(3) m by (auto simp: state_ok_def begins_block_append)
  qed
qed

lemma move_after: "next_move u st before m = CutAfter \<Longrightarrow> sp_mode st = Some Anonymous"
  by (auto simp: next_move_def Let_def split: if_splits option.splits block_mode.splits)

lemma split_from_ok:
  "state_ok u st (rev gm) \<Longrightarrow> list_all (piece_ok u) (split_from u st before gm got m s)"
proof (induction u st before gm got m s rule: split_from.induct)
  case (1 u st before gm got m s)
  have here: "piece_ok u (piece_of st gm got)" using "1.prems" by (auto simp: piece_ok_def piece_of_def state_ok_def)
  show ?case
  proof (cases "m = []")
    case True
    then show ?thesis using here by (simp add: split_from.simps)
  next
    case ne: False
    show ?thesis
    proof (cases "next_move u st before m")
      case (Go n st')
      then show ?thesis using "1.IH"(1)[OF ne Go] move_ok[OF ne Go "1.prems"] ne by (subst split_from.simps) simp
    next
      case Cut
      then show ?thesis using "1.IH"(2)[OF ne Cut] here ne by (subst split_from.simps) simp
    next
      case CutAfter
      then have "piece_ok u (piece_of st (hd m # gm) (hd s # got))"
        using "1.prems" move_after[OF CutAfter] by (simp add: piece_ok_def piece_of_def state_ok_def begins_block_append)
      then show ?thesis using "1.IH"(3)[OF ne CutAfter] CutAfter ne by (subst split_from.simps) simp
    qed
  qed
qed

text \<open>The splitting loses nothing and never hands on two statements as one: the pieces are the text, cut at slashes
  and semicolons that the mask shows, and only a piece that begins as a block holds a semicolon of its own.\<close>

theorem pieces_are_the_text:
  "cut_up (mask_literals u text) text (pieces_of u text) \<and> list_all (piece_ok u) (pieces_of u text)"
  using split_from_cut_up[OF mask_pointwise, of "[]" "[]" u "text" u fresh_state "[]"] split_from_ok[of u fresh_state "[]"]
  by (simp add: pieces_of_def)

section \<open>What is accepted\<close>

lemma skip_shape:
  "\<exists>p. s = p @ skip_comments u s" "s = [] \<or> \<not> space u (hd s) \<Longrightarrow> skip_comments u s = [] \<or> \<not> space u (hd (skip_comments u s))"
proof (induction u s rule: skip_comments.induct)
  case (1 u s)
  have l: "\<exists>p. t = p @ lstrip u t" "lstrip u t = [] \<or> \<not> space u (hd (lstrip u t))" for t
    unfolding lstrip_def by (metis takeWhile_dropWhile_id, metis hd_dropWhile)
  have d: "\<exists>p. s = p @ x" if h: "\<exists>p. lstrip u (drop n s) = p @ x" for n x
  proof -
    obtain p where "lstrip u (drop n s) = p @ x" using h by blast
    moreover obtain q where "drop n s = q @ lstrip u (drop n s)" using l(1)[of "drop n s"] by blast
    ultimately have "s = (take n s @ q @ p) @ x" by (metis append_assoc append_take_drop_id)
    then show ?thesis by blast
  qed
  { case 1
    show ?case using "1.IH"(1) "1.IH"(3) d by (subst skip_comments.simps) (auto split: option.split) }
  { case 2
    then show ?case using "1.IH"(2) "1.IH"(4) l(2) by (subst (1 2) skip_comments.simps) (auto split: option.split) }
qed

lemma rstrip_id: "s = [] \<or> \<not> space u (last s) \<Longrightarrow> rev (dropWhile (space u) (rev s)) = s"
  by (cases s rule: rev_cases) auto

lemma strip_leading_stripped:
  "strip_points u (strip_leading_comments u (strip_points u x)) = strip_leading_comments u (strip_points u x)"
proof -
  let ?s = "strip_points u x" and ?r = "strip_leading_comments u (strip_points u x)"
  have last: "?s = [] \<or> \<not> space u (last ?s)" using hd_dropWhile[of "space u" "rev (dropWhile (space u) x)"]
    by (auto simp: strip_points_def last_rev)
  obtain p where "lstrip u ?s = p @ ?r" using skip_shape(1)[of "lstrip u ?s" u] by (auto simp: strip_leading_comments_def)
  moreover obtain q where "?s = q @ lstrip u ?s" unfolding lstrip_def by (metis takeWhile_dropWhile_id)
  ultimately have "?s = (q @ p) @ ?r" by simp
  then have "?r = [] \<or> \<not> space u (last ?r)" using last by (metis append_is_Nil_conv last_appendR)
  moreover have "lstrip u ?s = [] \<or> \<not> space u (hd (lstrip u ?s))" unfolding lstrip_def by (metis hd_dropWhile)
  then have "?r = [] \<or> \<not> space u (hd ?r)" using skip_shape(2)[of "lstrip u ?s" u] by (simp add: strip_leading_comments_def)
  then have "dropWhile (space u) ?r = ?r" by (cases ?r) auto
  ultimately show ?thesis unfolding strip_points_def[of u ?r] using rstrip_id[of ?r u] by simp
qed

text \<open>No space is a letter or digit, as in Python.\<close>

definition spaces_apart :: "unicode \<Rightarrow> bool" where
  "spaces_apart u = (\<forall>c. wide_space u c \<longrightarrow> \<not> wide_alnum u c)"

lemma space_ends_word: "spaces_apart u \<Longrightarrow> space u c \<Longrightarrow> \<not> word_end u (Some c)"
  by (auto simp: spaces_apart_def space_def word_end_def alnum_def)

lemma comment_end:
  assumes "s \<noteq> []" and "next_token u prev s = (Comment, n)"
  shows "drop n s = [] \<or> (\<exists>ys. drop n s = 10 # ys) \<or> last (take n s) = 47"
proof (cases "starts (chars ''--'') s")
  case True
  then show ?thesis using assms(2) find_char[of 10 "drop 2 s"]
    by (fastforce simp: next_token_def drop_drop[symmetric] add.commute split: option.splits)
next
  case False
  then have "starts (chars ''/*'') s" and "\<exists>i. find_text (chars ''*/'') (drop 2 s) = Some i \<and> n = i + 4"
    using assms(2) by (auto simp: next_token_def Let_def split: option.splits if_splits)
  then obtain i where i: "find_text (chars ''*/'') (drop 2 s) = Some i" "n = i + 4" by blast
  have f: "drop 2 s = take i (drop 2 s) @ [42, 47] @ drop (i + 2) (drop 2 s)" "i + 2 \<le> length (drop 2 s)"
    using find_text_Some[OF i(1)] by (simp_all add: chars_def)
  have "drop 2 s ! (i + 1) = 47" using arg_cong[OF f(1), of "\<lambda>l. l ! (i + 1)"] f(2) by (simp add: nth_append)
  then have "s ! (i + 3) = 47" using f(2) by (simp add: eval_nat_numeral)
  moreover have "length (take n s) = n" "take n s \<noteq> []" "n - 1 = i + 3" using i(2) f(2) by auto
  then have "last (take n s) = s ! (i + 3)" using i(2) by (simp add: last_conv_nth add.commute)
  ultimately show ?thesis by simp
qed

text \<open>The body of a statement: what the lexer reads after the comments at its head.\<close>

definition body_of :: "unicode \<Rightarrow> points \<Rightarrow> (kind \<times> points) list" where
  "body_of u st = dropWhile (leading u) (tokens u None st)"

lemma body_tokens:
  assumes "spaces_apart u"
  shows "\<not> word_end u prev \<Longrightarrow> dropWhile (leading u) (tokens u prev s)
    = tokens u None (concat (map snd (dropWhile (leading u) (tokens u prev s))))"
proof (induction "length s" arbitrary: s prev rule: less_induct)
  case less
  show ?case
  proof (cases "s = []")
    case ne: False
    obtain k n where kn: "next_token u prev s = (k, n)" by fastforce
    have n: "0 < n" using next_token_pos[OF ne, of u prev] kn by simp
    show ?thesis
    proof (cases "k \<noteq> Invalid \<and> leading u (k, take n s)")
      case False
      then have "dropWhile (leading u) (tokens u prev s) = tokens u prev s"
        using tokens_step[OF ne kn] tokens_invalid[OF ne, of u prev] kn by (cases "k = Invalid") (auto simp: leading_def)
      moreover have "tokens u prev s = tokens u None s" using less.prems by (intro tokens_prev) (simp add: word_end_def)
      ultimately show ?thesis using tokens_concat[of u prev s] by simp
    next
      case True
      then have step: "dropWhile (leading u) (tokens u prev s) = dropWhile (leading u) (tokens u (Some (last (take n s))) (drop n s))"
        using tokens_step[OF ne kn] by simp
      have shorter: "length (drop n s) < length s" using n ne by simp
      show ?thesis
      proof (cases "word_end u (Some (last (take n s)))")
        case False
        then show ?thesis using less.hyps[OF shorter] step by simp
      next
        case w: True
        have "take n s \<noteq> []" using n ne by simp
        then have "k = Comment" using True space_ends_word[OF assms, of "last (take n s)"] w
          by (auto simp: leading_def blank_def list_all_iff)
        moreover have "\<not> word_end u (Some 47)" by (simp add: word_end_def alnum_def)
        ultimately consider "drop n s = []" | ys where "drop n s = 10 # ys" using comment_end[OF ne] kn w by metis
        then show ?thesis
        proof cases
          case 1
          then have "dropWhile (leading u) (tokens u prev s) = []" using step by (simp only: tokens_nil dropWhile.simps)
          then show ?thesis by (simp only: list.map concat.simps tokens_nil)
        next
          case 2
          have sp: "space u 10" by (simp add: space_def)
          have "length ys < length s" using shorter 2 by simp
          then show ?thesis using less.hyps[of ys "Some 10"] step 2 sp space_ends_word[OF assms sp] by (simp add: space_tokens)
        qed
      qed
    qed
  qed simp
qed

lemma suffix_split: "xs = rev (dropWhile p (rev xs)) @ rev (takeWhile p (rev xs))"
  by (metis rev_append rev_rev_ident takeWhile_dropWhile_id)

lemma final_semicolons: "\<exists>y. m = drop_final_semicolons u m @ y \<and> list_all (\<lambda>c. space u c \<or> c = 59) y"
proof -
  let ?a = "rstrip u m"
  have "m = ?a @ rev (takeWhile (space u) (rev m))" unfolding rstrip_def by (rule suffix_split)
  moreover have "?a = drop_final_semicolons u m @ rev (takeWhile (\<lambda>c. c = 59) (rev ?a))"
    unfolding drop_final_semicolons_def by (rule suffix_split)
  ultimately have "m = drop_final_semicolons u m @ rev (takeWhile (\<lambda>c. c = 59) (rev ?a)) @ rev (takeWhile (space u) (rev m))"
    by (metis append_assoc)
  moreover have "list_all (\<lambda>c. space u c \<or> c = 59) (rev (takeWhile (\<lambda>c. c = 59) (rev ?a)) @ rev (takeWhile (space u) (rev m)))"
    by (auto simp: list_all_iff dest: set_takeWhileD)
  ultimately show ?thesis by blast
qed

definition no_code_left :: "unicode \<Rightarrow> (kind \<times> points) list \<Rightarrow> bool" where
  "no_code_left u ts = list_all (\<lambda>(k, t). k = Code \<longrightarrow> list_all (\<lambda>c. space u c \<or> c = 59) t) ts"

lemma semicolon_after: "a @ 59 # b = x @ y \<Longrightarrow> 59 \<notin> set x \<Longrightarrow> \<exists>z. y = z @ (59 :: nat) # b"
proof (induction x arbitrary: a)
  case (Cons c x)
  then show ?case by (cases a) auto
qed auto

lemma code_after_semicolon:
  assumes "59 \<notin> set (drop_final_semicolons u (concat (map mask_token (a @ (Code, [59]) # b))))"
  shows "no_code_left u b"
proof -
  let ?m = "concat (map mask_token (a @ (Code, [59]) # b))" and ?x = "drop_final_semicolons u (concat (map mask_token (a @ (Code, [59]) # b)))"
  obtain y where y: "?m = ?x @ y" "list_all (\<lambda>c. space u c \<or> c = 59) y" using final_semicolons by blast
  have m: "?m = concat (map mask_token a) @ 59 # concat (map mask_token b)" by simp
  obtain z where "y = z @ 59 # concat (map mask_token b)" using semicolon_after[OF y(1)[unfolded m] assms[unfolded m]] by blast
  then have "list_all (\<lambda>c. space u c \<or> c = 59) (concat (map mask_token b))" using y(2) by simp
  then show ?thesis by (fastforce simp: no_code_left_def list_all_iff mask_token_def)
qed

lemma read_alike_drop: "read_alike ts \<Longrightarrow> read_alike (dropWhile p ts)"
  by (auto simp: read_alike_def list_all_iff dest: set_dropWhileD)

text \<open>What may run without a confirmation is one query. Its text, as the lexer of the executed text reads it, begins
  after its leading comments with SELECT or WITH, no code stands after a semicolon, and exactly this text, without the
  comments, was read by the parser. For statements without a national \<open>q\<close> quotation and without a comment that begins
  as \<open>/*/\<close>; for the others see below.\<close>

theorem accepted_is_one_query:
  assumes "is_select_only u parsed sql" and "split_statements u sql = [st]"
    and "read_alike (tokens u None st)" and "ends_alike (tokens u None st)" and "spaces_apart u"
  shows "body_of u st \<noteq> [] \<and> parsed (concat (map snd (body_of u st)))
    \<and> (\<exists>w\<in>{''select'', ''with''}. starts (chars w) (query_head u (concat (map mask_token (body_of u st)))))
    \<and> (\<forall>a b. body_of u st = a @ (Code, [59]) # b \<longrightarrow> no_code_left u b)"
proof -
  obtain x where x: "st = strip_points u x"
  proof -
    have "st \<in> set (split_statements u sql)" using assms(2) by simp
    then show ?thesis using that by (auto simp: split_statements_def)
  qed
  define r where "r = concat (map snd (body_of u st))"
  have lead: "strip_leading_comments u st = r"
    using leading_comments_skipped[OF assms(4)] by (simp add: strip_leading_comments_def r_def body_of_def)
  then have st: "strip_points u (strip_leading_comments u st) = r" using strip_leading_stripped[of u x] x by simp
  have body: "body_of u st = tokens u None r"
    using body_tokens[OF assms(5), of None st] by (simp add: body_of_def r_def word_end_def)
  have "read_alike (tokens u None r)" unfolding body[symmetric] body_of_def by (rule read_alike_drop[OF assms(3)])
  then have m: "mask_literals u r = concat (map mask_token (body_of u st))"
    using masked_lexer[of u None r] body by (simp add: masked_def mask_literals_def)
  have "query_statement u parsed st" using assms(1,2) by (simp add: is_select_only_def)
  then have q: "r \<noteq> []" "59 \<notin> set (drop_final_semicolons u (mask_literals u r))" "parsed r"
    "starts (chars ''select'') (query_head u (mask_literals u r)) \<or> starts (chars ''with'') (query_head u (mask_literals u r))"
    unfolding query_statement_def st Let_def by (auto split: if_splits)
  have "no_code_left u b" if "body_of u st = a @ (Code, [59]) # b" for a b
    by (rule code_after_semicolon) (use q(2) m that in simp)
  moreover have "body_of u st \<noteq> []" using q(1) by (auto simp: r_def)
  ultimately show ?thesis using q(3,4) m by (auto simp: r_def)
qed

section \<open>Examples and gaps\<close>

definition accepts_selects :: "points \<Rightarrow> bool" where
  "accepts_selects t = starts (chars ''select'') t"

definition quoted_semicolon :: points where
  "quoted_semicolon = chars ''/*;*/ select c'' @ [39, 59, 39]"

lemma example_split: "split_statements ascii_only (quoted_semicolon @ chars '' ;'') = [quoted_semicolon]"
  by code_simp

text \<open>A comment \<open>/*/ ... */\<close> is taken to end at its first slash. The parser is shown a query that is the text of a comment,
  and the statement that is run is another one.\<close>

definition hidden_drop :: points where
  "hidden_drop = chars ''/*/ select 1 from dual -- */ drop table t''"

lemma another_statement_is_run:
  "is_select_only ascii_only accepts_selects hidden_drop" "normalize_executable ascii_only hidden_drop = hidden_drop"
  "concat (map snd (body_of ascii_only hidden_drop)) = chars ''drop table t''"
  by code_simp+

text \<open>The mask does not know the national \<open>q\<close> quotation: the apostrophe inside it swaps literals and code. A block that
  runs a text as SQL then shows no sign of it.\<close>

definition hidden_execute :: points where
  "hidden_execute = chars ''begin x := nq'' @ [39] @ chars ''['' @ [39] @ chars '']'' @ [39] @ chars ''; execute immediate y; z := ''
     @ [39] @ chars ''a'' @ [39] @ chars ''; end;''"

lemma dynamic_sql_is_missed:
  "split_statements ascii_only hidden_execute = [hidden_execute]" "\<not> dynamic_sql_error ascii_only hidden_execute"
  "dynamic_sql_error ascii_only (chars ''begin execute immediate y; end;'')"
  "word_search ascii_only (execute_immediate ascii_only) None (concat (map snd (filter (\<lambda>x. fst x = Code) (tokens ascii_only None hidden_execute))))"
  by code_simp+

theorem accepted_is_one_query_witness:
  "accepts_selects (concat (map snd (body_of ascii_only quoted_semicolon)))
    \<and> starts (chars ''select'') (concat (map snd (body_of ascii_only quoted_semicolon)))"
proof -
  have "is_select_only ascii_only accepts_selects (quoted_semicolon @ chars '' ;'')" by code_simp
  moreover have "read_alike (tokens ascii_only None quoted_semicolon)" "ends_alike (tokens ascii_only None quoted_semicolon)" by code_simp+
  moreover have "spaces_apart ascii_only" by (simp add: spaces_apart_def ascii_only_def)
  ultimately have "accepts_selects (concat (map snd (body_of ascii_only quoted_semicolon)))"
    using accepted_is_one_query[OF _ example_split] by blast
  then show ?thesis by (simp add: accepts_selects_def)
qed

end
