(* ===== verification/JsonValue.thy ===== *)
theory JsonValue
  imports Prelude
begin

text \<open>The values Python reads from JSON. Reading and writing the texts are arguments of the components that use
  them. The keys of an object are distinct once read.\<close>

datatype 's json_of =
  JNull | JBool bool | JInt int | JFloat rat | JText 's | JList "'s json_of list" | JObject "('s \<times> 's json_of) list"

type_synonym json = "string json_of"

text \<open>\<open>isinstance(v, int)\<close> holds of the truth values too.\<close>

fun json_int :: "'s json_of \<Rightarrow> int option" where
  "json_int (JInt n) = Some n"
| "json_int (JBool b) = Some (if b then 1 else 0)"
| "json_int _ = None"

definition json_get :: "('s \<times> 's json_of) list \<Rightarrow> 's \<Rightarrow> 's json_of" where
  "json_get kvs k = (case map_of kvs k of None \<Rightarrow> JNull | Some v \<Rightarrow> v)"

fun json_text :: "'s json_of \<Rightarrow> 's option" where
  "json_text (JText s) = Some s"
| "json_text _ = None"

lemma json_text_Some [simp]: "json_text j = Some s \<longleftrightarrow> j = JText s"
  by (cases j) auto

end
