(* ===== verification/ApiKeys.thy ===== *)
theory ApiKeys
  imports AuthService JsonValue
begin

text \<open>The API keys of external MCP clients (\<open>pr_system_settings/auth/api_keys.py\<close>): the keys, the two
  stores, the limit of calls per minute, and the operations of the service on them
  (\<open>auth/service.py\<close>, \<open>list_api_keys\<close> to \<open>_limit_api_key_calls\<close>). The digest of a
  token, the random parts of a new key and the reading and writing of JSON are arguments.\<close>

section \<open>Keys\<close>

definition API_KEY_PREFIX :: string where "API_KEY_PREFIX = ''prak_''"
definition API_KEY_PRODUCTS :: "string list" where "API_KEY_PRODUCTS = [''rag'', ''nl2sql'', ''agent'']"
definition API_KEY_SCOPED_PRODUCTS :: "string list" where "API_KEY_SCOPED_PRODUCTS = [''agent'']"
definition API_KEY_NAME_MAX_CHARS :: nat where "API_KEY_NAME_MAX_CHARS = 100"
definition API_KEY_MAX_PER_USER :: nat where "API_KEY_MAX_PER_USER = 10"
definition API_KEY_SCOPE_MAX_ITEMS :: nat where "API_KEY_SCOPE_MAX_ITEMS = 50"
definition LAST_USED_PERSIST_INTERVAL :: rat where "LAST_USED_PERSIST_INTERVAL = 600"

definition is_letter :: "char \<Rightarrow> bool" where
  "is_letter c = (is_upper c \<or> is_lower c)"

definition is_hex :: "char \<Rightarrow> bool" where
  "is_hex c = (is_digit c \<or> is_lower c \<and> (of_char c :: nat) \<le> 102)"

definition is_base64url :: "char \<Rightarrow> bool" where
  "is_base64url c = (is_letter c \<or> is_digit c \<or> c = CHR ''_'' \<or> c = CHR ''-'')"

text \<open>The end of the pattern also matches before a final line feed.\<close>

definition parse_api_key_id :: "string \<Rightarrow> string option" where
  "parse_api_key_id token =
     (let t = (if token \<noteq> [] \<and> last token = CHR 0x0A then butlast token else token);
          i = take 16 (drop 5 t); s = drop 22 t
      in if take 5 t = API_KEY_PREFIX \<and> length i = 16 \<and> list_all is_hex i \<and> take 1 (drop 21 t) = ''_''
            \<and> length s = 43 \<and> list_all is_base64url s
         then Some i else None)"

definition looks_like_api_key :: "string \<Rightarrow> bool" where
  "looks_like_api_key token = (take (length API_KEY_PREFIX) token = API_KEY_PREFIX)"

text \<open>The scheme and the token of an Authorization header.\<close>

definition header_parts :: "string \<Rightarrow> string \<times> string" where
  "header_parts h =
     (lower (takeWhile (\<lambda>c. c \<noteq> CHR '' '') h), strip (drop 1 (dropWhile (\<lambda>c. c \<noteq> CHR '' '') h)))"

definition bearer_api_key :: "string \<Rightarrow> string option" where
  "bearer_api_key h =
     (let (scheme, token) = header_parts h
      in if scheme \<noteq> ''bearer'' \<or> \<not> looks_like_api_key token then None else Some token)"

type_synonym scopes = "(string \<times> string list) list"

record api_key =
  ak_id :: ident
  ak_name :: string
  ak_prefix :: string
  ak_hash :: string
  ak_owner :: ident
  ak_products :: "string list"
  ak_created :: rat
  ak_expires :: "rat option"
  ak_last_used :: "rat option"
  ak_scopes :: scopes

definition key_expired :: "api_key \<Rightarrow> rat \<Rightarrow> bool" where
  "key_expired r now = (case ak_expires r of None \<Rightarrow> False | Some t \<Rightarrow> t \<le> now)"

definition key_scope :: "api_key \<Rightarrow> string \<Rightarrow> string set option" where
  "key_scope r product = map_option set (map_of (ak_scopes r) product)"

definition token_of :: "string \<Rightarrow> string \<Rightarrow> string" where
  "token_of key_id secret = API_KEY_PREFIX @ key_id @ ''_'' @ secret"

text \<open>An unknown product raises.\<close>

definition sort_products :: "string list \<Rightarrow> string list option" where
  "sort_products ps =
     (if list_all (\<lambda>p. p \<in> set API_KEY_PRODUCTS) ps then Some (filter (\<lambda>p. p \<in> set ps) API_KEY_PRODUCTS) else None)"

definition new_api_key ::
    "(string \<Rightarrow> string) \<Rightarrow> string \<Rightarrow> string \<Rightarrow> rat \<Rightarrow> string \<Rightarrow> ident \<Rightarrow> string list \<Rightarrow> int option \<Rightarrow> scopes
     \<Rightarrow> (api_key \<times> string) option" where
  "new_api_key digest key_id secret now name owner products days scopes =
     (case sort_products products of
        None \<Rightarrow> None
      | Some ps \<Rightarrow>
          let token = token_of key_id secret
          in Some (\<lparr>ak_id = key_id, ak_name = name, ak_prefix = API_KEY_PREFIX @ key_id @ ''_'' @ take 4 secret,
                    ak_hash = digest token, ak_owner = owner, ak_products = ps, ak_created = now,
                    ak_expires = (case days of None \<Rightarrow> None | Some d \<Rightarrow> if d = 0 then None else Some (now + of_int d * 86400)),
                    ak_last_used = None, ak_scopes = scopes\<rparr>, token))"

definition token_matches :: "(string \<Rightarrow> string) \<Rightarrow> api_key \<Rightarrow> string \<Rightarrow> bool" where
  "token_matches digest r token = (ak_hash r = digest token)"

section \<open>Requests for a key\<close>

record key_request =
  kq_name :: string
  kq_products :: "string list"
  kq_days :: "int option"
  kq_scopes :: scopes

definition scope_id_ok :: "string \<Rightarrow> bool" where
  "scope_id_ok i =
     (case i of [] \<Rightarrow> False
      | c # cs \<Rightarrow> (is_letter c \<or> is_digit c) \<and> length cs \<le> 99
          \<and> list_all (\<lambda>c. is_letter c \<or> is_digit c \<or> c = CHR ''_'' \<or> c = CHR ''.'' \<or> c = CHR ''-'') cs)"

text \<open>The scopes with their ids stripped and without repetitions; \<open>None\<close> is a request refused.\<close>

fun valid_scopes :: "scopes \<Rightarrow> scopes option" where
  "valid_scopes [] = Some []"
| "valid_scopes ((product, items) # rest) =
     (let unique = dedup (map strip items)
      in if product \<notin> set API_KEY_SCOPED_PRODUCTS \<or> unique = [] \<or> API_KEY_SCOPE_MAX_ITEMS < length unique
            \<or> \<not> list_all scope_id_ok unique
         then None else map_option (Cons (product, unique)) (valid_scopes rest))"

definition valid_request :: "key_request \<Rightarrow> key_request option" where
  "valid_request q =
     (if kq_name q = [] \<or> API_KEY_NAME_MAX_CHARS < length (kq_name q) \<or> strip (kq_name q) = [] then None
      else if kq_products q = [] \<or> length API_KEY_PRODUCTS < length (kq_products q) then None
      else if kq_days q \<notin> {None, Some 30, Some 90, Some 365} then None
      else case (sort_products (kq_products q), valid_scopes (kq_scopes q)) of
             (Some ps, Some ss) \<Rightarrow>
               if set (map fst ss) \<subseteq> set ps
               then Some \<lparr>kq_name = strip (kq_name q), kq_products = ps, kq_days = kq_days q, kq_scopes = ss\<rparr>
               else None
           | _ \<Rightarrow> None)"

section \<open>The protocol of a store\<close>

record 'k key_ops =
  ko_create :: "api_key \<Rightarrow> 'k \<Rightarrow> store_error + 'k"
  ko_get :: "'k \<Rightarrow> ident \<Rightarrow> api_key option"
  ko_list :: "'k \<Rightarrow> api_key list"
  ko_delete :: "ident \<Rightarrow> 'k \<Rightarrow> 'k \<times> bool"
  ko_delete_owned :: "ident \<Rightarrow> 'k \<Rightarrow> 'k \<times> nat"
  ko_touch :: "ident \<Rightarrow> rat \<Rightarrow> 'k \<Rightarrow> 'k"

definition touch_due :: "rat option \<Rightarrow> rat \<Rightarrow> bool" where
  "touch_due used now = (case used of None \<Rightarrow> True | Some t \<Rightarrow> LAST_USED_PERSIST_INTERVAL \<le> now - t)"

subsection \<open>In memory\<close>

type_synonym mem_keys = "api_key list"

definition mem_get_key :: "mem_keys \<Rightarrow> ident \<Rightarrow> api_key option" where
  "mem_get_key k i = find (\<lambda>r. ak_id r = i) k"

definition mem_key_ops :: "mem_keys key_ops" where
  "mem_key_ops =
     \<lparr>ko_create = (\<lambda>r k. Inr (dict_put ak_id r k)),
      ko_get = mem_get_key,
      ko_list = (\<lambda>k. sort_key (\<lambda>r. - ak_created r) k),
      ko_delete = (\<lambda>i k. (filter (\<lambda>r. ak_id r \<noteq> i) k, mem_get_key k i \<noteq> None)),
      ko_delete_owned = (\<lambda>u k. (filter (\<lambda>r. ak_owner r \<noteq> u) k, length (filter (\<lambda>r. ak_owner r = u) k))),
      ko_touch = (\<lambda>i now. update_where (\<lambda>r. ak_id r = i \<and> touch_due (ak_last_used r) now)
                            (\<lambda>r. r\<lparr>ak_last_used := Some now\<rparr>))\<rparr>"

subsection \<open>In the table\<close>

text \<open>The products of a row are one text, the scopes a JSON text; the empty text is null.\<close>

record key_row =
  kr_id :: ident
  kr_name :: string
  kr_prefix :: string
  kr_hash :: string
  kr_owner :: ident
  kr_products :: string
  kr_created :: rat
  kr_expires :: "rat option"
  kr_last_used :: "rat option"
  kr_scopes :: "string option"

definition scopes_json :: "scopes \<Rightarrow> json" where
  "scopes_json ss = JObject (map (\<lambda>(p, is). (p, JList (map JText is))) ss)"

definition dump_resource_scopes :: "(json \<Rightarrow> string) \<Rightarrow> scopes \<Rightarrow> string option" where
  "dump_resource_scopes dumps ss = (if ss = [] then None else Some (dumps (scopes_json ss)))"

fun scope_items :: "json \<Rightarrow> string list" where
  "scope_items (JList js) = List.map_filter json_text js"
| "scope_items _ = []"

text \<open>A broken text leaves no product anything.\<close>

definition load_resource_scopes :: "(string \<Rightarrow> json option) \<Rightarrow> string option \<Rightarrow> scopes" where
  "load_resource_scopes loads value =
     (case value of
        None \<Rightarrow> []
      | Some t \<Rightarrow>
          if strip t = [] then []
          else case loads t of
                 Some (JObject kvs) \<Rightarrow> map (\<lambda>(p, j). (p, scope_items j)) kvs
               | _ \<Rightarrow> map (\<lambda>p. (p, [])) API_KEY_PRODUCTS)"

definition record_from_row :: "(string \<Rightarrow> json option) \<Rightarrow> key_row \<Rightarrow> api_key" where
  "record_from_row loads r =
     \<lparr>ak_id = kr_id r, ak_name = kr_name r, ak_prefix = kr_prefix r, ak_hash = kr_hash r, ak_owner = kr_owner r,
      ak_products = filter (\<lambda>p. p \<noteq> []) (split_on CHR '','' (kr_products r)), ak_created = kr_created r,
      ak_expires = kr_expires r, ak_last_used = kr_last_used r, ak_scopes = load_resource_scopes loads (kr_scopes r)\<rparr>"

definition row_of_key :: "(json \<Rightarrow> string) \<Rightarrow> api_key \<Rightarrow> key_row" where
  "row_of_key dumps r =
     \<lparr>kr_id = ak_id r, kr_name = ak_name r, kr_prefix = ak_prefix r, kr_hash = ak_hash r, kr_owner = ak_owner r,
      kr_products = join_with CHR '','' (ak_products r), kr_created = ak_created r, kr_expires = ak_expires r,
      kr_last_used = None, kr_scopes = dump_resource_scopes dumps (ak_scopes r)\<rparr>"

type_synonym key_table = "key_row list"

text \<open>The id is the primary key of the table.\<close>

definition table_key_ops :: "(json \<Rightarrow> string) \<Rightarrow> (string \<Rightarrow> json option) \<Rightarrow> key_table key_ops" where
  "table_key_ops dumps loads =
     \<lparr>ko_create = (\<lambda>r k. if list_ex (\<lambda>x. kr_id x = ak_id r) k then Inl StoreFailed else Inr (k @ [row_of_key dumps r])),
      ko_get = (\<lambda>k i. map_option (record_from_row loads) (find (\<lambda>x. kr_id x = i) k)),
      ko_list = (\<lambda>k. map (record_from_row loads) (sort_key (\<lambda>x. - kr_created x) (sort_key kr_id k))),
      ko_delete = (\<lambda>i k. (filter (\<lambda>x. kr_id x \<noteq> i) k, list_ex (\<lambda>x. kr_id x = i) k)),
      ko_delete_owned = (\<lambda>u k. (filter (\<lambda>x. kr_owner x \<noteq> u) k, length (filter (\<lambda>x. kr_owner x = u) k))),
      ko_touch = (\<lambda>i now. update_where
         (\<lambda>x. kr_id x = i \<and> (case kr_last_used x of None \<Rightarrow> True | Some t \<Rightarrow> t \<le> now - LAST_USED_PERSIST_INTERVAL))
         (\<lambda>x. x\<lparr>kr_last_used := Some now\<rparr>))\<rparr>"

section \<open>Calls per minute\<close>

text \<open>The times of the counted calls of every key, the oldest first.\<close>

type_synonym limiter = "ident \<Rightarrow> rat list"

definition limit_window :: rat where "limit_window = 60"

definition acquire_call :: "ident \<Rightarrow> int \<Rightarrow> rat \<Rightarrow> limiter \<Rightarrow> int option \<times> limiter" where
  "acquire_call key limit now calls_by =
     (if limit \<le> 0 then (None, calls_by)
      else
        let calls = dropWhile (\<lambda>t. limit_window \<le> now - t) (calls_by key)
        in if limit \<le> int (length calls)
           then (Some (max 1 \<lceil>hd calls + limit_window - now\<rceil>), calls_by(key := calls))
           else (None, calls_by(key := calls @ [now])))"

section \<open>The service\<close>

text \<open>\<open>CallsExceeded\<close> carries the seconds of the Retry-After header.\<close>

datatype key_error = KeyRefused api_error | CallsExceeded int

definition list_api_keys :: "'k key_ops \<Rightarrow> principal \<Rightarrow> bool \<Rightarrow> 'k \<Rightarrow> api_key list" where
  "list_api_keys ko actor all_users k =
     (if all_users then ko_list ko k else filter (\<lambda>r. ak_owner r = pr_user actor) (ko_list ko k))"

definition api_key_names :: "'k key_ops \<Rightarrow> principal \<Rightarrow> ident list \<Rightarrow> 'k \<Rightarrow> (ident \<times> string) list" where
  "api_key_names ko actor key_ids k =
     (let wanted = filter (\<lambda>i. i \<noteq> []) key_ids
      in map (\<lambda>r. (ak_id r, ak_name r))
           (filter (\<lambda>r. ak_id r \<in> set wanted) (list_api_keys ko actor (can_view_all (Some actor)) k)))"

text \<open>A request is a valid one.\<close>

definition create_api_key ::
    "'k key_ops \<Rightarrow> (string \<Rightarrow> string) \<Rightarrow> principal \<Rightarrow> rat \<Rightarrow> string \<Rightarrow> string \<Rightarrow> key_request \<Rightarrow> 'k
     \<Rightarrow> (api_error + api_key \<times> string) \<times> 'k" where
  "create_api_key ko digest actor now key_id secret q k =
     (if API_KEY_MAX_PER_USER \<le> length (list_api_keys ko actor False k) then (Inl (ApiError 409 ApiKeyLimit), k)
      else case new_api_key digest key_id secret now (kq_name q) (pr_user actor) (kq_products q) (kq_days q) (kq_scopes q) of
             None \<Rightarrow> (Inl (StoreRaised StoreFailed), k)
           | Some (r, token) \<Rightarrow>
               (case ko_create ko r k of
                  Inl e \<Rightarrow> (Inl (StoreRaised e), k)
                | Inr k' \<Rightarrow> (Inr (r, token), k')))"

definition revoke_api_key ::
    "'k key_ops \<Rightarrow> principal \<Rightarrow> bool \<Rightarrow> ident \<Rightarrow> 'k \<Rightarrow> (api_error + api_key) \<times> 'k" where
  "revoke_api_key ko actor any_user i k =
     (case ko_get ko k i of
        None \<Rightarrow> (Inl (api 404), k)
      | Some r \<Rightarrow>
          if \<not> any_user \<and> ak_owner r \<noteq> pr_user actor then (Inl (api 404), k)
          else (Inr r, fst (ko_delete ko i k)))"

text \<open>The keys of a deleted user go too; \<open>works\<close>: the store does not fail.\<close>

definition delete_user_and_keys ::
    "'s auth_service \<Rightarrow> 'k key_ops \<Rightarrow> bool \<Rightarrow> principal \<Rightarrow> ident \<Rightarrow> int \<Rightarrow> 's \<Rightarrow> 'k \<Rightarrow> (api_error + user) \<times> 's \<times> 'k" where
  "delete_user_and_keys sv ko works actor u v s k =
     (case delete_user sv actor u v s of
        (Inl e, s) \<Rightarrow> (Inl e, s, k)
      | (Inr x, s) \<Rightarrow> (Inr x, s, if works then fst (ko_delete_owned ko u k) else k))"

text \<open>What the service is configured with for the keys: the digest, the login of the configured administrator
  or the error of its configuration, the principal of a local installation, whether this is one, and the
  calls per minute.\<close>

record key_config =
  kc_digest :: "string \<Rightarrow> string"
  kc_admin :: "api_error + string"
  kc_local :: principal
  kc_local_enabled :: bool
  kc_calls :: int

definition worker_for_key :: "'s auth_service \<Rightarrow> key_config \<Rightarrow> rat \<Rightarrow> ident \<Rightarrow> 's \<Rightarrow> api_error + principal" where
  "worker_for_key sv kc now u s =
     (case principal_for_worker sv (kc_admin kc) now u s of
        Inl (ApiError n c) \<Rightarrow> Inl (if n = 403 then api 403 else ApiError n c)
      | r \<Rightarrow> r)"

definition key_principal :: "'s auth_service \<Rightarrow> key_config \<Rightarrow> rat \<Rightarrow> ident \<Rightarrow> 's \<Rightarrow> api_error + principal" where
  "key_principal sv kc now u s =
     (if u = LOCAL_DEBUG_UUID then
        if kc_local_enabled kc then Inr (kc_local kc) else Inl (ApiError 401 ApiKeyInvalid)
      else worker_for_key sv kc now u s)"

text \<open>\<open>now\<close> is the time of the check, \<open>counted\<close> that of the call counted, \<open>saved\<close> whether the time of
  use could be stored.\<close>

definition authenticate_api_key ::
    "'s auth_service \<Rightarrow> 'k key_ops \<Rightarrow> key_config \<Rightarrow> rat \<Rightarrow> rat \<Rightarrow> bool \<Rightarrow> string \<Rightarrow> 's \<Rightarrow> 'k \<Rightarrow> limiter
     \<Rightarrow> (key_error + principal \<times> api_key) \<times> 'k \<times> limiter" where
  "authenticate_api_key sv ko kc now counted saved token s k calls_by =
     (case parse_api_key_id token of
        None \<Rightarrow> (Inl (KeyRefused (ApiError 401 ApiKeyInvalid)), k, calls_by)
      | Some i \<Rightarrow>
          case ko_get ko k i of
            None \<Rightarrow> (Inl (KeyRefused (ApiError 401 ApiKeyInvalid)), k, calls_by)
          | Some r \<Rightarrow>
              if \<not> token_matches (kc_digest kc) r token then (Inl (KeyRefused (ApiError 401 ApiKeyInvalid)), k, calls_by)
              else if key_expired r now then (Inl (KeyRefused (ApiError 401 ApiKeyInvalid)), k, calls_by)
              else if pd_key (sv_product sv) \<notin> set (ak_products r)
              then (Inl (KeyRefused (ApiError 403 ApiKeyProductForbidden)), k, calls_by)
              else case acquire_call (ak_id r) (kc_calls kc) counted calls_by of
                     (Some wait, calls_by) \<Rightarrow> (Inl (CallsExceeded wait), k, calls_by)
                   | (None, calls_by) \<Rightarrow>
                       let k = (if saved then ko_touch ko i now k else k)
                       in case key_principal sv kc now (ak_owner r) s of
                            Inl e \<Rightarrow> (Inl (KeyRefused e), k, calls_by)
                          | Inr p \<Rightarrow> (Inr (p\<lparr>pr_session := ''api-key:'' @ i\<rparr>, r), k, calls_by))"

end
