(* ===== verification/ApiKeyStores.thy ===== *)
theory ApiKeyStores
  imports ApiKeys AuthContract
begin

text \<open>What the service relies on of a store of API keys (\<open>key_store\<close>): it is a map from ids to keys, and
  a key created is read back as it was. The store in memory and the table keep this contract.\<close>

section \<open>Products\<close>

definition plain_products :: "string list \<Rightarrow> bool" where
  "plain_products ps \<longleftrightarrow> (\<forall>p\<in>set ps. p \<noteq> [] \<and> CHR '','' \<notin> set p)"

lemma products_read_back: "plain_products ps \<Longrightarrow> filter (\<lambda>p. p \<noteq> []) (split_on CHR '','' (join_with CHR '','' ps)) = ps"
  by (cases "ps = []") (auto simp: plain_products_def split_join intro!: filter_True)

section \<open>Scopes\<close>

text \<open>The JSON of these scopes is read as it was written.\<close>

definition json_kept :: "(json \<Rightarrow> string) \<Rightarrow> (string \<Rightarrow> json option) \<Rightarrow> scopes \<Rightarrow> bool" where
  "json_kept dumps loads ss \<longleftrightarrow>
     (ss = [] \<or> loads (dumps (scopes_json ss)) = Some (scopes_json ss) \<and> strip (dumps (scopes_json ss)) \<noteq> [])"

lemma read_texts [simp]: "List.map_filter json_text (map JText is) = is"
  by (induction "is") (simp_all add: map_filter_simps)

lemma scopes_read_back: "json_kept dumps loads ss \<Longrightarrow> load_resource_scopes loads (dump_resource_scopes dumps ss) = ss"
  by (auto simp: json_kept_def load_resource_scopes_def dump_resource_scopes_def scopes_json_def comp_def
      case_prod_unfold intro: map_idI)

definition storable :: "(json \<Rightarrow> string) \<Rightarrow> (string \<Rightarrow> json option) \<Rightarrow> api_key \<Rightarrow> bool" where
  "storable dumps loads r \<longleftrightarrow> ak_last_used r = None \<and> plain_products (ak_products r) \<and> json_kept dumps loads (ak_scopes r)"

lemma row_read_back: "storable dumps loads r \<Longrightarrow> record_from_row loads (row_of_key dumps r) = r"
  by (simp add: storable_def record_from_row_def row_of_key_def products_read_back scopes_read_back)

section \<open>The contract\<close>

locale key_store =
  fixes ko :: "'k key_ops" and keys :: "'k \<Rightarrow> ident \<Rightarrow> api_key option" and inv :: "'k \<Rightarrow> bool"
    and fits :: "api_key \<Rightarrow> bool"
  assumes get_law: "inv k \<Longrightarrow> ko_get ko k i = keys k i"
    and key_id: "inv k \<Longrightarrow> keys k i = Some r \<Longrightarrow> ak_id r = i"
    and create_law: "inv k \<Longrightarrow> keys k (ak_id r) = None \<Longrightarrow> fits r \<Longrightarrow>
        \<exists>k'. ko_create ko r k = Inr k' \<and> inv k' \<and> keys k' = (keys k)(ak_id r \<mapsto> r)"
    and create_other: "inv k \<Longrightarrow> ko_create ko r k = Inr k' \<Longrightarrow>
        inv k' \<and> (\<exists>x. keys k' = (keys k)(ak_id r \<mapsto> x))"
    and list_law: "inv k \<Longrightarrow> set (ko_list ko k) = ran (keys k) \<and> distinct (map ak_id (ko_list ko k))"
    and delete_law: "inv k \<Longrightarrow> inv (fst (ko_delete ko i k)) \<and> keys (fst (ko_delete ko i k)) = (keys k)(i := None)
        \<and> (snd (ko_delete ko i k) \<longleftrightarrow> keys k i \<noteq> None)"
    and delete_owned_law: "inv k \<Longrightarrow> inv (fst (ko_delete_owned ko u k)) \<and>
        keys (fst (ko_delete_owned ko u k)) = (\<lambda>i. case keys k i of None \<Rightarrow> None | Some r \<Rightarrow> if ak_owner r = u then None else Some r)"
    and touch_law: "inv k \<Longrightarrow> inv (ko_touch ko i now k) \<and> keys (ko_touch ko i now k) =
        upd (keys k) i (\<lambda>r. if touch_due (ak_last_used r) now then r\<lparr>ak_last_used := Some now\<rparr> else r)"

text \<open>Any transaction on a store of keys; a new key has an id of which \<open>P\<close> holds.\<close>

inductive key_step :: "'k key_ops \<Rightarrow> (ident \<Rightarrow> bool) \<Rightarrow> 'k \<Rightarrow> 'k \<Rightarrow> bool" for ko P where
  CreateKey: "P (ak_id r) \<Longrightarrow> ko_create ko r k = Inr k' \<Longrightarrow> key_step ko P k k'"
| DeleteKey: "key_step ko P k (fst (ko_delete ko i k))"
| DeleteOwned: "key_step ko P k (fst (ko_delete_owned ko u k))"
| TouchKey: "key_step ko P k (ko_touch ko i now k)"

context key_store
begin

lemma step_keeps:
  assumes "key_step ko (\<lambda>j. j \<noteq> i) k k'" and "inv k"
  shows "inv k' \<and> (keys k' i = None \<or> (\<exists>r u. keys k i = Some r \<and> keys k' i = Some (r\<lparr>ak_last_used := u\<rparr>)))"
  using assms
proof (induction rule: key_step.induct)
  case (CreateKey r k k')
  from create_other[OF CreateKey.prems CreateKey.hyps(2)] obtain x where
    "inv k'" "keys k' = (keys k)(ak_id r \<mapsto> x)" by blast
  then have "inv k'" "keys k' i = keys k i" using CreateKey.hyps(1) by auto
  then show ?case by (metis api_key.surjective api_key.update_convs(9) option.exhaust)
next
  case (DeleteKey k j)
  from delete_law[OF this, of j] show ?case
    by (cases "keys k i"; cases "i = j") (auto intro: exI[of _ "ak_last_used (the (keys k i))"])
next
  case (DeleteOwned k u)
  from delete_owned_law[OF this, of u] show ?case
    by (cases "keys k i") (auto intro: exI[of _ "ak_last_used (the (keys k i))"])
next
  case (TouchKey k j now)
  from touch_law[OF this, of j now]
  have "inv (ko_touch ko j now k)" "keys (ko_touch ko j now k) i
      = map_option (\<lambda>r. if i = j \<and> touch_due (ak_last_used r) now then r\<lparr>ak_last_used := Some now\<rparr> else r) (keys k i)"
    by (auto simp: upd_def option.map_id0 option.map_ident)
  then show ?case by (cases "keys k i") (auto intro: exI[of _ "ak_last_used (the (keys k i))"])
qed

lemma steps_keep:
  assumes "(key_step ko (\<lambda>j. j \<noteq> i))\<^sup>*\<^sup>* k k'" and "inv k"
  shows "inv k' \<and> (keys k' i = None \<or> (\<exists>r u. keys k i = Some r \<and> keys k' i = Some (r\<lparr>ak_last_used := u\<rparr>)))"
  using assms
proof (induction rule: rtranclp_induct)
  case base
  then show ?case by (cases "keys k i") (auto intro: exI[of _ "ak_last_used (the (keys k i))"])
next
  case (step k1 k2)
  from step.IH[OF step.prems] have inv: "inv k1"
    and now: "keys k1 i = None \<or> (\<exists>r u. keys k i = Some r \<and> keys k1 i = Some (r\<lparr>ak_last_used := u\<rparr>))" by blast+
  from step_keeps[OF step.hyps(2) inv] now show ?case by auto
qed

lemma steps_inv: "(key_step ko P)\<^sup>*\<^sup>* k k' \<Longrightarrow> inv k \<Longrightarrow> inv k'"
proof (induction rule: rtranclp_induct)
  case (step k1 k2)
  from step.hyps(2) step.IH[OF step.prems] show ?case
  proof (induction rule: key_step.induct)
    case (CreateKey r k k')
    then show ?case using create_other by blast
  qed (simp_all add: delete_law delete_owned_law touch_law)
qed

text \<open>A key that is gone stays gone until its id is used again.\<close>

lemma gone_stays_gone:
  "(key_step ko (\<lambda>j. j \<noteq> i))\<^sup>*\<^sup>* k k' \<Longrightarrow> inv k \<Longrightarrow> keys k i = None \<Longrightarrow> ko_get ko k' i = None"
  using steps_keep get_law by fastforce

lemma kept_or_gone:
  "(key_step ko (\<lambda>j. j \<noteq> i))\<^sup>*\<^sup>* k k' \<Longrightarrow> inv k \<Longrightarrow> keys k i = Some r \<Longrightarrow>
   ko_get ko k' i = None \<or> (\<exists>u. ko_get ko k' i = Some (r\<lparr>ak_last_used := u\<rparr>))"
  using steps_keep get_law by fastforce

end

section \<open>The store in memory\<close>

definition mem_keys_ok :: "mem_keys \<Rightarrow> bool" where
  "mem_keys_ok k \<longleftrightarrow> distinct (map ak_id k)"

lemma ran_find: "distinct (map key k) \<Longrightarrow> ran (\<lambda>i. find (\<lambda>r. key r = i) k) = set k"
  by (auto simp: ran_def find_key_unique dest: find_key_mem) (metis find_key_unique)

lemma update_where_key: "(\<And>x. key (f x) = key x) \<Longrightarrow> map key (update_where P f xs) = map key xs"
  by (induction xs) auto

interpretation memory_keys: key_store mem_key_ops mem_get_key mem_keys_ok "\<lambda>_. True"
proof unfold_locales
  fix k and i :: ident and r k' u and now :: rat
  assume ok: "mem_keys_ok k"
  show "ko_get mem_key_ops k i = mem_get_key k i" by (simp add: mem_key_ops_def)
  show "mem_get_key k i = Some r \<Longrightarrow> ak_id r = i" by (auto simp: mem_get_key_def dest: find_key_mem)
  show "\<exists>k'. ko_create mem_key_ops r k = Inr k' \<and> mem_keys_ok k' \<and> mem_get_key k' = (mem_get_key k)(ak_id r \<mapsto> r)"
    using ok by (auto simp: mem_key_ops_def mem_keys_ok_def mem_get_key_def distinct_dict_put find_dict_put)
  show "ko_create mem_key_ops r k = Inr k' \<Longrightarrow> mem_keys_ok k' \<and> (\<exists>x. mem_get_key k' = (mem_get_key k)(ak_id r \<mapsto> x))"
    using ok by (auto simp: mem_key_ops_def mem_keys_ok_def mem_get_key_def distinct_dict_put find_dict_put
        intro!: exI[of _ r])
  show "set (ko_list mem_key_ops k) = ran (mem_get_key k) \<and> distinct (map ak_id (ko_list mem_key_ops k))"
    using ok ran_find[of ak_id k] by (simp add: mem_key_ops_def mem_keys_ok_def mem_get_key_def[abs_def] distinct_map)
  show "mem_keys_ok (fst (ko_delete mem_key_ops i k)) \<and> mem_get_key (fst (ko_delete mem_key_ops i k)) = (mem_get_key k)(i := None)
      \<and> (snd (ko_delete mem_key_ops i k) \<longleftrightarrow> mem_get_key k i \<noteq> None)"
    using ok by (auto simp: mem_key_ops_def mem_keys_ok_def mem_get_key_def find_filter_key distinct_map_filter
        fun_eq_iff dest: find_key_mem split: option.splits)
  show "mem_keys_ok (fst (ko_delete_owned mem_key_ops u k)) \<and> mem_get_key (fst (ko_delete_owned mem_key_ops u k))
      = (\<lambda>i. case mem_get_key k i of None \<Rightarrow> None | Some r \<Rightarrow> if ak_owner r = u then None else Some r)"
    using ok by (auto simp: mem_key_ops_def mem_keys_ok_def mem_get_key_def find_filter_key distinct_map_filter
        fun_eq_iff split: option.splits)
  show "mem_keys_ok (ko_touch mem_key_ops i now k) \<and> mem_get_key (ko_touch mem_key_ops i now k)
      = upd (mem_get_key k) i (\<lambda>r. if touch_due (ak_last_used r) now then r\<lparr>ak_last_used := Some now\<rparr> else r)"
    using ok by (auto simp: mem_key_ops_def mem_keys_ok_def mem_get_key_def find_update_where update_where_key upd_def
        fun_eq_iff dest: find_key_mem intro!: option.map_cong0 option.map_ident_strong)
qed

section \<open>The table\<close>

definition key_table_ok :: "key_table \<Rightarrow> bool" where
  "key_table_ok k \<longleftrightarrow> distinct (map kr_id k)"

definition table_keys :: "(string \<Rightarrow> json option) \<Rightarrow> key_table \<Rightarrow> ident \<Rightarrow> api_key option" where
  "table_keys loads k i = map_option (record_from_row loads) (find (\<lambda>x. kr_id x = i) k)"

interpretation key_rows: key_store "table_key_ops dumps loads" "table_keys loads" key_table_ok "storable dumps loads"
proof unfold_locales
  fix k and i :: ident and r k' u and now :: rat
  let ?ko = "table_key_ops dumps loads"
  assume ok: "key_table_ok k"
  have id [simp]: "ak_id (record_from_row loads x) = kr_id x" "kr_id (row_of_key dumps y) = ak_id y" for x y
    by (simp_all add: record_from_row_def row_of_key_def)
  show "ko_get ?ko k i = table_keys loads k i" by (simp add: table_key_ops_def table_keys_def)
  show "table_keys loads k i = Some r \<Longrightarrow> ak_id r = i" by (auto simp: table_keys_def dest: find_key_mem)
  have created: "key_table_ok k' \<and> table_keys loads k' = (table_keys loads k)(ak_id r \<mapsto> record_from_row loads (row_of_key dumps r))"
    if "ko_create ?ko r k = Inr k'" for r k'
  proof -
    have new: "k' = k @ [row_of_key dumps r]" "\<forall>x\<in>set k. kr_id x \<noteq> ak_id r"
      using that by (auto simp: table_key_ops_def list_ex_iff split: if_splits)
    then have "find (\<lambda>x. kr_id x = ak_id r) k = None" by (simp add: find_None_iff)
    with new ok show ?thesis
      by (auto simp: key_table_ok_def table_keys_def find_append fun_eq_iff split: option.splits)
  qed
  show "\<exists>k'. ko_create ?ko r k = Inr k' \<and> key_table_ok k' \<and> table_keys loads k' = (table_keys loads k)(ak_id r \<mapsto> r)"
    if "table_keys loads k (ak_id r) = None" "storable dumps loads r"
  proof -
    have "ko_create ?ko r k = Inr (k @ [row_of_key dumps r])"
      using that(1) by (auto simp: table_key_ops_def table_keys_def list_ex_iff find_None_iff)
    with created[OF this] row_read_back[OF that(2)] show ?thesis by simp
  qed
  show "ko_create ?ko r k = Inr k' \<Longrightarrow> key_table_ok k' \<and> (\<exists>x. table_keys loads k' = (table_keys loads k)(ak_id r \<mapsto> x))"
    using created by blast
  show "set (ko_list ?ko k) = ran (table_keys loads k) \<and> distinct (map ak_id (ko_list ?ko k))"
  proof
    have "ran (table_keys loads k) = record_from_row loads ` ran (\<lambda>i. find (\<lambda>x. kr_id x = i) k)"
      by (auto simp: table_keys_def ran_def)
    then show "set (ko_list ?ko k) = ran (table_keys loads k)"
      using ok ran_find[of kr_id k] by (simp add: table_key_ops_def key_table_ok_def)
    have "map ak_id (ko_list ?ko k) = map kr_id (sort_key (\<lambda>x. - kr_created x) (sort_key kr_id k))"
      by (simp add: table_key_ops_def)
    then show "distinct (map ak_id (ko_list ?ko k))"
      using ok by (simp add: key_table_ok_def distinct_map)
  qed
  show "key_table_ok (fst (ko_delete ?ko i k)) \<and> table_keys loads (fst (ko_delete ?ko i k)) = (table_keys loads k)(i := None)
      \<and> (snd (ko_delete ?ko i k) \<longleftrightarrow> table_keys loads k i \<noteq> None)"
    using ok by (auto simp: table_key_ops_def key_table_ok_def table_keys_def find_filter_key distinct_map_filter
        fun_eq_iff list_ex_iff find_None_iff dest: find_key_mem split: option.splits)
  show "key_table_ok (fst (ko_delete_owned ?ko u k)) \<and> table_keys loads (fst (ko_delete_owned ?ko u k))
      = (\<lambda>i. case table_keys loads k i of None \<Rightarrow> None | Some r \<Rightarrow> if ak_owner r = u then None else Some r)"
    using ok by (auto simp: table_key_ops_def key_table_ok_def table_keys_def find_filter_key distinct_map_filter
        fun_eq_iff record_from_row_def split: option.splits)
  show "key_table_ok (ko_touch ?ko i now k) \<and> table_keys loads (ko_touch ?ko i now k)
      = upd (table_keys loads k) i (\<lambda>r. if touch_due (ak_last_used r) now then r\<lparr>ak_last_used := Some now\<rparr> else r)"
  proof
    show "key_table_ok (ko_touch ?ko i now k)" using ok by (simp add: table_key_ops_def key_table_ok_def update_where_key)
    have due: "(case u of None \<Rightarrow> True | Some t \<Rightarrow> t \<le> now - LAST_USED_PERSIST_INTERVAL) = touch_due u now" for u
      by (auto simp: touch_due_def split: option.splits)
    show "table_keys loads (ko_touch ?ko i now k)
        = upd (table_keys loads k) i (\<lambda>r. if touch_due (ak_last_used r) now then r\<lparr>ak_last_used := Some now\<rparr> else r)"
    proof
      fix j
      show "table_keys loads (ko_touch ?ko i now k) j
        = upd (table_keys loads k) i (\<lambda>r. if touch_due (ak_last_used r) now then r\<lparr>ak_last_used := Some now\<rparr> else r) j"
        by (cases "find (\<lambda>x. kr_id x = j) k")
          (auto simp: table_key_ops_def table_keys_def find_update_where upd_def due record_from_row_def dest: find_key_mem)
    qed
  qed
qed

end
