(* ===== verification/ApiKeyProperties.thy ===== *)
theory ApiKeyProperties
  imports ApiKeyStores AuthProperties
begin

text \<open>What the API keys guarantee: a revoked key is refused for good, a key acts as its owner within the
  products and the scope chosen for it and no longer than its life, and the limit of calls holds in every
  window of a minute.\<close>

section \<open>Tokens\<close>

definition well_formed_parts :: "string \<Rightarrow> string \<Rightarrow> bool" where
  "well_formed_parts key_id secret \<longleftrightarrow>
     length key_id = 16 \<and> list_all is_hex key_id \<and> length secret = 43 \<and> list_all is_base64url secret"

lemma base64url_no_newline: "list_all is_base64url s \<Longrightarrow> s \<noteq> [] \<Longrightarrow> last s \<noteq> CHR 0x0A"
proof
  assume "list_all is_base64url s" "s \<noteq> []" "last s = CHR 0x0A"
  then have "is_base64url (CHR 0x0A)" by (metis last_in_set list_all_iff)
  then show False by (simp add: is_base64url_def is_letter_def is_upper_def is_lower_def is_digit_def Let_def)
qed

lemma parse_token:
  assumes "well_formed_parts key_id secret"
  shows "parse_api_key_id (token_of key_id secret) = Some key_id"
proof -
  have l: "length key_id = 16" "length secret = 43" using assms by (simp_all add: well_formed_parts_def)
  have "secret \<noteq> []" using l(2) by auto
  then have "last (token_of key_id secret) \<noteq> CHR 0x0A"
    using base64url_no_newline[of secret] assms by (simp add: token_of_def well_formed_parts_def)
  moreover have "token_of key_id secret = ''prak_'' @ key_id @ ''_'' @ secret" by (simp add: token_of_def API_KEY_PREFIX_def)
  moreover have "drop 5 (''prak_'' @ key_id @ ''_'' @ secret) = key_id @ ''_'' @ secret" by simp
  moreover have "drop 21 (''prak_'' @ key_id @ ''_'' @ secret) = ''_'' @ secret" using l by (simp add: drop_append)
  moreover have "drop 22 (''prak_'' @ key_id @ ''_'' @ secret) = secret" using l by (simp add: drop_append)
  ultimately show ?thesis
    using assms by (simp add: parse_api_key_id_def API_KEY_PREFIX_def well_formed_parts_def Let_def)
qed

section \<open>Revoked keys\<close>

lemma unknown_key_refused:
  "parse_api_key_id token = Some i \<Longrightarrow> ko_get ko k i = None \<Longrightarrow>
   authenticate_api_key sv ko kc now counted saved token s k c = (Inl (KeyRefused (ApiError 401 ApiKeyInvalid)), k, c)"
  by (simp add: authenticate_api_key_def)

context key_store
begin

lemma revoked_is_refused:
  assumes "inv k" and "revoke_api_key ko actor any_user i k = (Inr r, k')"
    and "(key_step ko (\<lambda>j. j \<noteq> i))\<^sup>*\<^sup>* k' k''" and "parse_api_key_id token = Some i"
  shows "authenticate_api_key sv ko kc now counted saved token s k'' c = (Inl (KeyRefused (ApiError 401 ApiKeyInvalid)), k'', c)"
proof -
  have "k' = fst (ko_delete ko i k)"
    using assms(2) by (auto simp: revoke_api_key_def split: option.splits if_splits)
  then have "inv k'" "keys k' i = None" using delete_law[OF assms(1), of i] by simp_all
  from gone_stays_gone[OF assms(3) this] show ?thesis by (rule unknown_key_refused[OF assms(4)])
qed

text \<open>The keys of a deleted user are gone as well, when the cleaning works.\<close>

lemma owned_is_refused:
  assumes "inv k" and "delete_user_and_keys sv ko True actor u v s k = (Inr x, s', k')"
    and "keys k i = Some r" and "ak_owner r = u"
    and "(key_step ko (\<lambda>j. j \<noteq> i))\<^sup>*\<^sup>* k' k''" and "parse_api_key_id token = Some i"
  shows "authenticate_api_key sv ko kc now counted saved token s'' k'' c
    = (Inl (KeyRefused (ApiError 401 ApiKeyInvalid)), k'', c)"
proof -
  have "k' = fst (ko_delete_owned ko u k)"
    using assms(2) by (auto simp: delete_user_and_keys_def split: prod.splits sum.splits)
  then have "inv k'" "keys k' i = None" using delete_owned_law[OF assms(1), of u] assms(3,4) by simp_all
  from gone_stays_gone[OF assms(5) this] show ?thesis by (rule unknown_key_refused[OF assms(6)])
qed

end

text \<open>C24: A revoked key never works again: after its owner or an administrator has revoked it, every token with its id
  is refused with 401, whatever happens to the other keys, and the refusal counts no call and changes
  nothing.\<close>
theorem revoked_key_is_refused:
  assumes "key_table_ok k" and "revoke_api_key (table_key_ops dumps loads) actor any_user i k = (Inr r, k')"
    and "(key_step (table_key_ops dumps loads) (\<lambda>j. j \<noteq> i))\<^sup>*\<^sup>* k' k''" and "parse_api_key_id token = Some i"
  shows "authenticate_api_key sv (table_key_ops dumps loads) kc now counted saved token s k'' c
    = (Inl (KeyRefused (ApiError 401 ApiKeyInvalid)), k'', c)"
  using assms by (rule key_rows.revoked_is_refused)

section \<open>What a key may do\<close>

lemma created_parts:
  assumes "create_api_key ko digest actor now key_id secret q k = (Inr (r, token), k')"
  shows "token = token_of key_id secret \<and> ak_id r = key_id \<and> ak_hash r = digest token \<and> ak_owner r = pr_user actor
   \<and> sort_products (kq_products q) = Some (ak_products r) \<and> ak_scopes r = kq_scopes q \<and> ak_last_used r = None
   \<and> ak_expires r = (case kq_days q of None \<Rightarrow> None | Some d \<Rightarrow> if d = 0 then None else Some (now + of_int d * 86400))
   \<and> ko_create ko r k = Inr k'"
proof -
  have room: "\<not> API_KEY_MAX_PER_USER \<le> length (list_api_keys ko actor False k)"
    using assms by (cases "API_KEY_MAX_PER_USER \<le> length (list_api_keys ko actor False k)") (simp_all add: create_api_key_def)
  show ?thesis
  proof (cases "sort_products (kq_products q)")
    case None
    then show ?thesis using assms room by (simp add: create_api_key_def new_api_key_def)
  next
    case (Some ps)
    define rec where "rec = fst (the (new_api_key digest key_id secret now (kq_name q) (pr_user actor)
        (kq_products q) (kq_days q) (kq_scopes q)))"
    have new: "new_api_key digest key_id secret now (kq_name q) (pr_user actor) (kq_products q) (kq_days q) (kq_scopes q)
        = Some (rec, token_of key_id secret)"
      by (simp add: rec_def new_api_key_def Some Let_def)
    have fields: "ak_id rec = key_id" "ak_hash rec = digest (token_of key_id secret)" "ak_owner rec = pr_user actor"
        "ak_products rec = ps" "ak_scopes rec = kq_scopes q" "ak_last_used rec = None"
        "ak_expires rec = (case kq_days q of None \<Rightarrow> None | Some d \<Rightarrow> if d = 0 then None else Some (now + of_int d * 86400))"
      by (simp_all add: rec_def new_api_key_def Some Let_def)
    obtain k1 where "ko_create ko rec k = Inr k1" "(rec, token_of key_id secret, k1) = (r, token, k')"
      using assms room by (cases "ko_create ko rec k") (simp_all add: create_api_key_def new)
    then have eqs: "r = rec" "token = token_of key_id secret" "k' = k1" and made: "ko_create ko rec k = Inr k1"
      by (simp_all only: prod.inject)
    show ?thesis unfolding eqs by (intro conjI fields made refl) (simp only: fields Some)
  qed
qed

lemma sorted_products:
  assumes "sort_products ps = Some qs"
  shows "set qs = set ps \<and> plain_products qs"
proof -
  have plain: "plain_products API_KEY_PRODUCTS" by (simp add: plain_products_def API_KEY_PRODUCTS_def)
  have "set ps \<subseteq> set API_KEY_PRODUCTS" "qs = filter (\<lambda>p. p \<in> set ps) API_KEY_PRODUCTS"
    using assms by (auto simp: sort_products_def list_all_iff split: if_splits)
  then show ?thesis using plain unfolding plain_products_def by auto
qed

lemma authenticated_iff:
  assumes "parse_api_key_id token = Some i" and "ko_get ko k i = Some r"
  shows "fst (authenticate_api_key sv ko kc now counted saved token s k c) = Inr (p, r') \<longleftrightarrow>
    ak_hash r = kc_digest kc token \<and> \<not> key_expired r now \<and> pd_key (sv_product sv) \<in> set (ak_products r)
    \<and> fst (acquire_call (ak_id r) (kc_calls kc) counted c) = None
    \<and> (\<exists>q. key_principal sv kc now (ak_owner r) s = Inr q \<and> p = q\<lparr>pr_session := ''api-key:'' @ i\<rparr>) \<and> r' = r"
  using assms by (auto simp: authenticate_api_key_def token_matches_def Let_def split: prod.splits option.splits sum.splits)

text \<open>C25: A key acts as its owner and within what was chosen for it: as long as it is not revoked, the token
  answered at its creation is accepted exactly before the end of its life, in a product chosen for it, within
  the limit of calls, and while its owner may work; it then has the rights the owner has at that moment,
  and the scope of the request, unchanged by the store. A token with another digest is refused.\<close>
theorem key_acts_as_its_owner:
  assumes "key_table_ok k" and "table_keys loads k key_id = None" and "well_formed_parts key_id secret"
    and "json_kept dumps loads (kq_scopes q)"
    and "create_api_key (table_key_ops dumps loads) (kc_digest kc) actor born key_id secret q k = (Inr (r, token), k')"
    and "(key_step (table_key_ops dumps loads) (\<lambda>j. j \<noteq> key_id))\<^sup>*\<^sup>* k' k''"
    and "ko_get (table_key_ops dumps loads) k'' key_id = Some r''"
  shows "(fst (authenticate_api_key sv (table_key_ops dumps loads) kc now counted saved token s k'' c) = Inr (p, r') \<longleftrightarrow>
       (\<forall>d. kq_days q = Some d \<and> d \<noteq> 0 \<longrightarrow> now < born + of_int d * 86400)
       \<and> pd_key (sv_product sv) \<in> set (kq_products q)
       \<and> fst (acquire_call key_id (kc_calls kc) counted c) = None
       \<and> (\<exists>p'. key_principal sv kc now (pr_user actor) s = Inr p' \<and> p = p'\<lparr>pr_session := ''api-key:'' @ key_id\<rparr>)
       \<and> r' = r'')
    \<and> r'' = r\<lparr>ak_last_used := ak_last_used r''\<rparr>
    \<and> key_scope r'' product = map_option set (map_of (kq_scopes q) product)
    \<and> (parse_api_key_id other = Some key_id \<and> kc_digest kc other \<noteq> kc_digest kc token \<longrightarrow>
        authenticate_api_key sv (table_key_ops dumps loads) kc now counted saved other s k'' c
        = (Inl (KeyRefused (ApiError 401 ApiKeyInvalid)), k'', c))"
proof -
  note cp = created_parts[OF assms(5)]
  note sp = sorted_products[of "kq_products q" "ak_products r"]
  have "storable dumps loads r" using cp sp assms(4) by (simp add: storable_def)
  moreover have "table_keys loads k (ak_id r) = None" using cp assms(2) by simp
  ultimately obtain k1 where "ko_create (table_key_ops dumps loads) r k = Inr k1" "key_table_ok k1"
    "table_keys loads k1 = (table_keys loads k)(ak_id r \<mapsto> r)"
    using key_rows.create_law[OF assms(1), of loads r dumps] by blast
  then have "key_table_ok k'" "table_keys loads k' key_id = Some r" using cp by simp_all
  from key_rows.kept_or_gone[OF assms(6) this] assms(7)
  have same: "r'' = r\<lparr>ak_last_used := ak_last_used r''\<rparr>" by auto
  note get = assms(7)
  have fields: "ak_expires r'' = ak_expires r" "ak_id r'' = ak_id r" "ak_hash r'' = ak_hash r" "ak_owner r'' = ak_owner r"
    "ak_products r'' = ak_products r" "ak_scopes r'' = ak_scopes r" by (subst same, simp)+
  have parse: "parse_api_key_id token = Some key_id" using parse_token[OF assms(3)] cp by simp
  have expired: "\<not> key_expired r'' now \<longleftrightarrow>
      (\<forall>d. kq_days q = Some d \<and> d \<noteq> 0 \<longrightarrow> now < born + of_int d * 86400)"
    using cp by (auto simp: key_expired_def fields not_le split: option.splits)
  have one: "fst (authenticate_api_key sv (table_key_ops dumps loads) kc now counted saved token s k'' c) = Inr (p, r') \<longleftrightarrow>
       (\<forall>d. kq_days q = Some d \<and> d \<noteq> 0 \<longrightarrow> now < born + of_int d * 86400)
       \<and> pd_key (sv_product sv) \<in> set (kq_products q)
       \<and> fst (acquire_call key_id (kc_calls kc) counted c) = None
       \<and> (\<exists>p'. key_principal sv kc now (pr_user actor) s = Inr p' \<and> p = p'\<lparr>pr_session := ''api-key:'' @ key_id\<rparr>)
       \<and> r' = r''"
    unfolding authenticated_iff[OF parse get] expired fields using cp sp by simp
  have two: "key_scope r'' product = map_option set (map_of (kq_scopes q) product)"
    using cp by (simp add: key_scope_def fields)
  have three: "parse_api_key_id other = Some key_id \<and> kc_digest kc other \<noteq> kc_digest kc token \<longrightarrow>
        authenticate_api_key sv (table_key_ops dumps loads) kc now counted saved other s k'' c
        = (Inl (KeyRefused (ApiError 401 ApiKeyInvalid)), k'', c)"
    using get cp by (auto simp: authenticate_api_key_def token_matches_def fields)
  show ?thesis using one same two three by blast
qed

section \<open>An example\<close>

definition example_key_config :: key_config where
  "example_key_config =
     \<lparr>kc_digest = (\<lambda>t. ''#'' @ t), kc_admin = Inl (api 503), kc_local = example_admin, kc_local_enabled = False, kc_calls = 2\<rparr>"

definition example_key_id :: string where "example_key_id = ''0123456789abcdef''"
definition example_secret :: string where "example_secret = replicate 43 CHR ''x''"

definition example_request :: key_request where
  "example_request = \<lparr>kq_name = ''cli'', kq_products = [''nl2sql''], kq_days = Some 30, kq_scopes = [(''agent'', [''a1''])]\<rparr>"

definition example_dumps :: "json \<Rightarrow> string" where
  "example_dumps j = ''json''"

definition example_loads :: "string \<Rightarrow> json option" where
  "example_loads t = Some (scopes_json (kq_scopes example_request))"

abbreviation example_key_ops :: "key_table key_ops" where
  "example_key_ops \<equiv> table_key_ops example_dumps example_loads"

definition example_owner :: principal where
  "example_owner = example_admin\<lparr>pr_user := ''u2'', pr_codes := []\<rparr>"

definition example_created :: "(api_error + api_key \<times> string) \<times> key_table" where
  "example_created = create_api_key example_key_ops (kc_digest example_key_config) example_owner 1000 example_key_id
     example_secret example_request []"

definition example_key :: api_key where
  "example_key = fst (projr (fst example_created))"

definition example_token :: string where
  "example_token = token_of example_key_id example_secret"

lemma example_created_key: "example_created = (Inr (example_key, example_token), snd example_created)"
  by (simp add: example_key_def example_created_def example_token_def create_api_key_def new_api_key_def sort_products_def
      example_request_def API_KEY_PRODUCTS_def list_api_keys_def table_key_ops_def API_KEY_MAX_PER_USER_def Let_def)

lemma example_key_found: "ko_get example_key_ops (snd example_created) example_key_id = Some example_key"
  by code_simp

lemma example_parts: "well_formed_parts example_key_id example_secret"
  by code_simp

theorem revoked_key_is_refused_witness:
  "authenticate_api_key example_service example_key_ops example_key_config 5000 5000 True example_token example_tables
     (fst (ko_delete example_key_ops example_key_id (snd example_created))) (\<lambda>_. [])
   = (Inl (KeyRefused (ApiError 401 ApiKeyInvalid)), fst (ko_delete example_key_ops example_key_id (snd example_created)), \<lambda>_. [])"
proof -
  have "key_table_ok (snd example_created)" by code_simp
  moreover have "revoke_api_key example_key_ops example_owner False example_key_id (snd example_created)
      = (Inr example_key, fst (ko_delete example_key_ops example_key_id (snd example_created)))"
    by (simp add: revoke_api_key_def example_key_found, code_simp)
  moreover have "parse_api_key_id example_token = Some example_key_id"
    unfolding example_token_def by (rule parse_token[OF example_parts])
  ultimately show ?thesis by (intro revoked_key_is_refused) auto
qed

definition example_worker :: principal where
  "example_worker = projr (key_principal example_service example_key_config 5000 (pr_user example_owner) example_tables)"

theorem key_acts_as_its_owner_witness:
  "fst (authenticate_api_key example_service example_key_ops example_key_config 5000 5000 True example_token example_tables
       (snd example_created) (\<lambda>_. [])) = Inr (example_worker\<lparr>pr_session := ''api-key:'' @ example_key_id\<rparr>, example_key)
   \<and> pr_user example_worker = ''u2'' \<and> key_scope example_key ''agent'' = Some {''a1''}"
proof -
  have "\<not> isl (key_principal example_service example_key_config 5000 (pr_user example_owner) example_tables)" by code_simp
  then have w: "key_principal example_service example_key_config 5000 (pr_user example_owner) example_tables = Inr example_worker"
    by (simp add: example_worker_def)
  have u: "pr_user example_worker = ''u2''" by code_simp
  have ok: "key_table_ok []" "table_keys example_loads [] example_key_id = None"
    "json_kept example_dumps example_loads (kq_scopes example_request)"
    by (simp_all add: key_table_ok_def table_keys_def json_kept_def example_loads_def example_dumps_def strip_def is_space_def)
  have made: "create_api_key example_key_ops (kc_digest example_key_config) example_owner 1000 example_key_id
     example_secret example_request [] = (Inr (example_key, example_token), snd example_created)"
    using example_created_key by (simp only: example_created_def)
  note all = key_acts_as_its_owner[where sv = example_service and now = 5000 and counted = 5000 and saved = True
        and s = example_tables and c = "\<lambda>_. []" and p = "example_worker\<lparr>pr_session := ''api-key:'' @ example_key_id\<rparr>"
        and r' = example_key and product = "''agent''",
        OF ok(1,2) example_parts ok(3) made rtranclp.rtrancl_refl example_key_found]
  have "\<forall>d. kq_days example_request = Some d \<and> d \<noteq> 0 \<longrightarrow> 5000 < 1000 + of_int d * (86400 :: rat)"
    by (simp add: example_request_def)
  moreover have "pd_key (sv_product example_service) \<in> set (kq_products example_request)" by code_simp
  moreover have "fst (acquire_call example_key_id (kc_calls example_key_config) 5000 (\<lambda>_. [])) = None" by code_simp
  ultimately have "fst (authenticate_api_key example_service example_key_ops example_key_config 5000 5000 True example_token
      example_tables (snd example_created) (\<lambda>_. [])) = Inr (example_worker\<lparr>pr_session := ''api-key:'' @ example_key_id\<rparr>, example_key)"
    by (intro iffD2[OF conjunct1[OF all]] conjI exI[of _ example_worker] refl w)
  moreover have "key_scope example_key ''agent'' = Some {''a1''}"
    by (rule trans[OF conjunct1[OF conjunct2[OF conjunct2[OF all]]]]) (simp add: example_request_def)
  ultimately show ?thesis using u by (intro conjI)
qed

section \<open>The number of keys\<close>

text \<open>The number of keys is checked in one transaction and the key is inserted in another: two requests that both
  see nine keys leave eleven.\<close>

lemma two_creations_pass_the_limit:
  assumes "length (list_api_keys ko actor False k) = 9"
    and "create_api_key ko digest actor now i secret q k = (Inr (r, token), k')"
    and "ko_create ko r' k' = Inr k''" and "ko_create ko r' k = Inr k1"
    and "sort_products (kq_products q) \<noteq> None"
    and "r' = fst (the (new_api_key digest j secret' now (kq_name q) (pr_user actor) (kq_products q) (kq_days q) (kq_scopes q)))"
  shows "create_api_key ko digest actor now j secret' q k = (Inr (r', token_of j secret'), k1)"
  using assms by (auto simp: create_api_key_def new_api_key_def Let_def API_KEY_MAX_PER_USER_def)

end
