(* ===== verification/ServiceToken.thy ===== *)
theory ServiceToken
  imports AuthService JsonValue
begin

text \<open>The signed tokens between the products (\<open>pr_system_settings/auth/service_token.py\<close>): issue,
  verification and the scope of profiles a token carries. How a JSON value becomes a segment of a token and
  back, and the signature, are arguments (\<open>token_codec\<close>).\<close>

definition SERVICE_TOKEN_LEEWAY :: rat where "SERVICE_TOKEN_LEEWAY = 30"
definition SERVICE_TOKEN_MAX_TTL :: int where "SERVICE_TOKEN_MAX_TTL = 600"
definition SERVICE_TOKEN_MIN_SECRET :: nat where "SERVICE_TOKEN_MIN_SECRET = 32"
definition PROFILE_SCOPE_CLAIM :: string where "PROFILE_SCOPE_CLAIM = ''profile_ids''"
definition PROFILE_SCOPE_MAX_IDS :: nat where "PROFILE_SCOPE_MAX_IDS = 50"
definition PROFILE_SCOPE_MAX_ID_CHARS :: nat where "PROFILE_SCOPE_MAX_ID_CHARS = 128"

record token_codec =
  tc_segment :: "json \<Rightarrow> string"
  tc_unsegment :: "string \<Rightarrow> json option"
  tc_sign :: "string \<Rightarrow> string \<Rightarrow> string"

type_synonym claims = "(string \<times> json) list"

text \<open>\<open>TokenRaised\<close>: an exception that is not an answer of the API.\<close>

datatype token_error = TokenRefused nat | TokenRaised

definition is_ascii :: "char \<Rightarrow> bool" where
  "is_ascii c = ((of_char c :: nat) < 128)"

definition require_secret :: "string \<Rightarrow> string option" where
  "require_secret secret = (if length (strip secret) < SERVICE_TOKEN_MIN_SECRET then None else Some (strip secret))"

text \<open>The ids of a claim, if it has the right form.\<close>

fun profile_items :: "json list \<Rightarrow> string list option" where
  "profile_items [] = Some []"
| "profile_items (j # js) =
     (case json_text j of
        None \<Rightarrow> None
      | Some s \<Rightarrow> if strip s = [] \<or> PROFILE_SCOPE_MAX_ID_CHARS < length s then None
                  else map_option (Cons (strip s)) (profile_items js))"

definition valid_profile_ids :: "json \<Rightarrow> string list option" where
  "valid_profile_ids j =
     (case j of
        JList js \<Rightarrow> if js = [] \<or> PROFILE_SCOPE_MAX_IDS < length js then None else profile_items js
      | _ \<Rightarrow> None)"

section \<open>Issue\<close>

definition standard_claims :: "string \<Rightarrow> string \<Rightarrow> string \<Rightarrow> int \<Rightarrow> int \<Rightarrow> claims" where
  "standard_claims issuer subject audience issued ttl =
     [(''iss'', JText issuer), (''sub'', JText subject), (''aud'', JText audience), (''iat'', JInt issued),
      (''exp'', JInt (issued + ttl))]"

text \<open>What the caller adds; a claim of profiles among it is dropped, and the standard claims come over it.\<close>

definition token_payload :: "string \<Rightarrow> string \<Rightarrow> string \<Rightarrow> int \<Rightarrow> int \<Rightarrow> claims \<Rightarrow> string list option \<Rightarrow> claims" where
  "token_payload issuer subject audience issued ttl extra scoped =
     (let std = standard_claims issuer subject audience issued ttl;
          extra = filter (\<lambda>(k, v). k \<noteq> PROFILE_SCOPE_CLAIM \<and> k \<notin> fst ` set std) extra
      in sort_key fst (std @ extra @ (case scoped of None \<Rightarrow> [] | Some ids \<Rightarrow> [(PROFILE_SCOPE_CLAIM, JList (map JText ids))])))"

definition token_header :: json where
  "token_header = JObject [(''alg'', JText ''HS256''), (''typ'', JText ''JWT'')]"

definition issue_service_token ::
    "token_codec \<Rightarrow> string \<Rightarrow> string \<Rightarrow> string \<Rightarrow> string \<Rightarrow> int \<Rightarrow> claims \<Rightarrow> string list \<Rightarrow> rat \<Rightarrow> token_error + string" where
  "issue_service_token tc secret subject audience issuer ttl extra profile_ids now =
     (case require_secret secret of
        None \<Rightarrow> Inl (TokenRefused 503)
      | Some secret \<Rightarrow>
          if subject = [] \<or> audience = [] \<or> \<not> (0 < ttl \<and> ttl \<le> SERVICE_TOKEN_MAX_TTL) then Inl TokenRaised
          else
            let scoped = (if profile_ids = [] then None else valid_profile_ids (JList (map JText (dedup profile_ids))))
            in if profile_ids \<noteq> [] \<and> scoped = None then Inl TokenRaised
               else
                 let payload = token_payload issuer subject audience \<lfloor>now\<rfloor> ttl extra scoped;
                     input = tc_segment tc token_header @ ''.'' @ tc_segment tc (JObject payload)
                 in Inr (input @ ''.'' @ tc_sign tc secret input))"

section \<open>Verification\<close>

definition claims_error :: "claims \<Rightarrow> string \<Rightarrow> rat \<Rightarrow> bool" where
  "claims_error payload audience now =
     (case (json_int (json_get payload ''exp''), json_int (json_get payload ''iat'')) of
        (Some e, Some i) \<Rightarrow>
          e - i > SERVICE_TOKEN_MAX_TTL \<or> of_int i > now + SERVICE_TOKEN_LEEWAY
          \<or> of_int e + SERVICE_TOKEN_LEEWAY < now
          \<or> json_get payload ''aud'' \<noteq> JText audience
          \<or> (case json_text (json_get payload ''sub'') of None \<Rightarrow> True | Some s \<Rightarrow> s = [])
          \<or> (case map_of payload PROFILE_SCOPE_CLAIM of None \<Rightarrow> False | Some j \<Rightarrow> valid_profile_ids j = None)
      | _ \<Rightarrow> True)"

text \<open>Signing a text that is not ASCII raises; the characters of the signature that are not ASCII are ignored.\<close>

definition verify_service_token ::
    "token_codec \<Rightarrow> string \<Rightarrow> string \<Rightarrow> string \<Rightarrow> rat \<Rightarrow> token_error + claims" where
  "verify_service_token tc secret token audience now =
     (case require_secret secret of
        None \<Rightarrow> Inl (TokenRefused 503)
      | Some secret \<Rightarrow>
          case split_on CHR ''.'' token of
            [header, payload, signature] \<Rightarrow>
              if \<not> list_all is_ascii (header @ payload) then Inl TokenRaised
              else if filter is_ascii signature \<noteq> tc_sign tc secret (header @ ''.'' @ payload) then Inl (TokenRefused 401)
              else (case (tc_unsegment tc header, tc_unsegment tc payload) of
                      (Some (JObject h), Some (JObject claims)) \<Rightarrow>
                        if json_get h ''alg'' \<noteq> JText ''HS256'' \<or> claims_error claims audience now then Inl (TokenRefused 401)
                        else Inr claims
                    | _ \<Rightarrow> Inl (TokenRefused 401))
          | _ \<Rightarrow> Inl (TokenRefused 401))"

definition subject_of :: "claims \<Rightarrow> string" where
  "subject_of claims = (case json_text (json_get claims ''sub'') of None \<Rightarrow> [] | Some s \<Rightarrow> s)"

definition profile_scope_from_claims :: "claims option \<Rightarrow> string set option" where
  "profile_scope_from_claims claims =
     (case claims of
        None \<Rightarrow> None
      | Some cs \<Rightarrow>
          (case map_of cs PROFILE_SCOPE_CLAIM of
             None \<Rightarrow> None
           | Some j \<Rightarrow> (case valid_profile_ids j of None \<Rightarrow> Some {} | Some ids \<Rightarrow> Some (set ids))))"

definition narrow_to_profile_scope :: "string set option \<Rightarrow> string set option \<Rightarrow> string set option" where
  "narrow_to_profile_scope allowed scope =
     (case scope of
        None \<Rightarrow> allowed
      | Some s \<Rightarrow> (case allowed of None \<Rightarrow> Some s | Some a \<Rightarrow> Some (a \<inter> s)))"

text \<open>The principal a verified token acts as; \<open>admin\<close> as for a worker.\<close>

definition authenticate_service_token ::
    "'s auth_service \<Rightarrow> token_codec \<Rightarrow> string \<Rightarrow> (api_error + string) \<Rightarrow> rat \<Rightarrow> string \<Rightarrow> string \<Rightarrow> 's
     \<Rightarrow> (token_error + api_error) + principal \<times> claims" where
  "authenticate_service_token sv tc secret admin now token audience s =
     (case verify_service_token tc secret token audience now of
        Inl e \<Rightarrow> Inl (Inl e)
      | Inr claims \<Rightarrow>
          (case principal_for_worker sv admin now (subject_of claims) s of
             Inl (ApiError n c) \<Rightarrow> Inl (Inr (if n = 403 then api 403 else ApiError n c))
           | Inl e \<Rightarrow> Inl (Inr e)
           | Inr p \<Rightarrow> Inr (p, claims)))"

section \<open>A token is accepted as it was issued\<close>

text \<open>What the codec does on these values: the segments are ASCII without dots and are read back, and so is the
  signature.\<close>

definition plain_segment :: "string \<Rightarrow> bool" where
  "plain_segment x \<longleftrightarrow> list_all is_ascii x \<and> CHR ''.'' \<notin> set x"

definition codec_keeps :: "token_codec \<Rightarrow> json \<Rightarrow> bool" where
  "codec_keeps tc j \<longleftrightarrow> plain_segment (tc_segment tc j) \<and> tc_unsegment tc (tc_segment tc j) = Some j"

lemma plain_segment_filter: "plain_segment x \<Longrightarrow> filter is_ascii x = x"
  by (simp add: plain_segment_def list_all_iff)

lemma split_three:
  "plain_segment a \<Longrightarrow> plain_segment b \<Longrightarrow> plain_segment c \<Longrightarrow>
   split_on CHR ''.'' ((a @ ''.'' @ b) @ ''.'' @ c) = [a, b, c]"
  by (simp add: plain_segment_def split_on_append split_on_item)

lemma map_of_sort_key:
  fixes xs :: "('k :: linorder \<times> 'v) list"
  assumes "distinct (map fst xs)"
  shows "map_of (sort_key fst xs) = map_of xs"
proof
  fix k
  have d: "distinct (map fst (sort_key fst xs))"
    using assms by (simp add: distinct_map inj_on_def)
  show "map_of (sort_key fst xs) k = map_of xs k"
    using map_of_eq_Some_iff[OF assms, of k] map_of_eq_Some_iff[OF d, of k]
    by (cases "map_of (sort_key fst xs) k"; cases "map_of xs k") auto
qed

lemma distinct_fst_filter: "distinct (map fst xs) \<Longrightarrow> distinct (map fst (filter P xs))"
  by (rule distinct_map_filter)

lemma map_of_filter_keys: "map_of (filter (\<lambda>(k, v). Q k) xs) k = (if Q k then map_of xs k else None)"
  by (induction xs) auto

lemma distinct_three:
  "distinct xs \<Longrightarrow> distinct ys \<Longrightarrow> distinct zs \<Longrightarrow> set ys \<inter> set xs = {} \<Longrightarrow> set zs \<subseteq> {a} \<Longrightarrow> a \<notin> set xs \<Longrightarrow>
   a \<notin> set ys \<Longrightarrow> distinct (xs @ ys @ zs)"
  by auto

lemma payload_get:
  assumes "distinct (map fst extra)"
  shows "map_of (token_payload issuer subject audience issued ttl extra scoped) =
    (\<lambda>k. case map_of (standard_claims issuer subject audience issued ttl) k of
           Some v \<Rightarrow> Some v
         | None \<Rightarrow> if k = PROFILE_SCOPE_CLAIM then map_option (\<lambda>ids. JList (map JText ids)) scoped else map_of extra k)"
proof -
  let ?std = "standard_claims issuer subject audience issued ttl"
  let ?extra = "filter (\<lambda>(k, v). k \<noteq> PROFILE_SCOPE_CLAIM \<and> k \<notin> fst ` set ?std) extra"
  let ?scope = "case scoped of None \<Rightarrow> [] | Some ids \<Rightarrow> [(PROFILE_SCOPE_CLAIM, JList (map JText ids))]"
  have std: "distinct (map fst ?std)" "PROFILE_SCOPE_CLAIM \<notin> fst ` set ?std"
    by (simp_all add: standard_claims_def PROFILE_SCOPE_CLAIM_def)
  define es where "es = ?extra"
  define sc where "sc = ?scope"
  have "fst ` set es \<inter> fst ` set ?std = {}" "PROFILE_SCOPE_CLAIM \<notin> fst ` set es"
    unfolding es_def by (force split: prod.splits)+
  moreover have "distinct (map fst es)" unfolding es_def by (rule distinct_fst_filter[OF assms])
  moreover have "distinct (map fst sc)" "fst ` set sc \<subseteq> {PROFILE_SCOPE_CLAIM}"
    unfolding sc_def by (cases scoped; simp)+
  ultimately have "distinct (map fst (?std @ es @ sc))"
    using std distinct_three[of "map fst ?std" "map fst es" "map fst sc" PROFILE_SCOPE_CLAIM]
    by (simp only: map_append set_map simp_thms)
  from map_of_sort_key[OF this]
  have p: "map_of (token_payload issuer subject audience issued ttl extra scoped) = map_of (?std @ ?extra @ ?scope)"
    by (simp only: token_payload_def Let_def es_def sc_def)
  have e: "map_of ?extra k = (if k = PROFILE_SCOPE_CLAIM \<or> k \<in> fst ` set ?std then None else map_of extra k)" for k
    using map_of_filter_keys[of "\<lambda>k. k \<noteq> PROFILE_SCOPE_CLAIM \<and> k \<notin> fst ` set ?std" extra k] by simp
  show ?thesis
    unfolding p
  proof
    fix k
    show "map_of (?std @ ?extra @ ?scope) k = (case map_of ?std k of Some v \<Rightarrow> Some v
        | None \<Rightarrow> if k = PROFILE_SCOPE_CLAIM then map_option (\<lambda>ids. JList (map JText ids)) scoped else map_of extra k)"
    proof (cases "map_of ?std k")
      case None
      then have "k \<notin> fst ` set ?std" by (simp add: map_of_eq_None_iff)
      then show ?thesis by (cases scoped) (auto simp: map_add_def None e split: option.split)
    qed (simp add: map_add_def)
  qed
qed

definition scoped_ids :: "string list \<Rightarrow> string list option" where
  "scoped_ids ids = (if ids = [] then None else valid_profile_ids (JList (map JText (dedup ids))))"

lemma profile_items_texts:
  "profile_items (map JText xs) =
     (if list_all (\<lambda>x. strip x \<noteq> [] \<and> length x \<le> PROFILE_SCOPE_MAX_ID_CHARS) xs then Some (map strip xs) else None)"
  by (induction xs) auto

lemma valid_profile_ids_some: "valid_profile_ids j \<noteq> Some []"
proof -
  have "profile_items js = Some [] \<Longrightarrow> js = []" for js by (cases js) (auto split: option.splits if_splits)
  then show ?thesis by (auto simp: valid_profile_ids_def split: json_of.splits)
qed

lemma length_strip: "length (strip x) \<le> length x"
  unfolding strip_def using length_dropWhile_le[of is_space x] length_dropWhile_le[of is_space "rev (dropWhile is_space x)"]
  by simp

lemma strip_strip: "strip (strip x) = strip x"
proof -
  let ?d = "dropWhile is_space"
  have idem: "?d (?d y) = ?d y" for y by (induction y) auto
  have front: "?d (rev (?d (rev y))) = rev (?d (rev y))" if "?d y = y" for y
  proof (cases y)
    case (Cons c cs)
    have "\<not> is_space c"
    proof
      assume "is_space c"
      then have "?d cs = c # cs" using that Cons by simp
      then show False using length_dropWhile_le[of is_space cs] by simp
    qed
    moreover obtain a b where ab: "a = rev (?d (rev y))" "y = a @ b"
    proof -
      have "rev (?d (rev y)) @ rev (takeWhile is_space (rev y)) = y"
        by (simp only: rev_append[symmetric] takeWhile_dropWhile_id rev_rev_ident)
      then show ?thesis using that[of "rev (?d (rev y))"] by metis
    qed
    ultimately show ?thesis using Cons unfolding ab(1)[symmetric] by (cases a) simp_all
  qed simp
  show ?thesis unfolding strip_def front[OF idem] rev_rev_ident idem ..
qed

lemma scoped_ids_kept:
  assumes "scoped_ids ids = Some xs"
  shows "valid_profile_ids (JList (map JText xs)) = Some xs \<and> set xs = strip ` set ids"
proof -
  have ids: "ids \<noteq> []" "length (dedup ids) \<le> PROFILE_SCOPE_MAX_IDS" "xs = map strip (dedup ids)"
    "list_all (\<lambda>x. strip x \<noteq> [] \<and> length x \<le> PROFILE_SCOPE_MAX_ID_CHARS) (dedup ids)"
    using assms by (auto simp: scoped_ids_def valid_profile_ids_def profile_items_texts split: if_splits)
  have "list_all (\<lambda>x. strip x \<noteq> [] \<and> length x \<le> PROFILE_SCOPE_MAX_ID_CHARS) xs"
    using ids(4) unfolding ids(3) list_all_iff set_map by (metis (no_types, lifting) imageE le_trans length_strip strip_strip)
  moreover have "xs \<noteq> []" "length xs \<le> PROFILE_SCOPE_MAX_IDS" using ids by (cases ids; simp)+
  ultimately have "valid_profile_ids (JList (map JText xs)) = Some (map strip xs)"
    by (simp add: valid_profile_ids_def profile_items_texts)
  moreover have "map strip xs = xs" unfolding ids(3) map_map comp_def strip_strip ..
  ultimately show ?thesis using ids(3) by simp
qed

lemma payload_claims:
  assumes "distinct (map fst extra)"
    and p: "p = token_payload issuer subject audience issued ttl extra (scoped_ids ids)"
  shows "json_get p ''exp'' = JInt (issued + ttl)" "json_get p ''iat'' = JInt issued" "json_get p ''aud'' = JText audience"
    "json_get p ''sub'' = JText subject" "json_get p ''iss'' = JText issuer"
    "map_of p PROFILE_SCOPE_CLAIM = map_option (\<lambda>xs. JList (map JText xs)) (scoped_ids ids)"
  unfolding p json_get_def payload_get[OF assms(1)] by (simp_all add: standard_claims_def PROFILE_SCOPE_CLAIM_def)

lemma if_not_swap: "(if \<not> b then x else y) = (if b then y else x)"
  by simp

lemma issued_verifies:
  assumes "distinct (map fst extra)" and "\<And>a b. plain_segment (tc_sign tc a b)"
    and "codec_keeps tc token_header"
    and "codec_keeps tc (JObject (token_payload issuer subject audience \<lfloor>born\<rfloor> ttl extra (scoped_ids ids)))"
    and "issue_service_token tc secret subject audience issuer ttl extra ids born = Inr token"
  shows "verify_service_token tc secret token audience' now =
      (if audience' = audience \<and> of_int \<lfloor>born\<rfloor> - 30 \<le> now \<and> now \<le> of_int (\<lfloor>born\<rfloor> + ttl) + 30
       then Inr (token_payload issuer subject audience \<lfloor>born\<rfloor> ttl extra (scoped_ids ids)) else Inl (TokenRefused 401))"
    and "subject_of (token_payload issuer subject audience \<lfloor>born\<rfloor> ttl extra (scoped_ids ids)) = subject"
    and "profile_scope_from_claims (Some (token_payload issuer subject audience \<lfloor>born\<rfloor> ttl extra (scoped_ids ids)))
      = (if ids = [] then None else Some (strip ` set ids))"
proof -
  define p where "p = token_payload issuer subject audience \<lfloor>born\<rfloor> ttl extra (scoped_ids ids)"
  obtain sec where sec: "require_secret secret = Some sec"
    using assms(5) by (cases "require_secret secret") (simp_all add: issue_service_token_def)
  have ok: "subject \<noteq> []" "0 < ttl" "ttl \<le> SERVICE_TOKEN_MAX_TTL" "ids \<noteq> [] \<longrightarrow> scoped_ids ids \<noteq> None"
    using assms(5) by (auto simp: issue_service_token_def sec scoped_ids_def Let_def split: if_splits)
  define input where "input = tc_segment tc token_header @ ''.'' @ tc_segment tc (JObject p)"
  have token: "token = input @ ''.'' @ tc_sign tc sec input"
    using assms(5) ok unfolding issue_service_token_def sec option.case Let_def scoped_ids_def[symmetric] p_def[symmetric] input_def[symmetric]
    by (simp split: if_splits)
  have segs: "split_on CHR ''.'' token = [tc_segment tc token_header, tc_segment tc (JObject p), tc_sign tc sec input]"
    unfolding token unfolding input_def
    by (rule split_three) (use assms(2,3,4) in \<open>auto simp: codec_keeps_def p_def\<close>)
  note pc = payload_claims[OF assms(1) p_def]
  have err: "claims_error p audience' now \<longleftrightarrow>
      \<not> (audience' = audience \<and> of_int \<lfloor>born\<rfloor> - 30 \<le> now \<and> now \<le> of_int (\<lfloor>born\<rfloor> + ttl) + 30)"
    using ok scoped_ids_kept[of ids]
    by (auto simp: claims_error_def pc SERVICE_TOKEN_MAX_TTL_def SERVICE_TOKEN_LEEWAY_def not_le split: option.splits)
  have alg: "json_get [(''alg'', JText ''HS256''), (''typ'', JText ''JWT'')] ''alg'' = JText ''HS256''"
    by (simp add: json_get_def)
  have "tc_unsegment tc (tc_segment tc token_header) = Some token_header" "tc_unsegment tc (tc_segment tc (JObject p)) = Some (JObject p)"
    "list_all is_ascii (tc_segment tc token_header @ tc_segment tc (JObject p))"
    "filter is_ascii (tc_sign tc sec input) = tc_sign tc sec input"
    using assms(2,3,4) plain_segment_filter by (simp_all add: codec_keeps_def p_def plain_segment_def)
  then have v: "verify_service_token tc secret token audience' now =
      (if claims_error p audience' now then Inl (TokenRefused 401) else Inr p)"
    by (simp add: verify_service_token_def sec segs input_def token_header_def alg)
  have "profile_scope_from_claims (Some p) = (if ids = [] then None else Some (strip ` set ids))"
    using scoped_ids_kept[of ids] ok(4) by (auto simp: profile_scope_from_claims_def pc scoped_ids_def split: option.splits)
  then show "profile_scope_from_claims (Some (token_payload issuer subject audience \<lfloor>born\<rfloor> ttl extra (scoped_ids ids)))
      = (if ids = [] then None else Some (strip ` set ids))" unfolding p_def .
  show "verify_service_token tc secret token audience' now =
      (if audience' = audience \<and> of_int \<lfloor>born\<rfloor> - 30 \<le> now \<and> now \<le> of_int (\<lfloor>born\<rfloor> + ttl) + 30
       then Inr (token_payload issuer subject audience \<lfloor>born\<rfloor> ttl extra (scoped_ids ids)) else Inl (TokenRefused 401))"
    unfolding v err unfolding p_def by (simp only: if_not_swap)
  show "subject_of (token_payload issuer subject audience \<lfloor>born\<rfloor> ttl extra (scoped_ids ids)) = subject"
    unfolding p_def[symmetric] by (simp add: subject_of_def pc)
qed

text \<open>C27: A token between the products is accepted exactly while it lives: what was issued for a subject and an
  audience is accepted by that audience from half a minute before its issue to half a minute after its end,
  and then names the same subject and carries exactly the scope of profiles it was issued with; at any other
  time, and by any other audience, it is refused.\<close>
theorem token_lives_as_issued:
  assumes "distinct (map fst extra)" and "\<And>a b. plain_segment (tc_sign tc a b)"
    and "codec_keeps tc token_header"
    and "codec_keeps tc (JObject (token_payload issuer subject audience \<lfloor>born\<rfloor> ttl extra (scoped_ids ids)))"
    and "issue_service_token tc secret subject audience issuer ttl extra ids born = Inr token"
  shows "(case verify_service_token tc secret token audience' now of
      Inr claims \<Rightarrow> audience' = audience \<and> of_int \<lfloor>born\<rfloor> - 30 \<le> now \<and> now \<le> of_int (\<lfloor>born\<rfloor> + ttl) + 30 \<and> subject_of claims = subject
        \<and> profile_scope_from_claims (Some claims) = (if ids = [] then None else Some (strip ` set ids))
    | Inl e \<Rightarrow> e = TokenRefused 401 \<and> \<not> (audience' = audience \<and> of_int \<lfloor>born\<rfloor> - 30 \<le> now \<and> now \<le> of_int (\<lfloor>born\<rfloor> + ttl) + 30))"
  using issued_verifies(2,3)[OF assms]
  unfolding issued_verifies(1)[OF assms] by simp

text \<open>No token is good for long: whoever signed it and whatever it claims, between two moments at which a token
  is accepted lie at most its longest life and the tolerance on both sides, eleven minutes.\<close>
theorem tokens_are_short_lived:
  assumes "verify_service_token tc secret token audience now = Inr claims"
    and "verify_service_token tc secret token audience later = Inr claims'"
  shows "later - now \<le> of_int SERVICE_TOKEN_MAX_TTL + 2 * SERVICE_TOKEN_LEEWAY \<and> claims' = claims
    \<and> subject_of claims \<noteq> [] \<and> profile_scope_from_claims (Some claims) \<noteq> Some {}"
proof -
  have p: "\<not> claims_error claims audience now" "claims' = claims" "\<not> claims_error claims audience later"
    using assms by (auto simp: verify_service_token_def split: option.split_asm list.split_asm if_split_asm json_of.split_asm)
  obtain e i where ei: "json_int (json_get claims ''exp'') = Some e" "json_int (json_get claims ''iat'') = Some i"
    using p(1) by (auto simp: claims_error_def split: option.split_asm)
  have "e - i \<le> SERVICE_TOKEN_MAX_TTL" "of_int i \<le> now + SERVICE_TOKEN_LEEWAY" "later \<le> of_int e + SERVICE_TOKEN_LEEWAY"
    using p(1,3) by (auto simp: claims_error_def ei not_le)
  then have "later - now \<le> of_int SERVICE_TOKEN_MAX_TTL + 2 * SERVICE_TOKEN_LEEWAY"
    by (simp add: SERVICE_TOKEN_LEEWAY_def SERVICE_TOKEN_MAX_TTL_def)
  moreover have "subject_of claims \<noteq> []"
    using p(1) by (auto simp: claims_error_def ei subject_of_def split: option.split_asm)
  moreover have "profile_scope_from_claims (Some claims) \<noteq> Some {}"
    using p(1) by (auto simp: claims_error_def ei profile_scope_from_claims_def valid_profile_ids_some split: option.split_asm)
  ultimately show ?thesis using p(2) by blast
qed

text \<open>The scope of a token only takes away.\<close>

lemma narrowing_only_takes_away:
  "narrow_to_profile_scope allowed scope = Some x \<Longrightarrow>
   (\<forall>a. allowed = Some a \<longrightarrow> x \<subseteq> a) \<and> (\<forall>s. scope = Some s \<longrightarrow> x \<subseteq> s)"
  "narrow_to_profile_scope allowed scope = None \<longleftrightarrow> allowed = None \<and> scope = None"
  by (auto simp: narrow_to_profile_scope_def split: option.splits)

text \<open>A token with a character beyond ASCII before its signature is not refused: the check of the signature
  raises.\<close>

lemma foreign_character_raises:
  "verify_service_token tc (replicate 32 CHR ''s'') (CHR 0xE9 # ''.a.b'') audience now = Inl TokenRaised"
proof -
  have "require_secret (replicate 32 CHR ''s'') = Some (replicate 32 CHR ''s'')" by code_simp
  moreover have "split_on CHR ''.'' (CHR 0xE9 # ''.a.b'') = [[CHR 0xE9], ''a'', ''b'']" by simp
  moreover have "\<not> is_ascii (CHR 0xE9)" by code_simp
  ultimately show ?thesis by (simp add: verify_service_token_def)
qed

section \<open>An example\<close>

definition example_claims :: claims where
  "example_claims = token_payload ''agent'' ''u2'' ''rag'' 1000 60 [] (scoped_ids [''p1''])"

definition example_codec :: token_codec where
  "example_codec =
     \<lparr>tc_segment = (\<lambda>j. if j = token_header then ''h'' else ''p''),
      tc_unsegment = (\<lambda>t. if t = ''h'' then Some token_header else Some (JObject example_claims)),
      tc_sign = (\<lambda>_ _. ''s'')\<rparr>"

lemma example_claims_differ: "JObject example_claims \<noteq> token_header"
proof
  assume "JObject example_claims = token_header"
  then have "example_claims = [(''alg'', JText ''HS256''), (''typ'', JText ''JWT'')]" by (simp add: token_header_def)
  from arg_cong[OF this, of "\<lambda>m. map_of m ''aud''"] have "map_of example_claims ''aud'' = None" by simp
  then have "json_get example_claims ''aud'' = JNull" by (simp add: json_get_def)
  moreover have "json_get example_claims ''aud'' = JText ''rag''" by (rule payload_claims[OF _ example_claims_def]) simp
  ultimately show False by simp
qed

lemma example_codec_keeps:
  "codec_keeps example_codec token_header" "codec_keeps example_codec (JObject example_claims)"
  using example_claims_differ by (simp_all add: codec_keeps_def example_codec_def plain_segment_def is_ascii_def)

lemma example_issued:
  "issue_service_token example_codec (replicate 32 CHR ''s'') ''u2'' ''rag'' ''agent'' 60 [] [''p1''] 1000 = Inr ''h.p.s''"
proof -
  have "scoped_ids [''p1''] \<noteq> None" by code_simp
  moreover have "require_secret (replicate 32 CHR ''s'') = Some (replicate 32 CHR ''s'')" by code_simp
  ultimately show ?thesis using example_claims_differ
    by (simp add: issue_service_token_def SERVICE_TOKEN_MAX_TTL_def Let_def example_codec_def example_claims_def scoped_ids_def)
qed

theorem token_lives_as_issued_witness:
  "\<exists>claims. verify_service_token example_codec (replicate 32 CHR ''s'') ''h.p.s'' ''rag'' 1080 = Inr claims
     \<and> subject_of claims = ''u2'' \<and> profile_scope_from_claims (Some claims) = Some {''p1''}"
proof -
  have "strip ''p1'' = ''p1''" by code_simp
  then show ?thesis
    using token_lives_as_issued[OF _ _ example_codec_keeps(1) _ example_issued, where audience' = "''rag''" and now = 1080]
      example_codec_keeps(2)
    by (simp add: example_codec_def plain_segment_def is_ascii_def example_claims_def split: sum.splits)
qed

theorem tokens_are_short_lived_witness:
  "(1085 :: rat) - 1000 \<le> of_int SERVICE_TOKEN_MAX_TTL + 2 * SERVICE_TOKEN_LEEWAY"
proof -
  let ?v = "verify_service_token example_codec (replicate 32 CHR ''s'') ''h.p.s'' ''rag''"
  have "\<not> isl (?v 1000)" "\<not> isl (?v 1085)" by code_simp+
  then have "?v 1000 = Inr (projr (?v 1000))" "?v 1085 = Inr (projr (?v 1085))" by simp_all
  from tokens_are_short_lived[OF this] show ?thesis by blast
qed

end
