(* ===== verification/RequestGate.thy ===== *)
theory RequestGate
  imports ApiKeyProperties ServiceToken
begin

text \<open>The authorization of a request (\<open>pr_system_settings/auth/dependencies.py\<close>,
  \<open>authorize_request\<close>): which of the four ways in is taken (API key, local installation, signed token of
  another product, session of a browser), and the checks on each. The path is the template of the route that
  matched. The answer is the principal the route runs as, none for an open route, or a refusal.\<close>

definition SAFE_METHODS :: "string list" where "SAFE_METHODS = [''GET'', ''HEAD'', ''OPTIONS'']"

record request =
  rq_method :: string
  rq_path :: string
  rq_authorization :: string
  rq_session :: string
  rq_csrf_cookie :: string
  rq_csrf_header :: string

record ('s, 'k) gate =
  gt_service :: "'s auth_service"
  gt_keys :: "'k key_ops"
  gt_key_config :: key_config
  gt_codec :: token_codec
  gt_secret :: string
  gt_auth_enabled :: bool
  gt_permissions :: "string \<Rightarrow> string \<Rightarrow> string set option"
  gt_unclassified :: string
  gt_public :: "string list"
  gt_open :: "(string \<times> string) list option"
  gt_exempt :: "string list"
  gt_token_paths :: "string list"
  gt_audience :: string
  gt_key_paths :: "string list"

datatype gate_error = GateApi api_error | GateCalls int | GateRaised

definition is_open :: "('s, 'k) gate \<Rightarrow> request \<Rightarrow> bool" where
  "is_open gt rq =
     (rq_path rq \<in> set (gt_public gt)
      \<and> (case gt_open gt of None \<Rightarrow> True | Some ops \<Rightarrow> (upper (rq_method rq), rq_path rq) \<in> set ops))"

definition route_error :: "('s, 'k) gate \<Rightarrow> request \<Rightarrow> principal \<Rightarrow> api_error option" where
  "route_error gt rq p =
     (case gt_permissions gt (rq_method rq) (rq_path rq) of
        None \<Rightarrow> None
      | Some ps \<Rightarrow>
          if gt_unclassified gt \<in> ps then Some (ApiError 403 RouteUnclassified)
          else if \<not> has_any_permission p ps then Some (ApiError 403 RouteForbidden)
          else None)"

type_synonym ('s, 'k) gate_state = "'s \<times> 'k \<times> limiter"

definition key_gate ::
    "('s, 'k) gate \<Rightarrow> rat \<Rightarrow> rat \<Rightarrow> bool \<Rightarrow> request \<Rightarrow> string \<Rightarrow> ('s, 'k) gate_state
     \<Rightarrow> (gate_error + principal) \<times> ('s, 'k) gate_state" where
  "key_gate gt now counted saved rq token st =
     (case st of (s, k, c) \<Rightarrow>
        if rq_path rq \<notin> set (gt_key_paths gt) then (Inl (GateApi (ApiError 401 ApiKeyNotAllowed)), s, k, c)
        else case authenticate_api_key (gt_service gt) (gt_keys gt) (gt_key_config gt) now counted saved token s k c of
               (Inl (KeyRefused e), k, c) \<Rightarrow> (Inl (GateApi e), s, k, c)
             | (Inl (CallsExceeded n), k, c) \<Rightarrow> (Inl (GateCalls n), s, k, c)
             | (Inr (p, r), k, c) \<Rightarrow>
                 (case route_error gt rq p of Some e \<Rightarrow> (Inl (GateApi e), s, k, c) | None \<Rightarrow> (Inr p, s, k, c)))"

text \<open>The token of another product.\<close>

definition token_principal :: "('s, 'k) gate \<Rightarrow> rat \<Rightarrow> request \<Rightarrow> 's \<Rightarrow> gate_error + principal" where
  "token_principal gt now rq s =
     (let (scheme, token) = header_parts (rq_authorization rq)
      in if gt_audience gt = [] then Inl GateRaised
         else if scheme \<noteq> ''bearer'' \<or> token = [] then Inl (GateApi (api 401))
         else case authenticate_service_token (gt_service gt) (gt_codec gt) (gt_secret gt)
                     (kc_admin (gt_key_config gt)) now token (gt_audience gt) s of
                Inl (Inl TokenRaised) \<Rightarrow> Inl GateRaised
              | Inl (Inl (TokenRefused n)) \<Rightarrow> Inl (GateApi (api n))
              | Inl (Inr e) \<Rightarrow> Inl (GateApi e)
              | Inr (p, claims) \<Rightarrow> Inr p)"

definition authenticate_request ::
    "('s, 'k) gate \<Rightarrow> rat \<Rightarrow> request \<Rightarrow> 's \<Rightarrow> (gate_error + principal) \<times> 's" where
  "authenticate_request gt now rq s =
     (if rq_path rq \<in> set (gt_token_paths gt) then (token_principal gt now rq s, s)
      else case authenticate_session (gt_service gt) now (rq_session rq) s of
             (Inl e, s) \<Rightarrow> (Inl (GateApi e), s)
           | (Inr p, s) \<Rightarrow> (Inr p, s))"

definition principal_error :: "('s, 'k) gate \<Rightarrow> request \<Rightarrow> principal \<Rightarrow> api_error option" where
  "principal_error gt rq p =
     (case (if rq_path rq \<notin> set (gt_token_paths gt) \<and> upper (rq_method rq) \<notin> set SAFE_METHODS
            then verify_csrf (gt_service gt) p (rq_csrf_cookie rq) (rq_csrf_header rq) else None) of
        Some e \<Rightarrow> Some e
      | None \<Rightarrow>
          if pr_force p \<and> rq_path rq \<notin> set (gt_exempt gt) then Some (ApiError 403 PasswordChangeRequired)
          else route_error gt rq p)"

definition authorize_request ::
    "('s, 'k) gate \<Rightarrow> rat \<Rightarrow> rat \<Rightarrow> bool \<Rightarrow> request \<Rightarrow> ('s, 'k) gate_state
     \<Rightarrow> (gate_error + principal option) \<times> ('s, 'k) gate_state" where
  "authorize_request gt now counted saved rq st =
     (let key = (if gt_key_paths gt = [] then None else bearer_api_key (rq_authorization rq))
      in if key \<noteq> None \<and> \<not> is_open gt rq then
           (case key_gate gt now counted saved rq (the key) st of
              (Inl e, st) \<Rightarrow> (Inl e, st)
            | (Inr p, st) \<Rightarrow> (Inr (Some p), st))
         else if kc_local_enabled (gt_key_config gt) then (Inr (Some (kc_local (gt_key_config gt))), st)
         else if \<not> gt_auth_enabled gt then (Inr None, st)
         else if is_open gt rq then (Inr None, st)
         else case authenticate_request gt now rq (fst st) of
                (Inl e, s) \<Rightarrow> (Inl e, s, snd st)
              | (Inr p, s) \<Rightarrow>
                  (case principal_error gt rq p of
                     Some e \<Rightarrow> (Inl (GateApi e), s, snd st)
                   | None \<Rightarrow> (Inr (Some p), s, snd st)))"

section \<open>Nothing passes unchecked\<close>

text \<open>The checks a principal has passed: the permission of the route for every way in, and for a browser the
  token against forged requests and the change of the first password.\<close>

definition route_allowed :: "('s, 'k) gate \<Rightarrow> request \<Rightarrow> principal \<Rightarrow> bool" where
  "route_allowed gt rq p \<longleftrightarrow>
     (\<forall>ps. gt_permissions gt (rq_method rq) (rq_path rq) = Some ps \<longrightarrow>
        gt_unclassified gt \<notin> ps \<and> (is_system_admin p \<or> (\<exists>c\<in>ps. c \<in> pr_permissions p)))"

definition csrf_safe :: "('s, 'k) gate \<Rightarrow> request \<Rightarrow> principal \<Rightarrow> bool" where
  "csrf_safe gt rq p \<longleftrightarrow>
     (upper (rq_method rq) \<in> {''GET'', ''HEAD'', ''OPTIONS''}
      \<or> rq_csrf_header rq \<noteq> [] \<and> rq_csrf_cookie rq = rq_csrf_header rq
         \<and> cr_token (sv_crypto (gt_service gt)) (rq_csrf_header rq) = pr_csrf p)"

lemma route_error_None: "route_error gt rq p = None \<longleftrightarrow> route_allowed gt rq p"
  by (auto simp: route_error_def route_allowed_def has_any_permission_def split: option.splits)

lemma principal_error_None:
  "principal_error gt rq p = None \<longleftrightarrow>
     (rq_path rq \<in> set (gt_token_paths gt) \<or> csrf_safe gt rq p)
     \<and> (pr_force p \<longrightarrow> rq_path rq \<in> set (gt_exempt gt)) \<and> route_allowed gt rq p"
  by (auto simp: principal_error_def csrf_safe_def verify_csrf_def SAFE_METHODS_def route_error_None
      split: option.splits if_splits)

lemma key_gate_served:
  "fst (key_gate gt now counted saved rq token (s, k, c)) = Inr p \<longleftrightarrow>
     rq_path rq \<in> set (gt_key_paths gt) \<and> route_allowed gt rq p
     \<and> (\<exists>r. fst (authenticate_api_key (gt_service gt) (gt_keys gt) (gt_key_config gt) now counted saved token s k c) = Inr (p, r))"
  unfolding route_error_None[symmetric]
  by (auto simp: key_gate_def split: prod.splits sum.splits key_error.splits option.splits)

lemma token_served:
  "token_principal gt now rq s = Inr p \<Longrightarrow>
   \<exists>claims. verify_service_token (gt_codec gt) (gt_secret gt) (snd (header_parts (rq_authorization rq))) (gt_audience gt) now = Inr claims
     \<and> principal_for_worker (gt_service gt) (kc_admin (gt_key_config gt)) now (subject_of claims) s = Inr p"
  by (auto simp: token_principal_def authenticate_service_token_def Let_def
      split: prod.splits sum.splits token_error.splits api_error.splits if_splits)

text \<open>C26: No route runs unchecked: on an installation with authentication, a route that is not open runs only as a
  principal who holds a permission of the route, and who came in by one of three ways: an API key, only on the
  paths for keys; a token of another product, only on the paths for tokens, as the user it names; or a session,
  with the check against forged requests for everything that is not a reading method and no pending change of
  the first password. A request with an API key never falls back to another way in.\<close>
theorem no_route_runs_unchecked:
  assumes "fst (authorize_request gt now counted saved rq (s, k, c)) = Inr served"
    and "gt_auth_enabled gt" and "\<not> kc_local_enabled (gt_key_config gt)" and "\<not> is_open gt rq"
  shows "\<exists>p. served = Some p \<and> route_allowed gt rq p \<and>
    (case (if gt_key_paths gt = [] then None else bearer_api_key (rq_authorization rq)) of
       Some token \<Rightarrow>
         rq_path rq \<in> set (gt_key_paths gt)
         \<and> (\<exists>r. fst (authenticate_api_key (gt_service gt) (gt_keys gt) (gt_key_config gt) now counted saved token s k c) = Inr (p, r))
     | None \<Rightarrow>
         (pr_force p \<longrightarrow> rq_path rq \<in> set (gt_exempt gt))
         \<and> (if rq_path rq \<in> set (gt_token_paths gt)
             then \<exists>claims. verify_service_token (gt_codec gt) (gt_secret gt) (snd (header_parts (rq_authorization rq)))
                      (gt_audience gt) now = Inr claims
                    \<and> principal_for_worker (gt_service gt) (kc_admin (gt_key_config gt)) now (subject_of claims) s = Inr p
             else fst (authenticate_session (gt_service gt) now (rq_session rq) s) = Inr p \<and> csrf_safe gt rq p))"
proof (cases "if gt_key_paths gt = [] then None else bearer_api_key (rq_authorization rq)")
  case (Some token)
  with assms(1,4) obtain p where "served = Some p" "fst (key_gate gt now counted saved rq token (s, k, c)) = Inr p"
    by (auto simp: authorize_request_def split: prod.splits sum.splits if_splits)
  then show ?thesis using Some unfolding key_gate_served by auto
next
  case None
  with assms obtain p s' where p: "served = Some p" "authenticate_request gt now rq s = (Inr p, s')" "principal_error gt rq p = None"
    by (auto simp: authorize_request_def split: prod.splits sum.splits option.splits)
  from p(2) show ?thesis
    using None p(1,3) token_served[of gt now rq s p] unfolding principal_error_None authenticate_request_def
    by (auto split: if_splits prod.splits sum.splits)
qed

section \<open>An example\<close>

definition example_gate :: "(auth_tables, key_table) gate" where
  "example_gate =
     \<lparr>gt_service = example_service, gt_keys = example_key_ops, gt_key_config = example_key_config, gt_codec = example_codec,
      gt_secret = replicate 32 CHR ''s'',
      gt_auth_enabled = True, gt_permissions = (\<lambda>m p. if p = ''/documents'' then Some {''rag.read''} else None),
      gt_unclassified = ''__unclassified__'', gt_public = [''/health''], gt_open = None, gt_exempt = [''/auth/password''],
      gt_token_paths = [''/mcp''], gt_audience = ''rag'', gt_key_paths = [''/mcp'']\<rparr>"

definition example_rq :: "string \<Rightarrow> string \<Rightarrow> request" where
  "example_rq csrf_cookie csrf_header =
     \<lparr>rq_method = ''POST'', rq_path = ''/me'', rq_authorization = [], rq_session = ''t1'', rq_csrf_cookie = csrf_cookie,
      rq_csrf_header = csrf_header\<rparr>"

definition example_served :: "string \<Rightarrow> string \<Rightarrow> gate_error + principal option" where
  "example_served cookie header =
     fst (authorize_request example_gate 100 100 True (example_rq cookie header) (example_tables, [], \<lambda>_. []))"

theorem no_route_runs_unchecked_witness:
  "\<exists>p. example_served ''c1'' ''c1'' = Inr (Some p) \<and> pr_user p = ''u2'' \<and> csrf_safe example_gate (example_rq ''c1'' ''c1'') p
     \<and> isl (example_served ''c1'' ''c2'')"
proof -
  have run: "\<not> isl (example_served ''c1'' ''c1'')" "pr_user (the (projr (example_served ''c1'' ''c1''))) = ''u2''"
    "isl (example_served ''c1'' ''c2'')" by code_simp+
  from run(1) have served: "example_served ''c1'' ''c1'' = Inr (projr (example_served ''c1'' ''c1''))" by simp
  have cfg: "gt_auth_enabled example_gate" "\<not> kc_local_enabled (gt_key_config example_gate)"
    "\<not> is_open example_gate (example_rq ''c1'' ''c1'')" by code_simp+
  have way: "(if gt_key_paths example_gate = [] then None else bearer_api_key (rq_authorization (example_rq ''c1'' ''c1''))) = None"
    "rq_path (example_rq ''c1'' ''c1'') \<notin> set (gt_token_paths example_gate)" by code_simp+
  from no_route_runs_unchecked[OF served[unfolded example_served_def] cfg, unfolded way(1) option.case if_not_P[OF way(2)]]
  obtain p where "projr (example_served ''c1'' ''c1'') = Some p" "csrf_safe example_gate (example_rq ''c1'' ''c1'') p"
    unfolding example_served_def by blast
  with served run(2,3) show ?thesis by (intro exI[of _ p]) simp
qed

end
