(* ===== verification/CallLimit.thy ===== *)
theory CallLimit
  imports ApiKeys
begin

text \<open>The limit of calls per minute of an API key (\<open>ApiKeyRateLimiter\<close>) against a reference that remembers
  every counted call. The calls of a worker are a list of keys and times; the clock does not run backwards.\<close>

section \<open>A run of the limiter and the reference\<close>

text \<open>Which of the calls are counted, and what the limiter remembers afterwards.\<close>

fun run_calls :: "int \<Rightarrow> (ident \<times> rat) list \<Rightarrow> limiter \<Rightarrow> bool list \<times> limiter" where
  "run_calls limit [] c = ([], c)"
| "run_calls limit ((i, t) # calls) c =
     (let (wait, c) = acquire_call i limit t c; (answers, c) = run_calls limit calls c
      in ((wait = None) # answers, c))"

fun sliding :: "int \<Rightarrow> (ident \<times> rat) list \<Rightarrow> (ident \<times> rat) list \<Rightarrow> bool list" where
  "sliding limit past [] = []"
| "sliding limit past ((i, t) # calls) =
     (let ok = int (length (filter (\<lambda>(j, x). j = i \<and> t - x < limit_window) past)) < limit
      in ok # sliding limit (if ok then past @ [(i, t)] else past) calls)"

definition counted_calls :: "(ident \<times> rat) list \<Rightarrow> bool list \<Rightarrow> (ident \<times> rat) list" where
  "counted_calls calls answers = map fst (filter snd (zip calls answers))"

section \<open>What the limiter remembers\<close>

lemma drop_old: "sorted xs \<Longrightarrow> dropWhile (\<lambda>x. (b :: rat) \<le> a - x) xs = filter (\<lambda>x. a - x < b) xs"
proof (induction xs)
  case (Cons x xs)
  have "filter (\<lambda>x. a - x < b) xs = xs" if "a - x < b"
    using Cons.prems that by (force intro: filter_True)
  with Cons show ?case by auto
qed simp

definition remembers_calls :: "rat \<Rightarrow> (ident \<times> rat) list \<Rightarrow> limiter \<Rightarrow> bool" where
  "remembers_calls now past c \<longleftrightarrow>
     (\<forall>i. sorted (c i) \<and> (\<forall>x\<in>set (c i). x \<le> now) \<and>
        (\<forall>t\<ge>now. filter (\<lambda>x. t - x < limit_window) (c i)
                 = map snd (filter (\<lambda>(j, x). j = i \<and> t - x < limit_window) past)))"

lemma remembers_empty: "remembers_calls now [] (\<lambda>_. [])"
  by (simp add: remembers_calls_def)

lemma remembers_later: "remembers_calls now past c \<Longrightarrow> now \<le> t \<Longrightarrow> remembers_calls t past c"
  by (fastforce simp: remembers_calls_def)

lemma acquire_step:
  assumes r: "remembers_calls t past c" and limit: "0 < limit"
    and ok: "ok = (int (length (filter (\<lambda>(j, x). j = i \<and> t - x < limit_window) past)) < limit)"
  shows "(fst (acquire_call i limit t c) = None \<longleftrightarrow> ok)
    \<and> remembers_calls t (if ok then past @ [(i, t)] else past) (snd (acquire_call i limit t c))"
proof -
  define kept where "kept = filter (\<lambda>x. t - x < limit_window) (c i)"
  have ci: "sorted (c i)" "\<forall>x\<in>set (c i). x \<le> t" using r unfolding remembers_calls_def by blast+
  have past: "filter (\<lambda>x. s - x < limit_window) (c i) = map snd (filter (\<lambda>(j, x). j = i \<and> s - x < limit_window) past)" if "t \<le> s" for s
    using r that unfolding remembers_calls_def by blast+
  have d: "dropWhile (\<lambda>x. limit_window \<le> t - x) (c i) = kept"
    unfolding kept_def by (rule drop_old[OF ci(1)])
  have len: "length kept = length (filter (\<lambda>(j, x). j = i \<and> t - x < limit_window) past)"
    unfolding kept_def past[OF order_refl] by simp
  have acq: "acquire_call i limit t c = (if ok then (None, c(i := kept @ [t]))
      else (Some (max 1 \<lceil>hd kept + limit_window - t\<rceil>), c(i := kept)))"
    using limit by (simp add: acquire_call_def d ok len Let_def)
  have kept: "sorted (kept @ [t])" "\<forall>x\<in>set kept. x \<le> t"
    using ci by (auto simp: kept_def sorted_append sorted_wrt_filter)
  have kept_past: "filter (\<lambda>x. s - x < limit_window) kept = map snd (filter (\<lambda>(j, x). j = i \<and> s - x < limit_window) past)"
    if "t \<le> s" for s
  proof -
    have "filter (\<lambda>x. s - x < limit_window) kept = filter (\<lambda>x. s - x < limit_window) (c i)"
      unfolding kept_def filter_filter by (rule filter_cong[OF refl]) (use that in auto)
    then show ?thesis using past[OF that] by simp
  qed
  show ?thesis
  proof (cases ok)
    case True
    then show ?thesis using r kept kept_past unfolding acq remembers_calls_def by (auto simp: sorted_append)
  next
    case False
    then show ?thesis using r kept kept_past unfolding acq remembers_calls_def by (auto simp: sorted_append)
  qed
qed

lemma run_calls_sliding:
  "remembers_calls now past c \<Longrightarrow> 0 < limit \<Longrightarrow> sorted (now # map snd calls) \<Longrightarrow>
   fst (run_calls limit calls c) = sliding limit past calls"
proof (induction calls arbitrary: now past c)
  case (Cons call calls)
  obtain i t where call: "call = (i, t)" by fastforce
  have r: "remembers_calls t past c" using remembers_later[OF Cons.prems(1)] Cons.prems(3) call by simp
  from acquire_step[OF r Cons.prems(2) refl, of i] Cons.IH[OF _ Cons.prems(2)] Cons.prems(3)
  show ?case unfolding call by (auto simp: Let_def case_prod_unfold)
qed simp

section \<open>Every window\<close>

definition in_call_window :: "ident \<Rightarrow> rat \<Rightarrow> (ident \<times> rat) list \<Rightarrow> int" where
  "in_call_window i s past = int (length (filter (\<lambda>(j, x). j = i \<and> s - limit_window < x \<and> x \<le> s) past))"

lemma window_step:
  assumes "\<forall>s. in_call_window i s past \<le> limit" and "\<forall>(j, x)\<in>set past. x \<le> t"
    and "int (length (filter (\<lambda>(j, x). j = i' \<and> t - x < limit_window) past)) < limit"
  shows "in_call_window i s (past @ [(i', t)]) \<le> limit"
proof (cases "i' = i \<and> s - limit_window < t \<and> t \<le> s")
  case True
  have "in_call_window i s past \<le> int (length (filter (\<lambda>(j, x). j = i \<and> t - x < limit_window) past))"
    unfolding in_call_window_def
  proof (intro of_nat_mono length_filter_imp)
    fix p assume "p \<in> set past" "case p of (j, x) \<Rightarrow> j = i \<and> s - limit_window < x \<and> x \<le> s"
    then show "case p of (j, x) \<Rightarrow> j = i \<and> t - x < limit_window" using True by (auto simp: algebra_simps)
  qed
  then show ?thesis using assms(3) True by (simp add: in_call_window_def)
next
  case False
  then show ?thesis using assms(1) by (auto simp: in_call_window_def)
qed

lemma sliding_bound:
  "\<forall>i s. in_call_window i s past \<le> limit \<Longrightarrow> sorted (map snd (past @ calls)) \<Longrightarrow>
   in_call_window i s (past @ counted_calls calls (sliding limit past calls)) \<le> limit"
proof (induction calls arbitrary: past)
  case (Cons call calls)
  obtain j t where call: "call = (j, t)" by fastforce
  let ?ok = "int (length (filter (\<lambda>(k, x). k = j \<and> t - x < limit_window) past)) < limit"
  have before: "\<forall>(k, x)\<in>set past. x \<le> t" using Cons.prems(2) unfolding call by (auto simp: sorted_append)
  show ?case
  proof (cases ?ok)
    case True
    have "\<forall>i s. in_call_window i s (past @ [(j, t)]) \<le> limit" using window_step[OF _ before True] Cons.prems(1) by blast
    from Cons.IH[OF this] Cons.prems(2) True show ?thesis unfolding call by (simp add: counted_calls_def)
  next
    case False
    have "sorted (map snd (past @ calls))" using Cons.prems(2) unfolding call by (auto simp: sorted_append)
    from Cons.IH[OF Cons.prems(1) this] False show ?thesis unfolding call by (simp add: counted_calls_def)
  qed
qed (simp add: counted_calls_def)

text \<open>C28: The limit holds in every window of a minute: a call is counted exactly when fewer than the limit of
  calls of its key were counted in the minute before it, whatever the calls of other keys, and so no half-open
  minute, wherever it begins, holds more counted calls of one key than the limit.\<close>
theorem calls_within_limit:
  assumes "0 < limit" and "sorted (map snd calls)"
  shows "fst (run_calls limit calls (\<lambda>_. [])) = sliding limit [] calls
    \<and> in_call_window i s (counted_calls calls (fst (run_calls limit calls (\<lambda>_. [])))) \<le> limit"
proof -
  have "fst (run_calls limit calls (\<lambda>_. [])) = sliding limit [] calls"
  proof (cases calls)
    case (Cons call cs)
    then have "sorted (snd call # map snd calls)" using assms(2) by simp
    from run_calls_sliding[OF remembers_empty assms(1) this] show ?thesis .
  qed simp
  moreover have "in_call_window i s ([] @ counted_calls calls (sliding limit [] calls)) \<le> limit"
    by (rule sliding_bound) (use assms in \<open>simp_all add: in_call_window_def\<close>)
  ultimately show ?thesis by simp
qed

theorem calls_within_limit_witness:
  "fst (run_calls 2 [(''a'', 0), (''a'', 10), (''b'', 11), (''a'', 59), (''a'', 60)] (\<lambda>_. [])) = [True, True, True, False, True]
   \<and> in_call_window ''a'' 60 (counted_calls [(''a'', 0), (''a'', 10), (''b'', 11), (''a'', 59), (''a'', 60)]
       [True, True, True, False, True]) \<le> 2"
proof -
  let ?cs = "[(''a'', 0), (''a'', 10), (''b'', 11), (''a'', 59), (''a'', 60)]"
  have "sorted (map snd ?cs :: rat list)" by simp
  note w = calls_within_limit[OF zero_less_numeral this, of "num.Bit0 num.One" "''a''" 60]
  have "sliding 2 [] ?cs = [True, True, True, False, True]" by (simp add: limit_window_def)
  with w have a: "fst (run_calls 2 ?cs (\<lambda>_. [])) = [True, True, True, False, True]" by (simp only:)
  from conjunct2[OF w, unfolded a] show ?thesis by (intro conjI a)
qed

text \<open>The wait answered is the least whole number of seconds: a call of the same key after it is counted, and no
  call a second or more earlier is.\<close>

lemma wait_is_least:
  assumes "acquire_call i limit now c = (Some wait, c')" and "sorted (c i)" and "int (length (c i)) \<le> limit"
  shows "fst (acquire_call i limit (now + of_int wait) c') = None"
    and "now \<le> t \<Longrightarrow> t < now + of_int wait - 1 \<Longrightarrow> fst (acquire_call i limit t c') \<noteq> None"
proof -
  define kept where "kept = dropWhile (\<lambda>x. limit_window \<le> now - x) (c i)"
  have w: "0 < limit" "limit \<le> int (length kept)" "wait = max 1 \<lceil>hd kept + limit_window - now\<rceil>" "c' = c(i := kept)"
    using assms(1) by (auto simp: acquire_call_def kept_def Let_def split: if_splits)
  have "length kept \<le> length (c i)" unfolding kept_def by (rule length_dropWhile_le)
  then have len: "int (length kept) = limit" using w(2) assms(3) by linarith
  have sorted: "sorted kept" unfolding kept_def using assms(2) by (rule sorted_dropWhile)
  obtain h hs where k: "kept = h # hs" using w(1,2) by (cases kept) auto
  have "h + limit_window - now \<le> of_int wait" unfolding w(3) k list.sel by linarith
  then have "dropWhile (\<lambda>x. limit_window \<le> now + of_int wait - x) kept = dropWhile (\<lambda>x. limit_window \<le> now + of_int wait - x) hs"
    unfolding k by simp
  moreover have "length (dropWhile (\<lambda>x. limit_window \<le> now + of_int wait - x) hs) \<le> length hs" by (rule length_dropWhile_le)
  ultimately show "fst (acquire_call i limit (now + of_int wait) c') = None"
    using len k w(1,4) by (auto simp: acquire_call_def Let_def)
  assume t: "now \<le> t" "t < now + of_int wait - 1"
  have "wait \<noteq> 1" using t by auto
  then have "wait = \<lceil>h + limit_window - now\<rceil>" using w(3) k by (simp add: max_def split: if_splits)
  then have "t - h < limit_window" using t(2) by linarith
  then have "dropWhile (\<lambda>x. limit_window \<le> t - x) kept = kept" unfolding k by simp
  then show "fst (acquire_call i limit t c') \<noteq> None" using len w(1,4) by (simp add: acquire_call_def)
qed

end
