(* ===== verification/OracleName.thy ===== *)
theory OracleName
  imports SqlClock
begin

text \<open>The names of owners, objects and columns of Oracle (\<open>nl2sql/object_identity.py\<close>): names written by a user or
  found in the catalog become tokens that are stored, compared and put into SQL. A text is a list of code
  points; \<open>None\<close> stands for the \<open>ValueError\<close>. What Python says of spaces and capitals beyond ASCII is an
  argument.\<close>

record naming =
  of_unicode :: unicode
  wide_upper :: "nat \<Rightarrow> points"

definition upper_point :: "naming \<Rightarrow> nat \<Rightarrow> points" where
  "upper_point n c = (if 97 \<le> c \<and> c \<le> 122 then [c - 32] else if c < 128 then [c] else wide_upper n c)"

definition upper_points :: "naming \<Rightarrow> points \<Rightarrow> points" where
  "upper_points n s = concat (map (upper_point n) s)"

definition trim :: "naming \<Rightarrow> points \<Rightarrow> points" where
  "trim n s = strip_points (of_unicode n) s"

section \<open>Parts of a name\<close>

definition capital :: "nat \<Rightarrow> bool" where
  "capital c = (65 \<le> c \<and> c \<le> 90)"

definition name_char :: "nat \<Rightarrow> bool" where
  "name_char c = (capital c \<or> 48 \<le> c \<and> c \<le> 57 \<or> c = 95 \<or> c = 36 \<or> c = 35)"

definition simple_identifier :: "points \<Rightarrow> bool" where
  "simple_identifier s =
     (case s of [] \<Rightarrow> False | c # cs \<Rightarrow> capital c \<and> list_all name_char cs \<and> length cs \<le> 127)"

definition add_part :: "naming \<Rightarrow> points \<Rightarrow> points list \<Rightarrow> points list" where
  "add_part n buffer parts = (let part = trim n buffer in if part = [] then parts else part # parts)"

text \<open>The scan over a name: a doubled quotation mark inside a quotation stays one pair.\<close>

fun scan_parts :: "naming \<Rightarrow> points \<Rightarrow> bool \<Rightarrow> points \<Rightarrow> points list option" where
  "scan_parts n buffer in_double [] = (if in_double then None else Some (add_part n buffer []))"
| "scan_parts n buffer in_double [c] =
     (if c = 34 then (if in_double then Some (add_part n (buffer @ [c]) []) else None)
      else if c = 46 \<and> \<not> in_double then Some (add_part n buffer [])
      else if in_double then None else Some (add_part n (buffer @ [c]) []))"
| "scan_parts n buffer in_double (c # d # cs) =
     (if c = 34 then
        (if in_double \<and> d = 34 then scan_parts n (buffer @ [c, d]) in_double cs
         else scan_parts n (buffer @ [c]) (\<not> in_double) (d # cs))
      else if c = 46 \<and> \<not> in_double then map_option (add_part n buffer) (scan_parts n [] in_double (d # cs))
      else scan_parts n (buffer @ [c]) in_double (d # cs))"

definition split_identifier_parts :: "naming \<Rightarrow> points \<Rightarrow> points list option" where
  "split_identifier_parts n s = scan_parts n [] False (trim n s)"

text \<open>Between the quotation marks every mark is doubled.\<close>

fun unquoted_inner :: "points \<Rightarrow> points option" where
  "unquoted_inner [] = Some []"
| "unquoted_inner [c] = (if c = 34 then None else Some [c])"
| "unquoted_inner (c # d # cs) =
     (if c = 34 then (if d = 34 then map_option ((#) 34) (unquoted_inner cs) else None)
      else map_option ((#) c) (unquoted_inner (d # cs)))"

definition unquote_part :: "points \<Rightarrow> points option" where
  "unquote_part s =
     (if \<not> (2 \<le> length s \<and> hd s = 34 \<and> last s = 34) then None
      else case unquoted_inner (butlast (tl s)) of
        None \<Rightarrow> None
      | Some name \<Rightarrow> if name = [] \<or> 0 \<in> set name then None else Some name)"

definition normalize_part :: "naming \<Rightarrow> points \<Rightarrow> points option" where
  "normalize_part n s =
     (let raw = trim n s
      in if 34 \<in> set raw then unquote_part raw
         else if raw = [] \<or> 0 \<in> set raw then None
         else let normalized = upper_points n raw
              in if simple_identifier normalized then Some normalized else Some raw)"

definition double_marks :: "points \<Rightarrow> points" where
  "double_marks s = concat (map (\<lambda>c. if c = 34 then [34, 34] else [c]) s)"

definition format_part :: "naming \<Rightarrow> points \<Rightarrow> points option" where
  "format_part n s =
     (let raw = trim n s
      in case (if take 1 raw = [34] then normalize_part n raw else Some raw) of
           None \<Rightarrow> None
         | Some normalized \<Rightarrow>
             if normalized = [] \<or> 0 \<in> set normalized then None
             else if simple_identifier normalized then Some normalized
             else Some (34 # double_marks normalized @ [34]))"

text \<open>The number of bytes of a text in UTF-8; surrogates have no encoding, which is a \<open>ValueError\<close> too.\<close>

definition utf8_size :: "nat \<Rightarrow> nat" where
  "utf8_size c = (if c < 128 then 1 else if c < 2048 then 2 else if c < 65536 then 3 else 4)"

definition utf8_length :: "points \<Rightarrow> nat option" where
  "utf8_length s = (if \<exists>c\<in>set s. 55296 \<le> c \<and> c \<le> 57343 then None else Some (sum_list (map utf8_size s)))"

definition MAX_CANONICAL_BYTES :: nat where
  "MAX_CANONICAL_BYTES = 128"

definition control :: "nat \<Rightarrow> bool" where
  "control c = (c < 32 \<or> 127 \<le> c \<and> c \<le> 159)"

definition canonical_part :: "naming \<Rightarrow> points \<Rightarrow> points option" where
  "canonical_part n s =
     (let raw = trim n s
      in if take 1 raw \<noteq> [34] \<and> \<not> simple_identifier (upper_points n raw) then None
         else case normalize_part n raw of
           None \<Rightarrow> None
         | Some name \<Rightarrow>
             if name = [] \<or> 34 \<in> set name \<or> (\<exists>c\<in>set name. control c) \<or> name \<noteq> trim n name then None
             else case format_part n name of
               None \<Rightarrow> None
             | Some token \<Rightarrow>
                 case utf8_length token of
                   None \<Rightarrow> None
                 | Some bytes \<Rightarrow> if bytes > MAX_CANONICAL_BYTES then None else Some token)"

section \<open>Names of several parts\<close>

abbreviation "dot \<equiv> 46 :: nat"

definition canonical_qualified_name :: "naming \<Rightarrow> points \<Rightarrow> points option" where
  "canonical_qualified_name n s =
     (case split_identifier_parts n s of
        Some [a, b] \<Rightarrow>
          (case (canonical_part n a, canonical_part n b) of
             (Some a, Some b) \<Rightarrow> Some (a @ dot # b) | _ \<Rightarrow> None)
      | _ \<Rightarrow> None)"

definition name_token :: "naming \<Rightarrow> points \<Rightarrow> points option" where
  "name_token n s = Option.bind (normalize_part n s) (format_part n)"

definition object_name_tokens :: "naming \<Rightarrow> points \<Rightarrow> points list option" where
  "object_name_tokens n s = Option.bind (split_identifier_parts n s) (\<lambda>parts. those (map (name_token n) parts))"

definition sql_identifier_token :: "naming \<Rightarrow> points \<Rightarrow> bool \<Rightarrow> points option" where
  "sql_identifier_token n name quoted = format_part n (if quoted then name else upper_points n name)"

definition object_match_key :: "naming \<Rightarrow> points \<Rightarrow> points" where
  "object_match_key n s =
     (case object_name_tokens n s of Some ts \<Rightarrow> join_with dot ts | None \<Rightarrow> trim n s)"

definition catalog_match_key :: "naming \<Rightarrow> points list \<Rightarrow> points" where
  "catalog_match_key n parts =
     (case those (map (format_part n) parts) of Some ts \<Rightarrow> join_with dot ts | None \<Rightarrow> join_with dot parts)"

definition split_match_key :: "naming \<Rightarrow> points \<Rightarrow> points list" where
  "split_match_key n key =
     (case split_identifier_parts n key of
        Some parts \<Rightarrow> parts | None \<Rightarrow> filter (\<lambda>part. part \<noteq> []) (split_on dot key))"

definition object_part_name :: "naming \<Rightarrow> points \<Rightarrow> points" where
  "object_part_name n s =
     (let raw = trim n s in if raw = [] then [] else case normalize_part n raw of Some name \<Rightarrow> name | None \<Rightarrow> raw)"

record object_identity =
  id_owner :: points
  id_object :: points

definition both_parts :: "naming \<Rightarrow> points \<Rightarrow> points \<Rightarrow> object_identity option" where
  "both_parts n a b =
     (case (normalize_part n a, normalize_part n b) of
        (Some a, Some b) \<Rightarrow> Some \<lparr>id_owner = a, id_object = b\<rparr> | _ \<Rightarrow> None)"

definition parse_object_identity :: "naming \<Rightarrow> points \<Rightarrow> points \<Rightarrow> object_identity option" where
  "parse_object_identity n default_owner s =
     (case split_identifier_parts n s of
        Some [a] \<Rightarrow> if default_owner \<noteq> [] then both_parts n default_owner a else None
      | Some [a, b] \<Rightarrow> both_parts n a b
      | _ \<Rightarrow> None)"

definition qualified_object_name :: "naming \<Rightarrow> points \<Rightarrow> points \<Rightarrow> points option" where
  "qualified_object_name n owner name =
     (case (format_part n owner, format_part n name) of (Some a, Some b) \<Rightarrow> Some (a @ dot # b) | _ \<Rightarrow> None)"

section \<open>Names of the catalog\<close>

text \<open>What a name in the catalog looks like, and the token that stands for it.\<close>

definition catalog_name :: "naming \<Rightarrow> points \<Rightarrow> bool" where
  "catalog_name n s \<longleftrightarrow> s \<noteq> [] \<and> 0 \<notin> set s \<and> 34 \<notin> set s \<and> trim n s = s"

definition name_text :: "points \<Rightarrow> points" where
  "name_text s = (if simple_identifier s then s else 34 # s @ [34])"

lemma dropWhile_twice: "dropWhile P (rev (dropWhile P (rev (dropWhile P s)))) = rev (dropWhile P (rev (dropWhile P s)))"
proof (cases "dropWhile P s")
  case (Cons a as)
  then have a: "\<not> P a" by (metis dropWhile_eq_Cons_conv)
  have "\<exists>bs. rev (dropWhile P (rev as @ [a])) = a # bs"
    using a by (simp add: dropWhile_append) (metis rev_rev_ident)
  then obtain bs where "rev (dropWhile P (rev (a # as))) = a # bs" by auto
  with a Cons show ?thesis by simp
next
  case Nil
  show ?thesis unfolding Nil by (simp only: rev.simps(1) dropWhile.simps(1))
qed

lemma trim_trim [simp]: "trim n (trim n s) = trim n s"
  by (simp add: trim_def strip_points_def dropWhile_twice)

lemma trim_nil [simp]: "trim n [] = []"
  by (simp add: trim_def strip_points_def)

lemma trim_ends: "s \<noteq> [] \<Longrightarrow> \<not> space (of_unicode n) (hd s) \<Longrightarrow> \<not> space (of_unicode n) (last s) \<Longrightarrow> trim n s = s"
proof -
  assume s: "s \<noteq> []" "\<not> space (of_unicode n) (hd s)" "\<not> space (of_unicode n) (last s)"
  have "dropWhile P t = t" if "t \<noteq> []" "\<not> P (hd t)" for P and t :: points using that by (cases t) auto
  from this[of s] this[of "rev s"] s show ?thesis by (simp add: trim_def strip_points_def hd_rev)
qed

lemma not_space [simp]: "\<not> space u 34" "capital c \<Longrightarrow> \<not> space u c" "name_char c \<Longrightarrow> \<not> space u c"
  by (auto simp: space_def capital_def name_char_def)

lemma trim_quoted [simp]: "trim n (34 # s @ [34]) = 34 # s @ [34]"
  by (rule trim_ends) auto

lemma simple_chars: "simple_identifier s \<Longrightarrow> c \<in> set s \<Longrightarrow> name_char c"
  by (auto simp: simple_identifier_def name_char_def list_all_iff split: list.splits)

lemma simple_nonempty [simp]: "\<not> simple_identifier []"
  by (simp add: simple_identifier_def)

lemma simple_without: "simple_identifier s \<Longrightarrow> 34 \<notin> set s \<and> 46 \<notin> set s \<and> 0 \<notin> set s \<and> 39 \<notin> set s"
  using simple_chars[of s 34] simple_chars[of s 46] simple_chars[of s 0] simple_chars[of s 39]
  by (auto simp: name_char_def capital_def)

lemma simple_trim: "simple_identifier s \<Longrightarrow> trim n s = s"
  using simple_chars[of s "hd s"] simple_chars[of s "last s"] by (cases "s = []") (auto intro: trim_ends)

lemma simple_upper: "simple_identifier s \<Longrightarrow> upper_points n s = s"
proof -
  have "upper_points n s = s" if "\<forall>c\<in>set s. name_char c"
    using that by (induction s) (auto simp: upper_points_def upper_point_def name_char_def capital_def)
  then show "simple_identifier s \<Longrightarrow> ?thesis" using simple_chars by blast
qed

lemma simple_catalog: "simple_identifier s \<Longrightarrow> catalog_name n s"
  using simple_without simple_trim by (auto simp: catalog_name_def)

lemma unquoted_plain: "34 \<notin> set s \<Longrightarrow> unquoted_inner s = Some s"
  by (induction s rule: unquoted_inner.induct) auto

lemma normalize_text: "catalog_name n s \<Longrightarrow> normalize_part n (name_text s) = Some s"
  using simple_without[of s] by (auto simp: normalize_part_def name_text_def catalog_name_def simple_trim simple_upper
      unquote_part_def unquoted_plain Let_def)

lemma double_plain: "34 \<notin> set s \<Longrightarrow> double_marks s = s"
  by (induction s) (auto simp: double_marks_def)

lemma take1_in: "take 1 s = [a] \<Longrightarrow> a \<in> set s"
  by (cases s) auto

lemma format_catalog: "catalog_name n s \<Longrightarrow> format_part n s = Some (name_text s)"
  using take1_in[of s 34] by (auto simp: format_part_def catalog_name_def name_text_def double_plain Let_def)

lemma name_text_inject: "34 \<notin> set s \<Longrightarrow> 34 \<notin> set t \<Longrightarrow> name_text s = name_text t \<longleftrightarrow> s = t"
  by (auto simp: name_text_def split: if_splits)

lemma name_token_text: "catalog_name n s \<Longrightarrow> name_token n (name_text s) = Some (name_text s)"
  by (simp add: name_token_def normalize_text format_catalog)

section \<open>Canonical tokens\<close>

lemma canonical_shape:
  assumes "canonical_part n s = Some t"
  shows "\<exists>name. catalog_name n name \<and> normalize_part n s = Some name \<and> t = name_text name
    \<and> (\<forall>c\<in>set name. \<not> control c) \<and> (\<exists>b. utf8_length t = Some b \<and> b \<le> MAX_CANONICAL_BYTES)"
proof -
  obtain name where name: "normalize_part n s = Some name" "name \<noteq> []" "34 \<notin> set name" "\<forall>c\<in>set name. \<not> control c"
    "name = trim n name" "format_part n name = Some t" "\<exists>b. utf8_length t = Some b \<and> b \<le> MAX_CANONICAL_BYTES"
    using assms by (auto simp: canonical_part_def Let_def normalize_part_def split: if_splits option.splits)
  then have "catalog_name n name" by (auto simp: catalog_name_def control_def)
  with format_catalog[OF this] name show ?thesis by auto
qed

lemma canonical_text:
  assumes "catalog_name n s" and "\<forall>c\<in>set s. \<not> control c" and "utf8_length (name_text s) = Some b" and "b \<le> MAX_CANONICAL_BYTES"
  shows "canonical_part n (name_text s) = Some (name_text s)"
proof -
  have "take 1 (name_text s) \<noteq> [34] \<Longrightarrow> simple_identifier (upper_points n (name_text s))"
    by (auto simp: name_text_def simple_upper split: if_splits)
  moreover have "trim n (name_text s) = name_text s" using assms(1) by (auto simp: name_text_def catalog_name_def)
  ultimately show ?thesis
    using assms by (auto simp: canonical_part_def normalize_text format_catalog Let_def catalog_name_def)
qed

section \<open>Tokens in a statement\<close>

text \<open>What may stand behind a token: the end, a dot, a space, a bracket, a comma.\<close>

definition breaks :: "points \<Rightarrow> bool" where
  "breaks rest \<longleftrightarrow> rest = [] \<or> hd rest \<in> {46, 32, 40, 41, 44}"

definition name_tokens :: "points \<Rightarrow> (kind \<times> points) list" where
  "name_tokens t = (if simple_identifier t then codes t else [(Quoted, t)])"

lemma plain_code: "name_char c \<or> c \<in> {32, 40, 41, 44, 46} \<Longrightarrow> take 1 X \<noteq> [39] \<Longrightarrow> take 2 X \<noteq> [81, 39] \<Longrightarrow> take 2 X \<noteq> [113, 39] \<Longrightarrow> code_ok we c X"
  by (auto simp: code_ok_def name_char_def capital_def is_q_def)

lemma break_next:
  assumes "breaks rest" and "\<forall>c\<in>set cs. name_char c"
  shows "take 1 (cs @ rest) \<noteq> [39] \<and> take 2 (cs @ rest) \<noteq> [81, 39] \<and> take 2 (cs @ rest) \<noteq> [113, 39]"
proof -
  have q: "\<not> name_char 39" by (simp add: name_char_def capital_def)
  show ?thesis
  proof (cases cs)
    case Nil
    then show ?thesis using assms(1) by (cases rest) (auto simp: breaks_def)
  next
    case (Cons a as)
    then show ?thesis using assms q by (cases as; cases rest) (auto simp: breaks_def)
  qed
qed

lemma name_run:
  assumes "\<forall>c\<in>set cs. name_char c" and "breaks rest"
  shows "code_run u prev cs rest"
  using assms(1)
proof (induction cs arbitrary: prev)
  case (Cons c cs)
  have "take 1 (cs @ rest) \<noteq> [39] \<and> take 2 (cs @ rest) \<noteq> [81, 39] \<and> take 2 (cs @ rest) \<noteq> [113, 39]"
    using break_next[OF assms(2)] Cons.prems by simp
  with Cons plain_code[of c "cs @ rest" "word_end u prev"] show ?case by auto
qed simp

lemma quoted_plain: "q \<notin> set s \<Longrightarrow> rest = [] \<or> hd rest \<noteq> q \<Longrightarrow> quoted_length q (s @ q # rest) = Some (length s + 1)"
proof (induction s)
  case Nil
  then show ?case by (cases rest) auto
next
  case (Cons c s)
  then show ?case by (cases "s @ q # rest") auto
qed

lemma mark_token:
  assumes "34 \<notin> set s" and "rest = [] \<or> hd rest \<noteq> 34"
  shows "tokens u prev (34 # s @ 34 # rest) = (Quoted, 34 # s @ [34]) # tokens u (Some 34) rest"
proof -
  have "next_token u prev (34 # s @ 34 # rest) = (Quoted, length s + 2)"
    using quoted_plain[OF assms]
    by (simp add: next_token_def starts_def chars_def q_prefix_other is_q_def is_n_def)
  then show ?thesis by (subst tokens.simps) simp
qed

lemma name_tokens_of:
  assumes "catalog_name n s" and "breaks rest"
  shows "tokens u prev (name_text s @ rest) = name_tokens (name_text s) @ tokens u (Some (last (name_text s))) rest"
proof (cases "simple_identifier s")
  case True
  then have "code_run u prev s rest" using name_run[OF _ assms(2)] simple_chars by blast
  from tokens_code_run[OF this] True show ?thesis by (auto simp: name_tokens_def name_text_def last_of_def)
next
  case False
  then have "\<not> simple_identifier (name_text s)" using simple_without[of "name_text s"] by (auto simp: name_text_def)
  moreover have "rest = [] \<or> hd rest \<noteq> 34" using assms(2) by (auto simp: breaks_def)
  ultimately show ?thesis
    using False mark_token[of s rest u prev] assms(1) by (simp add: name_tokens_def name_text_def catalog_name_def)
qed

text \<open>C35: A canonical token is the one spelling of a name: it is accepted unchanged, names what was written, and
  two inputs have the same token exactly when they name the same. In a statement it is read as one quotation or
  as the letters of an identifier, whatever stands before it and with what follows left as it is, and it has at
  most 128 bytes without control characters.\<close>
theorem canonical_names_are_tokens:
  assumes "canonical_part n s = Some t" and "breaks rest"
  shows "canonical_part n t = Some t \<and> normalize_part n t = normalize_part n s
    \<and> (canonical_part n s' = Some t' \<longrightarrow> t = t' \<longleftrightarrow> normalize_part n s = normalize_part n s')
    \<and> tokens u prev (t @ rest) = name_tokens t @ tokens u (Some (last t)) rest
    \<and> (\<exists>b \<le> 128. utf8_length t = Some b) \<and> (\<forall>c\<in>set t. \<not> control c)"
proof -
  obtain name b where name: "catalog_name n name" "normalize_part n s = Some name" "t = name_text name"
    "\<forall>c\<in>set name. \<not> control c" "utf8_length t = Some b" "b \<le> MAX_CANONICAL_BYTES"
    using canonical_shape[OF assms(1)] by blast
  have "t = t' \<longleftrightarrow> normalize_part n s = normalize_part n s'" if c: "canonical_part n s' = Some t'"
  proof -
    obtain name' where n': "catalog_name n name'" "normalize_part n s' = Some name'" "t' = name_text name'"
      using canonical_shape[OF c] by blast
    then show ?thesis using name(1-3) name_text_inject[of name name'] by (simp add: catalog_name_def)
  qed
  moreover have "\<forall>c\<in>set t. \<not> control c" using name(3,4) by (auto simp: name_text_def control_def)
  ultimately show ?thesis
    using name canonical_text[of n name b] name_tokens_of[OF name(1) assms(2), of u prev] normalize_text[OF name(1)]
    by (auto simp: MAX_CANONICAL_BYTES_def)
qed

section \<open>Keys\<close>

lemma scan_plain: "c \<noteq> 34 \<Longrightarrow> c \<noteq> dot \<or> in_double \<Longrightarrow> scan_parts n b in_double (c # X) = scan_parts n (b @ [c]) in_double X"
  by (cases X) auto

lemma scan_dot: "scan_parts n b False (dot # X) = map_option (add_part n b) (scan_parts n [] False X)"
  by (cases X) (auto simp: add_part_def)

lemma scan_open: "scan_parts n b False (34 # X) = scan_parts n (b @ [34]) True X"
  by (cases X) auto

lemma scan_close: "X = [] \<or> hd X \<noteq> 34 \<Longrightarrow> scan_parts n b True (34 # X) = scan_parts n (b @ [34]) False X"
  by (cases X) auto

lemma scan_plain_all: "34 \<notin> set s \<Longrightarrow> dot \<notin> set s \<or> in_double \<Longrightarrow> scan_parts n b in_double (s @ X) = scan_parts n (b @ s) in_double X"
  by (induction s arbitrary: b) (auto simp: scan_plain)

lemma scan_text:
  assumes "34 \<notin> set s" and "X = [] \<or> hd X = dot"
  shows "scan_parts n [] False (name_text s @ X) = scan_parts n (name_text s) False X"
proof (cases "simple_identifier s")
  case True
  then show ?thesis using scan_plain_all[of s False n "[]" X] simple_without[of s] by (simp add: name_text_def)
next
  case False
  have "scan_parts n [34] True (s @ 34 # X) = scan_parts n (34 # s) True (34 # X)"
    using scan_plain_all[of s True n "[34]"] assms(1) by simp
  also have "\<dots> = scan_parts n (34 # s @ [34]) False X" using scan_close[of X n "34 # s"] assms(2) by auto
  finally show ?thesis using False by (simp add: name_text_def scan_open)
qed

lemma text_nonempty [simp]: "s \<noteq> [] \<Longrightarrow> name_text s \<noteq> []"
  by (simp add: name_text_def)

lemma text_trim: "catalog_name n s \<Longrightarrow> trim n (name_text s) = name_text s"
  by (simp add: name_text_def catalog_name_def)

lemma add_text: "catalog_name n s \<Longrightarrow> add_part n (name_text s) parts = name_text s # parts"
  by (simp add: add_part_def text_trim Let_def) (simp add: catalog_name_def)

lemma scan_join:
  "list_all (catalog_name n) ps \<Longrightarrow> scan_parts n [] False (join_with dot (map name_text ps)) = Some (map name_text ps)"
proof (induction ps rule: induct_list012)
  case (2 p)
  then show ?case using scan_text[of p "[]" n] add_text[of n p "[]"] by (simp add: catalog_name_def)
next
  case (3 p q ps)
  have "scan_parts n [] False (name_text p @ dot # join_with dot (map name_text (q # ps)))
      = map_option (add_part n (name_text p)) (Some (map name_text (q # ps)))"
    using scan_text[of p "dot # join_with dot (map name_text (q # ps))" n] 3 by (simp add: scan_dot catalog_name_def)
  with 3 show ?case by (simp add: add_text)
qed (simp add: add_part_def)

text \<open>A joined key begins and ends with a token, so stripping it changes nothing.\<close>

lemma text_ends: "catalog_name n s \<Longrightarrow> \<not> space u (hd (name_text s)) \<and> \<not> space u (last (name_text s))"
  using simple_chars[of s "hd s"] simple_chars[of s "last s"] by (auto simp: name_text_def catalog_name_def)

lemma join_ends:
  assumes "list_all (catalog_name n) ps" and "ps \<noteq> []"
  shows "join_with dot (map name_text ps) \<noteq> [] \<and> hd (join_with dot (map name_text ps)) = hd (name_text (hd ps))
    \<and> last (join_with dot (map name_text ps)) = last (name_text (last ps))"
  using assms by (induction ps rule: induct_list012) (auto simp: catalog_name_def)

lemma trim_join: "list_all (catalog_name n) ps \<Longrightarrow> trim n (join_with dot (map name_text ps)) = join_with dot (map name_text ps)"
proof (cases "ps = []")
  case False
  assume l: "list_all (catalog_name n) ps"
  then have "catalog_name n (hd ps)" "catalog_name n (last ps)" using False by (auto simp: list_all_iff)
  then show ?thesis using join_ends[OF l False] text_ends by (intro trim_ends) auto
qed simp

lemma split_key: "list_all (catalog_name n) ps \<Longrightarrow> split_identifier_parts n (join_with dot (map name_text ps)) = Some (map name_text ps)"
  by (simp add: split_identifier_parts_def trim_join scan_join)

lemma those_map: "list_all (\<lambda>x. f x = Some (g x)) xs \<Longrightarrow> those (map f xs) = Some (map g xs)"
  by (induction xs) auto

lemma catalog_key: "list_all (catalog_name n) ps \<Longrightarrow> catalog_match_key n ps = join_with dot (map name_text ps)"
  using those_map[of "format_part n" name_text ps] by (simp add: catalog_match_key_def format_catalog list_all_iff)

lemma text_inj_on: "list_all (catalog_name n) ps \<Longrightarrow> list_all (catalog_name n) qs \<Longrightarrow> map name_text ps = map name_text qs \<longleftrightarrow> ps = qs"
  by (induction ps qs rule: list_induct2') (auto simp: name_text_inject catalog_name_def)

lemma trim_again: "trim n (trim n s) = trim n s"
  by (simp add: trim_def strip_points_def dropWhile_twice)

lemma format_trim: "format_part n (trim n s) = format_part n s"
  by (simp add: format_part_def trim_again)

lemma key_trim:
  assumes "list_all (\<lambda>p. catalog_name n (trim n p)) ps"
  shows "catalog_match_key n ps = catalog_match_key n (map (trim n) ps)"
proof -
  have "those (map (format_part n) ps) = Some (map name_text (map (trim n) ps))"
    using assms those_map[of "format_part n" "name_text \<circ> trim n" ps] format_catalog[of n "trim n _"]
    by (simp add: list_all_iff format_trim)
  moreover have "those (map (format_part n) (map (trim n) ps)) = those (map (format_part n) ps)" by (simp add: comp_def format_trim)
  ultimately show ?thesis by (simp add: catalog_match_key_def)
qed

text \<open>C36: The key of an object identifies it up to white space around its names: for names that hold no quotation mark
  and no NUL and are not blank, and may hold any other character, dots and brackets included, two lists of names have the
  same key exactly when they are the same without the white space around each name; the key splits into the tokens
  of its parts, each of which names its part, and as an input it has itself as key and, of two parts, the identity
  of its owner and object.\<close>
theorem match_keys_identify:
  assumes "list_all (\<lambda>p. catalog_name n (trim n p)) ps" and "list_all (\<lambda>q. catalog_name n (trim n q)) qs"
  shows "(catalog_match_key n ps = catalog_match_key n qs \<longleftrightarrow> map (trim n) ps = map (trim n) qs)
    \<and> split_match_key n (catalog_match_key n ps) = map (\<lambda>p. name_text (trim n p)) ps
    \<and> map (object_part_name n) (split_match_key n (catalog_match_key n ps)) = map (trim n) ps
    \<and> object_match_key n (catalog_match_key n ps) = catalog_match_key n ps
    \<and> (ps = [a, b] \<longrightarrow> qualified_object_name n a b = Some (catalog_match_key n ps)
        \<and> parse_object_identity n d (catalog_match_key n ps) = Some \<lparr>id_owner = trim n a, id_object = trim n b\<rparr>)"
proof -
  let ?p = "map (trim n) ps" and ?q = "map (trim n) qs"
  have c: "list_all (catalog_name n) ?p" "list_all (catalog_name n) ?q" using assms by (simp_all add: list_all_iff)
  note t = key_trim[OF assms(1)] key_trim[OF assms(2)]
  note k = catalog_key[OF c(1)] catalog_key[OF c(2)] split_key[OF c(1)] split_key[OF c(2)]
  have inj: "catalog_match_key n ps = catalog_match_key n qs \<longleftrightarrow> ?p = ?q"
    unfolding t using k text_inj_on[OF c] by (metis option.inject)
  have parts: "map (object_part_name n) (map name_text ?p) = ?p"
    using c(1) by (auto simp: object_part_name_def text_trim normalize_text Let_def list_all_iff catalog_name_def)
  have toks: "those (map (name_token n) (map name_text ?p)) = Some (map name_text ?p)"
    using those_map[of "name_token n \<circ> name_text" name_text ?p] c(1) by (simp add: name_token_text list_all_iff comp_assoc)
  have two: "qualified_object_name n a b = Some (catalog_match_key n ps)
      \<and> parse_object_identity n d (catalog_match_key n ps) = Some \<lparr>id_owner = trim n a, id_object = trim n b\<rparr>" if "ps = [a, b]"
  proof -
    have "qualified_object_name n a b = qualified_object_name n (trim n a) (trim n b)"
      by (simp add: qualified_object_name_def format_trim)
    then show ?thesis using that c(1) k(1,3) unfolding t
      by (simp add: qualified_object_name_def format_catalog parse_object_identity_def both_parts_def normalize_text)
  qed
  show ?thesis using inj parts toks two k unfolding t
    by (simp add: split_match_key_def object_match_key_def object_name_tokens_def comp_def)
qed

section \<open>Examples\<close>

definition latin_names :: naming where
  "latin_names = \<lparr>of_unicode = ascii_only, wide_upper = (\<lambda>c. if c = 223 then [83, 83] else [c])\<rparr>"

lemmas canonical_latin = canonical_part_def latin_names_def trim_def strip_points_def space_def ascii_only_def upper_points_def
  upper_point_def simple_identifier_def capital_def name_char_def normalize_part_def unquote_part_def format_part_def
  control_def double_marks_def utf8_length_def utf8_size_def MAX_CANONICAL_BYTES_def Let_def

theorem canonical_names_are_tokens_witness:
  "canonical_part latin_names (34 # chars ''a--b'' @ [34]) = Some (34 # chars ''a--b'' @ [34])
    \<and> tokens ascii_only None (34 # chars ''a--b'' @ [34, 46]) = [(Quoted, 34 # chars ''a--b'' @ [34]), (Code, [46])]"
proof -
  have "canonical_part latin_names (32 # 34 # chars ''a--b'' @ [34]) = Some (34 # chars ''a--b'' @ [34])"
    by (simp add: canonical_latin chars_def)
  moreover have "breaks [46]" by code_simp
  moreover have "name_tokens (34 # chars ''a--b'' @ [34]) = [(Quoted, 34 # chars ''a--b'' @ [34])]"
    "tokens ascii_only (Some (last (34 # chars ''a--b'' @ [34]))) [46] = [(Code, [46])]" by code_simp+
  ultimately show ?thesis
    using canonical_names_are_tokens[of latin_names "32 # 34 # chars ''a--b'' @ [34]" "34 # chars ''a--b'' @ [34]" "[46]"
      _ _ ascii_only None] by simp
qed

theorem match_keys_identify_witness:
  "split_match_key latin_names (catalog_match_key latin_names [chars ''SALES'', chars ''a.b''])
    = [chars ''SALES'', 34 # chars ''a.b'' @ [34]]
    \<and> catalog_match_key latin_names [chars ''SALES'', chars ''a.b''] \<noteq> catalog_match_key latin_names [chars ''SALES'', chars ''a'', chars ''b'']"
proof -
  have c: "list_all (\<lambda>p. catalog_name latin_names (trim latin_names p)) [chars ''SALES'', chars ''a.b'']"
    "list_all (\<lambda>p. catalog_name latin_names (trim latin_names p)) [chars ''SALES'', chars ''a'', chars ''b'']" by code_simp+
  have "map (\<lambda>p. name_text (trim latin_names p)) [chars ''SALES'', chars ''a.b''] = [chars ''SALES'', 34 # chars ''a.b'' @ [34]]"
    "map (trim latin_names) [chars ''SALES'', chars ''a.b''] \<noteq> map (trim latin_names) [chars ''SALES'', chars ''a'', chars ''b'']"
    by code_simp+
  with match_keys_identify[OF c] show ?thesis by metis
qed

text \<open>The formatting of a name strips it, so a quoted name with a space at its end has the key of another
  object, though its identity keeps the space.\<close>
lemma padded_name_has_another_key:
  "object_match_key latin_names (chars ''S.'' @ [34] @ chars ''A '' @ [34]) = object_match_key latin_names (chars ''S.A'')
   \<and> parse_object_identity latin_names [] (chars ''S.'' @ [34] @ chars ''A '' @ [34])
     \<noteq> parse_object_identity latin_names [] (chars ''S.A'')"
  by code_simp

text \<open>A name without quotation marks is checked after its change to capitals, which may turn a letter beyond ASCII
  into others: STRASSE is accepted for a name with a sharp s.\<close>
lemma sharp_s_becomes_two_letters:
  "canonical_part latin_names (chars ''stra'' @ [223, 101]) = Some (chars ''STRASSE'')"
  by (simp add: canonical_latin chars_def)

end
