(* ===== verification/ScopeFilter.thy ===== *)
theory ScopeFilter
  imports OracleName
begin

text \<open>The conditions of a data grant (\<open>nl2sql security/deepsec.py\<close>): one filter on a column becomes a piece of SQL that
  Oracle adds to every query of the user. \<open>None\<close> stands for the refusal with 400. What Python says of digits
  beyond ASCII and which numbers \<open>Decimal\<close> cannot hold are arguments.\<close>

record lexicon =
  of_naming :: naming
  wide_digit :: "nat \<Rightarrow> nat option"
  decimal_fails :: "points \<Rightarrow> bool"

record scope_filter =
  sf_column :: points
  sf_operator :: points
  sf_value_type :: points
  sf_value_source :: points
  sf_value :: points
  sf_value_to :: points
  sf_values :: "points list"

abbreviation tidy :: "lexicon \<Rightarrow> points \<Rightarrow> points" where
  "tidy x s \<equiv> trim (of_naming x) s"

abbreviation capitals :: "lexicon \<Rightarrow> points \<Rightarrow> points" where
  "capitals x s \<equiv> upper_points (of_naming x) s"

definition identifier_token :: "lexicon \<Rightarrow> points \<Rightarrow> points option" where
  "identifier_token x s = canonical_part (of_naming x) s"

definition qualified_target :: "lexicon \<Rightarrow> points \<Rightarrow> points \<Rightarrow> points option" where
  "qualified_target x owner name =
     (case (identifier_token x owner, identifier_token x name) of (Some a, Some b) \<Rightarrow> Some (a @ dot # b) | _ \<Rightarrow> None)"

section \<open>Literals\<close>

definition sql_literal :: "points \<Rightarrow> points" where
  "sql_literal v = 39 # double_quotes v @ [39]"

definition oracle_base_type :: "lexicon \<Rightarrow> points \<Rightarrow> points" where
  "oracle_base_type x data_type =
     (let normalized = capitals x (tidy x data_type)
      in if starts (chars ''TIMESTAMP'') normalized then chars ''TIMESTAMP''
         else takeWhile (\<lambda>c. c \<noteq> 32) (takeWhile (\<lambda>c. c \<noteq> 40) normalized))"

definition TEXT_TYPES :: "points list" where
  "TEXT_TYPES = map chars [''CHAR'', ''NCHAR'', ''VARCHAR2'', ''NVARCHAR2'']"

definition NUMBER_TYPES :: "points list" where
  "NUMBER_TYPES = map chars [''NUMBER'', ''FLOAT'', ''BINARY_FLOAT'', ''BINARY_DOUBLE'']"

definition TEMPORAL_TYPES :: "points list" where
  "TEMPORAL_TYPES = map chars [''DATE'', ''TIMESTAMP'']"

definition scope_value_type :: "lexicon \<Rightarrow> points \<Rightarrow> points" where
  "scope_value_type x data_type =
     (let base = oracle_base_type x data_type
      in if base \<in> set TEXT_TYPES then chars ''TEXT''
         else if base \<in> set NUMBER_TYPES then chars ''NUMBER''
         else if base \<in> set TEMPORAL_TYPES then chars ''TEMPORAL''
         else [])"

definition replace_all :: "nat \<Rightarrow> points \<Rightarrow> points \<Rightarrow> points" where
  "replace_all a r s = concat (map (\<lambda>c. if c = a then r else [c]) s)"

definition like_pattern :: "points \<Rightarrow> points \<Rightarrow> points \<Rightarrow> points" where
  "like_pattern v before after =
     before @ replace_all 95 [92, 95] (replace_all 37 [92, 37] (replace_all 92 [92, 92] v)) @ after"

definition non_empty_value :: "lexicon \<Rightarrow> points \<Rightarrow> points option" where
  "non_empty_value x v =
     (let normalized = tidy x v
      in if normalized = [] \<or> (\<exists>c\<in>set normalized. c < 32) then None else Some normalized)"

subsection \<open>Numbers\<close>

definition digit :: "lexicon \<Rightarrow> nat \<Rightarrow> nat option" where
  "digit x c = (if 48 \<le> c \<and> c \<le> 57 then Some (c - 48) else if c < 128 then None else wide_digit x c)"

definition is_dig :: "lexicon \<Rightarrow> nat \<Rightarrow> bool" where
  "is_dig x c = (digit x c \<noteq> None)"

definition drop_sign :: "points \<Rightarrow> points" where
  "drop_sign s = (case s of c # cs \<Rightarrow> if c = 43 \<or> c = 45 then cs else s | [] \<Rightarrow> s)"

text \<open>What is left after digits, and whether there were any.\<close>

definition digits_end :: "lexicon \<Rightarrow> points \<Rightarrow> bool \<times> points" where
  "digits_end x s = (takeWhile (is_dig x) s \<noteq> [], dropWhile (is_dig x) s)"

definition exponent_ok :: "lexicon \<Rightarrow> points \<Rightarrow> bool" where
  "exponent_ok x s =
     (case s of
        [] \<Rightarrow> True
      | c # cs \<Rightarrow> (c = 101 \<or> c = 69) \<and> drop_sign cs \<noteq> [] \<and> list_all (is_dig x) (drop_sign cs))"

definition number_literal_ok :: "lexicon \<Rightarrow> points \<Rightarrow> bool" where
  "number_literal_ok x s =
     (let (whole, rest) = digits_end x (drop_sign s)
      in case rest of
           c # cs \<Rightarrow>
             if c = 46 then (let (fraction, rest) = digits_end x cs in (whole \<or> fraction) \<and> exponent_ok x rest)
             else whole \<and> exponent_ok x rest
         | [] \<Rightarrow> whole)"

definition number_literal :: "lexicon \<Rightarrow> points \<Rightarrow> points option" where
  "number_literal x v =
     (case non_empty_value x v of
        None \<Rightarrow> None
      | Some s \<Rightarrow>
          if \<not> number_literal_ok x s \<or> decimal_fails x s then None
          else Some (capitals x (if take 1 s = [43] then drop 1 s else s)))"

definition positive_integer_ok :: "lexicon \<Rightarrow> points \<Rightarrow> bool" where
  "positive_integer_ok x s = (case s of [] \<Rightarrow> False | c # cs \<Rightarrow> 49 \<le> c \<and> c \<le> 57 \<and> list_all (is_dig x) cs)"

definition positive_integer_literal :: "lexicon \<Rightarrow> points \<Rightarrow> points option" where
  "positive_integer_literal x v =
     (case non_empty_value x v of
        None \<Rightarrow> None | Some s \<Rightarrow> if positive_integer_ok x s then Some s else None)"

subsection \<open>Dates and times\<close>

text \<open>The two regular expressions, as forms: \<open>0\<close> stands for any digit, every other character for itself.\<close>

definition shaped :: "lexicon \<Rightarrow> points \<Rightarrow> points \<Rightarrow> bool" where
  "shaped x form s = (length s = length form \<and> list_all2 (\<lambda>f c. if f = 48 then is_dig x c else f = c) form s)"

definition date_form :: points where "date_form = chars ''0000-00-00''"

definition minute_form :: points where "minute_form = chars ''0000-00-00 00:00''"

definition second_form :: points where "second_form = chars ''0000-00-00 00:00:00''"

text \<open>\<open>strptime\<close>: the first digit of a month, a day, an hour, a minute or a second is an ASCII digit, and so is the
  second one where the calendar leaves a choice; the year is above zero and the day within its month.\<close>

definition digit_value :: "lexicon \<Rightarrow> nat \<Rightarrow> nat" where
  "digit_value x c = (case digit x c of Some d \<Rightarrow> d | None \<Rightarrow> 0)"

definition ascii_between :: "nat \<Rightarrow> nat \<Rightarrow> nat \<Rightarrow> bool" where
  "ascii_between a b c = (48 + a \<le> c \<and> c \<le> 48 + b)"

definition month_ok :: "nat \<Rightarrow> nat \<Rightarrow> bool" where
  "month_ok a b = (a = 49 \<and> ascii_between 0 2 b \<or> a = 48 \<and> ascii_between 1 9 b)"

definition day_ok :: "lexicon \<Rightarrow> nat \<Rightarrow> nat \<Rightarrow> bool" where
  "day_ok x a b = (a = 51 \<and> ascii_between 0 1 b \<or> ascii_between 1 2 a \<and> is_dig x b \<or> a = 48 \<and> ascii_between 1 9 b)"

definition hour_ok :: "lexicon \<Rightarrow> nat \<Rightarrow> nat \<Rightarrow> bool" where
  "hour_ok x a b = (a = 50 \<and> ascii_between 0 3 b \<or> ascii_between 0 1 a \<and> is_dig x b)"

definition sixty_ok :: "lexicon \<Rightarrow> nat \<Rightarrow> nat \<Rightarrow> bool" where
  "sixty_ok x a b = (ascii_between 0 5 a \<and> is_dig x b)"

definition leap_year :: "nat \<Rightarrow> bool" where
  "leap_year y = (y mod 4 = 0 \<and> (y mod 100 \<noteq> 0 \<or> y mod 400 = 0))"

definition days_in_month :: "nat \<Rightarrow> nat \<Rightarrow> nat" where
  "days_in_month y m = (if m = 2 then (if leap_year y then 29 else 28) else if m \<in> {4, 6, 9, 11} then 30 else 31)"

definition number_at :: "lexicon \<Rightarrow> points \<Rightarrow> nat \<Rightarrow> nat \<Rightarrow> nat" where
  "number_at x s i k = foldl (\<lambda>v c. 10 * v + digit_value x c) 0 (take k (drop i s))"

definition date_ok :: "lexicon \<Rightarrow> points \<Rightarrow> bool" where
  "date_ok x s =
     (month_ok (s ! 5) (s ! 6) \<and> day_ok x (s ! 8) (s ! 9) \<and> 1 \<le> number_at x s 0 4
      \<and> number_at x s 8 2 \<le> days_in_month (number_at x s 0 4) (number_at x s 5 2))"

definition time_ok :: "lexicon \<Rightarrow> points \<Rightarrow> bool" where
  "time_ok x s = (hour_ok x (s ! 11) (s ! 12) \<and> sixty_ok x (s ! 14) (s ! 15) \<and> sixty_ok x (s ! 17) (s ! 18))"

definition normalize_temporal_value :: "lexicon \<Rightarrow> points \<Rightarrow> (points \<times> bool) option" where
  "normalize_temporal_value x v =
     (case non_empty_value x v of
        None \<Rightarrow> None
      | Some s \<Rightarrow>
          let s = replace_all 84 [32] s
          in if shaped x date_form s then (if date_ok x s then Some (s, False) else None)
             else if shaped x minute_form s \<or> shaped x second_form s then
               (let s = (if length s = 16 then s @ chars '':00'' else s)
                in if date_ok x s \<and> time_ok x s then Some (s, True) else None)
             else None)"

definition temporal_literal :: "lexicon \<Rightarrow> points \<Rightarrow> points \<Rightarrow> points option" where
  "temporal_literal x v data_type =
     (case normalize_temporal_value x v of
        None \<Rightarrow> None
      | Some (s, has_time) \<Rightarrow>
          if oracle_base_type x data_type = chars ''DATE'' then
            (if \<not> has_time then Some (chars ''DATE '' @ sql_literal s)
             else Some (chars ''TO_DATE('' @ sql_literal s @ chars '', '' @ sql_literal (chars ''YYYY-MM-DD HH24:MI:SS'') @ chars '')''))
          else Some (chars ''TIMESTAMP '' @ sql_literal (if has_time then s else s @ chars '' 00:00:00'')))"

section \<open>The condition of a filter\<close>

definition MAX_FILTER_VALUES :: nat where
  "MAX_FILTER_VALUES = 25"

definition TEXT_OPERATORS :: "points list" where
  "TEXT_OPERATORS = map chars [''EQ'', ''NE'', ''CONTAINS'', ''STARTS_WITH'', ''IN'', ''IS_NULL'', ''IS_NOT_NULL'']"

definition NUMBER_OPERATORS :: "points list" where
  "NUMBER_OPERATORS = map chars [''EQ'', ''NE'', ''GT'', ''GTE'', ''LT'', ''LTE'', ''BETWEEN'', ''IN'', ''IS_NULL'', ''IS_NOT_NULL'']"

definition TEMPORAL_OPERATORS :: "points list" where
  "TEMPORAL_OPERATORS =
     map chars [''EQ'', ''BEFORE'', ''ON_OR_BEFORE'', ''AFTER'', ''ON_OR_AFTER'', ''BETWEEN'', ''IS_NULL'', ''IS_NOT_NULL'']"

definition operators_of :: "points \<Rightarrow> points list" where
  "operators_of value_type =
     (if value_type = chars ''TEXT'' then TEXT_OPERATORS
      else if value_type = chars ''NUMBER'' then NUMBER_OPERATORS
      else if value_type = chars ''TEMPORAL'' then TEMPORAL_OPERATORS
      else [])"

definition LOGIN_SOURCE :: points where "LOGIN_SOURCE = chars ''LOGIN_USER_ID''"

definition LEGACY_SOURCE :: points where "LEGACY_SOURCE = chars ''APP_USER_ID''"

definition login_expr :: points where
  "login_expr = chars ''SYS_CONTEXT('' @ sql_literal (chars ''NL2SQL_APP_USER_CTX'') @ chars '', ''
     @ sql_literal (chars ''LOGIN_USER_ID'') @ chars '')''"

definition comparisons :: "(points \<times> points) list" where
  "comparisons = map (\<lambda>(a, b). (chars a, chars b))
     [(''EQ'', ''=''), (''NE'', ''<>''), (''GT'', ''>''), (''GTE'', ''>=''), (''LT'', ''<''), (''LTE'', ''<=''),
      (''BEFORE'', ''<''), (''ON_OR_BEFORE'', ''<=''), (''AFTER'', ''>''), (''ON_OR_AFTER'', ''>='')]"

definition filter_literal :: "lexicon \<Rightarrow> scope_filter \<Rightarrow> points \<Rightarrow> points \<Rightarrow> points option" where
  "filter_literal x f data_type v =
     (if sf_value_type f = chars ''TEXT'' then map_option sql_literal (non_empty_value x v)
      else if sf_value_type f = chars ''NUMBER'' then number_literal x v
      else if sf_value_type f = chars ''TEMPORAL'' then temporal_literal x v data_type
      else None)"

definition filter_values :: "lexicon \<Rightarrow> scope_filter \<Rightarrow> points \<Rightarrow> points list option" where
  "filter_values x f data_type =
     (case those (map (filter_literal x f data_type) (filter (\<lambda>v. tidy x v \<noteq> []) (sf_values f))) of
        None \<Rightarrow> None
      | Some vs \<Rightarrow> if vs = [] \<or> length vs > MAX_FILTER_VALUES then None else Some vs)"

fun comma_list :: "points list \<Rightarrow> points" where
  "comma_list [] = []"
| "comma_list [v] = v"
| "comma_list (v # w # vs) = v @ chars '', '' @ comma_list (w # vs)"

text \<open>The filter with its words in capitals.\<close>

definition normal_filter :: "lexicon \<Rightarrow> scope_filter \<Rightarrow> scope_filter" where
  "normal_filter x f =
     (let source = capitals x (tidy x (sf_value_source f));
          source = (if source = [] then chars ''LITERAL'' else source)
      in f\<lparr>sf_operator := capitals x (tidy x (sf_operator f)), sf_value_type := capitals x (tidy x (sf_value_type f)),
          sf_value_source := if source = LEGACY_SOURCE then LOGIN_SOURCE else source\<rparr>)"

definition login_condition :: "scope_filter \<Rightarrow> points \<Rightarrow> points option" where
  "login_condition f column =
     (if sf_value_type f \<notin> {chars ''TEXT'', chars ''NUMBER''} \<or> sf_operator f \<noteq> chars ''EQ'' then None
      else if sf_value_type f = chars ''NUMBER''
      then Some (column @ chars '' = CASE WHEN REGEXP_LIKE('' @ login_expr @ chars '', ''
          @ sql_literal (chars ''^[0-9]+$'') @ chars '') THEN TO_NUMBER('' @ login_expr @ chars '') END'')
      else Some (column @ chars '' = '' @ login_expr))"

definition literal_condition :: "lexicon \<Rightarrow> scope_filter \<Rightarrow> points \<Rightarrow> points \<Rightarrow> points option" where
  "literal_condition x f data_type column =
     (if sf_operator f = chars ''IS_NULL'' then Some (column @ chars '' IS NULL'')
      else if sf_operator f = chars ''IS_NOT_NULL'' then Some (column @ chars '' IS NOT NULL'')
      else if sf_operator f = chars ''IN'' then
        map_option (\<lambda>vs. column @ chars '' IN ('' @ comma_list vs @ chars '')'') (filter_values x f data_type)
      else if sf_operator f = chars ''BETWEEN'' then
        (case (filter_literal x f data_type (sf_value f), filter_literal x f data_type (sf_value_to f)) of
           (Some a, Some b) \<Rightarrow> Some (column @ chars '' BETWEEN '' @ a @ chars '' AND '' @ b) | _ \<Rightarrow> None)
      else if sf_value_type f = chars ''TEXT'' \<and> sf_operator f \<in> {chars ''CONTAINS'', chars ''STARTS_WITH''} then
        map_option (\<lambda>v. column @ chars '' LIKE ''
            @ sql_literal (like_pattern v (if sf_operator f = chars ''CONTAINS'' then [37] else []) [37])
            @ chars '' ESCAPE '' @ sql_literal [92])
          (non_empty_value x (sf_value f))
      else
        case (if sf_value_type f = chars ''NUMBER'' \<and> sf_operator f = chars ''EQ''
              then positive_integer_literal x (sf_value f) else filter_literal x f data_type (sf_value f)) of
          None \<Rightarrow> None
        | Some v \<Rightarrow> map_option (\<lambda>c. column @ [32] @ c @ [32] @ v) (map_of comparisons (sf_operator f)))"

definition scope_filter_predicate :: "lexicon \<Rightarrow> points \<Rightarrow> scope_filter \<Rightarrow> points \<Rightarrow> points option" where
  "scope_filter_predicate x target f data_type =
     (case identifier_token x (sf_column f) of
        None \<Rightarrow> None
      | Some c \<Rightarrow>
          let column = target @ dot # c; f = normal_filter x f
          in if sf_value_source f \<notin> {chars ''LITERAL'', LOGIN_SOURCE} then None
             else if sf_operator f \<notin> set (operators_of (sf_value_type f)) then None
             else if sf_value_source f = LOGIN_SOURCE then login_condition f column
             else literal_condition x f data_type column)"

section \<open>Confinement\<close>

text \<open>A piece of SQL is code or a quotation of a value. \<open>steady\<close> code is read as code whatever surrounds it.\<close>

datatype piece = Sql points | Value points

fun piece_text :: "piece \<Rightarrow> points" where
  "piece_text (Sql t) = t"
| "piece_text (Value v) = sql_literal v"

fun piece_tokens :: "piece \<Rightarrow> (kind \<times> points) list" where
  "piece_tokens (Sql t) = codes t"
| "piece_tokens (Value v) = [(Quoted, sql_literal v)]"

definition render :: "piece list \<Rightarrow> points" where
  "render ps = concat (map piece_text ps)"

fun steady :: "points \<Rightarrow> bool" where
  "steady [] = True"
| "steady (c # X) =
     (c \<noteq> 39 \<and> c \<noteq> 34 \<and> (c = 45 \<longrightarrow> X \<noteq> [] \<and> hd X \<noteq> 45) \<and> (c = 47 \<longrightarrow> X \<noteq> [] \<and> hd X \<noteq> 42)
      \<and> (is_q c \<longrightarrow> X \<noteq> [] \<and> hd X \<noteq> 39) \<and> (is_n c \<longrightarrow> X \<noteq> [] \<and> \<not> is_q (hd X)) \<and> steady X)"

lemma steady_run: "steady t \<Longrightarrow> code_run u prev t rest"
proof (induction t arbitrary: prev)
  case (Cons c X)
  then have "code_ok (word_end u prev) c (X @ rest)"
    by (cases X) (auto simp: code_ok_def numeral_2_eq_2)
  with Cons show ?case by auto
qed simp

lemma literal_token:
  assumes "rest = [] \<or> hd rest \<noteq> 39"
  shows "tokens u prev (sql_literal v @ rest) = (Quoted, sql_literal v) # tokens u (last_of prev (sql_literal v)) rest"
proof -
  have "quoted_length 39 (double_quotes v @ 39 # rest) = Some (length (double_quotes v @ [39]))"
    using quoted_length_append[of 39 "double_quotes v @ [39]" "[]" rest] assms quoted_double[of v] by auto
  then have "next_token u prev (39 # double_quotes v @ 39 # rest) = (Quoted, length (double_quotes v) + 2)"
    by (simp add: next_token_def starts_def chars_def q_prefix_other is_q_def is_n_def)
  then show ?thesis by (subst tokens.simps) (simp add: sql_literal_def last_of_def)
qed

text \<open>No two quotations touch, and all code is steady.\<close>

fun confined :: "piece list \<Rightarrow> bool" where
  "confined [] = True"
| "confined [Sql t] = (t \<noteq> [] \<and> steady t)"
| "confined [Value v] = True"
| "confined (Sql t # p # ps) = (t \<noteq> [] \<and> steady t \<and> confined (p # ps))"
| "confined (Value v # Value w # ps) = False"
| "confined (Value v # Sql t # ps) = confined (Sql t # ps)"

lemma render_simps [simp]: "render [] = []" "render (p # ps) = piece_text p @ render ps" "render (ps @ qs) = render ps @ render qs"
  by (simp_all add: render_def)

lemma steady_hd: "steady t \<Longrightarrow> t \<noteq> [] \<Longrightarrow> hd t \<noteq> 39"
  by (cases t) auto

lemma confined_sql: "confined (Sql t # ps) \<Longrightarrow> t \<noteq> [] \<and> steady t \<and> confined ps"
  by (cases ps) auto

lemma render_tokens:
  assumes "confined ps" and "rest = [] \<or> hd rest \<noteq> 39"
  shows "tokens u prev (render ps @ rest) = concat (map piece_tokens ps) @ tokens u (last_of prev (render ps)) rest"
  using assms(1)
proof (induction ps arbitrary: prev)
  case (Cons p ps)
  show ?case
  proof (cases p)
    case (Sql t)
    then have t: "steady t" "confined ps" using Cons.prems confined_sql by blast+
    from tokens_code_run[OF steady_run[OF t(1)], of u prev "render ps @ rest"] Cons.IH[OF t(2)] Sql
    show ?thesis by simp
  next
    case (Value v)
    show ?thesis
    proof (cases ps)
      case Nil
      then show ?thesis using Value literal_token[OF assms(2)] by simp
    next
      case (Cons q qs)
      then obtain t where t: "q = Sql t" "t \<noteq> []" "steady t" "confined ps"
        using Cons.prems Value by (cases q) (auto dest: confined_sql)
      then have "render ps @ rest = [] \<or> hd (render ps @ rest) \<noteq> 39" using Cons steady_hd[of t] by simp
      from literal_token[OF this] Cons.IH[OF t(4)] Value show ?thesis by simp
    qed
  qed
qed simp

lemma confined_glue: "confined ps \<Longrightarrow> confined (Sql t # qs) \<Longrightarrow> confined (ps @ Sql t # qs)"
proof (induction ps rule: confined.induct)
  case (6 v t' ps)
  then show ?case by (cases "ps @ Sql t # qs") auto
next
  case (4 t' p ps)
  then show ?case by auto
qed (cases qs; auto)+

lemma confined_Sql: "t \<noteq> [] \<Longrightarrow> steady t \<Longrightarrow> confined ps \<Longrightarrow> confined (Sql t # ps)"
  by (cases ps) auto

text \<open>The words the conditions are made of.\<close>

definition SQL_WORDS :: "points list" where
  "SQL_WORDS = map chars ['' '', ''='', ''<>'', ''>'', ''>='', ''<'', ''<='', '' = '', '' IS NULL'', '' IS NOT NULL'', '' IN ('', '', '', '')'',
     '' BETWEEN '', '' AND '', '' LIKE '', '' ESCAPE '', ''DATE '', ''TO_DATE('', ''TIMESTAMP '', ''SYS_CONTEXT('',
     '' = CASE WHEN REGEXP_LIKE('', '') THEN TO_NUMBER('', '') END'']"

lemma words_steady: "t \<in> set SQL_WORDS \<Longrightarrow> t \<noteq> [] \<and> steady t"
proof -
  have "list_all (\<lambda>t. t \<noteq> [] \<and> steady t) SQL_WORDS" by code_simp
  then show "t \<in> set SQL_WORDS \<Longrightarrow> ?thesis" by (auto simp: list_all_iff)
qed

definition numeric :: "lexicon \<Rightarrow> points \<Rightarrow> bool" where
  "numeric x t \<longleftrightarrow> t \<noteq> [] \<and> steady t \<and> (\<forall>c\<in>set t. is_dig x c \<or> c \<in> {43, 45, 46, 69})"

fun safe_piece :: "lexicon \<Rightarrow> piece \<Rightarrow> bool" where
  "safe_piece x (Sql t) = (t \<in> set SQL_WORDS \<or> numeric x t)"
| "safe_piece x (Value v) = True"

fun contents :: "piece list \<Rightarrow> points list" where
  "contents [] = []"
| "contents (Sql t # ps) = contents ps"
| "contents (Value v # ps) = v # contents ps"

text \<open>The values in a list of pieces: the quotations and the numbers, in order.\<close>

fun is_inserted :: "lexicon \<Rightarrow> piece \<Rightarrow> bool" where
  "is_inserted x (Sql t) = numeric x t"
| "is_inserted x (Value v) = True"

definition inserted :: "lexicon \<Rightarrow> piece list \<Rightarrow> piece list" where
  "inserted x ps = filter (is_inserted x) ps"

lemma inserted_simps [simp]:
  "inserted x [] = []" "inserted x (ps @ qs) = inserted x ps @ inserted x qs"
  "inserted x (p # ps) = (if is_inserted x p then p # inserted x ps else inserted x ps)"
  by (simp_all add: inserted_def)

lemma chars_inject: "chars s = chars t \<longleftrightarrow> s = t"
  unfolding chars_def by (rule inj_map_eq_map) (simp add: inj_on_def)

definition wordy :: "nat \<Rightarrow> bool" where
  "wordy c \<longleftrightarrow> c < 128 \<and> \<not> (48 \<le> c \<and> c \<le> 57) \<and> c \<notin> {43, 45, 46, 69}"

lemma words_not_numeric:
  assumes "t \<in> set SQL_WORDS"
  shows "\<not> numeric x t"
proof
  assume n: "numeric x t"
  have "list_all (\<lambda>t. wordy (hd t)) SQL_WORDS" by code_simp
  then have "wordy (hd t)" using assms by (simp only: list_all_iff)
  moreover have "hd t \<in> set t" using words_steady[OF assms] by simp
  then have "is_dig x (hd t) \<or> hd t \<in> {43, 45, 46, 69}" using n by (simp add: numeric_def)
  ultimately show False by (auto simp: wordy_def is_dig_def digit_def split: if_splits)
qed

lemma contents_inserted: "contents (inserted x ps) = contents ps"
  by (induction ps rule: contents.induct) auto

lemma contents_append [simp]: "contents (ps @ qs) = contents ps @ contents qs"
  by (induction ps rule: contents.induct) auto

lemma safe_steady: "safe_piece x (Sql t) \<Longrightarrow> t \<noteq> [] \<and> steady t"
  using words_steady by (auto simp: numeric_def)

text \<open>A text made of such pieces with these values.\<close>

definition built :: "lexicon \<Rightarrow> points \<Rightarrow> piece list \<Rightarrow> bool" where
  "built x t vs \<longleftrightarrow> (\<exists>ps. t = render ps \<and> confined ps \<and> list_all (safe_piece x) ps \<and> inserted x ps = vs)"

lemma built_value: "built x (sql_literal v) [Value v]"
  unfolding built_def by (intro exI[of _ "[Value v]"]) simp

lemma built_word:
  assumes "w \<in> set SQL_WORDS" and "built x t vs"
  shows "built x (w @ t) vs"
proof -
  obtain ps where ps: "t = render ps" "confined ps" "list_all (safe_piece x) ps" "inserted x ps = vs"
    using assms(2) by (auto simp: built_def)
  have "confined (Sql w # ps)" using confined_Sql[OF _ _ ps(2)] words_steady[OF assms(1)] by blast
  then show ?thesis unfolding built_def
    using ps assms(1) words_not_numeric[OF assms(1), of x] by (intro exI[of _ "Sql w # ps"]) simp
qed

lemma built_glue:
  assumes "built x s us" and "w \<in> set SQL_WORDS" and "built x t vs"
  shows "built x (s @ w @ t) (us @ vs)"
proof -
  obtain ps qs where p: "s = render ps" "confined ps" "list_all (safe_piece x) ps" "inserted x ps = us"
    and q: "t = render qs" "confined qs" "list_all (safe_piece x) qs" "inserted x qs = vs"
    using assms(1,3) by (auto simp: built_def)
  have "confined (ps @ Sql w # qs)"
    using confined_glue[OF p(2)] confined_Sql[OF _ _ q(2)] words_steady[OF assms(2)] by blast
  then show ?thesis unfolding built_def
    using p q assms(2) words_not_numeric[OF assms(2), of x] by (intro exI[of _ "ps @ Sql w # qs"]) simp
qed

lemma built_nil: "built x [] []"
  unfolding built_def by (intro exI[of _ "[]"]) simp

lemmas built_end = built_glue[OF _ _ built_nil, simplified append_Nil2]

lemma built_tokens:
  assumes "built x t vs" and "rest = [] \<or> hd rest \<noteq> 39"
  shows "\<exists>ps. t = render ps \<and> list_all (safe_piece x) ps \<and> inserted x ps = vs
    \<and> tokens u prev (t @ rest) = concat (map piece_tokens ps) @ tokens u (last_of prev t) rest"
  using assms render_tokens[OF _ assms(2), of _ u prev] by (auto simp: built_def)

text \<open>Capitals leave a digit as it is.\<close>

definition digits_kept :: "lexicon \<Rightarrow> bool" where
  "digits_kept x \<longleftrightarrow> (\<forall>c. 128 \<le> c \<and> wide_digit x c \<noteq> None \<longrightarrow> wide_upper (of_naming x) c = [c])"

definition quiet_char :: "lexicon \<Rightarrow> nat \<Rightarrow> bool" where
  "quiet_char x c \<longleftrightarrow> is_dig x c \<or> c = 46"

lemma quiet_steady: "quiet_char x c \<Longrightarrow> steady (c # X) = steady X"
  by (auto simp: quiet_char_def is_dig_def digit_def is_q_def is_n_def split: if_splits)

lemma quiet_steady_all: "\<forall>c\<in>set ds. quiet_char x c \<Longrightarrow> steady (ds @ X) = steady X"
proof (induction ds)
  case (Cons a ds)
  then show ?case using quiet_steady[of x a "ds @ X"] by (simp del: steady.simps)
qed simp

lemma quiet_upper: "digits_kept x \<Longrightarrow> quiet_char x c \<Longrightarrow> upper_point (of_naming x) c = [c]"
  by (auto simp: quiet_char_def is_dig_def digit_def upper_point_def digits_kept_def split: if_splits)

lemma capitals_append [simp]: "capitals x (a @ b) = capitals x a @ capitals x b" "capitals x [] = []"
  "capitals x (c # b) = upper_point (of_naming x) c @ capitals x b"
  by (simp_all add: upper_points_def)

lemma quiet_capitals: "digits_kept x \<Longrightarrow> \<forall>c\<in>set ds. quiet_char x c \<Longrightarrow> capitals x ds = ds"
  by (induction ds) (simp_all add: quiet_upper)

lemma sign_cases: "drop_sign s = s \<or> (\<exists>c\<in>{43, 45}. s = c # drop_sign s)"
  by (cases s) (auto simp: drop_sign_def)

lemma sign_steady: "X \<noteq> [] \<Longrightarrow> hd X \<noteq> 45 \<Longrightarrow> steady X \<Longrightarrow> c \<in> {43, 45} \<Longrightarrow> steady (c # X)"
  by (auto simp: is_q_def is_n_def)

lemma sign_upper: "c \<in> {43, 45} \<Longrightarrow> upper_point (of_naming x) c = [c]"
  by (auto simp: upper_point_def)

lemma quiet_head: "quiet_char x (hd X) \<Longrightarrow> hd X \<noteq> 45"
  by (auto simp: quiet_char_def is_dig_def digit_def)

text \<open>Digits after a sign that may be missing.\<close>

lemma signed_steady:
  assumes "digits_kept x" and "capitals x (drop_sign s) = T" and "T \<noteq> []" and "quiet_char x (hd T)" and "steady T"
    and "\<forall>c\<in>set T. is_dig x c \<or> c \<in> {43, 45, 46, 69}"
  shows "numeric x (capitals x s) \<and> numeric x T"
  using sign_cases[of s]
proof
  assume "drop_sign s = s"
  then show ?thesis using assms by (simp add: numeric_def)
next
  assume "\<exists>c\<in>{43, 45}. s = c # drop_sign s"
  then obtain c where c: "c \<in> {43, 45}" "s = c # drop_sign s" by blast
  have "capitals x s = capitals x (c # drop_sign s)" using arg_cong[OF c(2)] .
  then have "capitals x s = c # T" using sign_upper[OF c(1), of x] assms(2) by simp
  then show ?thesis using sign_steady[OF assms(3) quiet_head[OF assms(4)] assms(5) c(1)] assms(3,5,6) c(1)
    by (auto simp: numeric_def simp del: steady.simps)
qed

lemma exponent_steady:
  assumes "digits_kept x" and "exponent_ok x r"
  shows "steady (capitals x r) \<and> (\<forall>c\<in>set (capitals x r). is_dig x c \<or> c \<in> {43, 45, 46, 69})"
proof (cases r)
  case (Cons e cs)
  then have e: "upper_point (of_naming x) e = [69]" "drop_sign cs \<noteq> []" "\<forall>c\<in>set (drop_sign cs). quiet_char x c"
    using assms(2) by (auto simp: exponent_ok_def upper_point_def list_all_iff quiet_char_def)
  have k: "capitals x (drop_sign cs) = drop_sign cs" using quiet_capitals[OF assms(1) e(3)] .
  have "steady (drop_sign cs)" using quiet_steady_all[OF e(3), of "[]"] by simp
  moreover have "\<forall>c\<in>set (drop_sign cs). is_dig x c \<or> c \<in> {43, 45, 46, 69}" using e(3) by (auto simp: quiet_char_def)
  moreover have "quiet_char x (hd (drop_sign cs))" using e(2,3) by simp
  ultimately have "numeric x (capitals x cs)" using signed_steady[OF assms(1) k e(2)] by simp
  then show ?thesis using Cons e(1) by (auto simp: numeric_def is_q_def is_n_def)
qed simp

lemma number_steady:
  assumes "digits_kept x" and "number_literal_ok x s"
  shows "numeric x (capitals x s) \<and> numeric x (capitals x (drop_sign s))"
proof -
  define w where "w = takeWhile (is_dig x) (drop_sign s)"
  define r where "r = dropWhile (is_dig x) (drop_sign s)"
  have wr: "drop_sign s = w @ r" by (simp add: w_def r_def)
  have w: "\<forall>c\<in>set w. quiet_char x c" unfolding w_def by (auto simp: quiet_char_def dest: set_takeWhileD)
  have "\<exists>b t. drop_sign s = b @ t \<and> b \<noteq> [] \<and> (\<forall>c\<in>set b. quiet_char x c) \<and> exponent_ok x t"
  proof (cases "\<exists>cs. r = 46 # cs")
    case True
    then obtain cs where cs: "r = 46 # cs" by blast
    have "\<forall>c\<in>set (takeWhile (is_dig x) cs). quiet_char x c" by (auto simp: quiet_char_def dest: set_takeWhileD)
    moreover have "exponent_ok x (dropWhile (is_dig x) cs)"
      using assms(2) cs by (simp add: number_literal_ok_def digits_end_def r_def)
    moreover have "drop_sign s = (w @ 46 # takeWhile (is_dig x) cs) @ dropWhile (is_dig x) cs" using wr cs by simp
    ultimately show ?thesis using w
      by (intro exI[of _ "w @ 46 # takeWhile (is_dig x) cs"] exI[of _ "dropWhile (is_dig x) cs"]) (auto simp: quiet_char_def)
  next
    case False
    have "number_literal_ok x s \<longleftrightarrow> (case r of c # cs \<Rightarrow> if c = 46 then (let (fraction, rest) = digits_end x cs in (w \<noteq> [] \<or> fraction)
        \<and> exponent_ok x rest) else w \<noteq> [] \<and> exponent_ok x r | [] \<Rightarrow> w \<noteq> [])"
      unfolding number_literal_ok_def digits_end_def w_def[symmetric] r_def[symmetric] by (cases r) simp_all
    then have "w \<noteq> [] \<and> exponent_ok x r"
      using assms(2) False by (cases r) (auto simp: exponent_ok_def)
    then show ?thesis using wr w by blast
  qed
  then obtain b t where b: "drop_sign s = b @ t" "b \<noteq> []" "\<forall>c\<in>set b. quiet_char x c" "exponent_ok x t" by blast
  have cap: "capitals x (drop_sign s) = b @ capitals x t" using b quiet_capitals[OF assms(1) b(3)] by simp
  show ?thesis unfolding cap using exponent_steady[OF assms(1) b(4)] b quiet_steady_all[OF b(3)]
    by (intro conjI signed_steady[OF assms(1) cap, THEN conjunct1] signed_steady[OF assms(1) cap, THEN conjunct2])
      (auto simp: quiet_char_def)
qed

lemma built_numeric: "numeric x t \<Longrightarrow> built x t [Sql t]"
  unfolding built_def by (intro exI[of _ "[Sql t]"]) (simp add: numeric_def)

text \<open>What a condition looks for, for every kind of value: a text without outer spaces, a number without a plus sign,
  a moment with its seconds and, for a column of dates, the mask it is read by.\<close>

definition moment :: "lexicon \<Rightarrow> points \<Rightarrow> points" where
  "moment x v = (let s = replace_all 84 [32] (tidy x v) in if length s = 16 then s @ chars '':00'' else s)"

definition number_of :: "lexicon \<Rightarrow> points \<Rightarrow> points" where
  "number_of x v = capitals x (if take 1 (tidy x v) = [43] then drop 1 (tidy x v) else tidy x v)"

definition sought_value :: "lexicon \<Rightarrow> scope_filter \<Rightarrow> points \<Rightarrow> points \<Rightarrow> piece list" where
  "sought_value x f dt v =
     (if sf_value_type f = chars ''TEXT'' then [Value (tidy x v)]
      else if sf_value_type f = chars ''NUMBER'' then [Sql (number_of x v)]
      else if oracle_base_type x dt = chars ''DATE'' then
        Value (moment x v) # (if length (moment x v) = 10 then [] else [Value (chars ''YYYY-MM-DD HH24:MI:SS'')])
      else [Value (moment x v @ (if length (moment x v) = 10 then chars '' 00:00:00'' else []))])"

lemma tidy_value: "non_empty_value x v = Some s \<Longrightarrow> s = tidy x v"
  by (auto simp: non_empty_value_def Let_def split: if_splits)

lemma built_number: "digits_kept x \<Longrightarrow> number_literal x v = Some t \<Longrightarrow> built x t [Sql (number_of x v)]"
proof -
  assume k: "digits_kept x" and t: "number_literal x v = Some t"
  then obtain s where s: "number_literal_ok x s" "t = capitals x (if take 1 s = [43] then drop 1 s else s)" "s = tidy x v"
    by (auto simp: number_literal_def dest: tidy_value split: option.splits if_splits)
  have "take 1 s = [43] \<Longrightarrow> drop 1 s = drop_sign s" by (cases s) (auto simp: drop_sign_def)
  then have "numeric x t" using number_steady[OF k s(1)] s(2) by auto
  moreover have "t = number_of x v" using s(2,3) by (simp add: number_of_def)
  ultimately show ?thesis using built_numeric by simp
qed

lemma built_positive: "digits_kept x \<Longrightarrow> positive_integer_literal x v = Some t \<Longrightarrow> built x t [Sql (number_of x v)]"
proof -
  assume k: "digits_kept x" and "positive_integer_literal x v = Some t"
  then have v: "non_empty_value x v = Some t" and "positive_integer_ok x t"
    by (auto simp: positive_integer_literal_def split: option.splits if_splits)
  then obtain c cs where c: "t = c # cs" "49 \<le> c \<and> c \<le> 57" "list_all (is_dig x) cs"
    by (auto simp: positive_integer_ok_def split: list.splits)
  note t = tidy_value[OF v]
  have q: "\<forall>c\<in>set t. quiet_char x c" using c by (auto simp: quiet_char_def list_all_iff is_dig_def digit_def)
  have "take 1 t \<noteq> [43]" using c by auto
  then have "number_of x v = t" using quiet_capitals[OF k q] unfolding t number_of_def by simp
  moreover have "numeric x t" using quiet_steady_all[OF q, of "[]"] c(1) q by (auto simp: numeric_def quiet_char_def)
  ultimately show ?thesis using built_numeric by simp
qed

lemma word:
  "chars ''DATE '' \<in> set SQL_WORDS" "chars ''TO_DATE('' \<in> set SQL_WORDS" "chars ''TIMESTAMP '' \<in> set SQL_WORDS"
  "chars '', '' \<in> set SQL_WORDS" "chars '')'' \<in> set SQL_WORDS" "chars ''SYS_CONTEXT('' \<in> set SQL_WORDS"
  "chars '' = CASE WHEN REGEXP_LIKE('' \<in> set SQL_WORDS" "chars '') THEN TO_NUMBER('' \<in> set SQL_WORDS"
  "chars '') END'' \<in> set SQL_WORDS" "chars '' = '' \<in> set SQL_WORDS" "chars '' IS NULL'' \<in> set SQL_WORDS"
  "chars '' IS NOT NULL'' \<in> set SQL_WORDS" "chars '' IN ('' \<in> set SQL_WORDS" "chars '' BETWEEN '' \<in> set SQL_WORDS"
  "chars '' AND '' \<in> set SQL_WORDS" "chars '' LIKE '' \<in> set SQL_WORDS" "chars '' ESCAPE '' \<in> set SQL_WORDS"
  "chars '' '' \<in> set SQL_WORDS"
  by (simp_all add: SQL_WORDS_def)

lemma temporal_moment:
  assumes "normalize_temporal_value x v = Some (s, has_time)"
  shows "s = moment x v \<and> (has_time \<longleftrightarrow> length s \<noteq> 10)"
proof -
  let ?s = "replace_all 84 [32] (tidy x v)"
  have "(shaped x date_form ?s \<and> s = ?s \<and> \<not> has_time)
    \<or> ((shaped x minute_form ?s \<or> shaped x second_form ?s) \<and> s = (if length ?s = 16 then ?s @ chars '':00'' else ?s) \<and> has_time)"
    using assms by (auto simp: normalize_temporal_value_def Let_def dest: tidy_value split: option.splits if_splits)
  moreover have "length date_form = 10" "length minute_form = 16" "length second_form = 19" by code_simp+
  ultimately show ?thesis by (auto simp: moment_def Let_def shaped_def chars_def)
qed

lemma built_temporal:
  assumes "temporal_literal x v dt = Some t" and "sf_value_type f = chars ''TEMPORAL''"
  shows "built x t (sought_value x f dt v)"
proof -
  obtain s has_time where n: "normalize_temporal_value x v = Some (s, has_time)"
    using assms(1) by (auto simp: temporal_literal_def split: option.splits)
  note m = temporal_moment[OF n]
  have f: "sf_value_type f \<noteq> chars ''TEXT''" "sf_value_type f \<noteq> chars ''NUMBER''"
    using assms(2) by (simp_all add: chars_def)
  have "built x (chars ''DATE '' @ sql_literal s) [Value s]" "built x (chars ''TIMESTAMP '' @ sql_literal s') [Value s']"
    "built x (chars ''TO_DATE('' @ sql_literal s @ chars '', '' @ sql_literal q @ chars '')'') [Value s, Value q]" for s' q
    using built_word[OF word(1) built_value] built_word[OF word(3) built_value]
      built_word[OF word(2) built_glue[OF built_value word(4) built_end[OF built_value word(5)]]] by simp_all
  with n m f assms(1) show ?thesis by (auto simp: temporal_literal_def sought_value_def split: if_splits)
qed

lemma built_literal:
  assumes "digits_kept x" and "filter_literal x f dt v = Some t"
  shows "built x t (sought_value x f dt v)"
proof -
  consider (words) "sf_value_type f = chars ''TEXT''" "map_option sql_literal (non_empty_value x v) = Some t"
    | (number) "sf_value_type f = chars ''NUMBER''" "number_literal x v = Some t"
    | (temporal) "sf_value_type f = chars ''TEMPORAL''" "temporal_literal x v dt = Some t"
    using assms(2) by (auto simp: filter_literal_def split: if_splits)
  then show ?thesis
  proof cases
    case words
    then show ?thesis using built_value by (auto simp: sought_value_def dest: tidy_value)
  next
    case number
    then show ?thesis using built_number[OF assms(1)] by (simp add: sought_value_def chars_def)
  next
    case temporal
    then show ?thesis using built_temporal by blast
  qed
qed

lemma comma_list_Cons: "comma_list (v # vs) = (if vs = [] then v else v @ chars '', '' @ comma_list vs)"
  by (cases vs) auto

lemma built_list:
  assumes "digits_kept x" and "those (map (filter_literal x f dt) vs) = Some ts" and "ts \<noteq> []"
  shows "built x (comma_list ts) (concat (map (sought_value x f dt) vs))"
  using assms(2,3)
proof (induction vs arbitrary: ts)
  case (Cons v vs)
  then obtain t ts' where t: "filter_literal x f dt v = Some t" "those (map (filter_literal x f dt) vs) = Some ts'" "ts = t # ts'"
    by (auto split: option.splits)
  note us = built_literal[OF assms(1) t(1)]
  show ?case
  proof (cases "ts' = []")
    case True
    then have "vs = []" using t(2) by (cases vs) (auto split: option.splits)
    then show ?thesis using True t us by (simp add: comma_list_Cons)
  next
    case False
    from built_glue[OF us word(4) Cons.IH[OF t(2) this]] False t(3) show ?thesis by (simp add: comma_list_Cons)
  qed
qed simp

definition login_pieces :: "piece list" where
  "login_pieces = [Value (chars ''NL2SQL_APP_USER_CTX''), Value (chars ''LOGIN_USER_ID'')]"

lemma built_login: "built x login_expr login_pieces"
  using built_word[OF word(6) built_glue[OF built_value word(4) built_end[OF built_value word(5)]]]
  by (simp add: login_expr_def login_pieces_def)

definition sought :: "lexicon \<Rightarrow> scope_filter \<Rightarrow> points \<Rightarrow> piece list" where
  "sought x f dt =
     (if sf_value_source f = LOGIN_SOURCE then
        (if sf_value_type f = chars ''NUMBER'' then login_pieces @ Value (chars ''^[0-9]+$'') # login_pieces else login_pieces)
      else if sf_operator f \<in> {chars ''IS_NULL'', chars ''IS_NOT_NULL''} then []
      else if sf_operator f = chars ''IN'' then concat (map (sought_value x f dt) (filter (\<lambda>v. tidy x v \<noteq> []) (sf_values f)))
      else if sf_operator f = chars ''BETWEEN'' then sought_value x f dt (sf_value f) @ sought_value x f dt (sf_value_to f)
      else if sf_operator f = chars ''CONTAINS'' then [Value (like_pattern (tidy x (sf_value f)) [37] [37]), Value [92]]
      else if sf_operator f = chars ''STARTS_WITH'' then [Value (like_pattern (tidy x (sf_value f)) [] [37]), Value [92]]
      else sought_value x f dt (sf_value f))"

definition spaced :: "points \<Rightarrow> bool" where
  "spaced t \<longleftrightarrow> t \<noteq> [] \<and> hd t = 32"

definition condition_built :: "lexicon \<Rightarrow> scope_filter \<Rightarrow> points \<Rightarrow> points \<Rightarrow> bool" where
  "condition_built x f dt t \<longleftrightarrow> built x t (sought x f dt) \<and> spaced t"

lemma space_breaks: "spaced (chars (CHR '' '' # s) @ t)"
  by (simp add: spaced_def chars_def)

lemma login_built:
  assumes "login_condition f column = Some p" and "sf_value_source f = LOGIN_SOURCE"
  shows "\<exists>t. p = column @ t \<and> condition_built x f dt t"
proof -
  let ?number = "chars '' = CASE WHEN REGEXP_LIKE('' @ login_expr @ chars '', ''
      @ sql_literal (chars ''^[0-9]+$'') @ chars '') THEN TO_NUMBER('' @ login_expr @ chars '') END''"
  have "built x ?number (login_pieces @ [Value (chars ''^[0-9]+$'')] @ login_pieces)"
    by (rule built_word[OF word(7) built_glue[OF built_login word(4) built_glue[OF built_value word(8) built_end[OF built_login word(9)]]]])
  moreover have "built x (chars '' = '' @ login_expr) login_pieces" by (rule built_word[OF word(10) built_login])
  moreover have "spaced ?number" "spaced (chars '' = '' @ login_expr)" by (rule space_breaks)+
  ultimately show ?thesis
    using assms by (auto simp: login_condition_def condition_built_def sought_def split: if_splits)
qed

lemma comparison_word:
  "map_of comparisons op = Some c \<Longrightarrow> c \<in> set SQL_WORDS \<and> op \<notin> {chars ''CONTAINS'', chars ''STARTS_WITH''}"
proof -
  have "list_all (\<lambda>(a, c). c \<in> set SQL_WORDS \<and> a \<notin> {chars ''CONTAINS'', chars ''STARTS_WITH''}) comparisons" by code_simp
  then show "map_of comparisons op = Some c \<Longrightarrow> ?thesis" by (auto simp: list_all_iff dest: map_of_SomeD)
qed

lemma built_compared:
  assumes "map_of comparisons op = Some c" and "built x v vs"
  shows "built x ([32] @ c @ [32] @ v) vs"
proof -
  have w: "[32] \<in> set SQL_WORDS" "c \<in> set SQL_WORDS"
    using word(18) comparison_word[OF assms(1)] by (simp_all add: chars_def)
  show ?thesis by (rule built_word[OF w(1) built_word[OF w(2) built_word[OF w(1) assms(2)]]])
qed

lemma literal_built:
  assumes "literal_condition x f dt column = Some p" and "digits_kept x" and "sf_value_source f \<noteq> LOGIN_SOURCE"
  shows "\<exists>t. p = column @ t \<and> condition_built x f dt t"
proof -
  let ?op = "sf_operator f"
  consider (null) "?op = chars ''IS_NULL''" | (not_null) "?op = chars ''IS_NOT_NULL''" | (several) "?op = chars ''IN''"
    | (between) "?op = chars ''BETWEEN''"
    | (like) "sf_value_type f = chars ''TEXT''" "?op = chars ''CONTAINS'' \<or> ?op = chars ''STARTS_WITH''"
    | (compared) "?op \<notin> {chars ''IS_NULL'', chars ''IS_NOT_NULL'', chars ''IN'', chars ''BETWEEN''}"
        "\<not> (sf_value_type f = chars ''TEXT'' \<and> ?op \<in> {chars ''CONTAINS'', chars ''STARTS_WITH''})"
    by blast
  then show ?thesis
  proof cases
    case null
    have "built x (chars '' IS NULL'') []" using built_word[OF word(11) built_nil] by simp
    then show ?thesis using null assms(1,3) space_breaks[of "''IS NULL''" "[]"]
      by (auto simp: literal_condition_def condition_built_def sought_def)
  next
    case not_null
    have "built x (chars '' IS NOT NULL'') []" using built_word[OF word(12) built_nil] by simp
    then show ?thesis using not_null assms(1,3) space_breaks[of "''IS NOT NULL''" "[]"]
      by (auto simp: literal_condition_def condition_built_def sought_def chars_inject)
  next
    case several
    then obtain ts where ts: "filter_values x f dt = Some ts" "p = column @ chars '' IN ('' @ comma_list ts @ chars '')''"
      using assms(1) by (auto simp: literal_condition_def chars_inject)
    then have t: "those (map (filter_literal x f dt) (filter (\<lambda>v. tidy x v \<noteq> []) (sf_values f))) = Some ts" "ts \<noteq> []"
      by (auto simp: filter_values_def split: option.splits if_splits)
    from built_word[OF word(13) built_end[OF built_list[OF assms(2) t] word(5)]] ts(2) several assms(3) show ?thesis
      by (auto simp: condition_built_def space_breaks sought_def chars_inject)
  next
    case between
    then obtain a b where ab: "filter_literal x f dt (sf_value f) = Some a" "filter_literal x f dt (sf_value_to f) = Some b"
      "p = column @ chars '' BETWEEN '' @ a @ chars '' AND '' @ b"
      using assms(1) by (auto simp: literal_condition_def chars_inject split: option.splits)
    from built_word[OF word(14) built_glue[OF built_literal[OF assms(2) ab(1)] word(15) built_literal[OF assms(2) ab(2)]]]
    show ?thesis using ab(3) between assms(3) by (auto simp: condition_built_def space_breaks sought_def chars_inject)
  next
    case like
    then obtain v where v: "non_empty_value x (sf_value f) = Some v" "p = column @ chars '' LIKE ''
        @ sql_literal (like_pattern v (if ?op = chars ''CONTAINS'' then [37] else []) [37]) @ chars '' ESCAPE '' @ sql_literal [92]"
      using assms(1) by (auto simp: literal_condition_def chars_inject)
    with tidy_value[OF v(1)] built_word[OF word(16) built_glue[OF built_value word(17) built_value]] like assms(3) show ?thesis
      by (auto simp: condition_built_def space_breaks sought_def chars_inject)
  next
    case compared
    then obtain v c where v: "(if sf_value_type f = chars ''NUMBER'' \<and> ?op = chars ''EQ''
        then positive_integer_literal x (sf_value f) else filter_literal x f dt (sf_value f)) = Some v"
      "map_of comparisons ?op = Some c" "p = column @ [32] @ c @ [32] @ v"
      using assms(1) by (auto simp: literal_condition_def split: option.splits if_splits)
    have "built x v (sought_value x f dt (sf_value f))"
    proof (cases "sf_value_type f = chars ''NUMBER'' \<and> ?op = chars ''EQ''")
      case True
      then show ?thesis using built_positive[OF assms(2), of "sf_value f" v] v(1) by (simp add: sought_value_def chars_inject)
    next
      case False
      have "filter_literal x f dt (sf_value f) = Some v" using v(1) by (simp only: if_not_P[OF False])
      then show ?thesis by (rule built_literal[OF assms(2)])
    qed
    from built_compared[OF v(2) this] comparison_word[OF v(2)] v(3) compared(1) assms(3) show ?thesis
      by (auto simp: condition_built_def spaced_def sought_def)
  qed
qed

lemma filter_shape:
  assumes "scope_filter_predicate x target f dt = Some p" and "digits_kept x"
  shows "\<exists>c t. identifier_token x (sf_column f) = Some c \<and> p = target @ dot # c @ t \<and> condition_built x (normal_filter x f) dt t"
proof -
  let ?f = "normal_filter x f"
  obtain c where c: "identifier_token x (sf_column f) = Some c" using assms(1) by (auto simp: scope_filter_predicate_def split: option.splits)
  have "\<exists>t. p = (target @ dot # c) @ t \<and> condition_built x ?f dt t"
  proof (cases "sf_value_source ?f = LOGIN_SOURCE")
    case True
    then have "login_condition ?f (target @ dot # c) = Some p"
      using assms(1) c by (auto simp: scope_filter_predicate_def Let_def split: if_splits)
    then show ?thesis using login_built True by blast
  next
    case False
    then have "literal_condition x ?f dt (target @ dot # c) = Some p"
      using assms(1) c by (auto simp: scope_filter_predicate_def Let_def split: if_splits)
    then show ?thesis using literal_built assms(2) False by blast
  qed
  with c show ?thesis by auto
qed

text \<open>C33: No value leaves its place: the condition of a filter is read by Oracle as the column, fixed words, numbers
  and quotations, whatever the values hold and whatever stands before and behind; and its numbers and quotations
  are, in order, exactly what the filter looks for: the texts, the numbers, the two ends of a range, the moments
  with their mask for a column of dates, the pattern with its escape character, or the names of the login.\<close>
theorem filter_values_stay_inside:
  assumes "scope_filter_predicate x target f dt = Some p" and "digits_kept x" and "rest = [] \<or> hd rest \<noteq> 39"
  shows "\<exists>c ps. identifier_token x (sf_column f) = Some c \<and> p = target @ dot # c @ render ps \<and> list_all (safe_piece x) ps
    \<and> tokens u prev (c @ render ps @ rest)
        = name_tokens c @ concat (map piece_tokens ps) @ tokens u (last_of prev (c @ render ps)) rest
    \<and> inserted x ps = sought x (normal_filter x f) dt"
proof -
  let ?f = "normal_filter x f"
  obtain c t where c: "identifier_token x (sf_column f) = Some c"
    and t: "p = target @ dot # c @ t" "built x t (sought x ?f dt)" "spaced t"
    using filter_shape[OF assms(1,2)] by (auto simp: condition_built_def)
  obtain ps where ps: "t = render ps" "list_all (safe_piece x) ps" "inserted x ps = sought x ?f dt"
    "tokens u (last_of prev c) (t @ rest) = concat (map piece_tokens ps) @ tokens u (last_of (last_of prev c) t) rest"
    using built_tokens[OF t(2) assms(3), of u "last_of prev c"] by blast
  obtain name where name: "catalog_name (of_naming x) name" "c = name_text name"
    using canonical_shape[of "of_naming x" "sf_column f" c] c unfolding identifier_token_def by blast
  have "breaks (t @ rest)" using t(3) by (auto simp: breaks_def spaced_def)
  from name_tokens_of[OF name(1) this, of u prev] name(2) t(3)
  have "tokens u prev (c @ t @ rest) = name_tokens c @ tokens u (last_of prev c) (t @ rest)"
    using name(1) by (auto simp: last_of_def catalog_name_def)
  then show ?thesis using c t ps by (intro exI[of _ c] exI[of _ ps]) auto
qed

section \<open>Patterns\<close>

text \<open>What LIKE with the escape character of the condition means.\<close>

fun like :: "points \<Rightarrow> points \<Rightarrow> bool" where
  "like [] s = (s = [])"
| "like (p # ps) [] = (p = 37 \<and> like ps [])"
| "like (p # ps) (c # s) =
     (if p = 37 then like ps (c # s) \<or> like (p # ps) s
      else if p = 95 then like ps s
      else if p = 92 then (case ps of q # qs \<Rightarrow> q = c \<and> like qs s | [] \<Rightarrow> False)
      else p = c \<and> like ps s)"

definition escaped :: "points \<Rightarrow> points" where
  "escaped v = concat (map (\<lambda>c. if c \<in> {37, 92, 95} then [92, c] else [c]) v)"

lemma escaped_pattern: "like_pattern v before after = before @ escaped v @ after"
  by (induction v) (auto simp: like_pattern_def replace_all_def escaped_def)

lemma like_escaped: "like (escaped v @ q) s \<longleftrightarrow> (\<exists>r. s = v @ r \<and> like q r)"
proof (induction v arbitrary: s)
  case (Cons c v)
  show ?case
  proof (cases s)
    case Nil
    then show ?thesis by (auto simp: escaped_def)
  next
    case (Cons d s')
    have e: "escaped (c # v) = (if c \<in> {37, 92, 95} then [92, c] else [c]) @ escaped v" by (simp add: escaped_def)
    show ?thesis using Cons Cons.IH[of s'] unfolding e by (auto simp: Cons)
  qed
qed (simp add: escaped_def)

lemma like_any: "like (37 # q) s \<longleftrightarrow> (\<exists>a b. s = a @ b \<and> like q b)"
proof (induction s)
  case (Cons c s)
  have "(\<exists>a b. c # s = a @ b \<and> like q b) \<longleftrightarrow> like q (c # s) \<or> (\<exists>a b. s = a @ b \<and> like q b)"
    by (auto simp: Cons_eq_append_conv)
  with Cons show ?case by simp
qed auto

text \<open>C34: The pattern of a condition means what its operator says: it accepts exactly the texts that contain the
  value, or begin with it, the special characters of patterns in the value standing for themselves.\<close>
theorem patterns_mean_their_operator:
  "(like (like_pattern v [37] [37]) s \<longleftrightarrow> (\<exists>a b. s = a @ v @ b))
   \<and> (like (like_pattern v [] [37]) s \<longleftrightarrow> (\<exists>b. s = v @ b))"
proof -
  have rest: "like [37] r" for r by (induction r) auto
  have "like (escaped v @ [37]) t \<longleftrightarrow> (\<exists>b. t = v @ b)" for t by (simp add: like_escaped rest)
  then show ?thesis by (simp add: escaped_pattern like_any) blast
qed

section \<open>Examples\<close>

definition plain_lexicon :: lexicon where
  "plain_lexicon = \<lparr>of_naming = latin_names, wide_digit = (\<lambda>_. None), decimal_fails = (\<lambda>_. False)\<rparr>"

text \<open>A value that tries to end its literal.\<close>

definition hostile_filter :: scope_filter where
  "hostile_filter = \<lparr>sf_column = chars ''dept'', sf_operator = chars ''EQ'', sf_value_type = chars ''TEXT'',
     sf_value_source = chars ''LITERAL'', sf_value = [120, 39] @ chars '' OR 1=1 --'', sf_value_to = [], sf_values = []\<rparr>"

lemma dept_token: "identifier_token plain_lexicon (chars ''dept'') = Some (chars ''DEPT'')"
  by (simp add: identifier_token_def plain_lexicon_def canonical_latin chars_def)

lemma hostile_predicate: "scope_filter_predicate plain_lexicon (chars ''HR.T'') hostile_filter (chars ''TEXT'')
    = Some (chars ''HR.T.DEPT = '' @ sql_literal ([120, 39] @ chars '' OR 1=1 --''))"
proof -
  have c: "sf_column hostile_filter = chars ''dept''" by (simp add: hostile_filter_def)
  show ?thesis unfolding scope_filter_predicate_def c dept_token option.case by code_simp
qed

theorem filter_values_stay_inside_witness:
  "\<exists>ps. chars '' = '' @ sql_literal ([120, 39] @ chars '' OR 1=1 --'') = render ps \<and> list_all (safe_piece plain_lexicon) ps
    \<and> inserted plain_lexicon ps = [Value ([120, 39] @ chars '' OR 1=1 --'')]"
proof -
  have k: "digits_kept plain_lexicon" by (simp add: digits_kept_def plain_lexicon_def)
  have n: "sought plain_lexicon (normal_filter plain_lexicon hostile_filter) (chars ''TEXT'') = [Value ([120, 39] @ chars '' OR 1=1 --'')]"
    by code_simp
  have c: "identifier_token plain_lexicon (sf_column hostile_filter) = Some (chars ''DEPT'')"
    using dept_token by (simp add: hostile_filter_def)
  have t: "chars ''HR.T.DEPT = '' = chars ''HR.T'' @ dot # chars ''DEPT'' @ chars '' = ''" by code_simp
  from filter_values_stay_inside[OF hostile_predicate k disjI1[OF refl]] obtain ps where
    "chars ''HR.T.DEPT = '' @ sql_literal ([120, 39] @ chars '' OR 1=1 --'') = chars ''HR.T'' @ dot # chars ''DEPT'' @ render ps"
    "list_all (safe_piece plain_lexicon) ps" "inserted plain_lexicon ps = sought plain_lexicon (normal_filter plain_lexicon hostile_filter) (chars ''TEXT'')"
    using c by auto
  then show ?thesis unfolding t n by auto
qed

text \<open>Digits beyond ASCII pass for numbers and come into the SQL as they are.\<close>
lemma wide_digits_pass:
  "number_literal (plain_lexicon\<lparr>wide_digit := (\<lambda>c. if c = 1633 then Some 1 else None)\<rparr>) [1633] = Some [1633]"
  by (simp add: number_literal_def non_empty_value_def number_literal_ok_def digits_end_def drop_sign_def is_dig_def digit_def
      plain_lexicon_def canonical_latin)

end
