(* ===== verification/ScopeTree.thy ===== *)
theory ScopeTree
  imports ScopeFilter
begin

text \<open>The tree of conditions of a data grant (\<open>nl2sql security/schemas.py\<close>, \<open>ScopeExpression\<close>, and
  \<open>security/scope_expression.py\<close>): groups of filters, and conditions on a related table through its keys, become
  one condition in SQL.\<close>

datatype connective = AND | OR

record relation =
  rl_owner :: points
  rl_object :: points
  rl_keys :: "(points \<times> points) list"

text \<open>The condition of a related table is a group.\<close>

datatype node =
    Condition scope_filter
  | Group connective "node list"
  | Related relation connective "node list"

definition MAX_CONDITIONS :: nat where "MAX_CONDITIONS = 20"
definition MAX_RELATED :: nat where "MAX_RELATED = 3"
definition MAX_DEPTH :: nat where "MAX_DEPTH = 3"
definition MAX_CHILDREN :: nat where "MAX_CHILDREN = 23"
definition MAX_KEYS :: nat where "MAX_KEYS = 8"

section \<open>Limits\<close>

text \<open>The walk over the tree counts conditions and related tables; \<open>None\<close> is the \<open>ValueError\<close>.\<close>

fun visit :: "node \<Rightarrow> nat \<Rightarrow> bool \<Rightarrow> (nat \<times> nat) option"
and visit_all :: "node list \<Rightarrow> nat \<Rightarrow> bool \<Rightarrow> (nat \<times> nat) option" where
  "visit (Condition f) depth in_relation = Some (1, 0)"
| "visit (Group c ns) depth in_relation = (if depth > MAX_DEPTH then None else visit_all ns depth in_relation)"
| "visit (Related r c ns) depth in_relation =
     (if in_relation then None
      else if depth + 1 > MAX_DEPTH then None
      else map_option (\<lambda>(a, b). (a, b + 1)) (visit_all ns (depth + 1) True))"
| "visit_all [] depth in_relation = Some (0, 0)"
| "visit_all (n # ns) depth in_relation =
     (case visit n (depth + (case n of Group _ _ \<Rightarrow> 1 | _ \<Rightarrow> 0)) in_relation of
        None \<Rightarrow> None
      | Some (a, b) \<Rightarrow> map_option (\<lambda>(c, d). (a + c, b + d)) (visit_all ns depth in_relation))"

text \<open>The numbers of children and of keys the fields allow.\<close>

fun fields_ok :: "node \<Rightarrow> bool" where
  "fields_ok (Condition f) = True"
| "fields_ok (Group c ns) = (ns \<noteq> [] \<and> length ns \<le> MAX_CHILDREN \<and> list_all fields_ok ns)"
| "fields_ok (Related r c ns) =
     (rl_keys r \<noteq> [] \<and> length (rl_keys r) \<le> MAX_KEYS \<and> ns \<noteq> [] \<and> length ns \<le> MAX_CHILDREN \<and> list_all fields_ok ns)"

definition valid_expression :: "connective \<Rightarrow> node list \<Rightarrow> bool" where
  "valid_expression c ns =
     (fields_ok (Group c ns) \<and>
      (case visit (Group c ns) 1 False of
         None \<Rightarrow> False | Some (conditions, related) \<Rightarrow> conditions \<le> MAX_CONDITIONS \<and> related \<le> MAX_RELATED))"

section \<open>Walks\<close>

fun related_of :: "node list \<Rightarrow> relation list" where
  "related_of [] = []"
| "related_of (Condition f # ns) = related_of ns"
| "related_of (Group c ms # ns) = related_of ms @ related_of ns"
| "related_of (Related r c ms # ns) = r # related_of ns"

fun uses_login :: "node list \<Rightarrow> bool" where
  "uses_login [] = False"
| "uses_login (Condition f # ns) = (sf_value_source f = LOGIN_SOURCE \<or> uses_login ns)"
| "uses_login (Group c ms # ns) = (uses_login ms \<or> uses_login ns)"
| "uses_login (Related r c ms # ns) = (uses_login ms \<or> uses_login ns)"

section \<open>Compilation\<close>

definition connective_text :: "connective \<Rightarrow> points" where
  "connective_text c = (case c of AND \<Rightarrow> chars '' AND '' | OR \<Rightarrow> chars '' OR '')"

fun joined :: "points \<Rightarrow> points list \<Rightarrow> points" where
  "joined sep [] = []"
| "joined sep [p] = p"
| "joined sep (p # q # ps) = p @ sep @ joined sep (q # ps)"

fun decimal :: "nat \<Rightarrow> points" where
  "decimal k = (if k < 10 then [48 + k] else decimal (k div 10) @ [48 + k mod 10])"

declare decimal.simps [simp del]

definition alias_of :: "nat \<Rightarrow> points" where
  "alias_of k = chars ''dsr'' @ decimal k"

definition key_text :: "lexicon \<Rightarrow> points \<Rightarrow> points \<Rightarrow> points \<times> points \<Rightarrow> points option" where
  "key_text x target alias k =
     (case (identifier_token x (fst k), identifier_token x (snd k)) of
        (Some a, Some b) \<Rightarrow> Some (target @ dot # a @ chars '' = '' @ alias @ dot # b) | _ \<Rightarrow> None)"

text \<open>A condition, with the type of its column when the types are known.\<close>

definition condition_text :: "lexicon \<Rightarrow> points \<Rightarrow> (points \<times> points) list \<Rightarrow> scope_filter \<Rightarrow> points option" where
  "condition_text x qualifier types f =
     (let data_type = map_of types (sf_column f)
      in if types \<noteq> [] \<and> (case data_type of None \<Rightarrow> True | Some t \<Rightarrow> scope_value_type x t \<noteq> sf_value_type f) then None
         else scope_filter_predicate x qualifier f
           (case data_type of Some t \<Rightarrow> if t = [] then sf_value_type f else t | None \<Rightarrow> sf_value_type f))"

text \<open>The number of the last alias is threaded through; \<open>relation_types\<close> gives the columns of a related table and
  may refuse it.\<close>

fun compile_nodes ::
    "lexicon \<Rightarrow> (relation \<Rightarrow> (points \<times> points) list option) \<Rightarrow> points \<Rightarrow> points \<Rightarrow> (points \<times> points) list \<Rightarrow> node list
     \<Rightarrow> nat \<Rightarrow> (points list \<times> nat) option" where
  "compile_nodes x relation_types target qualifier types [] k = Some ([], k)"
| "compile_nodes x relation_types target qualifier types (Condition f # ns) k =
     (case condition_text x qualifier types f of
        None \<Rightarrow> None
      | Some p \<Rightarrow> map_option (\<lambda>(ps, k). (p # ps, k)) (compile_nodes x relation_types target qualifier types ns k))"
| "compile_nodes x relation_types target qualifier types (Group c ms # ns) k =
     (case compile_nodes x relation_types target qualifier types ms k of
        None \<Rightarrow> None
      | Some (qs, k) \<Rightarrow>
          map_option (\<lambda>(ps, k). ((chars ''('' @ joined (connective_text c) qs @ chars '')'') # ps, k))
            (compile_nodes x relation_types target qualifier types ns k))"
| "compile_nodes x relation_types target qualifier types (Related r c ms # ns) k =
     (case qualified_target x (rl_owner r) (rl_object r) of
        None \<Rightarrow> None
      | Some related_target \<Rightarrow>
          if related_target = target then None
          else case relation_types r of
            None \<Rightarrow> None
          | Some related_types \<Rightarrow>
              (case those (map (key_text x target (alias_of (Suc k))) (rl_keys r)) of
                 None \<Rightarrow> None
               | Some keys \<Rightarrow>
                   case compile_nodes x relation_types target (alias_of (Suc k)) related_types ms (Suc k) of
                     None \<Rightarrow> None
                   | Some (qs, k') \<Rightarrow>
                       map_option
                         (\<lambda>(ps, k'). ((chars ''EXISTS (SELECT 1 FROM '' @ related_target @ chars '' '' @ alias_of (Suc k)
                            @ chars '' WHERE '' @ joined (chars '' AND '') keys @ chars '' AND ''
                            @ chars ''('' @ joined (connective_text c) qs @ chars '')'' @ chars '')'') # ps, k'))
                         (compile_nodes x relation_types target qualifier types ns k')))"

definition compile_expression ::
    "lexicon \<Rightarrow> (relation \<Rightarrow> (points \<times> points) list option) \<Rightarrow> points \<Rightarrow> points \<Rightarrow> (points \<times> points) list \<Rightarrow> connective
     \<Rightarrow> node list \<Rightarrow> points option" where
  "compile_expression x relation_types owner name types c ns =
     (case qualified_target x owner name of
        None \<Rightarrow> None
      | Some target \<Rightarrow>
          map_option (\<lambda>(ps, _). chars ''('' @ joined (connective_text c) ps @ chars '')'')
            (compile_nodes x relation_types target target types ns 0))"

text \<open>Without a check of the relations the columns of a related table are found among the others by their prefix.\<close>

definition stored_relation_types :: "lexicon \<Rightarrow> (points \<times> points) list \<Rightarrow> relation \<Rightarrow> (points \<times> points) list option" where
  "stored_relation_types x types r =
     map_option
       (\<lambda>related_target. let marker = related_target @ [dot] in
          map (\<lambda>(k, v). (drop (length marker) k, v)) (filter (\<lambda>(k, v). starts marker k) types))
       (qualified_target x (rl_owner r) (rl_object r))"

section \<open>Limits and walks\<close>

text \<open>All conditions and all relations, in order.\<close>

fun conditions_of :: "node list \<Rightarrow> scope_filter list" where
  "conditions_of [] = []"
| "conditions_of (Condition f # ns) = f # conditions_of ns"
| "conditions_of (Group c ms # ns) = conditions_of ms @ conditions_of ns"
| "conditions_of (Related r c ms # ns) = conditions_of ms @ conditions_of ns"

fun relations_of :: "node list \<Rightarrow> relation list" where
  "relations_of [] = []"
| "relations_of (Condition f # ns) = relations_of ns"
| "relations_of (Group c ms # ns) = relations_of ms @ relations_of ns"
| "relations_of (Related r c ms # ns) = r # relations_of ms @ relations_of ns"

text \<open>How deep groups are nested; the condition of a related table is one level below its place.\<close>

fun group_depth :: "node list \<Rightarrow> nat" where
  "group_depth [] = 0"
| "group_depth (Condition f # ns) = group_depth ns"
| "group_depth (Group c ms # ns) = max (Suc (group_depth ms)) (group_depth ns)"
| "group_depth (Related r c ms # ns) = max (Suc (group_depth ms)) (group_depth ns)"

lemma visit_exact:
  "visit_all ns depth in_relation = Some (a, b) \<Longrightarrow>
   a = length (conditions_of ns) \<and> b = length (relations_of ns) \<and> (group_depth ns = 0 \<or> depth + group_depth ns \<le> MAX_DEPTH)
   \<and> (in_relation \<longrightarrow> relations_of ns = []) \<and> related_of ns = relations_of ns"
proof (induction ns arbitrary: depth in_relation a b rule: conditions_of.induct)
  case (3 c ms ns)
  then obtain a1 b1 a2 b2 where v: "depth + 1 \<le> MAX_DEPTH" "visit_all ms (depth + 1) in_relation = Some (a1, b1)"
    "visit_all ns depth in_relation = Some (a2, b2)" "a = a1 + a2" "b = b1 + b2"
    by (auto split: option.splits if_splits)
  show ?case using "3.IH"(1)[OF v(2)] "3.IH"(2)[OF v(3)] v(1,4,5) by auto
next
  case (4 r c ms ns)
  then obtain a1 b1 a2 b2 where v: "\<not> in_relation" "depth + 1 \<le> MAX_DEPTH" "visit_all ms (depth + 1) True = Some (a1, b1)"
    "visit_all ns depth in_relation = Some (a2, b2)" "a = a1 + a2" "b = b1 + 1 + b2"
    by (auto split: option.splits if_splits)
  show ?case using "4.IH"(1)[OF v(3)] "4.IH"(2)[OF v(4)] v(1,2,5,6) by auto
qed (auto split: option.splits)

lemma uses_login_iff: "uses_login ns \<longleftrightarrow> (\<exists>f\<in>set (conditions_of ns). sf_value_source f = LOGIN_SOURCE)"
  by (induction ns rule: conditions_of.induct) auto

lemma aliases_counted:
  "compile_nodes x relation_types target qualifier types ns k = Some (ps, k') \<Longrightarrow>
   k' = k + length (relations_of ns) \<and> length ps = length ns"
proof (induction x relation_types target qualifier types ns k arbitrary: ps k' rule: compile_nodes.induct)
  case (4 x relation_types target qualifier types r c ms ns k)
  from "4.prems" obtain rt ts ks qs k1 ps' where q: "qualified_target x (rl_owner r) (rl_object r) = Some rt" "rt \<noteq> target"
      "relation_types r = Some ts" "those (map (key_text x target (alias_of (Suc k))) (rl_keys r)) = Some ks"
    and m: "compile_nodes x relation_types target (alias_of (Suc k)) ts ms (Suc k) = Some (qs, k1)"
    and n: "compile_nodes x relation_types target qualifier types ns k1 = Some (ps', k')" "length ps = Suc (length ps')"
    by (auto split: option.splits if_splits)
  show ?case using "4.IH"(1)[OF q m] "4.IH"(2)[OF q m refl n(1)] n(2) by simp
next
  case (3 x relation_types target qualifier types c ms ns k)
  from "3.prems" obtain qs k1 ps' where m: "compile_nodes x relation_types target qualifier types ms k = Some (qs, k1)"
    and n: "compile_nodes x relation_types target qualifier types ns k1 = Some (ps', k')" "length ps = Suc (length ps')"
    by (auto split: option.splits)
  show ?case using "3.IH"(1)[OF m] "3.IH"(2)[OF m refl n(1)] n(2) by simp
qed (auto split: option.splits)

text \<open>What the limits of a tree are worth: at most twenty conditions and three related tables, groups at most three
  deep, no relation below another; the walk over the related tables, which does not look below them, finds every
  one of them; and the walk for the login finds it exactly when some condition asks for it.\<close>
theorem valid_trees_are_bounded:
  assumes "valid_expression c ns"
  shows "length (conditions_of ns) \<le> 20 \<and> length (relations_of ns) \<le> 3 \<and> 1 + group_depth ns \<le> 3
    \<and> related_of ns = relations_of ns
    \<and> (uses_login ns \<longleftrightarrow> (\<exists>f\<in>set (conditions_of ns). sf_value_source f = LOGIN_SOURCE))
    \<and> (compile_nodes x relation_types target qualifier types ns 0 = Some (ps, k) \<longrightarrow> k \<le> 3)"
proof -
  obtain a b where v: "visit_all ns 1 False = Some (a, b)" "a \<le> 20" "b \<le> 3"
    using assms by (auto simp: valid_expression_def MAX_CONDITIONS_def MAX_RELATED_def MAX_DEPTH_def split: option.splits)
  from visit_exact[OF v(1)] v(2,3) show ?thesis
    using uses_login_iff aliases_counted[of x relation_types target qualifier types ns 0 ps k]
    by (auto simp: MAX_DEPTH_def)
qed

section \<open>The text of a tree\<close>

text \<open>A text that is read as single characters of code and quotations, whatever stands before it; \<open>vs\<close> are the
  contents of its quotations of values.\<close>

definition safe_token :: "kind \<times> points \<Rightarrow> bool" where
  "safe_token kt \<longleftrightarrow> (case kt of
      (Code, t) \<Rightarrow> \<exists>c. t = [c] \<and> c \<notin> {34, 39}
    | (Quoted, t) \<Rightarrow> (\<exists>v. t = sql_literal v) \<or> (\<exists>s. t = 34 # s @ [34] \<and> 34 \<notin> set s)
    | _ \<Rightarrow> False)"

definition value_tokens :: "(kind \<times> points) list \<Rightarrow> points list" where
  "value_tokens ts = map snd (filter (\<lambda>(k, t). k = Quoted \<and> take 1 t = [39]) ts)"

definition spelled :: "unicode \<Rightarrow> points \<Rightarrow> points list \<Rightarrow> bool" where
  "spelled u t vs \<longleftrightarrow> t \<noteq> [] \<and>
     (\<exists>ts. list_all safe_token ts \<and> value_tokens ts = map sql_literal vs
       \<and> (\<forall>prev rest. breaks rest \<longrightarrow> tokens u prev (t @ rest) = ts @ tokens u (last_of prev t) rest))"

lemma value_tokens_append [simp]: "value_tokens (ts @ us) = value_tokens ts @ value_tokens us" "value_tokens [] = []"
  by (simp_all add: value_tokens_def)

lemma codes_plain: "34 \<notin> set t \<Longrightarrow> 39 \<notin> set t \<Longrightarrow> list_all safe_token (codes t)"
  by (auto simp: codes_def safe_token_def list_all_iff)

lemma codes_safe: "steady t \<Longrightarrow> list_all safe_token (codes t)"
proof -
  have "34 \<notin> set t \<and> 39 \<notin> set t" if "steady t" using that by (induction t) auto
  then show "steady t \<Longrightarrow> ?thesis" using codes_plain by blast
qed

lemma codes_values [simp]: "value_tokens (codes t) = []"
  by (induction t) (auto simp: value_tokens_def codes_def)

lemma spelledI:
  assumes "t \<noteq> []" and "list_all safe_token ts" and "value_tokens ts = map sql_literal vs"
    and "\<And>prev rest. breaks rest \<Longrightarrow> tokens u prev (t @ rest) = ts @ tokens u (last_of prev t) rest"
  shows "spelled u t vs"
  using assms by (auto simp: spelled_def)

lemma spelled_steady: "steady w \<Longrightarrow> w \<noteq> [] \<Longrightarrow> spelled u w []"
  by (rule spelledI[of w "codes w"]) (auto simp: codes_safe tokens_code_run steady_run)

lemma spelled_word:
  assumes "steady w" and "spelled u t vs"
  shows "spelled u (w @ t) vs"
proof -
  obtain ts where t: "t \<noteq> []" "list_all safe_token ts" "value_tokens ts = map sql_literal vs"
    "\<And>prev rest. breaks rest \<Longrightarrow> tokens u prev (t @ rest) = ts @ tokens u (last_of prev t) rest"
    using assms(2) by (auto simp: spelled_def)
  show ?thesis
    using t tokens_code_run[OF steady_run[OF assms(1)], of u] codes_safe[OF assms(1)]
    by (intro spelledI[of _ "codes w @ ts"]) auto
qed

lemma spelled_append:
  assumes "spelled u s us" and "spelled u t vs" and "breaks t"
  shows "spelled u (s @ t) (us @ vs)"
proof -
  obtain ss where s: "s \<noteq> []" "list_all safe_token ss" "value_tokens ss = map sql_literal us"
    "\<And>prev rest. breaks rest \<Longrightarrow> tokens u prev (s @ rest) = ss @ tokens u (last_of prev s) rest"
    using assms(1) by (auto simp: spelled_def)
  obtain ts where t: "t \<noteq> []" "list_all safe_token ts" "value_tokens ts = map sql_literal vs"
    "\<And>prev rest. breaks rest \<Longrightarrow> tokens u prev (t @ rest) = ts @ tokens u (last_of prev t) rest"
    using assms(2) by (auto simp: spelled_def)
  have "breaks (t @ rest)" for rest using assms(3) t(1) by (auto simp: breaks_def)
  then show ?thesis using s t by (intro spelledI[of _ "ss @ ts"]) auto
qed

lemma spelled_token:
  assumes "identifier_token x s = Some c"
  shows "spelled u c []"
proof -
  obtain name where name: "catalog_name (of_naming x) name" "c = name_text name"
    using canonical_shape[of "of_naming x" s c] assms unfolding identifier_token_def by blast
  have nt: "list_all safe_token (name_tokens c) \<and> value_tokens (name_tokens c) = []"
  proof (cases "simple_identifier name")
    case True
    then show ?thesis using True name(2) simple_without[OF True] by (simp add: name_text_def name_tokens_def codes_plain)
  next
    case False
    then have "\<not> simple_identifier c" using name(2) simple_without[of c] by (auto simp: name_text_def)
    then show ?thesis using False name by (auto simp: name_tokens_def name_text_def safe_token_def value_tokens_def catalog_name_def)
  qed
  show ?thesis
    using nt name_tokens_of[OF name(1)] name by (intro spelledI[of c "name_tokens c"]) (auto simp: last_of_def catalog_name_def)
qed

lemma pieces_safe:
  "list_all (safe_piece x) ps \<Longrightarrow> list_all safe_token (concat (map piece_tokens ps))
    \<and> value_tokens (concat (map piece_tokens ps)) = map sql_literal (contents ps)"
proof (induction ps rule: contents.induct)
  case (2 t ps)
  then show ?case using codes_safe[of t] safe_steady[of x t] by (simp del: safe_piece.simps)
next
  case (3 v ps)
  then show ?case by (auto simp: safe_token_def value_tokens_def) (simp add: sql_literal_def)
qed simp

text \<open>The conditions of a tree, each with the type of its column: the columns of a related table are looked up in the
  types of that table.\<close>

definition column_type :: "(points \<times> points) list \<Rightarrow> scope_filter \<Rightarrow> points" where
  "column_type types f =
     (case map_of types (sf_column f) of Some t \<Rightarrow> if t = [] then sf_value_type f else t | None \<Rightarrow> sf_value_type f)"

fun typed_conditions ::
    "(relation \<Rightarrow> (points \<times> points) list option) \<Rightarrow> (points \<times> points) list \<Rightarrow> node list \<Rightarrow> (scope_filter \<times> points) list" where
  "typed_conditions relation_types types [] = []"
| "typed_conditions relation_types types (Condition f # ns) = (f, column_type types f) # typed_conditions relation_types types ns"
| "typed_conditions relation_types types (Group c ms # ns) =
     typed_conditions relation_types types ms @ typed_conditions relation_types types ns"
| "typed_conditions relation_types types (Related r c ms # ns) =
     typed_conditions relation_types (case relation_types r of Some ts \<Rightarrow> ts | None \<Rightarrow> []) ms
     @ typed_conditions relation_types types ns"

lemma typed_conditions_all: "map fst (typed_conditions relation_types types ns) = conditions_of ns"
  by (induction relation_types types ns rule: typed_conditions.induct) auto

text \<open>What the quotations of conditions hold, in order.\<close>

definition quotations :: "lexicon \<Rightarrow> (scope_filter \<times> points) list \<Rightarrow> points list" where
  "quotations x fs = concat (map (\<lambda>(f, dt). contents (sought x (normal_filter x f) dt)) fs)"

lemma quotations_simps [simp]:
  "quotations x [] = []" "quotations x (fs @ gs) = quotations x fs @ quotations x gs"
  "quotations x ((f, dt) # fs) = contents (sought x (normal_filter x f) dt) @ quotations x fs"
  by (simp_all add: quotations_def)

lemma built_spelled:
  assumes "built x t vs" and "t \<noteq> []"
  shows "spelled u t (contents vs)"
proof -
  obtain ps where ps: "t = render ps" "confined ps" "list_all (safe_piece x) ps" "contents ps = contents vs"
    using assms(1) contents_inserted[of x] by (auto simp: built_def)
  have "hd rest \<noteq> 39" if "breaks rest" "rest \<noteq> []" for rest using that by (auto simp: breaks_def)
  then show ?thesis
    using ps pieces_safe[OF ps(3)] render_tokens[OF ps(2)] assms(2) by (intro spelledI[of _ "concat (map piece_tokens ps)"]) auto
qed

lemma dot_steady: "steady [dot]"
  by (simp add: is_q_def is_n_def)

lemma spelled_dotted:
  assumes "spelled u q []" and "spelled u t vs"
  shows "spelled u (q @ dot # t) vs"
  using spelled_append[OF assms(1) spelled_word[OF dot_steady assms(2)]] by (simp add: breaks_def)

lemma spelled_predicate:
  assumes "scope_filter_predicate x q f dt = Some p" and "digits_kept x" and "spelled u q []"
  shows "spelled u p (quotations x [(f, dt)])"
proof -
  obtain c t where c: "identifier_token x (sf_column f) = Some c" "p = q @ dot # c @ t"
    "built x t (sought x (normal_filter x f) dt)" "spaced t"
    using filter_shape[OF assms(1,2)] unfolding condition_built_def by blast
  have t: "t \<noteq> []" "breaks t" using c(4) by (auto simp: spaced_def breaks_def)
  have "spelled u (c @ t) (quotations x [(f, dt)])"
    using spelled_append[OF spelled_token[OF c(1)] built_spelled[OF c(3) t(1)] t(2)] by simp
  then show ?thesis using spelled_dotted[OF assms(3)] c(2) by blast
qed

text \<open>Aliases and joined texts.\<close>

lemma decimal_digits: "\<forall>c\<in>set (decimal k). 48 \<le> c \<and> c \<le> 57"
proof (induction k rule: decimal.induct)
  case (1 k)
  then show ?case by (subst decimal.simps) auto
qed

lemma digits_steady: "\<forall>c\<in>set t. 48 \<le> c \<and> c \<le> 57 \<Longrightarrow> steady t"
  by (induction t) (auto simp: is_q_def is_n_def)

lemma alias_steady: "steady (alias_of k)"
  using digits_steady[OF decimal_digits[of k]] by (simp add: alias_of_def chars_def is_q_def is_n_def)

lemma spelled_alias: "spelled u (alias_of k) []"
  by (rule spelled_steady[OF alias_steady]) (simp add: alias_of_def chars_def)

lemma spelled_qualified: "qualified_target x a b = Some t \<Longrightarrow> spelled u t []"
  using spelled_dotted spelled_token by (auto simp: qualified_target_def split: option.splits)

lemma spelled_then:
  assumes "spelled u s us" and "steady w" and "hd w \<in> {32, 41}" and "w \<noteq> []" and "spelled u t vs"
  shows "spelled u (s @ w @ t) (us @ vs)"
  using spelled_append[OF assms(1) spelled_word[OF assms(2,5)]] assms(3,4) by (auto simp: breaks_def)

lemma spelled_close:
  assumes "spelled u s us" and "steady w" and "hd w \<in> {32, 41}" and "w \<noteq> []"
  shows "spelled u (s @ w) us"
  using spelled_append[OF assms(1) spelled_steady[OF assms(2,4)]] assms(3) by (auto simp: breaks_def)

lemma spelled_joined:
  assumes "list_all2 (spelled u) ps vss" and "ps \<noteq> []" and "steady sep" and "hd sep = 32" and "sep \<noteq> []"
  shows "spelled u (joined sep ps) (concat vss)"
  using assms(1,2)
proof (induction ps arbitrary: vss rule: induct_list012)
  case (3 p q ps)
  then obtain vs wss where v: "vss = vs # wss" "spelled u p vs" "list_all2 (spelled u) (q # ps) wss"
    by (auto simp: list_all2_Cons1)
  show ?case using spelled_then[OF v(2) assms(3) _ assms(5) "3.IH"(2)[OF v(3)]] assms(4) v(1) by simp
qed (auto simp: list_all2_Cons1)

lemma steady_words:
  "steady (chars '' AND '')" "steady (chars '' OR '')" "steady (chars ''('')" "steady (chars '')'')" "steady (chars '' = '')"
  "steady (chars ''EXISTS (SELECT 1 FROM '')" "steady (chars '' '')" "steady (chars '' WHERE '')" "steady (chars '' AND ('')"
  by code_simp+

lemma connective_steady: "steady (connective_text c) \<and> hd (connective_text c) = 32 \<and> connective_text c \<noteq> []"
proof (cases c)
  case AND
  then show ?thesis using steady_words(1) by (simp add: connective_text_def) (simp add: chars_def)
next
  case OR
  then show ?thesis using steady_words(2) by (simp add: connective_text_def) (simp add: chars_def)
qed

lemma spelled_group:
  assumes "list_all2 (spelled u) ps vss"
  shows "spelled u (chars ''('' @ joined (connective_text c) ps @ chars '')'') (concat vss)"
proof (cases "ps = []")
  case True
  then show ?thesis using assms spelled_word[OF steady_words(3) spelled_steady[OF steady_words(4)]] by (simp add: chars_def)
next
  case False
  have "spelled u (joined (connective_text c) ps) (concat vss)"
    using spelled_joined[OF assms False] connective_steady by blast
  from spelled_word[OF steady_words(3) spelled_close[OF this steady_words(4)]] show ?thesis by (simp add: chars_def)
qed

lemma spelled_key:
  assumes "key_text x target alias k = Some t" and "spelled u target []" and "spelled u alias []"
  shows "spelled u t []"
proof -
  obtain a b where ab: "identifier_token x (fst k) = Some a" "identifier_token x (snd k) = Some b"
    "t = (target @ dot # a) @ chars '' = '' @ alias @ dot # b"
    using assms(1) by (auto simp: key_text_def split: option.splits)
  from spelled_then[OF spelled_dotted[OF assms(2) spelled_token[OF ab(1)]] steady_words(5) _ _
      spelled_dotted[OF assms(3) spelled_token[OF ab(2)]]]
  show ?thesis unfolding ab(3) by (simp add: chars_def)
qed

lemma those_all: "those xs = Some ys \<Longrightarrow> list_all2 (\<lambda>x y. x = Some y) xs ys"
  by (induction xs arbitrary: ys) (auto split: option.splits)

lemma spelled_keys:
  assumes "those (map (key_text x target alias) ks) = Some ts" and "spelled u target []" and "spelled u alias []"
  shows "list_all2 (spelled u) ts (map (\<lambda>_. []) ts)"
proof -
  have "spelled u t []" if t: "t \<in> set ts" for t
  proof -
    obtain i where "i < length ts" "t = ts ! i" using t by (auto simp: in_set_conv_nth)
    then have "key_text x target alias (ks ! i) = Some t" using those_all[OF assms(1)] by (auto simp: list_all2_conv_all_nth)
    then show ?thesis using spelled_key assms(2,3) by blast
  qed
  then show ?thesis by (auto simp: list_all2_conv_all_nth)
qed

text \<open>The parts of a group are spelled, and their quotations are those of the conditions in them, in order.\<close>

definition parts_spelled :: "unicode \<Rightarrow> lexicon \<Rightarrow> points list \<Rightarrow> (scope_filter \<times> points) list \<Rightarrow> bool" where
  "parts_spelled u x ps fs \<longleftrightarrow> (\<exists>vss. list_all2 (spelled u) ps vss \<and> concat vss = quotations x fs)"

lemma parts_nil: "parts_spelled u x [] []"
  by (simp add: parts_spelled_def)

lemma parts_Cons:
  assumes "spelled u p (quotations x fs)" and "parts_spelled u x ps gs"
  shows "parts_spelled u x (p # ps) (fs @ gs)"
proof -
  obtain vss where "list_all2 (spelled u) ps vss" "concat vss = quotations x gs"
    using assms(2) by (auto simp: parts_spelled_def)
  then show ?thesis unfolding parts_spelled_def using assms(1) by (intro exI[of _ "quotations x fs # vss"]) simp
qed

lemma group_spelled:
  assumes "parts_spelled u x ps fs"
  shows "spelled u (chars ''('' @ joined (connective_text c) ps @ chars '')'') (quotations x fs)"
  using assms spelled_group by (auto simp: parts_spelled_def) metis

lemma condition_spelled:
  assumes "condition_text x q types f = Some p" and "digits_kept x" and "spelled u q []"
  shows "spelled u p (quotations x [(f, column_type types f)])"
proof -
  have "scope_filter_predicate x q f (column_type types f) = Some p"
    using assms(1) by (simp add: condition_text_def column_type_def Let_def split: if_splits)
  from spelled_predicate[OF this assms(2,3)] show ?thesis .
qed

lemma related_spelled:
  assumes "spelled u rt []" and "those (map (key_text x target (alias_of k)) ks) = Some ts" and "ks \<noteq> []" and "spelled u target []"
    and "spelled u (chars ''('' @ g) vs"
  shows "spelled u (chars ''EXISTS (SELECT 1 FROM '' @ rt @ chars '' '' @ alias_of k @ chars '' WHERE ''
      @ joined (chars '' AND '') ts @ chars '' AND '' @ chars ''('' @ g @ chars '')'') vs"
proof -
  have ts: "ts \<noteq> []" using those_all[OF assms(2)] assms(3) by auto
  have c: "concat (map (\<lambda>_. []) ts) = ([] :: points list)" by simp
  have sep: "hd (chars '' AND '') = 32 \<and> chars '' AND '' \<noteq> []" "hd (chars '' '') = 32 \<and> chars '' '' \<noteq> []"
    "hd (chars '' WHERE '') = 32 \<and> chars '' WHERE '' \<noteq> []" "hd (chars '')'') = 41 \<and> chars '')'' \<noteq> []" by (simp_all add: chars_def)
  have "spelled u (joined (chars '' AND '') ts) []"
    using spelled_joined[OF spelled_keys[OF assms(2,4) spelled_alias] ts steady_words(1)] sep(1) c by simp
  from spelled_then[OF this steady_words(1) _ _ spelled_close[OF assms(5) steady_words(4)]]
  have "spelled u (joined (chars '' AND '') ts @ chars '' AND '' @ (chars ''('' @ g) @ chars '')'') vs" using sep by simp
  from spelled_then[OF spelled_alias steady_words(8) _ _ this]
  have "spelled u (alias_of k @ chars '' WHERE '' @ joined (chars '' AND '') ts @ chars '' AND '' @ (chars ''('' @ g) @ chars '')'') vs"
    using sep by simp
  from spelled_word[OF steady_words(6) spelled_then[OF assms(1) steady_words(7) _ _ this]] show ?thesis using sep by simp
qed

lemma nodes_spelled:
  assumes "compile_nodes x relation_types target q types ns k = Some (ps, k')" and "digits_kept x"
    and "spelled u target []" and "spelled u q []" and "list_all fields_ok ns"
  shows "parts_spelled u x ps (typed_conditions relation_types types ns)"
  using assms(1,2,3,4,5)
proof (induction x relation_types target q types ns k arbitrary: ps k' rule: compile_nodes.induct)
  case (1 x relation_types target q types k)
  then show ?case by (simp add: parts_nil)
next
  case (2 x relation_types target q types f ns k)
  from "2.prems"(1) obtain p ps' where p: "condition_text x q types f = Some p"
    "compile_nodes x relation_types target q types ns k = Some (ps', k')" "ps = p # ps'"
    by (auto split: option.splits)
  have "parts_spelled u x ps' (typed_conditions relation_types types ns)" using "2.IH"[OF p(1,2) "2.prems"(2-4)] "2.prems"(5) by simp
  from parts_Cons[OF condition_spelled[OF p(1) "2.prems"(2,4)] this] p(3) show ?case by simp
next
  case (3 x relation_types target q types c ms ns k)
  from "3.prems"(1) obtain qs k1 ps' where m: "compile_nodes x relation_types target q types ms k = Some (qs, k1)"
    and n: "compile_nodes x relation_types target q types ns k1 = Some (ps', k')"
    and ps: "ps = (chars ''('' @ joined (connective_text c) qs @ chars '')'') # ps'"
    by (auto split: option.splits)
  have w: "parts_spelled u x qs (typed_conditions relation_types types ms)" using "3.IH"(1)[OF m "3.prems"(2-4)] "3.prems"(5) by simp
  have "parts_spelled u x ps' (typed_conditions relation_types types ns)" using "3.IH"(2)[OF m refl n "3.prems"(2-4)] "3.prems"(5) by simp
  from parts_Cons[OF group_spelled[OF w] this] ps show ?case by simp
next
  case (4 x relation_types target q types r c ms ns k)
  from "4.prems"(1) obtain rt ts ks qs k1 ps' where r: "qualified_target x (rl_owner r) (rl_object r) = Some rt" "rt \<noteq> target"
      "relation_types r = Some ts" "those (map (key_text x target (alias_of (Suc k))) (rl_keys r)) = Some ks"
    and m: "compile_nodes x relation_types target (alias_of (Suc k)) ts ms (Suc k) = Some (qs, k1)"
    and n: "compile_nodes x relation_types target q types ns k1 = Some (ps', k')"
    and ps: "ps = (chars ''EXISTS (SELECT 1 FROM '' @ rt @ chars '' '' @ alias_of (Suc k) @ chars '' WHERE ''
      @ joined (chars '' AND '') ks @ chars '' AND '' @ chars ''('' @ joined (connective_text c) qs @ chars '')'' @ chars '')'') # ps'"
    by (auto split: option.splits if_splits)
  have keys: "rl_keys r \<noteq> []" and ms: "list_all fields_ok ms" and rest: "list_all fields_ok ns" using "4.prems"(5) by auto
  have "parts_spelled u x qs (typed_conditions relation_types ts ms)" using "4.IH"(1)[OF r m "4.prems"(2,3) spelled_alias ms] .
  note w = group_spelled[OF this, of c]
  have e: "spelled u (chars ''EXISTS (SELECT 1 FROM '' @ rt @ chars '' '' @ alias_of (Suc k) @ chars '' WHERE ''
      @ joined (chars '' AND '') ks @ chars '' AND '' @ chars ''('' @ joined (connective_text c) qs @ chars '')'' @ chars '')'')
      (quotations x (typed_conditions relation_types ts ms))"
    using related_spelled[OF spelled_qualified[OF r(1)] r(4) keys "4.prems"(3) w] by simp
  have "parts_spelled u x ps' (typed_conditions relation_types types ns)" using "4.IH"(2)[OF r m refl n "4.prems"(2-4) rest] .
  from parts_Cons[OF e this] ps r(3) show ?case by simp
qed

text \<open>C32: The text of a whole tree keeps its values apart: it is read as single characters of code, names in quotation
  marks and quotations; whatever the values hold, none opens a comment, ends its quotation or changes the code around it; and
  the quotations are, in the order of the conditions of the tree, exactly those each condition looks for: its
  texts, its moments (with the mask they are read by, for a column of dates of the table the condition is on), its
  pattern and escape character, or the names of the login. A number is code and has no quotation.\<close>
theorem tree_values_stay_inside:
  assumes "compile_expression x relation_types owner name types c ns = Some p" and "digits_kept x"
    and "list_all fields_ok ns" and "breaks rest"
  shows "\<exists>ts. tokens u prev (p @ rest) = ts @ tokens u (last_of prev p) rest \<and> list_all safe_token ts
    \<and> value_tokens ts = map sql_literal (quotations x (typed_conditions relation_types types ns))
    \<and> map fst (typed_conditions relation_types types ns) = conditions_of ns"
proof -
  obtain target ps k where t: "qualified_target x owner name = Some target"
    "compile_nodes x relation_types target target types ns 0 = Some (ps, k)"
    "p = chars ''('' @ joined (connective_text c) ps @ chars '')''"
    using assms(1) by (auto simp: compile_expression_def split: option.splits)
  have "parts_spelled u x ps (typed_conditions relation_types types ns)"
    using nodes_spelled[OF t(2) assms(2) spelled_qualified[OF t(1)] spelled_qualified[OF t(1)] assms(3)] .
  from group_spelled[OF this, of c] show ?thesis
    using assms(4) typed_conditions_all unfolding t(3)[symmetric] spelled_def by blast
qed

section \<open>Examples\<close>

definition example_tree :: "node list" where
  "example_tree = [Condition hostile_filter, Group OR [Condition hostile_filter]]"

definition example_condition :: points where
  "example_condition = chars ''HR.T.DEPT = '' @ sql_literal ([120, 39] @ chars '' OR 1=1 --'')"

lemma hr_t: "qualified_target plain_lexicon (chars ''hr'') (chars ''t'') = Some (chars ''HR.T'')"
  by (simp add: qualified_target_def identifier_token_def plain_lexicon_def canonical_latin chars_def)

lemma example_compiled:
  "compile_expression plain_lexicon (\<lambda>_. None) (chars ''hr'') (chars ''t'') [] AND example_tree
   = Some (chars ''('' @ joined (chars '' AND '') [example_condition, chars ''('' @ example_condition @ chars '')''] @ chars '')'')"
proof -
  have t: "sf_value_type hostile_filter = chars ''TEXT''" by (simp add: hostile_filter_def)
  have "condition_text plain_lexicon (chars ''HR.T'') [] hostile_filter = Some example_condition"
    using hostile_predicate by (simp add: condition_text_def t example_condition_def)
  then show ?thesis by (simp add: compile_expression_def hr_t example_tree_def connective_text_def)
qed

theorem valid_trees_are_bounded_witness:
  "length (conditions_of example_tree) \<le> 20 \<and> related_of example_tree = relations_of example_tree"
proof -
  have "valid_expression AND example_tree" by code_simp
  from valid_trees_are_bounded[OF this] show ?thesis by blast
qed

theorem tree_values_stay_inside_witness:
  "\<exists>ts. list_all safe_token ts
     \<and> value_tokens ts = map sql_literal [[120, 39] @ chars '' OR 1=1 --'', [120, 39] @ chars '' OR 1=1 --'']"
proof -
  have k: "digits_kept plain_lexicon" by (simp add: digits_kept_def plain_lexicon_def)
  have f: "list_all fields_ok example_tree" by code_simp
  have q: "quotations plain_lexicon (typed_conditions (\<lambda>_. None) [] example_tree)
      = [[120, 39] @ chars '' OR 1=1 --'', [120, 39] @ chars '' OR 1=1 --'']"
    by code_simp
  have "breaks []" by (simp add: breaks_def)
  from tree_values_stay_inside[OF example_compiled k f this] show ?thesis unfolding q by blast
qed

end
