(* ===== verification/DataGrants.thy ===== *)
theory DataGrants
  imports ScopeTree "HOL-Library.List_Lexorder" "HOL-Library.Product_Lexorder"
begin

text \<open>The data grants of a role (\<open>nl2sql security/deepsec.py\<close>): the statements an apply sends to Oracle, in their
  order, and what they do to the object privileges and the mode of a table. The digest of a name and the columns
  of related tables are arguments; \<open>None\<close> stands for a refusal.\<close>

record entitlement =
  en_id :: points
  en_role :: points
  en_owner :: points
  en_object :: points
  en_columns :: "points list"
  en_mode :: points
  en_scope_column :: points
  en_scope_code :: points
  en_filters :: "scope_filter list"
  en_tree :: "(connective \<times> node list) option"
  en_grant :: points

record deepsec =
  ds_lexicon :: lexicon
  ds_owner :: points
  ds_digest :: "points \<Rightarrow> points"
  ds_filters_code :: "scope_filter list \<Rightarrow> points"

abbreviation ds_capitals :: "deepsec \<Rightarrow> points \<Rightarrow> points" where
  "ds_capitals d s \<equiv> capitals (ds_lexicon d) s"

abbreviation ds_tidy :: "deepsec \<Rightarrow> points \<Rightarrow> points" where
  "ds_tidy d s \<equiv> tidy (ds_lexicon d) s"

definition DB_ROLE :: points where "DB_ROLE = chars ''NL2SQL_APP_DB_ROLE''"
definition DATA_ROLE :: points where "DATA_ROLE = chars ''NL2SQL_APP_DATA_ROLE''"
definition GRANT_PREFIX :: points where "GRANT_PREFIX = chars ''NL2SQL_DG_''"
definition PREDICATE_MAX :: nat where "PREDICATE_MAX = 4000"

section \<open>Names\<close>

definition strip_marks :: "points \<Rightarrow> points" where
  "strip_marks s = rev (dropWhile (\<lambda>c. c = 34) (rev (dropWhile (\<lambda>c. c = 34) s)))"

definition strict_identifier :: "deepsec \<Rightarrow> points \<Rightarrow> points option" where
  "strict_identifier d s =
     (let normalized = ds_capitals d (strip_marks (ds_tidy d s))
      in if simple_identifier normalized then Some normalized else None)"

definition target_of :: "deepsec \<Rightarrow> entitlement \<Rightarrow> points option" where
  "target_of d e = qualified_target (ds_lexicon d) (en_owner e) (en_object e)"

definition data_grant_name :: "deepsec \<Rightarrow> entitlement \<Rightarrow> points" where
  "data_grant_name d e =
     GRANT_PREFIX @ ds_digest d (joined (chars ''|'') [en_id e, en_role e, en_owner e, en_object e, en_scope_code e])"

definition grant_name :: "deepsec \<Rightarrow> entitlement \<Rightarrow> points" where
  "grant_name d e = (if en_grant e = [] then data_grant_name d e else en_grant e)"

definition is_real :: "entitlement \<Rightarrow> bool" where
  "is_real e = (en_owner e \<noteq> [] \<and> en_object e \<noteq> [])"

definition is_complete :: "entitlement \<Rightarrow> bool" where
  "is_complete e =
     (is_real e \<and> en_columns e \<noteq> [] \<and>
      (if en_mode e = chars ''EXPRESSION'' then en_tree e \<noteq> None
       else if en_mode e = chars ''FILTERS'' then en_filters e \<noteq> []
       else \<not> (en_mode e = chars ''COLUMN_EQUALS'' \<and> (en_scope_column e = [] \<or> en_scope_code e = []))))"

section \<open>The statements of a data grant\<close>

datatype ddl =
    EnableOnly points
  | DropGrant points
  | CreateGrant points "points list" points points
  | GrantSelect points
  | RevokeSelect points
  | DisableOnly points
  | DropTable points
  | DropRole
  | Housekeeping points

text \<open>The condition under which a row is seen: the user of the session holds the role, the entitlement is applied,
  and the scope.\<close>

definition new_line :: "string \<Rightarrow> points" where
  "new_line s = 10 # chars s"

definition role_condition :: "points \<Rightarrow> entitlement \<Rightarrow> points" where
  "role_condition owner e =
     chars ''EXISTS ('' @ new_line ''  SELECT 1''
     @ new_line ''    FROM '' @ owner @ chars ''.PLATFORM_USER_ROLES ur''
     @ new_line ''    JOIN '' @ owner @ chars ''.PLATFORM_ROLES r ON r.ROLE_ID = ur.ROLE_ID''
     @ new_line ''    JOIN '' @ owner @ chars ''.NL2SQL_APP_DATA_ENTITLEMENTS e ON e.ROLE_ID = r.ROLE_ID''
     @ new_line ''   WHERE ur.USER_UUID = ORA_END_USER_CONTEXT.CLIENT_IDENTIFIER''
     @ new_line ''     AND r.ARCHIVED = 0''
     @ new_line ''     AND e.ENTITLEMENT_ID = '' @ sql_literal (en_id e)
     @ new_line ''     AND e.ROLE_ID = '' @ sql_literal (en_role e)
     @ new_line ''     AND e.CAPABILITY = '' @ sql_literal (chars ''SELECT'')
     @ new_line ''     AND e.APPLY_STATUS = '' @ sql_literal (chars ''APPLIED'')"

definition and_line :: points where
  "and_line = new_line ''             AND ''"

definition types_by_token :: "deepsec \<Rightarrow> (points \<times> points) list \<Rightarrow> (points \<times> points) list option" where
  "types_by_token d types =
     those (map (\<lambda>(c, t). map_option (\<lambda>c. (c, t)) (identifier_token (ds_lexicon d) c)) types)"

definition filter_text :: "deepsec \<Rightarrow> points \<Rightarrow> (points \<times> points) list \<Rightarrow> scope_filter \<Rightarrow> points option" where
  "filter_text d target types f =
     (case identifier_token (ds_lexicon d) (sf_column f) of
        None \<Rightarrow> None
      | Some c \<Rightarrow>
          scope_filter_predicate (ds_lexicon d) target f
            (case map_of (rev types) c of Some t \<Rightarrow> t | None \<Rightarrow> sf_value_type f))"

definition scope_text ::
    "deepsec \<Rightarrow> (relation \<Rightarrow> (points \<times> points) list option) \<Rightarrow> points \<Rightarrow> (points \<times> points) list \<Rightarrow> entitlement \<Rightarrow> points option" where
  "scope_text d relation_types target types e =
     (let mode = ds_capitals d (ds_tidy d (en_mode e)); mode = (if mode = [] then chars ''ALL'' else mode)
      in if mode = chars ''COLUMN_EQUALS'' then
           map_option (\<lambda>c. and_line @ target @ dot # c @ chars '' = e.SCOPE_CODE'') (identifier_token (ds_lexicon d) (en_scope_column e))
         else if mode = chars ''FILTERS'' then
           (case types_by_token d types of
              None \<Rightarrow> None
            | Some types \<Rightarrow> map_option (\<lambda>ps. concat (map (\<lambda>p. and_line @ p) ps)) (those (map (filter_text d target types) (en_filters e))))
         else if mode = chars ''EXPRESSION'' then
           (case en_tree e of
              None \<Rightarrow> None
            | Some (c, ns) \<Rightarrow>
                map_option (\<lambda>p. and_line @ p)
                  (compile_expression (ds_lexicon d) relation_types (en_owner e) (en_object e) types c ns))
         else if mode = chars ''ALL'' then Some []
         else None)"

definition build_statements ::
    "deepsec \<Rightarrow> (relation \<Rightarrow> (points \<times> points) list option) \<Rightarrow> (points \<times> points) list \<Rightarrow> entitlement \<Rightarrow> ddl list option" where
  "build_statements d relation_types types e =
     (case (strict_identifier d (ds_owner d), target_of d e, strict_identifier d (grant_name d e),
            those (map (identifier_token (ds_lexicon d)) (en_columns e))) of
        (Some owner, Some target, Some name, Some columns) \<Rightarrow>
          if en_columns e = [] then None
          else case scope_text d relation_types target types e of
            None \<Rightarrow> None
          | Some scope \<Rightarrow>
              let predicate = role_condition owner e @ scope @ new_line ''        )''
              in if length (ds_tidy d predicate) > PREDICATE_MAX then None
                 else Some [EnableOnly target, DropGrant (owner @ dot # name),
                   CreateGrant (owner @ dot # name) columns target (ds_tidy d predicate), GrantSelect target]
      | _ \<Rightarrow> None)"

definition ddl_text :: "ddl \<Rightarrow> points" where
  "ddl_text s =
     (case s of
        EnableOnly t \<Rightarrow> chars ''SET USE DATA GRANTS ONLY ON '' @ t @ chars '' ENABLED''
      | DropGrant g \<Rightarrow> chars ''DROP DATA GRANT IF EXISTS '' @ g
      | CreateGrant g columns t p \<Rightarrow>
          chars ''CREATE OR REPLACE DATA GRANT '' @ g
          @ new_line ''          AS SELECT ('' @ joined (chars '', '') columns @ chars '')''
          @ new_line ''          ON '' @ t
          @ new_line ''          WHERE '' @ p
          @ new_line ''          TO '' @ DATA_ROLE
      | GrantSelect t \<Rightarrow> chars ''GRANT SELECT ON '' @ t @ chars '' TO '' @ DB_ROLE
      | RevokeSelect t \<Rightarrow> chars ''REVOKE SELECT ON '' @ t @ chars '' FROM '' @ DB_ROLE
      | DisableOnly t \<Rightarrow> chars ''SET USE DATA GRANTS ONLY ON '' @ t @ chars '' DISABLED''
      | DropTable t \<Rightarrow> chars ''DROP TABLE '' @ t @ chars '' CASCADE CONSTRAINTS PURGE''
      | DropRole \<Rightarrow> chars ''DROP ROLE '' @ DB_ROLE
      | Housekeeping s \<Rightarrow> s)"

section \<open>Cleaning up\<close>

text \<open>The grants of the role that are not wanted any more, sorted; a target no role wants is given back: its SELECT
  is revoked, its grants dropped and its mode disabled, in this order over all targets.\<close>

definition cleanup_key :: "deepsec \<Rightarrow> entitlement \<Rightarrow> points \<times> points \<times> points" where
  "cleanup_key d e = (ds_capitals d (en_owner e), ds_capitals d (en_object e), grant_name d e)"

definition grant_names :: "deepsec \<Rightarrow> entitlement list \<Rightarrow> points list option" where
  "grant_names d es = those (map (\<lambda>e. strict_identifier d (grant_name d e)) es)"

definition cleanup_statements ::
    "deepsec \<Rightarrow> entitlement list \<Rightarrow> entitlement list \<Rightarrow> entitlement list \<Rightarrow> ddl list option" where
  "cleanup_statements d current desired others =
     (let present = sort_key (cleanup_key d) (filter is_real current)
      in case (strict_identifier d (ds_owner d), grant_names d (filter is_real desired),
               those (map (target_of d) (filter is_real (others @ desired))), grant_names d present) of
           (Some owner, Some wanted, Some kept, Some names) \<Rightarrow>
             let gone = filter (\<lambda>(g, e). g \<notin> set wanted) (zip names present)
             in (case those (map (\<lambda>(g, e). target_of d e) gone) of
                   None \<Rightarrow> None
                 | Some targets \<Rightarrow>
                     let targets = dedup (filter (\<lambda>t. t \<notin> set kept) targets)
                     in Some (map RevokeSelect targets @ map (\<lambda>g. DropGrant (owner @ dot # g)) (dedup (map fst gone))
                          @ map DisableOnly targets))
         | _ \<Rightarrow> None)"

section \<open>Taking everything back\<close>

definition probe_table :: "points \<Rightarrow> points" where
  "probe_table owner = owner @ chars ''.NL2SQL_DEEPSEC_PROBE''"

definition reset_statements :: "deepsec \<Rightarrow> points \<Rightarrow> entitlement list \<Rightarrow> ddl list option" where
  "reset_statements d data_user es =
     (case (strict_identifier d (ds_owner d), strict_identifier d data_user, those (map (target_of d) (filter is_real es)),
            grant_names d (filter is_real es)) of
        (Some owner, Some user, Some targets, Some names) \<Rightarrow>
          Some (map RevokeSelect (dedup targets) @ map DisableOnly (dedup targets)
            @ map (\<lambda>g. DropGrant (owner @ dot # g)) (dedup names)
            @ [DisableOnly (probe_table owner), DropGrant (owner @ chars ''.NL2SQL_DEEPSEC_PROBE_SENSITIVE''),
               DropGrant (owner @ chars ''.NL2SQL_DEEPSEC_PROBE_ROWS''), DropTable (probe_table owner),
               Housekeeping (chars ''DROP CONTEXT NL2SQL_APP_USER_CTX''),
               Housekeeping (chars ''DROP PACKAGE '' @ owner @ chars ''.NL2SQL_DEEPSEC_CTX_PKG''),
               Housekeeping (chars ''DROP END USER IF EXISTS '' @ user),
               Housekeeping (chars ''DROP DATA ROLE IF EXISTS '' @ DATA_ROLE), DropRole])
      | _ \<Rightarrow> None)"

section \<open>The plan of a role\<close>

text \<open>A wanted entitlement with its names in canonical form and the name of its grant; \<open>validate\<close> checks it against
  the catalog of Oracle and gives the types of the columns.\<close>

definition prepared :: "deepsec \<Rightarrow> points \<Rightarrow> entitlement \<Rightarrow> entitlement option" where
  "prepared d role e =
     (case (identifier_token (ds_lexicon d) (en_owner e), identifier_token (ds_lexicon d) (en_object e)) of
        (Some a, Some b) \<Rightarrow>
          let e = e\<lparr>en_role := role, en_owner := a, en_object := b,
                en_scope_code := if en_mode e = chars ''ALL'' then chars ''*''
                  else if en_mode e = chars ''FILTERS'' then ds_filters_code d (en_filters e) else en_scope_code e\<rparr>
          in Some (e\<lparr>en_grant := grant_name d e\<rparr>)
      | _ \<Rightarrow> None)"

definition entry_statements ::
    "deepsec \<Rightarrow> (relation \<Rightarrow> (points \<times> points) list option) \<Rightarrow> (entitlement \<Rightarrow> (points \<times> points) list option) \<Rightarrow> entitlement
     \<Rightarrow> ddl list option" where
  "entry_statements d relation_types validate e = Option.bind (validate e) (\<lambda>types. build_statements d relation_types types e)"

definition sync_plan ::
    "deepsec \<Rightarrow> (relation \<Rightarrow> (points \<times> points) list option) \<Rightarrow> (entitlement \<Rightarrow> (points \<times> points) list option) \<Rightarrow> points
     \<Rightarrow> entitlement list \<Rightarrow> entitlement list \<Rightarrow> entitlement list \<Rightarrow> (entitlement list \<times> ddl list) option" where
  "sync_plan d relation_types validate role current desired others =
     (case those (map (prepared d role) desired) of
        None \<Rightarrow> None
      | Some es \<Rightarrow>
          case (those (map (entry_statements d relation_types validate) es), cleanup_statements d current es others) of
            (Some entries, Some cleanup) \<Rightarrow> Some (es, cleanup @ concat entries)
          | _ \<Rightarrow> None)"

section \<open>What the statements do\<close>

text \<open>\<open>granted_by_us\<close>: the object privilege this connection has granted to the role of the users of data;
  \<open>granted_by_others\<close>: the same from other grantors, which it cannot revoke.\<close>

record grant_state =
  only_mode :: "points \<Rightarrow> bool"
  granted_by_us :: "points \<Rightarrow> bool"
  granted_by_others :: "points \<Rightarrow> bool"
  grants_of :: "points \<Rightarrow> (points list \<times> points \<times> points) option"
  object_there :: "points \<Rightarrow> bool"

definition select_granted :: "grant_state \<Rightarrow> points \<Rightarrow> bool" where
  "select_granted g t = (granted_by_us g t \<or> granted_by_others g t)"

text \<open>The state after a statement, and whether it succeeds. The two blocks look into the dictionary first; a revocation
  that leaves a privilege raises.\<close>

fun perform :: "ddl \<Rightarrow> grant_state \<Rightarrow> grant_state \<times> bool" where
  "perform (EnableOnly t) g = (g\<lparr>only_mode := (only_mode g)(t := True)\<rparr>, True)"
| "perform (DropGrant n) g = (g\<lparr>grants_of := (grants_of g)(n := None)\<rparr>, True)"
| "perform (CreateGrant n columns t p) g = (g\<lparr>grants_of := (grants_of g)(n := Some (columns, t, p))\<rparr>, True)"
| "perform (GrantSelect t) g = (g\<lparr>granted_by_us := (granted_by_us g)(t := True)\<rparr>, True)"
| "perform (RevokeSelect t) g =
     (if select_granted g t then
        let g' = g\<lparr>granted_by_us := (granted_by_us g)(t := False)\<rparr> in (g', \<not> select_granted g' t)
      else (g, True))"
| "perform (DisableOnly t) g =
     (if object_there g t then (g\<lparr>only_mode := (only_mode g)(t := False)\<rparr>, True) else (g, True))"
| "perform (DropTable t) g =
     (if object_there g t then
        (g\<lparr>only_mode := (only_mode g)(t := False), granted_by_us := (granted_by_us g)(t := False),
           granted_by_others := (granted_by_others g)(t := False), object_there := (object_there g)(t := False)\<rparr>, True)
      else (g, True))"
| "perform DropRole g = (g\<lparr>granted_by_us := (\<lambda>_. False), granted_by_others := (\<lambda>_. False)\<rparr>, True)"
| "perform (Housekeeping s) g = (g, True)"

text \<open>What becomes of a statement beside its own result: \<open>Rejected\<close>, Oracle refuses it and nothing happens; \<open>Lost\<close>, it
  is done but its answer does not arrive.\<close>

datatype reply = Done | Rejected | Lost

fun execute :: "reply list \<Rightarrow> ddl list \<Rightarrow> grant_state \<Rightarrow> grant_state \<times> bool" where
  "execute fates [] g = (g, True)"
| "execute [] (s # ss) g = (g, False)"
| "execute (f # fates) (s # ss) g =
     (case f of
        Rejected \<Rightarrow> (g, False)
      | Lost \<Rightarrow> (fst (perform s g), False)
      | Done \<Rightarrow> (case perform s g of (g, ok) \<Rightarrow> if ok then execute fates ss g else (g, False)))"

section \<open>Nothing is exposed\<close>

text \<open>A table is exposed when its users of data hold SELECT while the mode is off: they read every row.\<close>

definition exposed :: "grant_state \<Rightarrow> points \<Rightarrow> bool" where
  "exposed g t \<longleftrightarrow> select_granted g t \<and> \<not> only_mode g t"

text \<open>The table of an old probe is left out: the reset disables its mode without a revocation, to drop it next.\<close>

text \<open>Statements in a safe order: the mode is disabled only for what was revoked before (\<open>R\<close>), SELECT granted only
  where the mode was enabled before (\<open>E\<close>).\<close>

fun safe_order :: "points set \<Rightarrow> points set \<Rightarrow> points set \<Rightarrow> ddl list \<Rightarrow> bool" where
  "safe_order P R E [] = True"
| "safe_order P R E (RevokeSelect t # ss) = safe_order P (insert t R) E ss"
| "safe_order P R E (DisableOnly t # ss) = (t \<in> R \<union> P \<and> safe_order P R (E - {t}) ss)"
| "safe_order P R E (EnableOnly t # ss) = safe_order P R (insert t E) ss"
| "safe_order P R E (GrantSelect t # ss) = (t \<in> E \<and> safe_order P (R - {t}) E ss)"
| "safe_order P R E (DropTable t # ss) = safe_order P R (E - {t}) ss"
| "safe_order P R E (s # ss) = safe_order P R E ss"

definition holds :: "points set \<Rightarrow> points set \<Rightarrow> points set \<Rightarrow> grant_state \<Rightarrow> bool" where
  "holds P R E g \<longleftrightarrow> (\<forall>t\<in>R. \<not> select_granted g t) \<and> (\<forall>t\<in>E. only_mode g t) \<and> (\<forall>t. t \<notin> P \<longrightarrow> \<not> exposed g t)"

lemma perform_holds:
  assumes "safe_order P R E (s # ss)" and "holds P R E g" and "perform s g = (g', ok)"
  shows "(\<forall>t. t \<notin> P \<longrightarrow> \<not> exposed g' t) \<and> (ok \<longrightarrow> (\<exists>R' E'. holds P R' E' g' \<and> safe_order P R' E' ss))"
proof (cases s)
  case (EnableOnly t)
  then have "holds P R (insert t E) g'" "ok" using assms(2,3)
    by (auto simp: holds_def exposed_def select_granted_def split: if_split_asm)
  then have "(\<forall>t. t \<notin> P \<longrightarrow> \<not> exposed g' t) \<and> holds P R (insert t E) g' \<and> safe_order P R (insert t E) ss"
    using EnableOnly assms(1) by (simp add: holds_def)
  then show ?thesis by blast
next
  case (DropGrant n)
  then have "holds P R E g'" using assms(2,3) by (auto simp: holds_def exposed_def select_granted_def)
  then show ?thesis using DropGrant assms(1) by (auto simp: holds_def)
next
  case (CreateGrant n c t p)
  then have "holds P R E g'" using assms(2,3) by (auto simp: holds_def exposed_def select_granted_def)
  then show ?thesis using CreateGrant assms(1) by (auto simp: holds_def)
next
  case (GrantSelect t)
  then have "holds P (R - {t}) E g'" using assms
    by (auto simp: holds_def exposed_def select_granted_def split: if_split_asm)
  then show ?thesis using GrantSelect assms(1) by (auto simp: holds_def)
next
  case (RevokeSelect t)
  have "holds P R E g'" using RevokeSelect assms(2,3)
    by (auto simp: holds_def exposed_def select_granted_def Let_def split: if_splits)
  moreover have "ok \<Longrightarrow> \<not> select_granted g' t" using RevokeSelect assms(3) by (auto simp: Let_def split: if_splits)
  ultimately have "(\<forall>t. t \<notin> P \<longrightarrow> \<not> exposed g' t) \<and> (ok \<longrightarrow> holds P (insert t R) E g' \<and> safe_order P (insert t R) E ss)"
    using RevokeSelect assms(1) by (auto simp: holds_def)
  then show ?thesis by blast
next
  case (DisableOnly t)
  then have "holds P R (E - {t}) g'" using assms
    by (auto simp: holds_def exposed_def select_granted_def split: if_splits)
  then show ?thesis using DisableOnly assms(1) by (auto simp: holds_def)
next
  case (DropTable t)
  then have "holds P R (E - {t}) g'" using assms
    by (auto simp: holds_def exposed_def select_granted_def split: if_splits)
  then show ?thesis using DropTable assms(1) by (auto simp: holds_def)
next
  case DropRole
  then have "holds P R E g'" using assms by (auto simp: holds_def exposed_def select_granted_def)
  then show ?thesis using DropRole assms(1) by (auto simp: holds_def)
next
  case (Housekeeping x)
  then have "holds P R E g'" using assms by (auto simp: holds_def)
  then show ?thesis using Housekeeping assms(1) by (auto simp: holds_def)
qed

lemma execute_never_exposes:
  "safe_order P R E ss \<Longrightarrow> holds P R E g \<Longrightarrow> t \<notin> P \<Longrightarrow> \<not> exposed (fst (execute fates ss g)) t"
proof (induction fates ss g arbitrary: R E rule: execute.induct)
  case (3 f fates s ss g)
  obtain g' ok where p: "perform s g = (g', ok)" by fastforce
  from perform_holds[OF "3.prems"(1,2) p] 3 p show ?case
    by (cases f) (auto simp: holds_def split: prod.splits)
qed (auto simp: holds_def)

lemma safe_order_append_revokes: "safe_order P (R \<union> set ts) E ss \<Longrightarrow> safe_order P R E (map RevokeSelect ts @ ss)"
  by (induction ts arbitrary: R) auto

lemma safe_order_append_drops: "safe_order P R E ss \<Longrightarrow> safe_order P R E (map DropGrant ns @ ss)"
  by (induction ns) auto

lemma safe_order_append_disables: "set ts \<subseteq> R \<union> P \<Longrightarrow> safe_order P R (E - set ts) ss \<Longrightarrow> safe_order P R E (map DisableOnly ts @ ss)"
proof (induction ts arbitrary: E)
  case (Cons a ts)
  have "E - set (a # ts) = E - {a} - set ts" by auto
  then show ?case using Cons.IH[of "E - {a}"] Cons.prems by simp
qed simp

lemma build_shape:
  assumes "build_statements d rt types e = Some ss"
  shows "\<exists>t owner name c p. target_of d e = Some t \<and> strict_identifier d (ds_owner d) = Some owner
    \<and> strict_identifier d (grant_name d e) = Some name
    \<and> ss = [EnableOnly t, DropGrant (owner @ dot # name), CreateGrant (owner @ dot # name) c t p, GrantSelect t]"
proof -
  obtain owner t name columns where n: "strict_identifier d (ds_owner d) = Some owner" "target_of d e = Some t"
    "strict_identifier d (grant_name d e) = Some name" "those (map (identifier_token (ds_lexicon d)) (en_columns e)) = Some columns"
    using assms by (auto simp: build_statements_def split: option.splits)
  then show ?thesis using assms
    by (auto simp: build_statements_def Let_def split: if_split_asm option.split_asm)
qed

lemma safe_order_entries:
  assumes "list_all (\<lambda>ss. \<exists>t n c p. ss = [EnableOnly t, DropGrant n, CreateGrant n c t p, GrantSelect t]) entries"
  shows "safe_order P R E (concat entries)"
  using assms by (induction entries arbitrary: R E) auto

lemma cleanup_shape:
  assumes "cleanup_statements d current desired others = Some ss"
  shows "\<exists>ts ns. ss = map RevokeSelect ts @ map DropGrant ns @ map DisableOnly ts"
proof -
  obtain owner gs ts where "ss = map RevokeSelect ts @ map (\<lambda>g. DropGrant (owner @ dot # g)) gs @ map DisableOnly ts"
    using assms unfolding cleanup_statements_def Let_def by (auto split: option.splits)
  then show ?thesis by (intro exI[of _ ts] exI[of _ "map (\<lambda>g. owner @ dot # g) gs"]) simp
qed

lemma plan_safe_order:
  assumes "sync_plan d rt validate role current desired others = Some (es, ss)"
  shows "safe_order {} {} {} ss"
proof -
  obtain entries cleanup where p: "those (map (entry_statements d rt validate) es) = Some entries"
    "cleanup_statements d current es others = Some cleanup" "ss = cleanup @ concat entries"
    using assms by (auto simp: sync_plan_def split: option.splits)
  have "list_all (\<lambda>ss. \<exists>t n c p. ss = [EnableOnly t, DropGrant n, CreateGrant n c t p, GrantSelect t]) entries"
    using those_all[OF p(1)] build_shape unfolding list_all_length list_all2_conv_all_nth entry_statements_def
    by (fastforce simp: bind_eq_Some_conv)
  then have e: "safe_order P R E (concat entries)" for P R E by (rule safe_order_entries)
  obtain ts ns where "cleanup = map RevokeSelect ts @ map DropGrant ns @ map DisableOnly ts" using cleanup_shape[OF p(2)] by blast
  then show ?thesis using e p(3)
    by (simp add: safe_order_append_revokes safe_order_append_drops safe_order_append_disables)
qed

lemma reset_safe_order:
  assumes "reset_statements d user es = Some ss" and "strict_identifier d (ds_owner d) = Some owner"
  shows "safe_order {probe_table owner} {} {} ss"
proof -
  obtain ts ns rest where s: "ss = map RevokeSelect ts @ map DisableOnly ts @ map DropGrant ns @ DisableOnly (probe_table owner) # rest"
    "\<And>R E. safe_order {probe_table owner} R E rest"
    using assms unfolding reset_statements_def
    by (force split: option.splits simp: comp_def intro: that[of "dedup _" "map (\<lambda>g. owner @ dot # g) (dedup _)"])
  show ?thesis unfolding s(1)
    by (intro safe_order_append_revokes safe_order_append_disables safe_order_append_drops) (auto simp: s(2))
qed

lemma safe_order_mono: "safe_order P R E ss \<Longrightarrow> P \<subseteq> Q \<Longrightarrow> safe_order Q R E ss"
  by (induction P R E ss rule: safe_order.induct) auto

lemma no_new_select:
  assumes "list_all (\<lambda>s. \<forall>t. s \<noteq> GrantSelect t) ss"
  shows "select_granted (fst (execute fates ss g)) t \<Longrightarrow> select_granted g t"
  using assms
proof (induction fates ss g rule: execute.induct)
  case (3 f fates s ss g)
  obtain g' ok where p: "perform s g = (g', ok)" by fastforce
  have "select_granted g' t \<Longrightarrow> select_granted g t"
    using p "3.prems"(2) by (cases s) (auto simp: select_granted_def Let_def split: if_splits)
  then show ?case using 3 p by (cases f) (auto split: if_splits)
qed auto

lemma reset_grants_nothing:
  assumes "reset_statements d user es = Some ss"
  shows "list_all (\<lambda>s. \<forall>t. s \<noteq> GrantSelect t) ss \<and> ss \<noteq> [] \<and> last ss = DropRole"
  using assms by (auto simp: reset_statements_def list_all_iff split: option.splits)

lemma role_dropped:
  "execute fates ss g = (g', True) \<Longrightarrow> ss \<noteq> [] \<Longrightarrow> last ss = DropRole \<Longrightarrow> \<not> select_granted g' t"
proof (induction fates ss g rule: execute.induct)
  case (3 f fates s ss g)
  obtain h ok where p: "perform s g = (h, ok)" by fastforce
  then show ?case
  proof (cases ss)
    case Nil
    then show ?thesis using 3 p by (auto simp: select_granted_def split: reply.splits if_splits)
  next
    case Cons
    then show ?thesis using 3 p by (auto split: reply.splits if_splits)
  qed
qed auto

text \<open>C30: No apply opens a table: a table that is exposed after any number of the statements of a plan, whatever becomes
  of them, refused by Oracle, cut off by a lost connection or done without an answer, and whoever else has granted
  SELECT, was exposed before. The same holds of a reset but for one table, that of its old probe, which it opens
  just before it drops it and only if SELECT on it was granted before (its mode is switched off without a revocation);
  and a reset that goes through leaves no table exposed at all.\<close>
theorem applying_exposes_nothing:
  assumes "sync_plan d relation_types validate role current desired others = Some (es, ss) \<and> opened = {}
     \<or> reset_statements d user current = Some ss \<and> opened = {probe_table owner} \<and> strict_identifier d (ds_owner d) = Some owner"
  shows "(exposed (fst (execute fates ss g)) t \<longrightarrow> exposed g t \<or> t \<in> opened \<and> select_granted g t)
    \<and> (opened \<noteq> {} \<and> snd (execute fates ss g) \<longrightarrow> \<not> exposed (fst (execute fates ss g)) t)"
proof -
  let ?P = "opened \<union> {t. exposed g t}"
  have "safe_order opened {} {} ss" using assms plan_safe_order reset_safe_order by blast
  then have "safe_order ?P {} {} ss" by (rule safe_order_mono) simp
  moreover have "holds ?P {} {} g" by (simp add: holds_def)
  ultimately have "exposed (fst (execute fates ss g)) t \<Longrightarrow> t \<in> ?P" using execute_never_exposes by blast
  moreover have "opened \<noteq> {} \<Longrightarrow> reset_statements d user current = Some ss" using assms by blast
  ultimately show ?thesis
    using reset_grants_nothing[of d user current ss] no_new_select[of ss fates g t] role_dropped[of fates ss g _ t]
    by (auto simp: exposed_def prod_eq_iff)
qed

section \<open>What an applied plan has done\<close>

definition entry_ddl :: "points \<times> points \<times> points list \<times> points \<Rightarrow> ddl list" where
  "entry_ddl i = (case i of (t, n, c, p) \<Rightarrow> [EnableOnly t, DropGrant n, CreateGrant n c t p, GrantSelect t])"

definition entry_name :: "points \<times> points \<times> points list \<times> points \<Rightarrow> points" where
  "entry_name i = fst (snd i)"

definition perform_all :: "ddl list \<Rightarrow> grant_state \<Rightarrow> grant_state" where
  "perform_all ss g = foldl (\<lambda>g s. fst (perform s g)) g ss"

lemma perform_all_simps [simp]: "perform_all [] g = g" "perform_all (s # ss) g = perform_all ss (fst (perform s g))"
  "perform_all (ss @ ts) g = perform_all ts (perform_all ss g)"
  by (simp_all add: perform_all_def)

lemma execute_all: "execute fates ss g = (g', True) \<Longrightarrow> g' = perform_all ss g"
  by (induction fates ss g rule: execute.induct) (auto split: reply.splits prod.splits if_splits)

lemma execute_append:
  "execute fates (ss @ ts) g = (g', True) \<Longrightarrow> execute (take (length ss) fates) ss g = (perform_all ss g, True)"
proof (induction fates ss g rule: execute.induct)
  case (3 f fates s ss g)
  then show ?case by (auto split: reply.splits prod.splits if_splits)
qed auto

text \<open>The entries leave every other name and target alone, and the modes and privileges on.\<close>

lemma entries_frame:
  "(n \<notin> entry_name ` set is \<longrightarrow> grants_of (perform_all (concat (map entry_ddl is)) g) n = grants_of g n)
   \<and> (t \<notin> fst ` set is \<longrightarrow> select_granted (perform_all (concat (map entry_ddl is)) g) t = select_granted g t
        \<and> only_mode (perform_all (concat (map entry_ddl is)) g) t = only_mode g t)
   \<and> (only_mode g t \<longrightarrow> only_mode (perform_all (concat (map entry_ddl is)) g) t)
   \<and> (select_granted g t \<longrightarrow> select_granted (perform_all (concat (map entry_ddl is)) g) t)"
proof (induction "is" arbitrary: g)
  case (Cons i "is")
  obtain t' n' c p where i: "i = (t', n', c, p)" by (cases i)
  show ?case using Cons.IH[of "perform_all (entry_ddl i) g"] i
    by (auto simp: entry_ddl_def entry_name_def select_granted_def)
qed simp

lemma entries_effect:
  assumes "distinct (map entry_name is)" and "(t, n, c, p) \<in> set is"
  shows "only_mode (perform_all (concat (map entry_ddl is)) g) t \<and> select_granted (perform_all (concat (map entry_ddl is)) g) t
    \<and> grants_of (perform_all (concat (map entry_ddl is)) g) n = Some (c, t, p)"
  using assms
proof (induction "is" arbitrary: g)
  case (Cons i "is")
  show ?case
  proof (cases "i = (t, n, c, p)")
    case True
    define g' where "g' = perform_all (entry_ddl i) g"
    have "only_mode g' t" "select_granted g' t" "grants_of g' n = Some (c, t, p)"
      by (simp_all add: g'_def True entry_ddl_def select_granted_def)
    moreover have "n \<notin> entry_name ` set is" using Cons.prems(1) True by (auto simp: entry_name_def)
    moreover have "perform_all (concat (map entry_ddl (i # is))) g = perform_all (concat (map entry_ddl is)) g'"
      by (simp add: g'_def)
    ultimately show ?thesis using entries_frame[of n "is" g' t] by (simp del: list.map concat.simps)
  next
    case False
    then show ?thesis using Cons.IH[of "perform_all (entry_ddl i) g"] Cons.prems by auto
  qed
qed simp

lemma revokes_effect:
  "execute fates (map RevokeSelect ts) g = (g', True) \<Longrightarrow> t \<in> set ts \<Longrightarrow> \<not> select_granted g' t"
proof (induction ts arbitrary: fates g)
  case (Cons a ts)
  obtain f fs where f: "fates = f # fs" using Cons.prems(1) by (cases fates) auto
  obtain g1 where p: "perform (RevokeSelect a) g = (g1, True)" "execute fs (map RevokeSelect ts) g1 = (g', True)"
    using Cons.prems(1) f by (auto split: reply.splits prod.splits if_splits)
  have frame: "\<not> select_granted h a \<Longrightarrow> \<not> select_granted (perform_all (map RevokeSelect us) h) a" for us h
    by (induction us arbitrary: h) (auto simp: Let_def select_granted_def)
  show ?case
  proof (cases "t \<in> set ts")
    case True
    then show ?thesis using Cons.IH[OF p(2)] by blast
  next
    case False
    then have "\<not> select_granted g1 a" using p(1) by (auto simp: Let_def split: if_splits)
    then show ?thesis using frame execute_all[OF p(2)] False Cons.prems(2) by auto
  qed
qed simp

lemma drops_frame: "select_granted (perform_all (map DropGrant ns) g) t = select_granted g t
    \<and> object_there (perform_all (map DropGrant ns) g) t = object_there g t
    \<and> (n \<in> set ns \<longrightarrow> grants_of (perform_all (map DropGrant ns) g) n = None)"
proof -
  have none: "grants_of h n = None \<Longrightarrow> grants_of (perform_all (map DropGrant ns) h) n = None" for h ns
    by (induction ns arbitrary: h) auto
  show ?thesis
    by (induction ns arbitrary: g) (auto simp: select_granted_def none)
qed

lemma disables_frame: "select_granted (perform_all (map DisableOnly ts) g) t = select_granted g t
    \<and> grants_of (perform_all (map DisableOnly ts) g) n = grants_of g n
    \<and> (t \<in> set ts \<and> object_there g t \<longrightarrow> \<not> only_mode (perform_all (map DisableOnly ts) g) t)"
proof -
  have off: "\<not> only_mode h t \<Longrightarrow> \<not> only_mode (perform_all (map DisableOnly ts) h) t" for h ts
    by (induction ts arbitrary: h) (auto split: if_splits)
  show ?thesis
  proof (induction ts arbitrary: g)
    case (Cons a ts)
    show ?case using Cons.IH[of "fst (perform (DisableOnly a) g)"] off[of "fst (perform (DisableOnly a) g)" ts]
      by (cases "a = t") (auto simp: select_granted_def)
  qed simp
qed

lemma revokes_there: "object_there (perform_all (map RevokeSelect ts) g) = object_there g"
  by (induction ts arbitrary: g) (auto simp: Let_def)

lemma cleanup_parts:
  assumes "cleanup_statements d current desired others = Some ss"
  shows "\<exists>owner wanted kept names gone targets. strict_identifier d (ds_owner d) = Some owner
    \<and> grant_names d (filter is_real desired) = Some wanted
    \<and> those (map (target_of d) (filter is_real (others @ desired))) = Some kept
    \<and> grant_names d (sort_key (cleanup_key d) (filter is_real current)) = Some names
    \<and> gone = filter (\<lambda>(g, e). g \<notin> set wanted) (zip names (sort_key (cleanup_key d) (filter is_real current)))
    \<and> those (map (\<lambda>(g, e). target_of d e) gone) = Some targets
    \<and> ss = map RevokeSelect (dedup (filter (\<lambda>t. t \<notin> set kept) targets))
        @ map DropGrant (map (\<lambda>g. owner @ dot # g) (dedup (map fst gone)))
        @ map DisableOnly (dedup (filter (\<lambda>t. t \<notin> set kept) targets))"
  using assms unfolding cleanup_statements_def Let_def by (auto split: option.splits simp: comp_def)

lemma those_in: "those (map f xs) = Some ys \<Longrightarrow> x \<in> set xs \<Longrightarrow> \<exists>y \<in> set ys. f x = Some y"
  using those_all[of "map f xs" ys] by (auto simp: list_all2_conv_all_nth in_set_conv_nth)

lemma those_from: "those (map f xs) = Some ys \<Longrightarrow> y \<in> set ys \<Longrightarrow> \<exists>x \<in> set xs. f x = Some y"
  using those_all[of "map f xs" ys] by (auto simp: list_all2_conv_all_nth in_set_conv_nth) (metis nth_mem)

lemma zip_in: "those (map f xs) = Some ys \<Longrightarrow> x \<in> set xs \<Longrightarrow> f x = Some y \<Longrightarrow> (y, x) \<in> set (zip ys xs)"
  using those_all[of "map f xs" ys] by (auto simp: list_all2_conv_all_nth in_set_conv_nth set_zip)

lemma plan_entries:
  assumes "those (map (entry_statements d rt validate) es) = Some entries" and "strict_identifier d (ds_owner d) = Some owner"
  shows "\<exists>is. entries = map entry_ddl is \<and> length is = length es
    \<and> (\<forall>k < length es. target_of d (es ! k) = Some (fst (is ! k))
        \<and> (\<exists>name. strict_identifier d (grant_name d (es ! k)) = Some name \<and> entry_name (is ! k) = owner @ dot # name))"
  using assms(1)
proof (induction es arbitrary: entries)
  case (Cons e es)
  then obtain ss rest where s: "entry_statements d rt validate e = Some ss" "those (map (entry_statements d rt validate) es) = Some rest"
    "entries = ss # rest" by (auto split: option.splits)
  obtain types where b: "build_statements d rt types e = Some ss"
    using s(1) by (auto simp: entry_statements_def bind_eq_Some_conv)
  obtain t name c p where e: "target_of d e = Some t" "strict_identifier d (grant_name d e) = Some name"
    "ss = entry_ddl (t, owner @ dot # name, c, p)"
    using build_shape[OF b] assms(2) by (auto simp: entry_ddl_def)
  obtain "is" where i: "rest = map entry_ddl is" "length is = length es"
    "\<forall>k < length es. target_of d (es ! k) = Some (fst (is ! k))
        \<and> (\<exists>name. strict_identifier d (grant_name d (es ! k)) = Some name \<and> entry_name (is ! k) = owner @ dot # name)"
    using Cons.IH[OF s(2)] by blast
  then show ?case using s(3) e
    by (intro exI[of _ "(t, owner @ dot # name, c, p) # is"]) (auto simp: nth_Cons entry_name_def split: nat.splits)
qed simp

lemma cleanup_effect:
  assumes "cleanup_statements d current desired others = Some ss" and "execute fates ss g = (g1, True)"
    and "e \<in> set current" and "is_real e" and "strict_identifier d (ds_owner d) = Some owner"
    and "strict_identifier d (grant_name d e) = Some name" and "target_of d e = Some t"
    and "\<forall>w\<in>set desired. is_real w \<longrightarrow> strict_identifier d (grant_name d w) \<noteq> Some name"
  shows "grants_of g1 (owner @ dot # name) = None
    \<and> ((\<forall>w\<in>set (others @ desired). is_real w \<longrightarrow> target_of d w \<noteq> Some t) \<longrightarrow>
        \<not> select_granted g1 t \<and> (object_there g t \<longrightarrow> \<not> only_mode g1 t))"
proof -
  let ?present = "sort_key (cleanup_key d) (filter is_real current)"
  obtain wanted kept names gone targets where c: "grant_names d (filter is_real desired) = Some wanted"
    "those (map (target_of d) (filter is_real (others @ desired))) = Some kept" "grant_names d ?present = Some names"
    "gone = filter (\<lambda>(g, e). g \<notin> set wanted) (zip names ?present)" "those (map (\<lambda>(g, e). target_of d e) gone) = Some targets"
    and ss: "ss = map RevokeSelect (dedup (filter (\<lambda>t. t \<notin> set kept) targets))
        @ map DropGrant (map (\<lambda>g. owner @ dot # g) (dedup (map fst gone)))
        @ map DisableOnly (dedup (filter (\<lambda>t. t \<notin> set kept) targets))"
    using cleanup_parts[OF assms(1)] assms(5) by auto
  define ts where "ts = dedup (filter (\<lambda>t. t \<notin> set kept) targets)"
  define ns where "ns = map (\<lambda>g. owner @ dot # g) (dedup (map fst gone))"
  have ss': "ss = map RevokeSelect ts @ map DropGrant ns @ map DisableOnly ts" by (simp add: ss ts_def ns_def)
  define h where "h = perform_all (map RevokeSelect ts) g"
  have run: "execute (take (length ts) fates) (map RevokeSelect ts) g = (h, True)"
    using execute_append[of fates "map RevokeSelect ts"] assms(2) by (simp add: ss' h_def)
  have g1: "g1 = perform_all (map DisableOnly ts) (perform_all (map DropGrant ns) h)"
    using execute_all[OF assms(2)] by (simp add: ss' h_def)
  have "name \<notin> set wanted" using those_from[OF c(1)[unfolded grant_names_def], of name] assms(8) by auto
  moreover have "(name, e) \<in> set (zip names ?present)"
    using zip_in[OF c(3)[unfolded grant_names_def], of e name] assms(3,4,6) by simp
  ultimately have gone: "(name, e) \<in> set gone" using c(4) by auto
  have "owner @ dot # name \<in> set ns" using gone by (force simp: ns_def)
  then have none: "grants_of g1 (owner @ dot # name) = None" using disables_frame drops_frame unfolding g1 by metis
  show ?thesis
  proof (intro conjI impI none)
    assume w: "\<forall>w\<in>set (others @ desired). is_real w \<longrightarrow> target_of d w \<noteq> Some t"
    have "t \<notin> set kept" using those_from[OF c(2), of t] w by auto
    moreover have "t \<in> set targets" using those_in[OF c(5) gone] assms(7) by auto
    ultimately have t: "t \<in> set ts" by (simp add: ts_def)
    show "\<not> select_granted g1 t" unfolding g1 using revokes_effect[OF run t] disables_frame drops_frame by metis
    show "object_there g t \<Longrightarrow> \<not> only_mode g1 t"
      using t disables_frame[of ts "perform_all (map DropGrant ns) h" t] drops_frame[of ns h t] revokes_there[of ts g]
      unfolding g1 h_def by simp
  qed
qed

lemma entry_names_distinct:
  assumes "length is = length es" and "distinct (map f es)"
    and "\<And>k. k < length es \<Longrightarrow> \<exists>name. f (es ! k) = Some name \<and> entry_name (is ! k) = owner @ dot # name"
  shows "distinct (map entry_name is)"
  unfolding distinct_conv_nth
proof (intro allI impI)
  fix i j assume ij: "i < length (map entry_name is)" "j < length (map entry_name is)" "i \<noteq> j"
  then have l: "i < length es" "j < length es" using assms(1) by simp_all
  obtain a b where "f (es ! i) = Some a" "entry_name (is ! i) = owner @ dot # a"
    "f (es ! j) = Some b" "entry_name (is ! j) = owner @ dot # b" using assms(3)[OF l(1)] assms(3)[OF l(2)] by blast
  moreover have "f (es ! i) \<noteq> f (es ! j)" using ij assms(1,2) by (simp add: distinct_conv_nth)
  ultimately show "map entry_name is ! i \<noteq> map entry_name is ! j" using ij by simp
qed

text \<open>C31: What a successful apply has done: every wanted grant stands, with SELECT granted and the mode enabled on its
  target; every grant that is not wanted any more is gone, and a target no role wants has lost SELECT, with its
  mode disabled.\<close>
theorem applied_plan_takes_effect:
  assumes "sync_plan d relation_types validate role current desired others = Some (es, ss)"
    and "execute fates ss g = (g', True)" and "distinct (map (\<lambda>e. strict_identifier d (grant_name d e)) es)"
    and "list_all is_real es"
  shows "(\<forall>e\<in>set es. \<exists>t n c p. target_of d e = Some t \<and> CreateGrant n c t p \<in> set ss \<and> only_mode g' t
      \<and> select_granted g' t \<and> grants_of g' n = Some (c, t, p))
    \<and> (\<forall>e\<in>set current. \<forall>name t owner. is_real e \<and> strict_identifier d (ds_owner d) = Some owner
        \<and> strict_identifier d (grant_name d e) = Some name \<and> target_of d e = Some t
        \<and> (\<forall>w\<in>set es. strict_identifier d (grant_name d w) \<noteq> Some name) \<longrightarrow>
        grants_of g' (owner @ dot # name) = None
        \<and> ((\<forall>w\<in>set es. target_of d w \<noteq> Some t) \<and> (\<forall>o'\<in>set others. is_real o' \<longrightarrow> target_of d o' \<noteq> Some t) \<longrightarrow>
            \<not> select_granted g' t \<and> (object_there g t \<longrightarrow> \<not> only_mode g' t)))"
proof -
  obtain entries cleanup where p: "those (map (entry_statements d relation_types validate) es) = Some entries"
    "cleanup_statements d current es others = Some cleanup" "ss = cleanup @ concat entries"
    using assms(1) by (auto simp: sync_plan_def split: option.splits)
  obtain owner where o: "strict_identifier d (ds_owner d) = Some owner" using cleanup_parts[OF p(2)] by blast
  obtain "is" where i: "entries = map entry_ddl is" "length is = length es"
    "\<And>k. k < length es \<Longrightarrow> target_of d (es ! k) = Some (fst (is ! k))
        \<and> (\<exists>name. strict_identifier d (grant_name d (es ! k)) = Some name \<and> entry_name (is ! k) = owner @ dot # name)"
    using plan_entries[OF p(1) o] by blast
  define g1 where "g1 = perform_all cleanup g"
  have run: "execute fates (cleanup @ concat (map entry_ddl is)) g = (g', True)" using assms(2) p(3) i(1) by simp
  have g': "g' = perform_all (concat (map entry_ddl is)) g1" using execute_all[OF run] by (simp add: g1_def)
  have "distinct (map entry_name is)"
    by (rule entry_names_distinct[OF i(2) assms(3)]) (use i(3) in blast)
  note effect = entries_effect[OF this, of _ _ _ _ g1, folded g']
  have first: "\<exists>t n c p. target_of d e = Some t \<and> CreateGrant n c t p \<in> set ss \<and> only_mode g' t
      \<and> select_granted g' t \<and> grants_of g' n = Some (c, t, p)" if e: "e \<in> set es" for e
  proof -
    obtain k where k: "k < length es" "e = es ! k" using e by (metis in_set_conv_nth)
    obtain t n col pr where q: "is ! k = (t, n, col, pr)" by (cases "is ! k")
    have m: "(t, n, col, pr) \<in> set is" using k i(2) q by (metis nth_mem)
    then have "CreateGrant n col t pr \<in> set ss" using p(3) i(1) by (force simp: entry_ddl_def)
    then show ?thesis using effect[OF m] i(3)[OF k(1)] k q by auto
  qed
  have second: "grants_of g' (owner @ dot # name) = None
        \<and> ((\<forall>w\<in>set es. target_of d w \<noteq> Some t) \<and> (\<forall>o'\<in>set others. is_real o' \<longrightarrow> target_of d o' \<noteq> Some t) \<longrightarrow>
            \<not> select_granted g' t \<and> (object_there g t \<longrightarrow> \<not> only_mode g' t))"
    if e: "e \<in> set current" "is_real e" "strict_identifier d (grant_name d e) = Some name" "target_of d e = Some t"
      "\<forall>w\<in>set es. strict_identifier d (grant_name d w) \<noteq> Some name" for e name t
  proof -
    have c: "grants_of g1 (owner @ dot # name) = None
      \<and> ((\<forall>w\<in>set (others @ es). is_real w \<longrightarrow> target_of d w \<noteq> Some t) \<longrightarrow>
          \<not> select_granted g1 t \<and> (object_there g t \<longrightarrow> \<not> only_mode g1 t))"
      using cleanup_effect[OF p(2) execute_append[OF run] e(1,2) o e(3,4)] e(5) unfolding g1_def by blast
    have "owner @ dot # name \<notin> entry_name ` set is" using i(2,3) e(5) by (fastforce simp: in_set_conv_nth)
    moreover have "(\<forall>w\<in>set es. target_of d w \<noteq> Some t) \<Longrightarrow> t \<notin> fst ` set is" using i(2,3) by (fastforce simp: in_set_conv_nth)
    ultimately show ?thesis using c entries_frame[of "owner @ dot # name" "is" g1 t] unfolding g' by auto
  qed
  show ?thesis using first second o by auto
qed

section \<open>Two administrators at once\<close>

text \<open>The statements of two roles are not kept apart. One administrator gives back a table no role wants any more;
  before its mode is disabled, another has his grant on the same table applied to the end. Then every row can be
  read, though either apply alone exposes nothing.\<close>
lemma two_applies_expose:
  assumes "cleanup_statements d current [] others = Some (map RevokeSelect [t] @ map DropGrant ns @ map DisableOnly [t])"
    and "build_statements d relation_types types e = Some ss" and "target_of d e = Some t"
    and "object_there g t" and "\<not> granted_by_others g t"
  shows "exposed (perform_all ((RevokeSelect t # map DropGrant ns) @ ss @ [DisableOnly t]) g) t"
proof -
  obtain n c p where ss: "ss = [EnableOnly t, DropGrant n, CreateGrant n c t p, GrantSelect t]"
    using build_shape[OF assms(2)] assms(3) by auto
  have "object_there (perform_all (map DropGrant ns) h) t = object_there h t" for h using drops_frame by blast
  then show ?thesis using assms(4,5) by (auto simp: ss exposed_def select_granted_def Let_def)
qed

section \<open>Examples\<close>

definition example_deepsec :: deepsec where
  "example_deepsec = \<lparr>ds_lexicon = plain_lexicon, ds_owner = chars ''app'', ds_digest = (\<lambda>_. []), ds_filters_code = (\<lambda>_. [])\<rparr>"

definition example_entitlement :: "string \<Rightarrow> string \<Rightarrow> entitlement" where
  "example_entitlement table grant =
     \<lparr>en_id = chars ''e1'', en_role = chars ''r1'', en_owner = chars ''hr'', en_object = chars table, en_columns = [chars ''dept''],
      en_mode = chars ''ALL'', en_scope_column = [], en_scope_code = chars ''*'', en_filters = [], en_tree = None,
      en_grant = chars grant\<rparr>"

lemma example_names:
  "strict_identifier example_deepsec (chars ''app'') = Some (chars ''APP'')"
  "strict_identifier example_deepsec (chars ''G1'') = Some (chars ''G1'')"
  "strict_identifier example_deepsec (chars ''G2'') = Some (chars ''G2'')"
  by (simp_all add: strict_identifier_def strip_marks_def example_deepsec_def plain_lexicon_def canonical_latin chars_def)

lemma example_tokens:
  "identifier_token plain_lexicon (chars ''hr'') = Some (chars ''HR'')" "identifier_token plain_lexicon (chars ''HR'') = Some (chars ''HR'')"
  "identifier_token plain_lexicon (chars ''old'') = Some (chars ''OLD'')"
  "identifier_token plain_lexicon (chars ''new'') = Some (chars ''NEW'')" "identifier_token plain_lexicon (chars ''NEW'') = Some (chars ''NEW'')"
  by (simp_all add: identifier_token_def plain_lexicon_def canonical_latin chars_def)

lemma tidy_length: "length (tidy x s) \<le> length s"
proof -
  have "length (tidy x s) \<le> length (dropWhile (space (of_unicode (of_naming x))) s)"
    unfolding trim_def strip_points_def by (metis length_dropWhile_le length_rev)
  then show ?thesis using length_dropWhile_le le_trans by blast
qed

lemma role_condition_length: "length (role_condition (chars ''APP'') (example_entitlement t g\<lparr>en_role := chars ''r1'', en_owner := a, en_object := b, en_scope_code := s, en_grant := n\<rparr>)) \<le> 1000"
  by (simp add: role_condition_def example_entitlement_def new_line_def chars_def sql_literal_def double_quotes_def)

definition example_wanted :: entitlement where
  "example_wanted = (example_entitlement ''new'' ''G2'')\<lparr>en_owner := chars ''HR'', en_object := chars ''NEW''\<rparr>"

definition example_predicate :: points where
  "example_predicate = tidy plain_lexicon (role_condition (chars ''APP'') example_wanted @ new_line ''        )'')"

definition example_plan :: "ddl list" where
  "example_plan =
     [RevokeSelect (chars ''HR.OLD''), DropGrant (chars ''APP.G1''), DisableOnly (chars ''HR.OLD''),
      EnableOnly (chars ''HR.NEW''), DropGrant (chars ''APP.G2''),
      CreateGrant (chars ''APP.G2'') [chars ''DEPT''] (chars ''HR.NEW'') example_predicate, GrantSelect (chars ''HR.NEW'')]"

lemma dotted: "chars a @ dot # chars b = chars (a @ CHR ''.'' # b)"
  by (simp add: chars_def)



lemma example_prepared: "prepared example_deepsec (chars ''r1'') (example_entitlement ''new'' ''G2'') = Some example_wanted"
  by (simp add: prepared_def example_tokens example_wanted_def grant_name_def example_deepsec_def example_entitlement_def) (simp add: chars_def)

lemma example_targets:
  "target_of example_deepsec example_wanted = Some (chars ''HR.NEW'')"
  "target_of example_deepsec (example_entitlement ''old'' ''G1'') = Some (chars ''HR.OLD'')"
  "grant_name example_deepsec example_wanted = chars ''G2''" "grant_name example_deepsec (example_entitlement ''old'' ''G1'') = chars ''G1''"
  "is_real example_wanted" "is_real (example_entitlement ''old'' ''G1'')"
  by (simp_all add: target_of_def qualified_target_def example_deepsec_def example_wanted_def example_entitlement_def example_tokens
      grant_name_def is_real_def) (simp_all add: chars_def)

lemma example_build: "build_statements example_deepsec (\<lambda>_. None) [] example_wanted = Some (drop 3 example_plan)"
proof -
  have c: "map (identifier_token (ds_lexicon example_deepsec)) (en_columns example_wanted) = [Some (chars ''DEPT'')]"
    "en_columns example_wanted \<noteq> []"
    using dept_token by (simp_all add: example_wanted_def example_entitlement_def example_deepsec_def)
  have "scope_text example_deepsec (\<lambda>_. None) (chars ''HR.NEW'') [] example_wanted = Some []"
    by (simp add: scope_text_def example_wanted_def example_entitlement_def example_deepsec_def plain_lexicon_def canonical_latin chars_def)
  moreover have "length (role_condition (chars ''APP'') example_wanted @ new_line ''        )'') \<le> 4000"
    by (simp add: role_condition_def example_wanted_def example_entitlement_def new_line_def chars_def sql_literal_def double_quotes_def)
  then have "\<not> PREDICATE_MAX < length example_predicate"
    using tidy_length[of plain_lexicon "role_condition (chars ''APP'') example_wanted @ new_line ''        )''"]
    by (simp add: PREDICATE_MAX_def example_predicate_def)
  moreover have "strict_identifier example_deepsec (ds_owner example_deepsec) = Some (chars ''APP'')"
    using example_names(1) by (simp add: example_deepsec_def)
  ultimately show ?thesis
    using c by (simp add: build_statements_def example_targets example_names example_plan_def Let_def dotted)
      (simp add: example_deepsec_def example_predicate_def)
qed

lemma example_cleanup:
  "cleanup_statements example_deepsec [example_entitlement ''old'' ''G1''] [example_wanted] [] = Some (take 3 example_plan)"
proof -
  have "strict_identifier example_deepsec (ds_owner example_deepsec) = Some (chars ''APP'')"
    using example_names(1) by (simp add: example_deepsec_def)
  then show ?thesis
    by (simp add: cleanup_statements_def grant_names_def example_targets example_names example_plan_def dotted chars_inject)
qed

lemma example_sync:
  "sync_plan example_deepsec (\<lambda>_. None) (\<lambda>_. Some []) (chars ''r1'') [example_entitlement ''old'' ''G1'']
     [example_entitlement ''new'' ''G2''] [] = Some ([example_wanted], example_plan)"
  by (simp add: sync_plan_def example_prepared entry_statements_def example_build example_cleanup)

definition example_before :: grant_state where
  "example_before = \<lparr>only_mode = (\<lambda>t. t = chars ''HR.OLD''), granted_by_us = (\<lambda>t. t = chars ''HR.OLD''),
     granted_by_others = (\<lambda>_. False), grants_of = (\<lambda>_. None), object_there = (\<lambda>_. True)\<rparr>"

theorem applying_exposes_nothing_witness:
  "\<not> exposed (fst (execute [Done, Done, Lost] example_plan example_before)) (chars ''HR.OLD'')"
proof -
  have "\<not> exposed example_before (chars ''HR.OLD'')" by (simp add: exposed_def select_granted_def example_before_def)
  with applying_exposes_nothing[OF disjI1[OF conjI[OF example_sync refl]]] show ?thesis by blast
qed

theorem applied_plan_takes_effect_witness:
  "\<exists>g'. execute (replicate 7 Done) example_plan example_before = (g', True) \<and> only_mode g' (chars ''HR.NEW'')
     \<and> select_granted g' (chars ''HR.NEW'') \<and> \<not> select_granted g' (chars ''HR.OLD'') \<and> \<not> only_mode g' (chars ''HR.OLD'')"
proof -
  obtain g' where run: "execute (replicate 7 Done) example_plan example_before = (g', True)"
    by (simp add: example_plan_def numeral_eq_Suc example_before_def select_granted_def chars_inject)
  have d: "distinct (map (\<lambda>e. strict_identifier example_deepsec (grant_name example_deepsec e)) [example_wanted])"
    "list_all is_real [example_wanted]" by (simp_all add: example_targets)
  have o: "strict_identifier example_deepsec (ds_owner example_deepsec) = Some (chars ''APP'')"
    using example_names(1) by (simp add: example_deepsec_def)
  note effect = applied_plan_takes_effect[OF example_sync run d]
  have "object_there example_before (chars ''HR.OLD'')" by (simp add: example_before_def)
  then show ?thesis using run effect o by (auto simp: example_targets example_names chars_inject)
qed

end
