(* ===== verification/ContextShrink.thy ===== *)
theory ContextShrink
  imports JsonValue SqlLexing "HOL-Library.Multiset"
begin

text \<open>Shrinking one result of a tool before it goes to the model (\<open>agent/backend/app/features/agent/context_window.py\<close>,
  \<open>compact_output\<close>): levels 1 to 3 clip texts and reduce the later items of a list to references, level 4 keeps
  identifiers only. Reading and writing JSON and the words put into a result are arguments.\<close>

type_synonym wide_json = "points json_of"

type_synonym fields = "(points \<times> wide_json) list"

definition COMPACTION_KEY :: points where "COMPACTION_KEY = chars ''context_compaction''"
definition TRUNCATED_KEY :: points where "TRUNCATED_KEY = chars ''truncated''"
definition ORIGINAL_CHARS_KEY :: points where "ORIGINAL_CHARS_KEY = chars ''original_chars''"
definition OLDER_MAX_LEVEL :: nat where "OLDER_MAX_LEVEL = 4"
definition LATEST_MAX_LEVEL :: nat where "LATEST_MAX_LEVEL = 3"
definition TOP_LEVEL_TEXT_CHARS :: nat where "TOP_LEVEL_TEXT_CHARS = 200"
definition STATE_VALUE_MAX_CHARS :: nat where "STATE_VALUE_MAX_CHARS = 256"
definition STATE_LIST_MAX_ITEMS :: nat where "STATE_LIST_MAX_ITEMS = 10"

definition STATE_KEYS :: "points list" where
  "STATE_KEYS = map chars
     [''next_cursor'', ''cursor'', ''has_more'', ''section_complete'', ''status'', ''state'', ''outcome'', ''error_code'',
      ''handling'', ''label'', ''value'', ''source'', ''reason'', ''insufficient_reason'', ''title'', ''version'', ''as_of'',
      ''superseded'', ''needs_human_review'', ''evidence_omitted'']"

definition STATE_LIST_KEYS :: "points list" where
  "STATE_LIST_KEYS = map chars [''conditions'', ''gaps'']"

text \<open>The length a text of a list may keep, and how many items of a list stay whole.\<close>

definition level_chars :: "nat \<Rightarrow> nat" where
  "level_chars level = (if level = 1 then 400 else if level = 2 then 200 else 100)"

definition level_keep :: "nat \<Rightarrow> nat option" where
  "level_keep level = (if level = 1 then None else if level = 2 then Some 5 else Some 0)"

definition text_limit :: "nat \<Rightarrow> nat" where
  "text_limit level = (if level = 1 then 4000 else if level = 2 then 1500 else if level = 3 then 500 else 200)"

section \<open>What stays as it is\<close>

text \<open>The end of the pattern also matches before a final line feed.\<close>

definition is_id_key :: "points \<Rightarrow> bool" where
  "is_id_key k =
     (let s = (if k \<noteq> [] \<and> last k = 10 then butlast k else k)
      in s = chars ''id'' \<or> (3 \<le> length s \<and> drop (length s - 3) s = chars ''_id''))"

fun short_text :: "wide_json \<Rightarrow> bool" where
  "short_text (JText s) = (length s \<le> STATE_VALUE_MAX_CHARS)"
| "short_text _ = False"

fun plain_value :: "wide_json \<Rightarrow> bool" where
  "plain_value (JText s) = (length s \<le> STATE_VALUE_MAX_CHARS)"
| "plain_value (JList _) = False"
| "plain_value (JObject _) = False"
| "plain_value _ = True"

definition is_state :: "points \<Rightarrow> wide_json \<Rightarrow> bool" where
  "is_state k v = (k \<in> set STATE_KEYS \<and> plain_value v)"

definition state_list :: "points \<Rightarrow> wide_json \<Rightarrow> wide_json option" where
  "state_list k v =
     (case v of
        JList vs \<Rightarrow> if k \<in> set STATE_LIST_KEYS \<and> list_all short_text vs then Some (JList (take STATE_LIST_MAX_ITEMS vs)) else None
      | _ \<Rightarrow> None)"

fun id_value :: "wide_json \<Rightarrow> bool" where
  "id_value (JText _) = True"
| "id_value (JInt _) = True"
| "id_value _ = False"

definition ref_entry :: "points \<times> wide_json \<Rightarrow> (points \<times> wide_json) option" where
  "ref_entry = (\<lambda>(k, v). if is_id_key k \<and> id_value v \<or> is_state k v then Some (k, v) else map_option (Pair k) (state_list k v))"

definition id_ref :: "fields \<Rightarrow> fields" where
  "id_ref kvs = List.map_filter ref_entry kvs"

text \<open>An entry of an object that levels 1 to 3 leave alone; without a list of texts, \<open>None == item\<close> holds of a null.\<close>

definition stays :: "points \<Rightarrow> wide_json \<Rightarrow> bool" where
  "stays k v = (is_id_key k \<or> is_state k v \<or> (case state_list k v of None \<Rightarrow> v = JNull | Some w \<Rightarrow> w = v))"

section \<open>Shrinking\<close>

record stats =
  st_clipped :: nat
  st_id_only :: nat
  st_dropped :: nat

definition no_stats :: stats where
  "no_stats = \<lparr>st_clipped = 0, st_id_only = 0, st_dropped = 0\<rparr>"

definition ELLIPSIS :: nat where "ELLIPSIS = 8230"

definition clip :: "points \<Rightarrow> nat \<Rightarrow> stats \<Rightarrow> wide_json \<times> stats" where
  "clip s n st =
     (if length s \<le> n then (JText s, st) else (JText (take n s @ [ELLIPSIS]), st\<lparr>st_clipped := st_clipped st + 1\<rparr>))"

definition mark_truncated :: "fields \<Rightarrow> fields" where
  "mark_truncated kvs = map (\<lambda>(k, v). (k, if k = TRUNCATED_KEY \<and> (\<exists>b. v = JBool b) then JBool True else v)) kvs"

definition shrink_ref :: "wide_json \<Rightarrow> fields" where
  "shrink_ref v = (case v of JObject kvs \<Rightarrow> id_ref kvs | _ \<Rightarrow> [])"

fun shrink :: "nat \<Rightarrow> bool \<Rightarrow> wide_json \<Rightarrow> stats \<Rightarrow> wide_json \<times> stats"
and shrink_items :: "nat \<Rightarrow> nat \<Rightarrow> wide_json list \<Rightarrow> stats \<Rightarrow> wide_json list \<times> stats"
and shrink_fields :: "nat \<Rightarrow> bool \<Rightarrow> fields \<Rightarrow> stats \<Rightarrow> fields \<times> stats"
where
  "shrink level in_list (JText s) st =
     (if in_list then clip s (level_chars level) st
      else if 3 \<le> level then clip s TOP_LEVEL_TEXT_CHARS st else (JText s, st))"
| "shrink level in_list (JList vs) st = (case shrink_items level 0 vs st of (ws, st) \<Rightarrow> (JList ws, st))"
| "shrink level in_list (JObject kvs) st =
     (case shrink_fields level in_list kvs st of
        (ws, st') \<Rightarrow> (JObject (if st_clipped st < st_clipped st' then mark_truncated ws else ws), st'))"
| "shrink level in_list v st = (v, st)"
| "shrink_items level i [] st = ([], st)"
| "shrink_items level i (v # vs) st =
     (if case level_keep level of None \<Rightarrow> False | Some keep \<Rightarrow> keep \<le> i then
        (let ref = shrink_ref v
         in if ref \<noteq> [] then
              (case shrink_items level (Suc i) vs (st\<lparr>st_id_only := st_id_only st + 1\<rparr>) of (ws, st) \<Rightarrow> (JObject ref # ws, st))
            else shrink_items level (Suc i) vs (st\<lparr>st_dropped := st_dropped st + 1\<rparr>))
      else
        (case shrink level True v st of
           (w, st) \<Rightarrow> (case shrink_items level (Suc i) vs st of (ws, st) \<Rightarrow> (w # ws, st))))"
| "shrink_fields level in_list [] st = ([], st)"
| "shrink_fields level in_list ((k, v) # kvs) st =
     (if k = COMPACTION_KEY then shrink_fields level in_list kvs st
      else
        (case (if stays k v then (v, st) else shrink level in_list v st) of
           (w, st) \<Rightarrow> (case shrink_fields level in_list kvs st of (ws, st) \<Rightarrow> ((k, w) # ws, st))))"

text \<open>An empty list or object counts as nothing.\<close>

fun filled :: "wide_json \<Rightarrow> bool" where
  "filled (JList vs) = (vs \<noteq> [])"
| "filled (JObject kvs) = (kvs \<noteq> [])"
| "filled _ = False"

fun is_nested :: "wide_json \<Rightarrow> bool" where
  "is_nested (JList _) = True"
| "is_nested (JObject _) = True"
| "is_nested _ = False"

fun is_object :: "wide_json \<Rightarrow> bool" where
  "is_object (JObject _) = True"
| "is_object _ = False"

fun ids_only :: "wide_json \<Rightarrow> stats \<Rightarrow> wide_json \<times> stats"
and ids_items :: "wide_json list \<Rightarrow> stats \<Rightarrow> wide_json list \<times> stats"
and ids_fields :: "fields \<Rightarrow> stats \<Rightarrow> fields \<times> stats"
where
  "ids_only (JObject kvs) st = (case ids_fields kvs st of (ns, st) \<Rightarrow> (JObject (id_ref kvs @ ns), st))"
| "ids_only (JList vs) st = (case ids_items vs st of (ws, st) \<Rightarrow> (JList ws, st))"
| "ids_only v st = (JNull, st)"
| "ids_items [] st = ([], st)"
| "ids_items (v # vs) st =
     (if is_object v then
        (case ids_only v st of
           (w, st) \<Rightarrow>
             if filled w then
               (case ids_items vs (st\<lparr>st_id_only := st_id_only st + 1\<rparr>) of (ws, st) \<Rightarrow> (w # ws, st))
             else ids_items vs (st\<lparr>st_dropped := st_dropped st + 1\<rparr>))
      else ids_items vs (st\<lparr>st_dropped := st_dropped st + 1\<rparr>))"
| "ids_fields [] st = ([], st)"
| "ids_fields ((k, v) # kvs) st =
     (if ref_entry (k, v) \<noteq> None \<or> k = COMPACTION_KEY \<or> \<not> is_nested v then ids_fields kvs st
      else
        (case ids_only v st of
           (w, st) \<Rightarrow> (case ids_fields kvs st of (ws, st) \<Rightarrow> (if filled w then (k, w) # ws else ws, st))))"

section \<open>A result\<close>

text \<open>\<open>next_step\<close>: the advice of the note, from the original length, the counts, the tool to read again with and whether
  the call may be repeated. \<open>cut_note\<close>: what follows a text that was cut, from its length and the limit.\<close>

record compaction_words =
  cw_loads :: "points \<Rightarrow> wide_json option"
  cw_dumps :: "wide_json \<Rightarrow> points"
  cw_next_step :: "int \<Rightarrow> stats \<Rightarrow> points option \<Rightarrow> bool \<Rightarrow> points"
  cw_cut_note :: "nat \<Rightarrow> nat \<Rightarrow> points"

definition original_chars :: "fields \<Rightarrow> points \<Rightarrow> int" where
  "original_chars kvs output =
     (case map_of kvs COMPACTION_KEY of
        Some (JObject previous) \<Rightarrow>
          (case Option.bind (map_of previous ORIGINAL_CHARS_KEY) json_int of Some n \<Rightarrow> n | None \<Rightarrow> int (length output))
      | _ \<Rightarrow> int (length output))"

definition compaction_note :: "compaction_words \<Rightarrow> int \<Rightarrow> stats \<Rightarrow> points option \<Rightarrow> bool \<Rightarrow> wide_json" where
  "compaction_note cw n st reader rerunnable =
     JObject [(ORIGINAL_CHARS_KEY, JInt n), (chars ''next_step'', JText (cw_next_step cw n st reader rerunnable))]"

definition shrunk_fields :: "nat \<Rightarrow> fields \<Rightarrow> fields \<times> stats" where
  "shrunk_fields level kvs =
     (case (if OLDER_MAX_LEVEL \<le> level then ids_only (JObject kvs) no_stats else shrink level False (JObject kvs) no_stats) of
        (JObject ws, st) \<Rightarrow> (ws, st)
      | (_, st) \<Rightarrow> ([], st))"

definition compacted_value :: "compaction_words \<Rightarrow> nat \<Rightarrow> points option \<Rightarrow> bool \<Rightarrow> points \<Rightarrow> fields \<Rightarrow> wide_json" where
  "compacted_value cw level reader rerunnable output kvs =
     (case shrunk_fields level kvs of
        (ws, st) \<Rightarrow> JObject (ws @ [(COMPACTION_KEY, compaction_note cw (original_chars kvs output) st reader rerunnable)]))"

definition compact_output :: "compaction_words \<Rightarrow> nat \<Rightarrow> points option \<Rightarrow> bool \<Rightarrow> points \<Rightarrow> points" where
  "compact_output cw level reader rerunnable output =
     (case cw_loads cw output of
        Some (JObject kvs) \<Rightarrow>
          (let compacted = cw_dumps cw (compacted_value cw level reader rerunnable output kvs)
           in if length compacted < length output then compacted else output)
      | _ \<Rightarrow>
          (let limit = text_limit (min level OLDER_MAX_LEVEL)
           in if length output \<le> limit then output else take limit output @ cw_cut_note cw (length output) limit))"

section \<open>Identifiers\<close>

text \<open>The identifiers of a value, at every depth; what an earlier compaction noted is no part of the result.\<close>

fun identifiers :: "wide_json \<Rightarrow> fields"
and item_identifiers :: "wide_json list \<Rightarrow> fields"
and field_identifiers :: "fields \<Rightarrow> fields"
where
  "identifiers (JList vs) = item_identifiers vs"
| "identifiers (JObject kvs) = field_identifiers kvs"
| "identifiers v = []"
| "item_identifiers [] = []"
| "item_identifiers (v # vs) = identifiers v @ item_identifiers vs"
| "field_identifiers [] = []"
| "field_identifiers ((k, v) # kvs) =
     (if k = COMPACTION_KEY then [] else if is_id_key k \<and> id_value v then [(k, v)] else identifiers v) @ field_identifiers kvs"

text \<open>The items of every list carry their identifiers themselves, not in values of their own.\<close>

definition direct_only :: "wide_json \<Rightarrow> bool" where
  "direct_only v =
     (case v of
        JObject kvs \<Rightarrow> list_all (\<lambda>(k, w). k = COMPACTION_KEY \<or> is_id_key k \<and> id_value w \<or> identifiers w = []) kvs
      | _ \<Rightarrow> identifiers v = [])"

fun flat_lists :: "wide_json \<Rightarrow> bool"
and flat_fields :: "fields \<Rightarrow> bool"
where
  "flat_lists (JList vs) = list_all direct_only vs"
| "flat_lists (JObject kvs) = flat_fields kvs"
| "flat_lists v = True"
| "flat_fields [] = True"
| "flat_fields ((k, v) # kvs) = ((k = COMPACTION_KEY \<or> flat_lists v) \<and> flat_fields kvs)"

text \<open>The items of every list that carry identifiers are objects.\<close>

fun object_lists :: "wide_json \<Rightarrow> bool"
and object_items :: "wide_json list \<Rightarrow> bool"
and object_fields :: "fields \<Rightarrow> bool"
where
  "object_lists (JList vs) = object_items vs"
| "object_lists (JObject kvs) = object_fields kvs"
| "object_lists v = True"
| "object_items [] = True"
| "object_items (v # vs) = ((identifiers v = [] \<or> is_object v \<and> object_lists v) \<and> object_items vs)"
| "object_fields [] = True"
| "object_fields ((k, v) # kvs) = ((k = COMPACTION_KEY \<or> object_lists v) \<and> object_fields kvs)"

lemma state_keys_plain: "k \<in> set STATE_KEYS \<Longrightarrow> \<not> is_id_key k" "k \<in> set STATE_LIST_KEYS \<Longrightarrow> \<not> is_id_key k"
  "k \<in> set STATE_KEYS \<Longrightarrow> k \<noteq> COMPACTION_KEY" "k \<in> set STATE_LIST_KEYS \<Longrightarrow> k \<noteq> COMPACTION_KEY"
  "\<not> is_id_key COMPACTION_KEY" "\<not> is_id_key TRUNCATED_KEY" "COMPACTION_KEY \<noteq> TRUNCATED_KEY"
  by (auto simp: STATE_KEYS_def STATE_LIST_KEYS_def COMPACTION_KEY_def TRUNCATED_KEY_def is_id_key_def chars_def Let_def)

lemma plain_no_identifiers: "plain_value v \<Longrightarrow> identifiers v = []"
  by (cases v) auto

lemma field_identifiers_append [simp]: "field_identifiers (a @ b) = field_identifiers a @ field_identifiers b"
  by (induction a) (auto split: prod.splits)

lemma texts_no_identifiers: "list_all short_text vs \<Longrightarrow> item_identifiers vs = []"
proof (induction vs)
  case (Cons v vs) then show ?case by (cases v) auto
qed simp

lemma short_texts_take: "list_all short_text vs \<Longrightarrow> list_all short_text (take n vs)"
  by (auto simp: list_all_iff dest: in_set_takeD)

lemma state_list_identifiers:
  assumes "state_list k v = Some w"
  shows "identifiers v = []" "identifiers w = []" "k \<in> set STATE_LIST_KEYS"
  using assms
  by (auto simp: state_list_def texts_no_identifiers short_texts_take split: json_of.splits if_splits)

lemma id_value_identifiers: "id_value v \<Longrightarrow> identifiers v = []"
  by (cases v) auto

lemma field_Cons: "field_identifiers (e # kvs) = field_identifiers [e] @ field_identifiers kvs"
  using field_identifiers_append [of "[e]" kvs] by simp

lemma ref_identifiers:
  assumes "ref_entry (k, v) = Some e"
  shows "field_identifiers [e] = field_identifiers [(k, v)]"
proof -
  have k: "k \<noteq> COMPACTION_KEY"
    using assms state_keys_plain(3-5) state_list_identifiers(3) by (fastforce simp: ref_entry_def is_state_def split: if_splits)
  show ?thesis
  proof (cases "is_id_key k \<and> id_value v \<or> is_state k v")
    case True
    then show ?thesis using assms by (simp add: ref_entry_def)
  next
    case False
    then obtain w where w: "state_list k v = Some w" "e = (k, w)" using assms by (auto simp: ref_entry_def)
    have "\<not> is_id_key k" using state_list_identifiers(3) [OF w(1)] state_keys_plain(2) by simp
    then show ?thesis using k w(2) state_list_identifiers(1,2) [OF w(1)] by simp
  qed
qed

lemma id_ref_simps [simp]:
  "id_ref [] = []"
  "id_ref (e # kvs) = (case ref_entry e of None \<Rightarrow> id_ref kvs | Some r \<Rightarrow> r # id_ref kvs)"
  by (simp_all add: id_ref_def List.map_filter_simps split: option.split)

lemma no_ref_entry: "ref_entry (k, v) = None \<Longrightarrow> \<not> (is_id_key k \<and> id_value v)"
  by (auto simp: ref_entry_def split: if_splits)

lemma id_ref_Cons:
  "field_identifiers (id_ref ((k, v) # kvs)) =
     (if ref_entry (k, v) = None then [] else field_identifiers [(k, v)]) @ field_identifiers (id_ref kvs)"
proof (cases "ref_entry (k, v)")
  case (Some r)
  then show ?thesis using ref_identifiers [OF Some] field_Cons [of r "id_ref kvs"] by (simp del: field_identifiers.simps)
qed simp

lemma id_ref_subset: "mset (field_identifiers (id_ref kvs)) \<subseteq># mset (field_identifiers kvs)"
proof (induction kvs)
  case (Cons e kvs)
  obtain k v where e: "e = (k, v)" by force
  show ?case
    unfolding e id_ref_Cons field_Cons [of "(k, v)" kvs] using Cons.IH
    by (simp del: field_identifiers.simps add: subset_mset.add_increasing)
qed simp

lemma id_ref_direct:
  "list_all (\<lambda>(k, w). k = COMPACTION_KEY \<or> is_id_key k \<and> id_value w \<or> identifiers w = []) kvs \<Longrightarrow>
   field_identifiers (id_ref kvs) = field_identifiers kvs"
proof (induction kvs)
  case (Cons e kvs)
  obtain k v where e: "e = (k, v)" by force
  have "ref_entry (k, v) = None \<Longrightarrow> field_identifiers [(k, v)] = []"
    using Cons.prems e no_ref_entry [of k v] by auto
  then show ?case
    unfolding e id_ref_Cons field_Cons [of "(k, v)" kvs] using Cons by (simp del: field_identifiers.simps)
qed simp

lemma mark_truncated_identifiers [simp]: "field_identifiers (mark_truncated kvs) = field_identifiers kvs"
proof (induction kvs)
  case (Cons e kvs)
  then show ?case using state_keys_plain(6) by (cases e) (auto simp: mark_truncated_def)
qed (simp add: mark_truncated_def)

lemma clip_identifiers [simp]: "identifiers (fst (clip s n st)) = []"
  by (simp add: clip_def)

lemma shrink_ref_direct: "direct_only v \<Longrightarrow> field_identifiers (shrink_ref v) = identifiers v"
  by (cases v) (auto simp: shrink_ref_def direct_only_def id_ref_direct)

lemma shrink_ref_subset: "mset (field_identifiers (shrink_ref v)) \<subseteq># mset (identifiers v)"
  by (cases v) (auto simp: shrink_ref_def id_ref_subset)

text \<open>Shrinking invents no identifier.\<close>

lemma shrink_subset:
  "mset (identifiers (fst (shrink level b v st))) \<subseteq># mset (identifiers v)"
  "mset (item_identifiers (fst (shrink_items level i vs st))) \<subseteq># mset (item_identifiers vs)"
  "mset (field_identifiers (fst (shrink_fields level b kvs st))) \<subseteq># mset (field_identifiers kvs)"
proof (induction level b v st and level i vs st and level b kvs st rule: shrink_shrink_items_shrink_fields.induct)
  case (6 level i v vs st)
  show ?case
    using 6 shrink_ref_subset [of v]
    by (auto simp: Let_def split: prod.splits option.splits intro: subset_mset.add_mono subset_mset.add_increasing)
next
  case (8 level b k v kvs st)
  show ?case
  proof (cases "k = COMPACTION_KEY")
    case False
    define r where "r = (if stays k v then (v, st) else shrink level b v st)"
    obtain w st' where r: "r = (w, st')" by force
    have w: "mset (identifiers w) \<subseteq># mset (identifiers v)"
      using 8(2) [OF False] r unfolding r_def by (auto split: if_splits)
    have "mset (field_identifiers (fst (shrink_fields level b kvs st'))) \<subseteq># mset (field_identifiers kvs)"
      using 8(3) [OF False] r unfolding r_def by auto
    moreover have "id_value v \<Longrightarrow> is_id_key k \<Longrightarrow> w = v" using r by (auto simp: r_def stays_def)
    moreover have "\<not> id_value v \<Longrightarrow> is_id_key k \<Longrightarrow> w = v" using r by (auto simp: r_def stays_def)
    ultimately show ?thesis
      using w False r unfolding r_def
      by (auto split: prod.splits intro: subset_mset.add_mono)
  qed (use 8 in simp)
qed (auto split: prod.splits)

text \<open>It loses none at level 1, nor at the other levels when the items of the lists carry their identifiers
  themselves.\<close>

lemma none_direct: "identifiers v = [] \<Longrightarrow> direct_only v"
proof (cases v)
  case (JObject kvs)
  have "field_identifiers kvs = [] \<Longrightarrow>
      list_all (\<lambda>(k, w). k = COMPACTION_KEY \<or> is_id_key k \<and> id_value w \<or> identifiers w = []) kvs"
    by (induction kvs) (auto split: if_splits)
  then show "identifiers v = [] \<Longrightarrow> direct_only v" using JObject by (simp add: direct_only_def)
qed (auto simp: direct_only_def)

lemma none_direct_items: "item_identifiers vs = [] \<Longrightarrow> list_all direct_only vs"
  by (induction vs) (auto simp: none_direct)

lemma shrink_keeps:
  "level_keep level = None \<or> flat_lists v \<or> direct_only v \<Longrightarrow>
   identifiers (fst (shrink level b v st)) = identifiers v"
  "level_keep level = None \<or> list_all direct_only vs \<Longrightarrow>
   item_identifiers (fst (shrink_items level i vs st)) = item_identifiers vs"
  "level_keep level = None \<or> flat_fields kvs \<or> direct_only (JObject kvs) \<Longrightarrow>
   field_identifiers (fst (shrink_fields level b kvs st)) = field_identifiers kvs"
proof (induction level b v st and level i vs st and level b kvs st rule: shrink_shrink_items_shrink_fields.induct)
  case (6 level i v vs st)
  show ?case
    using 6 shrink_ref_direct [of v]
    by (auto simp: Let_def split: prod.splits option.splits if_splits)
next
  case (8 level b k v kvs st)
  show ?case
  proof (cases "k = COMPACTION_KEY")
    case True
    then show ?thesis using 8(1,4) by (auto simp: direct_only_def)
  next
    case False
    define r where "r = (if stays k v then (v, st) else shrink level b v st)"
    obtain w st' where r: "r = (w, st')" by force
    have rest: "level_keep level = None \<or> flat_fields kvs \<or> direct_only (JObject kvs)"
      using 8(4) by (auto simp: direct_only_def)
    have "field_identifiers (fst (shrink_fields level b kvs st')) = field_identifiers kvs"
      using 8(3) [OF False] r rest unfolding r_def by auto
    moreover have "field_identifiers [(k, w)] = field_identifiers [(k, v)]"
    proof (cases "stays k v")
      case True
      then show ?thesis using r by (simp add: r_def)
    next
      case s: False
      then have "level_keep level = None \<or> flat_lists v \<or> direct_only v"
        using 8(4) False none_direct by (auto simp: direct_only_def stays_def)
      then show ?thesis using 8(2) [OF False] s r by (auto simp: r_def stays_def)
    qed
    ultimately show ?thesis
      using False r unfolding r_def
      by (auto split: prod.splits)
  qed
qed (auto simp: direct_only_def none_direct_items split: prod.splits)

text \<open>Keeping identifiers only, too.\<close>

lemma not_filled_identifiers: "\<not> filled v \<Longrightarrow> identifiers v = []"
  by (cases v) auto

lemma ids_subset:
  "mset (identifiers (fst (ids_only v st))) \<subseteq># mset (identifiers v)"
  "mset (item_identifiers (fst (ids_items vs st))) \<subseteq># mset (item_identifiers vs)"
  "mset (field_identifiers (fst (ids_fields kvs st))) + mset (field_identifiers (id_ref kvs)) \<subseteq># mset (field_identifiers kvs)"
proof (induction v st and vs st and kvs st rule: ids_only_ids_items_ids_fields.induct)
  case (1 kvs st)
  then show ?case by (auto simp: add.commute split: prod.splits)
next
  case (5 v vs st)
  then show ?case
    by (auto split: prod.splits intro: subset_mset.add_mono subset_mset.add_increasing)
next
  case (7 k v kvs st)
  show ?case
  proof (cases "ref_entry (k, v) \<noteq> None \<or> k = COMPACTION_KEY \<or> \<not> is_nested v")
    case True
    then show ?thesis
      using 7(1) [OF True] unfolding id_ref_Cons field_Cons [of "(k, v)" kvs]
      by (auto simp del: field_identifiers.simps simp: subset_mset.add_increasing add.left_commute)
  next
    case False
    obtain w st' where r: "ids_only v st = (w, st')" by force
    have w: "mset (identifiers w) \<subseteq># mset (identifiers v)" using 7(2) [OF False] r by simp
    have rest: "mset (field_identifiers (fst (ids_fields kvs st'))) + mset (field_identifiers (id_ref kvs))
        \<subseteq># mset (field_identifiers kvs)"
      using 7(3) [OF False] r by simp
    have "\<not> id_value v" using False by (cases v) auto
    then have "field_identifiers [(k, v)] = identifiers v" using False by simp
    moreover have "\<not> id_value w \<or> \<not> filled w" by (cases w) auto
    ultimately show ?thesis
      using w rest r False unfolding id_ref_Cons field_Cons [of "(k, v)" kvs]
      by (auto simp: add.assoc split: prod.splits intro: subset_mset.add_mono subset_mset.add_increasing)
  qed
qed (auto split: prod.splits)

lemma id_value_object: "id_value v \<Longrightarrow> object_lists v"
  by (cases v) auto

lemma none_object:
  "identifiers v = [] \<Longrightarrow> object_lists v"
  "item_identifiers vs = [] \<Longrightarrow> object_items vs"
  "field_identifiers kvs = [] \<Longrightarrow> object_fields kvs"
  by (induction v and vs and kvs rule: identifiers_item_identifiers_field_identifiers.induct)
    (auto split: if_splits intro: id_value_object)

lemma direct_object: "direct_only v \<Longrightarrow> identifiers v = [] \<or> is_object v \<and> object_lists v"
proof -
  have fields: "list_all (\<lambda>(k, w). k = COMPACTION_KEY \<or> is_id_key k \<and> id_value w \<or> identifiers w = []) kvs \<Longrightarrow> object_fields kvs" for kvs
    by (induction kvs) (auto intro: none_object id_value_object)
  assume "direct_only v"
  then show ?thesis by (cases v) (auto simp: direct_only_def fields)
qed

lemma flat_object: "flat_lists v \<Longrightarrow> object_lists v" "flat_fields kvs \<Longrightarrow> object_fields kvs"
proof (induction v and kvs rule: flat_lists_flat_fields.induct)
  case (1 vs)
  then have "list_all direct_only vs" by simp
  then have "object_items vs" by (induction vs) (auto dest: direct_object)
  then show ?case by simp
qed auto

lemma ids_keep:
  "object_lists v \<Longrightarrow> is_nested v \<Longrightarrow> mset (identifiers (fst (ids_only v st))) = mset (identifiers v)"
  "object_items vs \<Longrightarrow> mset (item_identifiers (fst (ids_items vs st))) = mset (item_identifiers vs)"
  "object_fields kvs \<Longrightarrow>
   mset (field_identifiers (fst (ids_fields kvs st))) + mset (field_identifiers (id_ref kvs)) = mset (field_identifiers kvs)"
proof (induction v st and vs st and kvs st rule: ids_only_ids_items_ids_fields.induct)
  case (1 kvs st)
  then show ?case by (auto simp: add.commute split: prod.splits)
next
  case (2 vs st)
  then show ?case by (auto split: prod.splits)
next
  case (5 v vs st)
  show ?case
  proof (cases "is_object v")
    case True
    obtain w st' where r: "ids_only v st = (w, st')" by force
    have n: "is_nested v" using True by (cases v) auto
    have "mset (identifiers w) = mset (identifiers v)"
    proof (cases "identifiers v = []")
      case True
      then show ?thesis using ids_subset(1) [of v st] r by simp
    qed (use 5 True n r in auto)
    then show ?thesis using 5 True r not_filled_identifiers [of w] by (auto split: prod.splits)
  qed (use 5 in auto)
next
  case (7 k v kvs st)
  have tail: "object_fields kvs" using 7(4) by simp
  show ?case
  proof (cases "ref_entry (k, v) \<noteq> None \<or> k = COMPACTION_KEY \<or> \<not> is_nested v")
    case True
    have "ref_entry (k, v) = None \<Longrightarrow> field_identifiers [(k, v)] = []"
      using True no_ref_entry [of k v] by (cases v) auto
    then show ?thesis
      using 7(1) [OF True tail] True unfolding id_ref_Cons field_Cons [of "(k, v)" kvs]
      by (auto simp del: field_identifiers.simps simp: add.left_commute)
  next
    case False
    obtain w st' where r: "ids_only v st = (w, st')" by force
    have nid: "\<not> id_value v" using False by (cases v) auto
    have w: "mset (identifiers w) = mset (identifiers v)" using 7(2) [OF False] 7(4) False r by simp
    have rest: "mset (field_identifiers (fst (ids_fields kvs st'))) + mset (field_identifiers (id_ref kvs))
        = mset (field_identifiers kvs)"
      using 7(3) [OF False _ tail] r by simp
    have "field_identifiers [(k, v)] = identifiers v" using False nid by simp
    moreover have "\<not> id_value w \<or> \<not> filled w" by (cases w) auto
    ultimately show ?thesis
      using w rest r False not_filled_identifiers [of w] unfolding id_ref_Cons field_Cons [of "(k, v)" kvs]
      by (auto simp: add.assoc split: prod.splits)
  qed
qed (auto split: prod.splits)


section \<open>What a shrunk result keeps\<close>

lemma fields_without_note: "COMPACTION_KEY \<notin> fst ` set (fst (shrink_fields level b kvs st))"
proof (induction kvs arbitrary: st)
  case (Cons e kvs)
  obtain k v where e: "e = (k, v)" by force
  show ?case
  proof (cases "k = COMPACTION_KEY")
    case False
    define r where "r = (if stays k v then (v, st) else shrink level b v st)"
    obtain w st' where r: "r = (w, st')" by force
    show ?thesis using Cons.IH [of st'] False e r unfolding r_def by (auto split: prod.splits)
  qed (use Cons e in simp)
qed simp

lemma ref_key: "ref_entry (k, v) = Some e \<Longrightarrow> fst e = k \<and> k \<noteq> COMPACTION_KEY"
  using state_keys_plain(3-5) state_list_identifiers(3) by (fastforce simp: ref_entry_def is_state_def split: if_splits)

lemma id_ref_without_note: "COMPACTION_KEY \<notin> fst ` set (id_ref kvs)"
  by (induction kvs) (auto split: option.splits dest: ref_key)

lemma ids_fields_without_note: "COMPACTION_KEY \<notin> fst ` set (fst (ids_fields kvs st))"
proof (induction kvs arbitrary: st)
  case (Cons e kvs)
  obtain k v where e: "e = (k, v)" by force
  obtain w st' where r: "ids_only v st = (w, st')" by force
  show ?case
  proof (cases "ref_entry (k, v) \<noteq> None \<or> k = COMPACTION_KEY \<or> \<not> is_nested v")
    case False
    then show ?thesis using Cons.IH [of st'] r e by (auto split: prod.splits)
  qed (use Cons.IH [of st] e in simp)
qed simp

lemma state_stays: "is_state k v \<Longrightarrow> (k, v) \<in> set kvs \<Longrightarrow> (k, v) \<in> set (fst (shrink_fields level b kvs st))"
proof (induction kvs arbitrary: st)
  case (Cons e kvs)
  obtain l u where e: "e = (l, u)" by force
  show ?case
  proof (cases "l = COMPACTION_KEY")
    case True
    then show ?thesis using Cons e state_keys_plain(3) by (auto simp: is_state_def)
  next
    case False
    define r where "r = (if stays l u then (u, st) else shrink level b u st)"
    obtain w st' where r: "r = (w, st')" by force
    have "(l, u) = (k, v) \<Longrightarrow> w = v" using r Cons.prems(1) by (auto simp: r_def stays_def)
    then show ?thesis
      using Cons.IH [of st'] Cons.prems False e r unfolding r_def by (auto split: prod.splits)
  qed
qed simp

lemma state_marked: "is_state k v \<Longrightarrow> (k, v) \<in> set kvs \<Longrightarrow> (k, v) \<in> set (mark_truncated kvs)"
  by (auto simp: mark_truncated_def is_state_def STATE_KEYS_def TRUNCATED_KEY_def chars_def image_iff
      intro!: bexI [where x = "(k, v)"])

lemma state_in_ref: "is_state k v \<Longrightarrow> (k, v) \<in> set kvs \<Longrightarrow> (k, v) \<in> set (id_ref kvs)"
  by (induction kvs) (auto simp: ref_entry_def split: option.splits)

lemma mark_truncated_keys: "fst ` set (mark_truncated kvs) = fst ` set kvs"
  by (force simp: mark_truncated_def)

text \<open>When a level keeps every identifier.\<close>

definition keeps_all :: "nat \<Rightarrow> fields \<Rightarrow> bool" where
  "keeps_all level kvs = (level = 1 \<or> flat_fields kvs \<or> 4 \<le> level \<and> object_fields kvs)"

lemma shrunk_fields_keep:
  assumes "shrunk_fields level kvs = (ws, st)" and "1 \<le> level"
  shows "mset (field_identifiers ws) \<subseteq># mset (field_identifiers kvs)"
    and "keeps_all level kvs \<Longrightarrow> mset (field_identifiers ws) = mset (field_identifiers kvs)"
    and "COMPACTION_KEY \<notin> fst ` set ws"
    and "is_state k v \<Longrightarrow> (k, v) \<in> set kvs \<Longrightarrow> (k, v) \<in> set ws"
proof -
  consider (refs) "OLDER_MAX_LEVEL \<le> level" | (clips) "\<not> OLDER_MAX_LEVEL \<le> level" by blast
  then have "mset (field_identifiers ws) \<subseteq># mset (field_identifiers kvs)
    \<and> (keeps_all level kvs \<longrightarrow> mset (field_identifiers ws) = mset (field_identifiers kvs)) \<and> COMPACTION_KEY \<notin> fst ` set ws
    \<and> (is_state k v \<longrightarrow> (k, v) \<in> set kvs \<longrightarrow> (k, v) \<in> set ws)"
  proof cases
    case refs
    obtain ns st' where ns: "ids_fields kvs no_stats = (ns, st')" by force
    have ws: "ws = id_ref kvs @ ns" using assms(1) refs ns by (simp add: shrunk_fields_def)
    have "keeps_all level kvs \<Longrightarrow> object_fields kvs"
      using refs flat_object(2) [of kvs] by (auto simp: keeps_all_def OLDER_MAX_LEVEL_def)
    then show ?thesis
      using ids_subset(3) [of kvs no_stats] ids_keep(3) [of kvs no_stats] ns ws id_ref_without_note [of kvs]
        ids_fields_without_note [of kvs no_stats] state_in_ref [of k v kvs]
      by (auto simp: add.commute)
  next
    case clips
    obtain ns st' where ns: "shrink_fields level False kvs no_stats = (ns, st')" by force
    have ws: "ws = ns \<or> ws = mark_truncated ns"
      using assms(1) clips ns by (auto simp: shrunk_fields_def split: if_splits)
    have "keeps_all level kvs \<Longrightarrow> level_keep level = None \<or> flat_fields kvs"
      using clips by (auto simp: keeps_all_def level_keep_def OLDER_MAX_LEVEL_def)
    then have "keeps_all level kvs \<Longrightarrow> field_identifiers ns = field_identifiers kvs"
      using shrink_keeps(3) [of level kvs False no_stats] ns by auto
    moreover have "mset (field_identifiers ns) \<subseteq># mset (field_identifiers kvs)"
      using shrink_subset(3) [of level False kvs no_stats] ns by simp
    ultimately show ?thesis
      using ws fields_without_note [of level False kvs no_stats] ns state_stays [of k v kvs level False no_stats]
        state_marked [of k v ns] mark_truncated_keys [of ns]
      by auto
  qed
  then show "mset (field_identifiers ws) \<subseteq># mset (field_identifiers kvs)"
    "keeps_all level kvs \<Longrightarrow> mset (field_identifiers ws) = mset (field_identifiers kvs)" "COMPACTION_KEY \<notin> fst ` set ws"
    "is_state k v \<Longrightarrow> (k, v) \<in> set kvs \<Longrightarrow> (k, v) \<in> set ws" by blast+
qed

lemma original_chars_noted:
  "COMPACTION_KEY \<notin> fst ` set ws \<Longrightarrow> original_chars (ws @ [(COMPACTION_KEY, compaction_note cw n st reader rerunnable)]) s = n"
  by (auto simp: original_chars_def compaction_note_def map_add_def dom_def
      dest: map_of_SomeD split: option.splits) (metis fst_conv image_eqI map_of_SomeD)+

text \<open>C11: a shrunk JSON result keeps its working state and the length of the first original, gains no identifier and is
  never longer. It keeps every identifier at level 1 whatever its form, from level 4 on when the items of its lists that
  carry identifiers are objects, and at every level when these items carry them themselves; at levels 2 and 3 identifiers
  deeper inside an item may go, as nested_identifier_is_lost shows. Needed of JSON is only that the shrunk value is read back
  as written.\<close>

theorem compacted_results_keep_their_identifiers:
  assumes "cw_loads cw output = Some (JObject kvs)" and "1 \<le> level"
    and "cw_loads cw (cw_dumps cw (compacted_value cw level reader rerunnable output kvs)) =
           Some (compacted_value cw level reader rerunnable output kvs)"
  shows "\<exists>ws. cw_loads cw (compact_output cw level reader rerunnable output) = Some (JObject ws)
    \<and> mset (field_identifiers ws) \<subseteq># mset (field_identifiers kvs)
    \<and> (level = 1 \<or> flat_fields kvs \<or> 4 \<le> level \<and> object_fields kvs \<longrightarrow>
         mset (field_identifiers ws) = mset (field_identifiers kvs))
    \<and> {e \<in> set kvs. is_state (fst e) (snd e)} \<subseteq> set ws
    \<and> original_chars ws (compact_output cw level reader rerunnable output) = original_chars kvs output
    \<and> length (compact_output cw level reader rerunnable output) \<le> length output"
proof (cases "compact_output cw level reader rerunnable output = output")
  case True
  then show ?thesis using assms(1) by auto
next
  case False
  obtain ws st where ws: "shrunk_fields level kvs = (ws, st)" by force
  note keep = shrunk_fields_keep [OF ws assms(2), unfolded keeps_all_def]
  let ?v = "compacted_value cw level reader rerunnable output kvs"
  have v: "?v = JObject (ws @ [(COMPACTION_KEY, compaction_note cw (original_chars kvs output) st reader rerunnable)])"
    by (simp add: compacted_value_def ws)
  have c: "compact_output cw level reader rerunnable output = cw_dumps cw ?v" "length (cw_dumps cw ?v) < length output"
    using False assms(1) by (auto simp: compact_output_def Let_def split: if_splits)
  show ?thesis
    using c assms(3) keep original_chars_noted [OF keep(3)] unfolding v by auto
qed


section \<open>An example, and two places where more is lost than meant\<close>

definition example_result :: fields where
  "example_result =
     [(chars ''evidence'', JList [JObject [(chars ''document_id'', JText (chars ''d'')), (chars ''excerpt'', JText (chars ''long''))]]),
      (chars ''status'', JText (chars ''ok''))]"

definition example_shrunk :: wide_json where
  "example_shrunk =
     JObject [(chars ''evidence'', JList [JObject [(chars ''document_id'', JText (chars ''d''))]]),
       (chars ''status'', JText (chars ''ok'')),
       (COMPACTION_KEY, JObject [(ORIGINAL_CHARS_KEY, JInt 3), (chars ''next_step'', JText [])])]"

definition example_words :: compaction_words where
  "example_words =
     \<lparr>cw_loads = (\<lambda>s. if s = [7] then Some example_shrunk else if length s = 3 then Some (JObject example_result) else None),
      cw_dumps = (\<lambda>_. [7]), cw_next_step = (\<lambda>_ _ _ _. []), cw_cut_note = (\<lambda>_ _. [])\<rparr>"

lemmas example_defs = example_result_def example_shrunk_def example_words_def

lemma example_compacted: "compacted_value example_words 3 None False [1, 2, 3] example_result = example_shrunk"
  by code_simp

theorem compacted_results_keep_their_identifiers_witness:
  "\<exists>ws. cw_loads example_words (compact_output example_words 3 None False [1, 2, 3]) = Some (JObject ws)
    \<and> mset (field_identifiers ws) = mset (field_identifiers example_result)
    \<and> {e \<in> set example_result. is_state (fst e) (snd e)} \<subseteq> set ws"
proof -
  have "cw_loads example_words [1, 2, 3] = Some (JObject example_result)" by (simp add: example_words_def)
  moreover have "flat_fields example_result" by code_simp
  moreover have "cw_loads example_words (cw_dumps example_words (compacted_value example_words 3 None False [1, 2, 3] example_result)) =
      Some (compacted_value example_words 3 None False [1, 2, 3] example_result)"
    unfolding example_compacted by (simp add: example_words_def)
  ultimately show ?thesis using compacted_results_keep_their_identifiers [of example_words "[1, 2, 3]" example_result 3 None False] by auto
qed

text \<open>A later item of a list that carries its identifier inside a value of its own loses it at level 2, where level 4
  keeps it.\<close>

definition nested_result :: fields where
  "nested_result =
     [(chars ''evidence'', JList (replicate 5 (JObject []) @
        [JObject [(chars ''origin'', JObject [(chars ''document_id'', JText (chars ''d''))])]]))]"

lemma nested_identifier_is_lost:
  "field_identifiers (fst (shrunk_fields 2 nested_result)) = []"
  "field_identifiers (fst (shrunk_fields 4 nested_result)) = field_identifiers nested_result"
  "field_identifiers nested_result = [(chars ''document_id'', JText (chars ''d''))]"
  by code_simp+

text \<open>A result that is no JSON object and barely too long gets longer.\<close>

lemma cut_text_may_grow:
  assumes "cw_loads cw output = None" and "length output = text_limit (min level 4) + 1"
    and "1 < length (cw_cut_note cw (length output) (text_limit (min level 4)))"
  shows "length output < length (compact_output cw level reader rerunnable output)"
  using assms by (simp add: compact_output_def Let_def OLDER_MAX_LEVEL_def)

end
