(* ===== verification/ContextWindow.thy ===== *)
theory ContextWindow
  imports ContextShrink
begin

text \<open>The input of a model call kept within the input limit of the model (\<open>agent/backend/app/features/agent/context_window.py\<close>):
  the estimate of tokens, the budget, and \<open>compact_items\<close>, which shrinks the results of tools, the older ones
  first, until the input fits. Images and their estimates, and what Python writes of other values, are arguments.\<close>

section \<open>Estimates and the budget\<close>

definition estimate_input_tokens :: "points \<Rightarrow> nat" where
  "estimate_input_tokens s =
     (let ascii_count = length (filter (\<lambda>c. c < 128) s) in (length s - ascii_count) + (ascii_count + 3) div 4)"

record context_budget =
  bd_max_input :: int
  bd_max_output :: int
  bd_scale :: rat
  bd_margin_ratio :: rat

definition output_reserve :: "context_budget \<Rightarrow> int" where
  "output_reserve b = max 0 (min (bd_max_output b) (bd_max_input b div 2))"

definition margin_tokens :: "context_budget \<Rightarrow> int" where
  "margin_tokens b = max 0 \<lceil>of_int (bd_max_input b) * bd_margin_ratio b\<rceil>"

definition input_tokens :: "context_budget \<Rightarrow> int option \<Rightarrow> int" where
  "input_tokens b max_input =
     (let limit = (case max_input of Some m \<Rightarrow> if 0 < m then min (bd_max_input b) m else bd_max_input b | None \<Rightarrow> bd_max_input b)
      in max 0 (limit - output_reserve b - margin_tokens b))"

definition estimate :: "context_budget \<Rightarrow> points \<Rightarrow> int" where
  "estimate b s = \<lceil>of_nat (estimate_input_tokens s) * bd_scale b\<rceil>"

section \<open>The items of an input\<close>

text \<open>A dictionary, an object of the SDK that dumps to one, or something else, with the text \<open>str\<close> gives.\<close>

datatype entry = Item fields | Model fields | Other points

fun as_dict :: "entry \<Rightarrow> fields option" where
  "as_dict (Item kvs) = Some kvs"
| "as_dict (Model kvs) = Some kvs"
| "as_dict (Other s) = None"

datatype removal = Duplicate | ImageLimit | OverBudget

text \<open>\<open>win_image\<close>: the id of an image, empty if the URL holds no data, and its estimate of tokens.\<close>

record window =
  win_words :: compaction_words
  win_image :: "points \<Rightarrow> points \<times> nat"
  win_str :: "wide_json \<Rightarrow> points"
  win_image_note :: "removal \<Rightarrow> points \<Rightarrow> points option \<Rightarrow> bool \<Rightarrow> points"
  win_read_tool :: "points \<Rightarrow> points option"
  win_rerunnable :: "points \<Rightarrow> bool"

definition field_of :: "fields \<Rightarrow> string \<Rightarrow> wide_json" where
  "field_of kvs k = json_get kvs (chars k)"

definition put_field :: "string \<Rightarrow> wide_json \<Rightarrow> fields \<Rightarrow> fields" where
  "put_field k v kvs =
     (if chars k \<in> fst ` set kvs then map (\<lambda>(l, w). (l, if l = chars k then v else w)) kvs else kvs @ [(chars k, v)])"

fun truth_value :: "wide_json \<Rightarrow> bool" where
  "truth_value JNull = False"
| "truth_value (JBool b) = b"
| "truth_value (JInt n) = (n \<noteq> 0)"
| "truth_value (JFloat r) = (r \<noteq> 0)"
| "truth_value (JText s) = (s \<noteq> [])"
| "truth_value (JList vs) = (vs \<noteq> [])"
| "truth_value (JObject kvs) = (kvs \<noteq> [])"

text \<open>\<open>str(v or "")\<close>.\<close>

definition text_of :: "window \<Rightarrow> wide_json \<Rightarrow> points" where
  "text_of w v = (case v of JText s \<Rightarrow> s | _ \<Rightarrow> if truth_value v then win_str w v else [])"

definition part_type :: "wide_json \<Rightarrow> wide_json" where
  "part_type v = (case v of JObject kvs \<Rightarrow> field_of kvs ''type'' | _ \<Rightarrow> JNull)"

definition is_text_part :: "wide_json \<Rightarrow> bool" where
  "is_text_part v = (part_type v \<in> {JText (chars ''input_text''), JText (chars ''text'')})"

definition is_image_part :: "wide_json \<Rightarrow> bool" where
  "is_image_part v = (part_type v \<in> {JText (chars ''input_image''), JText (chars ''image'')})"

definition part_field :: "wide_json \<Rightarrow> string \<Rightarrow> wide_json" where
  "part_field v k = (case v of JObject kvs \<Rightarrow> field_of kvs k | _ \<Rightarrow> JNull)"

definition output_texts :: "window \<Rightarrow> wide_json list \<Rightarrow> points list" where
  "output_texts w ps = map (\<lambda>p. text_of w (part_field p ''text'')) (filter is_text_part ps)"

definition image_url :: "wide_json \<Rightarrow> points" where
  "image_url p = (case part_field p ''image_url'' of JText u \<Rightarrow> u | _ \<Rightarrow> [])"

definition output_images :: "wide_json list \<Rightarrow> (nat \<times> points) list" where
  "output_images ps = map (\<lambda>(i, p). (i, image_url p)) (filter (\<lambda>(i, p). is_image_part p) (enumerate 0 ps))"

definition TOOL_OUTPUT :: wide_json where "TOOL_OUTPUT = JText (chars ''function_call_output'')"

definition is_output_type :: "fields \<Rightarrow> bool" where
  "is_output_type kvs = (field_of kvs ''type'' = TOOL_OUTPUT)"

definition image_tokens :: "window \<Rightarrow> fields option \<Rightarrow> nat" where
  "image_tokens w d =
     (case d of
        None \<Rightarrow> 0
      | Some kvs \<Rightarrow>
          if is_output_type kvs
          then (case field_of kvs ''output'' of
                  JList ps \<Rightarrow> sum_list (map (\<lambda>(i, u). snd (win_image w u)) (output_images ps)) | _ \<Rightarrow> 0)
          else 0)"

fun join_lines :: "points list \<Rightarrow> points" where
  "join_lines [] = []"
| "join_lines [s] = s"
| "join_lines (s # ss) = s @ 10 # join_lines ss"

definition message_keys :: "points list" where
  "message_keys = map chars [''role'', ''content'', ''type'']"

definition item_text :: "window \<Rightarrow> entry \<Rightarrow> points" where
  "item_text w e =
     (case (e, as_dict e) of
        (Other s, _) \<Rightarrow> s
      | (_, None) \<Rightarrow> []
      | (_, Some kvs) \<Rightarrow>
          (case (is_output_type kvs, field_of kvs ''output'') of
             (True, JText s) \<Rightarrow> s
           | (True, JList ps) \<Rightarrow> join_lines (output_texts w ps)
           | _ \<Rightarrow>
               (case field_of kvs ''content'' of
                  JText s \<Rightarrow> if fst ` set kvs \<subseteq> set message_keys then s else cw_dumps (win_words w) (JObject kvs)
                | _ \<Rightarrow> cw_dumps (win_words w) (JObject kvs))))"

definition ITEM_OVERHEAD :: int where "ITEM_OVERHEAD = 8"

definition item_tokens :: "window \<Rightarrow> context_budget \<Rightarrow> entry \<Rightarrow> int" where
  "item_tokens w b e =
     estimate b (item_text w e) + \<lceil>of_nat (image_tokens w (as_dict e)) * bd_scale b\<rceil> + ITEM_OVERHEAD"

definition estimate_tokens :: "window \<Rightarrow> context_budget \<Rightarrow> points \<Rightarrow> entry list \<Rightarrow> int" where
  "estimate_tokens w b fixed es = estimate b fixed + sum_list (map (item_tokens w b) es)"

definition call_names :: "entry list \<Rightarrow> (points \<times> points) list" where
  "call_names es =
     List.map_filter
       (\<lambda>e. case as_dict e of
              None \<Rightarrow> None
            | Some kvs \<Rightarrow>
                if field_of kvs ''type'' = JText (chars ''function_call'')
                then (case (field_of kvs ''call_id'', field_of kvs ''name'') of (JText i, JText n) \<Rightarrow> Some (i, n) | _ \<Rightarrow> None)
                else None)
       (rev es)"

definition is_tool_output :: "entry \<Rightarrow> bool" where
  "is_tool_output e =
     (case as_dict e of
        None \<Rightarrow> False
      | Some kvs \<Rightarrow> is_output_type kvs \<and> (case field_of kvs ''output'' of JText _ \<Rightarrow> True | JList _ \<Rightarrow> True | _ \<Rightarrow> False))"

definition has_output_type :: "entry \<Rightarrow> bool" where
  "has_output_type e = (case as_dict e of None \<Rightarrow> False | Some kvs \<Rightarrow> is_output_type kvs)"

fun latest_start :: "entry list \<Rightarrow> nat \<Rightarrow> nat" where
  "latest_start es 0 = 0"
| "latest_start es (Suc i) = (if has_output_type (es ! i) then latest_start es i else Suc i)"

definition latest_outputs :: "entry list \<Rightarrow> nat list \<Rightarrow> nat list" where
  "latest_outputs es outputs = (if outputs = [] then [] else filter (\<lambda>p. latest_start es (last outputs) \<le> p) outputs)"

definition parts_of :: "entry \<Rightarrow> wide_json list" where
  "parts_of e = (case as_dict e of None \<Rightarrow> [] | Some kvs \<Rightarrow> (case field_of kvs ''output'' of JList ps \<Rightarrow> ps | _ \<Rightarrow> []))"

definition primary_text :: "window \<Rightarrow> entry \<Rightarrow> points" where
  "primary_text w e =
     (case as_dict e of
        None \<Rightarrow> []
      | Some kvs \<Rightarrow>
          (case field_of kvs ''output'' of
             JText s \<Rightarrow> s
           | _ \<Rightarrow> (case output_texts w (parts_of e) of [] \<Rightarrow> [] | t # ts \<Rightarrow> t)))"

definition text_part :: "points \<Rightarrow> wide_json" where
  "text_part s = JObject [(chars ''type'', JText (chars ''input_text'')), (chars ''text'', JText s)]"

fun replace_first_text :: "points \<Rightarrow> wide_json list \<Rightarrow> wide_json list" where
  "replace_first_text s [] = []"
| "replace_first_text s (p # ps) = (if is_text_part p then text_part s # ps else p # replace_first_text s ps)"

definition with_output :: "wide_json \<Rightarrow> entry \<Rightarrow> entry" where
  "with_output v e = (case as_dict e of None \<Rightarrow> e | Some kvs \<Rightarrow> Item (put_field ''output'' v kvs))"

definition with_primary_text :: "entry \<Rightarrow> points \<Rightarrow> entry" where
  "with_primary_text e s =
     (case map_option (\<lambda>kvs. field_of kvs ''output'') (as_dict e) of
        Some (JText _) \<Rightarrow> with_output (JText s) e
      | _ \<Rightarrow> with_output (JList (replace_first_text s (parts_of e))) e)"

definition without_images :: "window \<Rightarrow> nat list \<Rightarrow> removal \<Rightarrow> points option \<Rightarrow> bool \<Rightarrow> entry \<Rightarrow> entry" where
  "without_images w positions reason reader rerunnable e =
     with_output
       (JList (map (\<lambda>(i, p). if is_image_part p \<and> i \<in> set positions
                             then text_part (win_image_note w reason (fst (win_image w (image_url p))) reader rerunnable) else p)
          (enumerate 0 (parts_of e)))) e"


section \<open>Compaction\<close>

definition MAX_IMAGES_IN_INPUT :: nat where "MAX_IMAGES_IN_INPUT = 8"

text \<open>The input: the items, their names of calls, the positions of the results and the latest of them.\<close>

record layout =
  ly_window :: window
  ly_budget :: context_budget
  ly_limit :: int
  ly_fixed :: int
  ly_items :: "entry list"
  ly_outputs :: "nat list"
  ly_latest :: "nat list"

definition layout_of :: "window \<Rightarrow> context_budget \<Rightarrow> points \<Rightarrow> int option \<Rightarrow> entry list \<Rightarrow> layout" where
  "layout_of w b fixed max_input es =
     (let outputs = filter (\<lambda>i. is_tool_output (es ! i)) [0..<length es]
      in \<lparr>ly_window = w, ly_budget = b, ly_limit = input_tokens b max_input, ly_fixed = estimate b fixed, ly_items = es,
          ly_outputs = outputs, ly_latest = latest_outputs es outputs\<rparr>)"

record progress =
  pg_items :: "entry list"
  pg_tokens :: "int list"
  pg_total :: int
  pg_levels :: "nat \<Rightarrow> nat option"
  pg_removed :: "nat \<Rightarrow> (nat \<times> removal) option"

definition call_id_of :: "layout \<Rightarrow> nat \<Rightarrow> points" where
  "call_id_of ly i =
     (case as_dict (ly_items ly ! i) of None \<Rightarrow> [] | Some kvs \<Rightarrow> text_of (ly_window ly) (field_of kvs ''call_id''))"

definition tool_name_of :: "layout \<Rightarrow> nat \<Rightarrow> points" where
  "tool_name_of ly i = (case map_of (call_names (ly_items ly)) (call_id_of ly i) of None \<Rightarrow> [] | Some n \<Rightarrow> n)"

definition hints :: "layout \<Rightarrow> nat \<Rightarrow> points option \<times> bool" where
  "hints ly i =
     (let n = tool_name_of ly i
      in (if n = [] then None else win_read_tool (ly_window ly) n, n \<noteq> [] \<and> win_rerunnable (ly_window ly) n))"

definition drop_images :: "layout \<Rightarrow> nat \<Rightarrow> nat list \<Rightarrow> removal \<Rightarrow> progress \<Rightarrow> progress" where
  "drop_images ly i positions reason g =
     (if positions = [] then g
      else case hints ly i of
        (reader, rerunnable) \<Rightarrow>
          g\<lparr>pg_items := (pg_items g)[i := without_images (ly_window ly) positions reason reader rerunnable (pg_items g ! i)],
            pg_removed := (pg_removed g)(i \<mapsto> ((case pg_removed g i of None \<Rightarrow> 0 | Some (n, r) \<Rightarrow> n) + length positions, reason))\<rparr>)"

text \<open>The images of a result, the last one first: which are repeated by a later one and which are too many.\<close>

fun sift :: "window \<Rightarrow> (nat \<times> points) list \<Rightarrow> points set \<Rightarrow> nat \<Rightarrow> nat list \<times> nat list \<times> points set \<times> nat" where
  "sift w [] seen kept = ([], [], seen, kept)"
| "sift w ((p, u) # us) seen kept =
     (let i = (if fst (win_image w u) = [] then u else fst (win_image w u))
      in if i \<in> seen then (case sift w us seen kept of (ds, os, r) \<Rightarrow> (p # ds, os, r))
         else if MAX_IMAGES_IN_INPUT \<le> kept then (case sift w us (insert i seen) kept of (ds, os, r) \<Rightarrow> (ds, p # os, r))
         else sift w us (insert i seen) (Suc kept))"

fun limit_images :: "layout \<Rightarrow> nat list \<Rightarrow> points set \<Rightarrow> nat \<Rightarrow> progress \<Rightarrow> progress" where
  "limit_images ly [] seen kept g = g"
| "limit_images ly (i # is) seen kept g =
     (case sift (ly_window ly) (rev (output_images (parts_of (ly_items ly ! i)))) seen kept of
        (ds, os, seen, kept) \<Rightarrow>
          limit_images ly is seen kept (drop_images ly i os ImageLimit (drop_images ly i ds Duplicate g)))"

definition refresh :: "layout \<Rightarrow> nat \<Rightarrow> progress \<Rightarrow> progress" where
  "refresh ly i g =
     (let size = item_tokens (ly_window ly) (ly_budget ly) (pg_items g ! i)
      in g\<lparr>pg_total := pg_total g + (size - pg_tokens g ! i), pg_tokens := (pg_tokens g)[i := size]\<rparr>)"

definition shrink_item :: "layout \<Rightarrow> nat \<Rightarrow> nat \<Rightarrow> progress \<Rightarrow> progress" where
  "shrink_item ly level i g =
     (let e = pg_items g ! i; t = primary_text (ly_window ly) e
      in case hints ly i of
           (reader, rerunnable) \<Rightarrow>
             let s = compact_output (win_words (ly_window ly)) level reader rerunnable t
             in if s = t then g
                else (refresh ly i (g\<lparr>pg_items := (pg_items g)[i := with_primary_text e s]\<rparr>))
                  \<lparr>pg_levels := (pg_levels g)(i \<mapsto> level)\<rparr>)"

definition fitting :: "layout \<Rightarrow> progress \<Rightarrow> bool" where
  "fitting ly g = (pg_total g \<le> ly_limit ly)"

definition remove_images :: "layout \<Rightarrow> nat list \<Rightarrow> progress \<Rightarrow> progress" where
  "remove_images ly rs g =
     fold (\<lambda>i g. if fitting ly g then g
                 else let positions = map fst (output_images (parts_of (pg_items g ! i)))
                      in if positions = [] then g else refresh ly i (drop_images ly i positions OverBudget g))
       rs g"

text \<open>A group of results, level by level; nothing more is done once the input fits.\<close>

definition shrink_group :: "layout \<Rightarrow> nat \<Rightarrow> nat list \<Rightarrow> progress \<Rightarrow> progress" where
  "shrink_group ly max_level rs g =
     fold (\<lambda>level. fold (\<lambda>i g. if fitting ly g then g else shrink_item ly level i g) rs) [1..<Suc max_level] g"

definition start :: "layout \<Rightarrow> progress" where
  "start ly =
     (let g = limit_images ly (rev (ly_outputs ly)) {} 0
                \<lparr>pg_items = ly_items ly, pg_tokens = [], pg_total = 0, pg_levels = Map.empty, pg_removed = Map.empty\<rparr>;
          tokens = map (item_tokens (ly_window ly) (ly_budget ly)) (pg_items g)
      in g\<lparr>pg_tokens := tokens, pg_total := ly_fixed ly + sum_list tokens\<rparr>)"

definition fit_input :: "layout \<Rightarrow> progress" where
  "fit_input ly =
     (let g = start ly
      in if fitting ly g then g
         else
           let older = filter (\<lambda>i. i \<notin> set (ly_latest ly)) (ly_outputs ly);
               newest = filter (\<lambda>i. i \<in> set (ly_latest ly)) (ly_outputs ly);
               g = shrink_group ly OLDER_MAX_LEVEL older (remove_images ly older g);
               g = (if fitting ly g then g else shrink_group ly LATEST_MAX_LEVEL newest g)
           in remove_images ly newest g)"

record compacted_entry =
  ce_call :: points
  ce_tool :: points
  ce_level :: nat
  ce_original_chars :: nat
  ce_compacted_chars :: nat
  ce_latest :: bool
  ce_images_removed :: nat
  ce_image_reason :: "removal option"

definition compacted_entry_of :: "layout \<Rightarrow> progress \<Rightarrow> nat \<Rightarrow> compacted_entry" where
  "compacted_entry_of ly g i =
     \<lparr>ce_call = call_id_of ly i, ce_tool = tool_name_of ly i,
      ce_level = (case pg_levels g i of None \<Rightarrow> 0 | Some l \<Rightarrow> l),
      ce_original_chars = length (primary_text (ly_window ly) (ly_items ly ! i)),
      ce_compacted_chars = length (primary_text (ly_window ly) (pg_items g ! i)),
      ce_latest = (i \<in> set (ly_latest ly)),
      ce_images_removed = (case pg_removed g i of None \<Rightarrow> 0 | Some (n, r) \<Rightarrow> n),
      ce_image_reason = map_option snd (pg_removed g i)\<rparr>"

record compaction =
  co_items :: "entry list"
  co_budget :: int
  co_fixed :: int
  co_before :: int
  co_after :: int
  co_outputs :: "compacted_entry list"
  co_images :: nat
  co_image_tokens :: int

definition remaining_images :: "entry list \<Rightarrow> points list" where
  "remaining_images es = concat (map (\<lambda>e. if is_tool_output e then map snd (output_images (parts_of e)) else []) es)"

definition compact_items :: "window \<Rightarrow> context_budget \<Rightarrow> points \<Rightarrow> int option \<Rightarrow> entry list \<Rightarrow> compaction" where
  "compact_items w b fixed max_input es =
     (let ly = layout_of w b fixed max_input es; g = fit_input ly; urls = remaining_images (pg_items g)
      in \<lparr>co_items = pg_items g, co_budget = ly_limit ly, co_fixed = ly_fixed ly,
          co_before = ly_fixed ly + sum_list (map (item_tokens w b) es), co_after = pg_total g,
          co_outputs = map (compacted_entry_of ly g)
            (filter (\<lambda>i. pg_levels g i \<noteq> None \<or> pg_removed g i \<noteq> None) [0..<length es]),
          co_images = length urls,
          co_image_tokens = \<lceil>of_nat (sum_list (map (\<lambda>u. snd (win_image w u)) urls)) * bd_scale b\<rceil>\<rparr>)"

definition fits :: "compaction \<Rightarrow> bool" where
  "fits r = (co_after r \<le> co_budget r)"

definition fixed_exceeds :: "compaction \<Rightarrow> bool" where
  "fixed_exceeds r = (co_budget r < co_fixed r)"


section \<open>After the provider refused an input, and the parts of an input\<close>

definition FALLBACK_PROVIDER_SCALE :: rat where "FALLBACK_PROVIDER_SCALE = 3 / 2"

text \<open>The new factor of the estimates, from the tokens estimated and those the provider counted.\<close>

definition retry_scale :: "context_budget \<Rightarrow> int \<Rightarrow> int option \<Rightarrow> int option \<Rightarrow> rat" where
  "retry_scale b estimated prompt limit =
     (let ratio = (case prompt of
                     Some p \<Rightarrow> if p \<noteq> 0 \<and> 0 < estimated then of_int p / of_int estimated else FALLBACK_PROVIDER_SCALE
                   | None \<Rightarrow> FALLBACK_PROVIDER_SCALE);
          ratio = (if ratio \<le> 1 \<and> limit = None then FALLBACK_PROVIDER_SCALE else ratio)
      in bd_scale b * max ratio 1)"

record composition =
  cp_static :: int
  cp_dynamic :: int
  cp_tools :: int
  cp_history :: int
  cp_outputs :: int
  cp_items :: nat

definition composition_total :: "composition \<Rightarrow> int" where
  "composition_total c = cp_static c + cp_dynamic c + cp_tools c + cp_history c + cp_outputs c"

definition split_instructions :: "points \<Rightarrow> points option \<Rightarrow> points \<times> points" where
  "split_instructions instructions static =
     (case static of
        Some s \<Rightarrow> if s \<noteq> [] \<and> starts s instructions then (s, drop (length s) instructions) else (instructions, [])
      | None \<Rightarrow> (instructions, []))"

definition input_composition :: "window \<Rightarrow> context_budget \<Rightarrow> points \<Rightarrow> points option \<Rightarrow> points option \<Rightarrow> entry list \<Rightarrow> composition" where
  "input_composition w b instructions static tools es =
     (case split_instructions instructions static of
        (s, d) \<Rightarrow>
          \<lparr>cp_static = estimate b s, cp_dynamic = estimate b d, cp_tools = (case tools of None \<Rightarrow> 0 | Some t \<Rightarrow> estimate b t),
           cp_history = sum_list (map (item_tokens w b) (filter (\<lambda>e. \<not> has_output_type e) es)),
           cp_outputs = sum_list (map (item_tokens w b) (filter has_output_type es)), cp_items = length es\<rparr>)"


end
