(* ===== verification/ContextBudget.thy ===== *)
theory ContextBudget
  imports ContextWindow
begin

text \<open>What the compaction of an input guarantees: only results of tools change, few images remain, the input fits or
  every means has been used, and the latest results change last.\<close>

section \<open>Entries\<close>

lemma chars_inj: "chars a = chars b \<longleftrightarrow> a = b"
proof
  show "chars a = chars b \<Longrightarrow> a = b"
    unfolding chars_def by (rule map_injective) (auto simp: inj_def of_char_eq_iff)
qed simp

lemma field_put [simp]:
  "field_of (put_field k v kvs) l = (if l = k then v else field_of kvs l)"
proof -
  have "map_of (map (\<lambda>(m, w). (m, if m = chars k then v else w)) kvs) x =
      (if x = chars k then map_option (\<lambda>_. v) (map_of kvs x) else map_of kvs x)" for x
    by (induction kvs) auto
  then show ?thesis
    by (auto simp: field_of_def json_get_def put_field_def chars_inj map_add_def dom_map_of_conv_image_fst [symmetric]
        split: option.splits)
qed

definition rest :: "fields \<Rightarrow> fields" where
  "rest kvs = filter (\<lambda>(k, v). k \<noteq> chars ''output'') kvs"

lemma rest_put [simp]: "rest (put_field ''output'' v kvs) = rest kvs"
proof -
  have "rest (map (\<lambda>(l, w). (l, if l = chars ''output'' then v else w)) kvs) = rest kvs"
    by (induction kvs) (auto simp: rest_def)
  then show ?thesis by (simp add: put_field_def) (simp add: rest_def)
qed

text \<open>The results of a tool, and what all of them keep.\<close>

definition same_call :: "entry \<Rightarrow> entry \<Rightarrow> bool" where
  "same_call e f = (e = f \<or> is_tool_output e \<and> is_tool_output f \<and> map_option rest (as_dict e) = map_option rest (as_dict f))"

lemma same_call_refl [simp]: "same_call e e"
  by (simp add: same_call_def)

lemma same_call_trans: "same_call e f \<Longrightarrow> same_call f h \<Longrightarrow> same_call e h"
  by (auto simp: same_call_def)

lemma same_call_output: "same_call e f \<Longrightarrow> is_tool_output f = is_tool_output e"
  by (auto simp: same_call_def)

lemma with_output_call:
  assumes "is_tool_output e" and "(\<exists>s. v = JText s) \<or> (\<exists>ps. v = JList ps)"
  shows "same_call e (with_output v e)"
  using assms
  by (auto simp: same_call_def is_tool_output_def with_output_def is_output_type_def split: option.splits)

lemma is_tool_output_cases:
  assumes "is_tool_output e"
  obtains (words) kvs s where "as_dict e = Some kvs" "is_output_type kvs" "field_of kvs ''output'' = JText s" "parts_of e = []"
    | (parts) kvs ps where "as_dict e = Some kvs" "is_output_type kvs" "field_of kvs ''output'' = JList ps" "parts_of e = ps"
  using assms by (auto simp: is_tool_output_def parts_of_def split: option.splits json_of.splits)

lemma parts_with_output:
  assumes "is_tool_output e"
  shows "parts_of (with_output (JList ps) e) = ps" "parts_of (with_output (JText s) e) = []"
  using assms by (auto simp: is_tool_output_def parts_of_def with_output_def split: option.splits)

lemma text_part_simps [simp]:
  "is_text_part (text_part s)" "\<not> is_image_part (text_part s)" "part_field (text_part s) ''text'' = JText s"
  by (auto simp: is_text_part_def is_image_part_def part_type_def text_part_def field_of_def json_get_def part_field_def
      chars_def)

lemma text_no_image: "is_text_part p \<Longrightarrow> \<not> is_image_part p"
  by (auto simp: is_text_part_def is_image_part_def chars_def)

definition text_first :: "entry \<Rightarrow> bool" where
  "text_first e = (case parts_of e of [] \<Rightarrow> True | p # ps \<Rightarrow> is_text_part p)"

lemma primary_words: "as_dict e = Some kvs \<Longrightarrow> field_of kvs ''output'' = JText s \<Longrightarrow> primary_text w e = s"
  by (simp add: primary_text_def)

lemma primary_parts:
  assumes "as_dict e = Some kvs" and "field_of kvs ''output'' = JList ps" and "ps = [] \<or> is_text_part (hd ps)"
  shows "primary_text w e = (case ps of [] \<Rightarrow> [] | p # qs \<Rightarrow> text_of w (part_field p ''text''))"
  using assms by (cases ps) (auto simp: primary_text_def output_texts_def parts_of_def)

lemma images_replaced [simp]: "output_images (replace_first_text s ps) = output_images ps"
proof -
  have "map (\<lambda>(i, p). (i, image_url p)) (filter (\<lambda>(i, p). is_image_part p) (enumerate n (replace_first_text s ps))) =
      map (\<lambda>(i, p). (i, image_url p)) (filter (\<lambda>(i, p). is_image_part p) (enumerate n ps))" for n
    by (induction ps arbitrary: n) (auto dest: text_no_image)
  then show ?thesis by (simp add: output_images_def)
qed

lemma compact_empty [simp]: "compact_output cw level reader rerunnable [] = []"
  by (simp add: compact_output_def Let_def split: option.split json_of.split)

text \<open>A new text: the images stay, the primary text is the new one.\<close>

lemma with_primary_text_facts:
  assumes e: "is_tool_output e" "text_first e" and s: "s \<noteq> primary_text w e" "primary_text w e = [] \<longrightarrow> s = []"
  shows "same_call e (with_primary_text e s)" "text_first (with_primary_text e s)"
    "output_images (parts_of (with_primary_text e s)) = output_images (parts_of e)"
    "primary_text w (with_primary_text e s) = s"
proof -
  have "same_call e (with_primary_text e s) \<and> text_first (with_primary_text e s)
    \<and> output_images (parts_of (with_primary_text e s)) = output_images (parts_of e)
    \<and> primary_text w (with_primary_text e s) = s"
    using e(1)
  proof (cases rule: is_tool_output_cases)
    case (words kvs t)
    then have "with_primary_text e s = with_output (JText s) e" by (simp add: with_primary_text_def)
    moreover have "with_output (JText s) e = Item (put_field ''output'' (JText s) kvs)" using words by (simp add: with_output_def)
    ultimately show ?thesis
      using words with_output_call [OF e(1), of "JText s"] parts_with_output(2) [OF e(1), of s]
      by (simp add: text_first_def primary_words)
  next
    case (parts kvs ps)
    then have "ps \<noteq> []" using s by (auto simp: primary_text_def output_texts_def)
    then obtain p qs where ps: "ps = p # qs" "is_text_part p" using e(2) parts by (cases ps) (auto simp: text_first_def)
    have eq: "with_primary_text e s = with_output (JList (text_part s # qs)) e"
      using parts ps by (simp add: with_primary_text_def)
    have i: "with_output (JList (text_part s # qs)) e = Item (put_field ''output'' (JList (text_part s # qs)) kvs)"
      using parts by (simp add: with_output_def)
    have "output_images (text_part s # qs) = output_images ps" using images_replaced [of s ps] ps by simp
    moreover have "primary_text w (with_output (JList (text_part s # qs)) e) = s"
      unfolding i by (subst primary_parts) (auto simp: text_of_def)
    ultimately show ?thesis
      using eq parts with_output_call [OF e(1), of "JList (text_part s # qs)"] parts_with_output(1) [OF e(1), of "text_part s # qs"]
      by (simp add: text_first_def)
  qed
  then show "same_call e (with_primary_text e s)" "text_first (with_primary_text e s)"
    "output_images (parts_of (with_primary_text e s)) = output_images (parts_of e)"
    "primary_text w (with_primary_text e s) = s" by blast+
qed


lemma with_primary_text_call:
  assumes e: "is_tool_output e"
  shows "same_call e (with_primary_text e s)"
    "output_images (parts_of (with_primary_text e s)) = output_images (parts_of e)"
proof -
  have "same_call e (with_primary_text e s) \<and> output_images (parts_of (with_primary_text e s)) = output_images (parts_of e)"
    using e
  proof (cases rule: is_tool_output_cases)
    case (words kvs t)
    then have "with_primary_text e s = with_output (JText s) e" by (simp add: with_primary_text_def)
    then show ?thesis using words with_output_call [OF e, of "JText s"] parts_with_output(2) [OF e, of s] by simp
  next
    case (parts kvs ps)
    then have "with_primary_text e s = with_output (JList (replace_first_text s ps)) e" by (simp add: with_primary_text_def)
    then show ?thesis
      using parts with_output_call [OF e, of "JList (replace_first_text s ps)"]
        parts_with_output(1) [OF e, of "replace_first_text s ps"]
      by simp
  qed
  then show "same_call e (with_primary_text e s)"
    "output_images (parts_of (with_primary_text e s)) = output_images (parts_of e)" by blast+
qed

text \<open>Images taken out: a note stands in the place of each, the text stays.\<close>

definition noted :: "window \<Rightarrow> nat list \<Rightarrow> (wide_json \<Rightarrow> wide_json) \<Rightarrow> nat \<Rightarrow> wide_json list \<Rightarrow> wide_json list" where
  "noted w ks mk n ps = map (\<lambda>(i, p). if is_image_part p \<and> i \<in> set ks then mk p else p) (enumerate n ps)"

lemma noted_images:
  assumes "\<And>p. \<not> is_image_part (mk p)"
  shows "map (\<lambda>(i, p). (i, image_url p)) (filter (\<lambda>(i, p). is_image_part p) (enumerate n (noted w ks mk n ps))) =
    filter (\<lambda>(i, u). i \<notin> set ks) (map (\<lambda>(i, p). (i, image_url p)) (filter (\<lambda>(i, p). is_image_part p) (enumerate n ps)))"
  using assms by (induction ps arbitrary: n) (auto simp: noted_def)

lemma without_images_facts:
  assumes e: "is_tool_output e" and k: "output_images (parts_of e) \<noteq> []"
  shows "same_call e (without_images w ks reason reader rerunnable e)"
    "output_images (parts_of (without_images w ks reason reader rerunnable e)) =
       filter (\<lambda>(i, u). i \<notin> set ks) (output_images (parts_of e))"
    "text_first e \<Longrightarrow> text_first (without_images w ks reason reader rerunnable e)
       \<and> primary_text w (without_images w ks reason reader rerunnable e) = primary_text w e"
proof -
  define mk where "mk p = text_part (win_image_note w reason (fst (win_image w (image_url p))) reader rerunnable)" for p
  have eq: "without_images w ks reason reader rerunnable e = with_output (JList (noted w ks mk 0 (parts_of e))) e"
    unfolding without_images_def noted_def mk_def ..
  show "same_call e (without_images w ks reason reader rerunnable e)"
    unfolding eq by (rule with_output_call) (use e in auto)
  show "output_images (parts_of (without_images w ks reason reader rerunnable e)) =
      filter (\<lambda>(i, u). i \<notin> set ks) (output_images (parts_of e))"
    unfolding eq parts_with_output(1) [OF e] output_images_def by (rule noted_images) (simp add: mk_def)
  assume t: "text_first e"
  show "text_first (without_images w ks reason reader rerunnable e)
      \<and> primary_text w (without_images w ks reason reader rerunnable e) = primary_text w e"
    using e
  proof (cases rule: is_tool_output_cases)
    case (words kvs s)
    then show ?thesis using k by (simp add: output_images_def)
  next
    case (parts kvs ps)
    then have "ps \<noteq> []" using k by (auto simp: output_images_def)
    then obtain p qs where ps: "ps = p # qs" "is_text_part p" using t parts by (cases ps) (auto simp: text_first_def)
    have n: "noted w ks mk 0 (p # qs) = p # noted w ks mk 1 qs" using ps(2) text_no_image by (auto simp: noted_def)
    have i: "with_output (JList (noted w ks mk 0 ps)) e = Item (put_field ''output'' (JList (noted w ks mk 0 ps)) kvs)"
      using parts by (simp add: with_output_def)
    have "primary_text w (Item (put_field ''output'' (JList (noted w ks mk 0 ps)) kvs)) = text_of w (part_field p ''text'')"
      by (subst primary_parts) (auto simp: n ps)
    moreover have "primary_text w e = text_of w (part_field p ''text'')"
      by (subst primary_parts) (auto simp: parts ps)
    ultimately show ?thesis
      using parts n ps i parts_with_output(1) [OF e, of "noted w ks mk 0 ps"] unfolding eq
      by (simp add: text_first_def)
  qed
qed

section \<open>Steps\<close>

definition consistent :: "layout \<Rightarrow> progress \<Rightarrow> bool" where
  "consistent ly g =
     (pg_tokens g = map (item_tokens (ly_window ly) (ly_budget ly)) (pg_items g)
      \<and> pg_total g = ly_fixed ly + sum_list (pg_tokens g))"

definition strip_entry :: "layout \<Rightarrow> nat \<Rightarrow> entry \<Rightarrow> entry" where
  "strip_entry ly i e =
     (let ks = map fst (output_images (parts_of e))
      in if ks = [] then e else case hints ly i of (reader, rerunnable) \<Rightarrow> without_images (ly_window ly) ks OverBudget reader rerunnable e)"

definition shrink_text :: "layout \<Rightarrow> nat \<Rightarrow> nat \<Rightarrow> points \<Rightarrow> points" where
  "shrink_text ly i level t =
     (case hints ly i of (reader, rerunnable) \<Rightarrow> compact_output (win_words (ly_window ly)) level reader rerunnable t)"

definition shrink_entry :: "layout \<Rightarrow> nat \<Rightarrow> nat \<Rightarrow> entry \<Rightarrow> entry" where
  "shrink_entry ly level i e =
     (let t = primary_text (ly_window ly) e; s = shrink_text ly i level t in if s = t then e else with_primary_text e s)"

lemma strip_entry_facts:
  assumes "is_tool_output e"
  shows "same_call e (strip_entry ly i e)" "output_images (parts_of (strip_entry ly i e)) = []"
    "text_first e \<Longrightarrow> text_first (strip_entry ly i e) \<and> primary_text (ly_window ly) (strip_entry ly i e) = primary_text (ly_window ly) e"
  using assms without_images_facts [of e]
  by (auto simp: strip_entry_def Let_def image_iff filter_empty_conv case_prod_beta split: prod.splits)

lemma shrink_entry_facts:
  assumes "is_tool_output e" "text_first e"
  shows "same_call e (shrink_entry ly level i e)" "text_first (shrink_entry ly level i e)"
    "output_images (parts_of (shrink_entry ly level i e)) = output_images (parts_of e)"
    "primary_text (ly_window ly) (shrink_entry ly level i e) = shrink_text ly i level (primary_text (ly_window ly) e)"
  using assms with_primary_text_facts [OF assms, of "shrink_text ly i level (primary_text (ly_window ly) e)" "ly_window ly"]
  by (auto simp: shrink_entry_def Let_def shrink_text_def split: prod.splits)

lemma sum_list_put: "i < length xs \<Longrightarrow> sum_list (xs[i := x]) = sum_list xs + (x - xs ! i)" for xs :: "int list"
proof (induction xs arbitrary: i)
  case (Cons y ys)
  then show ?case by (cases i) auto
qed simp

lemma refresh_consistent:
  assumes "consistent ly g" and "i < length (pg_items g)"
  shows "consistent ly (refresh ly i (g\<lparr>pg_items := (pg_items g)[i := e]\<rparr>))"
  using assms
  by (simp add: consistent_def refresh_def Let_def sum_list_put map_update)

lemma shrink_item_result:
  assumes "i < length (pg_items g)"
  shows "pg_items (shrink_item ly level i g) = (pg_items g)[i := shrink_entry ly level i (pg_items g ! i)]"
    and "consistent ly g \<Longrightarrow> consistent ly (shrink_item ly level i g)"
  using assms refresh_consistent [of ly g i]
  by (auto simp: shrink_item_def shrink_entry_def shrink_text_def refresh_def consistent_def Let_def split: prod.splits)

definition remove_step :: "layout \<Rightarrow> nat \<Rightarrow> progress \<Rightarrow> progress" where
  "remove_step ly i g =
     (let positions = map fst (output_images (parts_of (pg_items g ! i)))
      in if positions = [] then g else refresh ly i (drop_images ly i positions OverBudget g))"

lemma remove_step_result:
  assumes "i < length (pg_items g)"
  shows "pg_items (remove_step ly i g) = (pg_items g)[i := strip_entry ly i (pg_items g ! i)]"
    and "consistent ly g \<Longrightarrow> consistent ly (remove_step ly i g)"
  using assms refresh_consistent [of ly g i]
  by (auto simp: remove_step_def strip_entry_def drop_images_def refresh_def consistent_def Let_def split: prod.splits)

text \<open>A step of one result, repeated over a group.\<close>

definition local_step :: "layout \<Rightarrow> (nat \<Rightarrow> progress \<Rightarrow> progress) \<Rightarrow> (nat \<Rightarrow> entry \<Rightarrow> entry) \<Rightarrow> bool" where
  "local_step ly f h =
     (\<forall>i g. i < length (pg_items g) \<longrightarrow>
        pg_items (f i g) = (pg_items g)[i := h i (pg_items g ! i)] \<and> (consistent ly g \<longrightarrow> consistent ly (f i g)))"

lemma local_steps: "local_step ly (shrink_item ly level) (shrink_entry ly level)" "local_step ly (remove_step ly) (strip_entry ly)"
  by (simp_all add: local_step_def shrink_item_result remove_step_result)

lemma local_fold:
  assumes "local_step ly f h" and "\<forall>i\<in>set rs. i < length (pg_items g)" and "distinct rs"
  shows "length (pg_items (fold f rs g)) = length (pg_items g)"
    and "consistent ly g \<Longrightarrow> consistent ly (fold f rs g)"
    and "j < length (pg_items g) \<Longrightarrow> pg_items (fold f rs g) ! j = (if j \<in> set rs then h j (pg_items g ! j) else pg_items g ! j)"
proof -
  have "length (pg_items (fold f rs g)) = length (pg_items g) \<and> (consistent ly g \<longrightarrow> consistent ly (fold f rs g))
    \<and> (\<forall>j<length (pg_items g). pg_items (fold f rs g) ! j = (if j \<in> set rs then h j (pg_items g ! j) else pg_items g ! j))"
    using assms(2,3)
  proof (induction rs arbitrary: g)
    case (Cons i rs)
    have i: "pg_items (f i g) = (pg_items g)[i := h i (pg_items g ! i)]" "consistent ly g \<longrightarrow> consistent ly (f i g)"
      using assms(1) Cons.prems unfolding local_step_def by auto
    show ?case using Cons.IH [of "f i g"] Cons.prems i by (auto simp: nth_list_update)
  qed simp
  then show "length (pg_items (fold f rs g)) = length (pg_items g)"
    "consistent ly g \<Longrightarrow> consistent ly (fold f rs g)"
    "j < length (pg_items g) \<Longrightarrow> pg_items (fold f rs g) ! j = (if j \<in> set rs then h j (pg_items g ! j) else pg_items g ! j)"
    by blast+
qed

text \<open>A guarded loop that has not reached its end has done every step.\<close>

lemma guarded_fold:
  "\<not> ok (fold (\<lambda>x g. if ok g then g else f x g) xs g) \<Longrightarrow>
   fold (\<lambda>x g. if ok g then g else f x g) xs g = fold f xs g"
proof (induction xs arbitrary: g)
  case (Cons x xs)
  have stay: "ok g \<Longrightarrow> fold (\<lambda>x g. if ok g then g else f x g) ys g = g" for ys g by (induction ys) auto
  show ?case using Cons stay [of g] by (cases "ok g") auto
qed simp

lemma guarded_stays: "ok g \<Longrightarrow> fold (\<lambda>x g. if ok g then g else f x g) xs g = g"
  by (induction xs) auto


section \<open>What every step keeps\<close>

definition changes :: "entry \<Rightarrow> entry \<Rightarrow> bool" where
  "changes e f =
     (is_tool_output e \<longrightarrow> same_call e f \<and> (text_first e \<longrightarrow> text_first f)
        \<and> (output_images (parts_of f) = output_images (parts_of e) \<or> output_images (parts_of f) = []))"

definition advanced :: "layout \<Rightarrow> nat list \<Rightarrow> progress \<Rightarrow> progress \<Rightarrow> bool" where
  "advanced ly rs g h =
     (length (pg_items h) = length (pg_items g) \<and> (consistent ly g \<longrightarrow> consistent ly h)
      \<and> (\<forall>j<length (pg_items g). (j \<notin> set rs \<longrightarrow> pg_items h ! j = pg_items g ! j) \<and> changes (pg_items g ! j) (pg_items h ! j)))"

lemma changes_refl [simp]: "changes e e"
  by (simp add: changes_def)

lemma changes_trans: "changes e f \<Longrightarrow> changes f h \<Longrightarrow> changes e h"
proof -
  assume e: "changes e f" and f: "changes f h"
  show "changes e h"
    unfolding changes_def
  proof (rule impI)
    assume t: "is_tool_output e"
    note ef = e [unfolded changes_def, rule_format, OF t]
    have "is_tool_output f" using ef same_call_output t by blast
    note fh = f [unfolded changes_def, rule_format, OF this]
    show "same_call e h \<and> (text_first e \<longrightarrow> text_first h)
        \<and> (output_images (parts_of h) = output_images (parts_of e) \<or> output_images (parts_of h) = [])"
      using ef fh same_call_trans [of e f h] by metis
  qed
qed

lemma advanced_refl [simp]: "advanced ly rs g g"
  by (simp add: advanced_def)

lemma advanced_trans: "advanced ly rs g h \<Longrightarrow> advanced ly rs h k \<Longrightarrow> advanced ly rs g k"
  by (auto simp: advanced_def intro: changes_trans)

lemma shrink_entry_changes: "changes e (shrink_entry ly level i e)"
  using with_primary_text_call [of e] shrink_entry_facts(2) [of e ly level i]
  by (auto simp: changes_def shrink_entry_def Let_def)

lemma strip_entry_changes: "changes e (strip_entry ly i e)"
  using strip_entry_facts [of e ly i] by (auto simp: changes_def)

lemma local_advanced:
  assumes "local_step ly f h" and "\<And>e i. changes e (h i e)" and "i \<in> set rs" and "i < length (pg_items g)"
  shows "advanced ly rs g (f i g)"
proof -
  have f: "pg_items (f i g) = (pg_items g)[i := h i (pg_items g ! i)]" "consistent ly g \<longrightarrow> consistent ly (f i g)"
    using assms(1,4) unfolding local_step_def by blast+
  show ?thesis using f(2) assms(2-4) unfolding advanced_def f(1) by (auto simp: nth_list_update)
qed

lemma guarded_advanced:
  assumes "\<And>i g. i \<in> set rs \<Longrightarrow> i < length (pg_items g) \<Longrightarrow> advanced ly rs g (f i g)" and "\<forall>i\<in>set rs. i < length (pg_items g)"
  shows "advanced ly rs g (fold (\<lambda>i g. if ok g then g else f i g) rs g)"
proof -
  have "set qs \<subseteq> set rs \<Longrightarrow> \<forall>i\<in>set rs. i < length (pg_items g) \<Longrightarrow>
      advanced ly rs g (fold (\<lambda>i g. if ok g then g else f i g) qs g)" for qs
  proof (induction qs arbitrary: g)
    case (Cons i qs)
    show ?case
    proof (cases "ok g")
      case False
      have step: "advanced ly rs g (f i g)" using Cons.prems by (intro assms(1)) auto
      then have "\<forall>j\<in>set rs. j < length (pg_items (f i g))" using Cons.prems(2) by (simp add: advanced_def)
      then show ?thesis using Cons.IH [of "f i g"] Cons.prems(1) advanced_trans [OF step] False by simp
    qed (use Cons in simp)
  qed simp
  then show ?thesis using assms(2) by blast
qed

lemma remove_images_fold:
  "remove_images ly rs g = fold (\<lambda>i g. if fitting ly g then g else remove_step ly i g) rs g"
  unfolding remove_images_def remove_step_def ..

lemma remove_images_advanced: "\<forall>i\<in>set rs. i < length (pg_items g) \<Longrightarrow> advanced ly rs g (remove_images ly rs g)"
  unfolding remove_images_fold
  by (rule guarded_advanced) (auto intro: local_advanced [OF local_steps(2) strip_entry_changes])

lemma shrink_level_advanced:
  "\<forall>i\<in>set rs. i < length (pg_items g) \<Longrightarrow>
   advanced ly rs g (fold (\<lambda>i g. if fitting ly g then g else shrink_item ly level i g) rs g)"
  by (rule guarded_advanced) (auto intro: local_advanced [OF local_steps(1) shrink_entry_changes])

lemma shrink_group_advanced:
  assumes "\<forall>i\<in>set rs. i < length (pg_items g)"
  shows "advanced ly rs g (shrink_group ly m rs g)"
proof -
  have "\<forall>i\<in>set rs. i < length (pg_items g) \<Longrightarrow>
      advanced ly rs g (fold (\<lambda>level. fold (\<lambda>i g. if fitting ly g then g else shrink_item ly level i g) rs) levels g)" for levels
  proof (induction levels arbitrary: g)
    case (Cons level levels)
    note step = shrink_level_advanced [OF Cons.prems, of ly level]
    then have "length (pg_items (fold (\<lambda>i g. if fitting ly g then g else shrink_item ly level i g) rs g)) = length (pg_items g)"
      by (simp add: advanced_def)
    then show ?case using Cons advanced_trans [OF step] by simp
  qed simp
  then show ?thesis using assms by (simp add: shrink_group_def)
qed

section \<open>What is done before giving up\<close>

lemma remove_images_done:
  "\<not> fitting ly (remove_images ly rs g) \<Longrightarrow> remove_images ly rs g = fold (remove_step ly) rs g"
  unfolding remove_images_fold by (rule guarded_fold)

lemma shrink_group_done:
  assumes "\<not> fitting ly (shrink_group ly m rs g)"
  shows "shrink_group ly m rs g = fold (\<lambda>level. fold (shrink_item ly level) rs) [1..<Suc m] g"
proof -
  let ?F = "\<lambda>level. fold (\<lambda>i g. if fitting ly g then g else shrink_item ly level i g) rs"
  have "\<not> fitting ly (fold ?F levels g) \<Longrightarrow> fold ?F levels g = fold (\<lambda>level. fold (shrink_item ly level) rs) levels g" for levels
  proof (induction levels rule: rev_induct)
    case (snoc level levels)
    let ?h = "fold ?F levels g"
    have n: "\<not> fitting ly (?F level ?h)" using snoc.prems by simp
    have "\<not> fitting ly ?h"
    proof
      assume "fitting ly ?h"
      then have "?F level ?h = ?h" by (rule guarded_stays)
      then show False using n \<open>fitting ly ?h\<close> by argo
    qed
    then have "?h = fold (\<lambda>level. fold (shrink_item ly level) rs) levels g" by (rule snoc.IH)
    moreover have "?F level ?h = fold (shrink_item ly level) rs ?h" using n by (rule guarded_fold)
    ultimately show ?case by (simp only: fold_append o_apply fold_simps)
  qed simp
  then show ?thesis using assms by (simp only: shrink_group_def)
qed

lemma levels_fold:
  assumes "\<forall>i\<in>set rs. i < length (pg_items g)" and "distinct rs" and "j < length (pg_items g)"
  shows "pg_items (fold (\<lambda>level. fold (shrink_item ly level) rs) levels g) ! j =
    (if j \<in> set rs then fold (\<lambda>level. shrink_entry ly level j) levels (pg_items g ! j) else pg_items g ! j)"
  using assms
proof (induction levels arbitrary: g)
  case (Cons level levels)
  show ?case
    using Cons.IH [of "fold (shrink_item ly level) rs g"] Cons.prems local_fold [OF local_steps(1) Cons.prems(1,2)]
    by simp
qed simp

lemma shrink_entries_facts:
  assumes "is_tool_output e" "text_first e"
  shows "output_images (parts_of (fold (\<lambda>level. shrink_entry ly level i) levels e)) = output_images (parts_of e)"
    and "primary_text (ly_window ly) (fold (\<lambda>level. shrink_entry ly level i) levels e) =
      fold (shrink_text ly i) levels (primary_text (ly_window ly) e)"
    and "is_tool_output (fold (\<lambda>level. shrink_entry ly level i) levels e)"
    and "text_first (fold (\<lambda>level. shrink_entry ly level i) levels e)"
proof -
  have "is_tool_output e \<Longrightarrow> text_first e \<Longrightarrow>
      output_images (parts_of (fold (\<lambda>level. shrink_entry ly level i) levels e)) = output_images (parts_of e)
      \<and> primary_text (ly_window ly) (fold (\<lambda>level. shrink_entry ly level i) levels e) =
        fold (shrink_text ly i) levels (primary_text (ly_window ly) e)
      \<and> is_tool_output (fold (\<lambda>level. shrink_entry ly level i) levels e)
      \<and> text_first (fold (\<lambda>level. shrink_entry ly level i) levels e)"
  proof (induction levels arbitrary: e)
    case (Cons level levels)
    note f = shrink_entry_facts [OF Cons.prems, of ly level i]
    show ?case using Cons.IH [of "shrink_entry ly level i e"] f Cons.prems same_call_output [OF f(1)] by simp
  qed simp
  then show "output_images (parts_of (fold (\<lambda>level. shrink_entry ly level i) levels e)) = output_images (parts_of e)"
    "primary_text (ly_window ly) (fold (\<lambda>level. shrink_entry ly level i) levels e) =
      fold (shrink_text ly i) levels (primary_text (ly_window ly) e)"
    "is_tool_output (fold (\<lambda>level. shrink_entry ly level i) levels e)"
    "text_first (fold (\<lambda>level. shrink_entry ly level i) levels e)"
    using assms by blast+
qed


section \<open>The beginning\<close>

text \<open>A result from which images were dropped, those at the positions \<open>P\<close> rejects.\<close>

definition dropped :: "window \<Rightarrow> (nat \<Rightarrow> bool) \<Rightarrow> entry \<Rightarrow> entry \<Rightarrow> bool" where
  "dropped w P e f =
     (is_tool_output f \<and> same_call e f \<and> output_images (parts_of f) = filter (\<lambda>(p, u). P p) (output_images (parts_of e))
      \<and> (text_first e \<longrightarrow> text_first f \<and> primary_text w f = primary_text w e))"

lemma drop_images_entry:
  assumes "is_tool_output (pg_items g ! i)" and "i < length (pg_items g)"
    and "ks = [] \<or> output_images (parts_of (pg_items g ! i)) \<noteq> []"
  shows "\<exists>f. pg_items (drop_images ly i ks reason g) = (pg_items g)[i := f]
    \<and> dropped (ly_window ly) (\<lambda>p. p \<notin> set ks) (pg_items g ! i) f"
proof (cases "ks = []")
  case True
  then show ?thesis using assms(1) by (intro exI [where x = "pg_items g ! i"]) (simp add: drop_images_def dropped_def case_prod_beta)
next
  case False
  obtain reader rerunnable where h: "hints ly i = (reader, rerunnable)" by force
  have "output_images (parts_of (pg_items g ! i)) \<noteq> []" using False assms(3) by simp
  note f = without_images_facts [OF assms(1) this, of "ly_window ly" ks reason reader rerunnable]
  show ?thesis
    using f h False assms(1) same_call_output [OF f(1)]
    by (intro exI [where x = "without_images (ly_window ly) ks reason reader rerunnable (pg_items g ! i)"])
      (simp add: drop_images_def dropped_def)
qed

lemma dropped_trans:
  "dropped w P e f \<Longrightarrow> dropped w Q f h \<Longrightarrow> dropped w (\<lambda>p. P p \<and> Q p) e h"
  using same_call_trans [of e f h] by (auto simp: dropped_def conj_commute intro: filter_cong)

definition image_key :: "window \<Rightarrow> points \<Rightarrow> points" where
  "image_key w u = (if fst (win_image w u) = [] then u else fst (win_image w u))"

definition keys_of :: "window \<Rightarrow> (nat \<times> points) list \<Rightarrow> points list" where
  "keys_of w us = map (image_key w \<circ> snd) us"

definition kept_images :: "nat list \<Rightarrow> nat list \<Rightarrow> (nat \<times> points) list \<Rightarrow> (nat \<times> points) list" where
  "kept_images ds os us = filter (\<lambda>(p, u). p \<notin> set ds \<and> p \<notin> set os) us"

lemma kept_images_cut:
  "p \<notin> fst ` set us \<Longrightarrow> kept_images (p # ds) os us = kept_images ds os us"
  "p \<notin> fst ` set us \<Longrightarrow> kept_images ds (p # os) us = kept_images ds os us"
  unfolding kept_images_def by (rule filter_cong; force)+

text \<open>What remains of the images of a result: their keys are new and distinct, and they fit the count.\<close>

lemma sift_keeps:
  assumes "distinct (map fst us)" and "sift w us seen kept = (ds, os, seen', kept')" and "kept \<le> MAX_IMAGES_IN_INPUT"
  shows "distinct (keys_of w (kept_images ds os us)) \<and> set (keys_of w (kept_images ds os us)) \<subseteq> seen' - seen \<and> seen \<subseteq> seen'
    \<and> kept' = kept + length (kept_images ds os us) \<and> kept' \<le> MAX_IMAGES_IN_INPUT
    \<and> set ds \<union> set os \<subseteq> fst ` set us \<and> set ds \<inter> set os = {}"
  using assms
proof (induction us arbitrary: seen kept ds os)
  case (Cons x us)
  obtain p u where x: "x = (p, u)" by force
  define i where "i = image_key w u"
  have p: "p \<notin> fst ` set us" and us: "distinct (map fst us)" using Cons.prems(1) x by simp_all
  have step: "sift w (x # us) seen kept =
      (if i \<in> seen then (case sift w us seen kept of (ds, os, r) \<Rightarrow> (p # ds, os, r))
       else if MAX_IMAGES_IN_INPUT \<le> kept then (case sift w us (insert i seen) kept of (ds, os, r) \<Rightarrow> (ds, p # os, r))
       else sift w us (insert i seen) (Suc kept))"
    by (simp add: x i_def image_key_def Let_def)
  consider (twice) "i \<in> seen" | (many) "i \<notin> seen" "MAX_IMAGES_IN_INPUT \<le> kept"
    | (new) "i \<notin> seen" "\<not> MAX_IMAGES_IN_INPUT \<le> kept"
    by blast
  then show ?case
  proof cases
    case twice
    then obtain ds' where r: "sift w us seen kept = (ds', os, seen', kept')" "ds = p # ds'"
      using Cons.prems(2) step by (auto split: prod.splits)
    have "kept_images ds os (x # us) = kept_images ds' os us" using p r(2) x kept_images_cut(1) [of p us ds' os] by (simp add: kept_images_def)
    then show ?thesis using Cons.IH [OF us r(1) Cons.prems(3)] r(2) x p by auto
  next
    case many
    then obtain os' where r: "sift w us (insert i seen) kept = (ds, os', seen', kept')" "os = p # os'"
      using Cons.prems(2) step by (auto split: prod.splits)
    have "kept_images ds os (x # us) = kept_images ds os' us" using p r(2) x kept_images_cut(2) [of p us ds os'] by (simp add: kept_images_def)
    then show ?thesis using Cons.IH [OF us r(1) Cons.prems(3)] r(2) x p by auto
  next
    case new
    then have r: "sift w us (insert i seen) (Suc kept) = (ds, os, seen', kept')" using Cons.prems(2) step by simp
    note h = Cons.IH [OF us r] 
    have k: "Suc kept \<le> MAX_IMAGES_IN_INPUT" using new(2) by simp
    have "p \<notin> set ds \<union> set os" using h [OF k] p by blast
    then have e: "kept_images ds os (x # us) = (p, u) # kept_images ds os us" by (simp add: kept_images_def x)
    have key: "keys_of w (kept_images ds os (x # us)) = i # keys_of w (kept_images ds os us)" by (simp add: e keys_of_def i_def)
    show ?thesis unfolding key using h [OF k] new(1) e by auto
  qed
qed (auto simp: keys_of_def kept_images_def)

lemma images_distinct: "distinct (map fst (output_images ps))"
proof -
  have "distinct (map fst (map (\<lambda>(i, p). (i, image_url p)) (filter (\<lambda>(i, p). is_image_part p) (enumerate n ps))))
    \<and> set (map fst (map (\<lambda>(i, p). (i, image_url p)) (filter (\<lambda>(i, p). is_image_part p) (enumerate n ps)))) \<subseteq> {n..}" for n
    by (induction ps arbitrary: n) force+
  then show ?thesis unfolding output_images_def by blast
qed

text \<open>The first pass over the results, the last one first.\<close>

lemma limit_images_result:
  assumes "distinct rs" and "\<forall>i\<in>set rs. i < length (pg_items g) \<and> is_tool_output (ly_items ly ! i) \<and> pg_items g ! i = ly_items ly ! i"
    and "kept \<le> MAX_IMAGES_IN_INPUT"
  shows "length (pg_items (limit_images ly rs seen kept g)) = length (pg_items g)
    \<and> (\<forall>j<length (pg_items g). if j \<in> set rs
         then \<exists>P. dropped (ly_window ly) P (ly_items ly ! j) (pg_items (limit_images ly rs seen kept g) ! j)
         else pg_items (limit_images ly rs seen kept g) ! j = pg_items g ! j)
    \<and> (let ks = concat (map (\<lambda>j. keys_of (ly_window ly) (output_images (parts_of (pg_items (limit_images ly rs seen kept g) ! j)))) rs)
       in distinct ks \<and> set ks \<inter> seen = {} \<and> kept + length ks \<le> MAX_IMAGES_IN_INPUT)"
  using assms
proof (induction rs arbitrary: seen kept g)
  case (Cons i rs)
  let ?w = "ly_window ly" and ?e = "ly_items ly ! i"
  define us where "us = output_images (parts_of ?e)"
  obtain ds os seen1 kept1 where r: "sift ?w (rev us) seen kept = (ds, os, seen1, kept1)" by (metis prod_cases4)
  have "distinct (map fst (rev us))" using images_distinct by (simp add: us_def rev_map [symmetric])
  note k = sift_keeps [OF this r Cons.prems(3)]
  have i: "i < length (pg_items g)" "is_tool_output ?e" "pg_items g ! i = ?e" "i \<notin> set rs" using Cons.prems by simp_all
  obtain f1 where f1: "pg_items (drop_images ly i ds Duplicate g) = (pg_items g)[i := f1]" "dropped ?w (\<lambda>p. p \<notin> set ds) ?e f1"
  proof -
    have "ds = [] \<or> us \<noteq> []" using k by (cases us) auto
    then show thesis using that drop_images_entry [of g i ds ly Duplicate] i by (auto simp: us_def)
  qed
  let ?g1 = "drop_images ly i ds Duplicate g"
  obtain f2 where f2: "pg_items (drop_images ly i os ImageLimit ?g1) = (pg_items ?g1)[i := f2]"
      "dropped ?w (\<lambda>p. p \<notin> set os) f1 f2"
  proof -
    have "os = [] \<or> output_images (parts_of f1) \<noteq> []"
    proof (cases os)
      case (Cons p qs)
      then have "p \<in> fst ` set us" "p \<notin> set ds" using k by auto
      then show ?thesis using f1(2) by (auto simp: dropped_def us_def filter_empty_conv)
    qed simp
    then show thesis using that drop_images_entry [of ?g1 i os ly ImageLimit] f1 i by (auto simp: dropped_def)
  qed
  let ?g2 = "drop_images ly i os ImageLimit ?g1"
  have g2: "pg_items ?g2 = (pg_items g)[i := f2]" using f2(1) f1(1) by simp
  have d: "dropped ?w (\<lambda>p. p \<notin> set ds \<and> p \<notin> set os) ?e f2" using dropped_trans [OF f1(2) f2(2)] .
  have "output_images (parts_of f2) = kept_images ds os us" using d by (simp add: dropped_def kept_images_def us_def)
  then have keys: "keys_of ?w (output_images (parts_of f2)) = rev (keys_of ?w (kept_images ds os (rev us)))"
    by (simp add: keys_of_def kept_images_def rev_map rev_filter [symmetric])
  have pre: "distinct rs" "\<forall>j\<in>set rs. j < length (pg_items ?g2) \<and> is_tool_output (ly_items ly ! j) \<and> pg_items ?g2 ! j = ly_items ly ! j"
    "kept1 \<le> MAX_IMAGES_IN_INPUT"
    using Cons.prems i(4) g2 k by (auto simp: nth_list_update)
  define h where "h = limit_images ly rs seen1 kept1 ?g2"
  have step: "limit_images ly (i # rs) seen kept g = h" using r by (simp add: us_def h_def)
  note IH = Cons.IH [OF pre, of seen1, folded h_def]
  have len: "length (pg_items h) = length (pg_items g)" using IH g2 by simp
  have at_i: "pg_items h ! i = f2" using IH i g2 by simp
  have others: "if j \<in> set rs then \<exists>P. dropped ?w P (ly_items ly ! j) (pg_items h ! j) else pg_items h ! j = pg_items ?g2 ! j"
    if j: "j < length (pg_items g)" for j
    using IH j g2 by simp
  have items: "if j \<in> set (i # rs) then \<exists>P. dropped ?w P (ly_items ly ! j) (pg_items h ! j) else pg_items h ! j = pg_items g ! j"
    if j: "j < length (pg_items g)" for j
  proof (cases "j = i")
    case True
    then show ?thesis using at_i d by auto
  next
    case False
    then show ?thesis using others [OF j] g2 by auto
  qed
  define ks where "ks = concat (map (\<lambda>j. keys_of ?w (output_images (parts_of (pg_items h ! j)))) rs)"
  have ks: "distinct ks" "set ks \<inter> seen1 = {}" "kept1 + length ks \<le> MAX_IMAGES_IN_INPUT"
    using IH by (simp_all add: ks_def Let_def)
  have split: "concat (map (\<lambda>j. keys_of ?w (output_images (parts_of (pg_items h ! j)))) (i # rs)) =
      rev (keys_of ?w (kept_images ds os (rev us))) @ ks"
    by (simp add: at_i keys ks_def)
  have "length (keys_of ?w (kept_images ds os (rev us))) = length (kept_images ds os (rev us))" by (simp add: keys_of_def)
  then have "distinct (rev (keys_of ?w (kept_images ds os (rev us))) @ ks)
      \<and> set (rev (keys_of ?w (kept_images ds os (rev us))) @ ks) \<inter> seen = {}
      \<and> kept + length (rev (keys_of ?w (kept_images ds os (rev us))) @ ks) \<le> MAX_IMAGES_IN_INPUT"
    using k ks by auto
  then show ?case unfolding step split Let_def using len items by blast
qed simp


lemma layout_simps [simp]:
  "ly_window (layout_of w b fixed m es) = w" "ly_budget (layout_of w b fixed m es) = b" "ly_items (layout_of w b fixed m es) = es"
  "ly_fixed (layout_of w b fixed m es) = estimate b fixed" "ly_limit (layout_of w b fixed m es) = input_tokens b m"
  "ly_outputs (layout_of w b fixed m es) = filter (\<lambda>i. is_tool_output (es ! i)) [0..<length es]"
  "set (ly_latest (layout_of w b fixed m es)) \<subseteq> set (ly_outputs (layout_of w b fixed m es))"
  by (auto simp: layout_of_def Let_def latest_outputs_def)

lemma start_result:
  fixes ly defines "n \<equiv> length (ly_items ly)"
  assumes o: "ly_outputs ly = filter (\<lambda>i. is_tool_output (ly_items ly ! i)) [0..<n]"
  shows "length (pg_items (start ly)) = n" and "consistent ly (start ly)"
    and "j < n \<Longrightarrow> if is_tool_output (ly_items ly ! j) then \<exists>P. dropped (ly_window ly) P (ly_items ly ! j) (pg_items (start ly) ! j)
           else pg_items (start ly) ! j = ly_items ly ! j"
    and "distinct (concat (map (\<lambda>j. keys_of (ly_window ly) (output_images (parts_of (pg_items (start ly) ! j)))) (ly_outputs ly)))"
    and "length (concat (map (\<lambda>j. keys_of (ly_window ly) (output_images (parts_of (pg_items (start ly) ! j)))) (ly_outputs ly)))
           \<le> MAX_IMAGES_IN_INPUT"
proof -
  define g where "g = \<lparr>pg_items = ly_items ly, pg_tokens = [], pg_total = 0, pg_levels = Map.empty, pg_removed = Map.empty\<rparr>"
  define h where "h = limit_images ly (rev (ly_outputs ly)) {} 0 g"
  have items: "pg_items (start ly) = pg_items h" by (simp add: start_def Let_def h_def g_def)
  have pre: "distinct (rev (ly_outputs ly))" "0 \<le> MAX_IMAGES_IN_INPUT"
    "\<forall>i\<in>set (rev (ly_outputs ly)). i < length (pg_items g) \<and> is_tool_output (ly_items ly ! i) \<and> pg_items g ! i = ly_items ly ! i"
    by (auto simp: o g_def n_def)
  note r = limit_images_result [OF pre(1,3,2), of "{}", folded h_def]
  have n: "length (pg_items g) = n" by (simp add: g_def n_def)
  show "length (pg_items (start ly)) = n" using r n items by simp
  show "consistent ly (start ly)" by (simp add: start_def consistent_def Let_def)
  show "if is_tool_output (ly_items ly ! j) then \<exists>P. dropped (ly_window ly) P (ly_items ly ! j) (pg_items (start ly) ! j)
      else pg_items (start ly) ! j = ly_items ly ! j" if j: "j < n"
  proof -
    have "if j \<in> set (rev (ly_outputs ly)) then \<exists>P. dropped (ly_window ly) P (ly_items ly ! j) (pg_items h ! j)
        else pg_items h ! j = pg_items g ! j"
      using r j n by blast
    then show ?thesis using j by (simp add: items o g_def)
  qed
  define f where "f j = keys_of (ly_window ly) (output_images (parts_of (pg_items h ! j)))" for j
  have "distinct (concat (map f (rev (ly_outputs ly)))) \<and> length (concat (map f (rev (ly_outputs ly)))) \<le> MAX_IMAGES_IN_INPUT"
    using r unfolding f_def Let_def by simp
  moreover have "mset (concat (map f (rev (ly_outputs ly)))) = mset (concat (map f (ly_outputs ly)))"
    by (simp add: mset_concat rev_map [symmetric])
  ultimately have "distinct (concat (map f (ly_outputs ly))) \<and> length (concat (map f (ly_outputs ly))) \<le> MAX_IMAGES_IN_INPUT"
    by (metis mset_eq_imp_distinct_iff mset_eq_length)
  then show "distinct (concat (map (\<lambda>j. keys_of (ly_window ly) (output_images (parts_of (pg_items (start ly) ! j)))) (ly_outputs ly)))"
    "length (concat (map (\<lambda>j. keys_of (ly_window ly) (output_images (parts_of (pg_items (start ly) ! j)))) (ly_outputs ly)))
      \<le> MAX_IMAGES_IN_INPUT"
    unfolding items f_def by blast+
qed

section \<open>The whole pass\<close>

definition older_of :: "layout \<Rightarrow> nat list" where
  "older_of ly = filter (\<lambda>i. i \<notin> set (ly_latest ly)) (ly_outputs ly)"

definition newest_of :: "layout \<Rightarrow> nat list" where
  "newest_of ly = filter (\<lambda>i. i \<in> set (ly_latest ly)) (ly_outputs ly)"

definition after_older :: "layout \<Rightarrow> progress" where
  "after_older ly = shrink_group ly OLDER_MAX_LEVEL (older_of ly) (remove_images ly (older_of ly) (start ly))"

definition after_newest :: "layout \<Rightarrow> progress" where
  "after_newest ly = (if fitting ly (after_older ly) then after_older ly else shrink_group ly LATEST_MAX_LEVEL (newest_of ly) (after_older ly))"

lemma fit_input_stages:
  "fit_input ly = (if fitting ly (start ly) then start ly else remove_images ly (newest_of ly) (after_newest ly))"
  by (simp add: fit_input_def Let_def after_newest_def after_older_def older_of_def newest_of_def)

lemma remove_images_stays: "fitting ly g \<Longrightarrow> remove_images ly rs g = g"
  unfolding remove_images_fold by (rule guarded_stays)

lemma shrink_group_stays: "fitting ly g \<Longrightarrow> shrink_group ly m rs g = g"
proof -
  assume ok: "fitting ly g"
  have inner: "fold (\<lambda>i g. if fitting ly g then g else shrink_item ly level i g) rs g = g" for level
    by (rule guarded_stays) (rule ok)
  have "fold (\<lambda>level. fold (\<lambda>i g. if fitting ly g then g else shrink_item ly level i g) rs) levels g = g" for levels
    by (induction levels) (simp_all add: inner)
  then show ?thesis by (simp add: shrink_group_def)
qed

lemma stages:
  "fitting ly (start ly) \<Longrightarrow> after_older ly = start ly"
  "fitting ly (after_older ly) \<Longrightarrow> after_newest ly = after_older ly"
  "fitting ly (after_newest ly) \<Longrightarrow> remove_images ly (newest_of ly) (after_newest ly) = after_newest ly"
  by (simp_all add: after_older_def after_newest_def remove_images_stays shrink_group_stays)

lemma fit_input_eq: "fit_input ly = remove_images ly (newest_of ly) (after_newest ly)"
  using stages [of ly] by (auto simp: fit_input_stages)

lemma advanced_mono: "advanced ly rs g h \<Longrightarrow> set rs \<subseteq> set qs \<Longrightarrow> advanced ly qs g h"
  by (auto simp: advanced_def)

lemma advanced_length: "advanced ly rs g h \<Longrightarrow> length (pg_items h) = length (pg_items g)"
  by (simp add: advanced_def)

lemma stages_advanced:
  assumes "\<forall>i\<in>set (ly_outputs ly). i < length (pg_items (start ly))"
  shows "advanced ly (older_of ly) (start ly) (after_older ly)"
    and "advanced ly (newest_of ly) (after_older ly) (after_newest ly)"
    and "advanced ly (newest_of ly) (after_newest ly) (fit_input ly)"
proof -
  have o: "\<forall>i\<in>set (older_of ly). i < length (pg_items (start ly))" "\<forall>i\<in>set (newest_of ly). i < length (pg_items (start ly))"
    using assms by (auto simp: older_of_def newest_of_def)
  note a = remove_images_advanced [OF o(1)]
  have "\<forall>i\<in>set (older_of ly). i < length (pg_items (remove_images ly (older_of ly) (start ly)))"
    using o advanced_length [OF a] by simp
  then show one: "advanced ly (older_of ly) (start ly) (after_older ly)"
    unfolding after_older_def using advanced_trans [OF a] shrink_group_advanced by blast
  then have o2: "\<forall>i\<in>set (newest_of ly). i < length (pg_items (after_older ly))" using o advanced_length by metis
  then show two: "advanced ly (newest_of ly) (after_older ly) (after_newest ly)"
    unfolding after_newest_def using shrink_group_advanced by auto
  then have "\<forall>i\<in>set (newest_of ly). i < length (pg_items (after_newest ly))" using o2 advanced_length by metis
  then show "advanced ly (newest_of ly) (after_newest ly) (fit_input ly)"
    unfolding fit_input_eq by (rule remove_images_advanced)
qed

lemma fit_input_advanced:
  assumes "\<forall>i\<in>set (ly_outputs ly). i < length (pg_items (start ly))"
  shows "advanced ly (ly_outputs ly) (start ly) (fit_input ly)"
proof -
  have "set (older_of ly) \<subseteq> set (ly_outputs ly)" "set (newest_of ly) \<subseteq> set (ly_outputs ly)"
    by (auto simp: older_of_def newest_of_def)
  then show ?thesis
    using stages_advanced [OF assms] advanced_mono advanced_trans by meson
qed


lemma images_shorten:
  "\<forall>j\<in>set rs. f j = h j \<or> f j = [] \<Longrightarrow>
   set (concat (map f rs)) \<subseteq> set (concat (map h rs)) \<and> length (concat (map f rs)) \<le> length (concat (map h rs))
   \<and> (distinct (concat (map h rs)) \<longrightarrow> distinct (concat (map f rs)))"
proof (induction rs)
  case (Cons j rs)
  then show ?case by (cases "f j = []") (simp_all, blast+)
qed simp

lemma remaining_concat:
  assumes "length es' = length es" and "\<forall>i<length es. is_tool_output (es' ! i) = is_tool_output (es ! i)"
  shows "map (image_key w) (remaining_images es') =
    concat (map (\<lambda>j. keys_of w (output_images (parts_of (es' ! j)))) (filter (\<lambda>i. is_tool_output (es ! i)) [0..<length es]))"
proof -
  have "remaining_images es' =
      concat (map (\<lambda>i. if is_tool_output (es' ! i) then map snd (output_images (parts_of (es' ! i))) else []) [0..<length es'])"
    unfolding remaining_images_def by (subst map_nth [symmetric]) (simp only: map_map o_def)
  moreover have "map (image_key w) (concat (map (\<lambda>i. if P i then map snd (f i) else []) xs)) =
      concat (map (\<lambda>j. keys_of w (f j)) (filter P xs))" for P f and xs :: "nat list"
    by (induction xs) (auto simp: keys_of_def)
  moreover have "filter (\<lambda>i. is_tool_output (es' ! i)) [0..<length es'] = filter (\<lambda>i. is_tool_output (es ! i)) [0..<length es]"
    using assms by (auto intro: filter_cong)
  ultimately show ?thesis by metis
qed

lemma outputs_bound: "\<forall>i\<in>set (filter (\<lambda>i. is_tool_output (es ! i)) [0..<length es]). i < length es"
  by auto

lemma compact_items_simps:
  "co_items (compact_items w b fixed m es) = pg_items (fit_input (layout_of w b fixed m es))"
  "co_after (compact_items w b fixed m es) = pg_total (fit_input (layout_of w b fixed m es))"
  "co_budget (compact_items w b fixed m es) = input_tokens b m"
  "co_before (compact_items w b fixed m es) = estimate_tokens w b fixed es"
  "co_images (compact_items w b fixed m es) = length (remaining_images (co_items (compact_items w b fixed m es)))"
  by (simp_all add: compact_items_def Let_def estimate_tokens_def)

text \<open>C10: compacting an input changes nothing but the output of results of tools: every other item is the same, a result
  keeps its place and its call, and at most eight images remain, no two with the same content.\<close>

theorem only_tool_results_are_compacted:
  "length (co_items (compact_items w b fixed m es)) = length es
   \<and> list_all2 same_call es (co_items (compact_items w b fixed m es))
   \<and> distinct (map (image_key w) (remaining_images (co_items (compact_items w b fixed m es))))
   \<and> co_images (compact_items w b fixed m es) \<le> MAX_IMAGES_IN_INPUT"
proof -
  define ly where "ly = layout_of w b fixed m es"
  have o: "ly_outputs ly = filter (\<lambda>i. is_tool_output (ly_items ly ! i)) [0..<length (ly_items ly)]" by (simp add: ly_def)
  note st = start_result [OF o]
  have es: "ly_items ly = es" "ly_window ly = w" by (simp_all add: ly_def)
  let ?g = "pg_items (start ly)" and ?h = "pg_items (fit_input ly)"
  have "\<forall>i\<in>set (ly_outputs ly). i < length ?g" using st(1) o by auto
  note a = fit_input_advanced [OF this]
  have len: "length ?h = length es" using advanced_length [OF a] st(1) es by simp
  have call: "same_call (es ! j) (?h ! j)" and out: "is_tool_output (?h ! j) = is_tool_output (es ! j)"
    and imgs: "is_tool_output (es ! j) \<Longrightarrow>
      output_images (parts_of (?h ! j)) = output_images (parts_of (?g ! j)) \<or> output_images (parts_of (?h ! j)) = []"
    if j: "j < length es" for j
  proof -
    note sj = st(3) [of j, unfolded es, OF j]
    have ch: "j \<notin> set (ly_outputs ly) \<longrightarrow> ?h ! j = ?g ! j" "changes (?g ! j) (?h ! j)"
      using a j st(1) es by (simp_all add: advanced_def)
    have "same_call (es ! j) (?h ! j) \<and> (is_tool_output (es ! j) \<longrightarrow>
      output_images (parts_of (?h ! j)) = output_images (parts_of (?g ! j)) \<or> output_images (parts_of (?h ! j)) = [])"
    proof (cases "is_tool_output (es ! j)")
      case True
      then have "is_tool_output (?g ! j)" "same_call (es ! j) (?g ! j)" using sj by (auto simp: dropped_def)
      then show ?thesis using ch(2) same_call_trans unfolding changes_def by blast
    next
      case False
      then have "?g ! j = es ! j" "j \<notin> set (ly_outputs ly)" using sj o es by auto
      then show ?thesis using ch(1) False by simp
    qed
    then show "same_call (es ! j) (?h ! j)" "is_tool_output (?h ! j) = is_tool_output (es ! j)"
      "is_tool_output (es ! j) \<Longrightarrow>
        output_images (parts_of (?h ! j)) = output_images (parts_of (?g ! j)) \<or> output_images (parts_of (?h ! j)) = []"
      using same_call_output by blast+
  qed
  have keys: "map (image_key w) (remaining_images ?h) =
      concat (map (\<lambda>j. keys_of w (output_images (parts_of (?h ! j)))) (ly_outputs ly))"
    using remaining_concat [of ?h es w] len out o es by simp
  have "\<forall>j\<in>set (ly_outputs ly). keys_of w (output_images (parts_of (?h ! j))) = keys_of w (output_images (parts_of (?g ! j)))
      \<or> keys_of w (output_images (parts_of (?h ! j))) = []"
  proof
    fix j assume "j \<in> set (ly_outputs ly)"
    then have "j < length es" "is_tool_output (es ! j)" using o es by auto
    then show "keys_of w (output_images (parts_of (?h ! j))) = keys_of w (output_images (parts_of (?g ! j)))
      \<or> keys_of w (output_images (parts_of (?h ! j))) = []"
      using imgs [of j] by (auto simp: keys_of_def)
  qed
  note short = images_shorten [OF this]
  have d: "distinct (map (image_key w) (remaining_images ?h))" "length (remaining_images ?h) \<le> MAX_IMAGES_IN_INPUT"
    using short st(4,5) es keys by (metis le_trans length_map)+
  show ?thesis
    using len call d by (simp add: compact_items_simps ly_def list_all2_conv_all_nth)
qed

definition used_up :: "layout \<Rightarrow> nat \<Rightarrow> nat \<Rightarrow> entry \<Rightarrow> bool" where
  "used_up ly max_level i e =
     (output_images (parts_of e) = []
      \<and> primary_text (ly_window ly) e = fold (shrink_text ly i) [1..<Suc max_level] (primary_text (ly_window ly) (ly_items ly ! i)))"


text \<open>A result before the pass: it is one, its text comes first, and the text is that of the input.\<close>

definition untouched_text :: "layout \<Rightarrow> nat \<Rightarrow> entry \<Rightarrow> bool" where
  "untouched_text ly i e =
     (is_tool_output e \<and> text_first e \<and> primary_text (ly_window ly) e = primary_text (ly_window ly) (ly_items ly ! i))"

lemma level_zero: "[1..<Suc 0] = []"
  by simp

lemma older_used_up:
  assumes "\<forall>i\<in>set (older_of ly). i < length (pg_items (start ly)) \<and> untouched_text ly i (pg_items (start ly) ! i)"
    and "distinct (older_of ly)" and "\<not> fitting ly (after_older ly)" and "i \<in> set (older_of ly)"
  shows "used_up ly OLDER_MAX_LEVEL i (pg_items (after_older ly) ! i)"
proof -
  let ?g1 = "remove_images ly (older_of ly) (start ly)"
  have g1: "\<not> fitting ly ?g1" using assms(3) shrink_group_stays [of ly ?g1] by (auto simp: after_older_def)
  have bound: "\<forall>i\<in>set (older_of ly). i < length (pg_items (start ly))" using assms(1) by blast
  note f = local_fold [OF local_steps(2) [of ly] bound assms(2)]
  have items: "pg_items ?g1 ! i = strip_entry ly i (pg_items (start ly) ! i)" and len: "length (pg_items ?g1) = length (pg_items (start ly))"
    using f remove_images_done [OF g1] assms(4) bound by simp_all
  have e: "is_tool_output (pg_items (start ly) ! i)" "text_first (pg_items (start ly) ! i)"
    "primary_text (ly_window ly) (pg_items (start ly) ! i) = primary_text (ly_window ly) (ly_items ly ! i)"
    using assms(1,4) by (auto simp: untouched_text_def)
  note strip = strip_entry_facts [OF e(1), of ly i]
  have s: "is_tool_output (pg_items ?g1 ! i)" "text_first (pg_items ?g1 ! i)" "output_images (parts_of (pg_items ?g1 ! i)) = []"
    "primary_text (ly_window ly) (pg_items ?g1 ! i) = primary_text (ly_window ly) (ly_items ly ! i)"
    unfolding items using strip e same_call_output [OF strip(1)] by auto
  have "pg_items (after_older ly) ! i = fold (\<lambda>level. shrink_entry ly level i) [1..<Suc OLDER_MAX_LEVEL] (pg_items ?g1 ! i)"
    using shrink_group_done [of ly OLDER_MAX_LEVEL "older_of ly" ?g1] assms(3)
      levels_fold [of "older_of ly" ?g1 i ly "[1..<Suc OLDER_MAX_LEVEL]"] bound len assms(2,4)
    by (simp add: after_older_def)
  then show ?thesis using shrink_entries_facts(1,2) [OF s(1,2), of ly i "[1..<Suc OLDER_MAX_LEVEL]"] s by (simp add: used_up_def)
qed

lemma newest_used_up:
  assumes "\<forall>i\<in>set (newest_of ly). i < length (pg_items (after_older ly)) \<and> untouched_text ly i (pg_items (after_older ly) ! i)"
    and "distinct (newest_of ly)" and "\<not> fitting ly (fit_input ly)" and "i \<in> set (newest_of ly)"
  shows "used_up ly LATEST_MAX_LEVEL i (pg_items (fit_input ly) ! i) \<and> \<not> fitting ly (after_older ly)"
proof -
  have n: "\<not> fitting ly (after_newest ly)" using assms(3) stages(3) [of ly] by (auto simp: fit_input_eq)
  then have o: "\<not> fitting ly (after_older ly)" using stages(2) [of ly] by auto
  have an: "after_newest ly = shrink_group ly LATEST_MAX_LEVEL (newest_of ly) (after_older ly)" using o by (simp add: after_newest_def)
  have bound: "\<forall>i\<in>set (newest_of ly). i < length (pg_items (after_older ly))" using assms(1) by blast
  have e: "is_tool_output (pg_items (after_older ly) ! i)" "text_first (pg_items (after_older ly) ! i)"
    "primary_text (ly_window ly) (pg_items (after_older ly) ! i) = primary_text (ly_window ly) (ly_items ly ! i)"
    using assms(1,4) by (auto simp: untouched_text_def)
  have "pg_items (after_newest ly) ! i = fold (\<lambda>level. shrink_entry ly level i) [1..<Suc LATEST_MAX_LEVEL] (pg_items (after_older ly) ! i)"
    using shrink_group_done [of ly LATEST_MAX_LEVEL "newest_of ly" "after_older ly"] n
      levels_fold [of "newest_of ly" "after_older ly" i ly "[1..<Suc LATEST_MAX_LEVEL]"] bound assms(2,4)
    by (simp add: an)
  then have s: "is_tool_output (pg_items (after_newest ly) ! i)" "text_first (pg_items (after_newest ly) ! i)"
    "primary_text (ly_window ly) (pg_items (after_newest ly) ! i) =
      fold (shrink_text ly i) [1..<Suc LATEST_MAX_LEVEL] (primary_text (ly_window ly) (ly_items ly ! i))"
    using shrink_entries_facts [OF e(1,2), of ly i "[1..<Suc LATEST_MAX_LEVEL]"] e(3) by simp_all
  have len: "length (pg_items (after_newest ly)) = length (pg_items (after_older ly))"
    unfolding an by (rule advanced_length) (rule shrink_group_advanced [OF bound])
  have bound2: "\<forall>i\<in>set (newest_of ly). i < length (pg_items (after_newest ly))" using bound len by simp
  have "pg_items (fit_input ly) ! i = strip_entry ly i (pg_items (after_newest ly) ! i)"
    using remove_images_done [of ly "newest_of ly" "after_newest ly"] assms(3,4) bound2
      local_fold(3) [OF local_steps(2) [of ly] bound2 assms(2), of i]
    by (simp add: fit_input_eq)
  then show ?thesis using strip_entry_facts [OF s(1), of ly i] s o by (simp add: used_up_def)
qed

text \<open>C9: the totals reported are the estimates of the input before and after; if the result does not fit, every result has
  lost its images and gone through all its levels; and if the text of a latest result was touched, every older one
  had been used up before. The text of a result stands before its images.\<close>

theorem compaction_fits_or_gives_all:
  fixes w b fixed m es
  defines "ly \<equiv> layout_of w b fixed m es" and "r \<equiv> compact_items w b fixed m es"
  assumes "\<forall>e\<in>set es. is_tool_output e \<longrightarrow> text_first e"
  shows "co_before r = estimate_tokens w b fixed es \<and> co_after r = estimate_tokens w b fixed (co_items r)
    \<and> (fits r \<or> (\<forall>i\<in>set (newest_of ly). used_up ly LATEST_MAX_LEVEL i (co_items r ! i))
          \<and> (\<forall>i\<in>set (older_of ly). used_up ly OLDER_MAX_LEVEL i (co_items r ! i)))
    \<and> ((\<forall>i\<in>set (newest_of ly). primary_text w (co_items r ! i) = primary_text w (es ! i))
       \<or> (\<forall>i\<in>set (older_of ly). used_up ly OLDER_MAX_LEVEL i (co_items r ! i)))"
proof -
  have o: "ly_outputs ly = filter (\<lambda>i. is_tool_output (ly_items ly ! i)) [0..<length (ly_items ly)]" by (simp add: ly_def)
  note st = start_result [OF o]
  have es: "ly_items ly = es" "ly_window ly = w" "ly_budget ly = b" "ly_fixed ly = estimate b fixed" "ly_limit ly = input_tokens b m"
    by (simp_all add: ly_def)
  have r: "co_items r = pg_items (fit_input ly)" "co_after r = pg_total (fit_input ly)" "co_before r = estimate_tokens w b fixed es"
    "fits r \<longleftrightarrow> fitting ly (fit_input ly)"
    by (simp_all add: r_def ly_def compact_items_simps fits_def fitting_def)
  have bound: "\<forall>i\<in>set (ly_outputs ly). i < length (pg_items (start ly))" using st(1) o by auto
  note sa = stages_advanced [OF bound]
  have u0: "untouched_text ly i (pg_items (start ly) ! i)" if i: "i \<in> set (ly_outputs ly)" for i
  proof -
    have "i < length es" "is_tool_output (es ! i)" using i o es by auto
    then show ?thesis using st(3) [of i] es assms(3) by (auto simp: untouched_text_def dropped_def)
  qed
  have parts: "distinct (older_of ly)" "distinct (newest_of ly)" "set (older_of ly) \<inter> set (newest_of ly) = {}"
    "set (older_of ly) \<subseteq> set (ly_outputs ly)" "set (newest_of ly) \<subseteq> set (ly_outputs ly)"
    by (auto simp: older_of_def newest_of_def o)
  have lens: "length (pg_items (after_older ly)) = length (pg_items (start ly))" "length (pg_items (after_newest ly)) = length (pg_items (start ly))"
    using advanced_length [OF sa(1)] advanced_length [OF sa(2)] by simp_all
  have keep_newest: "pg_items (after_older ly) ! i = pg_items (start ly) ! i" if "i \<in> set (newest_of ly)" for i
    using sa(1) that parts bound unfolding advanced_def by blast
  have keep_older: "pg_items (fit_input ly) ! i = pg_items (after_older ly) ! i" if i: "i \<in> set (older_of ly)" for i
  proof -
    have "i \<notin> set (newest_of ly)" "i < length (pg_items (start ly))" using i parts bound by blast+
    then show ?thesis using sa(2,3) lens unfolding advanced_def by metis
  qed
  have old: "\<forall>i\<in>set (older_of ly). used_up ly OLDER_MAX_LEVEL i (co_items r ! i)" if n: "\<not> fitting ly (after_older ly)"
    using older_used_up [OF _ parts(1) n] u0 parts(4) bound keep_older unfolding r(1) by auto
  have new: "\<forall>i\<in>set (newest_of ly). used_up ly LATEST_MAX_LEVEL i (co_items r ! i)" if n: "\<not> fits r"
    using newest_used_up [OF _ parts(2)] n u0 parts(5) bound keep_newest lens unfolding r by (metis subsetD)
  have older_first: "fits r \<or> \<not> fitting ly (after_older ly)"
    using stages [of ly] r(4) by (metis fit_input_eq)
  have quiet: "\<forall>i\<in>set (newest_of ly). primary_text w (co_items r ! i) = primary_text w (es ! i)" if ok: "fitting ly (after_older ly)"
  proof -
    have "fit_input ly = after_older ly" using stages(2,3) [of ly] ok by (simp add: fit_input_eq)
    then show ?thesis using keep_newest u0 parts(5) es unfolding r(1) by (auto simp: untouched_text_def)
  qed
  have c: "consistent ly (fit_input ly)" using st(2) sa by (auto simp: advanced_def)
  then have "co_after r = estimate_tokens w b fixed (co_items r)" using r es by (simp add: consistent_def estimate_tokens_def)
  then show ?thesis using r(3) old new older_first quiet by blast
qed


section \<open>An example\<close>

text \<open>A question, a call and its result of one text and one image; the budget of 20 tokens is too small.\<close>

definition example_window :: window where
  "example_window =
     \<lparr>win_words = example_words, win_image = (\<lambda>u. (u, 85)), win_str = (\<lambda>_. []), win_image_note = (\<lambda>_ _ _ _. []),
      win_read_tool = (\<lambda>_. None), win_rerunnable = (\<lambda>_. False)\<rparr>"

definition example_budget :: context_budget where
  "example_budget = \<lparr>bd_max_input = 40, bd_max_output = 30, bd_scale = 1, bd_margin_ratio = 0\<rparr>"

definition example_input :: "entry list" where
  "example_input =
     [Item [(chars ''role'', JText (chars ''user'')), (chars ''content'', JText (chars ''why''))],
      Item [(chars ''type'', JText (chars ''function_call'')), (chars ''call_id'', JText (chars ''c'')), (chars ''name'', JText (chars ''n''))],
      Item [(chars ''type'', JText (chars ''function_call_output'')), (chars ''call_id'', JText (chars ''c'')),
        (chars ''output'', JList [JObject [(chars ''type'', JText (chars ''input_text'')), (chars ''text'', JText [1, 2, 3])],
           JObject [(chars ''type'', JText (chars ''input_image'')), (chars ''image_url'', JText (chars ''u''))]])]]"

definition example_layout :: layout where
  "example_layout = layout_of example_window example_budget [] None example_input"

definition example_compaction :: compaction where
  "example_compaction = compact_items example_window example_budget [] None example_input"

lemma compaction_fits_or_gives_all_witness:
  "co_before example_compaction = estimate_tokens example_window example_budget [] example_input
    \<and> co_after example_compaction = estimate_tokens example_window example_budget [] (co_items example_compaction)
    \<and> (fits example_compaction
       \<or> (\<forall>i\<in>set (newest_of example_layout). used_up example_layout LATEST_MAX_LEVEL i (co_items example_compaction ! i))
          \<and> (\<forall>i\<in>set (older_of example_layout). used_up example_layout OLDER_MAX_LEVEL i (co_items example_compaction ! i)))
    \<and> ((\<forall>i\<in>set (newest_of example_layout).
          primary_text example_window (co_items example_compaction ! i) = primary_text example_window (example_input ! i))
       \<or> (\<forall>i\<in>set (older_of example_layout). used_up example_layout OLDER_MAX_LEVEL i (co_items example_compaction ! i)))"
  unfolding example_layout_def example_compaction_def
  by (rule compaction_fits_or_gives_all) code_simp

text \<open>The parts of an input add up to its estimate; each part of the instructions is rounded up by itself.\<close>

lemma parts_add_up:
  "cp_history c + cp_outputs c = sum_list (map (item_tokens w b) es)" if "c = input_composition w b instructions static tools es"
  using that by (induction es arbitrary: c) (auto simp: input_composition_def split: prod.splits)

text \<open>The corrected factor does not bring the estimate up to what the provider counted: the overhead of the items is not
  scaled.\<close>

lemma correction_falls_short:
  defines "es \<equiv> [Other [97], Other [97]]"
  defines "b' \<equiv> example_budget\<lparr>bd_scale := retry_scale example_budget (estimate_tokens example_window example_budget [] es) (Some 36) None\<rparr>"
  shows "estimate_tokens example_window b' [] es < 36"
  unfolding es_def b'_def by code_simp

end
