(* ===== verification/DataScope.thy ===== *)
theory DataScope
  imports ServiceToken "HOL-Library.AList"
begin

text \<open>The scope of data of an agent (\<open>agent/backend/app/features/agent/data_scope.py\<close>): for each of the two products it
  calls, the profiles it may use and the default one. The runtime applies it to every call, to the results of lists
  and recommendations, to the description of tools given to the model, and to the tokens the products receive.
  \<open>None\<close> stands for the refusal of a definition.\<close>

section \<open>Scopes\<close>

definition NL2SQL_CONNECTION :: string where "NL2SQL_CONNECTION = ''nl2sql''"
definition RAG_CONNECTION :: string where "RAG_CONNECTION = ''rag''"
definition DATA_SCOPE_CONNECTIONS :: "string list" where
  "DATA_SCOPE_CONNECTIONS = [NL2SQL_CONNECTION, RAG_CONNECTION]"
definition MAX_SCOPE_PROFILES :: nat where "MAX_SCOPE_PROFILES = 50"
definition MAX_PROFILE_ID_CHARS :: nat where "MAX_PROFILE_ID_CHARS = 128"
definition CANDIDATES_ARGUMENT :: string where "CANDIDATES_ARGUMENT = ''profile_ids''"
definition KNOWLEDGE_BASE_ARGUMENT :: string where "KNOWLEDGE_BASE_ARGUMENT = ''knowledge_base_ids''"

record data_scope =
  ds_ids :: "string list"
  ds_default :: string

definition normalize_ids :: "string list \<Rightarrow> string list option" where
  "normalize_ids raw =
     (let items = filter (\<lambda>i. i \<noteq> []) (map strip raw)
      in if MAX_SCOPE_PROFILES < length raw \<or> list_ex (\<lambda>i. MAX_PROFILE_ID_CHARS < length i) items then None
         else Some (dedup items))"

definition make_scope :: "string list \<Rightarrow> string \<Rightarrow> data_scope option" where
  "make_scope raw chosen =
     (case normalize_ids raw of
        None \<Rightarrow> None
      | Some ids \<Rightarrow>
          if ids = [] then Some \<lparr>ds_ids = [], ds_default = []\<rparr>
          else
            let d = strip chosen; d = (if d = [] \<and> length ids = 1 then hd ids else d)
            in if d = [] \<or> d \<notin> set ids then None else Some \<lparr>ds_ids = ids, ds_default = d\<rparr>)"

type_synonym data_scopes = "(string \<times> data_scope) list"

definition normalize_data_scopes :: "data_scopes \<Rightarrow> data_scopes option" where
  "normalize_data_scopes v =
     (if list_ex (\<lambda>(k, s). k \<notin> set DATA_SCOPE_CONNECTIONS) v then None
      else Some (List.map_filter
        (\<lambda>k. case map_of v k of None \<Rightarrow> None | Some s \<Rightarrow> if ds_ids s = [] then None else Some (k, s)) DATA_SCOPE_CONNECTIONS))"

section \<open>Tools\<close>

text \<open>The name of a tool of a connection, cut at its first double underscore.\<close>

fun split_name :: "string \<Rightarrow> (string \<times> string) option" where
  "split_name (a # b # cs) =
     (if a = CHR ''_'' \<and> b = CHR ''_'' then Some ([], cs) else map_option (\<lambda>(x, y). (a # x, y)) (split_name (b # cs)))"
| "split_name _ = None"

definition connection_of :: "string \<Rightarrow> string option" where
  "connection_of name = map_option fst (split_name name)"

definition base_tool_name :: "string \<Rightarrow> string" where
  "base_tool_name name = (case split_name name of None \<Rightarrow> name | Some (c, t) \<Rightarrow> t)"

definition profile_argument :: "string \<Rightarrow> string \<Rightarrow> string option" where
  "profile_argument c t =
     (if c = NL2SQL_CONNECTION then (if t = ''nl2sql_query'' then Some ''profile_id'' else None)
      else if c = RAG_CONNECTION then
        (if t \<in> {''rag_search'', ''rag_retrieve_evidence'', ''rag_lookup_guides''} then Some ''search_answer_profile_id'' else None)
      else None)"

definition knowledge_base_tool :: "string \<Rightarrow> string \<Rightarrow> bool" where
  "knowledge_base_tool c t = (c = RAG_CONNECTION \<and> t \<in> {''rag_search'', ''rag_retrieve_evidence''})"

record list_tool =
  lt_items :: string
  lt_default :: int
  lt_max :: int

definition list_tool_of :: "string \<Rightarrow> string \<Rightarrow> list_tool option" where
  "list_tool_of c t =
     (if c = NL2SQL_CONNECTION \<and> t = ''nl2sql_list_profiles'' then Some \<lparr>lt_items = ''profiles'', lt_default = 20, lt_max = 100\<rparr>
      else if c = RAG_CONNECTION \<and> t = ''rag_list_search_answer_profiles''
        then Some \<lparr>lt_items = ''search_answer_profiles'', lt_default = 50, lt_max = 200\<rparr>
      else None)"

definition recommend_tool :: "string \<Rightarrow> string \<Rightarrow> bool" where
  "recommend_tool c t =
     (c = NL2SQL_CONNECTION \<and> t = ''nl2sql_recommend_profile'' \<or> c = RAG_CONNECTION \<and> t = ''rag_recommend_search_answer_profile'')"

definition takes_profile :: "string \<Rightarrow> bool" where
  "takes_profile name = (case connection_of name of None \<Rightarrow> False | Some c \<Rightarrow> profile_argument c (base_tool_name name) \<noteq> None)"

text \<open>The connection, the tool and the scope that applies to a call.\<close>

definition active_scope :: "string \<Rightarrow> data_scopes \<Rightarrow> (string \<times> string \<times> data_scope) option" where
  "active_scope name scopes =
     (case connection_of name of
        None \<Rightarrow> None
      | Some c \<Rightarrow>
          (case map_of scopes c of
             None \<Rightarrow> None
           | Some s \<Rightarrow> if ds_ids s = [] then None else Some (c, base_tool_name name, s)))"

section \<open>Names for ids\<close>

text \<open>A finished step of the run: the tool and its output, if the call succeeded.\<close>

type_synonym tool_outputs = "(string \<times> claims) list"

definition profile_items_of :: "string \<Rightarrow> string \<times> claims \<Rightarrow> json list" where
  "profile_items_of c step =
     (case step of
        (name, output) \<Rightarrow>
          if connection_of name \<noteq> Some c then []
          else
            let t = base_tool_name name;
                items = (case list_tool_of c t of
                           Some l \<Rightarrow> json_get output (lt_items l)
                         | None \<Rightarrow> if recommend_tool c t then json_get output ''candidates'' else JNull)
            in case items of JList js \<Rightarrow> js | _ \<Rightarrow> [])"

definition profile_candidate :: "json \<Rightarrow> (string \<times> string) option" where
  "profile_candidate j =
     (case j of
        JObject kvs \<Rightarrow>
          (case (json_get kvs ''id'', json_get kvs ''name'') of
             (JText i, JText n) \<Rightarrow> if i = [] then None else Some (i, n)
           | _ \<Rightarrow> None)
      | _ \<Rightarrow> None)"

definition profile_candidates :: "string \<Rightarrow> tool_outputs \<Rightarrow> (string \<times> string) list" where
  "profile_candidates c steps = List.map_filter profile_candidate (concat (map (profile_items_of c) steps))"

text \<open>The arguments with a name replaced by the id it stands for, and the argument, the name and the id;
  \<open>casefolded\<close> is \<open>casefold\<close> of texts.\<close>

definition resolve_profile_name :: "(string \<Rightarrow> string) \<Rightarrow> string \<Rightarrow> claims \<Rightarrow> tool_outputs \<Rightarrow> claims \<times> (string \<times> string \<times> string) option" where
  "resolve_profile_name casefolded name args steps =
     (case connection_of name of
        None \<Rightarrow> (args, None)
      | Some c \<Rightarrow>
          (case profile_argument c (base_tool_name name) of
             None \<Rightarrow> (args, None)
           | Some a \<Rightarrow>
               (case json_get args a of
                  JText v \<Rightarrow>
                    if strip v = [] then (args, None)
                    else
                      let cs = profile_candidates c steps;
                          ids = dedup (map fst (filter (\<lambda>(i, n). casefolded (strip n) = casefolded (strip v)) cs))
                      in if v \<in> fst ` set cs then (args, None)
                         else (case ids of [i] \<Rightarrow> (AList.update a (JText i) args, Some (a, v, i)) | _ \<Rightarrow> (args, None))
                | _ \<Rightarrow> (args, None))))"

section \<open>A call\<close>

datatype scope_action = Filled | Overridden | Kept | Rejected | Filtered

record enforcement =
  ef_connection :: string
  ef_tool :: string
  ef_scope :: data_scope
  ef_arguments :: claims
  ef_action :: "scope_action option"
  ef_requested :: string
  ef_profile :: "string option"
  ef_ignored :: json
  ef_limit :: "int option"
  ef_list :: "list_tool option"

definition requested_id :: "claims \<Rightarrow> string \<Rightarrow> string" where
  "requested_id args a = (case json_get args a of JText v \<Rightarrow> strip v | _ \<Rightarrow> [])"

text \<open>The profile a call is made with and what was done; \<open>None\<close> when the one asked for is not in the scope.\<close>

definition choose_profile :: "data_scope \<Rightarrow> string \<Rightarrow> (string \<times> scope_action) option" where
  "choose_profile s r =
     (if length (ds_ids s) = 1 then
        Some (hd (ds_ids s), if r = [] then Filled else if r = hd (ds_ids s) then Kept else Overridden)
      else if r = [] then Some (ds_default s, Filled)
      else if r \<in> set (ds_ids s) then Some (r, Kept)
      else None)"

definition enforce_profile :: "string \<Rightarrow> enforcement \<Rightarrow> enforcement" where
  "enforce_profile a e =
     (case choose_profile (ef_scope e) (requested_id (ef_arguments e) a) of
        None \<Rightarrow> e\<lparr>ef_requested := requested_id (ef_arguments e) a, ef_action := Some Rejected\<rparr>
      | Some (p, action) \<Rightarrow>
          e\<lparr>ef_arguments := AList.update a (JText p) (ef_arguments e), ef_requested := requested_id (ef_arguments e) a,
            ef_profile := Some p, ef_action := Some action\<rparr>)"

definition drop_knowledge_bases :: "enforcement \<Rightarrow> enforcement" where
  "drop_knowledge_bases e =
     e\<lparr>ef_ignored := json_get (ef_arguments e) KNOWLEDGE_BASE_ARGUMENT,
       ef_arguments := AList.delete KNOWLEDGE_BASE_ARGUMENT (ef_arguments e)\<rparr>"

definition widen_list :: "list_tool \<Rightarrow> enforcement \<Rightarrow> enforcement" where
  "widen_list l e =
     e\<lparr>ef_limit := Some (case json_int (json_get (ef_arguments e) ''limit'') of
                           Some n \<Rightarrow> if 0 < n then n else lt_default l
                         | None \<Rightarrow> lt_default l),
       ef_arguments := AList.update ''limit'' (JInt (lt_max l)) (ef_arguments e), ef_list := Some l, ef_action := Some Filtered\<rparr>"

definition narrow_candidates :: "enforcement \<Rightarrow> enforcement" where
  "narrow_candidates e =
     (let ids = ds_ids (ef_scope e);
          narrowed = (case json_get (ef_arguments e) CANDIDATES_ARGUMENT of
                        JList js \<Rightarrow> filter (\<lambda>j. j \<in> JText ` set ids) js | _ \<Rightarrow> [])
      in e\<lparr>ef_arguments :=
             AList.update CANDIDATES_ARGUMENT (JList (if narrowed = [] then map JText ids else narrowed)) (ef_arguments e),
           ef_action := Some Filtered\<rparr>)"

definition enforce :: "string \<Rightarrow> claims \<Rightarrow> data_scopes \<Rightarrow> enforcement option" where
  "enforce name args scopes =
     (case active_scope name scopes of
        None \<Rightarrow> None
      | Some (c, t, s) \<Rightarrow>
          if profile_argument c t = None \<and> list_tool_of c t = None \<and> \<not> knowledge_base_tool c t \<and> \<not> recommend_tool c t then None
          else
            let e = \<lparr>ef_connection = c, ef_tool = t, ef_scope = s, ef_arguments = args, ef_action = None,
                     ef_requested = [], ef_profile = None, ef_ignored = JNull, ef_limit = None, ef_list = None\<rparr>;
                e = (case profile_argument c t of None \<Rightarrow> e | Some a \<Rightarrow> enforce_profile a e);
                e = (if knowledge_base_tool c t then drop_knowledge_bases e else e);
                e = (case list_tool_of c t of None \<Rightarrow> e | Some l \<Rightarrow> widen_list l e);
                e = (if recommend_tool c t then narrow_candidates e else e)
            in Some e)"

section \<open>A result\<close>

text \<open>Whether the id of an item is in the scope; a list or an object as id is not hashable: the look-up raises.\<close>

definition item_in_scope :: "string list \<Rightarrow> json \<Rightarrow> bool option" where
  "item_in_scope ids j =
     (case j of
        JObject kvs \<Rightarrow>
          (case json_get kvs ''id'' of JText i \<Rightarrow> Some (i \<in> set ids) | JList _ \<Rightarrow> None | JObject _ \<Rightarrow> None | _ \<Rightarrow> Some False)
      | _ \<Rightarrow> Some False)"

definition items_in_scope :: "string list \<Rightarrow> json list \<Rightarrow> json list option" where
  "items_in_scope ids js =
     (if list_ex (\<lambda>j. item_in_scope ids j = None) js then None else Some (filter (\<lambda>j. item_in_scope ids j = Some True) js))"

definition drop_recommended :: "string list \<Rightarrow> claims \<Rightarrow> claims \<times> nat" where
  "drop_recommended ids output =
     (if case json_get output ''recommended_profile_id'' of JText i \<Rightarrow> i \<notin> set ids | _ \<Rightarrow> False
      then (AList.update ''recommended_profile_id'' JNull output, 1) else (output, 0))"

definition filter_output :: "enforcement \<Rightarrow> claims \<Rightarrow> (claims \<times> nat) option" where
  "filter_output e output =
     (let ids = ds_ids (ef_scope e)
      in case ef_list e of
           Some l \<Rightarrow>
             (case json_get output (lt_items l) of
                JList js \<Rightarrow>
                  (case items_in_scope ids js of
                     None \<Rightarrow> None
                   | Some kept \<Rightarrow>
                       let cut = (case ef_limit e of None \<Rightarrow> kept | Some n \<Rightarrow> take (nat n) kept)
                       in Some (AList.update (lt_items l) (JList cut) output, length js - length kept))
              | _ \<Rightarrow> Some (output, 0))
         | None \<Rightarrow>
             if recommend_tool (ef_connection e) (ef_tool e) then
               (case drop_recommended ids output of
                  (base, removed) \<Rightarrow>
                    (case json_get output ''candidates'' of
                       JList js \<Rightarrow>
                         (case items_in_scope ids js of
                            None \<Rightarrow> None
                          | Some kept \<Rightarrow> Some (AList.update ''candidates'' (JList kept) base, removed + (length js - length kept)))
                     | _ \<Rightarrow> Some (base, removed)))
             else Some (output, 0))"

section \<open>What the model and the products are told\<close>

text \<open>The schema of a tool without the arguments the runtime fills; the description of the one it does not fill gets
  \<open>advice\<close>, the sentence that lists the ids of a scope and its default (in Japanese: an argument). \<open>shown\<close> is Python's
  \<open>str\<close> of a value that is true. The names a schema requires are texts.\<close>

fun json_true :: "json \<Rightarrow> bool" where
  "json_true JNull = False"
| "json_true (JBool b) = b"
| "json_true (JInt n) = (n \<noteq> 0)"
| "json_true (JFloat r) = (r \<noteq> 0)"
| "json_true (JText s) = (s \<noteq> [])"
| "json_true (JList js) = (js \<noteq> [])"
| "json_true (JObject kvs) = (kvs \<noteq> [])"

definition removed_arguments :: "string \<Rightarrow> string \<Rightarrow> data_scope \<Rightarrow> claims \<Rightarrow> string list" where
  "removed_arguments c t s properties =
     (case profile_argument c t of
        Some a \<Rightarrow> if a \<in> fst ` set properties \<and> length (ds_ids s) = 1 then [a] else []
      | None \<Rightarrow> [])
     @ (if knowledge_base_tool c t then [KNOWLEDGE_BASE_ARGUMENT] else [])
     @ (if recommend_tool c t then [CANDIDATES_ARGUMENT] else [])"

definition with_advice :: "(json \<Rightarrow> string) \<Rightarrow> string \<Rightarrow> claims \<Rightarrow> claims" where
  "with_advice shown advice prop =
     (let d = json_get prop ''description''; d = strip (if json_true d then shown d else [])
      in AList.update ''description'' (JText (strip (d @ '' '' @ advice))) prop)"

definition described ::
    "(json \<Rightarrow> string) \<Rightarrow> (data_scope \<Rightarrow> string) \<Rightarrow> string \<Rightarrow> string \<Rightarrow> data_scope \<Rightarrow> claims \<Rightarrow> claims" where
  "described shown advice c t s properties =
     (case profile_argument c t of
        Some a \<Rightarrow>
          (case map_of properties a of
             Some (JObject p) \<Rightarrow>
               if length (ds_ids s) = 1 then properties
               else AList.update a (JObject (with_advice shown (advice s) p)) properties
           | _ \<Rightarrow> properties)
      | None \<Rightarrow> properties)"

definition scoped_input_schema ::
    "(json \<Rightarrow> string) \<Rightarrow> (data_scope \<Rightarrow> string) \<Rightarrow> string \<Rightarrow> claims \<Rightarrow> data_scopes \<Rightarrow> claims" where
  "scoped_input_schema shown advice name schema scopes =
     (case (active_scope name scopes, json_get schema ''properties'') of
        (Some (c, t, s), JObject properties) \<Rightarrow>
          let removed = removed_arguments c t s properties;
              updated = filter (\<lambda>(k, v). k \<notin> set removed) (described shown advice c t s properties);
              schema = AList.update ''properties'' (JObject updated) schema
          in (case json_get schema ''required'' of
                JList js \<Rightarrow> AList.update ''required'' (JList (filter (\<lambda>j. j \<notin> JText ` set removed) js)) schema
              | _ \<Rightarrow> schema)
      | _ \<Rightarrow> schema)"

definition token_profile_scopes :: "data_scopes \<Rightarrow> (string \<times> string list) list" where
  "token_profile_scopes scopes =
     List.map_filter
       (\<lambda>(c, s). if c \<in> set DATA_SCOPE_CONNECTIONS \<and> ds_ids s \<noteq> [] then Some (c, ds_ids s) else None) scopes"

definition fixed_profile_connections :: "data_scopes \<Rightarrow> string list" where
  "fixed_profile_connections scopes =
     map fst (filter (\<lambda>(c, s). c \<in> set DATA_SCOPE_CONNECTIONS \<and> length (ds_ids s) = 1) scopes)"

text \<open>What an editor adds to the scopes of an agent, and what of it the editor may not use; \<open>usable\<close> are the profiles
  the product lists for the editor.\<close>

definition added_profile_ids :: "data_scopes \<Rightarrow> data_scopes \<Rightarrow> (string \<times> string list) list" where
  "added_profile_ids current requested =
     filter (\<lambda>(c, ids). ids \<noteq> [])
       (map (\<lambda>(c, s). (c, filter (\<lambda>i. i \<notin> (case map_of current c of None \<Rightarrow> {} | Some b \<Rightarrow> set (ds_ids b))) (ds_ids s))) requested)"

definition editor_can_use :: "(string \<Rightarrow> string list) \<Rightarrow> (string \<times> string list) list \<Rightarrow> bool" where
  "editor_can_use usable added = list_all (\<lambda>(c, ids). set ids \<subseteq> set (usable c)) added"


section \<open>Valid scopes\<close>

definition scope_ok :: "data_scope \<Rightarrow> bool" where
  "scope_ok s =
     (distinct (ds_ids s) \<and> length (ds_ids s) \<le> MAX_SCOPE_PROFILES
      \<and> (\<forall>i\<in>set (ds_ids s). i \<noteq> [] \<and> strip i = i \<and> length i \<le> MAX_PROFILE_ID_CHARS)
      \<and> (ds_ids s \<noteq> [] \<longrightarrow> ds_default s \<in> set (ds_ids s)))"

lemma make_scope_ok: "make_scope raw d = Some s \<Longrightarrow> scope_ok s"
proof -
  assume s: "make_scope raw d = Some s"
  then obtain ids where ids: "normalize_ids raw = Some ids" by (auto simp: make_scope_def split: option.splits)
  have "distinct ids" and "\<forall>i\<in>set ids. i \<noteq> [] \<and> strip i = i \<and> length i \<le> MAX_PROFILE_ID_CHARS"
    using ids by (auto simp: normalize_ids_def Let_def list_ex_iff strip_strip not_less split: if_splits)
  moreover have "length ids \<le> MAX_SCOPE_PROFILES"
  proof -
    have "length ids \<le> length (filter (\<lambda>i. i \<noteq> []) (map strip raw))"
      using ids length_dedup_le [of "filter (\<lambda>i. i \<noteq> []) (map strip raw)"] by (auto simp: normalize_ids_def Let_def split: if_splits)
    also have "\<dots> \<le> length raw" using length_filter_le [of _ "map strip raw"] by simp
    finally show ?thesis using ids by (auto simp: normalize_ids_def Let_def split: if_splits)
  qed
  moreover have "s = \<lparr>ds_ids = [], ds_default = []\<rparr> \<and> ids = [] \<or> ds_ids s = ids \<and> ds_default s \<in> set ids"
    using s ids by (auto simp: make_scope_def Let_def split: if_splits)
  ultimately show ?thesis by (auto simp: scope_ok_def)
qed

lemma choose_in_scope:
  "scope_ok s \<Longrightarrow> ds_ids s \<noteq> [] \<Longrightarrow> choose_profile s r = Some (p, a) \<Longrightarrow> p \<in> set (ds_ids s)"
  by (auto simp: choose_profile_def scope_ok_def split: if_splits)

lemma choose_refuses: "choose_profile s r = None \<longleftrightarrow> length (ds_ids s) \<noteq> 1 \<and> r \<noteq> [] \<and> r \<notin> set (ds_ids s)"
  by (simp add: choose_profile_def)

text \<open>No tool is of two of the kinds that replace an argument, except the searches, which take a profile and knowledge
  bases.\<close>

lemma kinds_apart:
  "profile_argument c t = Some a \<Longrightarrow> list_tool_of c t = None \<and> \<not> recommend_tool c t"
  "knowledge_base_tool c t \<Longrightarrow> profile_argument c t = Some ''search_answer_profile_id''"
  "list_tool_of c t = Some l \<Longrightarrow> \<not> recommend_tool c t \<and> \<not> knowledge_base_tool c t"
  "recommend_tool c t \<Longrightarrow> \<not> knowledge_base_tool c t"
  "profile_argument c t = Some a \<Longrightarrow> a \<noteq> KNOWLEDGE_BASE_ARGUMENT"
  by (auto simp: profile_argument_def list_tool_of_def recommend_tool_def knowledge_base_tool_def NL2SQL_CONNECTION_def
      RAG_CONNECTION_def KNOWLEDGE_BASE_ARGUMENT_def split: if_splits)

lemma update_map [simp]: "map_of (AList.update k v al) = (map_of al)(k \<mapsto> v)"
  by (rule update_conv')

lemma delete_map [simp]: "map_of (AList.delete k al) = (map_of al)(k := None)"
  by (rule delete_conv')

definition managed_arguments :: "string \<Rightarrow> string \<Rightarrow> string set" where
  "managed_arguments c t =
     set_option (profile_argument c t) \<union> (if knowledge_base_tool c t then {KNOWLEDGE_BASE_ARGUMENT} else {})
     \<union> (if list_tool_of c t = None then {} else {''limit''}) \<union> (if recommend_tool c t then {CANDIDATES_ARGUMENT} else {})"

text \<open>C12: whatever arguments a model passes, the call that leaves names a profile of the scope of the agent and no
  knowledge base of its own, a request for a recommendation is limited to a nonempty part of the scope, and every other
  argument is as the model gave it. A call is refused exactly when several profiles are allowed and the one it names is
  none of them.\<close>

theorem scoped_calls_stay_in_scope:
  assumes "active_scope name scopes = Some (c, t, s)" and "scope_ok s" and "enforce name args scopes = Some e"
  shows "(case profile_argument c t of
            Some a \<Rightarrow>
              (if length (ds_ids s) \<noteq> 1 \<and> requested_id args a \<noteq> [] \<and> requested_id args a \<notin> set (ds_ids s)
               then ef_action e = Some Rejected
               else ef_action e \<noteq> Some Rejected \<and> map_of (ef_arguments e) a \<in> Some ` JText ` set (ds_ids s))
          | None \<Rightarrow> ef_action e \<noteq> Some Rejected)
    \<and> (knowledge_base_tool c t \<longrightarrow> map_of (ef_arguments e) KNOWLEDGE_BASE_ARGUMENT = None)
    \<and> (recommend_tool c t \<longrightarrow>
         (\<exists>js. map_of (ef_arguments e) CANDIDATES_ARGUMENT = Some (JList js) \<and> js \<noteq> [] \<and> set js \<subseteq> JText ` set (ds_ids s)))
    \<and> (\<forall>k. k \<notin> managed_arguments c t \<longrightarrow> map_of (ef_arguments e) k = map_of args k)"
proof -
  have ids: "ds_ids s \<noteq> []" using assms(1) by (auto simp: active_scope_def split: option.splits if_splits)
  define e0 where "e0 = \<lparr>ef_connection = c, ef_tool = t, ef_scope = s, ef_arguments = args, ef_action = None, ef_requested = [],
    ef_profile = None, ef_ignored = JNull, ef_limit = None, ef_list = None\<rparr>"
  consider (profile) a where "profile_argument c t = Some a" | (listing) l where "profile_argument c t = None" "list_tool_of c t = Some l"
    | (recommend) "profile_argument c t = None" "list_tool_of c t = None" "recommend_tool c t"
    using assms(1,3) kinds_apart(2) [of c t] by (fastforce simp: enforce_def split: if_splits)
  then show ?thesis
  proof cases
    case profile
    then have e: "e = (if knowledge_base_tool c t then drop_knowledge_bases (enforce_profile a e0) else enforce_profile a e0)"
      using assms(1,3) kinds_apart(1) [OF profile] by (simp add: enforce_def e0_def Let_def split: if_splits)
    show ?thesis
    proof (cases "choose_profile s (requested_id args a)")
      case None
      then show ?thesis
        using choose_refuses [of s "requested_id args a"] profile kinds_apart(1) [OF profile]
        by (simp add: e enforce_profile_def e0_def drop_knowledge_bases_def managed_arguments_def)
    next
      case (Some x)
      obtain p act where x: "x = (p, act)" by force
      have "p \<in> set (ds_ids s)" using choose_in_scope [OF assms(2) ids] Some x by simp
      moreover have "act \<noteq> Rejected" using Some x by (auto simp: choose_profile_def split: if_splits)
      moreover have "\<not> (length (ds_ids s) \<noteq> 1 \<and> requested_id args a \<noteq> [] \<and> requested_id args a \<notin> set (ds_ids s))"
        using Some choose_refuses [of s "requested_id args a"] by auto
      ultimately show ?thesis
        using Some x profile kinds_apart(1,5) [OF profile]
        by (auto simp: e enforce_profile_def e0_def drop_knowledge_bases_def managed_arguments_def)
    qed
  next
    case listing
    then have "e = widen_list l e0" using assms(1,3) kinds_apart(3) [OF listing(2)] by (simp add: enforce_def e0_def)
    then show ?thesis
      using listing kinds_apart(3) [OF listing(2)] by (auto simp: widen_list_def e0_def managed_arguments_def)
  next
    case recommend
    then have e: "e = narrow_candidates e0"
      using assms(1,3) kinds_apart(4) [OF recommend(3)] by (simp add: enforce_def e0_def)
    show ?thesis
      using recommend kinds_apart(4) [OF recommend(3)] ids
      by (auto simp: e narrow_candidates_def e0_def managed_arguments_def Let_def split: json_of.splits)
  qed
qed

section \<open>Results and descriptions\<close>

lemma item_in_scope_True:
  "item_in_scope ids j = Some True \<longleftrightarrow> (\<exists>kvs i. j = JObject kvs \<and> json_get kvs ''id'' = JText i \<and> i \<in> set ids)"
proof (cases j)
  case (JObject kvs)
  then show ?thesis by (cases "json_get kvs ''id''") (simp_all add: item_in_scope_def)
qed (simp_all add: item_in_scope_def)

lemma items_in_scope_inside:
  "items_in_scope ids js = Some kept \<Longrightarrow>
   set kept \<subseteq> set js \<and> (\<forall>j\<in>set kept. \<exists>kvs i. j = JObject kvs \<and> json_get kvs ''id'' = JText i \<and> i \<in> set ids)"
  by (auto simp: items_in_scope_def item_in_scope_True split: if_splits)

lemma map_of_get: "json_get (AList.update k v kvs) k' = (if k' = k then v else json_get kvs k')"
  by (simp add: json_get_def)

text \<open>The entries of a list or of a recommendation that reach the model are of the scope, and so is the profile
  recommended.\<close>

lemma filtered_list_in_scope:
  assumes "ef_list e = Some l" and "filter_output e output = Some (out, n)" and "json_get out (lt_items l) = JList js"
  shows "\<forall>j\<in>set js. \<exists>kvs i. j = JObject kvs \<and> json_get kvs ''id'' = JText i \<and> i \<in> set (ds_ids (ef_scope e))"
proof -
  obtain all where all: "json_get output (lt_items l) = JList all"
    using assms by (auto simp: filter_output_def split: json_of.splits)
  then obtain kept where kept: "items_in_scope (ds_ids (ef_scope e)) all = Some kept"
    using assms(1,2) by (auto simp: filter_output_def split: option.splits)
  have "set js \<subseteq> set kept"
    using assms all kept by (auto simp: filter_output_def map_of_get Let_def dest: in_set_takeD split: option.splits)
  then show ?thesis using items_in_scope_inside [OF kept] by blast
qed

lemma recommendation_in_scope:
  assumes "ef_list e = None" and "recommend_tool (ef_connection e) (ef_tool e)" and "filter_output e output = Some (out, n)"
  shows "json_get out ''recommended_profile_id'' = JText i \<Longrightarrow> i \<in> set (ds_ids (ef_scope e))"
    and "json_get out ''candidates'' = JList js \<Longrightarrow>
      \<forall>j\<in>set js. \<exists>kvs i. j = JObject kvs \<and> json_get kvs ''id'' = JText i \<and> i \<in> set (ds_ids (ef_scope e))"
proof -
  obtain base removed where dr: "drop_recommended (ds_ids (ef_scope e)) output = (base, removed)" by force
  have base: "json_get base ''recommended_profile_id'' = JText i \<Longrightarrow> i \<in> set (ds_ids (ef_scope e))" for i
    using dr by (auto simp: drop_recommended_def map_of_get split: if_splits json_of.splits)
  have cs: "json_get base ''candidates'' = json_get output ''candidates''"
    using dr by (auto simp: drop_recommended_def map_of_get split: if_splits)
  have out: "(case json_get output ''candidates'' of
      JList js \<Rightarrow>
        (case items_in_scope (ds_ids (ef_scope e)) js of
           None \<Rightarrow> None
         | Some kept \<Rightarrow> Some (AList.update ''candidates'' (JList kept) base, removed + (length js - length kept)))
    | _ \<Rightarrow> Some (base, removed)) = Some (out, n)"
    using assms unfolding filter_output_def Let_def assms(1) option.case dr prod.case by simp
  show "json_get out ''recommended_profile_id'' = JText i \<Longrightarrow> i \<in> set (ds_ids (ef_scope e))"
    using out base by (auto simp: map_of_get split: json_of.splits option.splits)
  show "\<forall>j\<in>set js. \<exists>kvs i. j = JObject kvs \<and> json_get kvs ''id'' = JText i \<and> i \<in> set (ds_ids (ef_scope e))"
    if "json_get out ''candidates'' = JList js"
    using out that cs by (auto simp: map_of_get dest!: items_in_scope_inside split: json_of.splits option.splits)
qed

text \<open>An item whose id is a list makes the filter raise.\<close>

lemma listed_id_raises:
  "ef_list e = Some l \<Longrightarrow> filter_output e [(lt_items l, JList [JObject [(''id'', JList [])]])] = None"
  by (simp add: filter_output_def items_in_scope_def item_in_scope_def json_get_def)

text \<open>The arguments the runtime fills or ignores are not shown to the model.\<close>

lemma filled_arguments_are_hidden:
  assumes "active_scope name scopes = Some (c, t, s)" and "json_get schema ''properties'' = JObject properties"
    and "k \<in> set (removed_arguments c t s properties)"
  shows "\<exists>ps. json_get (scoped_input_schema shown advice name schema scopes) ''properties'' = JObject ps \<and> map_of ps k = None"
proof -
  have "map_of (filter (\<lambda>(k, v). k \<notin> set (removed_arguments c t s properties)) ps) k = None" for ps :: claims
    using assms(3) by (auto simp: map_of_eq_None_iff)
  then show ?thesis
    using assms(1,2) by (auto simp: scoped_input_schema_def map_of_get Let_def split: json_of.splits)
qed

section \<open>The scope in the tokens\<close>

lemma scope_within_claim_limits:
  assumes "scope_ok s" and "ds_ids s \<noteq> []"
  shows "scoped_ids (ds_ids s) = Some (ds_ids s)"
proof -
  have "map strip (ds_ids s) = ds_ids s" using assms(1) by (intro map_idI) (simp add: scope_ok_def)
  then show ?thesis
    using assms by (auto simp: scoped_ids_def valid_profile_ids_def profile_items_texts scope_ok_def dedup_distinct
        list_all_iff PROFILE_SCOPE_MAX_IDS_def MAX_SCOPE_PROFILES_def PROFILE_SCOPE_MAX_ID_CHARS_def MAX_PROFILE_ID_CHARS_def)
qed

text \<open>C13: every scope an administrator can store fits into a token: a call with it gets a token that its product
  accepts while it lives, and the product then lets the user have exactly the profiles of the scope that the user may use
  (all of the scope when the user is not restricted); the profile the runtime chose is of the scope.\<close>

theorem agent_scope_reaches_the_token:
  assumes "make_scope raw d = Some s" and "ds_ids s \<noteq> []" and "require_secret secret = Some sec"
    and "subject \<noteq> []" "audience \<noteq> []" "0 < ttl" "ttl \<le> SERVICE_TOKEN_MAX_TTL"
    and "distinct (map fst extra)" and "\<And>a b. plain_segment (tc_sign tc a b)" and "codec_keeps tc token_header"
    and "codec_keeps tc (JObject (token_payload issuer subject audience \<lfloor>born\<rfloor> ttl extra (scoped_ids (ds_ids s))))"
    and "born \<le> now" "now \<le> born + of_int ttl"
  shows "\<exists>token claims. issue_service_token tc secret subject audience issuer ttl extra (ds_ids s) born = Inr token
    \<and> verify_service_token tc secret token audience now = Inr claims
    \<and> (\<forall>allowed. narrow_to_profile_scope allowed (profile_scope_from_claims (Some claims))
         = Some (case allowed of None \<Rightarrow> set (ds_ids s) | Some a \<Rightarrow> a \<inter> set (ds_ids s)))
    \<and> (\<forall>r p act. choose_profile s r = Some (p, act) \<longrightarrow> p \<in> set (ds_ids s))"
proof -
  have ok: "scope_ok s" by (rule make_scope_ok [OF assms(1)])
  note ids = scope_within_claim_limits [OF ok assms(2)]
  have "strip ` set (ds_ids s) = set (ds_ids s)" using ok by (simp add: scope_ok_def cong: image_cong)
  obtain token where token: "issue_service_token tc secret subject audience issuer ttl extra (ds_ids s) born = Inr token"
    using assms ids by (simp add: issue_service_token_def scoped_ids_def [symmetric] Let_def scoped_ids_def)
  define claims where "claims = token_payload issuer subject audience \<lfloor>born\<rfloor> ttl extra (scoped_ids (ds_ids s))"
  note v = issued_verifies [OF assms(8-11) token]
  have "verify_service_token tc secret token audience now = Inr claims"
    using assms(12,13) v(1) [of audience now] unfolding claims_def by (simp split: if_splits) linarith
  moreover have "profile_scope_from_claims (Some claims) = Some (set (ds_ids s))"
    using v(3) assms(2) \<open>strip ` _ = _\<close> unfolding claims_def by simp
  ultimately show ?thesis
    using token choose_in_scope [OF ok assms(2)]
    by (intro exI [of _ token] exI [of _ claims]) (auto simp: narrow_to_profile_scope_def split: option.splits)
qed

section \<open>An example\<close>

definition sales_scope :: data_scope where
  "sales_scope = \<lparr>ds_ids = [''p1'', ''p2''], ds_default = ''p2''\<rparr>"

lemma sales_scope_made: "make_scope ['' p1'', ''p2'', ''p1''] ''p2'' = Some sales_scope"
  by code_simp

theorem scoped_calls_stay_in_scope_witness:
  "\<exists>e. enforce ''nl2sql__nl2sql_query'' [(''question'', JText ''q''), (''profile_id'', JText ''p9'')]
      [(NL2SQL_CONNECTION, sales_scope)] = Some e \<and> ef_action e = Some Rejected"
proof -
  let ?n = "''nl2sql__nl2sql_query''" and ?a = "[(''question'', JText ''q''), (''profile_id'', JText ''p9'')]"
    and ?s = "[(NL2SQL_CONNECTION, sales_scope)]"
  have "active_scope ?n ?s = Some (NL2SQL_CONNECTION, ''nl2sql_query'', sales_scope)" by code_simp
  moreover have "enforce ?n ?a ?s \<noteq> None" by code_simp
  then obtain e where e: "enforce ?n ?a ?s = Some e" by blast
  ultimately have "case profile_argument NL2SQL_CONNECTION ''nl2sql_query'' of
      Some a \<Rightarrow>
        (if length (ds_ids sales_scope) \<noteq> 1 \<and> requested_id ?a a \<noteq> [] \<and> requested_id ?a a \<notin> set (ds_ids sales_scope)
         then ef_action e = Some Rejected
         else ef_action e \<noteq> Some Rejected \<and> map_of (ef_arguments e) a \<in> Some ` JText ` set (ds_ids sales_scope))
    | None \<Rightarrow> ef_action e \<noteq> Some Rejected"
    using scoped_calls_stay_in_scope [OF _ make_scope_ok [OF sales_scope_made]] by blast
  moreover have "profile_argument NL2SQL_CONNECTION ''nl2sql_query'' = Some ''profile_id''" by code_simp
  moreover have "requested_id ?a ''profile_id'' = ''p9''" by code_simp
  ultimately show ?thesis using e by (simp add: sales_scope_def)
qed

theorem agent_scope_reaches_the_token_witness:
  "\<exists>token claims. issue_service_token example_codec (replicate 32 CHR ''s'') ''u2'' ''rag'' ''agent'' 60 [] [''p1''] 1000 = Inr token
     \<and> verify_service_token example_codec (replicate 32 CHR ''s'') token ''rag'' 1030 = Inr claims
     \<and> narrow_to_profile_scope (Some {''p1'', ''p3''}) (profile_scope_from_claims (Some claims)) = Some {''p1''}
     \<and> narrow_to_profile_scope (Some {''p3''}) (profile_scope_from_claims (Some claims)) = Some {}"
proof -
  let ?s = "\<lparr>ds_ids = [''p1''], ds_default = ''p1''\<rparr>"
  define key :: string where "key = replicate 32 CHR ''s''"
  have made: "make_scope [''p1''] [] = Some ?s" by code_simp
  have secret: "require_secret key = Some key" unfolding key_def by code_simp
  have codec: "codec_keeps example_codec
      (JObject (token_payload ''agent'' ''u2'' ''rag'' \<lfloor>1000 :: rat\<rfloor> 60 [] (scoped_ids (ds_ids ?s))))"
    using example_codec_keeps(2) by (simp add: example_claims_def)
  have plain: "plain_segment (tc_sign example_codec a b)" for a b by (simp add: example_codec_def plain_segment_def is_ascii_def)
  have "\<exists>token claims. issue_service_token example_codec key ''u2'' ''rag'' ''agent'' 60 [] (ds_ids ?s) 1000 = Inr token
    \<and> verify_service_token example_codec key token ''rag'' 1030 = Inr claims
    \<and> (\<forall>allowed. narrow_to_profile_scope allowed (profile_scope_from_claims (Some claims))
         = Some (case allowed of None \<Rightarrow> set (ds_ids ?s) | Some a \<Rightarrow> a \<inter> set (ds_ids ?s)))
    \<and> (\<forall>r p act. choose_profile ?s r = Some (p, act) \<longrightarrow> p \<in> set (ds_ids ?s))"
    by (rule agent_scope_reaches_the_token [OF made _ secret _ _ _ _ _ plain example_codec_keeps(1) codec])
      (simp_all add: SERVICE_TOKEN_MAX_TTL_def)
  then obtain token claims where t: "issue_service_token example_codec key ''u2'' ''rag'' ''agent'' 60 [] (ds_ids ?s) 1000 = Inr token"
      "verify_service_token example_codec key token ''rag'' 1030 = Inr claims"
    and u: "\<And>allowed. narrow_to_profile_scope allowed (profile_scope_from_claims (Some claims))
         = Some (case allowed of None \<Rightarrow> set (ds_ids ?s) | Some a \<Rightarrow> a \<inter> set (ds_ids ?s))"
    by blast
  have "narrow_to_profile_scope (Some {''p1'', ''p3''}) (profile_scope_from_claims (Some claims)) = Some {''p1''}"
    "narrow_to_profile_scope (Some {''p3''}) (profile_scope_from_claims (Some claims)) = Some {}"
    by (auto simp: u)
  then show ?thesis using t unfolding key_def data_scope.select_convs by blast
qed

end
