(* ===== verification/Spec2Isabelle.thy ===== *)
theory Spec2Isabelle
  imports RunProperties AuthAccess ToolLoopGuard BoundedCalls LoginThrottle
    IngestionProperties IngestionDispatch IngestionWatch
    RerankSelection CandidateBudget RankFusion SqlGuard
    RequestGate CallLimit DataGrants ContextBudget DataScope
begin

text \<open>
A model of the core logic of a suite of products over Oracle databases, and the theorems that make it correct. The
suite has three products and a platform they share:

  \<^item> \<open>agent\<close>: runs of agents that call models and tools, ask for approvals and write to outside systems;
  \<^item> \<open>rag\<close>: the ingestion of documents and the search over them;
  \<^item> \<open>nl2sql\<close>: questions turned into SQL, and what its users may read of the tables;
  \<^item> \<open>platform\<close>: log-in, users, roles, API keys, signed tokens between the products, calls to models with bounds.

A request enters through the authorization of the platform (\<open>RequestGate\<close>), which stands on its service and stores. An
agent run is taken by a dispatcher, works through the bounded calls, and calls the other products with a signed
token. The search of \<open>rag\<close> fuses, cuts and selects what \<open>nl2sql\<close> and the documents deliver. Everything below is
translated from Python; paths are relative to \<open>src/\<close>.

\<^bold>\<open>Prelude.\<close> \<open>Prelude\<close> holds the types all components use (identifiers, optional strings, instants), the idioms of
Python's lists and dictionaries, and their automation. \<open>JsonValue\<close> holds the values read from JSON.

\<^bold>\<open>Runs of agents\<close> (\<open>agent/backend/app/features/agent/\<close>).

  \<^item> \<open>RunClaim\<close>: the lease of the dispatcher and the fencing token of an execution (\<open>run_claim.py\<close>). A claim has a
    generation; a start or a write-back names it.
  \<^item> \<open>ExternalWrites\<close>: tool calls, results and steps, and writes whose outcome is unknown (\<open>tools.py\<close>,
    \<open>external_writes.py\<close>).
  \<^item> \<open>RunState\<close>, \<open>RunRepository\<close>: the record of a run, the operations on one run and on the repository
    (\<open>runtime.py\<close>, \<open>confirmation.py\<close>). Every exception of the code is a branch of the result.
  \<^item> \<open>RunInvariant\<close>, \<open>RunWriteBacks\<close>, \<open>RunLifecycle\<close>: the invariant of a run, the history order (what no operation
    lowers or forgets), and their preservation. \<open>repo_step\<close> is the inductive step relation whose rules are the
    operations as their callers issue them.
  \<^item> \<open>Fencing\<close>, \<open>RunSystem\<close>: the locale \<open>fenced_start\<close> says what a fenced start promises. It is interpreted on the
    repository as \<open>fence\<close>. \<open>RunProperties\<close> states what follows: a claim is used once, a status agrees with the pending
    work, an end is final, a superseded execution writes nothing, an interrupted write is never called unexecuted.
  \<^item> \<open>RunBudget\<close> (\<open>run_budget.py\<close>), \<open>ToolLoopGuard\<close> (\<open>tool_loop_guard.py\<close>): the limits of a run. The guard is compared
    with a reference that speaks of the last results in a row.

\<^bold>\<open>The input of a model call\<close> (\<open>agent/backend/app/features/agent/context_window.py\<close>). \<open>ContextShrink\<close> shrinks one result of
a tool (\<open>compact_output\<close>): working state stays, and identifiers do but for those deep in the items of a list. \<open>ContextWindow\<close> holds the estimates, the budget and
\<open>compact_items\<close>, which takes images out and shrinks results, the older ones first. \<open>ContextBudget\<close> proves that
nothing but results of tools changes, that few images remain, and that an input that does not fit has used every
means. Its theorem about exhausted results needs the text of a result to stand before its images, which is how the
runtime builds them; otherwise the note in the place of an image would be taken for the text.

\<^bold>\<open>The scope of data of an agent\<close> (\<open>DataScope\<close>: \<open>agent/backend/app/features/agent/data_scope.py\<close>): what an agent may
use of the profiles of the two products it calls. The scope is forced on the arguments, the results and the schemas of
the tools and carried in the token of \<open>ServiceToken\<close>, where the product enforces it again.

\<^bold>\<open>Bounded calls\<close> (\<open>platform/packages/backend_core/src/pr_backend_core/bounded_calls.py\<close>). \<open>ErrorKinds\<close> classifies
failures; links between exceptions may be cyclic, as in Python. \<open>BoundedCalls\<close> is the caller: adaptive limit, pause,
retry budget and breaker, with one step function for a call, so that theorems speak of every interleaving of calls.

\<^bold>\<open>Authentication\<close> (\<open>platform/packages/system_settings_backend/src/pr_system_settings/auth/\<close>).

  \<^item> \<open>LoginStore\<close>, \<open>LoginThrottle\<close> (\<open>login_throttle.py\<close>): the limit on attempts to log in, shared by workers. The
    locale \<open>attempt_store\<close> is the contract of a place where attempts are recorded, \<open>exact_store\<close> the stronger one; they
    are interpreted on the store in memory and the table.
  \<^item> \<open>AuthData\<close> (\<open>domain.py\<close>, \<open>errors.py\<close>, \<open>visibility.py\<close>), \<open>AuthStore\<close> and \<open>AuthTables\<close> (\<open>store.py\<close>: the store in
    memory and the four tables with their keys), \<open>AuthService\<close> (\<open>service.py\<close>).
  \<^item> \<open>AuthContract\<close>: the locale \<open>auth_contract\<close>, what the service may rely on of a store. \<open>AuthStores\<close> interprets it on
    both. \<open>AuthProperties\<close> and \<open>AuthAccess\<close> state for the tables what ends a session, that an administrator is kept,
    when a log-in succeeds, when a user is locked, and that nobody gives away rights beyond the own ones.
  \<^item> \<open>ApiKeys\<close>, \<open>ApiKeyStores\<close>, \<open>ApiKeyProperties\<close>, \<open>CallLimit\<close> (\<open>api_keys.py\<close>, \<open>service.py\<close>): the keys, the locale
    \<open>key_store\<close> interpreted on memory and table, and the limit of calls per minute against a reference that remembers
    every counted call.
  \<^item> \<open>ServiceToken\<close> (\<open>service_token.py\<close>), \<open>RequestGate\<close> (\<open>dependencies.py\<close>): tokens between products and the
    authorization of a request.

\<^bold>\<open>Ingestion\<close> (\<open>rag/backend/app/\<close>). \<open>IngestionJobs\<close> (\<open>clients/oracle.py\<close>, the operations on the table of jobs),
\<open>IngestionRuns\<close> (\<open>api/routes/documents.py\<close>, the execution of one job), \<open>IngestionDispatch\<close> and \<open>IngestionWatch\<close>
(\<open>rag/ingestion_worker.py\<close>). \<open>IngestionInvariant\<close> holds the invariant of the table under any interleaving of workers;
\<open>IngestionProperties\<close> what follows: one running job per document, one writer per job, ends are final.

\<^bold>\<open>Search\<close> (\<open>rag/packages/rag_engine/rag_engine/retrieval/\<close>). \<open>RankFusion\<close> (\<open>weighted_rrf.py\<close>) is compared with the
formula of reciprocal ranks, \<open>CandidateBudget\<close> (\<open>candidate_budget.py\<close>) bounds what each stage hands on, and
\<open>RerankSelection\<close> (\<open>rerank_selection.py\<close>) refines its union-find to connected components.

\<^bold>\<open>SQL and data grants\<close> (\<open>nl2sql/backend/app/\<close>).

  \<^item> \<open>SqlLexing\<close>, \<open>SqlClock\<close> (\<open>features/nl2sql/sql_lexing.py\<close>): literals and comments are kept apart from code, and what
    the rewriting keeps.
  \<^item> \<open>SqlMask\<close>, \<open>SqlGuard\<close> (\<open>features/nl2sql/service.py\<close>): the guard before SQL is run. A text is masked, split into
    statements and judged; what is accepted without a confirmation is one query as the lexer above reads it, but for
    two gaps that are shown by examples.
  \<^item> \<open>OracleName\<close> (\<open>features/nl2sql/object_identity.py\<close>): names, canonical tokens and keys.
  \<^item> \<open>ScopeFilter\<close> and \<open>DataGrants\<close> (\<open>security/deepsec.py\<close>), \<open>ScopeTree\<close> (\<open>security/schemas.py\<close>,
    \<open>security/scope_expression.py\<close>): the condition of a data grant. Its values stay inside their literals, each the one
    its condition looks for. The statements of an apply or a reset are performed on a model of the privileges of Oracle
    (\<open>perform\<close>), with any loss or refusal, and make no table readable without its grants, but for the table of the old
    probe, which a reset is about to drop.

\<^bold>\<open>Conventions.\<close> Records and datatypes carry the names of the source, with a prefix where records share a field.
Instants are integers in microseconds or exact fractions of seconds, floats are fractions: a theorem says nothing of
rounding. A dictionary whose order matters is a list of pairs. A text is a list of code points where characters beyond
ASCII matter, a string elsewhere. Errors are values: \<open>Inl\<close>, \<open>None\<close> or a datatype of their own; the texts of messages
are left out or abbreviated. An operation of a store is one transaction; workers interleave between transactions.

\<^bold>\<open>Loops.\<close> Recursion ends by structure or by a proved measure: the tokens of SQL by the length of the text, the
chunks of a wait by the seconds left. The walk to the root of the union-find is a partial function; that it returns is
part of the refinement theorem. There is no fuel. Compound steps of many workers are inductive relations or lists of
steps of any length.

\<^bold>\<open>Parameters.\<close> Code outside \<open>src/\<close> is an argument: digests, HMAC, the hash of passwords, the writing and reading of
JSON and base64, what Python says of letters, digits, spaces and capitals beyond ASCII, what \<open>Decimal\<close> refuses, the
catalog of Oracle. Theorems name what they need of it as hypotheses, for example that what was written as JSON is read
back, or that the signature of another text differs; each has an application to concrete functions.

\<^bold>\<open>Not modelled.\<close> Each of these is listed with its reason in the manifest of this library:

  \<^item> what only calls models or renders their prompts and answers (\<open>rag\<close> generation, \<open>agent\<close> built-in runtime, the
    pipeline of questions in \<open>nl2sql\<close>): the decisions are those of the models;
  \<^item> parsing and chunking of documents, the processes around external parsers;
  \<^item> HTTP routes, request models, settings pages, user interfaces, deployment;
  \<^item> SQL over the other tables (documents, knowledge bases, ontologies), migrations;
  \<^item> evaluation of answers, observability, spreadsheets, language packs.
\<close>

end
